(* ===== verification/EfiPrelude.thy ===== *)
theory EfiPrelude
  imports Main "HOL-Library.Word"
begin

text \<open>
  Shared vocabulary of the development: the machine types of the 64-bit (\<open>EFI64\<close>, IPF)
  target of the firmware, the status codes of \<open>INC/efierr.h\<close>, the outcome of a computation
  that may run out of fuel or perform an undefined memory access, and the generic lemmas on
  lists and words that several components need.
\<close>

unbundle bit_operations_syntax

named_theorems efi_defs \<open>small definitions the component proofs unfold\<close>
named_theorems efi_split \<open>case splits of the outcome type\<close>

type_synonym UINT8 = "8 word"
type_synonym UINT16 = "16 word"
type_synonym UINT32 = "32 word"
type_synonym UINT64 = "64 word"
type_synonym UINTN = "64 word"

text \<open>
  A C \<open>int\<close> is 32 bits wide on the modelled target also where \<open>UINTN\<close> has 64: an \<open>int\<close>
  expression that meets a \<open>UINTN\<close> operand is sign-extended.
\<close>

definition int_to_UINTN :: "32 word \<Rightarrow> UINTN" where
  [efi_defs]: "int_to_UINTN w = scast w"

text \<open>\<open>EFI_MEMORY_TYPE\<close>: a C enumeration, that is an \<open>int\<close>; negative values belong to the OS loader.\<close>

abbreviation (input) EfiReservedMemoryType :: int where "EfiReservedMemoryType \<equiv> 0"
abbreviation (input) EfiLoaderCode :: int where "EfiLoaderCode \<equiv> 1"
abbreviation (input) EfiLoaderData :: int where "EfiLoaderData \<equiv> 2"
abbreviation (input) EfiBootServicesCode :: int where "EfiBootServicesCode \<equiv> 3"
abbreviation (input) EfiBootServicesData :: int where "EfiBootServicesData \<equiv> 4"
abbreviation (input) EfiRuntimeServicesCode :: int where "EfiRuntimeServicesCode \<equiv> 5"
abbreviation (input) EfiRuntimeServicesData :: int where "EfiRuntimeServicesData \<equiv> 6"
abbreviation (input) EfiConventionalMemory :: int where "EfiConventionalMemory \<equiv> 7"
abbreviation (input) EfiUnusableMemory :: int where "EfiUnusableMemory \<equiv> 8"
abbreviation (input) EfiACPIReclaimMemory :: int where "EfiACPIReclaimMemory \<equiv> 9"
abbreviation (input) EfiACPIMemoryNVS :: int where "EfiACPIMemoryNVS \<equiv> 10"
abbreviation (input) EfiPalCode :: int where "EfiPalCode \<equiv> 13"
abbreviation (input) EfiMaxMemoryType :: int where "EfiMaxMemoryType \<equiv> 14"

text \<open>The status codes of \<open>INC/efierr.h\<close>.\<close>

datatype EFI_STATUS =
    EFI_SUCCESS
  | EFI_LOAD_ERROR
  | EFI_INVALID_PARAMETER
  | EFI_UNSUPPORTED
  | EFI_BAD_BUFFER_SIZE
  | EFI_BUFFER_TOO_SMALL
  | EFI_NOT_READY
  | EFI_DEVICE_ERROR
  | EFI_WRITE_PROTECTED
  | EFI_OUT_OF_RESOURCES
  | EFI_VOLUME_CORRUPTED
  | EFI_VOLUME_FULL
  | EFI_NO_MEDIA
  | EFI_MEDIA_CHANGED
  | EFI_NOT_FOUND
  | EFI_ACCESS_DENIED
  | EFI_NO_RESPONSE
  | EFI_NO_MAPPING
  | EFI_TIMEOUT
  | EFI_NOT_STARTED
  | EFI_ALREADY_STARTED
  | EFI_ABORTED
  | EFI_ICMP_ERROR
  | EFI_TFTP_ERROR
  | EFI_PROTOCOL_ERROR
  | EFI_WARN_UNKNOWN_GLYPH
  | EFI_WARN_DELETE_FAILURE
  | EFI_WARN_WRITE_FAILURE
  | EFI_WARN_BUFFER_TOO_SMALL

text \<open>\<open>EFI_ERROR(a)\<close> tests the sign bit, which \<open>EFIERR\<close> sets and \<open>EFIWARN\<close> does not.\<close>

definition EFI_ERROR :: "EFI_STATUS \<Rightarrow> bool" where
  "EFI_ERROR s \<longleftrightarrow>
     s \<notin> {EFI_SUCCESS, EFI_WARN_UNKNOWN_GLYPH, EFI_WARN_DELETE_FAILURE,
           EFI_WARN_WRITE_FAILURE, EFI_WARN_BUFFER_TOO_SMALL}"

lemma EFI_ERROR_simps [simp]:
  "\<not> EFI_ERROR EFI_SUCCESS"
  "EFI_ERROR EFI_INVALID_PARAMETER"
  "EFI_ERROR EFI_UNSUPPORTED"
  "EFI_ERROR EFI_NOT_READY"
  "EFI_ERROR EFI_NOT_FOUND"
  "EFI_ERROR EFI_OUT_OF_RESOURCES"
  "EFI_ERROR EFI_BUFFER_TOO_SMALL"
  by (simp_all add: EFI_ERROR_def)

text \<open>
  The outcome of a piece of code: it returns, it performs an access outside an array or
  through a null pointer (\<open>Fault\<close>; nothing is said of what follows in C), or the fuel of the
  model does not suffice (\<open>NoFuel\<close>).
\<close>

datatype 'a run = Ret 'a | Fault | NoFuel

primrec bind_run :: "'a run \<Rightarrow> ('a \<Rightarrow> 'b run) \<Rightarrow> 'b run" where
  "bind_run (Ret x) f = f x"
| "bind_run Fault f = Fault"
| "bind_run NoFuel f = NoFuel"

lemma bind_run_Ret [simp]: "bind_run m f = Ret y \<longleftrightarrow> (\<exists>x. m = Ret x \<and> f x = Ret y)"
  by (cases m) auto

lemma bind_run_assoc [simp]: "bind_run (bind_run m f) g = bind_run m (\<lambda>x. bind_run (f x) g)"
  by (cases m) auto

lemma bind_run_cong [fundef_cong]:
  "m = m' \<Longrightarrow> (\<And>x. m' = Ret x \<Longrightarrow> f x = f' x) \<Longrightarrow> bind_run m f = bind_run m' f'"
  by (cases m') auto

declare run.splits [efi_split]

text \<open>
  Two readings of a postcondition: \<open>run_ok\<close> also excludes faults, \<open>ret_ok\<close> speaks of the
  returned values only.
\<close>

definition run_ok :: "('a \<Rightarrow> bool) \<Rightarrow> 'a run \<Rightarrow> bool" where
  "run_ok P m \<longleftrightarrow> m \<noteq> Fault \<and> (\<forall>x. m = Ret x \<longrightarrow> P x)"

definition ret_ok :: "('a \<Rightarrow> bool) \<Rightarrow> 'a run \<Rightarrow> bool" where
  "ret_ok P m \<longleftrightarrow> (\<forall>x. m = Ret x \<longrightarrow> P x)"

lemma run_ok_simps [simp]:
  "run_ok P (Ret x) = P x" "run_ok P NoFuel" "\<not> run_ok P Fault"
  "ret_ok P (Ret x) = P x" "ret_ok P NoFuel" "ret_ok P Fault"
  by (simp_all add: run_ok_def ret_ok_def)

lemma run_ok_bind: "run_ok Q m \<Longrightarrow> (\<And>x. Q x \<Longrightarrow> run_ok P (f x)) \<Longrightarrow> run_ok P (bind_run m f)"
  by (cases m) auto

lemma ret_ok_bind: "ret_ok Q m \<Longrightarrow> (\<And>x. Q x \<Longrightarrow> ret_ok P (f x)) \<Longrightarrow> ret_ok P (bind_run m f)"
  by (cases m) auto

lemma run_ok_mono: "run_ok Q m \<Longrightarrow> (\<And>x. Q x \<Longrightarrow> P x) \<Longrightarrow> run_ok P m"
  by (cases m) auto

lemma ret_ok_mono: "ret_ok Q m \<Longrightarrow> (\<And>x. Q x \<Longrightarrow> P x) \<Longrightarrow> ret_ok P m"
  by (cases m) auto

lemma run_okD: "run_ok P m \<Longrightarrow> m = Ret x \<Longrightarrow> P x"
  by simp

lemma ret_okD: "ret_ok P m \<Longrightarrow> m = Ret x \<Longrightarrow> P x"
  by simp

text \<open>Lists as the intrusive lists of the source: distinct, entries removed by identity.\<close>

lemma remove1_distinct_filter: "distinct xs \<Longrightarrow> remove1 x xs = filter (\<lambda>y. y \<noteq> x) xs"
  by (induction xs) (auto intro: sym [OF filter_True])

lemma distinct_snoc [simp]: "distinct (xs @ [x]) \<longleftrightarrow> distinct xs \<and> x \<notin> set xs"
  by auto

lemma word_xor_0_iff: "a XOR b = 0 \<longleftrightarrow> a = b" for a b :: "'a::len word"
  by (metis xor.assoc xor.left_neutral xor.right_neutral xor_self_eq)

lemma word_xor_cancel: "a XOR c = b XOR c \<longleftrightarrow> a = b" for a b c :: "'a::len word"
proof
  assume "a XOR c = b XOR c"
  then have "(a XOR c) XOR c = (b XOR c) XOR c" by simp
  then show "a = b" by (simp add: xor.assoc)
qed simp

lemma ucast_32_64:
  "unat (ucast x :: 64 word) = unat x" "(ucast x :: 64 word) = 0 \<longleftrightarrow> x = 0" for x :: "32 word"
proof -
  have *: "unat x < 2 ^ 32" using unsigned_less [of x, where ?'a = nat] by simp
  then show u: "unat (ucast x :: 64 word) = unat x"
    by (simp add: unsigned_ucast_eq take_bit_nat_eq_self)
  show "(ucast x :: 64 word) = 0 \<longleftrightarrow> x = 0"
    using u by (metis unat_eq_zero)
qed

lemma unat_less_exp_iff: "unat w < 2 ^ k \<longleftrightarrow> (\<forall>j\<ge>k. \<not> bit w j)" for w :: "'a::len word"
proof -
  have "unat w < 2 ^ k \<longleftrightarrow> take_bit k (unat w) = unat w" by (simp add: take_bit_nat_eq_self_iff)
  also have "\<dots> \<longleftrightarrow> (\<forall>j. j < k \<and> bit w j \<longleftrightarrow> bit w j)"
    by (simp add: bit_eq_iff bit_take_bit_iff bit_unsigned_iff) 
  also have "\<dots> \<longleftrightarrow> (\<forall>j\<ge>k. \<not> bit w j)" by (auto simp flip: not_less)
  finally show ?thesis .
qed

lemma word_0_iff_bits: "w = 0 \<longleftrightarrow> (\<forall>j. \<not> bit w j)" for w :: "'a::len word"
  by (auto intro: bit_word_eqI)

lemma and_field_0_iff:
  fixes i :: "'a::len word"
  assumes "unat i < 2 ^ m" and "k \<le> m"
  shows "i AND push_bit k (mask (m - k)) = 0 \<longleftrightarrow> unat i < 2 ^ k"
proof -
  have bnd: "bit i j \<Longrightarrow> j < m \<and> j < LENGTH('a)" for j
    using assms(1) unfolding unat_less_exp_iff by (metis bit_imp_le_length not_le)
  have "bit (i AND push_bit k (mask (m - k))) j \<longleftrightarrow> bit i j \<and> k \<le> j" for j
    using assms(2) bnd [of j] by (auto simp: bit_simps)
  then show ?thesis by (auto simp: word_0_iff_bits unat_less_exp_iff)
qed

end
