(* ===== verification/LinkList.thy ===== *)
theory LinkList
  imports EfiPrelude
begin

text \<open>
  The doubly linked lists of \<open>INC/link.h\<close>. A \<open>LIST_ENTRY\<close> lives at an address of a memory
  \<open>heap\<close>; the list macros are the assignments they expand to, in the same order. \<open>dlist\<close> is
  the representation relation between a list head in the memory and the list of its entries,
  and the lemmas show that the macros implement the list operations the other components use.
\<close>

section \<open>The macros\<close>

record LIST_ENTRY =
  Flink :: UINTN
  Blink :: UINTN

type_synonym heap = "UINTN \<Rightarrow> LIST_ENTRY"

definition set_Flink :: "heap \<Rightarrow> UINTN \<Rightarrow> UINTN \<Rightarrow> heap" where
  "set_Flink h p v = h(p := (h p)\<lparr>Flink := v\<rparr>)"

definition set_Blink :: "heap \<Rightarrow> UINTN \<Rightarrow> UINTN \<Rightarrow> heap" where
  "set_Blink h p v = h(p := (h p)\<lparr>Blink := v\<rparr>)"

definition InitializeListHead :: "heap \<Rightarrow> UINTN \<Rightarrow> heap" where
  "InitializeListHead h ListHead =
     (let h1 = set_Flink h ListHead ListHead
      in set_Blink h1 ListHead ListHead)"

definition IsListEmpty :: "heap \<Rightarrow> UINTN \<Rightarrow> bool" where
  "IsListEmpty h ListHead \<longleftrightarrow> Flink (h ListHead) = ListHead"

definition RemoveEntryList :: "heap \<Rightarrow> UINTN \<Rightarrow> heap" where
  "RemoveEntryList h Entry =
     (let F = Flink (h Entry);
          B = Blink (h Entry);
          h1 = set_Flink h B F
      in set_Blink h1 F B)"

definition InsertTailList :: "heap \<Rightarrow> UINTN \<Rightarrow> UINTN \<Rightarrow> heap" where
  "InsertTailList h ListHead Entry =
     (let B = Blink (h ListHead);
          h1 = set_Flink h Entry ListHead;
          h2 = set_Blink h1 Entry B;
          h3 = set_Flink h2 B Entry
      in set_Blink h3 ListHead Entry)"

definition InsertHeadList :: "heap \<Rightarrow> UINTN \<Rightarrow> UINTN \<Rightarrow> heap" where
  "InsertHeadList h ListHead Entry =
     (let F = Flink (h ListHead);
          h1 = set_Flink h Entry F;
          h2 = set_Blink h1 Entry ListHead;
          h3 = set_Blink h2 F Entry
      in set_Flink h3 ListHead Entry)"

definition SwapListEntries :: "heap \<Rightarrow> UINTN \<Rightarrow> UINTN \<Rightarrow> heap" where
  "SwapListEntries h Entry1 Entry2 =
     (let Entry2Flink = Flink (h Entry2);
          Entry2Blink = Blink (h Entry2);
          Entry1Blink = Blink (h Entry1);
          h1 = set_Flink h Entry2Blink Entry2Flink;
          h2 = set_Blink h1 Entry2Flink Entry2Blink;
          h3 = set_Flink h2 Entry2 Entry1;
          h4 = set_Blink h3 Entry2 Entry1Blink;
          h5 = set_Flink h4 Entry1Blink Entry2
      in set_Blink h5 Entry1 Entry2)"

text \<open>
  The loop every client writes,
  \<^verbatim>\<open>for (Link = Head->Flink; Link != Head; Link = Link->Flink)\<close>, as the list of the entries
  it visits; \<open>None\<close> when \<open>fuel\<close> iterations do not reach the head again.
\<close>

fun walk :: "nat \<Rightarrow> heap \<Rightarrow> UINTN \<Rightarrow> UINTN \<Rightarrow> UINTN list option" where
  "walk 0 h Head Link = None"
| "walk (Suc fuel) h Head Link =
     (if Link = Head then Some []
      else map_option (\<lambda>ls. Link # ls) (walk fuel h Head (Flink (h Link))))"

section \<open>The representation relation\<close>

fun seg :: "heap \<Rightarrow> UINTN \<Rightarrow> UINTN list \<Rightarrow> UINTN \<Rightarrow> bool" where
  "seg h p [] q \<longleftrightarrow> Flink (h p) = q \<and> Blink (h q) = p"
| "seg h p (x # xs) q \<longleftrightarrow> Flink (h p) = x \<and> Blink (h x) = p \<and> seg h x xs q"

definition dlist :: "heap \<Rightarrow> UINTN \<Rightarrow> UINTN list \<Rightarrow> bool" where
  "dlist h Head xs \<longleftrightarrow> distinct (Head # xs) \<and> seg h Head xs Head"

section \<open>Lemmas on the heap\<close>

lemma Flink_set [simp]:
  "Flink (set_Flink h p v a) = (if a = p then v else Flink (h a))"
  "Flink (set_Blink h p v a) = Flink (h a)"
  "Blink (set_Blink h p v a) = (if a = p then v else Blink (h a))"
  "Blink (set_Flink h p v a) = Blink (h a)"
  by (simp_all add: set_Flink_def set_Blink_def)

lemma seg_append: "seg h p (xs @ y # ys) q \<longleftrightarrow> seg h p xs y \<and> seg h y ys q"
  by (induction xs arbitrary: p) auto

text \<open>
  \<open>seg\<close> reads the forward links of \<open>p\<close> and the entries and the backward links of the
  entries and \<open>q\<close>, and nothing else.
\<close>

lemma seg_cong:
  assumes "\<And>a. a \<in> insert p (set xs) \<Longrightarrow> Flink (h' a) = Flink (h a)"
    and "\<And>a. a \<in> insert q (set xs) \<Longrightarrow> Blink (h' a) = Blink (h a)"
  shows "seg h' p xs q = seg h p xs q"
  using assms by (induction xs arbitrary: p) auto

lemma seg_Flink: "seg h p xs q \<Longrightarrow> Flink (h p) = (case xs of [] \<Rightarrow> q | x # _ \<Rightarrow> x)"
  by (cases xs) auto

lemma seg_Blink: "seg h p xs q \<Longrightarrow> Blink (h q) = (if xs = [] then p else last xs)"
  by (induction xs arbitrary: p) auto

text \<open>Links stored at addresses outside a list do not concern it: the frame of a list.\<close>

lemma dlist_frame:
  "dlist h Head xs \<Longrightarrow> (\<And>a. a \<in> set (Head # xs) \<Longrightarrow> h' a = h a) \<Longrightarrow> dlist h' Head xs"
  unfolding dlist_def using seg_cong [of Head xs h' h Head] by auto

lemma seg_set_Flink [simp]: "a \<notin> set (p # xs) \<Longrightarrow> seg (set_Flink h a v) p xs q = seg h p xs q"
  by (rule seg_cong) auto

lemma seg_set_Blink [simp]: "a \<notin> set (q # xs) \<Longrightarrow> seg (set_Blink h a v) p xs q = seg h p xs q"
  by (rule seg_cong) auto

section \<open>Each macro implements its list operation\<close>

lemma dlist_init: "dlist (InitializeListHead h Head) Head []"
  by (simp add: dlist_def InitializeListHead_def Let_def)

lemma dlist_empty: "dlist h Head xs \<Longrightarrow> IsListEmpty h Head \<longleftrightarrow> xs = []"
  by (cases xs) (auto simp: dlist_def IsListEmpty_def)

lemma dlist_first: "dlist h Head (x # xs) \<Longrightarrow> Flink (h Head) = x"
  by (simp add: dlist_def)

text \<open>
  \<open>InsertTailList\<close> links the new entry in front of whatever its first argument points to:
  the head, for the end of the list, or an entry, for the sorted insertions of
  \<open>InsertEventTimer\<close> and \<open>FreeMemoryMapStack\<close>.
\<close>

lemma dlist_insert_before:
  assumes "dlist h Head (xs @ ys)" and "e \<notin> set (Head # xs @ ys)"
    and "pos = (case ys of [] \<Rightarrow> Head | y # _ \<Rightarrow> y)"
  shows "dlist (InsertTailList h pos e) Head (xs @ e # ys)"
  using assms
  by (cases ys; cases xs rule: rev_cases)
     (auto simp: dlist_def InsertTailList_def Let_def seg_append)

lemma dlist_insert_after:
  assumes "dlist h Head (xs @ ys)" and "e \<notin> set (Head # xs @ ys)"
    and "pos = (if xs = [] then Head else last xs)"
  shows "dlist (InsertHeadList h pos e) Head (xs @ e # ys)"
  using assms
  by (cases ys; cases xs rule: rev_cases)
     (auto simp: dlist_def InsertHeadList_def Let_def seg_append)

lemma dlist_remove:
  assumes "dlist h Head (xs @ e # ys)"
  shows "dlist (RemoveEntryList h e) Head (xs @ ys)"
  using assms
  by (cases ys; cases xs rule: rev_cases)
     (auto simp: dlist_def RemoveEntryList_def Let_def seg_append)

text \<open>
  \<open>SwapListEntries\<close> is a removal followed by an insertion, unless \<open>Entry2\<close> is already the
  predecessor of \<open>Entry1\<close>.
\<close>

lemma SwapListEntries_alt:
  "Flink (h b) \<noteq> a \<Longrightarrow> SwapListEntries h a b = InsertTailList (RemoveEntryList h b) a b"
  by (simp add: SwapListEntries_def InsertTailList_def RemoveEntryList_def Let_def)

lemma dlist_swap:
  assumes "dlist h Head (xs @ a # ys @ b # zs)"
  shows "dlist (SwapListEntries h a b) Head (xs @ b # a # ys @ zs)"
proof -
  have "Flink (h b) = (case zs of [] \<Rightarrow> Head | z # _ \<Rightarrow> z)"
    using assms by (cases zs) (auto simp: dlist_def seg_append)
  then have "Flink (h b) \<noteq> a"
    using assms by (auto simp: dlist_def split: list.splits)
  moreover have "dlist (RemoveEntryList h b) Head (xs @ a # ys @ zs)"
    using dlist_remove [of h Head "xs @ a # ys" b zs] assms by simp
  then have "dlist (InsertTailList (RemoveEntryList h b) a b) Head (xs @ b # a # ys @ zs)"
    by (rule dlist_insert_before) (use assms in \<open>auto simp: dlist_def\<close>)
  ultimately show ?thesis by (simp add: SwapListEntries_alt)
qed

lemma dlist_swap_back:
  assumes "dlist h Head (xs @ a # ys @ b # zs)" and "ys \<noteq> []"
  shows "dlist (SwapListEntries h b a) Head (xs @ ys @ a # b # zs)"
proof -
  obtain y ys' where ys: "ys = y # ys'" using assms(2) by (cases ys) auto
  have "Flink (h a) \<noteq> b" using assms(1) ys by (auto simp: dlist_def seg_append)
  moreover have "dlist (RemoveEntryList h a) Head ((xs @ ys) @ b # zs)" using dlist_remove [OF assms(1)] by simp
  then have "dlist (InsertTailList (RemoveEntryList h a) b a) Head ((xs @ ys) @ a # b # zs)"
    by (rule dlist_insert_before) (use assms in \<open>auto simp: dlist_def\<close>)
  ultimately show ?thesis by (simp add: SwapListEntries_alt)
qed

lemma walk_seg:
  "seg h p xs Head \<Longrightarrow> Head \<notin> set xs \<Longrightarrow> length xs < fuel \<Longrightarrow> walk fuel h Head (Flink (h p)) = Some xs"
proof (induction xs arbitrary: p fuel)
  case Nil
  then show ?case by (cases fuel) auto
next
  case (Cons x xs)
  then obtain n where "fuel = Suc n" by (cases fuel) auto
  with Cons show ?case by auto
qed

lemma dlist_walk: "dlist h Head xs \<Longrightarrow> length xs < fuel \<Longrightarrow> walk fuel h Head (Flink (h Head)) = Some xs"
  by (auto simp: dlist_def intro: walk_seg)

section \<open>The interface the clients rely on\<close>

text \<open>
  What the event, memory and handle code assumes of a list: entries appended at the tail or
  the head, removed by identity, the emptiness test and the first entry. \<open>drain_loop\<close> is the
  shape of every dispatch loop of the core,
  \<^verbatim>\<open>while (!IsListEmpty(Head)) { e = Head->Flink; RemoveEntryList(e); ... }\<close>, over such an
  interface, as the list of the entries it takes.
\<close>

fun drain_loop ::
  "('h \<Rightarrow> 'p \<Rightarrow> bool) \<Rightarrow> ('h \<Rightarrow> 'p \<Rightarrow> 'p) \<Rightarrow> ('h \<Rightarrow> 'p \<Rightarrow> 'h) \<Rightarrow> nat \<Rightarrow> 'h \<Rightarrow> 'p \<Rightarrow> ('p list \<times> 'h) option"
where
  "drain_loop emp fst_of rem 0 h q = None"
| "drain_loop emp fst_of rem (Suc fuel) h q =
     (if emp h q then Some ([], h)
      else let e = fst_of h q
           in map_option (\<lambda>(es, h'). (e # es, h')) (drain_loop emp fst_of rem fuel (rem h e) q))"

locale list_store =
  fixes rep :: "'h \<Rightarrow> 'p \<Rightarrow> 'p list \<Rightarrow> bool"
    and insert_tail :: "'h \<Rightarrow> 'p \<Rightarrow> 'p \<Rightarrow> 'h"
    and insert_head :: "'h \<Rightarrow> 'p \<Rightarrow> 'p \<Rightarrow> 'h"
    and remove :: "'h \<Rightarrow> 'p \<Rightarrow> 'h"
    and is_empty :: "'h \<Rightarrow> 'p \<Rightarrow> bool"
    and first :: "'h \<Rightarrow> 'p \<Rightarrow> 'p"
  assumes rep_distinct: "rep h q xs \<Longrightarrow> distinct (q # xs)"
    and rep_insert_tail: "rep h q xs \<Longrightarrow> e \<notin> set (q # xs) \<Longrightarrow> rep (insert_tail h q e) q (xs @ [e])"
    and rep_insert_head: "rep h q xs \<Longrightarrow> e \<notin> set (q # xs) \<Longrightarrow> rep (insert_head h q e) q (e # xs)"
    and rep_remove: "rep h q (xs @ e # ys) \<Longrightarrow> rep (remove h e) q (xs @ ys)"
    and rep_is_empty: "rep h q xs \<Longrightarrow> is_empty h q \<longleftrightarrow> xs = []"
    and rep_first: "rep h q (x # xs) \<Longrightarrow> first h q = x"
begin

lemma rep_enqueue:
  "rep h q xs \<Longrightarrow> distinct es \<Longrightarrow> set es \<inter> set (q # xs) = {}
   \<Longrightarrow> rep (foldl (\<lambda>h e. insert_tail h q e) h es) q (xs @ es)"
proof (induction es arbitrary: h xs)
  case Nil
  then show ?case by simp
next
  case (Cons e es)
  from Cons.prems have "rep (insert_tail h q e) q (xs @ [e])"
    by (intro rep_insert_tail) auto
  from Cons.IH [OF this] Cons.prems show ?case by auto
qed

lemma rep_remove_member:
  assumes "rep h q xs" and "e \<in> set xs"
  shows "rep (remove h e) q (remove1 e xs)"
proof -
  from assms(2) obtain ys zs where xs: "xs = ys @ e # zs" by (auto simp: in_set_conv_decomp)
  with rep_distinct [OF assms(1)] have "remove1 e xs = ys @ zs" by (simp add: remove1_append)
  with rep_remove [of h q ys e zs] assms(1) xs show ?thesis by simp
qed

lemma rep_drain:
  "rep h q xs \<Longrightarrow> length xs < fuel
   \<Longrightarrow> \<exists>h'. drain_loop is_empty first remove fuel h q = Some (xs, h') \<and> rep h' q []"
proof (induction xs arbitrary: h fuel)
  case Nil
  then show ?case by (cases fuel) (auto simp: rep_is_empty)
next
  case (Cons x xs)
  then obtain n where n: "fuel = Suc n" by (cases fuel) auto
  have "rep (remove h x) q xs" using rep_remove [of h q "[]"] Cons.prems(1) by simp
  from Cons.IH [OF this, of n] Cons.prems n show ?case
    by (auto simp: rep_is_empty [OF Cons.prems(1)] rep_first [OF Cons.prems(1)])
qed

lemma rep_fifo:
  assumes "rep h q []" and "distinct es" and "q \<notin> set es" and "length es < fuel"
  shows "\<exists>h'. drain_loop is_empty first remove fuel (foldl (\<lambda>h e. insert_tail h q e) h es) q
              = Some (es, h') \<and> rep h' q []"
  using rep_drain [OF rep_enqueue [OF assms(1,2)], of fuel] assms(3,4) by simp

end

interpretation link_h: list_store dlist InsertTailList InsertHeadList RemoveEntryList IsListEmpty
  "\<lambda>h q. Flink (h q)"
proof unfold_locales
  show "dlist h q xs \<Longrightarrow> e \<notin> set (q # xs) \<Longrightarrow> dlist (InsertTailList h q e) q (xs @ [e])" for h q xs e
    using dlist_insert_before [of h q xs "[]" e q] by simp
  show "dlist h q xs \<Longrightarrow> e \<notin> set (q # xs) \<Longrightarrow> dlist (InsertHeadList h q e) q (e # xs)" for h q xs e
    using dlist_insert_after [of h q "[]" xs e q] by simp
  show "dlist h q xs \<Longrightarrow> distinct (q # xs)" for h q xs
    by (simp add: dlist_def)
qed (simp_all add: dlist_empty dlist_first dlist_remove)

section \<open>Properties\<close>

text \<open>
  C1: the list macros of \<open>link.h\<close> are a FIFO queue. On a freshly initialised head, appending
  any distinct entries with \<open>InsertTailList\<close> and draining the list with the
  test-first-remove loop yields exactly the entries in the order they were appended, and
  leaves an empty list. The number of iterations needed is bounded by the number of entries.
\<close>

theorem link_list_fifo:
  assumes "distinct es" and "Head \<notin> set es" and "length es < fuel"
  shows "\<exists>h'. drain_loop IsListEmpty (\<lambda>h q. Flink (h q)) RemoveEntryList fuel
              (foldl (\<lambda>h e. InsertTailList h Head e) (InitializeListHead h Head) es) Head
            = Some (es, h') \<and> dlist h' Head []"
  using link_h.rep_fifo [OF dlist_init assms] .

theorem link_list_fifo_witness:
  "\<exists>h'. drain_loop IsListEmpty (\<lambda>h q. Flink (h q)) RemoveEntryList 4
              (foldl (\<lambda>h e. InsertTailList h 100 e)
                 (InitializeListHead (\<lambda>_. \<lparr>Flink = 0, Blink = 0\<rparr>) 100) [8, 16, 24]) 100
            = Some ([8, 16, 24], h') \<and> dlist h' 100 []"
  by (rule link_list_fifo) simp_all

text \<open>
  C2: each list macro refines its operation on lists, at every position of a list: insertion in front of
  the head is at the end and insertion behind the head at the front; insertion in front of or behind any
  entry puts the new entry there; any entry, the only or the last one too, can be removed; and
  \<open>SwapListEntries\<close> puts an entry in front of another one wherever the two stand, unless it stands
  directly there already (what happens then is C3). A traversal visits exactly the entries, in order.
\<close>

theorem link_macros_refine:
  assumes "dlist h Head es"
  shows "(e \<notin> set (Head # es) \<longrightarrow>
            dlist (InsertTailList h Head e) Head (es @ [e]) \<and> dlist (InsertHeadList h Head e) Head (e # es)) \<and>
         (\<forall>xs a ys. es = xs @ a # ys \<longrightarrow>
            (e \<notin> set (Head # es) \<longrightarrow> dlist (InsertTailList h a e) Head (xs @ e # a # ys) \<and>
                                    dlist (InsertHeadList h a e) Head (xs @ a # e # ys)) \<and>
            dlist (RemoveEntryList h a) Head (xs @ ys)) \<and>
         (\<forall>xs a ys b zs. es = xs @ a # ys @ b # zs \<longrightarrow>
            dlist (SwapListEntries h a b) Head (xs @ b # a # ys @ zs) \<and>
            (ys \<noteq> [] \<longrightarrow> dlist (SwapListEntries h b a) Head (xs @ ys @ a # b # zs))) \<and>
         walk (Suc (length es)) h Head (Flink (h Head)) = Some es"
proof (intro conjI allI impI)
  assume e: "e \<notin> set (Head # es)"
  then show "dlist (InsertTailList h Head e) Head (es @ [e])" "dlist (InsertHeadList h Head e) Head (e # es)"
    using assms dlist_insert_before [of h Head es "[]" e Head] dlist_insert_after [of h Head "[]" es e Head] by simp_all
next
  fix xs a ys assume es: "es = xs @ a # ys"
  show "dlist (RemoveEntryList h a) Head (xs @ ys)" using assms dlist_remove unfolding es by blast
  assume "e \<notin> set (Head # es)"
  then show "dlist (InsertTailList h a e) Head (xs @ e # a # ys)" "dlist (InsertHeadList h a e) Head (xs @ a # e # ys)"
    using assms dlist_insert_before [of h Head xs "a # ys" e a] dlist_insert_after [of h Head "xs @ [a]" ys e a]
    unfolding es by simp_all
next
  fix xs a ys b zs assume es: "es = xs @ a # ys @ b # zs"
  show "dlist (SwapListEntries h a b) Head (xs @ b # a # ys @ zs)" by (rule dlist_swap) (use assms es in simp)
  assume "ys \<noteq> []"
  then show "dlist (SwapListEntries h b a) Head (xs @ ys @ a # b # zs)" using dlist_swap_back [of h Head xs a ys b zs] assms unfolding es by simp
next
  show "walk (Suc (length es)) h Head (Flink (h Head)) = Some es" by (rule dlist_walk [OF assms]) simp
qed

theorem link_macros_refine_witness:
  "\<exists>h. dlist h 100 [8, 16, 24] \<and> dlist (SwapListEntries h 8 24) 100 [24, 8, 16] \<and> dlist (SwapListEntries h 24 8) 100 [16, 8, 24] \<and>
       dlist (RemoveEntryList h 24) 100 [8, 16] \<and> dlist (InsertHeadList h 24 32) 100 [8, 16, 24, 32] \<and>
       dlist (InsertHeadList h 100 32) 100 [32, 8, 16, 24]"
proof -
  define h where "h = foldl (\<lambda>h e. InsertTailList h 100 e)
     (InitializeListHead (\<lambda>_. \<lparr>Flink = 0, Blink = 0\<rparr>) 100) [8, 16, 24]"
  have d: "dlist h 100 [8, 16, 24]"
    unfolding h_def using link_h.rep_enqueue [OF dlist_init, of "[8, 16, 24]" 100] by simp
  note r = link_macros_refine [OF d, of 32]
  have "dlist (SwapListEntries h 8 24) 100 [24, 8, 16]" "dlist (SwapListEntries h 24 8) 100 [16, 8, 24]"
    using r [THEN conjunct2, THEN conjunct2, THEN conjunct1, rule_format, of "[]" 8 "[16]" 24 "[]"] by simp_all
  moreover have "dlist (RemoveEntryList h 24) 100 [8, 16]" "dlist (InsertHeadList h 24 32) 100 [8, 16, 24, 32]"
    using r [THEN conjunct2, THEN conjunct1, rule_format, of "[8, 16]" 24 "[]"] by simp_all
  moreover have "dlist (InsertHeadList h 100 32) 100 [32, 8, 16, 24]" using r [THEN conjunct1] by simp
  ultimately show ?thesis using d by blast
qed

text \<open>
  C3: \<open>SwapListEntries(Entry1, Entry2)\<close> is specified as ``put Entry2 before Entry1'', but when
  \<open>Entry2\<close> already stands directly before \<open>Entry1\<close> the macro reads \<open>Entry1\<close>'s stale
  backward link and leaves \<open>Entry2\<close> linked to itself in both directions, so that it is no
  longer reachable from the list.
\<close>

theorem swap_adjacent_self_loop:
  assumes "dlist h Head (xs @ b # a # ys)"
  shows "Flink (SwapListEntries h a b b) = b \<and> Blink (SwapListEntries h a b b) = b"
  using assms by (auto simp: dlist_def seg_append SwapListEntries_def Let_def)

theorem swap_adjacent_self_loop_witness:
  "\<exists>h. dlist h 100 ([] @ 8 # 16 # []) \<and> Flink (SwapListEntries h 16 8 8) = 8"
proof -
  have d: "dlist (foldl (\<lambda>h e. InsertTailList h 100 e)
     (InitializeListHead (\<lambda>_. \<lparr>Flink = 0, Blink = 0\<rparr>) 100) [8, 16]) 100 ([] @ 8 # 16 # [])"
    using link_h.rep_enqueue [OF dlist_init, of "[8, 16]" 100] by simp
  with swap_adjacent_self_loop [OF d] show ?thesis by blast
qed

end
