(* ===== verification/Crc32.thy ===== *)
theory Crc32
  imports EfiPrelude
begin

text \<open>
  The CRC-32 service (\<open>COREFW/fw/efi/crc/crc.c\<close>) and its library clients (\<open>LIB/crc.c\<close>),
  which protect the EFI table headers. A buffer is the list of the bytes that may be read
  from a pointer on.
\<close>

section \<open>The service\<close>

definition CRCTable :: "UINT32 list" where
  "CRCTable = [
     0x00000000, 0x77073096, 0xEE0E612C, 0x990951BA, 0x076DC419, 0x706AF48F,
     0xE963A535, 0x9E6495A3, 0x0EDB8832, 0x79DCB8A4, 0xE0D5E91E, 0x97D2D988,
     0x09B64C2B, 0x7EB17CBD, 0xE7B82D07, 0x90BF1D91, 0x1DB71064, 0x6AB020F2,
     0xF3B97148, 0x84BE41DE, 0x1ADAD47D, 0x6DDDE4EB, 0xF4D4B551, 0x83D385C7,
     0x136C9856, 0x646BA8C0, 0xFD62F97A, 0x8A65C9EC, 0x14015C4F, 0x63066CD9,
     0xFA0F3D63, 0x8D080DF5, 0x3B6E20C8, 0x4C69105E, 0xD56041E4, 0xA2677172,
     0x3C03E4D1, 0x4B04D447, 0xD20D85FD, 0xA50AB56B, 0x35B5A8FA, 0x42B2986C,
     0xDBBBC9D6, 0xACBCF940, 0x32D86CE3, 0x45DF5C75, 0xDCD60DCF, 0xABD13D59,
     0x26D930AC, 0x51DE003A, 0xC8D75180, 0xBFD06116, 0x21B4F4B5, 0x56B3C423,
     0xCFBA9599, 0xB8BDA50F, 0x2802B89E, 0x5F058808, 0xC60CD9B2, 0xB10BE924,
     0x2F6F7C87, 0x58684C11, 0xC1611DAB, 0xB6662D3D, 0x76DC4190, 0x01DB7106,
     0x98D220BC, 0xEFD5102A, 0x71B18589, 0x06B6B51F, 0x9FBFE4A5, 0xE8B8D433,
     0x7807C9A2, 0x0F00F934, 0x9609A88E, 0xE10E9818, 0x7F6A0DBB, 0x086D3D2D,
     0x91646C97, 0xE6635C01, 0x6B6B51F4, 0x1C6C6162, 0x856530D8, 0xF262004E,
     0x6C0695ED, 0x1B01A57B, 0x8208F4C1, 0xF50FC457, 0x65B0D9C6, 0x12B7E950,
     0x8BBEB8EA, 0xFCB9887C, 0x62DD1DDF, 0x15DA2D49, 0x8CD37CF3, 0xFBD44C65,
     0x4DB26158, 0x3AB551CE, 0xA3BC0074, 0xD4BB30E2, 0x4ADFA541, 0x3DD895D7,
     0xA4D1C46D, 0xD3D6F4FB, 0x4369E96A, 0x346ED9FC, 0xAD678846, 0xDA60B8D0,
     0x44042D73, 0x33031DE5, 0xAA0A4C5F, 0xDD0D7CC9, 0x5005713C, 0x270241AA,
     0xBE0B1010, 0xC90C2086, 0x5768B525, 0x206F85B3, 0xB966D409, 0xCE61E49F,
     0x5EDEF90E, 0x29D9C998, 0xB0D09822, 0xC7D7A8B4, 0x59B33D17, 0x2EB40D81,
     0xB7BD5C3B, 0xC0BA6CAD, 0xEDB88320, 0x9ABFB3B6, 0x03B6E20C, 0x74B1D29A,
     0xEAD54739, 0x9DD277AF, 0x04DB2615, 0x73DC1683, 0xE3630B12, 0x94643B84,
     0x0D6D6A3E, 0x7A6A5AA8, 0xE40ECF0B, 0x9309FF9D, 0x0A00AE27, 0x7D079EB1,
     0xF00F9344, 0x8708A3D2, 0x1E01F268, 0x6906C2FE, 0xF762575D, 0x806567CB,
     0x196C3671, 0x6E6B06E7, 0xFED41B76, 0x89D32BE0, 0x10DA7A5A, 0x67DD4ACC,
     0xF9B9DF6F, 0x8EBEEFF9, 0x17B7BE43, 0x60B08ED5, 0xD6D6A3E8, 0xA1D1937E,
     0x38D8C2C4, 0x4FDFF252, 0xD1BB67F1, 0xA6BC5767, 0x3FB506DD, 0x48B2364B,
     0xD80D2BDA, 0xAF0A1B4C, 0x36034AF6, 0x41047A60, 0xDF60EFC3, 0xA867DF55,
     0x316E8EEF, 0x4669BE79, 0xCB61B38C, 0xBC66831A, 0x256FD2A0, 0x5268E236,
     0xCC0C7795, 0xBB0B4703, 0x220216B9, 0x5505262F, 0xC5BA3BBE, 0xB2BD0B28,
     0x2BB45A92, 0x5CB36A04, 0xC2D7FFA7, 0xB5D0CF31, 0x2CD99E8B, 0x5BDEAE1D,
     0x9B64C2B0, 0xEC63F226, 0x756AA39C, 0x026D930A, 0x9C0906A9, 0xEB0E363F,
     0x72076785, 0x05005713, 0x95BF4A82, 0xE2B87A14, 0x7BB12BAE, 0x0CB61B38,
     0x92D28E9B, 0xE5D5BE0D, 0x7CDCEFB7, 0x0BDBDF21, 0x86D3D2D4, 0xF1D4E242,
     0x68DDB3F8, 0x1FDA836E, 0x81BE16CD, 0xF6B9265B, 0x6FB077E1, 0x18B74777,
     0x88085AE6, 0xFF0F6A70, 0x66063BCA, 0x11010B5C, 0x8F659EFF, 0xF862AE69,
     0x616BFFD3, 0x166CCF45, 0xA00AE278, 0xD70DD2EE, 0x4E048354, 0x3903B3C2,
     0xA7672661, 0xD06016F7, 0x4969474D, 0x3E6E77DB, 0xAED16A4A, 0xD9D65ADC,
     0x40DF0B66, 0x37D83BF0, 0xA9BCAE53, 0xDEBB9EC5, 0x47B2CF7F, 0x30B5FFE9,
     0xBDBDF21C, 0xCABAC28A, 0x53B39330, 0x24B4A3A6, 0xBAD03605, 0xCDD70693,
     0x54DE5729, 0x23D967BF, 0xB3667A2E, 0xC4614AB8, 0x5D681B02, 0x2A6F2B94,
     0xB40BBE37, 0xC30C8EA1, 0x5A05DF1B, 0x2D02EF8D]"

text \<open>\<^verbatim>\<open>*Crc = (*Crc >> 8) ^ CRCTable[(UINT8) *Crc ^ *Buffer]\<close>\<close>

definition crc_step :: "UINT32 \<Rightarrow> UINT8 \<Rightarrow> UINT32" where
  "crc_step Crc b = drop_bit 8 Crc XOR CRCTable ! unat ((ucast Crc :: UINT8) XOR b)"

fun crc_loop :: "nat \<Rightarrow> UINT8 list \<Rightarrow> UINT32 \<Rightarrow> UINT32 run" where
  "crc_loop 0 Buffer Crc = Ret Crc"
| "crc_loop (Suc Size) [] Crc = Fault"
| "crc_loop (Suc Size) (b # Buffer) Crc = crc_loop Size Buffer (crc_step Crc b)"

text \<open>
  The pointer \<open>pt\<close> is \<open>None\<close> when null; \<open>Crc\<close> says whether the result pointer is not null.
\<close>

definition RtCalculateCrc32 :: "UINT8 list option \<Rightarrow> UINTN \<Rightarrow> bool \<Rightarrow> (EFI_STATUS \<times> UINT32 option) run" where
  "RtCalculateCrc32 pt Size Crc =
     (case pt of
        None \<Rightarrow> Ret (EFI_INVALID_PARAMETER, None)
      | Some Buffer \<Rightarrow>
          if Size = 0 \<or> \<not> Crc then Ret (EFI_INVALID_PARAMETER, None)
          else bind_run (crc_loop (unat Size) Buffer 0xFFFFFFFF)
                 (\<lambda>c. Ret (EFI_SUCCESS, Some (c XOR 0xFFFFFFFF))))"

section \<open>Table headers\<close>

text \<open>
  An \<open>EFI_TABLE_HEADER\<close> is \<open>Signature\<close> (8 bytes), \<open>Revision\<close>, \<open>HeaderSize\<close>, \<open>CRC32\<close> and
  \<open>Reserved\<close> (4 bytes each, little endian); a table is its bytes.
\<close>

definition get32 :: "nat \<Rightarrow> UINT8 list \<Rightarrow> UINT32" where
  "get32 off m = ucast (m ! off) OR push_bit 8 (ucast (m ! (off + 1)))
     OR push_bit 16 (ucast (m ! (off + 2))) OR push_bit 24 (ucast (m ! (off + 3)))"

definition put32 :: "nat \<Rightarrow> UINT32 \<Rightarrow> UINT8 list \<Rightarrow> UINT8 list" where
  "put32 off v m = m[off := ucast v, off + 1 := ucast (drop_bit 8 v),
     off + 2 := ucast (drop_bit 16 v), off + 3 := ucast (drop_bit 24 v)]"

definition HeaderSize :: "UINT8 list \<Rightarrow> UINT32" where
  "HeaderSize Hdr = get32 12 Hdr"

definition CRC32_field :: "UINT8 list \<Rightarrow> UINT32" where
  "CRC32_field Hdr = get32 16 Hdr"

definition set_CRC32_field :: "UINT32 \<Rightarrow> UINT8 list \<Rightarrow> UINT8 list" where
  "set_CRC32_field v Hdr = put32 16 v Hdr"

text \<open>
  When \<open>CalculateCrc32\<close> fails the local \<open>Crc\<close> is stored uninitialised: \<open>Fault\<close>.
\<close>

definition SetCrcAltSize :: "UINTN \<Rightarrow> UINT8 list \<Rightarrow> UINT8 list run" where
  "SetCrcAltSize Size Hdr =
     (let Hdr0 = set_CRC32_field 0 Hdr
      in bind_run (RtCalculateCrc32 (Some Hdr0) Size True)
           (\<lambda>(Status, Crc). case Crc of None \<Rightarrow> Fault | Some c \<Rightarrow> Ret (set_CRC32_field c Hdr0)))"

definition SetCrc :: "UINT8 list \<Rightarrow> UINT8 list run" where
  "SetCrc Hdr = SetCrcAltSize (ucast (HeaderSize Hdr)) Hdr"

definition CheckCrcAltSize :: "UINTN \<Rightarrow> UINTN \<Rightarrow> UINT8 list \<Rightarrow> (bool \<times> UINT8 list) run" where
  "CheckCrcAltSize MaxSize Size Hdr =
     (if Size = 0 then Ret (False, Hdr)
      else if MaxSize \<noteq> 0 \<and> Size > MaxSize then Ret (False, Hdr)
      else let OrgCrc = CRC32_field Hdr;
               Hdr0 = set_CRC32_field 0 Hdr
           in bind_run (RtCalculateCrc32 (Some Hdr0) Size True)
                (\<lambda>(Status, Crc). case Crc of None \<Rightarrow> Fault
                   | Some c \<Rightarrow> Ret (OrgCrc = c, set_CRC32_field OrgCrc Hdr0)))"

definition CheckCrc :: "UINTN \<Rightarrow> UINT8 list \<Rightarrow> (bool \<times> UINT8 list) run" where
  "CheckCrc MaxSize Hdr = CheckCrcAltSize MaxSize (ucast (HeaderSize Hdr)) Hdr"

section \<open>The reference: CRC-32 bit by bit\<close>

definition crc_bit :: "UINT32 \<Rightarrow> UINT32" where
  "crc_bit c = (if bit c 0 then drop_bit 1 c XOR 0xEDB88320 else drop_bit 1 c)"

definition crc_byte :: "UINT32 \<Rightarrow> UINT8 \<Rightarrow> UINT32" where
  "crc_byte c b = (crc_bit ^^ 8) (c XOR ucast b)"

definition crc32_spec :: "UINT8 list \<Rightarrow> UINT32" where
  "crc32_spec bs = NOT (foldl crc_byte 0xFFFFFFFF bs)"

section \<open>The table\<close>

lemma crc_bit_parity: "crc_bit c = (if odd c then drop_bit 1 c XOR 0xEDB88320 else drop_bit 1 c)"
  by (simp add: crc_bit_def bit_0)

lemma funpow_8: "(f ^^ 8) x = f (f (f (f (f (f (f (f x)))))))"
  by (simp add: eval_nat_numeral)

lemma crc_bit_values:
  "crc_bit 128 = 64"
  "crc_bit 64 = 32"
  "crc_bit 32 = 16"
  "crc_bit 16 = 8"
  "crc_bit 8 = 4"
  "crc_bit 4 = 2"
  "crc_bit 2 = 1"
  "crc_bit 1 = 0xEDB88320"
  "crc_bit 0xEDB88320 = 0x76DC4190"
  "crc_bit 0x76DC4190 = 0x3B6E20C8"
  "crc_bit 0x3B6E20C8 = 0x1DB71064"
  "crc_bit 0x1DB71064 = 0x0EDB8832"
  "crc_bit 0x0EDB8832 = 0x076DC419"
  "crc_bit 0x076DC419 = 0xEE0E612C"
  "crc_bit 0xEE0E612C = 0x77073096"
  by (simp_all add: crc_bit_parity)

text \<open>The bit step is linear over XOR, so the table doubles: entry \<open>2^k + i\<close> is entry \<open>2^k\<close> XOR entry \<open>i\<close>.\<close>

lemma crc_bit_xor: "crc_bit (a XOR b) = crc_bit a XOR crc_bit b"
  by (auto simp: crc_bit_def bit_xor_iff drop_bit_xor ac_simps)

lemma crc_bits_xor: "(crc_bit ^^ n) (a XOR b) = (crc_bit ^^ n) a XOR (crc_bit ^^ n) b"
  by (induction n) (simp_all add: crc_bit_xor)

primrec table_upto :: "nat \<Rightarrow> UINT32 list" where
  "table_upto 0 = [0]"
| "table_upto (Suc k) = table_upto k @ map (\<lambda>x. x XOR (crc_bit ^^ 8) (2 ^ k)) (table_upto k)"

lemma table_upto_8: "table_upto 8 = CRCTable"
  by (simp add: eval_nat_numeral CRCTable_def crc_bit_values)

lemma of_nat_pow_plus:
  assumes "i < 2 ^ k"
  shows "(of_nat (2 ^ k + i) :: UINT32) = of_nat i XOR 2 ^ k"
proof -
  have "\<not> bit i k" using assms by (simp add: bit_iff_odd)
  then have "(2 ^ k + i) = i XOR (2 ^ k :: nat)"
    by (subst disjunctive_add_eq_xor) (auto intro!: bit_eqI simp: bit_simps ac_simps)
  then show ?thesis by (simp only: of_nat_xor_eq of_nat_power of_nat_numeral)
qed

lemma upt_double: "[0..<2 ^ Suc k] = [0..<2 ^ k] @ map (\<lambda>i. 2 ^ k + i) [0..<2 ^ k]"
  using upt_add_eq_append [of 0 "2 ^ k" "2 ^ k"] map_add_upt [of "2 ^ k" "2 ^ k"]
  by (simp add: mult_2 add.commute)

lemma table_upto_eq: "table_upto k = map (\<lambda>i. (crc_bit ^^ 8) (of_nat i)) [0..<2 ^ k]"
proof (induction k)
  case 0
  have "crc_bit 0 = 0" by (simp add: crc_bit_parity)
  then show ?case by (simp add: funpow_8)
next
  case (Suc k)
  show ?case
    by (simp only: table_upto.simps Suc upt_double map_append map_map)
       (auto simp: of_nat_pow_plus crc_bits_xor simp del: of_nat_add)
qed

lemma CRCTable_nth:
  assumes "i < 256"
  shows "CRCTable ! i = (crc_bit ^^ 8) (of_nat i)"
proof -
  have "map f [0..<n] ! i = f i" if "i < n" for f :: "nat \<Rightarrow> UINT32" and n
    using that by simp
  from this [of "2 ^ 8" "\<lambda>i. (crc_bit ^^ 8) (of_nat i)"] show ?thesis
    unfolding table_upto_eq [symmetric] table_upto_8 using assms by simp
qed

section \<open>A table step is eight bit steps\<close>

lemma crc_bits_shift: "(\<And>j. j < n \<Longrightarrow> \<not> bit x j) \<Longrightarrow> (crc_bit ^^ n) x = drop_bit n x"
proof (induction n arbitrary: x)
  case (Suc n)
  then have "crc_bit x = drop_bit 1 x" by (simp add: crc_bit_def)
  with Suc.IH [of "drop_bit 1 x"] Suc.prems show ?case
    by (simp add: funpow_swap1 bit_drop_bit_eq del: funpow.simps) (simp add: funpow_Suc_right del: funpow.simps)
qed simp

lemma crc_step_eq_byte: "crc_step c b = crc_byte c b"
proof -
  let ?x = "c XOR ucast b :: UINT32" and ?i = "(ucast c :: UINT8) XOR b"
  have "?x = (?x AND NOT (mask 8)) XOR (?x AND mask 8)"
    by (rule bit_word_eqI) (auto simp: bit_simps)
  then have "crc_byte c b = (crc_bit ^^ 8) (?x AND NOT (mask 8)) XOR (crc_bit ^^ 8) (?x AND mask 8)"
    unfolding crc_byte_def by (metis crc_bits_xor)
  also have "(crc_bit ^^ 8) (?x AND NOT (mask 8)) = drop_bit 8 (?x AND NOT (mask 8))"
    by (rule crc_bits_shift) (simp add: bit_simps)
  also have "drop_bit 8 (?x AND NOT (mask 8)) = drop_bit 8 c"
    by (rule bit_word_eqI) (auto simp: bit_simps dest: bit_imp_le_length)
  also have "?x AND mask 8 = ucast ?i"
    by (rule bit_word_eqI) (auto simp: bit_simps dest: bit_imp_le_length)
  also have "ucast ?i = (of_nat (unat ?i) :: UINT32)"
    by simp
  also have "(crc_bit ^^ 8) (of_nat (unat ?i)) = CRCTable ! unat ?i"
    using unsigned_less [of ?i, where ?'a = nat] by (subst CRCTable_nth) simp_all
  finally show ?thesis by (simp add: crc_step_def)
qed

lemma foldl_crc_step: "foldl crc_step c bs = foldl crc_byte c bs"
  by (simp add: crc_step_eq_byte [abs_def])

lemma crc_loop_eq:
  "crc_loop n bs c = (if n \<le> length bs then Ret (foldl crc_byte c (take n bs)) else Fault)"
  by (induction n bs c rule: crc_loop.induct) (simp_all add: crc_step_eq_byte)

section \<open>The CRC is injective in every single byte\<close>

lemma crc_bit_0_iff: "crc_bit x = 0 \<longleftrightarrow> x = 0"
proof
  assume z: "crc_bit x = 0"
  have "\<not> bit x 0"
  proof
    assume "bit x 0"
    with z have "drop_bit 1 x = 0xEDB88320" by (simp add: crc_bit_def word_xor_0_iff)
    then have "bit (drop_bit 1 x) 31" by simp
    then show False by (auto simp: bit_simps dest: bit_imp_le_length)
  qed
  with z have "drop_bit 1 x = 0" by (simp add: crc_bit_def)
  then have "\<not> bit (drop_bit 1 x) j" for j by simp
  then have "\<not> bit x (Suc j)" for j by (simp add: bit_simps)
  with \<open>\<not> bit x 0\<close> have "\<not> bit x j" for j by (cases j) auto
  then show "x = 0" by (intro bit_word_eqI) simp
qed (simp add: crc_bit_def)

lemma crc_bits_inject: "(crc_bit ^^ n) a = (crc_bit ^^ n) b \<longleftrightarrow> a = b"
proof (induction n)
  case (Suc n)
  have "crc_bit u = crc_bit v \<longleftrightarrow> u = v" for u v
    by (metis crc_bit_0_iff crc_bit_xor word_xor_0_iff)
  with Suc show ?case by simp
qed simp

lemma crc_byte_inject:
  "crc_byte c b = crc_byte d b \<longleftrightarrow> c = d"
  "crc_byte c a = crc_byte c b \<longleftrightarrow> a = b"
proof -
  show "crc_byte c b = crc_byte d b \<longleftrightarrow> c = d"
    by (simp add: crc_byte_def crc_bits_inject word_xor_cancel)
  have "crc_byte c a = crc_byte c b \<longleftrightarrow> (ucast a :: UINT32) = ucast b"
    using word_xor_cancel [of "ucast a" c "ucast b"] by (simp add: crc_byte_def crc_bits_inject ac_simps)
  moreover have "(ucast (ucast x :: UINT32) :: UINT8) = x" for x :: UINT8
    by (rule bit_word_eqI) (simp add: bit_simps)
  ultimately show "crc_byte c a = crc_byte c b \<longleftrightarrow> a = b" by metis
qed

lemma foldl_crc_inject: "foldl crc_byte c bs = foldl crc_byte d bs \<longleftrightarrow> c = d"
  by (induction bs arbitrary: c d) (simp_all add: crc_byte_inject)

lemma crc32_spec_byte:
  assumes "i < length bs" and "x \<noteq> bs ! i"
  shows "crc32_spec (bs[i := x]) \<noteq> crc32_spec bs"
proof -
  have split: "bs = take i bs @ bs ! i # drop (Suc i) bs" "bs[i := x] = take i bs @ x # drop (Suc i) bs"
    using assms(1) by (simp_all add: id_take_nth_drop upd_conv_take_nth_drop)
  have "foldl crc_byte c (bs[i := x]) \<noteq> foldl crc_byte c bs" for c
    by (subst split(2), subst (3) split(1)) (simp add: foldl_crc_inject crc_byte_inject assms(2))
  then show ?thesis by (simp add: crc32_spec_def)
qed

section \<open>Fields of the header\<close>

lemma length_put32 [simp]: "length (put32 off v m) = length m"
  by (simp add: put32_def)

lemma nth_put32:
  "i < length m \<Longrightarrow> put32 off v m ! i =
     (if i = off then ucast v else if i = off + 1 then ucast (drop_bit 8 v)
      else if i = off + 2 then ucast (drop_bit 16 v)
      else if i = off + 3 then ucast (drop_bit 24 v) else m ! i)"
  by (simp add: put32_def nth_list_update)

lemma put32_put32 [simp]: "put32 off v (put32 off w m) = put32 off v m"
  by (rule nth_equalityI) (simp_all add: nth_put32)

lemma put32_nth: "i < off \<or> off + 4 \<le> i \<Longrightarrow> put32 off v m ! i = m ! i"
  by (auto simp: put32_def)

lemma get32_put32:
  assumes "off + 4 \<le> length m"
  shows "get32 off (put32 off v m) = v"
proof (rule bit_word_eqI)
  fix n
  assume "n < LENGTH(32)"
  then consider "n < 8" | "8 \<le> n" "n < 16" | "16 \<le> n" "n < 24" | "24 \<le> n" "n < 32" by fastforce
  then show "bit (get32 off (put32 off v m)) n \<longleftrightarrow> bit v n"
    using assms by cases (auto simp: get32_def nth_put32 bit_simps)
qed

lemma bit_get32_byte:
  "n < 8 \<Longrightarrow> bit (get32 off m) n = bit (m ! off) n"
  "n < 8 \<Longrightarrow> bit (get32 off m) (8 + n) = bit (m ! (off + 1)) n"
  "n < 8 \<Longrightarrow> bit (get32 off m) (16 + n) = bit (m ! (off + 2)) n"
  "n < 8 \<Longrightarrow> bit (get32 off m) (24 + n) = bit (m ! (off + 3)) n"
  by (auto simp: get32_def bit_simps dest: bit_imp_le_length)

lemma put32_get32: "off + 4 \<le> length m \<Longrightarrow> put32 off (get32 off m) m = m"
  by (rule nth_equalityI)
     (auto simp: nth_put32 bit_get32_byte bit_simps intro!: bit_word_eqI)

lemma get32_other:
  assumes "\<And>k. k < 4 \<Longrightarrow> m' ! (off + k) = m ! (off + k)"
  shows "get32 off m' = get32 off m"
  using assms [of 0] assms [of 1] assms [of 2] assms [of 3] by (simp add: get32_def)

lemma HeaderSize_set_CRC32 [simp]: "HeaderSize (set_CRC32_field v Hdr) = HeaderSize Hdr"
  by (simp add: HeaderSize_def set_CRC32_field_def) (rule get32_other, simp add: put32_nth)

lemma CRC32_field_laws [simp]:
  "20 \<le> length Hdr \<Longrightarrow> CRC32_field (set_CRC32_field v Hdr) = v"
  "set_CRC32_field v (set_CRC32_field w Hdr) = set_CRC32_field v Hdr"
  "20 \<le> length Hdr \<Longrightarrow> set_CRC32_field (CRC32_field Hdr) Hdr = Hdr"
  "length (set_CRC32_field v Hdr) = length Hdr"
  by (simp_all add: CRC32_field_def set_CRC32_field_def get32_put32 put32_get32)

lemma set_CRC32_field_nth: "i < 16 \<or> 20 \<le> i \<Longrightarrow> set_CRC32_field v Hdr ! i = Hdr ! i"
  by (simp add: set_CRC32_field_def put32_nth)

lemma set_CRC32_field_update:
  "i < 16 \<or> 20 \<le> i \<Longrightarrow> set_CRC32_field v (Hdr[i := x]) = (set_CRC32_field v Hdr)[i := x]"
  by (auto simp: set_CRC32_field_def put32_def list_update_swap)

text \<open>The CRC of a table: that of its first \<open>Size\<close> bytes with the CRC field cleared.\<close>

definition table_crc :: "nat \<Rightarrow> UINT8 list \<Rightarrow> UINT32" where
  "table_crc Size Hdr = crc32_spec (take Size (set_CRC32_field 0 Hdr))"

lemma RtCalculateCrc32_eq:
  "RtCalculateCrc32 (Some buf) Size True =
     (if Size = 0 then Ret (EFI_INVALID_PARAMETER, None)
      else if unat Size \<le> length buf then Ret (EFI_SUCCESS, Some (crc32_spec (take (unat Size) buf)))
      else Fault)"
proof -
  have ones: "(0xFFFFFFFF :: UINT32) = - 1" by simp
  have "c XOR 0xFFFFFFFF = NOT c" for c :: UINT32
    unfolding ones by (rule bit.xor_one_right)
  then show ?thesis by (simp add: RtCalculateCrc32_def crc_loop_eq crc32_spec_def)
qed

lemma SetCrcAltSize_eq:
  "Size \<noteq> 0 \<Longrightarrow> unat Size \<le> length Hdr \<Longrightarrow>
     SetCrcAltSize Size Hdr = Ret (set_CRC32_field (table_crc (unat Size) Hdr) Hdr)"
  by (simp add: SetCrcAltSize_def RtCalculateCrc32_eq table_crc_def)

lemma CheckCrcAltSize_eq:
  "Size \<noteq> 0 \<Longrightarrow> unat Size \<le> length Hdr \<Longrightarrow> 20 \<le> length Hdr \<Longrightarrow> MaxSize = 0 \<or> Size \<le> MaxSize \<Longrightarrow>
     CheckCrcAltSize MaxSize Size Hdr = Ret (CRC32_field Hdr = table_crc (unat Size) Hdr, Hdr)"
  by (auto simp: CheckCrcAltSize_def RtCalculateCrc32_eq table_crc_def)

lemma table_crc_update:
  assumes "i < Size" and "i < 16 \<or> 20 \<le> i" and "Size \<le> length Hdr" and "x \<noteq> Hdr ! i"
  shows "table_crc Size (Hdr[i := x]) \<noteq> table_crc Size Hdr"
proof -
  have "take Size (set_CRC32_field 0 (Hdr[i := x])) = (take Size (set_CRC32_field 0 Hdr))[i := x]"
    using assms(2) by (simp add: set_CRC32_field_update take_update_swap)
  then show ?thesis
    unfolding table_crc_def using assms by (simp add: crc32_spec_byte set_CRC32_field_nth)
qed

section \<open>Properties\<close>

text \<open>
  C4: the table-driven service computes CRC-32. For every buffer, size and result pointer,
  \<open>RtCalculateCrc32\<close> rejects a null pointer or a zero size, and otherwise stores the
  bit-by-bit CRC-32 (reflected polynomial 0xEDB88320, initial value and final complement all
  ones) of the first \<open>Size\<close> bytes; it reads past the buffer only when \<open>Size\<close> exceeds it.
\<close>

theorem crc32_service_correct:
  "RtCalculateCrc32 pt Size Crc =
     (if pt \<noteq> None \<and> Size \<noteq> 0 \<and> Crc
      then if unat Size \<le> length (the pt)
           then Ret (EFI_SUCCESS, Some (crc32_spec (take (unat Size) (the pt))))
           else Fault
      else Ret (EFI_INVALID_PARAMETER, None))"
proof (cases pt)
  case (Some buf)
  then show ?thesis
    using RtCalculateCrc32_eq [of buf Size] by (cases Crc) (auto simp: RtCalculateCrc32_def)
qed (simp add: RtCalculateCrc32_def)

text \<open>
  C5: sealing a table header and checking it. \<open>SetCrc\<close> returns, changes no byte outside the
  CRC field, and \<open>CheckCrc\<close> accepts the result and leaves it unchanged, for every table whose
  \<open>HeaderSize\<close> is not zero and lies within the buffer and the caller's \<open>MaxSize\<close>.
\<close>

theorem table_crc_roundtrip:
  assumes "20 \<le> length Hdr" and "HeaderSize Hdr \<noteq> 0" and "unat (HeaderSize Hdr) \<le> length Hdr"
    and "MaxSize = 0 \<or> ucast (HeaderSize Hdr) \<le> MaxSize"
  shows "\<exists>Hdr'. SetCrc Hdr = Ret Hdr' \<and> CheckCrc MaxSize Hdr' = Ret (True, Hdr') \<and>
           length Hdr' = length Hdr \<and> (\<forall>i. i \<notin> {16..<20} \<longrightarrow> Hdr' ! i = Hdr ! i)"
proof -
  let ?S = "ucast (HeaderSize Hdr) :: UINTN"
  have S: "?S \<noteq> 0" "unat ?S = unat (HeaderSize Hdr)"
    using assms(2) by (simp_all add: ucast_32_64)
  let ?H = "set_CRC32_field (table_crc (unat ?S) Hdr) Hdr"
  have "SetCrc Hdr = Ret ?H"
    using assms S by (simp add: SetCrc_def SetCrcAltSize_eq)
  moreover have "CheckCrc MaxSize ?H = Ret (True, ?H)"
    using assms S by (simp add: CheckCrc_def CheckCrcAltSize_eq) (simp add: table_crc_def)
  moreover have "\<forall>i. i \<notin> {16..<20} \<longrightarrow> ?H ! i = Hdr ! i"
    by (auto simp: set_CRC32_field_nth)
  ultimately show ?thesis by auto
qed

definition sample_header :: "UINT8 list" where
  "sample_header = [0x42, 0x4F, 0x4F, 0x54, 0x53, 0x45, 0x52, 0x56, 10, 0, 1, 0, 24, 0, 0, 0, 0, 0, 0, 0, 0, 0, 0, 0]"

theorem table_crc_roundtrip_witness:
  "\<exists>Hdr'. SetCrc sample_header = Ret Hdr' \<and> CheckCrc 4096 Hdr' = Ret (True, Hdr') \<and>
     length Hdr' = length sample_header \<and> (\<forall>i. i \<notin> {16..<20} \<longrightarrow> Hdr' ! i = sample_header ! i)"
  by (rule table_crc_roundtrip) (simp_all add: sample_header_def HeaderSize_def get32_def)

text \<open>
  C6: tampering is detected. After \<open>SetCrc\<close>, changing any single byte of the table inside
  \<open>HeaderSize\<close> (other than in the size and CRC fields) makes \<open>CheckCrc\<close> report failure.
\<close>

theorem table_crc_tamper:
  assumes "SetCrc Hdr = Ret Hdr'" and "20 \<le> length Hdr" and "unat (HeaderSize Hdr) \<le> length Hdr"
    and "MaxSize = 0 \<or> ucast (HeaderSize Hdr) \<le> MaxSize"
    and "i < unat (HeaderSize Hdr)" and "i \<notin> {12..<20}" and "x \<noteq> Hdr' ! i"
  shows "CheckCrc MaxSize (Hdr'[i := x]) = Ret (False, Hdr'[i := x])"
proof -
  let ?S = "ucast (HeaderSize Hdr) :: UINTN"
  from assms(5) have S: "?S \<noteq> 0" "unat ?S = unat (HeaderSize Hdr)"
    by (auto simp: ucast_32_64)
  with assms(1,3) have H: "Hdr' = set_CRC32_field (table_crc (unat ?S) Hdr) Hdr"
    by (simp add: SetCrc_def SetCrcAltSize_eq)
  then have tab: "table_crc (unat ?S) Hdr' = table_crc (unat ?S) Hdr" "CRC32_field Hdr' = table_crc (unat ?S) Hdr"
    using assms(2) by (simp_all add: table_crc_def)
  have size: "HeaderSize (Hdr'[i := x]) = HeaderSize Hdr"
    using H assms(6) by (simp add: HeaderSize_def) (rule get32_other, auto simp: set_CRC32_field_nth nth_list_update_neq)
  have crc: "CRC32_field (Hdr'[i := x]) = CRC32_field Hdr'"
    using assms(6) by (simp add: CRC32_field_def) (rule get32_other, auto simp: nth_list_update_neq)
  have "table_crc (unat ?S) (Hdr'[i := x]) \<noteq> table_crc (unat ?S) Hdr'"
    by (rule table_crc_update) (use assms H S in auto)
  then show ?thesis
    using assms S H size crc tab by (simp add: CheckCrc_def CheckCrcAltSize_eq)
qed

theorem table_crc_tamper_witness:
  "\<exists>Hdr'. SetCrc sample_header = Ret Hdr' \<and> CheckCrc 0 (Hdr'[8 := 11]) = Ret (False, Hdr'[8 := 11])"
proof -
  have size: "HeaderSize sample_header = 24" by (simp add: HeaderSize_def sample_header_def get32_def)
  define Hdr' where "Hdr' = set_CRC32_field (table_crc 24 sample_header) sample_header"
  have H: "SetCrc sample_header = Ret Hdr'"
    using SetCrcAltSize_eq [of 24 sample_header]
    by (simp add: SetCrc_def size Hdr'_def) (simp add: sample_header_def)
  have "Hdr' ! 8 = 10"
    unfolding Hdr'_def by (subst set_CRC32_field_nth) (simp_all add: sample_header_def)
  then have "CheckCrc 0 (Hdr'[8 := 11]) = Ret (False, Hdr'[8 := 11])"
    by (intro table_crc_tamper [OF H]) (simp_all add: size, simp_all add: sample_header_def)
  with H show ?thesis by blast
qed

end
