(* ===== verification/ExecState.thy ===== *)
theory ExecState
  imports EfiPrelude
begin

text \<open>
  The data of the execution services (\<open>exec/exec.h\<close>, \<open>exec/execdata.c\<close>, the statics of
  \<open>exec/timer.c\<close> and \<open>exec/mtc.c\<close>), the task priority level (\<open>exec/tpl.c\<close>), the locks of
  \<open>LIB/lock.c\<close> and \<open>LIB/Runtime/lock.c\<close>, and the dispatch of pending notifications
  (\<open>DispatchEventNotifies\<close> of \<open>exec/event.c\<close>).

  Lowering the priority runs notification functions, which run arbitrary code, which may lower
  the priority again. The notification functions are the parameter \<open>cb\<close>, applied to the
  function, the event and the context; the mutual recursion of \<open>RestoreTPL\<close>,
  \<open>DispatchEventNotifies\<close> and \<open>ReleaseLock\<close> carries fuel. The build without \<open>EFI_DEBUG\<close> is
  modelled: \<open>ASSERT\<close> and \<open>DEBUG\<close> expand to nothing.
\<close>

section \<open>Constants\<close>

abbreviation (input) EVT_TIMER :: UINT32 where "EVT_TIMER \<equiv> 0x80000000"
abbreviation (input) EVT_RUNTIME :: UINT32 where "EVT_RUNTIME \<equiv> 0x40000000"
abbreviation (input) EVT_RUNTIME_CONTEXT :: UINT32 where "EVT_RUNTIME_CONTEXT \<equiv> 0x20000000"
abbreviation (input) EVT_NOTIFY_WAIT :: UINT32 where "EVT_NOTIFY_WAIT \<equiv> 0x100"
abbreviation (input) EVT_NOTIFY_SIGNAL :: UINT32 where "EVT_NOTIFY_SIGNAL \<equiv> 0x200"
abbreviation (input) EVT_SIGNAL_EXIT_BOOT_SERVICES :: UINT32 where "EVT_SIGNAL_EXIT_BOOT_SERVICES \<equiv> 0x201"
abbreviation (input) EVT_SIGNAL_VIRTUAL_ADDRESS_CHANGE :: UINT32 where
  "EVT_SIGNAL_VIRTUAL_ADDRESS_CHANGE \<equiv> 0x60000202"
abbreviation (input) EVT_EFI_SIGNAL_MASK :: UINT32 where "EVT_EFI_SIGNAL_MASK \<equiv> 0xFF"
abbreviation (input) EVT_EFI_SIGNAL_MAX :: nat where "EVT_EFI_SIGNAL_MAX \<equiv> 2"

abbreviation (input) TPL_APPLICATION :: UINTN where "TPL_APPLICATION \<equiv> 4"
abbreviation (input) TPL_CALLBACK :: UINTN where "TPL_CALLBACK \<equiv> 8"
abbreviation (input) TPL_NOTIFY :: UINTN where "TPL_NOTIFY \<equiv> 16"
abbreviation (input) TPL_HIGH_LEVEL :: UINTN where "TPL_HIGH_LEVEL \<equiv> 31"

definition VALID_TPL :: "UINTN \<Rightarrow> bool" where
  [efi_defs]: "VALID_TPL a \<longleftrightarrow> a \<le> TPL_HIGH_LEVEL"

section \<open>State\<close>

text \<open>
  An \<open>IEVENT\<close>. A link field whose \<open>Flink\<close> the code tests against \<open>NULL\<close> is the Boolean
  saying that it is not \<open>NULL\<close>.
\<close>

record IEVENT =
  EvType :: UINT32
  SignalCount :: UINT32
  SignalLink :: bool
  NotifyTpl :: UINTN
  NotifyFunction :: UINTN
  NotifyContext :: UINTN
  NotifyLink :: bool
  RuntimeLink :: bool
  TimerLink :: bool
  TriggerTime :: UINT64
  Period :: UINT64

record FLOCK =
  LockTpl :: UINTN
  OwnerTpl :: UINTN
  LockCount :: UINTN

datatype lock_id = EventQueueLock | EfiTimerListLock | EfiSystemTimeLock | MemoryLock | ProtocolDatabaseLock | VariableStoreLock

text \<open>
  The globals. \<open>Events\<close> holds the event structures by address: an address outside its domain
  is \<open>NULL\<close> or memory without the event signature. A list is the addresses of its entries, from
  the head on. \<open>Interrupts\<close> is the state last requested from \<open>EfiSetInterruptState\<close>.
\<close>

record exec =
  TPL :: UINTN
  Interrupts :: bool
  Locks :: "lock_id \<Rightarrow> FLOCK"
  Events :: "UINTN \<rightharpoonup> IEVENT"
  EventQueue :: "nat \<Rightarrow> UINTN list"
  EventPending :: UINTN
  EventSignalQueue :: "nat \<Rightarrow> UINTN list"
  RuntimeEventList :: "UINTN list"
  EfiTimerList :: "UINTN list"
  EfiCheckTimerEvent :: UINTN
  EfiSystemTime :: UINT64
  EfiMtc :: UINT64
  EfiMtcEvent :: UINTN
  EfiAtRuntime :: bool

type_synonym 'x notify_fn = "UINTN \<Rightarrow> UINTN \<Rightarrow> UINTN \<Rightarrow> 'x exec_scheme \<Rightarrow> 'x exec_scheme run"

definition upd_event :: "UINTN \<Rightarrow> (IEVENT \<Rightarrow> IEVENT) \<Rightarrow> 'x exec_scheme \<Rightarrow> 'x exec_scheme" where
  "upd_event e f s = s\<lparr>Events := (Events s)(e := map_option f (Events s e))\<rparr>"

section \<open>Highest set bit\<close>

definition HSB :: "UINT8 list" where
  "HSB = [
     0, 0, 1, 1, 2, 2, 2, 2, 3, 3, 3, 3, 3, 3, 3, 3,
     4, 4, 4, 4, 4, 4, 4, 4, 4, 4, 4, 4, 4, 4, 4, 4,
     5, 5, 5, 5, 5, 5, 5, 5, 5, 5, 5, 5, 5, 5, 5, 5,
     5, 5, 5, 5, 5, 5, 5, 5, 5, 5, 5, 5, 5, 5, 5, 5,
     6, 6, 6, 6, 6, 6, 6, 6, 6, 6, 6, 6, 6, 6, 6, 6,
     6, 6, 6, 6, 6, 6, 6, 6, 6, 6, 6, 6, 6, 6, 6, 6,
     6, 6, 6, 6, 6, 6, 6, 6, 6, 6, 6, 6, 6, 6, 6, 6,
     6, 6, 6, 6, 6, 6, 6, 6, 6, 6, 6, 6, 6, 6, 6, 6,
     7, 7, 7, 7, 7, 7, 7, 7, 7, 7, 7, 7, 7, 7, 7, 7,
     7, 7, 7, 7, 7, 7, 7, 7, 7, 7, 7, 7, 7, 7, 7, 7,
     7, 7, 7, 7, 7, 7, 7, 7, 7, 7, 7, 7, 7, 7, 7, 7,
     7, 7, 7, 7, 7, 7, 7, 7, 7, 7, 7, 7, 7, 7, 7, 7,
     7, 7, 7, 7, 7, 7, 7, 7, 7, 7, 7, 7, 7, 7, 7, 7,
     7, 7, 7, 7, 7, 7, 7, 7, 7, 7, 7, 7, 7, 7, 7, 7,
     7, 7, 7, 7, 7, 7, 7, 7, 7, 7, 7, 7, 7, 7, 7, 7,
     7, 7, 7, 7, 7, 7, 7, 7, 7, 7, 7, 7, 7, 7, 7, 7]"

definition HSB_at :: "UINTN \<Rightarrow> UINTN run" where
  "HSB_at i = (if unat i < length HSB then Ret (ucast (HSB ! unat i)) else Fault)"

definition HighestSetBit :: "UINTN \<Rightarrow> UINTN run" where
  "HighestSetBit i =
     (if i AND 0xFFFF0000 \<noteq> 0 then
        if i AND 0xFF000000 \<noteq> 0 then bind_run (HSB_at (drop_bit 24 i)) (\<lambda>b. Ret (b + 24))
        else bind_run (HSB_at (drop_bit 16 i)) (\<lambda>b. Ret (b + 16))
      else if i AND 0xFF00 \<noteq> 0 then bind_run (HSB_at (drop_bit 8 i)) (\<lambda>b. Ret (b + 8))
      else HSB_at i)"

section \<open>Priority level and locks\<close>

definition CurrentTPL :: "'x exec_scheme \<Rightarrow> UINTN" where
  "CurrentTPL s = TPL s"

definition RaiseTPL :: "UINTN \<Rightarrow> 'x exec_scheme \<Rightarrow> UINTN \<times> 'x exec_scheme" where
  "RaiseTPL NewTpl s =
     (let OldTpl = TPL s;
          s1 = (if NewTpl \<ge> TPL_HIGH_LEVEL \<and> OldTpl < TPL_HIGH_LEVEL then s\<lparr>Interrupts := False\<rparr> else s)
      in (OldTpl, s1\<lparr>TPL := NewTpl\<rparr>))"

definition InitializeLock :: "lock_id \<Rightarrow> UINTN \<Rightarrow> 'x exec_scheme \<Rightarrow> 'x exec_scheme" where
  "InitializeLock l Priority s =
     s\<lparr>Locks := (Locks s)(l := \<lparr>LockTpl = Priority, OwnerTpl = 0, LockCount = 0\<rparr>)\<rparr>"

definition AcquireLock :: "lock_id \<Rightarrow> 'x exec_scheme \<Rightarrow> 'x exec_scheme" where
  "AcquireLock l s =
     (let (Owner, s1) = RaiseTPL (LockTpl (Locks s l)) s;
          L = (Locks s1 l)\<lparr>OwnerTpl := Owner\<rparr>
      in s1\<lparr>Locks := (Locks s1)(l := L\<lparr>LockCount := LockCount L + 1\<rparr>)\<rparr>)"

text \<open>\<^verbatim>\<open>1 << Priority\<close> and \<^verbatim>\<open>-2 << NewTpl\<close>: shifts of a 32-bit \<open>int\<close>, widened to \<open>UINTN\<close>.\<close>

definition tpl_bit :: "UINTN \<Rightarrow> UINTN" where
  "tpl_bit Priority = int_to_UINTN (push_bit (unat Priority) 1)"

definition above_mask :: "UINTN \<Rightarrow> UINTN" where
  "above_mask NewTpl = int_to_UINTN (push_bit (unat NewTpl) (- 2))"

text \<open>
  \<open>ReleaseLock\<close>, the loop of \<open>DispatchEventNotifies\<close> and the loop of \<open>RestoreTPL\<close> call
  \<open>RestoreTPL\<close> again; they take it as the parameter \<open>restore\<close>, and \<open>RestoreTPL\<close> with fuel
  \<open>n + 1\<close> passes itself with fuel \<open>n\<close>. A null notification function is a fault.
\<close>

definition ReleaseLock_with ::
  "(UINTN \<Rightarrow> 'x exec_scheme \<Rightarrow> 'x exec_scheme run) \<Rightarrow> lock_id \<Rightarrow> 'x exec_scheme \<Rightarrow> 'x exec_scheme run"
where
  "ReleaseLock_with restore l s =
     (let Tpl = OwnerTpl (Locks s l);
          L = Locks s l;
          s1 = s\<lparr>Locks := (Locks s)(l := L\<lparr>LockCount := LockCount L - 1\<rparr>)\<rparr>
      in restore Tpl s1)"

definition dequeue_notify :: "UINTN \<Rightarrow> UINTN \<Rightarrow> UINTN list \<Rightarrow> 'x exec_scheme \<Rightarrow> 'x exec_scheme" where
  "dequeue_notify Priority e es s =
     upd_event e (\<lambda>ev. ev\<lparr>NotifyLink := False, SignalCount := 0\<rparr>)
       (s\<lparr>EventQueue := (EventQueue s)(unat Priority := es)\<rparr>)"

definition call_notify :: "'x notify_fn \<Rightarrow> UINTN \<Rightarrow> 'x exec_scheme \<Rightarrow> 'x exec_scheme run" where
  "call_notify cb e s =
     (case Events s e of
        None \<Rightarrow> Fault
      | Some Event \<Rightarrow>
          if NotifyFunction Event = 0 then Fault
          else cb (NotifyFunction Event) e (NotifyContext Event) s)"

primrec dispatch_loop ::
  "'x notify_fn \<Rightarrow> (UINTN \<Rightarrow> 'x exec_scheme \<Rightarrow> 'x exec_scheme run) \<Rightarrow> nat \<Rightarrow> UINTN \<Rightarrow> 'x exec_scheme \<Rightarrow> 'x exec_scheme run"
where
  "dispatch_loop cb restore 0 Priority s = NoFuel"
| "dispatch_loop cb restore (Suc n) Priority s =
     (case EventQueue s (unat Priority) of
        [] \<Rightarrow> ReleaseLock_with restore EventQueueLock
                (s\<lparr>EventPending := EventPending s AND NOT (tpl_bit Priority)\<rparr>)
      | e # es \<Rightarrow>
          bind_run (ReleaseLock_with restore EventQueueLock (dequeue_notify Priority e es s)) (\<lambda>s1.
          bind_run (call_notify cb e s1) (\<lambda>s2.
            dispatch_loop cb restore n Priority (AcquireLock EventQueueLock s2))))"

definition DispatchEventNotifies ::
  "'x notify_fn \<Rightarrow> (UINTN \<Rightarrow> 'x exec_scheme \<Rightarrow> 'x exec_scheme run) \<Rightarrow> nat \<Rightarrow> UINTN \<Rightarrow> 'x exec_scheme \<Rightarrow> 'x exec_scheme run"
where
  "DispatchEventNotifies cb restore n Priority s =
     (if Priority \<le> TPL_HIGH_LEVEL
      then dispatch_loop cb restore n Priority (AcquireLock EventQueueLock s) else Fault)"

primrec restore_loop ::
  "'x notify_fn \<Rightarrow> (UINTN \<Rightarrow> 'x exec_scheme \<Rightarrow> 'x exec_scheme run) \<Rightarrow> nat \<Rightarrow> UINTN \<Rightarrow> 'x exec_scheme \<Rightarrow> 'x exec_scheme run"
where
  "restore_loop cb restore 0 NewTpl s = NoFuel"
| "restore_loop cb restore (Suc n) NewTpl s =
     (if above_mask NewTpl AND EventPending s \<noteq> 0 then
        bind_run (HighestSetBit (EventPending s)) (\<lambda>t.
          let s1 = s\<lparr>TPL := t\<rparr>;
              s2 = (if TPL s1 < TPL_HIGH_LEVEL then s1\<lparr>Interrupts := True\<rparr> else s1)
          in bind_run (DispatchEventNotifies cb restore n (TPL s2) s2) (\<lambda>s3.
               restore_loop cb restore n NewTpl s3))
      else Ret s)"

primrec RestoreTPL :: "'x notify_fn \<Rightarrow> nat \<Rightarrow> UINTN \<Rightarrow> 'x exec_scheme \<Rightarrow> 'x exec_scheme run" where
  "RestoreTPL cb 0 NewTpl s = NoFuel"
| "RestoreTPL cb (Suc n) NewTpl s =
     (let OldTpl = CurrentTPL s;
          s1 = (if OldTpl \<ge> TPL_HIGH_LEVEL \<and> NewTpl < TPL_HIGH_LEVEL then s\<lparr>TPL := TPL_HIGH_LEVEL\<rparr> else s)
      in bind_run (restore_loop cb (RestoreTPL cb n) n NewTpl s1) (\<lambda>s2.
           let s3 = s2\<lparr>TPL := NewTpl\<rparr>
           in Ret (if TPL s3 < TPL_HIGH_LEVEL then s3\<lparr>Interrupts := True\<rparr> else s3)))"

definition ReleaseLock :: "'x notify_fn \<Rightarrow> nat \<Rightarrow> lock_id \<Rightarrow> 'x exec_scheme \<Rightarrow> 'x exec_scheme run" where
  "ReleaseLock cb n l s = ReleaseLock_with (RestoreTPL cb n) l s"

section \<open>The highest set bit\<close>

lemma HSB_table: "list_all (\<lambda>n. 2 ^ unat (HSB ! n) \<le> n \<and> n < 2 ^ Suc (unat (HSB ! n))) [1..<256]"
  by code_simp

lemma HSB_nth:
  assumes "0 < n" and "n < 256"
  shows "2 ^ unat (HSB ! n) \<le> n \<and> n < 2 ^ Suc (unat (HSB ! n))"
  using HSB_table assms unfolding list_all_iff set_upt by force

lemma HSB_length: "length HSB = 256" by (simp add: HSB_def)

lemma HSB_at_shift:
  fixes i :: UINTN
  assumes "2 ^ k \<le> unat i" "unat i < 2 ^ (k + 8)" "k \<le> 24"
  shows "\<exists>m. HSB_at (drop_bit k i) = Ret (of_nat m) \<and> m < 8 \<and> 2 ^ (m + k) \<le> unat i \<and> unat i < 2 ^ Suc (m + k)"
proof -
  let ?n = "unat i div 2 ^ k"
  have n: "unat (drop_bit k i) = ?n" by (subst unat_drop_bit_eq) (rule drop_bit_eq_div)
  have "0 < ?n" "?n < 256" using assms by (simp_all add: div_greater_zero_iff less_mult_imp_div_less power_add)
  note h = HSB_nth[OF this]
  let ?m = "unat (HSB ! ?n)"
  have "2 ^ ?m * 2 ^ k \<le> ?n * 2 ^ k" using h by simp
  also have "\<dots> \<le> unat i" by simp
  finally have a: "2 ^ (?m + k) \<le> unat i" by (simp add: power_add)
  have "unat i < Suc ?n * 2 ^ k"
    by (metis add.commute dividend_less_times_div mult.commute mult_Suc zero_less_numeral zero_less_power)
  also have "\<dots> \<le> 2 ^ Suc ?m * 2 ^ k" using h by (intro mult_le_mono1) simp
  finally have b: "unat i < 2 ^ Suc (?m + k)" by (simp add: power_add)
  have "?m < 8"
  proof (rule ccontr)
    assume "\<not> ?m < 8"
    then have "(2::nat) ^ 8 \<le> 2 ^ ?m" by (intro power_increasing) simp_all
    also have "\<dots> \<le> ?n" using h by blast
    finally show False using \<open>?n < 256\<close> by simp
  qed
  moreover have "HSB_at (drop_bit k i) = Ret (of_nat ?m)"
    using n \<open>?n < 256\<close> by (simp add: HSB_at_def HSB_length)
  ultimately show ?thesis using a b by blast
qed

lemma HighestSetBit_correct:
  assumes "0 < i" and "i < 2 ^ 32"
  shows "\<exists>m. HighestSetBit i = Ret (of_nat m) \<and> m < 32 \<and> 2 ^ m \<le> unat i \<and> unat i < 2 ^ Suc m"
proof -
  have i: "0 < unat i" "unat i < 2 ^ 32"
    using assms by (simp_all add: word_less_nat_alt unat_gt_0)
  have f1: "i AND 0xFFFF0000 = 0 \<longleftrightarrow> unat i < 2 ^ 16"
    using and_field_0_iff [of i 32 16] i(2) by (simp add: mask_eq_exp_minus_1 push_bit_eq_mult)
  have f2: "i AND 0xFF000000 = 0 \<longleftrightarrow> unat i < 2 ^ 24"
    using and_field_0_iff [of i 32 24] i(2) by (simp add: mask_eq_exp_minus_1 push_bit_eq_mult)
  have f3: "i AND 0xFF00 = 0 \<longleftrightarrow> unat i < 2 ^ 8" if "unat i < 2 ^ 16"
    using and_field_0_iff [of i 16 8] that by (simp add: mask_eq_exp_minus_1 push_bit_eq_mult)
  have add: "(of_nat m :: UINTN) + 24 = of_nat (m + 24)" "(of_nat m :: UINTN) + 16 = of_nat (m + 16)"
    "(of_nat m :: UINTN) + 8 = of_nat (m + 8)" for m by simp_all
  consider "2 ^ 24 \<le> unat i" | "2 ^ 16 \<le> unat i" "unat i < 2 ^ 24"
    | "2 ^ 8 \<le> unat i" "unat i < 2 ^ 16" | "unat i < 2 ^ 8" by linarith
  then show ?thesis
  proof cases
    case 1
    obtain m where "HSB_at (drop_bit 24 i) = Ret (of_nat m)" "m < 8" "2 ^ (m + 24) \<le> unat i" "unat i < 2 ^ Suc (m + 24)"
      using HSB_at_shift [of 24 i] 1 i by auto
    with 1 show ?thesis
      by (intro exI [of _ "m + 24"]) (simp add: HighestSetBit_def f1 f2)
  next
    case 2
    obtain m where "HSB_at (drop_bit 16 i) = Ret (of_nat m)" "m < 8" "2 ^ (m + 16) \<le> unat i" "unat i < 2 ^ Suc (m + 16)"
      using HSB_at_shift [of 16 i] 2 i by auto
    with 2 show ?thesis
      by (intro exI [of _ "m + 16"]) (simp add: HighestSetBit_def f1 f2)
  next
    case 3
    obtain m where "HSB_at (drop_bit 8 i) = Ret (of_nat m)" "m < 8" "2 ^ (m + 8) \<le> unat i" "unat i < 2 ^ Suc (m + 8)"
      using HSB_at_shift [of 8 i] 3 i by auto
    with 3 show ?thesis
      by (intro exI [of _ "m + 8"]) (simp add: HighestSetBit_def f1 f3)
  next
    case 4
    obtain m where "HSB_at (drop_bit 0 i) = Ret (of_nat m)" "m < 8" "2 ^ (m + 0) \<le> unat i" "unat i < 2 ^ Suc (m + 0)"
      using HSB_at_shift [of 0 i] 4 i by auto
    with 4 show ?thesis
      by (intro exI [of _ "m"]) (simp add: HighestSetBit_def f1 f3)
  qed
qed

section \<open>Priority masks\<close>

lemma bit_tpl_bit: "unat p < 31 \<Longrightarrow> bit (tpl_bit p) n \<longleftrightarrow> n = unat p"
  by (auto simp: tpl_bit_def int_to_UINTN_def bit_simps min_def)

lemma bit_above_mask: "unat p \<le> 31 \<Longrightarrow> bit (above_mask p) n \<longleftrightarrow> n < 64 \<and> unat p < min 31 n"
  by (auto simp: above_mask_def int_to_UINTN_def bit_simps)

text \<open>
  At \<open>TPL_HIGH_LEVEL\<close> the \<open>int\<close> shift is negative and its sign extension fills the upper half.
\<close>

lemma bit_tpl_bit_31: "unat p = 31 \<Longrightarrow> bit (tpl_bit p) n \<longleftrightarrow> 31 \<le> n \<and> n < 64"
  by (simp only: tpl_bit_def int_to_UINTN_def bit_signed_iff bit_push_bit_iff bit_1_iff) auto

lemma HighestSetBit_high_level:
  assumes "\<And>n. 31 \<le> n \<Longrightarrow> n < 64 \<Longrightarrow> bit i n"
  shows "HighestSetBit i = Fault"
proof -
  have "(0xFFFF0000 :: UINTN) = push_bit 16 (mask 16)" "(0xFF000000 :: UINTN) = push_bit 24 (mask 8)"
    by (simp_all add: mask_eq_exp_minus_1 push_bit_eq_mult)
  then have "bit (i AND 0xFFFF0000) 31" "bit (i AND 0xFF000000) 31"
    using assms [of 31] by (simp_all only: bit_and_iff bit_push_bit_iff bit_mask_iff) simp_all
  then have nz: "i AND 0xFFFF0000 \<noteq> 0" "i AND 0xFF000000 \<noteq> 0"
    unfolding word_0_iff_bits by blast+
  have "bit (drop_bit 24 i) 8" using assms [of 32] by (simp add: bit_drop_bit_eq)
  then have "\<not> unat (drop_bit 24 i) < 2 ^ 8" unfolding unat_less_exp_iff by blast
  then show ?thesis by (simp add: HighestSetBit_def nz HSB_at_def HSB_length)
qed

end
