(* ===== verification/Dispatch.thy ===== *)
theory Dispatch
  imports ExecState
begin

text \<open>
  Dispatch of pending notifications: the invariant of the notification queues, the contract a
  notification function has to keep, and what \<open>RestoreTPL\<close>, \<open>DispatchEventNotifies\<close> and
  \<open>ReleaseLock\<close> then guarantee.
\<close>

section \<open>The invariant of the execution services\<close>

text \<open>
  A link field says of its event that it is on the list of that field, and a list holds exactly
  the events whose link field says so.
\<close>

definition linked :: "(UINTN \<rightharpoonup> IEVENT) \<Rightarrow> (IEVENT \<Rightarrow> bool) \<Rightarrow> UINTN list \<Rightarrow> bool" where
  "linked E P xs \<longleftrightarrow> distinct xs \<and> (\<forall>e. e \<in> set xs \<longleftrightarrow> (\<exists>ev. E e = Some ev \<and> P ev))"

definition trigger :: "(UINTN \<rightharpoonup> IEVENT) \<Rightarrow> UINTN \<Rightarrow> UINT64" where
  "trigger E e = (case E e of Some ev \<Rightarrow> TriggerTime ev | None \<Rightarrow> 0)"

text \<open>
  The timer list (sorted by trigger time), the list of the runtime events, the two lists of the
  events signalled by the firmware itself, and the levels of the locks.
\<close>

definition lists_inv :: "'x exec_scheme \<Rightarrow> bool" where
  "lists_inv s \<longleftrightarrow>
     linked (Events s) TimerLink (EfiTimerList s) \<and>
     sorted (map (trigger (Events s)) (EfiTimerList s)) \<and>
     linked (Events s) RuntimeLink (RuntimeEventList s) \<and>
     (\<forall>i. linked (Events s) (\<lambda>ev. SignalLink ev \<and> unat (EvType ev AND EVT_EFI_SIGNAL_MASK) = Suc i)
            (EventSignalQueue s i)) \<and>
     LockTpl (Locks s EfiTimerListLock) = TPL_HIGH_LEVEL - 1 \<and>
     LockTpl (Locks s EfiSystemTimeLock) = TPL_HIGH_LEVEL"

text \<open>
  An event is in the queue of its priority exactly when its \<open>NotifyLink\<close> says so, a queue that
  is not empty has its pending bit set, and no notification is at \<open>TPL_HIGH_LEVEL\<close>: the
  pending bit of that level is the sign bit of an \<open>int\<close>, which \<open>HighestSetBit\<close> does not
  survive on a 64-bit target (\<open>HighestSetBit_high_level\<close>). Only timer events are on the timer list.
\<close>

definition event_ok :: "IEVENT \<Rightarrow> bool" where
  "event_ok ev \<longleftrightarrow> unat (NotifyTpl ev) < 31 \<and> (NotifyTpl ev \<noteq> 0 \<longrightarrow> NotifyFunction ev \<noteq> 0) \<and>
     (TimerLink ev \<longrightarrow> EvType ev AND EVT_TIMER \<noteq> 0)"

definition exec_inv :: "'x exec_scheme \<Rightarrow> bool" where
  "exec_inv s \<longleftrightarrow>
     (\<forall>t. linked (Events s) (\<lambda>ev. NotifyLink ev \<and> unat (NotifyTpl ev) = t) (EventQueue s t)) \<and>
     (\<forall>t. EventQueue s t \<noteq> [] \<longrightarrow> bit (EventPending s) t) \<and>
     (\<forall>t. bit (EventPending s) t \<longrightarrow> t < 31) \<and>
     (\<forall>e ev. Events s e = Some ev \<longrightarrow> event_ok ev) \<and>
     LockTpl (Locks s EventQueueLock) = TPL_HIGH_LEVEL \<and> lists_inv s"

text \<open>
  A state in which code runs: the invariant holds and everything above the current level has been
  dispatched.
\<close>

definition settled :: "'x exec_scheme \<Rightarrow> bool" where
  "settled s \<longleftrightarrow> exec_inv s \<and> unat (TPL s) \<le> 31 \<and> (\<forall>t > unat (TPL s). \<not> bit (EventPending s) t)"

text \<open>
  Running code at a level \<open>p\<close> keeps an event when its notification function cannot run
  meanwhile, or may not close it.
\<close>

definition survives :: "'x exec_scheme \<Rightarrow> UINTN \<Rightarrow> IEVENT \<Rightarrow> bool" where
  "survives s' e ev \<longleftrightarrow> (\<exists>ev'. Events s' e = Some ev' \<and> NotifyTpl ev' = NotifyTpl ev \<and> EvType ev' = EvType ev)"

definition keeps_events :: "UINTN \<Rightarrow> 'x exec_scheme \<Rightarrow> 'x exec_scheme \<Rightarrow> bool" where
  "keeps_events p s s' \<longleftrightarrow>
     (\<forall>e ev. Events s e = Some ev \<and> (NotifyTpl ev \<le> p \<or> EvType ev AND EVT_NOTIFY_SIGNAL = 0) \<longrightarrow> survives s' e ev)"

text \<open>What a service promises its caller.\<close>

definition steps :: "'x exec_scheme \<Rightarrow> 'x exec_scheme \<Rightarrow> bool" where
  "steps s s' \<longleftrightarrow> settled s' \<and> TPL s' = TPL s \<and> keeps_events (TPL s) s s'"

lemma keeps_events_refl [simp]: "keeps_events p s s"
  by (simp add: keeps_events_def survives_def)

lemma keeps_events_trans: "keeps_events p s s' \<Longrightarrow> keeps_events p s' s'' \<Longrightarrow> keeps_events p s s''"
  unfolding keeps_events_def survives_def by metis

lemma keeps_events_mono: "keeps_events q s s' \<Longrightarrow> p \<le> q \<Longrightarrow> keeps_events p s s'"
  unfolding keeps_events_def by (meson order_trans)

lemma keeps_events_cong:
  "Events s1 = Events s2 \<Longrightarrow> keeps_events p s1 s' = keeps_events p s2 s'"
  "Events s1 = Events s2 \<Longrightarrow> keeps_events p s s1 = keeps_events p s s2"
  by (simp_all add: keeps_events_def survives_def)

text \<open>How an update of one event changes the list of a link field.\<close>

lemma linkedD:
  assumes "linked E P xs"
  shows "distinct xs" and "e \<in> set xs \<longleftrightarrow> (\<exists>ev. E e = Some ev \<and> P ev)"
  using assms unfolding linked_def by blast+

lemma linked_same: "linked E P xs \<Longrightarrow> E e = Some ev \<Longrightarrow> P ev' = P ev \<Longrightarrow> linked (E(e \<mapsto> ev')) P xs"
  by (simp add: linked_def)

lemma linked_remove: "linked E P xs \<Longrightarrow> \<not> P ev' \<Longrightarrow> linked (E(e \<mapsto> ev')) P (remove1 e xs)"
  by (auto simp: linked_def)

lemma linked_delete: "linked E P xs \<Longrightarrow> linked (E(e := None)) P (remove1 e xs)"
  by (auto simp: linked_def)

lemma linked_insert:
  "linked E P (xs @ ys) \<Longrightarrow> e \<notin> set (xs @ ys) \<Longrightarrow> P ev' \<Longrightarrow> linked (E(e \<mapsto> ev')) P (xs @ e # ys)"
  by (auto simp: linked_def)

lemma linked_new: "linked E P xs \<Longrightarrow> E e = None \<Longrightarrow> \<not> P ev' \<Longrightarrow> linked (E(e \<mapsto> ev')) P xs"
  by (auto simp: linked_def)

lemma linked_notin: "linked E P xs \<Longrightarrow> (\<And>ev. E e = Some ev \<Longrightarrow> \<not> P ev) \<Longrightarrow> e \<notin> set xs"
  by (auto simp: linked_def)

lemma linked_in: "linked E P xs \<Longrightarrow> E e = Some ev \<Longrightarrow> P ev \<Longrightarrow> e \<in> set xs"
  by (auto simp: linked_def)

lemma upd_event_Some: "Events s e = Some ev \<Longrightarrow> upd_event e f s = s\<lparr>Events := (Events s)(e \<mapsto> f ev)\<rparr>"
  by (simp add: upd_event_def)

lemma trigger_upd: "trigger (E(e \<mapsto> ev)) = (trigger E)(e := TriggerTime ev)"
  by (auto simp: trigger_def)

lemma lists_inv_cong:
  "Events s' = Events s \<Longrightarrow> EfiTimerList s' = EfiTimerList s \<Longrightarrow> RuntimeEventList s' = RuntimeEventList s
   \<Longrightarrow> EventSignalQueue s' = EventSignalQueue s \<Longrightarrow> (\<And>l. LockTpl (Locks s' l) = LockTpl (Locks s l))
   \<Longrightarrow> lists_inv s' = lists_inv s"
  by (simp add: lists_inv_def)

lemma lists_inv_upd:
  assumes "lists_inv s" and "Events s e = Some ev"
    and "TimerLink ev' = TimerLink ev" "TriggerTime ev' = TriggerTime ev" "RuntimeLink ev' = RuntimeLink ev"
      "SignalLink ev' = SignalLink ev" "EvType ev' = EvType ev"
  shows "lists_inv (s\<lparr>Events := (Events s)(e \<mapsto> ev')\<rparr>)"
proof -
  have "trigger ((Events s)(e \<mapsto> ev')) = trigger (Events s)"
    using assms(2,4) by (auto simp: trigger_def)
  then show ?thesis
    using assms by (auto simp: lists_inv_def intro!: linked_same [where ev = ev])
qed

lemma exec_inv_cong:
  "Events s' = Events s \<Longrightarrow> EventQueue s' = EventQueue s \<Longrightarrow> EventPending s' = EventPending s
   \<Longrightarrow> EfiTimerList s' = EfiTimerList s \<Longrightarrow> RuntimeEventList s' = RuntimeEventList s
   \<Longrightarrow> EventSignalQueue s' = EventSignalQueue s \<Longrightarrow> (\<And>l. LockTpl (Locks s' l) = LockTpl (Locks s l))
   \<Longrightarrow> exec_inv s' = exec_inv s"
  by (simp add: exec_inv_def lists_inv_def)

lemma exec_inv_simps [simp]:
  "exec_inv (s\<lparr>TPL := x\<rparr>) = exec_inv s"
  "exec_inv (s\<lparr>Interrupts := b\<rparr>) = exec_inv s"
  "exec_inv (s\<lparr>EfiSystemTime := t\<rparr>) = exec_inv s"
  "exec_inv (s\<lparr>EfiMtc := m\<rparr>) = exec_inv s"
  by (rule exec_inv_cong; simp)+

lemma AcquireLock_simps [simp]:
  "Events (AcquireLock l s) = Events s"
  "EventQueue (AcquireLock l s) = EventQueue s"
  "EventPending (AcquireLock l s) = EventPending s"
  "TPL (AcquireLock l s) = LockTpl (Locks s l)"
  "EfiTimerList (AcquireLock l s) = EfiTimerList s"
  "RuntimeEventList (AcquireLock l s) = RuntimeEventList s"
  "EventSignalQueue (AcquireLock l s) = EventSignalQueue s"
  "EfiSystemTime (AcquireLock l s) = EfiSystemTime s"
  "EfiCheckTimerEvent (AcquireLock l s) = EfiCheckTimerEvent s"
  "EfiMtc (AcquireLock l s) = EfiMtc s"
  "EfiMtcEvent (AcquireLock l s) = EfiMtcEvent s"
  "EfiAtRuntime (AcquireLock l s) = EfiAtRuntime s"
  "exec.more (AcquireLock l s) = exec.more s"
  "OwnerTpl (Locks (AcquireLock l s) l) = TPL s"
  "LockTpl (Locks (AcquireLock l s) l') = LockTpl (Locks s l')"
  by (simp_all add: AcquireLock_def RaiseTPL_def Let_def split: prod.splits)

lemma exec_inv_AcquireLock [simp]: "exec_inv (AcquireLock l s) = exec_inv s"
  by (rule exec_inv_cong) simp_all

lemma exec_invD:
  assumes "exec_inv s"
  shows "distinct (EventQueue s t)"
    and "e \<in> set (EventQueue s t) \<longleftrightarrow> (\<exists>ev. Events s e = Some ev \<and> NotifyLink ev \<and> unat (NotifyTpl ev) = t)"
    and "EventQueue s t \<noteq> [] \<Longrightarrow> bit (EventPending s) t"
    and "bit (EventPending s) t \<Longrightarrow> t < 31"
    and "Events s e = Some ev \<Longrightarrow> event_ok ev"
    and "LockTpl (Locks s EventQueueLock) = TPL_HIGH_LEVEL"
    and "lists_inv s"
  using assms unfolding exec_inv_def linked_def by blast+

lemma exec_inv_dequeue:
  assumes "exec_inv s" and "EventQueue s (unat p) = e # es"
  shows "exec_inv (dequeue_notify p e es s)"
proof -
  let ?P = "\<lambda>t ev. NotifyLink ev \<and> unat (NotifyTpl ev) = t"
  from assms obtain ev where ev: "Events s e = Some ev" "NotifyLink ev" "unat (NotifyTpl ev) = unat p"
    using exec_invD(2) [OF assms(1), of e "unat p"] by auto
  have q: "linked (Events s) (?P t) (EventQueue s t)" for t
    using assms(1) unfolding exec_inv_def by blast
  let ?ev = "ev\<lparr>NotifyLink := False, SignalCount := 0\<rparr>"
  have d: "dequeue_notify p e es s = s\<lparr>EventQueue := (EventQueue s)(unat p := es), Events := (Events s)(e \<mapsto> ?ev)\<rparr>"
    by (simp add: dequeue_notify_def upd_event_def ev)
  have "linked ((Events s)(e \<mapsto> ?ev)) (?P t) (((EventQueue s)(unat p := es)) t)" for t
  proof (cases "t = unat p")
    case True
    then show ?thesis
      using linked_remove [OF q [of t], of ?ev e] assms(2) by simp
  next
    case False
    then show ?thesis
      using linked_same [OF q [of t] ev(1), of ?ev] ev by simp
  qed
  moreover have "lists_inv (s\<lparr>Events := (Events s)(e \<mapsto> ?ev)\<rparr>)"
    by (rule lists_inv_upd [OF exec_invD(7) [OF assms(1)] ev(1)]) simp_all
  then have "lists_inv (s\<lparr>EventQueue := (EventQueue s)(unat p := es), Events := (Events s)(e \<mapsto> ?ev)\<rparr>)"
    by (subst lists_inv_cong) simp_all
  ultimately show ?thesis
    using assms ev unfolding exec_inv_def d by (auto simp: event_ok_def)
qed

lemma keeps_dequeue: "keeps_events q s (dequeue_notify p e es s)"
  by (auto simp: keeps_events_def survives_def dequeue_notify_def upd_event_def)

lemma exec_inv_clear_pending:
  assumes "exec_inv s" and "EventQueue s (unat p) = []" and "unat p < 31"
  shows "exec_inv (s\<lparr>EventPending := EventPending s AND NOT (tpl_bit p)\<rparr>)"
proof -
  have "lists_inv (s\<lparr>EventPending := EventPending s AND NOT (tpl_bit p)\<rparr>)"
    using exec_invD(7) [OF assms(1)] by (subst lists_inv_cong) simp_all
  then show ?thesis
    using assms unfolding exec_inv_def
    by (auto simp: bit_and_iff bit_not_iff bit_tpl_bit dest: bit_imp_le_length)
qed

section \<open>What a level pends\<close>

lemma above_pending:
  assumes "exec_inv s" and "unat New \<le> 31"
  shows "above_mask New AND EventPending s \<noteq> 0 \<longleftrightarrow> (\<exists>t. bit (EventPending s) t \<and> unat New < t)"
proof -
  have "bit (above_mask New AND EventPending s) t \<longleftrightarrow> bit (EventPending s) t \<and> unat New < t" for t
    using exec_invD(4) [OF assms(1), of t] by (auto simp: bit_and_iff bit_above_mask [OF assms(2)])
  then show ?thesis by (simp add: word_0_iff_bits)
qed

lemma nothing_above:
  assumes "exec_inv s" and "unat New \<le> 31" and "above_mask New AND EventPending s = 0" and "unat New < t"
  shows "\<not> bit (EventPending s) t"
  using assms above_pending [OF assms(1,2)] by blast

lemma highest_pending:
  assumes "exec_inv s" and "bit (EventPending s) t" and "unat New < t"
  shows "\<exists>p. HighestSetBit (EventPending s) = Ret p \<and> bit (EventPending s) (unat p) \<and> unat p < 31 \<and>
             t \<le> unat p \<and> (\<forall>j > unat p. \<not> bit (EventPending s) j)"
proof -
  let ?P = "EventPending s"
  have lt: "unat ?P < 2 ^ 31"
    unfolding unat_less_exp_iff using exec_invD(4) [OF assms(1)] by (meson not_le)
  then have "?P < 2 ^ 32" by (simp add: word_less_nat_alt)
  moreover have "0 < ?P" using assms(2) by (metis bit_0_eq bot_apply bot_bool_def word_gt_0)
  ultimately obtain m where m: "HighestSetBit ?P = Ret (of_nat m)" "m < 32" "2 ^ m \<le> unat ?P" "unat ?P < 2 ^ Suc m"
    using HighestSetBit_correct by blast
  have u: "unat (of_nat m :: UINTN) = m" using m(2) by (simp add: unat_of_nat take_bit_nat_eq_self)
  have hi: "\<not> bit ?P j" if "m < j" for j
    using m(4) that unfolding unat_less_exp_iff by auto
  have "bit ?P m"
    using m(3,4) hi by (metis not_le unat_less_exp_iff le_neq_implies_less)
  moreover have "t \<le> m" using hi assms(2) by (meson not_le)
  ultimately show ?thesis
    using m(1) hi exec_invD(4) [OF assms(1)] by (intro exI [of _ "of_nat m"]) (simp add: u)
qed

section \<open>Releasing a lock when nothing above is pending\<close>

definition released :: "lock_id \<Rightarrow> 'x exec_scheme \<Rightarrow> 'x exec_scheme" where
  "released l s =
     s\<lparr>Locks := (Locks s)(l := (Locks s l)\<lparr>LockCount := LockCount (Locks s l) - 1\<rparr>),
       TPL := OwnerTpl (Locks s l), Interrupts := (OwnerTpl (Locks s l) < TPL_HIGH_LEVEL \<or> Interrupts s)\<rparr>"

lemma released_simps [simp]:
  "Events (released l s) = Events s"
  "EventQueue (released l s) = EventQueue s"
  "EventPending (released l s) = EventPending s"
  "TPL (released l s) = OwnerTpl (Locks s l)"
  "EfiTimerList (released l s) = EfiTimerList s"
  "RuntimeEventList (released l s) = RuntimeEventList s"
  "EventSignalQueue (released l s) = EventSignalQueue s"
  "EfiSystemTime (released l s) = EfiSystemTime s"
  "EfiCheckTimerEvent (released l s) = EfiCheckTimerEvent s"
  "EfiMtc (released l s) = EfiMtc s"
  "EfiMtcEvent (released l s) = EfiMtcEvent s"
  "EfiAtRuntime (released l s) = EfiAtRuntime s"
  "exec.more (released l s) = exec.more s"
  "LockTpl (Locks (released l s) l') = LockTpl (Locks s l')"
  "OwnerTpl (Locks (released l s) l') = OwnerTpl (Locks s l')"
  by (simp_all add: released_def)

lemma exec_inv_released [simp]: "exec_inv (released l s) = exec_inv s"
  by (rule exec_inv_cong) simp_all

lemma exec_inv_more [simp]: "exec_inv (s\<lparr>exec.more := m\<rparr>) = exec_inv s"
  by (rule exec_inv_cong) simp_all

lemma RestoreTPL_nothing_above:
  "above_mask New AND EventPending s = 0 \<Longrightarrow>
     RestoreTPL cb (Suc (Suc m)) New s = Ret (s\<lparr>TPL := New, Interrupts := (New < TPL_HIGH_LEVEL \<or> Interrupts s)\<rparr>)"
  by (simp add: Let_def)

lemma release_nothing_above:
  "above_mask (OwnerTpl (Locks s l)) AND EventPending s = 0 \<Longrightarrow>
     ReleaseLock_with (RestoreTPL cb (Suc (Suc m))) l s = Ret (released l s)"
  unfolding ReleaseLock_with_def Let_def by (subst RestoreTPL_nothing_above) (simp_all add: released_def)

lemma none_above_highest:
  "unat p \<le> 31 \<Longrightarrow> \<forall>j > unat p. \<not> bit P j \<Longrightarrow> above_mask p AND P = 0"
  by (auto simp: word_0_iff_bits bit_and_iff bit_above_mask)

lemma release_quiet:
  assumes "unat (OwnerTpl (Locks s l)) \<le> 31" and "\<forall>t > unat (OwnerTpl (Locks s l)). \<not> bit (EventPending s) t" and "2 \<le> n"
  shows "ReleaseLock cb n l s = Ret (released l s)"
proof -
  obtain m where "n = Suc (Suc m)" using assms(3) by (metis numeral_2_eq_2 Suc_le_D Suc_le_mono)
  then show ?thesis
    unfolding ReleaseLock_def using release_nothing_above [OF none_above_highest [OF assms(1,2)]] by simp
qed

lemma settled_queue: "settled s \<Longrightarrow> unat (TPL s) < t \<Longrightarrow> EventQueue s t = []"
  using exec_invD(3) [of s t] by (auto simp: settled_def)

lemma settledD:
  assumes "settled s"
  shows "exec_inv s" and "unat (TPL s) \<le> 31" and "unat (TPL s) < t \<Longrightarrow> \<not> bit (EventPending s) t"
  using assms unfolding settled_def by blast+

section \<open>The contract of a notification function\<close>

text \<open>
  A notification function is called at the level of its event, with everything above that level
  dispatched. It returns in such a state again, does not fault, and closes no event but its
  own, nor its own when that is not of the kind \<open>EVT_NOTIFY_SIGNAL\<close>; events of a higher
  level may be closed by their own functions meanwhile.
\<close>

locale notify_contract =
  fixes cb :: "'x notify_fn"
  assumes cb_ok: "settled s \<Longrightarrow> Events s e = Some ev \<Longrightarrow> f \<noteq> 0 \<Longrightarrow> TPL s = NotifyTpl ev \<Longrightarrow>
    run_ok (\<lambda>s'. settled s' \<and> TPL s' = TPL s \<and>
      (\<forall>e' ev'. Events s e' = Some ev' \<and>
         (e' \<noteq> e \<and> NotifyTpl ev' \<le> TPL s \<or> EvType ev' AND EVT_NOTIFY_SIGNAL = 0) \<longrightarrow> survives s' e' ev')) (cb f e c s)"
begin

text \<open>What lowering to a level promises, and that each part of the dispatcher keeps the promise.\<close>

definition lowered :: "UINTN \<Rightarrow> 'x exec_scheme \<Rightarrow> 'x exec_scheme \<Rightarrow> bool" where
  "lowered New s s' \<longleftrightarrow> settled s' \<and> TPL s' = New \<and> keeps_events New s s'"

definition lowers :: "(UINTN \<Rightarrow> 'x exec_scheme \<Rightarrow> 'x exec_scheme run) \<Rightarrow> bool" where
  "lowers restore \<longleftrightarrow>
     (\<forall>New s. exec_inv s \<and> unat New \<le> 31 \<longrightarrow> run_ok (lowered New s) (restore New s))"

lemma call_notify_ok:
  assumes "settled s" and "Events s e = Some ev" and "NotifyTpl ev = TPL s" and "q < TPL s"
  shows "run_ok (\<lambda>s'. exec_inv s' \<and> TPL s' = TPL s \<and> keeps_events q s s') (call_notify cb e s)"
proof -
  have "NotifyTpl ev \<noteq> 0" using assms(3,4) by auto
  then have f: "NotifyFunction ev \<noteq> 0"
    using exec_invD(5) [OF _ assms(2)] assms(1) by (simp add: event_ok_def settled_def)
  have lt: "e' \<noteq> e \<and> NotifyTpl ev' \<le> TPL s" if "Events s e' = Some ev'" "NotifyTpl ev' \<le> q" for e' ev'
    using that assms(2-4) by auto
  have "run_ok (\<lambda>s'. exec_inv s' \<and> TPL s' = TPL s \<and> keeps_events q s s') (cb (NotifyFunction ev) e c s)" for c
    by (rule run_ok_mono [OF cb_ok [OF assms(1,2) f assms(3) [symmetric]]])
       (unfold keeps_events_def settled_def, use lt in blast)
  then show ?thesis using f assms(2) by (simp add: call_notify_def)
qed

lemma release_ok:
  assumes "lowers restore" and "exec_inv s" and "OwnerTpl (Locks s l) = p" and "unat p \<le> 31"
  shows "run_ok (lowered p s) (ReleaseLock_with restore l s)"
proof -
  define s1 where "s1 = s\<lparr>Locks := (Locks s)(l := (Locks s l)\<lparr>LockCount := LockCount (Locks s l) - 1\<rparr>)\<rparr>"
  have "exec_inv s1" using assms(2) unfolding s1_def by (subst exec_inv_cong) simp_all
  then have "run_ok (lowered p s1) (restore p s1)" using assms(1,4) by (simp add: lowers_def)
  moreover have "lowered p s1 = lowered p s"
    by (simp add: lowered_def fun_eq_iff keeps_events_def survives_def s1_def)
  ultimately show ?thesis by (simp add: ReleaseLock_with_def s1_def assms(3) Let_def)
qed

lemma dispatch_loop_ok:
  assumes "lowers restore" and "q < p" and "unat p < 31"
    and "exec_inv s" and "OwnerTpl (Locks s EventQueueLock) = p"
  shows "run_ok (\<lambda>s'. exec_inv s' \<and> keeps_events q s s') (dispatch_loop cb restore n p s)"
  using assms(4,5)
proof (induction n arbitrary: s)
  case (Suc n)
  have p: "unat p \<le> 31" "q \<le> p" using assms(2,3) by simp_all
  show ?case
  proof (cases "EventQueue s (unat p)")
    case Nil
    let ?s = "s\<lparr>EventPending := EventPending s AND NOT (tpl_bit p)\<rparr>"
    have "run_ok (lowered p ?s) (ReleaseLock_with restore EventQueueLock ?s)"
      by (rule release_ok [OF assms(1) exec_inv_clear_pending [OF Suc.prems(1) Nil assms(3)] _ p(1)])
         (simp add: Suc.prems(2))
    moreover have "lowered p ?s s' \<Longrightarrow> exec_inv s' \<and> keeps_events q s s'" for s'
      using keeps_events_mono [OF _ p(2), of ?s s'] keeps_events_cong(1) [of ?s s] by (simp add: lowered_def settled_def)
    ultimately have "run_ok (\<lambda>s'. exec_inv s' \<and> keeps_events q s s') (ReleaseLock_with restore EventQueueLock ?s)"
      by (rule run_ok_mono)
    then show ?thesis by (simp add: Nil)
  next
    case (Cons e es)
    let ?s = "dequeue_notify p e es s"
    obtain ev where ev: "Events s e = Some ev" "NotifyTpl ev = p"
      using exec_invD(2) [OF Suc.prems(1), of e "unat p"] Cons by (auto simp: word_unat_eq_iff)
    have rel: "run_ok (lowered p ?s) (ReleaseLock_with restore EventQueueLock ?s)"
      by (rule release_ok [OF assms(1) exec_inv_dequeue [OF Suc.prems(1) Cons] _ p(1)])
         (simp add: Suc.prems(2) dequeue_notify_def upd_event_def)
    have call: "run_ok (\<lambda>s2. exec_inv s2 \<and> TPL s2 = p \<and> keeps_events q s s2) (call_notify cb e s1)"
      if "lowered p ?s s1" for s1
    proof -
      from that have s1: "settled s1" "TPL s1 = p" "keeps_events p s s1"
        using keeps_events_trans [OF keeps_dequeue] unfolding lowered_def by blast+
      then obtain ev1 where e1: "Events s1 e = Some ev1" "NotifyTpl ev1 = TPL s1"
        using ev unfolding keeps_events_def survives_def by fastforce
      show ?thesis
        by (rule run_ok_mono [OF call_notify_ok [OF s1(1) e1, of q]])
           (use assms(2) s1 keeps_events_trans [OF keeps_events_mono [OF s1(3) p(2)]] in auto)
    qed
    have step: "run_ok (\<lambda>s'. exec_inv s' \<and> keeps_events q s s')
        (dispatch_loop cb restore n p (AcquireLock EventQueueLock s2))"
      if "exec_inv s2 \<and> TPL s2 = p \<and> keeps_events q s s2" for s2
    proof -
      have "run_ok (\<lambda>s'. exec_inv s' \<and> keeps_events q (AcquireLock EventQueueLock s2) s')
        (dispatch_loop cb restore n p (AcquireLock EventQueueLock s2))"
        by (rule Suc.IH) (use that in simp_all)
      then show ?thesis
        by (rule run_ok_mono) (use that keeps_events_cong(1) [of "AcquireLock EventQueueLock s2" s2] in
            \<open>auto intro: keeps_events_trans\<close>)
    qed
    show ?thesis
      by (simp add: Cons) (rule run_ok_bind [OF rel], rule run_ok_bind [OF call], assumption, erule step)
  qed
qed simp

lemma restore_loop_ok:
  assumes "lowers restore" and "unat New \<le> 31" and "exec_inv s"
  shows "run_ok (\<lambda>s'. exec_inv s' \<and> keeps_events New s s' \<and> (\<forall>t > unat New. \<not> bit (EventPending s') t))
     (restore_loop cb restore n New s)"
  using assms(3)
proof (induction n arbitrary: s)
  case (Suc n)
  show ?case
  proof (cases "above_mask New AND EventPending s = 0")
    case True
    then show ?thesis using Suc.prems nothing_above [OF Suc.prems assms(2) True] by simp
  next
    case False
    then obtain t where "bit (EventPending s) t" "unat New < t"
      using above_pending [OF Suc.prems assms(2)] by blast
    from highest_pending [OF Suc.prems this] \<open>unat New < t\<close>
    obtain p where p: "HighestSetBit (EventPending s) = Ret p" "unat p < 31" "unat New < unat p" by auto
    define s2 where "s2 = (if p < TPL_HIGH_LEVEL then s\<lparr>TPL := p, Interrupts := True\<rparr> else s\<lparr>TPL := p\<rparr>)"
    have s2: "exec_inv s2" "TPL s2 = p" "Events s2 = Events s" using Suc.prems by (simp_all add: s2_def)
    have d: "run_ok (\<lambda>s3. exec_inv s3 \<and> keeps_events New s s3) (DispatchEventNotifies cb restore n p s2)"
      using dispatch_loop_ok [OF assms(1), of New p "AcquireLock EventQueueLock s2" n] s2 p(2,3)
        keeps_events_cong(1) [of "AcquireLock EventQueueLock s2" s]
      by (simp add: word_less_nat_alt word_le_nat_alt DispatchEventNotifies_def)
    have step: "run_ok (\<lambda>s'. exec_inv s' \<and> keeps_events New s s' \<and> (\<forall>t > unat New. \<not> bit (EventPending s') t))
        (restore_loop cb restore n New s3)" if "exec_inv s3 \<and> keeps_events New s s3" for s3
      by (rule run_ok_mono [OF Suc.IH]) (use that keeps_events_trans in blast)+
    have "restore_loop cb restore (Suc n) New s =
      bind_run (DispatchEventNotifies cb restore n p s2) (restore_loop cb restore n New)"
      using False p(1) by (simp add: s2_def Let_def)
    then show ?thesis
      by (simp only:) (rule run_ok_bind [OF d step])
  qed
qed simp

lemma RestoreTPL_lowers: "lowers (RestoreTPL cb n)"
proof (induction n)
  case (Suc n)
  have "run_ok (lowered New s) (RestoreTPL cb (Suc n) New s)" if a: "exec_inv s" "unat New \<le> 31" for New s
  proof -
    define s1 where "s1 = (if CurrentTPL s \<ge> TPL_HIGH_LEVEL \<and> New < TPL_HIGH_LEVEL then s\<lparr>TPL := TPL_HIGH_LEVEL\<rparr> else s)"
    have s1: "exec_inv s1" "Events s1 = Events s" using a by (simp_all add: s1_def)
    show ?thesis
      unfolding RestoreTPL.simps Let_def s1_def [symmetric]
      by (rule run_ok_bind [OF restore_loop_ok [OF Suc a(2) s1(1)]])
         (use s1(2) a(2) in \<open>auto simp: lowered_def settled_def keeps_events_def survives_def\<close>)
  qed
  then show ?case by (simp add: lowers_def)
qed (simp add: lowers_def)

text \<open>Lowering the level and releasing a lock, for any fuel.\<close>

lemma RestoreTPL_ok:
  "exec_inv s \<Longrightarrow> unat New \<le> 31 \<Longrightarrow> run_ok (lowered New s) (RestoreTPL cb n New s)"
  using RestoreTPL_lowers [of n] unfolding lowers_def by blast

lemma ReleaseLock_ok:
  "exec_inv s \<Longrightarrow> unat (OwnerTpl (Locks s l)) \<le> 31 \<Longrightarrow>
     run_ok (lowered (OwnerTpl (Locks s l)) s) (ReleaseLock cb n l s)"
  unfolding ReleaseLock_def by (rule release_ok [OF RestoreTPL_lowers _ refl])

text \<open>The end of a critical section that a service entered in state \<open>s\<close>.\<close>

lemma section_end:
  assumes "exec_inv s1" and "OwnerTpl (Locks s1 l) = TPL s" and "unat (TPL s) \<le> 31" and "keeps_events (TPL s) s s1"
  shows "run_ok (steps s) (ReleaseLock cb n l s1)"
proof -
  have "unat (OwnerTpl (Locks s1 l)) \<le> 31" using assms(2,3) by simp
  from ReleaseLock_ok [OF assms(1) this, of n] show ?thesis
    by (rule run_ok_mono) (use assms(2,4) in \<open>auto simp: lowered_def steps_def intro: keeps_events_trans\<close>)
qed

end

end
