(* ===== verification/DispatchOrder.thy ===== *)
theory DispatchOrder
  imports Dispatch
begin

text \<open>
  The order in which lowering the priority level calls the pending notification functions, and
  the properties of the task priority level (\<open>exec/tpl.c\<close>).
\<close>

section \<open>Order of dispatch\<close>

text \<open>
  Notification functions that only act on the part of the state the execution services do not
  own (\<open>exec.more\<close>): with them the order of the calls is observable, and it is the whole
  effect of lowering the level.
\<close>

definition observing :: "(UINTN \<Rightarrow> UINTN \<Rightarrow> UINTN \<Rightarrow> 'x \<Rightarrow> 'x) \<Rightarrow> 'x notify_fn" where
  "observing g f e c s = Ret (s\<lparr>exec.more := g f e c (exec.more s)\<rparr>)"

interpretation observing: notify_contract "observing g" for g
  by unfold_locales (auto simp: observing_def settled_def survives_def)

definition fire :: "(UINTN \<Rightarrow> UINTN \<Rightarrow> UINTN \<Rightarrow> 'x \<Rightarrow> 'x) \<Rightarrow> 'x exec_scheme \<Rightarrow> 'x \<Rightarrow> UINTN \<Rightarrow> 'x" where
  "fire g s m e = (case Events s e of None \<Rightarrow> m | Some ev \<Rightarrow> g (NotifyFunction ev) e (NotifyContext ev) m)"

text \<open>The events a lowering to \<open>New\<close> notifies: highest level first, in queue order within a level.\<close>

definition pending_order :: "nat \<Rightarrow> nat \<Rightarrow> 'x exec_scheme \<Rightarrow> UINTN list" where
  "pending_order lo hi s = concat (map (EventQueue s) (rev [lo..<hi]))"

text \<open>States that agree on what a notification reads of an event.\<close>

definition same_handlers :: "'x exec_scheme \<Rightarrow> 'x exec_scheme \<Rightarrow> bool" where
  "same_handlers s s' \<longleftrightarrow>
     (\<forall>e. map_option (\<lambda>ev. (NotifyFunction ev, NotifyContext ev)) (Events s' e) =
          map_option (\<lambda>ev. (NotifyFunction ev, NotifyContext ev)) (Events s e))"

lemma same_handlers_refl [simp]: "same_handlers s s"
  by (simp add: same_handlers_def)

lemma same_handlers_trans: "same_handlers s s' \<Longrightarrow> same_handlers s' s'' \<Longrightarrow> same_handlers s s''"
  by (simp add: same_handlers_def)

lemma same_handlers_fire: "same_handlers s s' \<Longrightarrow> fire g s' = fire g s"
proof (intro ext)
  fix m e
  assume "same_handlers s s'"
  then have "map_option (\<lambda>ev. (NotifyFunction ev, NotifyContext ev)) (Events s' e) =
          map_option (\<lambda>ev. (NotifyFunction ev, NotifyContext ev)) (Events s e)"
    by (simp add: same_handlers_def)
  then show "fire g s' m e = fire g s m e"
    by (cases "Events s e"; cases "Events s' e") (simp_all add: fire_def)
qed

lemma dispatch_loop_order:
  assumes "\<forall>j > unat p. \<not> bit (EventPending s) j" and "0 < p" and "unat p < 31"
    and "exec_inv s" and "OwnerTpl (Locks s EventQueueLock) = p" and "length (EventQueue s (unat p)) < n"
  shows "\<exists>s'. dispatch_loop (observing g) (RestoreTPL (observing g) (Suc (Suc m))) n p s = Ret s' \<and>
     exec_inv s' \<and> EventQueue s' = (EventQueue s)(unat p := []) \<and>
     EventPending s' = EventPending s AND NOT (tpl_bit p) \<and> same_handlers s s' \<and>
     exec.more s' = foldl (fire g s) (exec.more s) (EventQueue s (unat p))"
  using assms(1,4-6)
proof (induction "EventQueue s (unat p)" arbitrary: s n)
  case Nil
  then obtain k where n: "n = Suc k" by (cases n) auto
  let ?s = "s\<lparr>EventPending := EventPending s AND NOT (tpl_bit p)\<rparr>"
  have "above_mask p AND EventPending ?s = 0"
    by (rule none_above_highest) (use Nil.prems(1) assms(3) in \<open>simp_all add: bit_and_iff\<close>)
  then have rel: "ReleaseLock_with (RestoreTPL (observing g) (Suc (Suc m))) EventQueueLock ?s = Ret (released EventQueueLock ?s)"
    using Nil.prems(3) by (intro release_nothing_above) simp
  have q: "exec_inv ?s" by (rule exec_inv_clear_pending) (use Nil assms in simp_all)
  have "dispatch_loop (observing g) (RestoreTPL (observing g) (Suc (Suc m))) n p s = Ret (released EventQueueLock ?s)"
    using Nil.hyps rel by (simp add: n del: RestoreTPL.simps split: list.splits)
  then show ?case
    using Nil.hyps q by (simp add: same_handlers_def fun_upd_idem del: RestoreTPL.simps)
next
  case (Cons e es)
  then obtain k where n: "n = Suc k" by (cases n) auto
  have E: "EventQueue s (unat p) = e # es" using Cons.hyps(2) by simp
  obtain ev where ev: "Events s e = Some ev" "NotifyTpl ev = p"
    using exec_invD(2) [OF Cons.prems(2), of e "unat p"] E by (auto simp: word_unat_eq_iff)
  have fn: "NotifyFunction ev \<noteq> 0" 
    using exec_invD(5) [OF Cons.prems(2) ev(1)] ev(2) assms(2) by (auto simp: event_ok_def)
  let ?d = "dequeue_notify p e es s"
  define s1 where "s1 = released EventQueueLock ?d"
  define s2 where "s2 = s1\<lparr>exec.more := g (NotifyFunction ev) e (NotifyContext ev) (exec.more s1)\<rparr>"
  define s3 where "s3 = AcquireLock EventQueueLock s2"
  have own: "OwnerTpl (Locks ?d EventQueueLock) = p" and pend: "EventPending ?d = EventPending s"
    using Cons.prems(3) by (simp_all add: dequeue_notify_def upd_event_def)
  have "above_mask p AND EventPending s = 0"
    by (rule none_above_highest) (use Cons.prems(1) assms(3) in simp_all)
  then have rel: "ReleaseLock_with (RestoreTPL (observing g) (Suc (Suc m))) EventQueueLock ?d = Ret s1"
    unfolding s1_def by (intro release_nothing_above) (simp add: own pend)
  have call: "call_notify (observing g) e s1 = Ret s2"
    using fn ev by (simp add: call_notify_def s1_def s2_def dequeue_notify_def upd_event_def observing_def)
  have unfold: "dispatch_loop (observing g) (RestoreTPL (observing g) (Suc (Suc m))) n p s =
     dispatch_loop (observing g) (RestoreTPL (observing g) (Suc (Suc m))) k p s3"
    by (simp add: n E rel call s3_def del: RestoreTPL.simps)
  have q1: "exec_inv ?d" by (rule exec_inv_dequeue [OF Cons.prems(2) E])
  have s3: "EventQueue s3 = (EventQueue s)(unat p := es)" "EventPending s3 = EventPending s"
    "OwnerTpl (Locks s3 EventQueueLock) = p" "same_handlers s s3"
    "exec.more s3 = fire g s (exec.more s) e" "exec_inv s3"
    using ev q1 own pend
    by (simp_all add: s3_def s2_def s1_def) (simp_all add: dequeue_notify_def upd_event_def same_handlers_def fire_def)
  have "\<exists>s'. dispatch_loop (observing g) (RestoreTPL (observing g) (Suc (Suc m))) k p s3 = Ret s' \<and>
     exec_inv s' \<and> EventQueue s' = (EventQueue s3)(unat p := []) \<and>
     EventPending s' = EventPending s3 AND NOT (tpl_bit p) \<and> same_handlers s3 s' \<and>
     exec.more s' = foldl (fire g s3) (exec.more s3) (EventQueue s3 (unat p))"
    by (rule Cons.hyps(1)) (use s3 Cons.prems E n in simp_all)
  then show ?case
    unfolding unfold using s3 same_handlers_trans [OF s3(4)] same_handlers_fire [OF s3(4)] E by auto
qed

lemma pending_order_cong:
  "(\<And>t. lo \<le> t \<Longrightarrow> t < hi \<Longrightarrow> EventQueue s' t = EventQueue s t) \<Longrightarrow> pending_order lo hi s' = pending_order lo hi s"
  unfolding pending_order_def by (rule arg_cong [where f = concat], rule map_cong) auto

lemma pending_order_Suc: "lo \<le> hi \<Longrightarrow> pending_order lo (Suc hi) s = EventQueue s hi @ pending_order lo hi s"
  by (simp add: pending_order_def)

lemma restore_loop_order:
  assumes "exec_inv s" and "unat New < b" and "b \<le> 31" and "\<forall>t\<ge>b. \<not> bit (EventPending s) t"
    and "b - unat New + length (pending_order (Suc (unat New)) b s) \<le> n"
  shows "\<exists>s'. restore_loop (observing g) (RestoreTPL (observing g) (Suc (Suc m))) n New s = Ret s' \<and>
     exec_inv s' \<and> (\<forall>t. EventQueue s' t = (if unat New < t then [] else EventQueue s t)) \<and>
     (\<forall>t. bit (EventPending s') t \<longleftrightarrow> bit (EventPending s) t \<and> t \<le> unat New) \<and> same_handlers s s' \<and>
     exec.more s' = foldl (fire g s) (exec.more s) (pending_order (Suc (unat New)) b s)"
  using assms
proof (induction "b - Suc (unat New)" arbitrary: b n s)
  case 0
  then have b: "b = Suc (unat New)" and n: "\<exists>k. n = Suc k" by (auto intro: not0_implies_Suc)
  then have "above_mask New AND EventPending s = 0"
    using 0 by (intro none_above_highest) auto
  moreover have "EventQueue s t = []" if "unat New < t" for t
    using exec_invD(3) [OF 0(2), of t] 0(5) b that by auto
  moreover have "bit (EventPending s) t \<Longrightarrow> t \<le> unat New" for t
    using 0(5) b by (metis not_less_eq_eq)
  ultimately show ?case using n 0(2) b by (auto simp: pending_order_def simp del: RestoreTPL.simps)
next
  case (Suc d)
  then obtain c where c: "b = Suc c" "unat New < c" by (cases b) auto
  have split: "pending_order (Suc (unat New)) b s = EventQueue s c @ pending_order (Suc (unat New)) c s"
    using c by (simp add: pending_order_Suc)
  show ?case
  proof (cases "bit (EventPending s) c")
    case False
    have E: "EventQueue s c = []" using exec_invD(3) [OF Suc.prems(1), of c] False by auto
    have "\<forall>t\<ge>c. \<not> bit (EventPending s) t" using Suc.prems(4) False c by (metis le_neq_implies_less Suc_leI)
    with Suc.hyps(1) [of c s n] Suc.prems Suc.hyps(2) c E split show ?thesis by simp
  next
    case True
    obtain k where n: "n = Suc k" using Suc.prems(5) c by (cases n) auto
    obtain p where p: "HighestSetBit (EventPending s) = Ret p" "unat p = c"
      using highest_pending [OF Suc.prems(1) True c(2)] Suc.prems(4) c by (metis Suc_leI le_antisym not_le)
    have pos: "0 < p" using p(2) c(2) by (simp add: word_less_nat_alt)
    define s2 where "s2 = s\<lparr>TPL := p, Interrupts := True\<rparr>"
    define s3 where "s3 = AcquireLock EventQueueLock s2"
    have s3: "exec_inv s3" "EventQueue s3 = EventQueue s" "EventPending s3 = EventPending s"
      "OwnerTpl (Locks s3 EventQueueLock) = p" "fire g s3 = fire g s" "exec.more s3 = exec.more s" "same_handlers s s3"
      using Suc.prems(1)
      by (simp_all add: s3_def s2_def fire_def fun_eq_iff same_handlers_def)
    have lenk: "length (EventQueue s c) < k"
      using Suc.prems(5) c unfolding n split by simp
    obtain s4 where s4: "dispatch_loop (observing g) (RestoreTPL (observing g) (Suc (Suc m))) k p s3 = Ret s4"
      "exec_inv s4" "EventQueue s4 = (EventQueue s)(c := [])"
      "EventPending s4 = EventPending s AND NOT (tpl_bit p)" "same_handlers s3 s4"
      "exec.more s4 = foldl (fire g s) (exec.more s) (EventQueue s c)"
      using dispatch_loop_order [of p s3 k g m] s3 p pos c Suc.prems(3,4) lenk by auto
    have h: "same_handlers s s4" using same_handlers_trans [OF s3(7) s4(5)] .
    have unfold: "restore_loop (observing g) (RestoreTPL (observing g) (Suc (Suc m))) n New s =
      restore_loop (observing g) (RestoreTPL (observing g) (Suc (Suc m))) k New s4"
    proof -
      have "above_mask New AND EventPending s \<noteq> 0"
        using above_pending [OF Suc.prems(1), of New] True c Suc.prems(2,3) by auto
      moreover have "p < TPL_HIGH_LEVEL" "p \<le> TPL_HIGH_LEVEL"
        using p(2) c Suc.prems(3) by (simp_all add: word_less_nat_alt word_le_nat_alt)
      ultimately show ?thesis
        using p(1) s4(1) by (simp add: n DispatchEventNotifies_def s2_def s3_def Let_def del: RestoreTPL.simps)
    qed
    have bits: "bit (EventPending s4) t \<longleftrightarrow> bit (EventPending s) t \<and> t \<noteq> c" for t
      using p(2) c Suc.prems(3) by (auto simp: s4(4) bit_and_iff bit_not_iff bit_tpl_bit dest: bit_imp_le_length)
    have ord: "pending_order (Suc (unat New)) c s4 = pending_order (Suc (unat New)) c s"
      by (rule pending_order_cong) (simp add: s4(3))
    have "\<exists>s'. restore_loop (observing g) (RestoreTPL (observing g) (Suc (Suc m))) k New s4 = Ret s' \<and>
     exec_inv s' \<and> (\<forall>t. EventQueue s' t = (if unat New < t then [] else EventQueue s4 t)) \<and>
     (\<forall>t. bit (EventPending s') t \<longleftrightarrow> bit (EventPending s4) t \<and> t \<le> unat New) \<and> same_handlers s4 s' \<and>
     exec.more s' = foldl (fire g s4) (exec.more s4) (pending_order (Suc (unat New)) c s4)"
      by (rule Suc.hyps(1)) (use Suc.hyps(2) Suc.prems c n split s4(2) bits ord in \<open>auto simp: Suc_le_eq dest: le_neq_implies_less\<close>)
    then show ?thesis
      unfolding unfold split
      using same_handlers_trans [OF h] same_handlers_fire [OF h, of g] s4(3,6) bits c ord by auto
  qed
qed

lemma RestoreTPL_order:
  assumes "exec_inv s" and "New < TPL_HIGH_LEVEL"
    and "length (pending_order (Suc (unat New)) 31 s) + 35 \<le> n"
  shows "\<exists>s'. RestoreTPL (observing g) n New s = Ret s' \<and> TPL s' = New \<and> Interrupts s' \<and>
     exec.more s' = foldl (fire g s) (exec.more s) (pending_order (Suc (unat New)) 31 s) \<and>
     (\<forall>t. EventQueue s' t = (if unat New < t then [] else EventQueue s t))"
proof -
  define n' where "n' = n - 3"
  have n: "n = Suc (Suc (Suc n'))" using assms(3) by (simp add: n'_def)
  define s1 where "s1 = (if CurrentTPL s \<ge> TPL_HIGH_LEVEL \<and> New < TPL_HIGH_LEVEL then s\<lparr>TPL := TPL_HIGH_LEVEL\<rparr> else s)"
  have s1: "exec_inv s1" "EventQueue s1 = EventQueue s" "EventPending s1 = EventPending s" "Events s1 = Events s"
    "exec.more s1 = exec.more s" "fire g s1 = fire g s"
    using assms(1) by (simp_all add: s1_def fire_def fun_eq_iff)
  have ord: "pending_order (Suc (unat New)) 31 s1 = pending_order (Suc (unat New)) 31 s"
    by (rule pending_order_cong) (simp add: s1(2))
  have hi: "\<forall>t\<ge>31. \<not> bit (EventPending s1) t"
    using exec_invD(4) [OF s1(1)] by (meson not_le)
  have len: "31 - unat New + length (pending_order (Suc (unat New)) 31 s1) \<le> Suc (Suc n')"
    using assms(3) unfolding n ord by simp
  have New: "unat New < 31" using assms(2) by (simp add: word_less_nat_alt)
  obtain s2 where s2: "restore_loop (observing g) (RestoreTPL (observing g) (Suc (Suc n'))) (Suc (Suc n')) New s1 = Ret s2"
    "\<forall>t. EventQueue s2 t = (if unat New < t then [] else EventQueue s t)"
    "exec.more s2 = foldl (fire g s) (exec.more s) (pending_order (Suc (unat New)) 31 s)"
    using restore_loop_order [OF s1(1) New order_refl hi len, of g n'] unfolding s1(2,5,6) ord by blast
  have "RestoreTPL (observing g) n New s = Ret (s2\<lparr>TPL := New, Interrupts := True\<rparr>)"
    unfolding n RestoreTPL.simps(2) [of _ "Suc (Suc n')"] Let_def s1_def [symmetric] s2(1) using assms(2) by simp
  with s2 show ?thesis by simp
qed

text \<open>Lowering the level when exactly one notification is pending above it.\<close>

lemma pending_order_single:
  assumes "\<And>u. u \<noteq> t \<Longrightarrow> lo \<le> u \<Longrightarrow> EventQueue s u = []" and "lo \<le> t" and "t < hi"
  shows "pending_order lo hi s = EventQueue s t"
proof -
  have split: "[lo..<hi] = [lo..<t] @ t # [Suc t..<hi]"
    using assms(2,3) by (metis le_add_diff_inverse less_imp_le upt_add_eq_append upt_conv_Cons)
  have e: "concat (map (EventQueue s) (rev xs)) = []" if "\<And>x. x \<in> set xs \<Longrightarrow> x \<noteq> t \<and> lo \<le> x" for xs
    using that assms(1) by (induction xs) auto
  have "concat (map (EventQueue s) (rev [lo..<t])) = []" "concat (map (EventQueue s) (rev [Suc t..<hi])) = []"
    by (rule e; use assms(2) in auto)+
  then show ?thesis
    unfolding pending_order_def split rev_append rev.simps map_append concat_append by (simp only:) simp
qed

section \<open>A sample state\<close>

text \<open>Two events at \<open>TPL_CALLBACK\<close> and one at \<open>TPL_NOTIFY\<close>, all pending; the rest of the state is a log.\<close>

definition sample_event :: "UINTN \<Rightarrow> IEVENT" where
  "sample_event tpl = \<lparr>EvType = EVT_NOTIFY_SIGNAL, SignalCount = 1, SignalLink = False, NotifyTpl = tpl,
     NotifyFunction = 4096, NotifyContext = 0, NotifyLink = True, RuntimeLink = False, TimerLink = False,
     TriggerTime = 0, Period = 0\<rparr>"

definition sample_locks :: "lock_id \<Rightarrow> FLOCK" where
  "sample_locks l = \<lparr>LockTpl = (case l of EfiTimerListLock \<Rightarrow> 30 | MemoryLock \<Rightarrow> 16 | ProtocolDatabaseLock \<Rightarrow> 16 | _ \<Rightarrow> 31),
     OwnerTpl = 0, LockCount = 0\<rparr>"

definition sample_pending :: "UINTN list exec_scheme" where
  "sample_pending = \<lparr>TPL = TPL_HIGH_LEVEL, Interrupts = False, Locks = sample_locks,
     Events = [100 \<mapsto> sample_event 8, 200 \<mapsto> sample_event 16, 300 \<mapsto> sample_event 8],
     EventQueue = (\<lambda>_. [])(8 := [100, 300], 16 := [200]), EventPending = 0x10100,
     EventSignalQueue = (\<lambda>_. []), RuntimeEventList = [], EfiTimerList = [], EfiCheckTimerEvent = 0,
     EfiSystemTime = 0, EfiMtc = 0, EfiMtcEvent = 0, EfiAtRuntime = False, \<dots> = []\<rparr>"

lemma bit_0x10100: "bit (0x10100 :: UINTN) t \<longleftrightarrow> t = 8 \<or> t = 16"
proof -
  have "(0x10100 :: UINTN) = push_bit 8 1 OR push_bit 16 1" by simp
  then show ?thesis by (simp only: bit_or_iff bit_push_bit_iff bit_1_iff) auto
qed

lemma sample_pending_inv: "exec_inv sample_pending"
proof -
  have "bit (EventPending sample_pending) t \<longleftrightarrow> t = 8 \<or> t = 16" for t
    by (simp only: sample_pending_def exec.simps bit_0x10100)
  moreover have "lists_inv sample_pending"
    by (auto simp: lists_inv_def linked_def sample_pending_def sample_event_def sample_locks_def split: if_splits)
  ultimately show ?thesis
    by (simp add: exec_inv_def)
       (auto simp: sample_pending_def linked_def event_ok_def sample_event_def sample_locks_def split: if_splits)
qed

text \<open>A state in which nothing is queued or linked, with the given events.\<close>

definition idle_state :: "UINTN \<Rightarrow> (UINTN \<rightharpoonup> IEVENT) \<Rightarrow> 'x \<Rightarrow> 'x exec_scheme" where
  "idle_state tpl E m = \<lparr>TPL = tpl, Interrupts = True, Locks = sample_locks, Events = E,
     EventQueue = (\<lambda>_. []), EventPending = 0, EventSignalQueue = (\<lambda>_. []), RuntimeEventList = [],
     EfiTimerList = [], EfiCheckTimerEvent = 0, EfiSystemTime = 0, EfiMtc = 0, EfiMtcEvent = 0,
     EfiAtRuntime = False, \<dots> = m\<rparr>"

lemma idle_settled:
  assumes "unat tpl \<le> 31"
    and "\<And>e ev. E e = Some ev \<Longrightarrow>
      event_ok ev \<and> \<not> NotifyLink ev \<and> \<not> SignalLink ev \<and> \<not> RuntimeLink ev \<and> \<not> TimerLink ev"
  shows "settled (idle_state tpl E m)"
proof -
  have "linked E P []" if "\<And>e ev. E e = Some ev \<Longrightarrow> \<not> P ev" for P
    using that by (auto simp: linked_def)
  then show ?thesis
    using assms by (simp add: settled_def exec_inv_def lists_inv_def idle_state_def sample_locks_def)
qed

section \<open>Properties\<close>

text \<open>
  C7: \<open>HighestSetBit\<close> returns the index of the most significant set bit of every non-zero value
  below 2^32, through its table.
\<close>

theorem highest_set_bit_correct:
  assumes "0 < i" and "i < 2 ^ 32"
  shows "\<exists>m < 32. HighestSetBit i = Ret (of_nat m) \<and> bit i m \<and> (\<forall>j > m. \<not> bit i j)"
proof -
  obtain m where m: "HighestSetBit i = Ret (of_nat m)" "m < 32" "2 ^ m \<le> unat i" "unat i < 2 ^ Suc m"
    using HighestSetBit_correct [OF assms] by blast
  have hi: "\<forall>j > m. \<not> bit i j" using m(4) unfolding unat_less_exp_iff by auto
  with m(3) have "bit i m" by (metis le_neq_implies_less not_le unat_less_exp_iff)
  with m hi show ?thesis by blast
qed

theorem highest_set_bit_correct_witness:
  "\<exists>m < 32. HighestSetBit 0x10100 = Ret (of_nat m) \<and> bit (0x10100 :: UINTN) m \<and> (\<forall>j > m. \<not> bit (0x10100 :: UINTN) j)"
  by (rule highest_set_bit_correct) simp_all

text \<open>
  C8: lowering the task priority level. Whatever notification functions are registered, as long
  as each keeps its contract (it returns at the level it was called at, keeps the queues
  consistent and closes no event but its own), \<open>RestoreTPL\<close> never goes wrong; when it returns,
  the level is the requested one, no notification above that level is left queued, the queues
  are consistent, and no event at or below that level has been lost.
\<close>

theorem restore_tpl_safe:
  assumes "notify_contract cb" and "exec_inv s" and "New \<le> TPL_HIGH_LEVEL"
  shows "run_ok (\<lambda>s'. TPL s' = New \<and> exec_inv s' \<and> keeps_events New s s' \<and>
           (\<forall>t > unat New. EventQueue s' t = [])) (RestoreTPL cb n New s)"
proof -
  have "unat New \<le> 31" using assms(3) by (simp add: word_le_nat_alt)
  from notify_contract.RestoreTPL_ok [OF assms(1,2) this, of n] show ?thesis
    unfolding notify_contract.lowered_def [OF assms(1)] by (rule run_ok_mono) (auto simp: settledD settled_queue)
qed

theorem restore_tpl_safe_witness:
  "run_ok (\<lambda>s'. TPL s' = 4 \<and> exec_inv s' \<and> keeps_events 4 sample_pending s' \<and>
           (\<forall>t > unat (4 :: UINTN). EventQueue s' t = []))
     (RestoreTPL (observing (\<lambda>f e c m. m @ [e])) 50 4 sample_pending)"
  by (rule restore_tpl_safe [OF observing.notify_contract_axioms sample_pending_inv]) simp

text \<open>
  C9: order and completeness of dispatch. With notification functions that leave the execution
  services alone, \<open>RestoreTPL\<close> returns (fuel linear in the number of pending notifications
  suffices) and has called exactly the pending notifications above the new level, each once,
  from the highest level to the lowest and in queue order within a level; the queues at and
  below the new level are untouched and interrupts are enabled.
\<close>

theorem restore_tpl_order:
  assumes "exec_inv s" and "New < TPL_HIGH_LEVEL"
    and "length (pending_order (Suc (unat New)) 31 s) + 35 \<le> n"
  shows "\<exists>s'. RestoreTPL (observing g) n New s = Ret s' \<and> TPL s' = New \<and> Interrupts s' \<and>
     exec.more s' = foldl (fire g s) (exec.more s) (pending_order (Suc (unat New)) 31 s) \<and>
     (\<forall>t. EventQueue s' t = (if unat New < t then [] else EventQueue s t))"
  by (rule RestoreTPL_order [OF assms])

theorem restore_tpl_order_witness:
  "\<exists>s'. RestoreTPL (observing (\<lambda>f e c m. m @ [e])) 40 4 sample_pending = Ret s' \<and> TPL s' = 4 \<and>
     exec.more s' = [200, 100, 300]"
proof -
  have ord: "pending_order (Suc (unat (4 :: UINTN))) 31 sample_pending = [200, 100, 300]"
    by (simp add: pending_order_def sample_pending_def upt_rec_numeral)
  have "foldl (fire (\<lambda>f e c m. m @ [e]) sample_pending) (exec.more sample_pending) [200, 100, 300] = [200, 100, 300]"
    by (simp add: fire_def sample_pending_def)
  with restore_tpl_order [OF sample_pending_inv, of 4 40 "\<lambda>f e c m. m @ [e]"] ord show ?thesis
    by auto
qed

end
