(* ===== verification/Event.thy ===== *)
theory Event
  imports DispatchOrder
begin

text \<open>
  The event services of \<open>exec/event.c\<close>: creation, signalling, checking and waiting. \<open>CloseEvent\<close>
  cancels the timer of the event and is in \<open>Timer\<close>. The pool allocator of \<open>mem/pool.c\<close> and
  the idle loop of the platform are parameters; a pointer a service writes through is its second
  result, \<open>None\<close> when the service leaves it alone.
\<close>

section \<open>The services\<close>

text \<open>The size of an \<open>IEVENT\<close> on the 64-bit target.\<close>

abbreviation (input) sizeof_IEVENT :: UINTN where "sizeof_IEVENT \<equiv> 120"

type_synonym 'x alloc_fn = "int \<Rightarrow> UINTN \<Rightarrow> 'x exec_scheme \<Rightarrow> (EFI_STATUS \<times> UINTN \<times> 'x exec_scheme) run"

definition InitializeEvent :: "'x exec_scheme \<Rightarrow> 'x exec_scheme" where
  "InitializeEvent s =
     (let s1 = s\<lparr>EventQueue := (\<lambda>_. [])\<rparr>;
          s2 = s1\<lparr>EventSignalQueue := (\<lambda>_. [])\<rparr>;
          s3 = s2\<lparr>RuntimeEventList := []\<rparr>
      in (InitializeLock EventQueueLock TPL_HIGH_LEVEL s3)\<lparr>EventPending := 0\<rparr>)"

text \<open>\<open>RemoveEntryList\<close> takes an entry off the list it is on, whichever that is.\<close>

definition unlink_notify :: "UINTN \<Rightarrow> 'x exec_scheme \<Rightarrow> 'x exec_scheme" where
  "unlink_notify e s = s\<lparr>EventQueue := (\<lambda>t. remove1 e (EventQueue s t))\<rparr>"

definition NotifyEvent :: "UINTN \<Rightarrow> 'x exec_scheme \<Rightarrow> 'x exec_scheme run" where
  "NotifyEvent e s =
     (case Events s e of
        None \<Rightarrow> Fault
      | Some Event \<Rightarrow>
          let s1 = (if NotifyLink Event
                    then upd_event e (\<lambda>ev. ev\<lparr>NotifyLink := False\<rparr>) (unlink_notify e s) else s);
              t = NotifyTpl Event
          in if t > TPL_HIGH_LEVEL then Fault
             else let s2 = upd_event e (\<lambda>ev. ev\<lparr>NotifyLink := True\<rparr>)
                         (s1\<lparr>EventQueue := (EventQueue s1)(unat t := EventQueue s1 (unat t) @ [e])\<rparr>)
                  in Ret (s2\<lparr>EventPending := EventPending s2 OR tpl_bit t\<rparr>))"

primrec notify_all :: "UINTN list \<Rightarrow> 'x exec_scheme \<Rightarrow> 'x exec_scheme run" where
  "notify_all [] s = Ret s"
| "notify_all (e # es) s = bind_run (NotifyEvent e s) (notify_all es)"

definition RtNotifySignalList :: "'x notify_fn \<Rightarrow> nat \<Rightarrow> UINTN \<Rightarrow> 'x exec_scheme \<Rightarrow> 'x exec_scheme run" where
  "RtNotifySignalList cb n SignalType s =
     (let i = (SignalType AND 0xFF) - 1;
          s1 = AcquireLock EventQueueLock s
      in if unat i \<ge> EVT_EFI_SIGNAL_MAX then Fault
         else bind_run (notify_all (EventSignalQueue s1 (unat i)) s1) (ReleaseLock cb n EventQueueLock))"

definition valid_event_type :: "UINT32 \<Rightarrow> bool" where
  "valid_event_type Type \<longleftrightarrow>
     Type AND NOT (EVT_TIMER OR EVT_RUNTIME OR EVT_RUNTIME_CONTEXT OR EVT_NOTIFY_WAIT OR EVT_NOTIFY_SIGNAL
                   OR EVT_SIGNAL_EXIT_BOOT_SERVICES OR EVT_SIGNAL_VIRTUAL_ADDRESS_CHANGE) = 0 \<and>
     \<not> (Type AND EVT_SIGNAL_EXIT_BOOT_SERVICES = EVT_SIGNAL_EXIT_BOOT_SERVICES \<and> Type \<noteq> EVT_SIGNAL_EXIT_BOOT_SERVICES) \<and>
     \<not> (Type AND EVT_SIGNAL_VIRTUAL_ADDRESS_CHANGE = EVT_SIGNAL_VIRTUAL_ADDRESS_CHANGE
        \<and> Type \<noteq> EVT_SIGNAL_VIRTUAL_ADDRESS_CHANGE)"

definition notifies :: "UINT32 \<Rightarrow> bool" where
  "notifies Type \<longleftrightarrow> Type AND (EVT_NOTIFY_WAIT OR EVT_NOTIFY_SIGNAL) \<noteq> 0"

definition valid_notify :: "UINT32 \<Rightarrow> UINTN \<Rightarrow> UINTN \<Rightarrow> bool" where
  "valid_notify Type Tpl Function \<longleftrightarrow>
     Type AND (EVT_NOTIFY_WAIT OR EVT_NOTIFY_SIGNAL) \<noteq> (EVT_NOTIFY_WAIT OR EVT_NOTIFY_SIGNAL) \<and>
     \<not> (Function = 0 \<or> Tpl \<le> TPL_APPLICATION \<or> \<not> VALID_TPL Tpl)"

definition new_event :: "UINT32 \<Rightarrow> UINTN \<Rightarrow> UINTN \<Rightarrow> UINTN \<Rightarrow> IEVENT" where
  "new_event Type Tpl Function Ctx =
     \<lparr>EvType = Type, SignalCount = 0, SignalLink = False, NotifyTpl = Tpl, NotifyFunction = Function,
      NotifyContext = Ctx, NotifyLink = False, RuntimeLink = False, TimerLink = False,
      TriggerTime = 0, Period = 0\<rparr>"

text \<open>The part of \<open>CreateEvent\<close> under the lock: the new event enters the lists of its type.\<close>

definition register_event :: "UINT32 \<Rightarrow> UINTN \<Rightarrow> 'x exec_scheme \<Rightarrow> 'x exec_scheme run" where
  "register_event Type e s =
     (let s1 = (if Type AND EVT_RUNTIME \<noteq> 0
                then upd_event e (\<lambda>ev. ev\<lparr>RuntimeLink := True\<rparr>) (s\<lparr>RuntimeEventList := RuntimeEventList s @ [e]\<rparr>)
                else s);
          Type1 = Type AND EVT_EFI_SIGNAL_MASK
      in if Type1 \<noteq> 0
         then let i = unat (Type1 - 1)
              in if i < EVT_EFI_SIGNAL_MAX
                 then Ret (upd_event e (\<lambda>ev. ev\<lparr>SignalLink := True\<rparr>)
                        (s1\<lparr>EventSignalQueue := (EventSignalQueue s1)(i := e # EventSignalQueue s1 i)\<rparr>))
                 else Fault
         else Ret s1)"

definition CreateEvent ::
  "'x notify_fn \<Rightarrow> 'x alloc_fn \<Rightarrow> nat \<Rightarrow> UINT32 \<Rightarrow> UINTN \<Rightarrow> UINTN \<Rightarrow> UINTN \<Rightarrow> bool \<Rightarrow> 'x exec_scheme
   \<Rightarrow> (EFI_STATUS \<times> UINTN option \<times> 'x exec_scheme) run"
where
  "CreateEvent cb alloc n Type Tpl Function Ctx pEvent s =
     (if \<not> pEvent then Ret (EFI_INVALID_PARAMETER, None, s)
      else if \<not> valid_event_type Type then Ret (EFI_INVALID_PARAMETER, None, s)
      else if notifies Type \<and> \<not> valid_notify Type Tpl Function then Ret (EFI_INVALID_PARAMETER, None, s)
      else
        let ev = (if notifies Type then new_event Type Tpl Function Ctx
                  else new_event Type 0 0 0)
        in bind_run (alloc (if Type AND EVT_RUNTIME \<noteq> 0 then EfiRuntimeServicesData else EfiBootServicesData)
                       sizeof_IEVENT s) (\<lambda>(Status, e, s1).
             if EFI_ERROR Status then Ret (Status, None, s1)
             else let s2 = s1\<lparr>Events := (Events s1)(e \<mapsto> ev)\<rparr>
                  in bind_run (register_event Type e (AcquireLock EventQueueLock s2)) (\<lambda>s3.
                     bind_run (ReleaseLock cb n EventQueueLock s3) (\<lambda>s4. Ret (EFI_SUCCESS, Some e, s4)))))"

definition signal_locked :: "UINTN \<Rightarrow> 'x exec_scheme \<Rightarrow> 'x exec_scheme run" where
  "signal_locked e s =
     (case Events s e of
        None \<Rightarrow> Fault
      | Some Event \<Rightarrow>
          if SignalCount Event = 0
          then let s1 = upd_event e (\<lambda>ev. ev\<lparr>SignalCount := SignalCount ev + 1\<rparr>) s
               in if EvType Event AND EVT_NOTIFY_SIGNAL \<noteq> 0 then NotifyEvent e s1 else Ret s1
          else Ret s)"

definition SignalEvent :: "'x notify_fn \<Rightarrow> nat \<Rightarrow> UINTN \<Rightarrow> 'x exec_scheme \<Rightarrow> (EFI_STATUS \<times> 'x exec_scheme) run" where
  "SignalEvent cb n e s =
     (if Events s e = None then Ret (EFI_INVALID_PARAMETER, s)
      else bind_run (signal_locked e (AcquireLock EventQueueLock s)) (\<lambda>s1.
           bind_run (ReleaseLock cb n EventQueueLock s1) (\<lambda>s2. Ret (EFI_SUCCESS, s2))))"

text \<open>\<open>Event->SignalCount\<close>, read through a pointer that may have become stale.\<close>

definition read_count :: "UINTN \<Rightarrow> 'x exec_scheme \<Rightarrow> UINT32 run" where
  "read_count e s = (case Events s e of None \<Rightarrow> Fault | Some Event \<Rightarrow> Ret (SignalCount Event))"

definition check_notify :: "'x notify_fn \<Rightarrow> nat \<Rightarrow> UINTN \<Rightarrow> 'x exec_scheme \<Rightarrow> 'x exec_scheme run" where
  "check_notify cb n e s =
     (let s1 = AcquireLock EventQueueLock s
      in bind_run (read_count e s1) (\<lambda>c.
         bind_run (if c = 0 then NotifyEvent e s1 else Ret s1) (ReleaseLock cb n EventQueueLock)))"

definition check_clear :: "'x notify_fn \<Rightarrow> nat \<Rightarrow> UINTN \<Rightarrow> 'x exec_scheme \<Rightarrow> (EFI_STATUS \<times> 'x exec_scheme) run" where
  "check_clear cb n e s =
     (let s1 = AcquireLock EventQueueLock s
      in bind_run (read_count e s1) (\<lambda>c.
           let (Status, s2) = (if c \<noteq> 0 then (EFI_SUCCESS, upd_event e (\<lambda>ev. ev\<lparr>SignalCount := 0\<rparr>) s1)
                               else (EFI_NOT_READY, s1))
           in bind_run (ReleaseLock cb n EventQueueLock s2) (\<lambda>s3. Ret (Status, s3))))"

definition CheckEvent :: "'x notify_fn \<Rightarrow> nat \<Rightarrow> UINTN \<Rightarrow> 'x exec_scheme \<Rightarrow> (EFI_STATUS \<times> 'x exec_scheme) run" where
  "CheckEvent cb n e s =
     (case Events s e of
        None \<Rightarrow> Ret (EFI_INVALID_PARAMETER, s)
      | Some Event \<Rightarrow>
          if EvType Event AND EVT_NOTIFY_SIGNAL \<noteq> 0 then Ret (EFI_INVALID_PARAMETER, s)
          else
            bind_run (if SignalCount Event = 0 \<and> EvType Event AND EVT_NOTIFY_WAIT \<noteq> 0
                      then check_notify cb n e s else Ret s) (\<lambda>s1.
            bind_run (read_count e s1) (\<lambda>c.
              if c \<noteq> 0 then check_clear cb n e s1 else Ret (EFI_NOT_READY, s1))))"

text \<open>
  One pass of \<open>WaitForEvent\<close> over the array (\<open>Inr s\<close> when no event is ready), and the endless
  loop around it, with fuel. The index written on an error is \<open>(UINTN) -1\<close>.
\<close>

primrec wait_pass ::
  "'x notify_fn \<Rightarrow> nat \<Rightarrow> UINTN \<Rightarrow> UINTN list \<Rightarrow> 'x exec_scheme
   \<Rightarrow> ((EFI_STATUS \<times> UINTN \<times> 'x exec_scheme) + 'x exec_scheme) run"
where
  "wait_pass cb n Index [] s = Ret (Inr s)"
| "wait_pass cb n Index (e # es) s =
     bind_run (CheckEvent cb n e s) (\<lambda>(Status, s1).
       if \<not> EFI_ERROR Status then Ret (Inl (EFI_SUCCESS, Index, s1))
       else if Status \<noteq> EFI_NOT_READY then Ret (Inl (Status, - 1, s1))
       else wait_pass cb n (Index + 1) es s1)"

primrec wait_loop ::
  "'x notify_fn \<Rightarrow> ('x exec_scheme \<Rightarrow> 'x exec_scheme run) \<Rightarrow> nat \<Rightarrow> nat \<Rightarrow> UINTN list \<Rightarrow> 'x exec_scheme
   \<Rightarrow> (EFI_STATUS \<times> UINTN \<times> 'x exec_scheme) run"
where
  "wait_loop cb IdleLoop n 0 UserEvents s = NoFuel"
| "wait_loop cb IdleLoop n (Suc k) UserEvents s =
     bind_run (wait_pass cb n 0 UserEvents s) (\<lambda>r.
       case r of Inl result \<Rightarrow> Ret result
       | Inr s1 \<Rightarrow> bind_run (IdleLoop s1) (wait_loop cb IdleLoop n k UserEvents))"

definition WaitForEvent ::
  "'x notify_fn \<Rightarrow> ('x exec_scheme \<Rightarrow> 'x exec_scheme run) \<Rightarrow> nat \<Rightarrow> nat \<Rightarrow> UINTN list \<Rightarrow> 'x exec_scheme
   \<Rightarrow> (EFI_STATUS \<times> UINTN option \<times> 'x exec_scheme) run"
where
  "WaitForEvent cb IdleLoop n k UserEvents s =
     (if CurrentTPL s \<noteq> TPL_APPLICATION then Ret (EFI_UNSUPPORTED, None, s)
      else bind_run (wait_loop cb IdleLoop n k UserEvents s) (\<lambda>(Status, i, s1). Ret (Status, Some i, s1)))"

section \<open>Queueing a notification\<close>

text \<open>The state after \<open>NotifyEvent\<close> and after the body of \<open>SignalEvent\<close>.\<close>

definition notified :: "UINTN \<Rightarrow> IEVENT \<Rightarrow> 'x exec_scheme \<Rightarrow> 'x exec_scheme" where
  "notified e ev s =
     s\<lparr>EventQueue := (EventQueue s)(unat (NotifyTpl ev) := remove1 e (EventQueue s (unat (NotifyTpl ev))) @ [e]),
       Events := (Events s)(e \<mapsto> ev\<lparr>NotifyLink := True\<rparr>),
       EventPending := EventPending s OR tpl_bit (NotifyTpl ev)\<rparr>"

definition counted :: "UINTN \<Rightarrow> IEVENT \<Rightarrow> 'x exec_scheme \<Rightarrow> 'x exec_scheme" where
  "counted e ev s = s\<lparr>Events := (Events s)(e \<mapsto> ev\<lparr>SignalCount := 1\<rparr>)\<rparr>"

definition signalled :: "UINTN \<Rightarrow> IEVENT \<Rightarrow> 'x exec_scheme \<Rightarrow> 'x exec_scheme" where
  "signalled e ev s =
     (if SignalCount ev \<noteq> 0 then s
      else if EvType ev AND EVT_NOTIFY_SIGNAL \<noteq> 0 then notified e (ev\<lparr>SignalCount := 1\<rparr>) (counted e ev s)
      else counted e ev s)"

lemma remove1_other_queue:
  assumes "exec_inv s" and "Events s e = Some ev" and "t \<noteq> unat (NotifyTpl ev) \<or> \<not> NotifyLink ev"
  shows "remove1 e (EventQueue s t) = EventQueue s t"
proof -
  have "e \<notin> set (EventQueue s t)" using exec_invD(2) [OF assms(1), of e t] assms(2,3) by auto
  then show ?thesis by (simp add: remove1_idem)
qed

lemma NotifyEvent_eq:
  assumes "exec_inv s" and "Events s e = Some ev"
  shows "NotifyEvent e s = Ret (notified e ev s)"
proof -
  have "unat (NotifyTpl ev) < 31" using exec_invD(5) [OF assms] by (simp add: event_ok_def)
  then have t: "\<not> NotifyTpl ev > TPL_HIGH_LEVEL" by (simp add: word_less_nat_alt)
  have r: "(\<lambda>t. remove1 e (EventQueue s t)) =
      (EventQueue s)(unat (NotifyTpl ev) := remove1 e (EventQueue s (unat (NotifyTpl ev))))"
    using remove1_other_queue [OF assms] by (auto simp: fun_eq_iff)
  show ?thesis
  proof (cases "NotifyLink ev")
    case True
    then show ?thesis
      using t assms(2) by (simp add: NotifyEvent_def notified_def unlink_notify_def upd_event_def r Let_def)
  next
    case False
    then show ?thesis
      using t assms(2) remove1_other_queue [OF assms, of "unat (NotifyTpl ev)"]
      by (simp add: NotifyEvent_def notified_def upd_event_def Let_def)
  qed
qed

lemma exec_inv_upd:
  assumes "exec_inv s" and "Events s e = Some ev"
    and "TimerLink ev' = TimerLink ev" "TriggerTime ev' = TriggerTime ev" "RuntimeLink ev' = RuntimeLink ev"
      "SignalLink ev' = SignalLink ev" "EvType ev' = EvType ev" "NotifyLink ev' = NotifyLink ev"
      "NotifyTpl ev' = NotifyTpl ev" "NotifyFunction ev' = NotifyFunction ev"
  shows "exec_inv (s\<lparr>Events := (Events s)(e \<mapsto> ev')\<rparr>)"
proof -
  have q: "linked (Events s) (\<lambda>ev. NotifyLink ev \<and> unat (NotifyTpl ev) = t) (EventQueue s t)" for t
    using assms(1) unfolding exec_inv_def by blast
  have "linked ((Events s)(e \<mapsto> ev')) (\<lambda>ev. NotifyLink ev \<and> unat (NotifyTpl ev) = t) (EventQueue s t)" for t
    by (rule linked_same [OF q assms(2)]) (simp add: assms)
  moreover have "lists_inv (s\<lparr>Events := (Events s)(e \<mapsto> ev')\<rparr>)"
    by (rule lists_inv_upd [OF exec_invD(7) [OF assms(1)] assms(2)]) (use assms in simp_all)
  ultimately show ?thesis
    using assms unfolding exec_inv_def by (auto simp: event_ok_def)
qed

lemma exec_inv_notified:
  assumes "exec_inv s" and "Events s e = Some ev"
  shows "exec_inv (notified e ev s)"
proof -
  let ?P = "\<lambda>t ev. NotifyLink ev \<and> unat (NotifyTpl ev) = t"
  let ?t = "unat (NotifyTpl ev)"
  let ?ev = "ev\<lparr>NotifyLink := True\<rparr>"
  have q: "linked (Events s) (?P t) (EventQueue s t)" for t
    using assms(1) unfolding exec_inv_def by blast
  have t: "?t < 31" using exec_invD(5) [OF assms] by (simp add: event_ok_def)
  have "linked ((Events s)(e \<mapsto> ?ev)) (?P t) (((EventQueue s)(?t := remove1 e (EventQueue s ?t) @ [e])) t)" for t
  proof (cases "t = ?t")
    case True
    have "linked ((Events s)(e \<mapsto> ev\<lparr>NotifyLink := False\<rparr>)) (?P ?t) (remove1 e (EventQueue s ?t) @ [])"
      using linked_remove [OF q [of ?t], of "ev\<lparr>NotifyLink := False\<rparr>" e] by simp
    from linked_insert [OF this, of e ?ev] True exec_invD(1) [OF assms(1)] show ?thesis by simp
  next
    case False
    then show ?thesis using linked_same [OF q [of t] assms(2), of ?ev] by simp
  qed
  moreover have "lists_inv (s\<lparr>Events := (Events s)(e \<mapsto> ?ev)\<rparr>)"
    by (rule lists_inv_upd [OF exec_invD(7) [OF assms(1)] assms(2)]) simp_all
  then have "lists_inv (notified e ev s)" unfolding notified_def by (subst lists_inv_cong) simp_all
  ultimately show ?thesis
    using assms t unfolding exec_inv_def notified_def
    by (auto simp: bit_or_iff bit_tpl_bit event_ok_def)
qed

lemma signal_locked_eq:
  assumes "exec_inv s" and "Events s e = Some ev"
  shows "signal_locked e s = Ret (signalled e ev s)" and "exec_inv (signalled e ev s)"
proof -
  have c: "exec_inv (counted e ev s)" unfolding counted_def by (rule exec_inv_upd [OF assms]) simp_all
  have e: "Events (counted e ev s) e = Some (ev\<lparr>SignalCount := 1\<rparr>)" by (simp add: counted_def)
  have u: "SignalCount ev = 0 \<Longrightarrow> upd_event e (\<lambda>ev. ev\<lparr>SignalCount := SignalCount ev + 1\<rparr>) s = counted e ev s"
    using assms(2) by (simp add: upd_event_Some counted_def)
  show "signal_locked e s = Ret (signalled e ev s)"
    using NotifyEvent_eq [OF c e] u assms(2) by (auto simp: signal_locked_def signalled_def Let_def)
  show "exec_inv (signalled e ev s)"
    using exec_inv_notified [OF c e] c assms(1) by (auto simp: signalled_def)
qed

lemma notified_simps [simp]:
  "TPL (notified e ev s) = TPL s" "Locks (notified e ev s) = Locks s"
  "TPL (counted e ev s) = TPL s" "Locks (counted e ev s) = Locks s"
  "TPL (signalled e ev s) = TPL s" "Locks (signalled e ev s) = Locks s"
  by (simp_all add: notified_def counted_def signalled_def)

lemma keeps_notified: "Events s e = Some ev \<Longrightarrow> keeps_events p s (notified e ev s)"
  "Events s e = Some ev \<Longrightarrow> keeps_events p s (counted e ev s)"
  "Events s e = Some ev \<Longrightarrow> keeps_events p s (signalled e ev s)"
  by (auto simp: keeps_events_def survives_def notified_def counted_def signalled_def)

section \<open>Creating an event\<close>

lemma low_type_bits:
  assumes "valid_event_type Type"
  shows "unat (Type AND EVT_EFI_SIGNAL_MASK) \<le> 3"
proof -
  let ?M = "EVT_TIMER OR EVT_RUNTIME OR EVT_RUNTIME_CONTEXT OR EVT_NOTIFY_WAIT OR EVT_NOTIFY_SIGNAL
            OR EVT_SIGNAL_EXIT_BOOT_SERVICES OR EVT_SIGNAL_VIRTUAL_ADDRESS_CHANGE"
  have "Type AND NOT ?M = 0" using assms unfolding valid_event_type_def by blast
  then have "bit Type n \<Longrightarrow> bit ?M n" for n
    by (metis bit_0_eq bit_and_iff bit_not_iff bit_imp_possible_bit bot_apply bot_bool_def)
  then have "Type AND 0xFF = Type AND (?M AND 0xFF)"
    by (intro bit_word_eqI) (auto simp only: bit_and_iff)
  also have "?M AND 0xFF = (mask 2 :: UINT32)" by (simp add: mask_eq_exp_minus_1)
  finally have "Type AND 0xFF = take_bit 2 Type" by (simp only: take_bit_eq_mask)
  then have "unat (Type AND 0xFF) = take_bit 2 (unat Type)" by (simp only: unsigned_take_bit_eq)
  then show ?thesis using take_bit_nat_less_exp [of 2 "unat Type"] by simp
qed

lemma exec_inv_new:
  assumes "exec_inv s" and "Events s e = None" and "event_ok (new_event Type Tpl Function Ctx)"
  shows "exec_inv (s\<lparr>Events := (Events s)(e \<mapsto> new_event Type Tpl Function Ctx)\<rparr>)"
proof -
  have "trigger ((Events s)(e \<mapsto> new_event Type Tpl Function Ctx)) = trigger (Events s)"
    using assms(2) by (auto simp: trigger_def new_event_def)
  then show ?thesis
    using assms by (auto simp: exec_inv_def lists_inv_def new_event_def intro!: linked_new)
qed

lemma exec_inv_add_runtime:
  assumes "exec_inv s" and "Events s e = Some ev" and "\<not> RuntimeLink ev"
  shows "exec_inv (s\<lparr>RuntimeEventList := RuntimeEventList s @ [e], Events := (Events s)(e \<mapsto> ev\<lparr>RuntimeLink := True\<rparr>)\<rparr>)"
proof -
  let ?ev = "ev\<lparr>RuntimeLink := True\<rparr>"
  have r: "linked (Events s) RuntimeLink (RuntimeEventList s @ [])" using assms(1) by (simp add: exec_inv_def lists_inv_def)
  have "linked ((Events s)(e \<mapsto> ?ev)) RuntimeLink (RuntimeEventList s @ [e])"
    by (rule linked_insert [OF r]) (use linked_notin [OF r, of e] assms in auto)
  moreover have "trigger ((Events s)(e \<mapsto> ?ev)) = trigger (Events s)"
    using assms(2) by (auto simp: trigger_def)
  ultimately show ?thesis
    using assms(1,2) by (auto simp: exec_inv_def lists_inv_def event_ok_def intro!: linked_same [where ev = ev])
qed

lemma exec_inv_add_signal:
  assumes "exec_inv s" and "Events s e = Some ev" and "\<not> SignalLink ev"
    and "unat (EvType ev AND EVT_EFI_SIGNAL_MASK) = Suc i"
  shows "exec_inv (s\<lparr>EventSignalQueue := (EventSignalQueue s)(i := e # EventSignalQueue s i),
     Events := (Events s)(e \<mapsto> ev\<lparr>SignalLink := True\<rparr>)\<rparr>)"
proof -
  let ?ev = "ev\<lparr>SignalLink := True\<rparr>"
  let ?P = "\<lambda>i ev. SignalLink ev \<and> unat (EvType ev AND EVT_EFI_SIGNAL_MASK) = Suc i"
  have r: "linked (Events s) (?P j) (EventSignalQueue s j)" for j
    using assms(1) unfolding exec_inv_def lists_inv_def by blast
  have "linked ((Events s)(e \<mapsto> ?ev)) (?P j) (((EventSignalQueue s)(i := e # EventSignalQueue s i)) j)" for j
  proof (cases "j = i")
    case True
    show ?thesis
      using linked_insert [of "Events s" "?P i" "[]" "EventSignalQueue s i" e ?ev] r [of i]
        linked_notin [OF r [of i], of e] assms True by simp
  next
    case False
    then show ?thesis using linked_same [OF r [of j] assms(2), of ?ev] assms(3,4) by simp
  qed
  moreover have "trigger ((Events s)(e \<mapsto> ?ev)) = trigger (Events s)"
    using assms(2) by (auto simp: trigger_def)
  ultimately show ?thesis
    using assms(1,2) by (auto simp: exec_inv_def lists_inv_def event_ok_def intro!: linked_same [where ev = ev])
qed

lemma register_event_ok:
  assumes "exec_inv s" and "Events s e = Some (new_event Type Tpl Function Ctx)"
    and "unat (Type AND EVT_EFI_SIGNAL_MASK) \<le> 2"
  shows "\<exists>s'. register_event Type e s = Ret s' \<and> exec_inv s' \<and> TPL s' = TPL s \<and> Locks s' = Locks s \<and>
     (\<forall>x. x \<noteq> e \<longrightarrow> Events s' x = Events s x)"
proof -
  let ?ev = "new_event Type Tpl Function Ctx"
  define rt where "rt \<longleftrightarrow> Type AND EVT_RUNTIME \<noteq> 0"
  define ev1 where "ev1 = ?ev\<lparr>RuntimeLink := rt\<rparr>"
  define s1 where "s1 = (if rt then s\<lparr>RuntimeEventList := RuntimeEventList s @ [e], Events := (Events s)(e \<mapsto> ev1)\<rparr> else s)"
  have l: "\<not> RuntimeLink ?ev" "\<not> SignalLink ev1" "EvType ev1 = Type" by (simp_all add: new_event_def ev1_def)
  have s1: "exec_inv s1" "Events s1 e = Some ev1" "TPL s1 = TPL s" "Locks s1 = Locks s" "\<forall>x. x \<noteq> e \<longrightarrow> Events s1 x = Events s x"
    using exec_inv_add_runtime [OF assms(1,2) l(1)] assms l by (auto simp: s1_def ev1_def new_event_def)
  have u: "(if Type AND EVT_RUNTIME \<noteq> 0
      then upd_event e (\<lambda>ev. ev\<lparr>RuntimeLink := True\<rparr>) (s\<lparr>RuntimeEventList := RuntimeEventList s @ [e]\<rparr>) else s) = s1"
    using assms(2) by (simp add: s1_def rt_def upd_event_def ev1_def new_event_def)
  let ?T = "Type AND EVT_EFI_SIGNAL_MASK"
  show ?thesis
  proof (cases "?T = 0")
    case True
    then show ?thesis using s1 by (simp add: register_event_def u)
  next
    case False
    then have "unat (?T - 1) = unat ?T - 1" "0 < unat ?T"
      by (simp_all add: unat_minus_one unat_gt_0)
    then have i: "unat (?T - 1) < 2" "unat ?T = Suc (unat (?T - 1))" using assms(3) by simp_all
    have "register_event Type e s = Ret (s1\<lparr>EventSignalQueue := (EventSignalQueue s1)(unat (?T - 1) := e # EventSignalQueue s1 (unat (?T - 1))),
        Events := (Events s1)(e \<mapsto> ev1\<lparr>SignalLink := True\<rparr>)\<rparr>)"
      using False i(1) s1(2) by (simp add: register_event_def u Let_def upd_event_def)
    with exec_inv_add_signal [OF s1(1,2) l(2), of "unat (?T - 1)"] s1 i l(3) show ?thesis by simp
  qed
qed

section \<open>The services keep the invariant\<close>

lemma steps_refl: "settled s \<Longrightarrow> steps s s"
  by (simp add: steps_def)

lemma steps_trans: "steps s s' \<Longrightarrow> steps s' s'' \<Longrightarrow> steps s s''"
  unfolding steps_def using keeps_events_trans by metis

lemma keeps_acquire: "keeps_events p (AcquireLock l s) s1 = keeps_events p s s1"
  by (rule keeps_events_cong) simp

lemma notify_all_ok:
  "exec_inv s \<Longrightarrow> (\<And>e. e \<in> set es \<Longrightarrow> \<exists>ev. Events s e = Some ev) \<Longrightarrow>
   \<exists>s'. notify_all es s = Ret s' \<and> exec_inv s' \<and> TPL s' = TPL s \<and> Locks s' = Locks s \<and> keeps_events p s s'"
proof (induction es arbitrary: s)
  case (Cons e es)
  then obtain ev where ev: "Events s e = Some ev" by auto
  let ?s = "notified e ev s"
  have "\<exists>s'. notify_all es ?s = Ret s' \<and> exec_inv s' \<and> TPL s' = TPL ?s \<and> Locks s' = Locks ?s \<and> keeps_events p ?s s'"
    by (rule Cons.IH [OF exec_inv_notified [OF Cons.prems(1) ev]])
       (use Cons.prems(2) ev in \<open>auto simp: notified_def\<close>)
  then show ?case
    using NotifyEvent_eq [OF Cons.prems(1) ev] keeps_events_trans [OF keeps_notified(1) [OF ev]] by auto
qed simp

context notify_contract
begin

lemma SignalEvent_ok:
  assumes "settled s"
  shows "run_ok (\<lambda>(st, s'). steps s s') (SignalEvent cb n e s)"
proof (cases "Events s e")
  case None
  then show ?thesis using steps_refl [OF assms] by (simp add: SignalEvent_def)
next
  case (Some ev)
  let ?s = "AcquireLock EventQueueLock s"
  have i: "exec_inv ?s" "Events ?s e = Some ev" using settledD(1) [OF assms] Some by simp_all
  have "run_ok (steps s) (ReleaseLock cb n EventQueueLock (signalled e ev ?s))"
    by (rule section_end) (use signal_locked_eq(2) [OF i] settledD(2) [OF assms]
        keeps_notified(3) [OF i(2), of "TPL s"] in \<open>simp_all add: keeps_acquire\<close>)
  then show ?thesis
    using Some signal_locked_eq(1) [OF i] by (auto simp: SignalEvent_def intro: run_ok_bind)
qed

lemma check_notify_ok:
  assumes "settled s" and "Events s e = Some ev"
  shows "run_ok (steps s) (check_notify cb n e s)"
proof -
  let ?s = "AcquireLock EventQueueLock s"
  have i: "exec_inv ?s" "Events ?s e = Some ev" using settledD(1) [OF assms(1)] assms(2) by simp_all
  have "run_ok (steps s) (ReleaseLock cb n EventQueueLock (notified e ev ?s))"
    by (rule section_end) (use exec_inv_notified [OF i] settledD(2) [OF assms(1)]
        keeps_notified(1) [OF i(2), of "TPL s"] in \<open>simp_all add: keeps_acquire\<close>)
  moreover have "run_ok (steps s) (ReleaseLock cb n EventQueueLock ?s)"
    by (rule section_end) (use i settledD(2) [OF assms(1)] keeps_acquire [of "TPL s" EventQueueLock s ?s] in simp_all)
  ultimately show ?thesis
    using i(2) NotifyEvent_eq [OF i] by (simp add: check_notify_def read_count_def Let_def)
qed

lemma check_clear_ok:
  assumes "settled s" and "Events s e = Some ev"
  shows "run_ok (\<lambda>(st, s'). steps s s') (check_clear cb n e s)"
proof -
  let ?s = "AcquireLock EventQueueLock s"
  define s2 where "s2 = (if SignalCount ev \<noteq> 0 then upd_event e (\<lambda>ev. ev\<lparr>SignalCount := 0\<rparr>) ?s else ?s)"
  have i: "exec_inv ?s" "Events ?s e = Some ev" using settledD(1) [OF assms(1)] assms(2) by simp_all
  have "exec_inv s2" using i exec_inv_upd [OF i, of "ev\<lparr>SignalCount := 0\<rparr>"] by (simp add: s2_def upd_event_Some)
  moreover have "keeps_events (TPL s) s s2"
    using assms(2) by (auto simp: keeps_events_def survives_def s2_def upd_event_def)
  ultimately have "run_ok (steps s) (ReleaseLock cb n EventQueueLock s2)"
    using section_end [of s2 EventQueueLock s n] settledD(2) [OF assms(1)] by (simp add: s2_def upd_event_def)
  then show ?thesis
    using i(2) by (auto simp: check_clear_def read_count_def Let_def s2_def intro!: run_ok_bind split: if_splits)
qed

lemma CheckEvent_ok:
  assumes "settled s"
  shows "run_ok (\<lambda>(st, s'). steps s s') (CheckEvent cb n e s)"
proof (cases "Events s e")
  case None
  then show ?thesis using steps_refl [OF assms] by (simp add: CheckEvent_def)
next
  case (Some ev)
  let ?m = "if SignalCount ev = 0 \<and> EvType ev AND EVT_NOTIFY_WAIT \<noteq> 0 then check_notify cb n e s else Ret s"
  have m: "run_ok (steps s) ?m"
    using check_notify_ok [OF assms Some] steps_refl [OF assms] by simp
  have rest: "run_ok (\<lambda>(st, s'). steps s s')
      (bind_run (read_count e s1) (\<lambda>c. if c \<noteq> 0 then check_clear cb n e s1 else Ret (EFI_NOT_READY, s1)))"
    if s1: "steps s s1" and nosig: "EvType ev AND EVT_NOTIFY_SIGNAL = 0" for s1
  proof -
    obtain ev1 where ev1: "Events s1 e = Some ev1"
      using s1 Some nosig unfolding steps_def keeps_events_def survives_def by blast
    have "run_ok (\<lambda>(st, s'). steps s s') (check_clear cb n e s1)"
      by (rule run_ok_mono [OF check_clear_ok [OF _ ev1]])
         (use s1 steps_trans [OF s1] in \<open>auto simp: steps_def\<close>)
    then show ?thesis using ev1 s1 by (simp add: read_count_def)
  qed
  show ?thesis
  proof (cases "EvType ev AND EVT_NOTIFY_SIGNAL = 0")
    case True
    have "CheckEvent cb n e s = bind_run ?m (\<lambda>s1.
      bind_run (read_count e s1) (\<lambda>c. if c \<noteq> 0 then check_clear cb n e s1 else Ret (EFI_NOT_READY, s1)))"
      using Some True by (simp add: CheckEvent_def)
    then show ?thesis using run_ok_bind [OF m rest [OF _ True]] by simp
  next
    case False
    then show ?thesis using Some steps_refl [OF assms] by (simp add: CheckEvent_def)
  qed
qed

lemma RtNotifySignalList_ok:
  assumes "settled s" and "SignalType AND 0xFF = 1 \<or> SignalType AND 0xFF = 2"
  shows "run_ok (steps s) (RtNotifySignalList cb n SignalType s)"
proof -
  let ?s = "AcquireLock EventQueueLock s"
  let ?i = "unat ((SignalType AND 0xFF) - 1)"
  have i: "exec_inv ?s" using settledD(1) [OF assms(1)] by simp
  have "\<exists>ev. Events ?s e = Some ev" if "e \<in> set (EventSignalQueue ?s ?i)" for e
    using that exec_invD(7) [OF i] unfolding lists_inv_def linked_def by blast
  from notify_all_ok [OF i this, of "EventSignalQueue ?s ?i" "TPL s"]
  obtain s1 where s1: "notify_all (EventSignalQueue ?s ?i) ?s = Ret s1" "exec_inv s1" "Locks s1 = Locks ?s"
    "keeps_events (TPL s) s s1" by (auto simp: keeps_acquire)
  have "run_ok (steps s) (ReleaseLock cb n EventQueueLock s1)"
    by (rule section_end) (use s1 settledD(2) [OF assms(1)] in simp_all)
  moreover have "?i < 2" using assms(2) by auto
  ultimately show ?thesis using s1(1) by (simp add: RtNotifySignalList_def Let_def)
qed

end

section \<open>Creating an event, over a pool allocator\<close>

text \<open>
  What \<open>CreateEvent\<close> relies on in the pool allocator: like any service it keeps the invariant,
  and the memory it hands out holds no event.
\<close>

definition allocates :: "'x alloc_fn \<Rightarrow> 'x exec_scheme \<Rightarrow> bool" where
  "allocates alloc s \<longleftrightarrow>
     (\<forall>ty sz. run_ok (\<lambda>(st, e, s'). steps s s' \<and> (\<not> EFI_ERROR st \<longrightarrow> e \<noteq> 0 \<and> Events s' e = None)) (alloc ty sz s))"

context notify_contract
begin

text \<open>A created event is a new one, with the fields the caller asked for as long as it did not run.\<close>

lemma CreateEvent_ok:
  assumes "settled s" and "Type AND EVT_EFI_SIGNAL_MASK \<noteq> 3" and "unat Tpl < 31" and "allocates alloc s"
  shows "run_ok (\<lambda>(st, pe, s'). steps s s' \<and> (EFI_ERROR st \<longleftrightarrow> pe = None)) (CreateEvent cb alloc n Type Tpl Function Ctx pEvent s)"
proof (cases "pEvent \<and> valid_event_type Type \<and> (notifies Type \<longrightarrow> valid_notify Type Tpl Function)")
  case False
  then show ?thesis using steps_refl [OF assms(1)] by (auto simp: CreateEvent_def)
next
  case True
  let ?ev = "if notifies Type then new_event Type Tpl Function Ctx else new_event Type 0 0 0"
  obtain T F C where ev: "?ev = new_event Type T F C" "event_ok (new_event Type T F C)"
  proof (cases "notifies Type")
    case t: True
    then show ?thesis
      using True assms(3) that [of Tpl Function Ctx] by (auto simp: event_ok_def new_event_def valid_notify_def)
  next
    case False
    then show ?thesis using that [of 0 0 0] by (auto simp: event_ok_def new_event_def)
  qed
  note alloc_ok = assms(4) [unfolded allocates_def, rule_format]
  have low: "unat (Type AND EVT_EFI_SIGNAL_MASK) \<le> 2"
  proof -
    have "unat (Type AND EVT_EFI_SIGNAL_MASK) \<noteq> 3" using assms(2) by (simp add: word_unat_eq_iff)
    then show ?thesis using low_type_bits [of Type] True by simp
  qed
  have body: "run_ok (\<lambda>(st, pe, s'). steps s s' \<and> (EFI_ERROR st \<longleftrightarrow> pe = None))
      (bind_run (register_event Type e (AcquireLock EventQueueLock (s1\<lparr>Events := (Events s1)(e \<mapsto> new_event Type T F C)\<rparr>))) (\<lambda>s3.
       bind_run (ReleaseLock cb n EventQueueLock s3) (\<lambda>s4. Ret (EFI_SUCCESS, Some e, s4))))"
    if s1: "steps s s1" "Events s1 e = None" for e s1
  proof -
    let ?s2 = "AcquireLock EventQueueLock (s1\<lparr>Events := (Events s1)(e \<mapsto> new_event Type T F C)\<rparr>)"
    have "exec_inv ?s2" using exec_inv_new [OF _ s1(2) ev(2)] s1(1) by (simp add: steps_def settled_def)
    from register_event_ok [OF this _ low, of e T F C] obtain s3 where
      s3: "register_event Type e ?s2 = Ret s3" "exec_inv s3" "Locks s3 = Locks ?s2" "\<forall>x. x \<noteq> e \<longrightarrow> Events s3 x = Events s1 x"
      by auto
    have "survives s3 x evx = survives s1 x evx" if "x \<noteq> e" for x evx
      using s3(4) that by (simp add: survives_def)
    moreover have "\<not> survives s1 e evx" for evx using s1(2) by (simp add: survives_def)
    ultimately have keep: "keeps_events (TPL s) s s3"
      using s1 unfolding steps_def keeps_events_def by metis
    have "run_ok (steps s) (ReleaseLock cb n EventQueueLock s3)"
      by (rule section_end [OF s3(2) _ _ keep]) (use s3(3) s1(1) settledD(2) [OF assms(1)] in \<open>simp_all add: steps_def\<close>)
    then show ?thesis using s3(1) by (auto intro!: run_ok_bind)
  qed
  have unfold: "CreateEvent cb alloc n Type Tpl Function Ctx pEvent s =
    bind_run (alloc (if Type AND EVT_RUNTIME \<noteq> 0 then EfiRuntimeServicesData else EfiBootServicesData) sizeof_IEVENT s) (\<lambda>(Status, e, s1).
       if EFI_ERROR Status then Ret (Status, None, s1)
       else bind_run (register_event Type e (AcquireLock EventQueueLock (s1\<lparr>Events := (Events s1)(e \<mapsto> new_event Type T F C)\<rparr>))) (\<lambda>s3.
         bind_run (ReleaseLock cb n EventQueueLock s3) (\<lambda>s4. Ret (EFI_SUCCESS, Some e, s4))))"
    unfolding CreateEvent_def Let_def ev(1) using True by auto
  show ?thesis
    unfolding unfold by (rule run_ok_bind [OF alloc_ok]) (use body in auto)
qed

end

section \<open>Exact behaviour\<close>

text \<open>
  A critical section of a settled state that pends nothing above the current level ends without
  running any notification function.
\<close>

definition critical :: "lock_id \<Rightarrow> ('x exec_scheme \<Rightarrow> 'x exec_scheme) \<Rightarrow> 'x exec_scheme \<Rightarrow> 'x exec_scheme" where
  "critical l f s = released l (f (AcquireLock l s))"

lemma critical_quiet:
  assumes "settled s" and "OwnerTpl (Locks (f (AcquireLock l s)) l) = TPL s"
    and "\<forall>t > unat (TPL s). \<not> bit (EventPending (f (AcquireLock l s))) t" and "2 \<le> n"
  shows "ReleaseLock cb n l (f (AcquireLock l s)) = Ret (critical l f s)"
  unfolding critical_def by (rule release_quiet) (use assms settledD(2) [OF assms(1)] in simp_all)

lemma pending_signalled:
  assumes "settled s" and "Events s e = Some ev"
    and "NotifyTpl ev \<le> TPL s \<or> SignalCount ev \<noteq> 0 \<or> EvType ev AND EVT_NOTIFY_SIGNAL = 0"
  shows "\<forall>t > unat (TPL s). \<not> bit (EventPending (signalled e ev (AcquireLock EventQueueLock s))) t"
proof -
  have "unat (NotifyTpl ev) < 31" using exec_invD(5) [OF settledD(1) [OF assms(1)] assms(2)] by (simp add: event_ok_def)
  then show ?thesis
    using settledD(3) [OF assms(1)] assms(3)
    by (auto simp: signalled_def notified_def counted_def bit_or_iff bit_tpl_bit word_le_nat_alt)
qed

lemma SignalEvent_quiet:
  assumes "settled s" and "Events s e = Some ev" and "2 \<le> n"
    and "NotifyTpl ev \<le> TPL s \<or> SignalCount ev \<noteq> 0 \<or> EvType ev AND EVT_NOTIFY_SIGNAL = 0"
  shows "SignalEvent cb n e s = Ret (EFI_SUCCESS, critical EventQueueLock (signalled e ev) s)"
proof -
  have "ReleaseLock cb n EventQueueLock (signalled e ev (AcquireLock EventQueueLock s)) =
      Ret (critical EventQueueLock (signalled e ev) s)"
    by (rule critical_quiet [OF assms(1)]) (use pending_signalled [OF assms(1,2,4)] assms(3) in simp_all)
  moreover have "signal_locked e (AcquireLock EventQueueLock s) = Ret (signalled e ev (AcquireLock EventQueueLock s))"
    by (rule signal_locked_eq) (use settledD(1) [OF assms(1)] assms(2) in simp_all)
  ultimately show ?thesis using assms(2) by (simp add: SignalEvent_def)
qed

definition cleared :: "UINTN \<Rightarrow> IEVENT \<Rightarrow> 'x exec_scheme \<Rightarrow> 'x exec_scheme" where
  "cleared e ev s = s\<lparr>Events := (Events s)(e \<mapsto> ev\<lparr>SignalCount := 0\<rparr>)\<rparr>"

lemma exec_inv_cleared: "exec_inv s \<Longrightarrow> Events s e = Some ev \<Longrightarrow> exec_inv (cleared e ev s)"
  unfolding cleared_def by (rule exec_inv_upd) simp_all

text \<open>An event without a notification function: \<open>CheckEvent\<close> reads and resets its state.\<close>

lemma CheckEvent_plain:
  assumes "settled s" and "Events s e = Some ev" and "\<not> notifies (EvType ev)" and "2 \<le> n"
  shows "CheckEvent cb n e s =
    (if SignalCount ev \<noteq> 0 then Ret (EFI_SUCCESS, critical EventQueueLock (cleared e ev) s) else Ret (EFI_NOT_READY, s))"
proof -
  have m: "EvType ev AND EVT_NOTIFY_SIGNAL = 0" "EvType ev AND EVT_NOTIFY_WAIT = 0"
  proof -
    have z: "EvType ev AND (EVT_NOTIFY_WAIT OR EVT_NOTIFY_SIGNAL) = 0" using assms(3) by (simp add: notifies_def)
    have "EvType ev AND EVT_NOTIFY_WAIT OR EvType ev AND EVT_NOTIFY_SIGNAL = 0"
      using z by (simp only: and.commute bit.conj_disj_distrib)
    then have "\<not> bit (EvType ev AND EVT_NOTIFY_WAIT) n \<and> \<not> bit (EvType ev AND EVT_NOTIFY_SIGNAL) n" for n
      by (metis bit_or_iff word_0_iff_bits)
    then show "EvType ev AND EVT_NOTIFY_SIGNAL = 0" "EvType ev AND EVT_NOTIFY_WAIT = 0"
      by (simp_all add: word_0_iff_bits)
  qed
  let ?s = "AcquireLock EventQueueLock s"
  have r: "ReleaseLock cb n EventQueueLock (cleared e ev ?s) = Ret (critical EventQueueLock (cleared e ev) s)"
    by (rule critical_quiet [OF assms(1)]) (use settledD(3) [OF assms(1)] assms(4) in \<open>simp_all add: cleared_def\<close>)
  have "upd_event e (\<lambda>ev. ev\<lparr>SignalCount := 0\<rparr>) ?s = cleared e ev ?s"
    using assms(2) by (simp add: upd_event_Some cleared_def)
  then have "check_clear cb n e s = Ret (EFI_SUCCESS, critical EventQueueLock (cleared e ev) s)" if "SignalCount ev \<noteq> 0"
    using r that assms(2) by (simp add: check_clear_def read_count_def Let_def)
  then show ?thesis using assms(2) m by (simp add: CheckEvent_def read_count_def)
qed

lemma critical_simps [simp]:
  "(\<And>s. Locks (f s) = Locks s) \<Longrightarrow> TPL (critical l f s) = TPL s"
  "Events (critical l f s) = Events (f (AcquireLock l s))"
  "EventQueue (critical l f s) = EventQueue (f (AcquireLock l s))"
  "EventPending (critical l f s) = EventPending (f (AcquireLock l s))"
  "exec.more (critical l f s) = exec.more (f (AcquireLock l s))"
  by (simp_all add: critical_def)

lemma settled_critical:
  assumes "settled s" and "\<And>s. Locks (f s) = Locks s" and "exec_inv (f (AcquireLock l s))"
    and "\<forall>t > unat (TPL s). \<not> bit (EventPending (f (AcquireLock l s))) t"
  shows "settled (critical l f s)"
  using assms settledD [OF assms(1)] by (simp add: settled_def critical_def)

text \<open>Signalling an event above the current level: its function runs before the call returns.\<close>

lemma SignalEvent_dispatch:
  assumes "settled s" and ev: "Events s e = Some ev" and "SignalCount ev = 0" and "EvType ev AND EVT_NOTIFY_SIGNAL \<noteq> 0"
    and above: "TPL s < NotifyTpl ev" and "36 \<le> n"
  shows "\<exists>s'. SignalEvent (observing g) n e s = Ret (EFI_SUCCESS, s') \<and> TPL s' = TPL s \<and>
     exec.more s' = g (NotifyFunction ev) e (NotifyContext ev) (exec.more s) \<and>
     (\<forall>t. EventQueue s' t = EventQueue s t)"
proof -
  let ?a = "AcquireLock EventQueueLock s"
  let ?s1 = "signalled e ev ?a"
  let ?t = "unat (NotifyTpl ev)"
  have a: "exec_inv ?a" "Events ?a e = Some ev" using settledD(1) [OF assms(1)] ev by simp_all
  note sig = signal_locked_eq [OF a]
  define s2 where "s2 = ?s1\<lparr>Locks := (Locks ?s1)(EventQueueLock := (Locks ?s1 EventQueueLock)\<lparr>LockCount := LockCount (Locks ?s1 EventQueueLock) - 1\<rparr>)\<rparr>"
  have i2: "exec_inv s2" using sig(2) unfolding s2_def by (subst exec_inv_cong) simp_all
  have t: "unat (TPL s) < ?t" "?t < 31"
    using above exec_invD(5) [OF a] by (simp_all add: word_less_nat_alt event_ok_def)
  have q: "EventQueue s2 = (EventQueue s)(?t := [e])" "exec.more s2 = exec.more s"
    using settled_queue [OF assms(1) t(1)] assms(3,4)
    by (simp_all add: s2_def signalled_def notified_def counted_def fun_eq_iff)
  have ord: "pending_order (Suc (unat (TPL s))) 31 s2 = [e]"
    using pending_order_single [of ?t "Suc (unat (TPL s))" s2 31] settled_queue [OF assms(1)] t q by simp
  have "TPL s < TPL_HIGH_LEVEL" using t by (simp add: word_less_nat_alt)
  from RestoreTPL_order [OF i2 this, of n g] ord assms(6) obtain s' where
    s': "RestoreTPL (observing g) n (TPL s) s2 = Ret s'" "TPL s' = TPL s"
      "exec.more s' = fire g s2 (exec.more s) e"
      "\<forall>t. EventQueue s' t = (if unat (TPL s) < t then [] else EventQueue s2 t)" by (auto simp: q)
  have "fire g s2 (exec.more s) e = g (NotifyFunction ev) e (NotifyContext ev) (exec.more s)"
    using assms(3,4) by (simp add: fire_def s2_def signalled_def notified_def counted_def)
  moreover have "EventQueue s' u = EventQueue s u" for u
    using s'(4) q(1) t(1) settled_queue [OF assms(1), of u] by auto
  moreover have "ReleaseLock (observing g) n EventQueueLock ?s1 = Ret s'"
    using s'(1) by (simp add: ReleaseLock_def ReleaseLock_with_def Let_def s2_def)
  ultimately show ?thesis
    using sig(1) ev s' by (simp add: SignalEvent_def)
qed

lemma wait_pass_first:
  assumes "settled s" and "i < length es" and "2 \<le> n"
    and "\<And>j. j < i \<Longrightarrow> \<exists>ev. Events s (es ! j) = Some ev \<and> \<not> notifies (EvType ev) \<and> SignalCount ev = 0"
    and "Events s (es ! i) = Some ev" and "\<not> notifies (EvType ev)" and "SignalCount ev \<noteq> 0"
  shows "wait_pass cb n Index es s =
    Ret (Inl (EFI_SUCCESS, Index + of_nat i, critical EventQueueLock (cleared (es ! i) ev) s))"
  using assms(2,4,5)
proof (induction es arbitrary: i Index)
  case (Cons x xs)
  show ?case
  proof (cases i)
    case 0
    with Cons.prems CheckEvent_plain [OF assms(1) _ _ assms(3), of x ev cb] assms(6,7) show ?thesis by simp
  next
    case (Suc k)
    obtain ev0 where "Events s x = Some ev0" "\<not> notifies (EvType ev0)" "SignalCount ev0 = 0"
      using Cons.prems(2) [of 0] Suc by auto
    then have "CheckEvent cb n x s = Ret (EFI_NOT_READY, s)"
      using CheckEvent_plain [OF assms(1) _ _ assms(3)] by simp
    moreover have "wait_pass cb n (Index + 1) xs s =
        Ret (Inl (EFI_SUCCESS, Index + 1 + of_nat k, critical EventQueueLock (cleared (xs ! k) ev) s))"
    proof (rule Cons.IH)
      show "\<exists>ev. Events s (xs ! j) = Some ev \<and> \<not> notifies (EvType ev) \<and> SignalCount ev = 0" if "j < k" for j
        using Cons.prems(2) [of "Suc j"] Suc that by simp
    qed (use Cons.prems Suc in simp_all)
    ultimately show ?thesis using Suc by (simp add: add.assoc)
  qed
qed simp

text \<open>An event at \<open>TPL_HIGH_LEVEL\<close>: signalling it below that level leaves the table of \<open>HighestSetBit\<close>.\<close>

lemma restore_high_level_fault:
  assumes "\<And>j. 31 \<le> j \<Longrightarrow> j < 64 \<Longrightarrow> bit (EventPending s) j" and "unat New < 31"
  shows "RestoreTPL cb (Suc (Suc m)) New s = Fault"
proof -
  have "bit (above_mask New AND EventPending s) 31"
    using assms by (simp add: bit_and_iff bit_above_mask)
  then have "above_mask New AND EventPending s \<noteq> 0" by (metis word_0_iff_bits)
  then show ?thesis using HighestSetBit_high_level [OF assms(1)] by (simp add: Let_def)
qed

section \<open>Properties\<close>

definition plain_event :: "UINT32 \<Rightarrow> IEVENT" where
  "plain_event c = (new_event 0 0 0 0)\<lparr>SignalCount := c\<rparr>"

text \<open>
  C10: signalling an event that has a notification function. When the function's level is above
  the current one, the function has run by the time \<open>SignalEvent\<close> returns, once, with its event
  and context, and no queue has changed; otherwise nothing runs and the event has moved to the
  tail of the queue of its level. In both cases the level of the caller is kept.
\<close>

theorem signal_event_dispatch:
  assumes "settled s" and "Events s e = Some ev" and "SignalCount ev = 0"
    and "EvType ev AND EVT_NOTIFY_SIGNAL \<noteq> 0" and "36 \<le> n"
  shows "\<exists>s'. SignalEvent (observing g) n e s = Ret (EFI_SUCCESS, s') \<and> TPL s' = TPL s \<and>
     exec.more s' = (if TPL s < NotifyTpl ev then g (NotifyFunction ev) e (NotifyContext ev) (exec.more s)
                     else exec.more s) \<and>
     (\<forall>t. EventQueue s' t = (if TPL s < NotifyTpl ev \<or> t \<noteq> unat (NotifyTpl ev) then EventQueue s t
                             else remove1 e (EventQueue s t) @ [e]))"
proof (cases "TPL s < NotifyTpl ev")
  case True
  then show ?thesis using SignalEvent_dispatch [OF assms(1-4) True assms(5)] by simp
next
  case False
  then have "SignalEvent (observing g) n e s = Ret (EFI_SUCCESS, critical EventQueueLock (signalled e ev) s)"
    using assms by (intro SignalEvent_quiet) auto
  then show ?thesis
    using False assms(3,4) by (simp add: signalled_def notified_def counted_def)
qed

theorem signal_event_dispatch_witness:
  "\<exists>s'. SignalEvent (observing (\<lambda>f e c m. m @ [e])) 40 100
          (idle_state 4 [100 \<mapsto> new_event EVT_NOTIFY_SIGNAL 8 4096 0] []) = Ret (EFI_SUCCESS, s') \<and>
        exec.more s' = [100]"
proof -
  let ?s = "idle_state 4 [100 \<mapsto> new_event EVT_NOTIFY_SIGNAL 8 4096 0] [] :: UINTN list exec_scheme"
  have "settled ?s"
    by (rule idle_settled) (auto simp: new_event_def event_ok_def split: if_splits)
  from signal_event_dispatch [OF this, of 100 "new_event EVT_NOTIFY_SIGNAL 8 4096 0" 40 "\<lambda>f e c m. m @ [e]"]
  show ?thesis by (auto simp: idle_state_def new_event_def)
qed

text \<open>
  C11: signal and check. For an event without a notification function, whatever the other
  notification functions are: after \<open>SignalEvent\<close>, \<open>CheckEvent\<close> reports \<open>EFI_SUCCESS\<close> and
  resets the event, so that checking again reports \<open>EFI_NOT_READY\<close>; the caller's level is kept
  and no event but this one has changed.
\<close>

theorem signal_check_roundtrip:
  assumes "settled s" and "Events s e = Some ev" and "\<not> notifies (EvType ev)" and "2 \<le> n"
  shows "\<exists>s1 s2. SignalEvent cb n e s = Ret (EFI_SUCCESS, s1) \<and> CheckEvent cb n e s1 = Ret (EFI_SUCCESS, s2) \<and>
     CheckEvent cb n e s2 = Ret (EFI_NOT_READY, s2) \<and> TPL s2 = TPL s \<and>
     Events s2 = (Events s)(e \<mapsto> ev\<lparr>SignalCount := 0\<rparr>)"
proof -
  have nosig: "EvType ev AND EVT_NOTIFY_SIGNAL = 0"
  proof (rule ccontr)
    assume "EvType ev AND EVT_NOTIFY_SIGNAL \<noteq> 0"
    then obtain j where "bit (EvType ev AND EVT_NOTIFY_SIGNAL) j" by (auto simp: word_0_iff_bits)
    then have "bit (EvType ev AND (EVT_NOTIFY_WAIT OR EVT_NOTIFY_SIGNAL)) j" by (simp only: bit_and_iff bit_or_iff) simp
    with assms(3) show False by (auto simp: notifies_def)
  qed
  let ?a = "AcquireLock EventQueueLock s"
  define ev1 where "ev1 = (if SignalCount ev = 0 then ev\<lparr>SignalCount := 1\<rparr> else ev)"
  define s1 where "s1 = critical EventQueueLock (signalled e ev) s"
  have sg: "signalled e ev x = (if SignalCount ev \<noteq> 0 then x else counted e ev x)" for x :: "'a exec_scheme"
    using nosig by (simp add: signalled_def)
  have s1: "settled s1" unfolding s1_def
    by (rule settled_critical [OF assms(1)])
       (use signal_locked_eq(2) [of ?a e ev] settledD [OF assms(1)] assms(2) in \<open>simp_all add: sg counted_def\<close>)
  have e1: "Events s1 e = Some ev1" "SignalCount ev1 \<noteq> 0" "EvType ev1 = EvType ev" "ev1\<lparr>SignalCount := 0\<rparr> = ev\<lparr>SignalCount := 0\<rparr>"
    using assms(2) by (simp_all add: s1_def sg counted_def ev1_def)
  define s2 where "s2 = critical EventQueueLock (cleared e ev1) s1"
  have s2: "settled s2" unfolding s2_def
    by (rule settled_critical [OF s1])
       (use exec_inv_cleared [of "AcquireLock EventQueueLock s1" e ev1] settledD [OF s1] e1(1) in
        \<open>simp_all add: cleared_def\<close>)
  have e2: "Events s2 = (Events s)(e \<mapsto> ev\<lparr>SignalCount := 0\<rparr>)"
    using e1(4) assms(2) by (auto simp: s2_def s1_def cleared_def sg counted_def)
  have "TPL s2 = TPL s" by (simp add: s2_def s1_def cleared_def)
  then show ?thesis
    using SignalEvent_quiet [OF assms(1,2,4), of cb] nosig CheckEvent_plain [OF s1 e1(1) _ assms(4), of cb]
      CheckEvent_plain [OF s2 _ _ assms(4), of e "ev\<lparr>SignalCount := 0\<rparr>" cb] assms(3) e1 e2
    by (simp add: s1_def s2_def)
qed

theorem signal_check_roundtrip_witness:
  "\<exists>s1 s2. SignalEvent (\<lambda>_ _ _ _. Fault) 2 100 (idle_state 4 [100 \<mapsto> plain_event 0] ()) = Ret (EFI_SUCCESS, s1) \<and>
     CheckEvent (\<lambda>_ _ _ _. Fault) 2 100 s1 = Ret (EFI_SUCCESS, s2) \<and>
     CheckEvent (\<lambda>_ _ _ _. Fault) 2 100 s2 = Ret (EFI_NOT_READY, s2)"
proof -
  let ?s = "idle_state 4 [100 \<mapsto> plain_event 0] () :: unit exec_scheme"
  have "settled ?s"
    by (rule idle_settled) (auto simp: plain_event_def new_event_def event_ok_def split: if_splits)
  from signal_check_roundtrip [OF this, of 100 "plain_event 0" 2 "\<lambda>_ _ _ _. Fault"]
  show ?thesis by (auto simp: idle_state_def plain_event_def new_event_def notifies_def)
qed

text \<open>
  C12: waiting on events without notification functions. \<open>WaitForEvent\<close> returns the index of the
  first event of the array that is signalled, resets that event and only that one, and calls
  neither a notification function nor the idle loop.
\<close>

theorem wait_for_event_first:
  assumes "settled s" and "TPL s = TPL_APPLICATION" and "i < length es" and "2 \<le> n" and "0 < k"
    and "\<And>j. j < i \<Longrightarrow> \<exists>ev. Events s (es ! j) = Some ev \<and> \<not> notifies (EvType ev) \<and> SignalCount ev = 0"
    and "Events s (es ! i) = Some ev" and "\<not> notifies (EvType ev)" and "SignalCount ev \<noteq> 0"
  shows "\<exists>s'. WaitForEvent cb IdleLoop n k es s = Ret (EFI_SUCCESS, Some (of_nat i), s') \<and>
     Events s' = (Events s)(es ! i \<mapsto> ev\<lparr>SignalCount := 0\<rparr>) \<and> TPL s' = TPL s \<and> exec.more s' = exec.more s"
proof -
  obtain m where "k = Suc m" using assms(5) by (cases k) auto
  then show ?thesis
    using wait_pass_first [OF assms(1,3,4,6-9), of cb 0] assms(2)
    by (simp add: WaitForEvent_def CurrentTPL_def cleared_def)
qed

theorem wait_for_event_first_witness:
  "\<exists>s'. WaitForEvent (\<lambda>_ _ _ _. Fault) (\<lambda>_. Fault) 2 1 [100, 200]
          (idle_state 4 [100 \<mapsto> plain_event 0, 200 \<mapsto> plain_event 1] ()) = Ret (EFI_SUCCESS, Some 1, s') \<and>
        Events s' 200 = Some (plain_event 0)"
proof -
  let ?s = "idle_state 4 [100 \<mapsto> plain_event 0, 200 \<mapsto> plain_event 1] () :: unit exec_scheme"
  have "settled ?s"
    by (rule idle_settled) (auto simp: plain_event_def new_event_def event_ok_def split: if_splits)
  from wait_for_event_first [OF this, of 1 "[100, 200]" 2 1 "plain_event 1" "\<lambda>_ _ _ _. Fault" "\<lambda>_. Fault"]
  show ?thesis by (auto simp: idle_state_def plain_event_def new_event_def notifies_def)
qed

text \<open>
  C13: \<open>CreateEvent\<close> accepts an event type whose low byte is 3 (the low bytes of the two signal
  types taken together, without \<open>EVT_NOTIFY_SIGNAL\<close>), and then links the event into
  \<open>EventSignalQueue[2]\<close>, one past the end of the array: the range is only asserted.
\<close>

theorem create_event_signal_overflow:
  assumes "valid_event_type Type" and "Type AND EVT_EFI_SIGNAL_MASK = 3"
    and "\<not> notifies Type \<or> valid_notify Type Tpl Function"
    and "alloc (if Type AND EVT_RUNTIME \<noteq> 0 then EfiRuntimeServicesData else EfiBootServicesData) sizeof_IEVENT s
         = Ret (EFI_SUCCESS, e, s1)"
  shows "CreateEvent cb alloc n Type Tpl Function Ctx True s = Fault"
  using assms by (auto simp: CreateEvent_def register_event_def Let_def)

theorem create_event_signal_overflow_witness:
  "CreateEvent (\<lambda>_ _ _ _. Fault) (\<lambda>_ _ s. Ret (EFI_SUCCESS, 64, s)) 5 0x103 8 4096 0 True
     (idle_state 4 Map.empty ()) = Fault"
  by (rule create_event_signal_overflow)
     (simp_all add: valid_event_type_def valid_notify_def VALID_TPL_def)

text \<open>
  C14: \<open>CreateEvent\<close> accepts the level \<open>TPL_HIGH_LEVEL\<close> for a notification function, but on a
  64-bit target the pending mask of that level is a sign-extended \<open>int\<close>: signalling such an event
  below \<open>TPL_HIGH_LEVEL\<close> makes \<open>RestoreTPL\<close> index the table of \<open>HighestSetBit\<close> out of range.
\<close>

theorem high_level_event_fault:
  assumes "Events s e = Some ev" and "SignalCount ev = 0" and "EvType ev AND EVT_NOTIFY_SIGNAL \<noteq> 0"
    and "NotifyTpl ev = TPL_HIGH_LEVEL" and "TPL s < TPL_HIGH_LEVEL" and "2 \<le> n"
  shows "SignalEvent cb n e s = Fault"
proof -
  obtain m where n: "n = Suc (Suc m)" using assms(6) by (metis numeral_2_eq_2 Suc_le_D Suc_le_mono)
  let ?a = "AcquireLock EventQueueLock s"
  obtain s1 where s1: "signal_locked e ?a = Ret s1" "EventPending s1 = EventPending s OR tpl_bit 31" "Locks s1 = Locks ?a"
    using assms(1-4) by (auto simp: signal_locked_def NotifyEvent_def upd_event_def unlink_notify_def Let_def)
  have "unat (TPL s) < 31" using assms(5) by (simp add: word_less_nat_alt)
  then have "ReleaseLock cb n EventQueueLock s1 = Fault"
    unfolding n ReleaseLock_def ReleaseLock_with_def Let_def
    by (subst restore_high_level_fault) (simp_all add: s1 bit_or_iff bit_tpl_bit_31)
  then show ?thesis using s1(1) assms(1) by (simp add: SignalEvent_def)
qed

theorem high_level_event_fault_witness:
  "valid_notify EVT_NOTIFY_SIGNAL 31 4096 \<and>
   SignalEvent (\<lambda>_ _ _ s. Ret s) 2 100 (idle_state 4 [100 \<mapsto> new_event EVT_NOTIFY_SIGNAL 31 4096 0] ()) = Fault"
  using high_level_event_fault [of "idle_state 4 [100 \<mapsto> new_event EVT_NOTIFY_SIGNAL 31 4096 0] ()" 100
      "new_event EVT_NOTIFY_SIGNAL 31 4096 0" 2 "\<lambda>_ _ _ s. Ret s"]
  by (simp add: valid_notify_def VALID_TPL_def idle_state_def new_event_def)

end
