(* ===== verification/Timer.thy ===== *)
theory Timer
  imports Event
begin

text \<open>
  Timers (\<open>exec/timer.c\<close>) and \<open>CloseEvent\<close> (\<open>exec/event.c\<close>), which cancels the timer of the
  event it closes. The timer list is sorted by trigger time; \<open>CheckTimers\<close> is the notification
  function of \<open>EfiCheckTimerEvent\<close>. Its loop carries fuel.
\<close>

section \<open>The timer services\<close>

text \<open>\<open>EFI_TIMER_DELAY\<close>: a C enumeration, that is an \<open>int\<close>.\<close>

abbreviation (input) TimerCancel :: int where "TimerCancel \<equiv> 0"
abbreviation (input) TimerPeriodic :: int where "TimerPeriodic \<equiv> 1"
abbreviation (input) TimerRelative :: int where "TimerRelative \<equiv> 2"
abbreviation (input) TimerTypeMax :: int where "TimerTypeMax \<equiv> 3"

definition CurrentSystemTime :: "'x notify_fn \<Rightarrow> nat \<Rightarrow> 'x exec_scheme \<Rightarrow> (UINT64 \<times> 'x exec_scheme) run" where
  "CurrentSystemTime cb n s =
     (let s1 = AcquireLock EfiSystemTimeLock s;
          SystemTime = EfiSystemTime s1
      in bind_run (ReleaseLock cb n EfiSystemTimeLock s1) (\<lambda>s2. Ret (SystemTime, s2)))"

fun insert_timer :: "(UINTN \<rightharpoonup> IEVENT) \<Rightarrow> UINT64 \<Rightarrow> UINTN \<Rightarrow> UINTN list \<Rightarrow> UINTN list run" where
  "insert_timer E T e [] = Ret [e]"
| "insert_timer E T e (x # xs) =
     (case E x of
        None \<Rightarrow> Fault
      | Some Event2 \<Rightarrow> if TriggerTime Event2 > T then Ret (e # x # xs)
                       else bind_run (insert_timer E T e xs) (\<lambda>ys. Ret (x # ys)))"

definition InsertEventTimer :: "UINTN \<Rightarrow> 'x exec_scheme \<Rightarrow> 'x exec_scheme run" where
  "InsertEventTimer e s =
     (case Events s e of
        None \<Rightarrow> Fault
      | Some Event \<Rightarrow>
          bind_run (insert_timer (Events s) (TriggerTime Event) e (EfiTimerList s)) (\<lambda>xs.
            Ret (upd_event e (\<lambda>ev. ev\<lparr>TimerLink := True\<rparr>) (s\<lparr>EfiTimerList := xs\<rparr>))))"

text \<open>\<open>CheckTimers_addr\<close> is the address of the code of \<open>CheckTimers\<close>.\<close>

definition InitializeTimer ::
  "'x notify_fn \<Rightarrow> 'x alloc_fn \<Rightarrow> nat \<Rightarrow> UINTN \<Rightarrow> 'x exec_scheme \<Rightarrow> 'x exec_scheme run" where
  "InitializeTimer cb alloc n CheckTimers_addr s =
     bind_run (CreateEvent cb alloc n EVT_NOTIFY_SIGNAL (TPL_HIGH_LEVEL - 1) CheckTimers_addr 0 True s) (\<lambda>(Status, pe, s1).
       let s2 = (case pe of Some e \<Rightarrow> s1\<lparr>EfiCheckTimerEvent := e\<rparr> | None \<Rightarrow> s1);
           s3 = s2\<lparr>EfiSystemTime := 0, EfiTimerList := []\<rparr>
       in Ret (InitializeLock EfiSystemTimeLock TPL_HIGH_LEVEL
                (InitializeLock EfiTimerListLock (TPL_HIGH_LEVEL - 1) s3)))"

definition FwTimerTick :: "'x notify_fn \<Rightarrow> nat \<Rightarrow> UINTN \<Rightarrow> 'x exec_scheme \<Rightarrow> 'x exec_scheme run" where
  "FwTimerTick cb n Duration s =
     (if EfiAtRuntime s then Ret s
      else
        let s1 = AcquireLock EfiSystemTimeLock s;
            s2 = s1\<lparr>EfiSystemTime := EfiSystemTime s1 + Duration\<rparr>
        in bind_run
             (case EfiTimerList s2 of
                [] \<Rightarrow> Ret s2
              | e # _ \<Rightarrow>
                  (case Events s2 e of
                     None \<Rightarrow> Fault
                   | Some Event \<Rightarrow>
                       if TriggerTime Event \<le> EfiSystemTime s2
                       then bind_run (SignalEvent cb n (EfiCheckTimerEvent s2) s2) (\<lambda>(_, s3). Ret s3)
                       else Ret s2))
             (ReleaseLock cb n EfiSystemTimeLock))"

text \<open>A periodic timer starts over: from its trigger time, or from now when that has passed.\<close>

definition rearm :: "'x notify_fn \<Rightarrow> nat \<Rightarrow> UINT64 \<Rightarrow> UINTN \<Rightarrow> IEVENT \<Rightarrow> 'x exec_scheme \<Rightarrow> 'x exec_scheme run" where
  "rearm cb n SystemTime e Event s =
     (let T = TriggerTime Event + Period Event;
          s1 = upd_event e (\<lambda>ev. ev\<lparr>TriggerTime := T\<rparr>) s
      in bind_run
           (if T \<le> SystemTime
            then let s2 = upd_event e (\<lambda>ev. ev\<lparr>TriggerTime := SystemTime\<rparr>) s1
                 in bind_run (SignalEvent cb n (EfiCheckTimerEvent s2) s2) (\<lambda>(_, s3). Ret s3)
            else Ret s1)
           (InsertEventTimer e))"

primrec check_timers_loop :: "'x notify_fn \<Rightarrow> nat \<Rightarrow> nat \<Rightarrow> UINT64 \<Rightarrow> 'x exec_scheme \<Rightarrow> 'x exec_scheme run" where
  "check_timers_loop cb n 0 SystemTime s = NoFuel"
| "check_timers_loop cb n (Suc k) SystemTime s =
     (case EfiTimerList s of
        [] \<Rightarrow> Ret s
      | e # es \<Rightarrow>
          (case Events s e of
             None \<Rightarrow> Fault
           | Some Event \<Rightarrow>
               if TriggerTime Event > SystemTime then Ret s
               else
                 let s1 = upd_event e (\<lambda>ev. ev\<lparr>TimerLink := False\<rparr>) (s\<lparr>EfiTimerList := es\<rparr>)
                 in bind_run (SignalEvent cb n e s1) (\<lambda>(_, s2).
                      case Events s2 e of
                        None \<Rightarrow> Fault
                      | Some Event2 \<Rightarrow>
                          bind_run (if Period Event2 \<noteq> 0 then rearm cb n SystemTime e Event2 s2 else Ret s2)
                            (check_timers_loop cb n k SystemTime))))"

definition CheckTimers :: "'x notify_fn \<Rightarrow> nat \<Rightarrow> nat \<Rightarrow> UINTN \<Rightarrow> UINTN \<Rightarrow> 'x exec_scheme \<Rightarrow> 'x exec_scheme run" where
  "CheckTimers cb n k Ev Context s =
     bind_run (CurrentSystemTime cb n (AcquireLock EfiTimerListLock s)) (\<lambda>(SystemTime, s1).
     bind_run (check_timers_loop cb n k SystemTime s1) (ReleaseLock cb n EfiTimerListLock))"

definition arm_timer :: "'x notify_fn \<Rightarrow> nat \<Rightarrow> UINTN \<Rightarrow> int \<Rightarrow> UINT64 \<Rightarrow> 'x exec_scheme \<Rightarrow> 'x exec_scheme run" where
  "arm_timer cb n e Type Trigger s =
     (let s1 = (if Type = TimerPeriodic then upd_event e (\<lambda>ev. ev\<lparr>Period := Trigger\<rparr>) s else s)
      in bind_run (CurrentSystemTime cb n s1) (\<lambda>(Now, s2).
         bind_run (InsertEventTimer e (upd_event e (\<lambda>ev. ev\<lparr>TriggerTime := Now + Trigger\<rparr>) s2)) (\<lambda>s3.
           if Trigger = 0
           then bind_run (SignalEvent cb n (EfiCheckTimerEvent s3) s3) (\<lambda>(_, s4). Ret s4)
           else Ret s3)))"

definition SetTimer ::
  "'x notify_fn \<Rightarrow> nat \<Rightarrow> UINTN \<Rightarrow> int \<Rightarrow> UINT64 \<Rightarrow> 'x exec_scheme \<Rightarrow> (EFI_STATUS \<times> 'x exec_scheme) run"
where
  "SetTimer cb n e Type Trigger s =
     (case Events s e of
        None \<Rightarrow> Ret (EFI_INVALID_PARAMETER, s)
      | Some Event \<Rightarrow>
          if Type \<ge> TimerTypeMax \<or> EvType Event AND EVT_TIMER = 0 then Ret (EFI_INVALID_PARAMETER, s)
          else
            let s1 = AcquireLock EfiTimerListLock s;
                s2 = (if TimerLink Event
                      then upd_event e (\<lambda>ev. ev\<lparr>TimerLink := False\<rparr>) (s1\<lparr>EfiTimerList := remove1 e (EfiTimerList s1)\<rparr>)
                      else s1);
                s3 = upd_event e (\<lambda>ev. ev\<lparr>TriggerTime := 0, Period := 0\<rparr>) s2
            in bind_run (if Type \<noteq> TimerCancel then arm_timer cb n e Type Trigger s3 else Ret s3) (\<lambda>s4.
               bind_run (ReleaseLock cb n EfiTimerListLock s4) (\<lambda>s5. Ret (EFI_SUCCESS, s5))))"

text \<open>
  \<open>CloseEvent\<close>. \<open>UnregisterProtocolNotify\<close> (\<open>hand/notify.c\<close>) and \<open>FreePool\<close> are parameters;
  the freed memory is no event any more. The link fields of the unlinked entries are left as
  they are, as in the code.
\<close>

definition unlink_event :: "UINTN \<Rightarrow> IEVENT \<Rightarrow> 'x exec_scheme \<Rightarrow> 'x exec_scheme" where
  "unlink_event e Event s =
     (let s1 = (if RuntimeLink Event then s\<lparr>RuntimeEventList := remove1 e (RuntimeEventList s)\<rparr> else s);
          s2 = (if NotifyLink Event then unlink_notify e s1 else s1)
      in (if SignalLink Event then s2\<lparr>EventSignalQueue := (\<lambda>i. remove1 e (EventSignalQueue s2 i))\<rparr> else s2))"

definition CloseEvent ::
  "'x notify_fn \<Rightarrow> (UINTN \<Rightarrow> 'x exec_scheme \<Rightarrow> 'x exec_scheme run) \<Rightarrow> (UINTN \<Rightarrow> 'x exec_scheme \<Rightarrow> 'x exec_scheme run)
   \<Rightarrow> nat \<Rightarrow> UINTN \<Rightarrow> 'x exec_scheme \<Rightarrow> (EFI_STATUS \<times> 'x exec_scheme) run"
where
  "CloseEvent cb UnregisterProtocolNotify FreePool n e s =
     (case Events s e of
        None \<Rightarrow> Ret (EFI_INVALID_PARAMETER, s)
      | Some Event \<Rightarrow>
          bind_run (if EvType Event AND EVT_TIMER \<noteq> 0
                    then bind_run (SetTimer cb n e TimerCancel 0 s) (\<lambda>(_, s1). Ret s1) else Ret s) (\<lambda>s1.
            let s2 = AcquireLock EventQueueLock s1
            in case Events s2 e of
                 None \<Rightarrow> Fault
               | Some Event2 \<Rightarrow>
                   bind_run (ReleaseLock cb n EventQueueLock (unlink_event e Event2 s2)) (\<lambda>s3.
                   bind_run (UnregisterProtocolNotify e s3) (\<lambda>s4.
                   bind_run (FreePool e s4) (\<lambda>s5.
                     Ret (EFI_SUCCESS, s5\<lparr>Events := (Events s5)(e := None)\<rparr>))))))"

section \<open>Timer list lemmas\<close>

lemma insert_timer_eq:
  assumes "\<And>x. x \<in> set xs \<Longrightarrow> E x \<noteq> None"
  shows "insert_timer E T e xs =
    Ret (takeWhile (\<lambda>x. trigger E x \<le> T) xs @ e # dropWhile (\<lambda>x. trigger E x \<le> T) xs)"
  using assms
proof (induction xs)
  case (Cons x xs)
  then obtain ev where "E x = Some ev" by auto
  with Cons show ?case by (auto simp: trigger_def not_le)
qed simp

lemma sorted_insert_timer:
  assumes "sorted (map f xs)" and "f e = T"
  shows "sorted (map f (takeWhile (\<lambda>x. f x \<le> T) xs @ e # dropWhile (\<lambda>x. f x \<le> T) xs))"
  using assms
proof (induction xs)
  case (Cons x xs)
  then show ?case
    by (cases "f x \<le> T") (auto dest: set_takeWhileD set_dropWhileD order_trans intro: less_imp_le order_trans [of T "f x"])
qed simp

lemma lists_invD:
  assumes "exec_inv s"
  shows "linked (Events s) TimerLink (EfiTimerList s)"
    and "sorted (map (trigger (Events s)) (EfiTimerList s))"
    and "linked (Events s) RuntimeLink (RuntimeEventList s)"
    and "linked (Events s) (\<lambda>ev. SignalLink ev \<and> unat (EvType ev AND EVT_EFI_SIGNAL_MASK) = Suc i) (EventSignalQueue s i)"
    and "linked (Events s) (\<lambda>ev. NotifyLink ev \<and> unat (NotifyTpl ev) = t) (EventQueue s t)"
    and "LockTpl (Locks s EfiTimerListLock) = TPL_HIGH_LEVEL - 1"
    and "LockTpl (Locks s EfiSystemTimeLock) = TPL_HIGH_LEVEL"
  using assms unfolding exec_inv_def lists_inv_def by blast+

text \<open>Taking a timer off the list, and changing an event that is not on it.\<close>

lemma exec_inv_timer_upd:
  assumes "exec_inv s" and "Events s e = Some ev" and "linked ((Events s)(e \<mapsto> ev')) TimerLink xs"
    and "sorted (map (trigger ((Events s)(e \<mapsto> ev'))) xs)" and "TimerLink ev' \<Longrightarrow> EvType ev AND EVT_TIMER \<noteq> 0"
    and "RuntimeLink ev' = RuntimeLink ev" "SignalLink ev' = SignalLink ev" "EvType ev' = EvType ev"
      "NotifyLink ev' = NotifyLink ev" "NotifyTpl ev' = NotifyTpl ev" "NotifyFunction ev' = NotifyFunction ev"
  shows "exec_inv (s\<lparr>EfiTimerList := xs, Events := (Events s)(e \<mapsto> ev')\<rparr>)"
  using assms by (auto simp: exec_inv_def lists_inv_def event_ok_def intro!: linked_same [where ev = ev])

lemma sorted_remove1_timer:
  "sorted (map f xs) \<Longrightarrow> distinct xs \<Longrightarrow> sorted (map (f(e := T)) (remove1 e xs))"
proof -
  assume "sorted (map f xs)" "distinct xs"
  then have "sorted (map f (filter (\<lambda>y. y \<noteq> e) xs))" by (simp add: sorted_filter)
  moreover have "map (f(e := T)) (filter (\<lambda>y. y \<noteq> e) xs) = map f (filter (\<lambda>y. y \<noteq> e) xs)" by (rule map_cong) auto
  ultimately show ?thesis using \<open>distinct xs\<close> by (simp add: remove1_distinct_filter)
qed

lemma exec_inv_untimer:
  assumes "exec_inv s" and "Events s e = Some ev" and "\<not> TimerLink ev'"
    and "RuntimeLink ev' = RuntimeLink ev" "SignalLink ev' = SignalLink ev" "EvType ev' = EvType ev"
      "NotifyLink ev' = NotifyLink ev" "NotifyTpl ev' = NotifyTpl ev" "NotifyFunction ev' = NotifyFunction ev"
  shows "exec_inv (s\<lparr>EfiTimerList := remove1 e (EfiTimerList s), Events := (Events s)(e \<mapsto> ev')\<rparr>)"
proof -
  note l = lists_invD(1,2) [OF assms(1)]
  show ?thesis
    by (rule exec_inv_timer_upd [OF assms(1,2) linked_remove [OF l(1) assms(3)] _ _ assms(4-9)])
       (simp_all only: trigger_upd sorted_remove1_timer [OF l(2) linkedD(1) [OF l(1)]] assms(3))
qed

text \<open>\<open>InsertEventTimer\<close> puts an event into its place in the sorted list.\<close>

definition timer_inserted :: "UINTN \<Rightarrow> IEVENT \<Rightarrow> 'x exec_scheme \<Rightarrow> 'x exec_scheme" where
  "timer_inserted e ev s =
     s\<lparr>EfiTimerList := takeWhile (\<lambda>x. trigger (Events s) x \<le> TriggerTime ev) (EfiTimerList s) @ e #
                       dropWhile (\<lambda>x. trigger (Events s) x \<le> TriggerTime ev) (EfiTimerList s),
       Events := (Events s)(e \<mapsto> ev\<lparr>TimerLink := True\<rparr>)\<rparr>"

lemma InsertEventTimer_eq:
  assumes "exec_inv s" and "Events s e = Some ev"
  shows "InsertEventTimer e s = Ret (timer_inserted e ev s)"
proof -
  have "Events s x \<noteq> None" if "x \<in> set (EfiTimerList s)" for x
    using linkedD(2) [OF lists_invD(1) [OF assms(1)], of x] that by auto
  from insert_timer_eq [where T = "TriggerTime ev" and e = e, OF this] assms(2) show ?thesis
    by (simp add: InsertEventTimer_def timer_inserted_def upd_event_def)
qed

lemma exec_inv_inserted:
  assumes "exec_inv s" and "Events s e = Some ev" and "\<not> TimerLink ev" and "EvType ev AND EVT_TIMER \<noteq> 0"
  shows "exec_inv (timer_inserted e ev s)"
proof -
  let ?f = "trigger (Events s)" and ?ev = "ev\<lparr>TimerLink := True\<rparr>"
  let ?a = "takeWhile (\<lambda>x. ?f x \<le> TriggerTime ev) (EfiTimerList s)"
  let ?b = "dropWhile (\<lambda>x. ?f x \<le> TriggerTime ev) (EfiTimerList s)"
  have l: "linked (Events s) TimerLink (?a @ ?b)" using lists_invD(1) [OF assms(1)] by simp
  have "e \<notin> set (?a @ ?b)" by (rule linked_notin [OF l]) (use assms(2,3) in auto)
  then have "linked ((Events s)(e \<mapsto> ?ev)) TimerLink (?a @ e # ?b)" by (intro linked_insert [OF l]) simp_all
  moreover have "sorted (map ?f (?a @ e # ?b))"
    by (rule sorted_insert_timer [OF lists_invD(2) [OF assms(1)]]) (simp add: trigger_def assms(2))
  moreover have "trigger ((Events s)(e \<mapsto> ?ev)) = ?f" using assms(2) by (auto simp: trigger_def)
  ultimately show ?thesis
    unfolding timer_inserted_def by (intro exec_inv_timer_upd [OF assms(1,2)]) (simp_all add: assms(4))
qed

section \<open>Signalling at the level of the timer lock\<close>

lemma Locks_other [simp]:
  "l' \<noteq> l \<Longrightarrow> Locks (AcquireLock l s) l' = Locks s l'"
  "l' \<noteq> l \<Longrightarrow> Locks (released l s) l' = Locks s l'"
  by (simp_all add: AcquireLock_def RaiseTPL_def Let_def released_def)

lemma ReleaseLock_no_fuel: "n < 2 \<Longrightarrow> ReleaseLock cb n l s = NoFuel"
  by (cases n) (auto simp: ReleaseLock_def ReleaseLock_with_def Let_def less_Suc_eq numeral_2_eq_2)

text \<open>No notification is pending above level 30, so that the critical sections of timers are settled.\<close>

lemma settled_high: "exec_inv s \<Longrightarrow> 30 \<le> unat (TPL s) \<Longrightarrow> unat (TPL s) \<le> 31 \<Longrightarrow> settled s"
  using exec_invD(4) [of s] unfolding settled_def by fastforce

lemma settled_acquire_timer:
  assumes "exec_inv s"
  shows "settled (AcquireLock EfiTimerListLock s)" and "unat (TPL (AcquireLock EfiTimerListLock s)) = 30"
    and "settled (AcquireLock EfiSystemTimeLock s)" and "unat (TPL (AcquireLock EfiSystemTimeLock s)) = 31"
  using assms lists_invD(6,7) [OF assms] by (auto intro!: settled_high)

definition sig :: "UINTN \<Rightarrow> 'x exec_scheme \<Rightarrow> 'x exec_scheme" where
  "sig e s = (case Events s e of None \<Rightarrow> s | Some ev \<Rightarrow> critical EventQueueLock (signalled e ev) s)"

lemma SignalEvent_high:
  assumes "settled s" and "30 \<le> unat (TPL s)" and "2 \<le> n"
  shows "\<exists>st. SignalEvent cb n e s = Ret (st, sig e s)"
proof (cases "Events s e")
  case None
  then show ?thesis by (simp add: SignalEvent_def sig_def)
next
  case (Some ev)
  have "unat (NotifyTpl ev) < 31" using exec_invD(5) [OF settledD(1) [OF assms(1)] Some] by (simp add: event_ok_def)
  then have "NotifyTpl ev \<le> TPL s" using assms(2) by (simp add: word_le_nat_alt)
  then show ?thesis using SignalEvent_quiet [OF assms(1) Some assms(3)] by (simp add: sig_def Some)
qed

text \<open>What signalling leaves alone of an event.\<close>

definition same_but_signal :: "IEVENT \<Rightarrow> IEVENT \<Rightarrow> bool" where
  "same_but_signal ev ev' \<longleftrightarrow> (\<exists>c b. ev' = ev\<lparr>SignalCount := c, NotifyLink := b\<rparr>)"

lemma same_but_signalD:
  assumes "same_but_signal ev ev'"
  shows "TimerLink ev' = TimerLink ev" "TriggerTime ev' = TriggerTime ev" "Period ev' = Period ev" "EvType ev' = EvType ev"
    "NotifyTpl ev' = NotifyTpl ev" "NotifyFunction ev' = NotifyFunction ev" "NotifyContext ev' = NotifyContext ev"
    "RuntimeLink ev' = RuntimeLink ev" "SignalLink ev' = SignalLink ev"
  using assms by (auto simp: same_but_signal_def)

lemma same_but_signal_refl [simp]: "same_but_signal ev ev"
  unfolding same_but_signal_def by (rule exI [of _ "SignalCount ev"], rule exI [of _ "NotifyLink ev"]) simp

lemma sig_event:
  "Events (sig e s) x =
     (if x = e then map_option (\<lambda>ev. if SignalCount ev \<noteq> 0 then ev
                   else if EvType ev AND EVT_NOTIFY_SIGNAL \<noteq> 0 then ev\<lparr>SignalCount := 1, NotifyLink := True\<rparr>
                   else ev\<lparr>SignalCount := 1\<rparr>) (Events s e)
      else Events s x)"
  by (auto simp: sig_def signalled_def notified_def counted_def split: option.splits)

lemma sig_signalled:
  assumes "Events s e = Some ev"
  shows "\<exists>ev'. Events (sig e s) e = Some ev' \<and> same_but_signal ev ev' \<and> SignalCount ev' \<noteq> 0"
proof -
  have "same_but_signal ev (ev\<lparr>SignalCount := 1\<rparr>)"
    unfolding same_but_signal_def by (rule exI [of _ 1], rule exI [of _ "NotifyLink ev"]) simp
  moreover have "same_but_signal ev (ev\<lparr>SignalCount := 1, NotifyLink := True\<rparr>)"
    unfolding same_but_signal_def by blast
  ultimately show ?thesis using assms by (simp add: sig_event)
qed

lemma survives_sig: "survives s x evx \<Longrightarrow> survives (sig e s) x evx"
proof -
  assume "survives s x evx"
  then obtain ev where ev: "Events s x = Some ev" "NotifyTpl ev = NotifyTpl evx" "EvType ev = EvType evx"
    by (auto simp: survives_def)
  then show ?thesis
    using sig_signalled [of s x ev] same_but_signalD(4,5) by (cases "x = e") (auto simp: survives_def sig_event)
qed

lemma sig_other: "x \<noteq> e \<Longrightarrow> Events (sig e s) x = Events s x"
  by (simp add: sig_event)

lemma sig_simps [simp]:
  "TPL (sig e s) = TPL s"
  "EfiTimerList (sig e s) = EfiTimerList s"
  "EfiSystemTime (sig e s) = EfiSystemTime s"
  "EfiCheckTimerEvent (sig e s) = EfiCheckTimerEvent s"
  "Locks (sig e s) EfiTimerListLock = Locks s EfiTimerListLock"
  "Locks (sig e s) EfiSystemTimeLock = Locks s EfiSystemTimeLock"
  by (auto simp: sig_def critical_def signalled_def notified_def counted_def split: option.splits)

lemma settled_sig:
  assumes "settled s" and "30 \<le> unat (TPL s)"
  shows "settled (sig e s)"
proof (cases "Events s e")
  case (Some ev)
  have "exec_inv (signalled e ev (AcquireLock EventQueueLock s))"
    by (rule signal_locked_eq) (use settledD(1) [OF assms(1)] Some in simp_all)
  then have "exec_inv (sig e s)" by (simp add: sig_def Some critical_def)
  then show ?thesis using settled_high [of "sig e s"] assms settledD(2) by auto
qed (use assms in \<open>simp add: sig_def\<close>)

lemma CurrentSystemTime_high:
  assumes "settled s" and "2 \<le> n"
  shows "CurrentSystemTime cb n s = Ret (EfiSystemTime s, critical EfiSystemTimeLock (\<lambda>s. s) s)"
    and "settled (critical EfiSystemTimeLock (\<lambda>s. s) s)"
proof -
  have "ReleaseLock cb n EfiSystemTimeLock (AcquireLock EfiSystemTimeLock s) = Ret (critical EfiSystemTimeLock (\<lambda>s. s) s)"
    by (rule critical_quiet [OF assms(1), of "\<lambda>s. s"]) (use settledD [OF assms(1)] assms(2) in simp_all)
  then show "CurrentSystemTime cb n s = Ret (EfiSystemTime s, critical EfiSystemTimeLock (\<lambda>s. s) s)"
    by (simp add: CurrentSystemTime_def Let_def)
  show "settled (critical EfiSystemTimeLock (\<lambda>s. s) s)"
    by (rule settled_critical [OF assms(1)]) (use settledD [OF assms(1)] in simp_all)
qed

lemma CurrentSystemTime_no_fuel: "n < 2 \<Longrightarrow> CurrentSystemTime cb n s = NoFuel"
  by (simp add: CurrentSystemTime_def Let_def ReleaseLock_no_fuel)

section \<open>The loop over the expired timers\<close>

text \<open>One iteration, for the timer at the head of the list.\<close>

definition next_trigger :: "UINT64 \<Rightarrow> IEVENT \<Rightarrow> UINT64" where
  "next_trigger now ev =
     (if TriggerTime ev + Period ev \<le> now then now else TriggerTime ev + Period ev)"

definition untimed :: "UINTN \<Rightarrow> IEVENT \<Rightarrow> UINTN list \<Rightarrow> 'x exec_scheme \<Rightarrow> 'x exec_scheme" where
  "untimed e ev es s = s\<lparr>EfiTimerList := es, Events := (Events s)(e \<mapsto> ev\<lparr>TimerLink := False\<rparr>)\<rparr>"

text \<open>
  What an iteration for \<open>e\<close> does: the event is signalled; a periodic one is armed again, any other
  leaves the list; of the other events, \<open>EfiCheckTimerEvent\<close> may have been signalled.
\<close>

definition timer_step :: "UINT64 \<Rightarrow> UINTN \<Rightarrow> IEVENT \<Rightarrow> 'x exec_scheme \<Rightarrow> 'x exec_scheme \<Rightarrow> bool" where
  "timer_step now e ev s s' \<longleftrightarrow>
     (\<exists>ev1 ev'. Events s' e = Some ev' \<and> same_but_signal ev ev1 \<and> SignalCount ev' \<noteq> 0 \<and>
        ev' = ev1\<lparr>TimerLink := (Period ev \<noteq> 0),
                  TriggerTime := (if Period ev \<noteq> 0 then next_trigger now ev else TriggerTime ev)\<rparr>) \<and>
     (\<forall>x evx. x \<noteq> e \<and> Events s x = Some evx \<longrightarrow>
        (\<exists>evx'. Events s' x = Some evx' \<and> same_but_signal evx evx' \<and>
           (evx' = evx \<or> SignalCount evx' \<noteq> 0 \<and> x = EfiCheckTimerEvent s))) \<and>
     set (EfiTimerList s') = (if Period ev \<noteq> 0 then set (EfiTimerList s) else set (EfiTimerList s) - {e}) \<and>
     length (EfiTimerList s') = (if Period ev \<noteq> 0 then length (EfiTimerList s) else length (EfiTimerList s) - 1) \<and>
     EfiCheckTimerEvent s' = EfiCheckTimerEvent s \<and> EfiSystemTime s' = EfiSystemTime s \<and>
     Locks s' EfiTimerListLock = Locks s EfiTimerListLock \<and> TPL s' = TPL s"

lemma rearm_eq:
  assumes "settled s" and "30 \<le> unat (TPL s)" and "2 \<le> n"
    and "Events s e = Some ev" and "\<not> TimerLink ev" and "SignalCount ev \<noteq> 0" and "EvType ev AND EVT_TIMER \<noteq> 0"
  shows "\<exists>s'. rearm cb n now e ev s = Ret s' \<and> settled s' \<and> TPL s' = TPL s \<and>
     Events s' e = Some (ev\<lparr>TriggerTime := next_trigger now ev, TimerLink := True\<rparr>) \<and>
     (\<forall>x evx. x \<noteq> e \<and> Events s x = Some evx \<longrightarrow>
        (\<exists>evx'. Events s' x = Some evx' \<and> same_but_signal evx evx' \<and>
           (evx' = evx \<or> SignalCount evx' \<noteq> 0 \<and> x = EfiCheckTimerEvent s))) \<and>
     set (EfiTimerList s') = insert e (set (EfiTimerList s)) \<and>
     length (EfiTimerList s') = Suc (length (EfiTimerList s)) \<and>
     EfiCheckTimerEvent s' = EfiCheckTimerEvent s \<and> EfiSystemTime s' = EfiSystemTime s \<and>
     Locks s' EfiTimerListLock = Locks s EfiTimerListLock"
proof -
  let ?ev = "ev\<lparr>TriggerTime := next_trigger now ev\<rparr>"
  define s2 where "s2 = s\<lparr>Events := (Events s)(e \<mapsto> ?ev)\<rparr>"
  define s3 where "s3 = (if TriggerTime ev + Period ev \<le> now then sig (EfiCheckTimerEvent s2) s2 else s2)"
  have "e \<notin> set (EfiTimerList s)"
    by (rule linked_notin [OF lists_invD(1) [OF settledD(1) [OF assms(1)]]]) (use assms(4,5) in auto)
  then have "exec_inv (s\<lparr>EfiTimerList := EfiTimerList s, Events := (Events s)(e \<mapsto> ?ev)\<rparr>)"
    using exec_inv_untimer [OF settledD(1) [OF assms(1)] assms(4), of ?ev] assms(5) by (simp add: remove1_idem)
  then have i2: "settled s2"
    using settled_high [of s2] assms(2) settledD(2) [OF assms(1)] by (simp add: s2_def)
  then have i3: "settled s3" using settled_sig [of s2] assms(2) by (simp add: s3_def s2_def)
  have e3: "Events s3 e = Some ?ev"
    using assms(6) by (auto simp: s3_def s2_def sig_event)
  have body: "rearm cb n now e ev s = InsertEventTimer e s3"
    using SignalEvent_high [OF i2 _ assms(3), of cb "EfiCheckTimerEvent s2"] assms(2,4)
    by (auto simp: rearm_def Let_def s3_def s2_def upd_event_def next_trigger_def)
  define s4 where "s4 = timer_inserted e ?ev s3"
  have r: "rearm cb n now e ev s = Ret s4"
    unfolding body s4_def by (rule InsertEventTimer_eq [OF settledD(1) [OF i3] e3])
  have "exec_inv s4"
    unfolding s4_def by (rule exec_inv_inserted [OF settledD(1) [OF i3] e3]) (simp_all add: assms(5,7))
  then have i4: "settled s4"
    using settled_high [of s4] assms(2) settledD(2) [OF assms(1)] by (simp add: s4_def timer_inserted_def s3_def s2_def)
  have L: "EfiTimerList s3 = EfiTimerList s" by (simp add: s3_def s2_def)
  have other: "\<exists>evx'. Events s4 x = Some evx' \<and> same_but_signal evx evx' \<and>
           (evx' = evx \<or> SignalCount evx' \<noteq> 0 \<and> x = EfiCheckTimerEvent s)" if "x \<noteq> e" "Events s x = Some evx" for x evx
  proof -
    have "Events s2 x = Some evx" using that by (simp add: s2_def)
    moreover have "Events s4 x = Events s3 x" using that by (simp add: s4_def timer_inserted_def)
    moreover have "Events s3 x = Events s2 x \<or> x = EfiCheckTimerEvent s \<and> Events s3 x = Events (sig x s2) x"
      by (auto simp: s3_def s2_def sig_event)
    ultimately show ?thesis using sig_signalled [of s2 x evx] by auto
  qed
  have "set (takeWhile P xs @ e # dropWhile P xs) = insert e (set xs)" for P and xs :: "UINTN list"
    by (metis insert_is_Un list.simps(15) set_append sup_left_commute takeWhile_dropWhile_id)
  moreover have "length (takeWhile P xs @ e # dropWhile P xs) = Suc (length xs)" for P and xs :: "UINTN list"
    by (metis add_Suc_right length_Cons length_append takeWhile_dropWhile_id)
  ultimately show ?thesis
    using r i4 other L
    by (intro exI [of _ s4]) (simp add: s4_def timer_inserted_def; simp add: s3_def s2_def)
qed

lemma loop_iteration:
  assumes "settled s" and "30 \<le> unat (TPL s)" and "2 \<le> n"
    and "EfiTimerList s = e # es" and "Events s e = Some ev" and "TriggerTime ev \<le> now"
  shows "\<exists>s'. check_timers_loop cb n (Suc k) now s = check_timers_loop cb n k now s' \<and> settled s' \<and> timer_step now e ev s s'"
proof -
  note inv = settledD(1) [OF assms(1)]
  have "TimerLink ev" using linkedD(2) [OF lists_invD(1) [OF inv], of e] assms(4,5) by auto
  then have timed: "EvType ev AND EVT_TIMER \<noteq> 0" using exec_invD(5) [OF inv assms(5)] by (simp add: event_ok_def)
  have dist: "distinct (e # es)" using linkedD(1) [OF lists_invD(1) [OF inv]] assms(4) by simp
  let ?s1 = "untimed e ev es s" and ?ev = "ev\<lparr>TimerLink := False\<rparr>"
  have "exec_inv ?s1"
    using exec_inv_untimer [OF inv assms(5), of ?ev] assms(4) by (simp add: untimed_def)
  then have i1: "settled ?s1" using settled_high [of ?s1] assms(2) settledD(2) [OF assms(1)] by (simp add: untimed_def)
  have e1: "Events ?s1 e = Some ?ev" by (simp add: untimed_def)
  have t1: "30 \<le> unat (TPL ?s1)" using assms(2) by (simp add: untimed_def)
  obtain st where sg: "SignalEvent cb n e ?s1 = Ret (st, sig e ?s1)" using SignalEvent_high [OF i1 t1 assms(3)] by blast
  obtain ev2 where ev2: "Events (sig e ?s1) e = Some ev2" "same_but_signal ?ev ev2" "SignalCount ev2 \<noteq> 0"
    using sig_signalled [OF e1] by blast
  have i2: "settled (sig e ?s1)" by (rule settled_sig [OF i1 t1])
  note f2 = same_but_signalD [OF ev2(2)]
  obtain c b where cb2: "ev2 = ?ev\<lparr>SignalCount := c, NotifyLink := b\<rparr>" using ev2(2) by (auto simp: same_but_signal_def)
  have oth: "Events (sig e ?s1) x = Events s x" if "x \<noteq> e" for x using that by (simp add: sig_other untimed_def)
  have step: "check_timers_loop cb n (Suc k) now s =
      bind_run (if Period ev \<noteq> 0 then rearm cb n now e ev2 (sig e ?s1) else Ret (sig e ?s1)) (check_timers_loop cb n k now)"
    using assms(4-6) sg ev2(1) f2(3) by (simp add: untimed_def upd_event_def leD)
  let ?ev1 = "ev\<lparr>SignalCount := c, NotifyLink := b\<rparr>"
  have ev1: "same_but_signal ev ?ev1" unfolding same_but_signal_def by blast
  show ?thesis
  proof (cases "Period ev = 0")
    case True
    have "timer_step now e ev s (sig e ?s1)"
      unfolding timer_step_def using True ev1 ev2(1,3) dist assms(4) oth cb2
      by (auto intro!: exI [of _ ?ev1] simp: untimed_def)
    then show ?thesis using step True i2 by auto
  next
    case False
    have nt: "next_trigger now ev2 = next_trigger now ev" using f2 by (simp add: next_trigger_def)
    obtain s' where s': "rearm cb n now e ev2 (sig e ?s1) = Ret s'" "settled s'" "TPL s' = TPL s"
      "Events s' e = Some (ev2\<lparr>TriggerTime := next_trigger now ev, TimerLink := True\<rparr>)"
      "\<forall>x evx. x \<noteq> e \<and> Events s x = Some evx \<longrightarrow>
        (\<exists>evx'. Events s' x = Some evx' \<and> same_but_signal evx evx' \<and>
           (evx' = evx \<or> SignalCount evx' \<noteq> 0 \<and> x = EfiCheckTimerEvent s))"
      "set (EfiTimerList s') = insert e (set es)" "length (EfiTimerList s') = Suc (length es)"
      "EfiCheckTimerEvent s' = EfiCheckTimerEvent s" "EfiSystemTime s' = EfiSystemTime s"
      "Locks s' EfiTimerListLock = Locks s EfiTimerListLock"
      using rearm_eq [OF i2 _ assms(3) ev2(1) _ ev2(3), of cb now] t1 f2(1,4) oth nt timed by (auto simp: untimed_def)
    have "timer_step now e ev s s'"
      unfolding timer_step_def using False ev1 s' ev2(3) assms(4) cb2
      by (auto intro!: exI [of _ ?ev1])
    then show ?thesis using step False s'(1,2) by auto
  qed
qed

text \<open>The effect of the loop on one event; \<open>chk\<close> tells whether it is \<open>EfiCheckTimerEvent\<close>.\<close>

definition ev_done :: "UINT64 \<Rightarrow> bool \<Rightarrow> IEVENT \<Rightarrow> IEVENT \<Rightarrow> bool" where
  "ev_done now chk ev ev' \<longleftrightarrow>
     EvType ev' = EvType ev \<and> NotifyTpl ev' = NotifyTpl ev \<and> NotifyFunction ev' = NotifyFunction ev \<and>
     NotifyContext ev' = NotifyContext ev \<and> Period ev' = Period ev \<and>
     (if TimerLink ev \<and> TriggerTime ev \<le> now
      then SignalCount ev' \<noteq> 0 \<and> TimerLink ev' = (Period ev \<noteq> 0) \<and>
           (Period ev = 0 \<or> TriggerTime ev' =
              (if TriggerTime ev + Period ev \<le> now then now else TriggerTime ev) + Period ev)
      else TimerLink ev' = TimerLink ev \<and> TriggerTime ev' = TriggerTime ev \<and>
           (SignalCount ev' = SignalCount ev \<or> SignalCount ev' \<noteq> 0 \<and> chk))"

definition timers_done :: "UINT64 \<Rightarrow> 'x exec_scheme \<Rightarrow> 'x exec_scheme \<Rightarrow> bool" where
  "timers_done now s s' \<longleftrightarrow>
     (\<forall>x ev. Events s x = Some ev \<longrightarrow>
        (\<exists>ev'. Events s' x = Some ev' \<and> ev_done now (x = EfiCheckTimerEvent s) ev ev'))"

text \<open>No period reaches around the end of the 64-bit time.\<close>

definition periods_ok :: "UINT64 \<Rightarrow> 'x exec_scheme \<Rightarrow> bool" where
  "periods_ok now s \<longleftrightarrow> (\<forall>x ev. Events s x = Some ev \<and> TimerLink ev \<and> Period ev \<noteq> 0 \<longrightarrow> now < now + Period ev)"

definition weight :: "UINT64 \<Rightarrow> IEVENT \<Rightarrow> nat" where
  "weight now ev =
     (if now < TriggerTime ev then 0 else if Period ev \<noteq> 0 \<and> TriggerTime ev + Period ev \<le> now then 2 else 1)"

definition work :: "UINT64 \<Rightarrow> 'x exec_scheme \<Rightarrow> nat" where
  "work now s = (\<Sum>x\<in>set (EfiTimerList s). case Events s x of Some ev \<Rightarrow> weight now ev | None \<Rightarrow> 0)"

lemma ev_done_step:
  assumes "same_but_signal ev ev1" and "TimerLink ev" "TriggerTime ev \<le> now"
    and "Period ev \<noteq> 0 \<Longrightarrow> now < now + Period ev"
    and "ev2 = ev1\<lparr>TimerLink := (Period ev \<noteq> 0),
                   TriggerTime := (if Period ev \<noteq> 0 then next_trigger now ev else TriggerTime ev)\<rparr>"
    and "SignalCount ev2 \<noteq> 0" and "ev_done now chk ev2 ev'"
  shows "ev_done now chk ev ev'"
  using assms(2-7) same_but_signalD [OF assms(1)]
  unfolding ev_done_def next_trigger_def by (auto split: if_splits)

lemma ev_done_other:
  assumes "same_but_signal ev ev1" and "ev1 = ev \<or> SignalCount ev1 \<noteq> 0 \<and> chk" and "ev_done now chk ev1 ev'"
  shows "ev_done now chk ev ev'"
  using assms(2,3) same_but_signalD [OF assms(1)]
  unfolding ev_done_def by (auto split: if_splits)

lemma timers_done_step:
  assumes "timer_step now e ev s s1" and "Events s e = Some ev" and "TimerLink ev" "TriggerTime ev \<le> now"
    and "Period ev \<noteq> 0 \<Longrightarrow> now < now + Period ev" and "timers_done now s1 s'"
  shows "timers_done now s s'"
  unfolding timers_done_def
proof (intro allI impI)
  fix x evx
  assume x: "Events s x = Some evx"
  have chk: "EfiCheckTimerEvent s1 = EfiCheckTimerEvent s" using assms(1) by (simp add: timer_step_def)
  show "\<exists>ev'. Events s' x = Some ev' \<and> ev_done now (x = EfiCheckTimerEvent s) evx ev'"
  proof (cases "x = e")
    case True
    obtain ev1 ev2 where ev2: "Events s1 e = Some ev2" "same_but_signal ev ev1" "SignalCount ev2 \<noteq> 0"
      "ev2 = ev1\<lparr>TimerLink := (Period ev \<noteq> 0),
                   TriggerTime := (if Period ev \<noteq> 0 then next_trigger now ev else TriggerTime ev)\<rparr>"
      using assms(1) unfolding timer_step_def by blast
    obtain ev' where "Events s' e = Some ev'" "ev_done now (e = EfiCheckTimerEvent s) ev2 ev'"
      using assms(6) ev2(1) chk unfolding timers_done_def by auto
    with ev_done_step [OF ev2(2) assms(3-5) ev2(4,3)] True x assms(2) show ?thesis by auto
  next
    case False
    then obtain ev2 where ev2: "Events s1 x = Some ev2" "same_but_signal evx ev2" "ev2 = evx \<or> SignalCount ev2 \<noteq> 0 \<and> x = EfiCheckTimerEvent s"
      using assms(1) x unfolding timer_step_def by blast
    obtain ev' where "Events s' x = Some ev'" "ev_done now (x = EfiCheckTimerEvent s) ev2 ev'"
      using assms(6) ev2(1) chk unfolding timers_done_def by auto
    with ev_done_other [OF ev2(2,3)] show ?thesis by auto
  qed
qed

lemma work_step:
  assumes "timer_step now e ev s s1" and "Events s e = Some ev" and "e \<in> set (EfiTimerList s)"
    and "\<And>x. x \<in> set (EfiTimerList s) \<Longrightarrow> Events s x \<noteq> None"
    and "TriggerTime ev \<le> now" and "Period ev \<noteq> 0 \<Longrightarrow> now < now + Period ev"
  shows "work now s1 < work now s"
proof -
  let ?w = "\<lambda>s x. case Events s x of Some ev \<Rightarrow> weight now ev | None \<Rightarrow> 0"
  let ?R = "set (EfiTimerList s) - {e}"
  have rest: "?w s1 x = ?w s x" if r: "x \<in> ?R" for x
  proof -
    from r assms(4) obtain evx where "Events s x = Some evx" by blast
    moreover from this obtain ev2 where "Events s1 x = Some ev2" "same_but_signal evx ev2"
      using assms(1) r unfolding timer_step_def by blast
    ultimately show ?thesis using same_but_signalD(2,3) by (simp add: weight_def)
  qed
  have "work now s = ?w s e + (\<Sum>x\<in>?R. ?w s x)"
    unfolding work_def by (rule sum.remove) (use assms(3) in simp_all)
  moreover have "work now s1 = (if Period ev = 0 then 0 else ?w s1 e) + (\<Sum>x\<in>?R. ?w s x)"
  proof (cases "Period ev = 0")
    case True
    then have "set (EfiTimerList s1) = ?R" using assms(1) by (simp add: timer_step_def)
    then show ?thesis unfolding work_def using True rest by simp
  next
    case False
    then have S: "set (EfiTimerList s1) = set (EfiTimerList s)" using assms(1) by (simp add: timer_step_def)
    have "work now s1 = ?w s1 e + (\<Sum>x\<in>?R. ?w s1 x)"
      unfolding work_def S by (rule sum.remove) (use assms(3) in simp_all)
    then show ?thesis using False rest by simp
  qed
  moreover have "(if Period ev = 0 then 0 else ?w s1 e) < ?w s e"
  proof -
    obtain ev1 ev2 where ev2: "Events s1 e = Some ev2" "same_but_signal ev ev1"
      "ev2 = ev1\<lparr>TimerLink := (Period ev \<noteq> 0),
                   TriggerTime := (if Period ev \<noteq> 0 then next_trigger now ev else TriggerTime ev)\<rparr>"
      using assms(1) unfolding timer_step_def by blast
    then show ?thesis
      using assms(2,5,6) same_but_signalD(3) [OF ev2(2)]
      by (auto simp: weight_def next_trigger_def leD split: if_splits)
  qed
  ultimately show ?thesis by simp
qed

lemma timers_done_idle:
  assumes "exec_inv s" and "\<And>x. x \<in> set (EfiTimerList s) \<Longrightarrow> now < trigger (Events s) x"
  shows "timers_done now s s"
  unfolding timers_done_def
proof (intro allI impI)
  fix x ev
  assume x: "Events s x = Some ev"
  have "\<not> (TimerLink ev \<and> TriggerTime ev \<le> now)"
    using linked_in [OF lists_invD(1) [OF assms(1)] x] assms(2) [of x] x by (auto simp: trigger_def)
  then show "\<exists>ev'. Events s x = Some ev' \<and> ev_done now (x = EfiCheckTimerEvent s) ev ev'"
    using x by (auto simp: ev_done_def)
qed

lemma periods_ok_step:
  assumes "timer_step now e ev s s1" and "Events s e = Some ev" and "TimerLink ev" and "periods_ok now s"
    and "exec_inv s" and "exec_inv s1"
  shows "periods_ok now s1"
  unfolding periods_ok_def
proof (intro allI impI, elim conjE)
  fix x ev'
  assume x: "Events s1 x = Some ev'" "TimerLink ev'" "Period ev' \<noteq> 0"
  then have "x \<in> set (EfiTimerList s1)" using linked_in [OF lists_invD(1) [OF assms(6)]] by blast
  then have "x \<in> set (EfiTimerList s)" using assms(1) by (auto simp: timer_step_def split: if_splits)
  then obtain evx where evx: "Events s x = Some evx" "TimerLink evx"
    using linkedD(2) [OF lists_invD(1) [OF assms(5)]] by blast
  have "Period ev' = Period evx"
  proof (cases "x = e")
    case True
    then show ?thesis using assms(1,2) x(1) evx same_but_signalD(3) unfolding timer_step_def by fastforce
  next
    case False
    then show ?thesis using assms(1) x(1) evx same_but_signalD(3) unfolding timer_step_def by fastforce
  qed
  then show "now < now + Period ev'" using assms(4) evx x(3) unfolding periods_ok_def by metis
qed

lemma check_timers_loop_correct:
  assumes "settled s" and "30 \<le> unat (TPL s)" and "2 \<le> n" and "periods_ok now s" and "work now s < k"
  shows "\<exists>s'. check_timers_loop cb n k now s = Ret s' \<and> settled s' \<and> timers_done now s s' \<and>
     (\<forall>x\<in>set (EfiTimerList s'). now < trigger (Events s') x) \<and>
     TPL s' = TPL s \<and> Locks s' EfiTimerListLock = Locks s EfiTimerListLock"
  using assms(1,2,4,5)
proof (induction k arbitrary: s)
  case (Suc k)
  note inv = settledD(1) [OF Suc.prems(1)]
  have idle: ?case if all: "\<And>x. x \<in> set (EfiTimerList s) \<Longrightarrow> now < trigger (Events s) x"
    and stop: "check_timers_loop cb n (Suc k) now s = Ret s"
    using timers_done_idle [OF inv all] all Suc.prems(1) stop by auto
  show ?case
  proof (cases "EfiTimerList s")
    case Nil
    then show ?thesis by (intro idle) simp_all
  next
    case (Cons e es)
    have dom: "x \<in> set (EfiTimerList s) \<Longrightarrow> \<exists>ev. Events s x = Some ev \<and> TimerLink ev" for x
      using linkedD(2) [OF lists_invD(1) [OF inv]] by blast
    obtain ev where ev: "Events s e = Some ev" "TimerLink ev" using dom [of e] Cons by auto
    show ?thesis
    proof (cases "now < TriggerTime ev")
      case True
      have "trigger (Events s) e \<le> trigger (Events s) x" if "x \<in> set (EfiTimerList s)" for x
        using lists_invD(2) [OF inv] that Cons by auto
      then have "now < trigger (Events s) x" if "x \<in> set (EfiTimerList s)" for x
        using that True ev by (metis less_le_trans option.simps(5) trigger_def)
      then show ?thesis using Cons ev True by (intro idle) simp_all
    next
      case False
      then have le: "TriggerTime ev \<le> now" by simp
      obtain s1 where s1: "check_timers_loop cb n (Suc k) now s = check_timers_loop cb n k now s1"
        "settled s1" "timer_step now e ev s s1"
        using loop_iteration [OF Suc.prems(1,2) assms(3) Cons ev(1) le] by blast
      have nw: "Period ev \<noteq> 0 \<Longrightarrow> now < now + Period ev" using Suc.prems(3) ev unfolding periods_ok_def by blast
      have "work now s1 < work now s"
        by (rule work_step [OF s1(3) ev(1) _ _ le nw]) (use Cons dom in auto)
      moreover have st: "TPL s1 = TPL s" "Locks s1 EfiTimerListLock = Locks s EfiTimerListLock"
        using s1(3) by (simp_all add: timer_step_def)
      ultimately obtain s' where s': "check_timers_loop cb n k now s1 = Ret s'" "settled s'" "timers_done now s1 s'"
        "\<forall>x\<in>set (EfiTimerList s'). now < trigger (Events s') x" "TPL s' = TPL s1" "Locks s' EfiTimerListLock = Locks s1 EfiTimerListLock"
        using Suc.IH [OF s1(2) _ periods_ok_step [OF s1(3) ev Suc.prems(3) inv settledD(1) [OF s1(2)]]] Suc.prems(2,4) by auto
      then show ?thesis using s1(1) timers_done_step [OF s1(3) ev le nw s'(3)] st by auto
    qed
  qed
qed simp

lemma timer_step_survives:
  assumes "timer_step now e ev s s1" and "Events s e = Some ev" and "Events s x = Some evx"
  shows "survives s1 x evx"
proof (cases "x = e")
  case True
  obtain ev1 ev2 where "Events s1 e = Some ev2" "same_but_signal ev ev1"
      "ev2 = ev1\<lparr>TimerLink := (Period ev \<noteq> 0),
                   TriggerTime := (if Period ev \<noteq> 0 then next_trigger now ev else TriggerTime ev)\<rparr>"
    using assms(1) unfolding timer_step_def by blast
  then show ?thesis using True assms(2,3) same_but_signalD(4,5) by (auto simp: survives_def)
next
  case False
  then obtain ev2 where "Events s1 x = Some ev2" "same_but_signal evx ev2"
    using assms(1,3) unfolding timer_step_def by blast
  then show ?thesis using same_but_signalD(4,5) by (auto simp: survives_def)
qed

lemma check_timers_loop_ok:
  assumes "settled s" and "30 \<le> unat (TPL s)" and "2 \<le> n"
  shows "run_ok (\<lambda>s'. settled s' \<and> TPL s' = TPL s \<and> Locks s' EfiTimerListLock = Locks s EfiTimerListLock \<and>
      (\<forall>x ev. Events s x = Some ev \<longrightarrow> survives s' x ev)) (check_timers_loop cb n k now s)"
  using assms(1,2)
proof (induction k arbitrary: s)
  case (Suc k)
  note inv = settledD(1) [OF Suc.prems(1)]
  show ?case
  proof (cases "EfiTimerList s")
    case Nil
    then show ?thesis using Suc.prems by (auto simp: survives_def)
  next
    case (Cons e es)
    obtain ev where ev: "Events s e = Some ev"
      using linkedD(2) [OF lists_invD(1) [OF inv], of e] Cons by auto
    show ?thesis
    proof (cases "now < TriggerTime ev")
      case True
      then show ?thesis using Suc.prems Cons ev by (auto simp: survives_def)
    next
      case False
      then have le: "TriggerTime ev \<le> now" by simp
      obtain s1 where s1: "check_timers_loop cb n (Suc k) now s = check_timers_loop cb n k now s1"
        "settled s1" "timer_step now e ev s s1"
        using loop_iteration [OF Suc.prems(1,2) assms(3) Cons ev le] by blast
      have "survives s1 x evx" if "Events s x = Some evx" for x evx
        using timer_step_survives [OF s1(3) ev that] .
      then have "run_ok (\<lambda>s'. settled s' \<and> TPL s' = TPL s1 \<and> Locks s' EfiTimerListLock = Locks s1 EfiTimerListLock \<and>
          (\<forall>x ev. Events s1 x = Some ev \<longrightarrow> survives s' x ev)) (check_timers_loop cb n k now s1)
          \<and> (\<forall>x ev. Events s x = Some ev \<longrightarrow> survives s1 x ev)"
        using Suc.IH [OF s1(2)] s1(3) Suc.prems(2) by (simp add: timer_step_def)
      then show ?thesis
        unfolding s1(1) using s1(3)
        by (elim conjE run_ok_mono) (unfold timer_step_def survives_def, metis)
    qed
  qed
qed simp

section \<open>The timer services keep the invariant\<close>

lemma critical_time_simps [simp]:
  "TPL (critical EfiSystemTimeLock (\<lambda>s. s) s) = TPL s"
  "EfiTimerList (critical EfiSystemTimeLock (\<lambda>s. s) s) = EfiTimerList s"
  "EfiCheckTimerEvent (critical EfiSystemTimeLock (\<lambda>s. s) s) = EfiCheckTimerEvent s"
  "EfiSystemTime (critical EfiSystemTimeLock (\<lambda>s. s) s) = EfiSystemTime s"
  "Locks (critical EfiSystemTimeLock (\<lambda>s. s) s) EfiTimerListLock = Locks s EfiTimerListLock"
  by (simp_all add: critical_def)

text \<open>The state in which \<open>CheckTimers\<close> and \<open>SetTimer\<close> run, and their reading of the time.\<close>

abbreviation in_timer_section :: "'x exec_scheme \<Rightarrow> 'x exec_scheme" where
  "in_timer_section s \<equiv> critical EfiSystemTimeLock (\<lambda>s. s) (AcquireLock EfiTimerListLock s)"

lemma in_timer_section:
  assumes "exec_inv s" and "2 \<le> n"
  shows "CurrentSystemTime cb n (AcquireLock EfiTimerListLock s) = Ret (EfiSystemTime s, in_timer_section s)"
    and "settled (in_timer_section s)"
    and "unat (TPL (in_timer_section s)) = 30"
    and "OwnerTpl (Locks (in_timer_section s) EfiTimerListLock) = TPL s"
    and "Events (in_timer_section s) = Events s"
  using CurrentSystemTime_high [OF settled_acquire_timer(1) [OF assms(1)] assms(2)]
    settled_acquire_timer(2) [OF assms(1)] by simp_all

lemma keeps_all: "(\<And>x ev. Events s x = Some ev \<Longrightarrow> survives s' x ev) \<Longrightarrow> keeps_events p s s'"
  by (simp add: keeps_events_def)

lemma run_ok_bindI: "run_ok (\<lambda>x. run_ok P (f x)) m \<Longrightarrow> run_ok P (bind_run m f)"
  by (cases m) simp_all

lemma Events_idem: "Events s e = Some ev \<Longrightarrow> s\<lparr>Events := (Events s)(e \<mapsto> ev)\<rparr> = s"
  by (simp add: fun_upd_idem)

text \<open>An event before it is armed again, and the effect of arming it.\<close>

definition disarmed :: "UINTN \<Rightarrow> IEVENT \<Rightarrow> 'x exec_scheme \<Rightarrow> 'x exec_scheme" where
  "disarmed e ev s =
     s\<lparr>EfiTimerList := remove1 e (EfiTimerList s),
       Events := (Events s)(e \<mapsto> ev\<lparr>TimerLink := False, TriggerTime := 0, Period := 0\<rparr>)\<rparr>"

lemma disarm_eq:
  assumes "exec_inv s" and "Events s e = Some ev"
  shows "upd_event e (\<lambda>ev. ev\<lparr>TriggerTime := 0, Period := 0\<rparr>)
      (if TimerLink ev then upd_event e (\<lambda>ev. ev\<lparr>TimerLink := False\<rparr>) (s\<lparr>EfiTimerList := remove1 e (EfiTimerList s)\<rparr>) else s)
    = disarmed e ev s"
    and "exec_inv (disarmed e ev s)"
proof -
  have "\<not> TimerLink ev \<Longrightarrow> remove1 e (EfiTimerList s) = EfiTimerList s"
    using linked_notin [OF lists_invD(1) [OF assms(1)], of e] assms(2) by (auto intro: remove1_idem)
  then show "upd_event e (\<lambda>ev. ev\<lparr>TriggerTime := 0, Period := 0\<rparr>)
      (if TimerLink ev then upd_event e (\<lambda>ev. ev\<lparr>TimerLink := False\<rparr>) (s\<lparr>EfiTimerList := remove1 e (EfiTimerList s)\<rparr>) else s)
    = disarmed e ev s"
    using assms(2) by (cases ev) (auto simp: upd_event_def disarmed_def)
  show "exec_inv (disarmed e ev s)"
    unfolding disarmed_def by (rule exec_inv_untimer [OF assms]) simp_all
qed

definition armed :: "int \<Rightarrow> UINT64 \<Rightarrow> UINT64 \<Rightarrow> IEVENT \<Rightarrow> IEVENT" where
  "armed Type Trigger now ev =
     ev\<lparr>TimerLink := True, TriggerTime := now + Trigger, Period := (if Type = TimerPeriodic then Trigger else 0)\<rparr>"

lemma arm_timer_eq:
  assumes "settled s" and "unat (TPL s) = 30" and "2 \<le> n"
    and "Events s e = Some ev0" and "ev0 = ev\<lparr>TimerLink := False, TriggerTime := 0, Period := 0\<rparr>"
    and "EvType ev AND EVT_TIMER \<noteq> 0"
  shows "\<exists>s1. arm_timer cb n e Type Trigger s = Ret (if Trigger = 0 then sig (EfiCheckTimerEvent s) s1 else s1) \<and>
     settled s1 \<and> TPL s1 = TPL s \<and> EventPending s1 = EventPending s \<and>
     Events s1 = (Events s)(e \<mapsto> armed Type Trigger (EfiSystemTime s) ev) \<and>
     set (EfiTimerList s1) = insert e (set (EfiTimerList s)) \<and> EfiCheckTimerEvent s1 = EfiCheckTimerEvent s \<and>
     Locks s1 EfiTimerListLock = Locks s EfiTimerListLock"
proof -
  define ev1 where "ev1 = ev0\<lparr>Period := (if Type = TimerPeriodic then Trigger else 0)\<rparr>"
  define s1 where "s1 = s\<lparr>Events := (Events s)(e \<mapsto> ev1)\<rparr>"
  have u1: "(if Type = TimerPeriodic then upd_event e (\<lambda>ev. ev\<lparr>Period := Trigger\<rparr>) s else s) = s1"
    using assms(4,5) by (auto simp: s1_def ev1_def upd_event_def Events_idem)
  have "exec_inv s1"
    unfolding s1_def by (rule exec_inv_upd [OF settledD(1) [OF assms(1)] assms(4)]) (simp_all add: ev1_def)
  then have i1: "settled s1" using settled_high [of s1] assms(2) by (simp add: s1_def)
  let ?s2 = "critical EfiSystemTimeLock (\<lambda>s. s) s1"
  have now: "CurrentSystemTime cb n s1 = Ret (EfiSystemTime s, ?s2)" and i2: "settled ?s2"
    using CurrentSystemTime_high [OF i1 assms(3)] by (simp_all add: s1_def)
  define ev3 where "ev3 = ev1\<lparr>TriggerTime := EfiSystemTime s + Trigger\<rparr>"
  define s3 where "s3 = ?s2\<lparr>EfiTimerList := remove1 e (EfiTimerList s), Events := (Events ?s2)(e \<mapsto> ev3)\<rparr>"
  have e2: "Events ?s2 e = Some ev1" by (simp add: s1_def)
  have nl: "\<not> TimerLink ev1" "\<not> TimerLink ev3" using assms(5) by (simp_all add: ev1_def ev3_def)
  have rem: "remove1 e (EfiTimerList s) = EfiTimerList s"
    by (rule remove1_idem, rule linked_notin [OF lists_invD(1) [OF settledD(1) [OF assms(1)]]]) (use assms(4,5) in auto)
  have i3: "exec_inv s3"
    using exec_inv_untimer [OF settledD(1) [OF i2] e2, of ev3] nl by (simp add: s3_def ev3_def s1_def)
  have u3: "upd_event e (\<lambda>ev. ev\<lparr>TriggerTime := EfiSystemTime s + Trigger\<rparr>) ?s2 = s3"
    using e2 rem by (simp add: upd_event_def s3_def ev3_def) (simp add: critical_def released_def AcquireLock_def RaiseTPL_def Let_def s1_def)
  have e3: "Events s3 e = Some ev3" by (simp add: s3_def)
  define s4 where "s4 = timer_inserted e ev3 s3"
  have ins: "InsertEventTimer e s3 = Ret s4" unfolding s4_def by (rule InsertEventTimer_eq [OF i3 e3])
  have "exec_inv s4" unfolding s4_def
    by (rule exec_inv_inserted [OF i3 e3 nl(2)]) (use assms(5,6) in \<open>simp add: ev3_def ev1_def\<close>)
  moreover have t4: "TPL s4 = TPL s" by (simp add: s4_def timer_inserted_def s3_def s1_def)
  ultimately have i4: "settled s4" using settled_high [of s4] assms(2) by simp
  have c4: "EfiCheckTimerEvent s4 = EfiCheckTimerEvent s" by (simp add: s4_def timer_inserted_def s3_def s1_def)
  obtain st where "SignalEvent cb n (EfiCheckTimerEvent s) s4 = Ret (st, sig (EfiCheckTimerEvent s) s4)"
    using SignalEvent_high [OF i4 _ assms(3)] assms(2) t4 by auto
  then have body: "arm_timer cb n e Type Trigger s = Ret (if Trigger = 0 then sig (EfiCheckTimerEvent s) s4 else s4)"
    using now ins c4 by (simp add: arm_timer_def Let_def u1 u3)
  have "set (takeWhile P xs @ e # dropWhile P xs) = insert e (set xs)" for P and xs :: "UINTN list"
    by (metis insert_is_Un list.simps(15) set_append sup_left_commute takeWhile_dropWhile_id)
  then have "set (EfiTimerList s4) = insert e (set (EfiTimerList s))"
    by (simp add: s4_def timer_inserted_def s3_def rem)
  moreover have "Events s4 = (Events s)(e \<mapsto> armed Type Trigger (EfiSystemTime s) ev)"
    using assms(5) by (auto simp: s4_def timer_inserted_def s3_def s1_def ev3_def ev1_def armed_def)
  ultimately show ?thesis
    using body i4 t4 c4 by (intro exI [of _ s4]) (simp add: s4_def timer_inserted_def s3_def s1_def)
qed

context notify_contract
begin

lemma CheckTimers_ok:
  assumes "settled s"
  shows "run_ok (steps s) (CheckTimers cb n k e c s)"
proof (cases "n < 2")
  case True
  then show ?thesis by (simp add: CheckTimers_def CurrentSystemTime_no_fuel)
next
  case False
  then have n: "2 \<le> n" by simp
  note sec = in_timer_section [OF settledD(1) [OF assms] n]
  have "run_ok (\<lambda>s'. run_ok (steps s) (ReleaseLock cb n EfiTimerListLock s'))
      (check_timers_loop cb n k (EfiSystemTime s) (in_timer_section s))"
  proof (rule run_ok_mono [OF check_timers_loop_ok [OF sec(2) _ n]])
    fix s' :: "'x exec_scheme"
    assume s': "settled s' \<and> TPL s' = TPL (in_timer_section s) \<and>
      Locks s' EfiTimerListLock = Locks (in_timer_section s) EfiTimerListLock \<and>
      (\<forall>x ev. Events (in_timer_section s) x = Some ev \<longrightarrow> survives s' x ev)"
    show "run_ok (steps s) (ReleaseLock cb n EfiTimerListLock s')"
      by (rule section_end) (use s' sec(4,5) settledD(2) [OF assms] in \<open>auto simp: settled_def intro: keeps_all\<close>)
  qed (use sec(3) in simp)
  then show ?thesis by (simp add: CheckTimers_def sec(1) run_ok_bindI)
qed

lemma SetTimer_ok:
  assumes "settled s"
  shows "run_ok (\<lambda>(st, s'). steps s s') (SetTimer cb n e Type Trigger s)"
proof (cases "Events s e")
  case None
  then show ?thesis using steps_refl [OF assms] by (simp add: SetTimer_def)
next
  case (Some ev)
  let ?a = "AcquireLock EfiTimerListLock s"
  note ia = settled_acquire_timer(1,2) [OF settledD(1) [OF assms]]
  have ea: "Events ?a e = Some ev" using Some by simp
  note dis = disarm_eq [OF settledD(1) [OF ia(1)] ea]
  let ?d = "disarmed e ev ?a"
  have d: "settled ?d" "unat (TPL ?d) = 30" "Events ?d e = Some (ev\<lparr>TimerLink := False, TriggerTime := 0, Period := 0\<rparr>)"
    "OwnerTpl (Locks ?d EfiTimerListLock) = TPL s"
    using settled_high [of ?d] dis(2) ia(2) by (simp_all add: disarmed_def)
  have release: "run_ok (steps s) (ReleaseLock cb n EfiTimerListLock s')"
    if "settled s'" "OwnerTpl (Locks s' EfiTimerListLock) = TPL s" "\<And>x evx. Events s x = Some evx \<Longrightarrow> survives s' x evx" for s'
    by (rule section_end) (use that settledD(2) [OF assms] in \<open>auto simp: settled_def intro: keeps_all\<close>)
  have rd: "run_ok (steps s) (ReleaseLock cb n EfiTimerListLock ?d)"
    by (rule release) (use d Some in \<open>auto simp: survives_def disarmed_def\<close>)
  have ra: "run_ok (\<lambda>s'. run_ok (steps s) (ReleaseLock cb n EfiTimerListLock s')) (arm_timer cb n e Type Trigger ?d)"
    if timed: "EvType ev AND EVT_TIMER \<noteq> 0"
  proof (cases "n < 2")
    case True
    then show ?thesis by (simp add: arm_timer_def CurrentSystemTime_no_fuel)
  next
    case False
    then obtain s1 where s1: "arm_timer cb n e Type Trigger ?d = Ret (if Trigger = 0 then sig (EfiCheckTimerEvent ?d) s1 else s1)"
      "settled s1" "TPL s1 = TPL ?d" "Events s1 = (Events ?d)(e \<mapsto> armed Type Trigger (EfiSystemTime ?d) ev)"
      "Locks s1 EfiTimerListLock = Locks ?d EfiTimerListLock"
      using arm_timer_eq [OF d(1,2) _ d(3) refl timed, of n cb Type Trigger] by auto
    have sv: "survives s1 x evx" if "Events s x = Some evx" for x evx
      using that Some s1(4) by (auto simp: survives_def disarmed_def armed_def)
    have "survives (sig (EfiCheckTimerEvent ?d) s1) x evx" if "Events s x = Some evx" for x evx
      using sv [OF that] by (rule survives_sig)
    moreover have "settled (sig (EfiCheckTimerEvent ?d) s1)" by (rule settled_sig [OF s1(2)]) (simp add: s1(3) d(2))
    ultimately show ?thesis
      unfolding s1(1) using release [of s1] release [of "sig (EfiCheckTimerEvent ?d) s1"] s1 sv d(4) by simp
  qed
  have "run_ok (\<lambda>s4. run_ok (\<lambda>(st, s'). steps s s') (bind_run (ReleaseLock cb n EfiTimerListLock s4) (\<lambda>s5. Ret (EFI_SUCCESS, s5))))
      (if Type \<noteq> TimerCancel then arm_timer cb n e Type Trigger ?d else Ret ?d)" if "EvType ev AND EVT_TIMER \<noteq> 0"
    using rd ra [OF that] by (auto elim!: run_ok_mono intro: run_ok_bind)
  from run_ok_bindI [OF this] show ?thesis
    using Some steps_refl [OF assms] dis(1) by (cases "Type = TimerCancel") (simp_all add: SetTimer_def Let_def)
qed

lemma FwTimerTick_ok:
  assumes "settled s"
  shows "run_ok (steps s) (FwTimerTick cb n Duration s)"
proof -
  let ?a = "(AcquireLock EfiSystemTimeLock s)\<lparr>EfiSystemTime := EfiSystemTime s + Duration\<rparr>"
  have ia: "settled ?a" "unat (TPL ?a) = 31"
    using settled_acquire_timer(3,4) [OF settledD(1) [OF assms]] settled_high [of ?a] by (simp_all add: settled_def)
  have release: "run_ok (steps s) (ReleaseLock cb n EfiSystemTimeLock s')"
    if "settled s'" "OwnerTpl (Locks s' EfiSystemTimeLock) = TPL s" "\<And>x evx. Events s x = Some evx \<Longrightarrow> survives s' x evx" for s'
    by (rule section_end) (use that settledD(2) [OF assms] in \<open>auto simp: settled_def intro: keeps_all\<close>)
  have ra: "run_ok (steps s) (ReleaseLock cb n EfiSystemTimeLock ?a)"
    by (rule release) (use ia in \<open>auto simp: survives_def\<close>)
  have rs: "run_ok (\<lambda>(st, s'). run_ok (steps s) (ReleaseLock cb n EfiSystemTimeLock s')) (SignalEvent cb n (EfiCheckTimerEvent s) ?a)"
  proof (cases "n < 2")
    case True
    show ?thesis
    proof (cases "Events s (EfiCheckTimerEvent s)")
      case None
      then show ?thesis using ra by (simp add: SignalEvent_def)
    next
      case (Some ev)
      then show ?thesis
        using True signal_locked_eq(1) [of "AcquireLock EventQueueLock ?a" "EfiCheckTimerEvent s" ev] settledD(1) [OF ia(1)]
        by (simp add: SignalEvent_def ReleaseLock_no_fuel)
    qed
  next
    case False
    then obtain st where "SignalEvent cb n (EfiCheckTimerEvent s) ?a = Ret (st, sig (EfiCheckTimerEvent s) ?a)"
      using SignalEvent_high [OF ia(1)] ia(2) by fastforce
    moreover have "run_ok (steps s) (ReleaseLock cb n EfiSystemTimeLock (sig (EfiCheckTimerEvent s) ?a))"
      by (rule release, use settled_sig [OF ia(1)] ia(2) in simp, simp, rule survives_sig) (simp add: survives_def)
    ultimately show ?thesis by simp
  qed
  have "\<exists>ev. Events s x = Some ev" if "EfiTimerList s = x # xs" for x xs
    using linkedD(2) [OF lists_invD(1) [OF settledD(1) [OF assms]], of x] that by auto
  then show ?thesis
    using ra rs steps_refl [OF assms]
    by (auto simp: FwTimerTick_def Let_def split: list.splits option.splits intro!: run_ok_bindI elim!: run_ok_mono)
qed

end

end
