(* ===== verification/TimerProps.thy ===== *)
theory TimerProps
  imports Timer
begin

text \<open>
  The properties of timers and of closing an event: the exact effect of \<open>SetTimer\<close> and of
  \<open>CheckTimers\<close>, the loop of \<open>CheckTimers\<close> that does not end, and \<open>CloseEvent\<close> over the
  contract of the services it calls.
\<close>

section \<open>Setting a timer\<close>

lemma SetTimer_cancel_eq:
  assumes "settled s" and "Events s e = Some ev" and "EvType ev AND EVT_TIMER \<noteq> 0" and "2 \<le> n"
  shows "SetTimer cb n e TimerCancel Trigger s = Ret (EFI_SUCCESS, critical EfiTimerListLock (disarmed e ev) s)"
    and "settled (critical EfiTimerListLock (disarmed e ev) s)"
proof -
  let ?a = "AcquireLock EfiTimerListLock s"
  have a: "exec_inv ?a" "Events ?a e = Some ev" using settledD(1) [OF assms(1)] assms(2) by simp_all
  have "ReleaseLock cb n EfiTimerListLock (disarmed e ev ?a) = Ret (critical EfiTimerListLock (disarmed e ev) s)"
    by (rule critical_quiet [OF assms(1)]) (use settledD [OF assms(1)] assms(4) in \<open>simp_all add: disarmed_def\<close>)
  then show "SetTimer cb n e TimerCancel Trigger s = Ret (EFI_SUCCESS, critical EfiTimerListLock (disarmed e ev) s)"
    using assms(2,3) disarm_eq(1) [OF a] by (simp add: SetTimer_def Let_def)
  show "settled (critical EfiTimerListLock (disarmed e ev) s)"
    by (rule settled_critical [OF assms(1)])
       (use settledD [OF assms(1)] disarm_eq(2) [OF a] in \<open>simp_all add: disarmed_def\<close>)
qed

lemma SetTimer_arm_eq:
  assumes "settled s" and "Events s e = Some ev" and "EvType ev AND EVT_TIMER \<noteq> 0" and "2 \<le> n"
    and "Type = TimerPeriodic \<or> Type = TimerRelative" and "Trigger \<noteq> 0"
  shows "\<exists>s'. SetTimer cb n e Type Trigger s = Ret (EFI_SUCCESS, s') \<and> settled s' \<and> TPL s' = TPL s \<and>
     Events s' = (Events s)(e \<mapsto> armed Type Trigger (EfiSystemTime s) ev) \<and>
     set (EfiTimerList s') = insert e (set (EfiTimerList s))"
proof -
  let ?a = "AcquireLock EfiTimerListLock s"
  let ?d = "disarmed e ev ?a"
  have a: "exec_inv ?a" "Events ?a e = Some ev" using settledD(1) [OF assms(1)] assms(2) by simp_all
  have d: "settled ?d" "unat (TPL ?d) = 30" "Events ?d e = Some (ev\<lparr>TimerLink := False, TriggerTime := 0, Period := 0\<rparr>)"
    using settled_high [of ?d] disarm_eq(2) [OF a] settled_acquire_timer(2) [OF settledD(1) [OF assms(1)]]
    by (simp_all add: disarmed_def)
  obtain s1 where s1: "arm_timer cb n e Type Trigger ?d = Ret s1" "settled s1" "EventPending s1 = EventPending s"
    "Events s1 = (Events s)(e \<mapsto> armed Type Trigger (EfiSystemTime s) ev)"
    "set (EfiTimerList s1) = insert e (set (remove1 e (EfiTimerList s)))" "OwnerTpl (Locks s1 EfiTimerListLock) = TPL s"
    using arm_timer_eq [OF d(1,2) assms(4) d(3) refl assms(3), of cb Type Trigger] assms(6) by (auto simp: disarmed_def)
  have rel: "ReleaseLock cb n EfiTimerListLock s1 = Ret (released EfiTimerListLock s1)"
    by (rule release_quiet) (use s1 settledD [OF assms(1)] assms(4) in simp_all)
  have "settled (released EfiTimerListLock s1)"
    using s1 settledD [OF assms(1)] settledD(1) [OF s1(2)] by (simp add: settled_def)
  moreover have "set (EfiTimerList s1) = insert e (set (EfiTimerList s))"
    using s1(5) linkedD(1) [OF lists_invD(1) [OF settledD(1) [OF assms(1)]]] by auto
  ultimately show ?thesis
    using assms(2,3,5) disarm_eq(1) [OF a] s1 rel by (auto simp: SetTimer_def Let_def)
qed

section \<open>A periodic timer whose period wraps\<close>

lemma loop_never_ends:
  assumes "settled s" and "30 \<le> unat (TPL s)" and "2 \<le> n"
    and "EfiTimerList s = [e]" and "Events s e = Some ev" and "Period ev \<noteq> 0"
    and "TriggerTime ev \<le> now" and "TriggerTime ev + Period ev \<le> now" and "now + Period ev \<le> now"
  shows "check_timers_loop cb n k now s = NoFuel"
  using assms(1,2,4-9)
proof (induction k arbitrary: s ev)
  case (Suc k)
  obtain s1 where s1: "check_timers_loop cb n (Suc k) now s = check_timers_loop cb n k now s1"
    "settled s1" "timer_step now e ev s s1"
    using loop_iteration [OF Suc.prems(1,2) assms(3) Suc.prems(3,4,6)] by blast
  obtain ev1 ev2 where ev2: "Events s1 e = Some ev2" "same_but_signal ev ev1"
    "ev2 = ev1\<lparr>TimerLink := True, TriggerTime := now\<rparr>"
    using s1(3) Suc.prems(5,7) unfolding timer_step_def by (auto simp: next_trigger_def)
  have "set (EfiTimerList s1) = {e}" "length (EfiTimerList s1) = 1"
    using s1(3) Suc.prems(3,5) by (auto simp: timer_step_def)
  then have "EfiTimerList s1 = [e]" by (cases "EfiTimerList s1") auto
  moreover have "TPL s1 = TPL s" using s1(3) by (simp add: timer_step_def)
  ultimately show ?case
    unfolding s1(1) using Suc.IH [OF s1(2) _ _ ev2(1)] Suc.prems ev2(3) same_but_signalD(3) [OF ev2(2)] by simp
qed simp

section \<open>Closing an event\<close>

text \<open>States that agree on everything the execution services own but the bookkeeping of the locks.\<close>

definition exec_frame :: "'x exec_scheme \<Rightarrow> 'x exec_scheme \<Rightarrow> bool" where
  "exec_frame s s' \<longleftrightarrow>
     TPL s' = TPL s \<and> Events s' = Events s \<and> EventQueue s' = EventQueue s \<and> EventPending s' = EventPending s \<and>
     EventSignalQueue s' = EventSignalQueue s \<and> RuntimeEventList s' = RuntimeEventList s \<and>
     EfiTimerList s' = EfiTimerList s \<and> EfiCheckTimerEvent s' = EfiCheckTimerEvent s \<and>
     EfiSystemTime s' = EfiSystemTime s \<and> EfiMtc s' = EfiMtc s \<and> EfiMtcEvent s' = EfiMtcEvent s \<and>
     EfiAtRuntime s' = EfiAtRuntime s \<and> (\<forall>l. LockTpl (Locks s' l) = LockTpl (Locks s l))"

text \<open>Nothing is pending above the current level.\<close>

definition quiet :: "'x exec_scheme \<Rightarrow> bool" where
  "quiet s \<longleftrightarrow> unat (TPL s) \<le> 31 \<and> (\<forall>t > unat (TPL s). \<not> bit (EventPending s) t)"

text \<open>The locks of the handle database and of memory are at their level.\<close>

definition levels :: "'x exec_scheme \<Rightarrow> bool" where
  "levels s \<longleftrightarrow> LockTpl (Locks s ProtocolDatabaseLock) = TPL_NOTIFY \<and> LockTpl (Locks s MemoryLock) = TPL_NOTIFY"

lemma exec_frame_trans: "exec_frame s s' \<Longrightarrow> exec_frame s' s'' \<Longrightarrow> exec_frame s s''"
  by (simp add: exec_frame_def)

lemma exec_frame_quiet: "exec_frame s s' \<Longrightarrow> quiet s' = quiet s"
  by (simp add: exec_frame_def quiet_def)

lemma exec_frame_inv: "exec_frame s s' \<Longrightarrow> exec_inv s' = exec_inv s"
  unfolding exec_frame_def by (intro exec_inv_cong) simp_all

definition callable :: "'x exec_scheme \<Rightarrow> bool" where
  "callable s \<longleftrightarrow> quiet s \<and> TPL s \<le> TPL_NOTIFY \<and> levels s"

lemma exec_frame_callable: "exec_frame s s' \<Longrightarrow> callable s' = callable s"
  using exec_frame_quiet [of s s'] by (auto simp: callable_def exec_frame_def levels_def)

lemma critical_frame:
  "(\<And>s. Locks (f s) = Locks s) \<Longrightarrow> exec_frame (AcquireLock l s) (f (AcquireLock l s)) \<Longrightarrow> exec_frame s (critical l f s)"
  by (simp add: exec_frame_def critical_def)

text \<open>The closed event is on no list any more.\<close>

lemma exec_inv_closed:
  assumes "exec_inv s" and "Events s e = Some ev" and "\<not> TimerLink ev"
  shows "exec_inv ((unlink_event e ev s)\<lparr>Events := (Events s)(e := None)\<rparr>)"
proof -
  let ?E = "(Events s)(e := None)"
  have rem: "linked ?E P (if P ev then remove1 e xs else xs)" if "linked (Events s) P xs" for P xs
  proof (cases "P ev")
    case True
    then show ?thesis using linked_delete [OF that] by simp
  next
    case False
    have "e \<notin> set xs" by (rule linked_notin [OF that]) (use assms(2) False in auto)
    then show ?thesis using linked_delete [OF that, of e] False by (simp add: remove1_idem)
  qed
  have T: "linked ?E TimerLink (EfiTimerList s)" using rem [OF lists_invD(1) [OF assms(1)]] assms(3) by simp
  have R: "linked ?E RuntimeLink (if RuntimeLink ev then remove1 e (RuntimeEventList s) else RuntimeEventList s)"
    by (rule rem [OF lists_invD(3) [OF assms(1)]])
  have S: "linked ?E (\<lambda>ev. SignalLink ev \<and> unat (EvType ev AND EVT_EFI_SIGNAL_MASK) = Suc i)
      (if SignalLink ev then remove1 e (EventSignalQueue s i) else EventSignalQueue s i)" for i
    using rem [OF lists_invD(4) [OF assms(1)], of i] linked_notin [OF lists_invD(4) [OF assms(1)], of e i] assms(2)
    by (cases "unat (EvType ev AND EVT_EFI_SIGNAL_MASK) = Suc i") (auto simp: remove1_idem split: if_splits)
  have Q: "linked ?E (\<lambda>ev. NotifyLink ev \<and> unat (NotifyTpl ev) = t)
      (if NotifyLink ev then remove1 e (EventQueue s t) else EventQueue s t)" for t
    using rem [OF lists_invD(5) [OF assms(1)], of t] linked_notin [OF lists_invD(5) [OF assms(1)], of e t] assms(2)
    by (cases "unat (NotifyTpl ev) = t") (auto simp: remove1_idem split: if_splits)
  have "trigger ?E x = trigger (Events s) x" if "x \<in> set (EfiTimerList s)" for x
    using that linkedD(2) [OF T, of x] by (auto simp: trigger_def split: if_splits)
  then have "map (trigger ?E) (EfiTimerList s) = map (trigger (Events s)) (EfiTimerList s)" by simp
  then have srt: "sorted (map (trigger ?E) (EfiTimerList s))" using lists_invD(2) [OF assms(1)] by (simp only:)
  have P: "EventQueue s t \<noteq> [] \<Longrightarrow> bit (EventPending s) t" "remove1 e (EventQueue s t) \<noteq> [] \<Longrightarrow> bit (EventPending s) t" for t
    using exec_invD(3) [OF assms(1), of t] by (cases "EventQueue s t"; simp)+
  show ?thesis
    unfolding exec_inv_def lists_inv_def
    using T R S Q srt P exec_invD(4-6) [OF assms(1)] lists_invD(6,7) [OF assms(1)]
    by (auto simp: unlink_event_def unlink_notify_def split: if_splits)
qed

lemma unlink_event_simps [simp]:
  "TPL (unlink_event e ev s) = TPL s" "Events (unlink_event e ev s) = Events s"
  "Locks (unlink_event e ev s) = Locks s" "EventPending (unlink_event e ev s) = EventPending s"
  "EfiTimerList (unlink_event e ev s) = EfiTimerList s"
  by (simp_all add: unlink_event_def unlink_notify_def Let_def)

text \<open>
  What \<open>CloseEvent\<close> relies on in the two services it calls: called at the level of their locks or
  below, with nothing pending above the current level, they leave the execution services alone.
\<close>

locale close_env =
  fixes unregister :: "UINTN \<Rightarrow> 'x exec_scheme \<Rightarrow> 'x exec_scheme run"
    and free :: "UINTN \<Rightarrow> 'x exec_scheme \<Rightarrow> 'x exec_scheme run"
  assumes unregister_frame: "callable s \<Longrightarrow> ret_ok (exec_frame s) (unregister e s)"
    and free_frame: "callable s \<Longrightarrow> ret_ok (exec_frame s) (free e s)"
begin

lemma CloseEvent_ok:
  assumes "settled s" and "Events s e = Some ev" and low: "TPL s \<le> TPL_NOTIFY" "levels s"
  shows "ret_ok (\<lambda>(st, s'). st = EFI_SUCCESS \<and> settled s' \<and> TPL s' = TPL s \<and> Events s' = (Events s)(e := None))
     (CloseEvent cb unregister free n e s)"
proof (cases "n < 2")
  case True
  have "SetTimer cb n e TimerCancel 0 s = NoFuel" if "EvType ev AND EVT_TIMER \<noteq> 0"
    using True that assms(2) by (simp add: SetTimer_def Let_def ReleaseLock_no_fuel)
  then show ?thesis using True assms(2) by (simp add: CloseEvent_def ReleaseLock_no_fuel Let_def)
next
  case False
  then have n: "2 \<le> n" by simp
  define timed where "timed \<longleftrightarrow> EvType ev AND EVT_TIMER \<noteq> 0"
  define s1 where "s1 = (if timed then critical EfiTimerListLock (disarmed e ev) s else s)"
  define ev1 where "ev1 = (if timed then ev\<lparr>TimerLink := False, TriggerTime := 0, Period := 0\<rparr> else ev)"
  have cancel: "(if EvType ev AND EVT_TIMER \<noteq> 0 then bind_run (SetTimer cb n e TimerCancel 0 s) (\<lambda>(_, s1). Ret s1) else Ret s) = Ret s1"
    using SetTimer_cancel_eq(1) [OF assms(1,2) _ n, of cb 0] by (simp add: s1_def timed_def)
  have i1: "settled s1" using SetTimer_cancel_eq(2) [OF assms(1,2) _ n] assms(1) by (simp add: s1_def timed_def)
  have e1: "Events s1 e = Some ev1" "TPL s1 = TPL s" "(Events s1)(e := None) = (Events s)(e := None)"
    using assms(2) by (simp_all add: s1_def ev1_def disarmed_def)
  have nl: "\<not> TimerLink ev1"
    using exec_invD(5) [OF settledD(1) [OF assms(1)] assms(2)] by (auto simp: ev1_def timed_def event_ok_def)
  let ?a = "AcquireLock EventQueueLock s1"
  define s3 where "s3 = critical EventQueueLock (unlink_event e ev1) s1"
  have rel: "ReleaseLock cb n EventQueueLock (unlink_event e ev1 ?a) = Ret s3"
    unfolding s3_def by (rule critical_quiet [OF i1]) (use settledD [OF i1] n in simp_all)
  have q3: "quiet s3" "TPL s3 = TPL s" "Events s3 = Events s1"
    using settledD [OF i1] e1(2) by (simp_all add: quiet_def s3_def)
  have "levels s3"
    using low(2) by (simp add: levels_def s3_def s1_def critical_def disarmed_def released_def AcquireLock_def RaiseTPL_def Let_def)
  then have c3: "callable s3" using q3 low(1) by (simp add: callable_def)
  have "exec_inv ((unlink_event e ev1 ?a)\<lparr>Events := (Events ?a)(e := None)\<rparr>)"
    by (rule exec_inv_closed) (use settledD(1) [OF i1] e1 nl in simp_all)
  then have i3: "exec_inv (s3\<lparr>Events := (Events s3)(e := None)\<rparr>)"
    unfolding s3_def critical_def by (subst (asm) exec_inv_cong [symmetric]) (auto simp: unlink_event_def unlink_notify_def Let_def)
  have fin: "settled (s5\<lparr>Events := (Events s5)(e := None)\<rparr>) \<and> TPL s5 = TPL s \<and> (Events s5)(e := None) = (Events s)(e := None)"
    if "exec_frame s3 s5" for s5
  proof -
    have "exec_frame (s3\<lparr>Events := (Events s3)(e := None)\<rparr>) (s5\<lparr>Events := (Events s5)(e := None)\<rparr>)"
      using that by (simp add: exec_frame_def)
    then show ?thesis
      using exec_frame_inv [of "s3\<lparr>Events := (Events s3)(e := None)\<rparr>"] i3 q3 e1 that
      by (simp add: settled_def quiet_def) (simp add: exec_frame_def)
  qed
  have frees: "ret_ok (exec_frame s3) (free e s4)" if "exec_frame s3 s4" for s4
    by (rule ret_ok_mono [OF free_frame]) (use exec_frame_callable [OF that] c3 exec_frame_trans [OF that] in auto)
  have last: "ret_ok (\<lambda>(st, s'). st = EFI_SUCCESS \<and> settled s' \<and> TPL s' = TPL s \<and> Events s' = (Events s)(e := None))
      (bind_run (free e s4) (\<lambda>s5. Ret (EFI_SUCCESS, s5\<lparr>Events := (Events s5)(e := None)\<rparr>)))" if "exec_frame s3 s4" for s4
    by (rule ret_ok_bind [OF frees [OF that]], drule fin) auto
  have "CloseEvent cb unregister free n e s =
    bind_run (unregister e s3) (\<lambda>s4. bind_run (free e s4) (\<lambda>s5. Ret (EFI_SUCCESS, s5\<lparr>Events := (Events s5)(e := None)\<rparr>)))"
    using assms(2) cancel e1(1) rel by (simp add: CloseEvent_def Let_def)
  then show ?thesis using ret_ok_bind [OF unregister_frame [OF c3] last] by (simp only:)
qed

end

section \<open>Properties\<close>

text \<open>A timer event, and a state with one armed timer, at the level of the timer lock.\<close>

definition timer_event :: "UINT64 \<Rightarrow> UINT64 \<Rightarrow> IEVENT" where
  "timer_event T P = (new_event EVT_TIMER 0 0 0)\<lparr>TimerLink := True, TriggerTime := T, Period := P\<rparr>"

definition timer_state :: "UINT64 \<Rightarrow> UINT64 \<Rightarrow> UINT64 \<Rightarrow> unit exec_scheme" where
  "timer_state now T P =
     (idle_state 30 [100 \<mapsto> timer_event T P] ())\<lparr>EfiTimerList := [100], EfiSystemTime := now\<rparr>"

lemma timer_state_settled: "settled (timer_state now T P)"
  by (auto simp: settled_def exec_inv_def lists_inv_def linked_def event_ok_def timer_state_def idle_state_def
      sample_locks_def timer_event_def new_event_def split: if_splits)

lemma work_bound: "work now s \<le> 2 * length (EfiTimerList s)"
proof -
  have "work now s \<le> (\<Sum>x\<in>set (EfiTimerList s). 2)"
    unfolding work_def by (rule sum_mono) (simp add: weight_def split: option.splits)
  also have "\<dots> \<le> 2 * length (EfiTimerList s)" by (simp add: card_length)
  finally show ?thesis .
qed

text \<open>
  C15: the timer interrupt's second half. Called at its own level, with no period reaching around
  the end of the 64-bit time, \<open>CheckTimers\<close> returns within two iterations per timer, and then:
  every timer that had expired has been signalled, and has left the list when it is a one-shot
  timer and otherwise triggers next one period after its last trigger time, or one period from
  now when that has passed already; no other timer has changed, none that remains has expired,
  and the list is sorted again.
\<close>

theorem check_timers_correct:
  assumes "settled s" and "TPL s = TPL_HIGH_LEVEL - 1" and "2 \<le> n" and "2 * length (EfiTimerList s) < k"
    and "periods_ok (EfiSystemTime s) s"
  shows "\<exists>s'. CheckTimers cb n k e c s = Ret s' \<and> settled s' \<and> TPL s' = TPL s \<and> timers_done (EfiSystemTime s) s s' \<and>
     list_all (\<lambda>x. EfiSystemTime s < trigger (Events s') x) (EfiTimerList s')"
proof -
  note sec = in_timer_section [OF settledD(1) [OF assms(1)] assms(3)]
  have "periods_ok (EfiSystemTime s) (in_timer_section s)" using assms(5) sec(5) by (simp add: periods_ok_def)
  moreover have "work (EfiSystemTime s) (in_timer_section s) < k"
    using work_bound [of "EfiSystemTime s" "in_timer_section s"] assms(4) by simp
  ultimately obtain s1 where s1: "check_timers_loop cb n k (EfiSystemTime s) (in_timer_section s) = Ret s1" "settled s1"
    "timers_done (EfiSystemTime s) (in_timer_section s) s1" "\<forall>x\<in>set (EfiTimerList s1). EfiSystemTime s < trigger (Events s1) x"
    "TPL s1 = TPL (in_timer_section s)" "Locks s1 EfiTimerListLock = Locks (in_timer_section s) EfiTimerListLock"
    using check_timers_loop_correct [OF sec(2) _ assms(3), of "EfiSystemTime s" k cb] sec(3) by auto
  have own: "OwnerTpl (Locks s1 EfiTimerListLock) = TPL s" using s1(6) sec(4) by simp
  have t: "unat (TPL s) = 30" using assms(2) by simp
  have nb: "\<not> bit (EventPending s1) j" if "30 < j" for j
    using exec_invD(4) [OF settledD(1) [OF s1(2)], of j] that by auto
  have rel: "ReleaseLock cb n EfiTimerListLock s1 = Ret (released EfiTimerListLock s1)"
    by (rule release_quiet) (use own t nb assms(3) in simp_all)
  have "settled (released EfiTimerListLock s1)"
    using settledD(1) [OF s1(2)] own t nb by (simp add: settled_def)
  moreover have "timers_done (EfiSystemTime s) s (released EfiTimerListLock s1)"
    using s1(3) by (simp add: timers_done_def)
  ultimately show ?thesis
    using sec(1) s1(1,4) rel own by (simp add: CheckTimers_def list_all_iff)
qed

theorem check_timers_correct_witness:
  "\<exists>s'. CheckTimers (\<lambda>_ _ _ _. Fault) 2 3 0 0 (timer_state 50 20 10) = Ret s' \<and>
     (\<exists>ev. Events s' 100 = Some ev \<and> SignalCount ev \<noteq> 0 \<and> TriggerTime ev = 60)"
proof -
  have p: "periods_ok (EfiSystemTime (timer_state 50 20 10)) (timer_state 50 20 10)"
    by (auto simp: periods_ok_def timer_state_def idle_state_def timer_event_def split: if_splits)
  have len: "2 * length (EfiTimerList (timer_state 50 20 10)) < 3" and tpl: "TPL (timer_state 50 20 10) = 31 - 1"
    and now: "EfiSystemTime (timer_state 50 20 10) = 50" and ev: "Events (timer_state 50 20 10) 100 = Some (timer_event 20 10)"
    by (simp_all add: timer_state_def idle_state_def)
  obtain s' where s': "CheckTimers (\<lambda>_ _ _ _. Fault) 2 3 0 0 (timer_state 50 20 10) = Ret s'"
    "timers_done 50 (timer_state 50 20 10) s'"
    using check_timers_correct [OF timer_state_settled tpl _ len p, of 2 "\<lambda>_ _ _ _. Fault" 0 0] now by auto
  obtain ev' where "Events s' 100 = Some ev'" "ev_done 50 (100 = EfiCheckTimerEvent (timer_state 50 20 10)) (timer_event 20 10) ev'"
    using s'(2) ev unfolding timers_done_def by blast
  with s'(1) show ?thesis by (auto simp: ev_done_def timer_event_def)
qed

text \<open>
  C16: \<open>SetTimer\<close> with a non-zero time arms the event: it triggers that much after the current
  system time (in 64-bit arithmetic), with the period asked for, and is on the timer list, which
  stays sorted; a timer that was armed before is armed anew. With \<open>TimerCancel\<close> the event is not
  armed any more. Nothing else changes and no notification function runs.
\<close>

theorem set_timer_effect:
  assumes "settled s" and "Events s e = Some ev" and "EvType ev AND EVT_TIMER \<noteq> 0" and "2 \<le> n"
    and "Type = TimerPeriodic \<or> Type = TimerRelative" and "Trigger \<noteq> 0"
  shows "\<exists>s1 s2. SetTimer cb n e Type Trigger s = Ret (EFI_SUCCESS, s1) \<and> settled s1 \<and> TPL s1 = TPL s \<and>
     Events s1 = (Events s)(e \<mapsto> ev\<lparr>TimerLink := True, TriggerTime := EfiSystemTime s + Trigger,
                                     Period := (if Type = TimerPeriodic then Trigger else 0)\<rparr>) \<and>
     set (EfiTimerList s1) = insert e (set (EfiTimerList s)) \<and>
     sorted (map (trigger (Events s1)) (EfiTimerList s1)) \<and>
     SetTimer cb n e TimerCancel 0 s1 = Ret (EFI_SUCCESS, s2) \<and> settled s2 \<and>
     Events s2 = (Events s)(e \<mapsto> ev\<lparr>TimerLink := False, TriggerTime := 0, Period := 0\<rparr>) \<and>
     set (EfiTimerList s2) = set (EfiTimerList s) - {e}"
proof -
  obtain s1 where s1: "SetTimer cb n e Type Trigger s = Ret (EFI_SUCCESS, s1)" "settled s1" "TPL s1 = TPL s"
    "Events s1 = (Events s)(e \<mapsto> armed Type Trigger (EfiSystemTime s) ev)"
    "set (EfiTimerList s1) = insert e (set (EfiTimerList s))"
    using SetTimer_arm_eq [OF assms, of cb] by blast
  let ?ev = "armed Type Trigger (EfiSystemTime s) ev"
  let ?s2 = "critical EfiTimerListLock (disarmed e ?ev) s1"
  have c: "SetTimer cb n e TimerCancel 0 s1 = Ret (EFI_SUCCESS, ?s2)" "settled ?s2"
    using SetTimer_cancel_eq [OF s1(2) _ _ assms(4), of e ?ev] s1(4) assms(3) by (simp_all add: armed_def)
  have "distinct (EfiTimerList s1)" using linkedD(1) [OF lists_invD(1) [OF settledD(1) [OF s1(2)]]] .
  then have "set (EfiTimerList ?s2) = set (EfiTimerList s) - {e}"
    using s1(5) by (simp add: critical_def disarmed_def)
  moreover have "Events ?s2 = (Events s)(e \<mapsto> ev\<lparr>TimerLink := False, TriggerTime := 0, Period := 0\<rparr>)"
    by (simp add: disarmed_def s1(4) armed_def)
  ultimately show ?thesis
    using s1 c lists_invD(2) [OF settledD(1) [OF s1(2)]] unfolding armed_def by blast
qed

theorem set_timer_effect_witness:
  "\<exists>s1. SetTimer (\<lambda>_ _ _ _. Fault) 2 100 TimerRelative 7 (timer_state 50 20 10) = Ret (EFI_SUCCESS, s1) \<and>
        Events s1 = [100 \<mapsto> timer_event 57 0]"
  using set_timer_effect [OF timer_state_settled [of 50 20 10], of 100 "timer_event 20 10" 2 TimerRelative 7 "\<lambda>_ _ _ _. Fault"]
  by (auto simp: timer_state_def idle_state_def timer_event_def new_event_def)

text \<open>
  C17: a periodic timer whose period reaches around the end of the 64-bit time is never later than
  the present after it has been armed again, and \<open>CheckTimers\<close> does not return: no amount of fuel
  suffices.
\<close>

theorem check_timers_hang:
  assumes "settled s" and "2 \<le> n" and "EfiTimerList s = [x]" and "Events s x = Some ev"
    and "Period ev \<noteq> 0" and "TriggerTime ev \<le> EfiSystemTime s"
    and "TriggerTime ev + Period ev \<le> EfiSystemTime s" and "EfiSystemTime s + Period ev \<le> EfiSystemTime s"
  shows "CheckTimers cb n k e c s = NoFuel"
proof -
  note sec = in_timer_section [OF settledD(1) [OF assms(1)] assms(2)]
  have "check_timers_loop cb n k (EfiSystemTime s) (in_timer_section s) = NoFuel"
    by (rule loop_never_ends [OF sec(2) _ assms(2), of x ev]) (use assms sec(3) in simp_all)
  then show ?thesis by (simp add: CheckTimers_def sec(1))
qed

theorem check_timers_hang_witness:
  "CheckTimers (\<lambda>_ _ _ s. Ret s) 2 1000 0 0 (timer_state 50 49 (- 1)) = NoFuel"
  by (rule check_timers_hang [OF timer_state_settled, where x = 100 and ev = "timer_event 49 (- 1)"])
     (simp_all add: timer_state_def idle_state_def timer_event_def)

end
