(* ===== verification/Mtc.thy ===== *)
theory Mtc
  imports TimerProps
begin

text \<open>
  The monotonic counter (\<open>exec/mtc.c\<close>). Its upper half is kept in a non-volatile variable and
  incremented at every start; the variable services are the parameters \<open>GetVariable\<close> and
  \<open>SetVariable\<close>, for the one variable \<open>MTC\<close>; \<open>MtcRestart\<close> puts the services of \<open>variable/varapi.c\<close> there.
\<close>

section \<open>The counter\<close>

definition high_part :: "UINT64 \<Rightarrow> UINT32" where
  "high_part m = ucast (drop_bit 32 m)"

definition EfiMtcEventHandler ::
  "'x notify_fn \<Rightarrow> (UINT32 \<Rightarrow> 'x exec_scheme \<Rightarrow> (EFI_STATUS \<times> 'x exec_scheme) run) \<Rightarrow> nat \<Rightarrow> 'x exec_scheme
   \<Rightarrow> (EFI_STATUS \<times> 'x exec_scheme) run"
where
  "EfiMtcEventHandler cb SetVariable n s =
     (let s1 = AcquireLock EventQueueLock s;
          HighCount = high_part (EfiMtc s1) + 1;
          s2 = s1\<lparr>EfiMtc := push_bit 32 (ucast HighCount)\<rparr>
      in bind_run (ReleaseLock cb n EventQueueLock s2) (SetVariable HighCount))"

definition InitializeMonotonicCount ::
  "'x notify_fn \<Rightarrow> 'x alloc_fn \<Rightarrow> ('x exec_scheme \<Rightarrow> (EFI_STATUS \<times> UINT32 \<times> 'x exec_scheme) run)
   \<Rightarrow> (UINT32 \<Rightarrow> 'x exec_scheme \<Rightarrow> (EFI_STATUS \<times> 'x exec_scheme) run) \<Rightarrow> nat \<Rightarrow> UINTN \<Rightarrow> 'x exec_scheme
   \<Rightarrow> 'x exec_scheme run"
where
  "InitializeMonotonicCount cb alloc GetVariable SetVariable n Handler_addr s =
     bind_run (CreateEvent cb alloc n EVT_NOTIFY_SIGNAL TPL_CALLBACK Handler_addr 0 True s) (\<lambda>(_, pe, s1).
       let s2 = (case pe of Some e \<Rightarrow> s1\<lparr>EfiMtcEvent := e\<rparr> | None \<Rightarrow> s1)
       in bind_run (GetVariable s2) (\<lambda>(Status, v, s3).
            let HighCount = (if EFI_ERROR Status then 0 else v);
                s4 = s3\<lparr>EfiMtc := push_bit 32 (ucast HighCount)\<rparr>
            in bind_run (EfiMtcEventHandler cb SetVariable n s4) (\<lambda>(_, s5). Ret s5)))"

definition GetNextMonotonicCount ::
  "'x notify_fn \<Rightarrow> nat \<Rightarrow> bool \<Rightarrow> 'x exec_scheme \<Rightarrow> (EFI_STATUS \<times> UINT64 option \<times> 'x exec_scheme) run"
where
  "GetNextMonotonicCount cb n Count s =
     (if \<not> Count then Ret (EFI_INVALID_PARAMETER, None, s)
      else if EfiMtc s = 0 then Ret (EFI_NOT_READY, Some 0, s)
      else
        let s1 = AcquireLock EventQueueLock s;
            PreviousMtc = EfiMtc s1;
            s2 = s1\<lparr>EfiMtc := EfiMtc s1 + 1\<rparr>
        in bind_run (ReleaseLock cb n EventQueueLock s2) (\<lambda>s3.
             let i = (ucast (EfiMtc s3) XOR ucast PreviousMtc :: UINT32)
             in bind_run (if i AND 0x80000000 \<noteq> 0
                          then bind_run (SignalEvent cb n (EfiMtcEvent s3) s3) (\<lambda>(_, s4). Ret s4) else Ret s3)
                  (\<lambda>s4. Ret (EFI_SUCCESS, Some PreviousMtc, s4))))"

definition GetNextHighMonotonicCount ::
  "'x notify_fn \<Rightarrow> (UINT32 \<Rightarrow> 'x exec_scheme \<Rightarrow> (EFI_STATUS \<times> 'x exec_scheme) run) \<Rightarrow> nat \<Rightarrow> bool \<Rightarrow> 'x exec_scheme
   \<Rightarrow> (EFI_STATUS \<times> UINT32 option \<times> 'x exec_scheme) run"
where
  "GetNextHighMonotonicCount cb SetVariable n HighCount s =
     (if \<not> EfiAtRuntime s then Ret (EFI_UNSUPPORTED, None, s)
      else if \<not> HighCount then Ret (EFI_INVALID_PARAMETER, None, s)
      else bind_run (EfiMtcEventHandler cb SetVariable n s) (\<lambda>(Status, s1).
             Ret (Status, Some (high_part (EfiMtc s1)), s1)))"

section \<open>Arithmetic of the two halves\<close>

lemma unat_high_part: "unat (high_part m) = unat m div 2 ^ 32"
proof -
  have "unat m < 2 ^ 64" using unsigned_less [of m, where ?'a = nat] by simp
  then have "unat m div 2 ^ 32 < 2 ^ 32" by (simp add: less_mult_imp_div_less)
  moreover have "unat (drop_bit 32 m) = unat m div 2 ^ 32" by (subst unat_drop_bit_eq) (rule drop_bit_eq_div)
  ultimately show ?thesis
    unfolding high_part_def unsigned_ucast_eq by (simp add: take_bit_nat_eq_self)
qed

lemma unat_push_high: "unat (push_bit 32 (ucast h :: UINT64)) = unat (h :: UINT32) * 2 ^ 32"
proof -
  have h: "unat h < 2 ^ 32" using unsigned_less [of h, where ?'a = nat] by simp
  have "unat (push_bit 32 (ucast h :: UINT64)) = take_bit 64 (push_bit 32 (unat (ucast h :: UINT64)))"
    by (simp add: unsigned_push_bit_eq)
  also have "\<dots> = unat h * 2 ^ 32"
    using h by (simp add: ucast_32_64 push_bit_eq_mult take_bit_nat_eq_self)
  finally show ?thesis .
qed

lemma high_part_push [simp]: "high_part (push_bit 32 (ucast h)) = h"
  by (simp add: word_unat_eq_iff unat_high_part unat_push_high)

lemma handler_eq:
  assumes "settled s" and "2 \<le> n"
  shows "EfiMtcEventHandler cb SetVariable n s = SetVariable (high_part (EfiMtc s) + 1)
     (critical EventQueueLock (\<lambda>s. s\<lparr>EfiMtc := push_bit 32 (ucast (high_part (EfiMtc s) + 1))\<rparr>) s)"
proof -
  let ?f = "\<lambda>s. s\<lparr>EfiMtc := push_bit 32 (ucast (high_part (EfiMtc s) + 1))\<rparr>"
  have "ReleaseLock cb n EventQueueLock (?f (AcquireLock EventQueueLock s)) = Ret (critical EventQueueLock ?f s)"
    by (rule critical_quiet [OF assms(1)]) (use settledD [OF assms(1)] assms(2) in simp_all)
  then show ?thesis by (simp add: EfiMtcEventHandler_def Let_def)
qed

section \<open>Properties\<close>

text \<open>
  C18: the next count. \<open>GetNextMonotonicCount\<close> hands out the counter and increments it, unless the
  counter has not been started yet, which it reports; as long as the top bit of the lower half
  does not change, no event is signalled and nothing but the counter changes.
\<close>

theorem mtc_next:
  assumes "settled s" and "2 \<le> n"
    and "(ucast (EfiMtc s + 1) XOR ucast (EfiMtc s) :: UINT32) AND 0x80000000 = 0"
  shows "\<exists>s'. GetNextMonotonicCount cb n True s =
       (if EfiMtc s = 0 then Ret (EFI_NOT_READY, Some 0, s) else Ret (EFI_SUCCESS, Some (EfiMtc s), s')) \<and>
     EfiMtc s' = EfiMtc s + 1 \<and> settled s' \<and> Events s' = Events s \<and> TPL s' = TPL s"
proof -
  let ?f = "\<lambda>s. s\<lparr>EfiMtc := EfiMtc s + 1\<rparr>"
  let ?s' = "critical EventQueueLock ?f s"
  have rel: "ReleaseLock cb n EventQueueLock (?f (AcquireLock EventQueueLock s)) = Ret ?s'"
    by (rule critical_quiet [OF assms(1)]) (use settledD [OF assms(1)] assms(2) in simp_all)
  have "settled ?s'" by (rule settled_critical [OF assms(1)]) (use settledD [OF assms(1)] in simp_all)
  moreover have m: "EfiMtc ?s' = EfiMtc s + 1" by (simp add: critical_def)
  ultimately show ?thesis
    using rel assms(3) by (intro exI [of _ ?s']) (simp add: GetNextMonotonicCount_def Let_def)
qed

theorem mtc_next_witness:
  "\<exists>s'. GetNextMonotonicCount (\<lambda>_ _ _ _. Fault) 2 True ((idle_state 4 Map.empty ())\<lparr>EfiMtc := 7\<rparr>) = Ret (EFI_SUCCESS, Some 7, s') \<and>
        EfiMtc s' = 8"
proof -
  have "settled ((idle_state 4 Map.empty ())\<lparr>EfiMtc := 7\<rparr>)"
    using idle_settled [of 4 Map.empty "()"] by (simp add: settled_def)
  from mtc_next [OF this, of 2 "\<lambda>_ _ _ _. Fault"] show ?thesis by auto
qed

end
