(* ===== verification/ExecSystem.thy ===== *)
theory ExecSystem
  imports Mtc
begin

text \<open>
  The execution services as one system. The core registers notification functions of its own,
  \<open>CheckTimers\<close> and \<open>EfiMtcEventHandler\<close>, which call the services that run them; \<open>core_cb\<close> ties
  this knot. The services are then the steps of a transition relation, and its reachable states
  keep the invariant.
\<close>

section \<open>The notification functions of the core\<close>

text \<open>
  A function address is that of \<open>CheckTimers\<close>, that of \<open>EfiMtcEventHandler\<close>, or one of the code
  outside the core, \<open>user\<close>. The handler passes the new upper half to \<open>SetVariable\<close>.
\<close>

primrec core_cb ::
  "UINTN \<Rightarrow> UINTN \<Rightarrow> (UINT32 \<Rightarrow> 'x exec_scheme \<Rightarrow> (EFI_STATUS \<times> 'x exec_scheme) run) \<Rightarrow> 'x notify_fn \<Rightarrow> nat \<Rightarrow> 'x notify_fn"
where
  "core_cb timers mtc SetVariable user 0 f e c s = NoFuel"
| "core_cb timers mtc SetVariable user (Suc n) f e c s =
     (if f = timers then CheckTimers (core_cb timers mtc SetVariable user n) n n e c s
      else if f = mtc then bind_run (EfiMtcEventHandler (core_cb timers mtc SetVariable user n) SetVariable n s) (\<lambda>(_, s'). Ret s')
      else user f e c s)"

text \<open>What the counter relies on in the variable services.\<close>

definition variable_service :: "(UINT32 \<Rightarrow> 'x exec_scheme \<Rightarrow> (EFI_STATUS \<times> 'x exec_scheme) run) \<Rightarrow> bool" where
  "variable_service SetVariable \<longleftrightarrow> (\<forall>v s. settled s \<longrightarrow> run_ok (\<lambda>(st, s'). steps s s') (SetVariable v s))"

lemma steps_survives:
  assumes "steps s s'"
  shows "settled s' \<and> TPL s' = TPL s \<and> (\<forall>e' ev'. Events s e' = Some ev' \<and>
         (e' \<noteq> e \<and> NotifyTpl ev' \<le> TPL s \<or> EvType ev' AND EVT_NOTIFY_SIGNAL = 0) \<longrightarrow> survives s' e' ev')"
  using assms unfolding steps_def keeps_events_def by blast

context notify_contract
begin

lemma EfiMtcEventHandler_ok:
  assumes "settled s" and "variable_service SetVariable"
  shows "run_ok (\<lambda>(st, s'). steps s s') (EfiMtcEventHandler cb SetVariable n s)"
proof -
  let ?s2 = "(AcquireLock EventQueueLock s)\<lparr>EfiMtc := push_bit 32 (ucast (high_part (EfiMtc s) + 1))\<rparr>"
  have rel: "run_ok (steps s) (ReleaseLock cb n EventQueueLock ?s2)"
    by (rule section_end) (use settledD [OF assms(1)] in \<open>auto simp: keeps_events_def survives_def\<close>)
  have "run_ok (\<lambda>(st, s'). steps s s') (SetVariable v s1)" if "steps s s1" for v s1
  proof -
    have "settled s1" using that by (simp add: steps_def)
    then have "run_ok (\<lambda>(st, s'). steps s1 s') (SetVariable v s1)"
      using assms(2) unfolding variable_service_def by blast
    then show ?thesis by (rule run_ok_mono) (use steps_trans [OF that] in auto)
  qed
  then show ?thesis by (simp add: EfiMtcEventHandler_def Let_def) (rule run_ok_bind [OF rel])
qed

end

text \<open>The core's own functions keep the contract, if those outside the core do.\<close>

lemma core_cb_contract:
  assumes "notify_contract user" and "variable_service SetVariable"
  shows "notify_contract (core_cb timers mtc SetVariable user n)"
proof (induction n)
  case 0
  show ?case by unfold_locales simp
next
  case (Suc n)
  let ?cb = "core_cb timers mtc SetVariable user n"
  let ?Q = "\<lambda>e s s'. settled s' \<and> TPL s' = TPL s \<and> (\<forall>e' ev'. Events s e' = Some ev' \<and>
         (e' \<noteq> e \<and> NotifyTpl ev' \<le> TPL s \<or> EvType ev' AND EVT_NOTIFY_SIGNAL = 0) \<longrightarrow> survives s' e' ev')"
  have t: "run_ok (?Q e s) (CheckTimers ?cb n n e c s)" if "settled s" for e c s
    using notify_contract.CheckTimers_ok [OF Suc that] by (rule run_ok_mono) (rule steps_survives)
  have m: "run_ok (?Q e s) (bind_run (EfiMtcEventHandler ?cb SetVariable n s) (\<lambda>(_, s'). Ret s'))" if "settled s" for e s
    by (rule run_ok_bind [OF notify_contract.EfiMtcEventHandler_ok [OF Suc that assms(2)]])
       (clarsimp, drule steps_survives [of _ _ e], blast)
  show ?case
  proof unfold_locales
    fix s :: "'a exec_scheme" and e f c :: UINTN and ev :: IEVENT
    assume a: "settled s" "Events s e = Some ev" "f \<noteq> 0" "TPL s = NotifyTpl ev"
    show "run_ok (?Q e s) (core_cb timers mtc SetVariable user (Suc n) f e c s)"
      using t [OF a(1), of e c] m [OF a(1), of e] notify_contract.cb_ok [OF assms(1) a, of c] by simp
  qed
qed

section \<open>The transition relation of the services\<close>

text \<open>
  One step is one call of a service by running code, with any arguments, that returns, or a tick of the
  platform's timer. The calls name the code the service gets from elsewhere: the pool allocator, the two
  services that closing an event calls, the platform's idle loop, the variable service.
\<close>

datatype 'x exec_call =
    Signal_event UINTN
  | Check_event UINTN
  | Wait_events "'x exec_scheme \<Rightarrow> 'x exec_scheme run" "UINTN list"
  | Set_timer UINTN int UINT64
  | Timer_tick UINTN
  | Signal_list UINTN
  | Create_event "'x alloc_fn" UINT32 UINTN UINTN UINTN bool
  | Close_event "UINTN \<Rightarrow> 'x exec_scheme \<Rightarrow> 'x exec_scheme run" "UINTN \<Rightarrow> 'x exec_scheme \<Rightarrow> 'x exec_scheme run" UINTN
  | Next_count bool
  | Next_high_count "UINT32 \<Rightarrow> 'x exec_scheme \<Rightarrow> (EFI_STATUS \<times> 'x exec_scheme) run" bool
  | Raise_restore UINTN

inductive exec_step :: "'x notify_fn \<Rightarrow> nat \<Rightarrow> 'x exec_call \<Rightarrow> 'x exec_scheme \<Rightarrow> 'x exec_scheme \<Rightarrow> bool" for cb n where
  signal: "SignalEvent cb n e s = Ret (st, s') \<Longrightarrow> exec_step cb n (Signal_event e) s s'"
| check: "CheckEvent cb n e s = Ret (st, s') \<Longrightarrow> exec_step cb n (Check_event e) s s'"
| wait: "WaitForEvent cb IdleLoop n k es s = Ret (st, i, s') \<Longrightarrow> exec_step cb n (Wait_events IdleLoop es) s s'"
| set_timer: "SetTimer cb n e Type Trigger s = Ret (st, s') \<Longrightarrow> exec_step cb n (Set_timer e Type Trigger) s s'"
| tick: "FwTimerTick cb n Duration s = Ret s' \<Longrightarrow> exec_step cb n (Timer_tick Duration) s s'"
| signal_list: "RtNotifySignalList cb n SignalType s = Ret s' \<Longrightarrow> exec_step cb n (Signal_list SignalType) s s'"
| create: "CreateEvent cb alloc n Type Tpl Function Ctx pEvent s = Ret (st, pe, s') \<Longrightarrow>
    exec_step cb n (Create_event alloc Type Tpl Function Ctx pEvent) s s'"
| close: "CloseEvent cb unregister free n e s = Ret (st, s') \<Longrightarrow> exec_step cb n (Close_event unregister free e) s s'"
| count: "GetNextMonotonicCount cb n Count s = Ret (st, c, s') \<Longrightarrow> exec_step cb n (Next_count Count) s s'"
| high_count: "GetNextHighMonotonicCount cb SetVariable n Count s = Ret (st, c, s') \<Longrightarrow>
    exec_step cb n (Next_high_count SetVariable Count) s s'"
| raise_restore: "RestoreTPL cb n (fst (RaiseTPL New s)) (snd (RaiseTPL New s)) = Ret s' \<Longrightarrow> exec_step cb n (Raise_restore New) s s'"

text \<open>
  The calls after which the state is still consistent. An event with a notification function must not be created
  at \<open>TPL_HIGH_LEVEL\<close>, which \<open>CreateEvent\<close> does not refuse (C14 is what happens then). The other
  conditions are on the code the service gets from elsewhere: it keeps its contract, and it is called at a level
  its locks admit.
\<close>

definition idles :: "('x exec_scheme \<Rightarrow> 'x exec_scheme run) \<Rightarrow> bool" where
  "idles IdleLoop \<longleftrightarrow> (\<forall>s. settled s \<longrightarrow> ret_ok (\<lambda>s'. settled s' \<and> TPL s' = TPL s) (IdleLoop s))"

definition admissible :: "'x exec_call \<Rightarrow> 'x exec_scheme \<Rightarrow> bool" where
  "admissible c s \<longleftrightarrow>
     (case c of
        Create_event alloc Type Tpl Function Ctx pEvent \<Rightarrow> (notifies Type \<longrightarrow> Tpl \<noteq> TPL_HIGH_LEVEL) \<and> allocates alloc s
      | Close_event unregister free e \<Rightarrow> close_env unregister free \<and> TPL s \<le> TPL_NOTIFY \<and> levels s
      | Wait_events IdleLoop es \<Rightarrow> idles IdleLoop
      | Next_high_count SetVariable Count \<Rightarrow> variable_service SetVariable
      | _ \<Rightarrow> True)"

definition admissible_step :: "'x notify_fn \<Rightarrow> nat \<Rightarrow> 'x exec_scheme \<Rightarrow> 'x exec_scheme \<Rightarrow> bool" where
  "admissible_step cb n s s' \<longleftrightarrow> (\<exists>c. admissible c s \<and> exec_step cb n c s s')"

context notify_contract
begin

lemma GetNextMonotonicCount_ok:
  assumes "settled s"
  shows "run_ok (\<lambda>(st, c, s'). steps s s') (GetNextMonotonicCount cb n Count s)"
proof -
  let ?s2 = "(AcquireLock EventQueueLock s)\<lparr>EfiMtc := EfiMtc s + 1\<rparr>"
  have rel: "run_ok (steps s) (ReleaseLock cb n EventQueueLock ?s2)"
    by (rule section_end) (use settledD [OF assms] in \<open>auto simp: keeps_events_def survives_def\<close>)
  have sg: "run_ok (\<lambda>(st, s'). steps s s') (SignalEvent cb n e s3)" if "steps s s3" for e s3
    by (rule run_ok_mono [OF SignalEvent_ok]) (use that steps_trans [OF that] in \<open>auto simp: steps_def\<close>)
  show ?thesis
    using steps_refl [OF assms]
    by (auto simp: GetNextMonotonicCount_def Let_def intro!: run_ok_bind [OF rel] run_ok_bind [OF sg])
qed

lemma register_event_fault: "Type AND EVT_EFI_SIGNAL_MASK = 3 \<Longrightarrow> register_event Type e s = Fault"
  by (simp add: register_event_def Let_def)

lemma SignalType_range:
  assumes "RtNotifySignalList cb n SignalType s = Ret s'"
  shows "SignalType AND 0xFF = 1 \<or> SignalType AND 0xFF = 2"
proof -
  have "unat ((SignalType AND 0xFF) - 1) < 2" using assms by (auto simp: RtNotifySignalList_def Let_def split: if_splits)
  then have "(SignalType AND 0xFF) - 1 = 0 \<or> (SignalType AND 0xFF) - 1 = 1" by (auto simp: word_unat_eq_iff)
  then show ?thesis by (auto simp: diff_eq_eq)
qed

text \<open>Whatever the type and the level: a call of \<open>CreateEvent\<close> that returns.\<close>

lemma CreateEvent_returns:
  assumes "settled s" and "allocates alloc s" and level: "notifies Type \<longrightarrow> Tpl \<noteq> TPL_HIGH_LEVEL"
    and ret: "CreateEvent cb alloc n Type Tpl Function Ctx pEvent s = Ret (st, pe, s')"
  shows "settled s' \<and> TPL s' = TPL s"
proof (cases "pEvent \<and> valid_event_type Type \<and> (notifies Type \<longrightarrow> valid_notify Type Tpl Function)")
  case False
  then have "CreateEvent cb alloc n Type Tpl Function Ctx pEvent s = Ret (EFI_INVALID_PARAMETER, None, s)"
    by (auto simp: CreateEvent_def)
  then show ?thesis using ret assms(1) by simp
next
  case valid: True
  show ?thesis
  proof (cases "Type AND EVT_EFI_SIGNAL_MASK = 3")
    case True
    define ty where "ty = (if Type AND EVT_RUNTIME \<noteq> 0 then EfiRuntimeServicesData else EfiBootServicesData)"
    note fault = register_event_fault [OF True]
    obtain e where "alloc ty sizeof_IEVENT s = Ret (st, e, s')"
    proof (cases "alloc ty sizeof_IEVENT s")
      case (Ret x)
      obtain st1 e s1 where x: "x = (st1, e, s1)" by (metis prod_cases3)
      have "EFI_ERROR st1" using ret valid Ret x unfolding CreateEvent_def Let_def ty_def [symmetric] by (auto simp: fault split: if_splits)
      then show ?thesis using that ret valid Ret x unfolding CreateEvent_def Let_def ty_def [symmetric] by auto
    qed (use ret valid in \<open>auto simp: CreateEvent_def Let_def ty_def [symmetric]\<close>)
    then show ?thesis using assms(2) unfolding allocates_def by (metis (mono_tags, lifting) case_prod_conv run_ok_def steps_def)
  next
    case False
    define T where "T = (if notifies Type then Tpl else 0)"
    have "unat T < 31"
    proof (cases "notifies Type")
      case True
      then have "Tpl \<le> 31" "Tpl \<noteq> 31" using valid level by (simp_all add: valid_notify_def VALID_TPL_def)
      then have "Tpl < 31" by simp
      then show ?thesis using True by (simp add: T_def word_less_nat_alt)
    qed (simp add: T_def)
    moreover have "CreateEvent cb alloc n Type T Function Ctx pEvent s = CreateEvent cb alloc n Type Tpl Function Ctx pEvent s"
      by (cases "notifies Type") (simp_all add: CreateEvent_def T_def)
    ultimately show ?thesis using CreateEvent_ok [OF assms(1) False _ assms(2), of T n Function Ctx pEvent] ret by (simp add: steps_def)
  qed
qed

lemma wait_pass_ok:
  "settled s \<Longrightarrow> run_ok (case_sum (\<lambda>(st, i, s'). settled s' \<and> TPL s' = TPL s) (\<lambda>s'. settled s' \<and> TPL s' = TPL s)) (wait_pass cb n i es s)"
proof (induction es arbitrary: s i)
  case (Cons e es)
  have next_one: "run_ok (case_sum (\<lambda>(st, i, s'). settled s' \<and> TPL s' = TPL s) (\<lambda>s'. settled s' \<and> TPL s' = TPL s)) (wait_pass cb n (i + 1) es s1)"
    if "steps s s1" for s1
    using Cons.IH [of s1 "i + 1"] that by (simp add: steps_def)
  show ?case
    unfolding wait_pass.simps
    by (rule run_ok_bind [OF CheckEvent_ok [OF Cons.prems]]) (use next_one in \<open>auto simp: steps_def\<close>)
qed simp

lemma wait_loop_ok:
  assumes "idles IdleLoop"
  shows "settled s \<Longrightarrow> ret_ok (\<lambda>(st, i, s'). settled s' \<and> TPL s' = TPL s) (wait_loop cb IdleLoop n k es s)"
proof (induction k arbitrary: s)
  case (Suc k)
  have again: "ret_ok (\<lambda>(st, i, s'). settled s' \<and> TPL s' = TPL s) (bind_run (IdleLoop s1) (wait_loop cb IdleLoop n k es))"
    if s1: "settled s1" "TPL s1 = TPL s" for s1
  proof (rule ret_ok_bind)
    show "ret_ok (\<lambda>s'. settled s' \<and> TPL s' = TPL s1) (IdleLoop s1)" using assms s1(1) unfolding idles_def by blast
    show "ret_ok (\<lambda>(st, i, s'). settled s' \<and> TPL s' = TPL s) (wait_loop cb IdleLoop n k es s2)"
      if "settled s2 \<and> TPL s2 = TPL s1" for s2
      using Suc.IH [of s2] that s1(2) by simp
  qed
  have "ret_ok (case_sum (\<lambda>(st, i, s'). settled s' \<and> TPL s' = TPL s) (\<lambda>s'. settled s' \<and> TPL s' = TPL s)) (wait_pass cb n 0 es s)"
    using wait_pass_ok [OF Suc.prems] by (simp add: run_ok_def ret_ok_def)
  then show ?case
    unfolding wait_loop.simps by (rule ret_ok_bind) (use again in \<open>auto split: sum.splits\<close>)
qed simp

lemma settled_step:
  assumes "exec_step cb n c s s'" and "admissible c s" and "settled s"
  shows "settled s' \<and> TPL s' = TPL s"
  using assms(1)
proof cases
  case (signal e st)
  then show ?thesis using SignalEvent_ok [OF assms(3), of n e] by (simp add: steps_def)
next
  case (check e st)
  then show ?thesis using CheckEvent_ok [OF assms(3), of n e] by (simp add: steps_def)
next
  case (wait IdleLoop k es st i)
  then have "idles IdleLoop" using assms(2) by (simp add: admissible_def)
  from ret_okD [OF wait_loop_ok [OF this assms(3)]] show ?thesis
    using wait(2) assms(3) by (auto simp: WaitForEvent_def split: if_splits)
next
  case (set_timer e Type Trigger st)
  then show ?thesis using SetTimer_ok [OF assms(3), of n e Type Trigger] by (simp add: steps_def)
next
  case (tick Duration)
  then show ?thesis using FwTimerTick_ok [OF assms(3), of n Duration] by (simp add: steps_def)
next
  case (signal_list SignalType)
  then show ?thesis using RtNotifySignalList_ok [OF assms(3) SignalType_range [OF signal_list(2)], of n] by (simp add: steps_def)
next
  case (create alloc Type Tpl Function Ctx pEvent st pe)
  then show ?thesis using CreateEvent_returns [OF assms(3) _ _ create(2)] assms(2) by (simp add: admissible_def)
next
  case (close unregister free e st)
  then have c: "close_env unregister free" "TPL s \<le> TPL_NOTIFY" "levels s" using assms(2) by (simp_all add: admissible_def)
  show ?thesis
    using ret_okD [OF close_env.CloseEvent_ok [OF c(1) assms(3) _ c(2,3)] close(2)] close(2) assms(3)
    by (cases "Events s e") (auto simp: CloseEvent_def)
next
  case (count Count st c)
  then show ?thesis using GetNextMonotonicCount_ok [OF assms(3), of n Count] by (simp add: steps_def)
next
  case (high_count SetVariable Count st c)
  then have "variable_service SetVariable" using assms(2) by (simp add: admissible_def)
  then show ?thesis using EfiMtcEventHandler_ok [OF assms(3), of SetVariable n] high_count(2) assms(3)
    by (cases "EfiMtcEventHandler cb SetVariable n s") (auto simp: GetNextHighMonotonicCount_def steps_def split: if_splits)
next
  case (raise_restore New)
  have "exec_inv (snd (RaiseTPL New s))" "fst (RaiseTPL New s) = TPL s"
    using settledD(1) [OF assms(3)] by (simp_all add: RaiseTPL_def Let_def)
  then show ?thesis
    using RestoreTPL_ok [of "snd (RaiseTPL New s)" "TPL s" n] settledD(2) [OF assms(3)] raise_restore
    by (simp add: lowered_def)
qed

lemma settled_reachable: "(admissible_step cb n)\<^sup>*\<^sup>* s s' \<Longrightarrow> settled s \<Longrightarrow> settled s' \<and> TPL s' = TPL s"
proof (induction rule: rtranclp_induct)
  case (step y z)
  then show ?case using settled_step unfolding admissible_step_def by metis
qed simp

end

section \<open>Properties\<close>



end
