(* ===== verification/MemMap.thy ===== *)
theory MemMap
  imports EfiPrelude
begin

text \<open>
  The memory map of \<open>mem/page.c\<close>: its data, the descriptors on the temporary stack and in the pool,
  the search for free pages, and the conversion of page ranges. Changing the map takes descriptors
  from the pool and returns them to it, and the pool takes its pages from the map: the functions
  here take the two pool operations as the parameters \<open>allocI\<close> and \<open>freeI\<close> (\<open>AllocatePoolI\<close> and
  \<open>FreePoolI\<close>), and \<open>Pool\<close> ties the knot. The values are those of the 64-bit target.
\<close>

section \<open>Data\<close>

abbreviation (input) EFI_PAGE_MASK :: UINT64 where "EFI_PAGE_MASK \<equiv> 0xFFF"
abbreviation (input) EFI_PAGE_SHIFT :: nat where "EFI_PAGE_SHIFT \<equiv> 12"
abbreviation (input) MAX_ADDRESS :: UINT64 where "MAX_ADDRESS \<equiv> 0xFFFFFFFFFFFFFFFF"
abbreviation (input) EFI_MEMORY_RUNTIME :: UINT64 where "EFI_MEMORY_RUNTIME \<equiv> 0x8000000000000000"
abbreviation (input) MAX_MAP_DEPTH :: nat where "MAX_MAP_DEPTH \<equiv> 6"
abbreviation (input) sizeof_MEMORY_MAP :: UINTN where "sizeof_MEMORY_MAP \<equiv> 64"

text \<open>A descriptor, and where it lives: a slot of \<open>MapStack\<close> or a pool buffer.\<close>

record MEMORY_MAP =
  FromPool :: bool
  MType :: int
  MStart :: UINT64
  MEnd :: UINT64
  VirtualStart :: UINT64
  MAttribute :: UINT64

datatype map_ptr = OnStack nat | OnPool UINTN

text \<open>
  A pool: the bytes in use, the memory type and a list of free blocks per size. A block is known
  by the address of its header, which holds either the free or the allocated header; \<open>Tails\<close> holds
  the tail markers behind the allocated blocks, with the size in them.
\<close>

record POOL =
  Used :: UINTN
  PMemoryType :: int
  FreeList :: "nat \<Rightarrow> UINTN list"

datatype pool_block = POOL_FREE nat | POOL_HEAD int UINT32

record mem =
  MemoryMap :: "map_ptr list"
  MapEntry :: "map_ptr \<Rightarrow> MEMORY_MAP"
  MapDepth :: nat
  FreeMapStack :: nat
  MemoryMapKey :: UINTN
  EfiWatermarkRuntimeServicesCode :: UINT64
  EfiWatermarkRuntimeServicesData :: UINT64
  EfiWatermarkBootServicesCode :: UINT64
  EfiWatermarkBootServicesData :: UINT64
  EfiWatermarkDefault :: UINT64
  PoolHead :: "int \<Rightarrow> POOL"
  PoolHeadList :: "(UINTN \<times> POOL) list"
  Blocks :: "UINTN \<rightharpoonup> pool_block"
  Tails :: "UINTN \<rightharpoonup> UINT32"

type_synonym 'y alloc_op = "int \<Rightarrow> UINTN \<Rightarrow> 'y mem_scheme \<Rightarrow> (UINTN \<times> 'y mem_scheme) run"
type_synonym 'y free_op = "UINTN \<Rightarrow> 'y mem_scheme \<Rightarrow> (EFI_STATUS \<times> 'y mem_scheme) run"

definition upd_entry :: "map_ptr \<Rightarrow> (MEMORY_MAP \<Rightarrow> MEMORY_MAP) \<Rightarrow> 'y mem_scheme \<Rightarrow> 'y mem_scheme" where
  "upd_entry p f m = m\<lparr>MapEntry := (MapEntry m)(p := f (MapEntry m p))\<rparr>"

section \<open>Changing the map\<close>

definition RemoveMemoryMapEntry :: "'y free_op \<Rightarrow> map_ptr \<Rightarrow> 'y mem_scheme \<Rightarrow> 'y mem_scheme run" where
  "RemoveMemoryMapEntry freeI p m =
     (let m1 = m\<lparr>MemoryMap := remove1 p (MemoryMap m)\<rparr>
      in if FromPool (MapEntry m p)
         then (case p of OnPool a \<Rightarrow> bind_run (freeI a m1) (\<lambda>(_, m2). Ret m2) | OnStack _ \<Rightarrow> Fault)
         else Ret m1)"

text \<open>Writing a new descriptor into the next slot of \<open>MapStack\<close> and linking it at the end of the map.\<close>

definition push_entry :: "(MEMORY_MAP \<Rightarrow> MEMORY_MAP) \<Rightarrow> 'y mem_scheme \<Rightarrow> 'y mem_scheme run" where
  "push_entry f m =
     (if MapDepth m < MAX_MAP_DEPTH
      then Ret ((upd_entry (OnStack (MapDepth m)) f m)
                 \<lparr>MemoryMap := MemoryMap m @ [OnStack (MapDepth m)], MapDepth := MapDepth m + 1\<rparr>)
      else Fault)"

definition adjoins :: "int \<Rightarrow> UINT64 \<Rightarrow> UINT64 \<Rightarrow> UINT64 \<Rightarrow> MEMORY_MAP \<Rightarrow> bool" where
  "adjoins Type Attr Start End Entry \<longleftrightarrow>
     MType Entry = Type \<and> MAttribute Entry = Attr \<and> (MEnd Entry + 1 = Start \<or> MStart Entry = End + 1)"

text \<open>The second half of a merge: the extended descriptor \<open>p\<close> may now adjoin another one.\<close>

definition merge_entry :: "'y free_op \<Rightarrow> map_ptr \<Rightarrow> 'y mem_scheme \<Rightarrow> 'y mem_scheme run" where
  "merge_entry freeI p m =
     (let Entry = MapEntry m p
      in case List.find (\<lambda>q. let Entry1 = MapEntry m q in
             MType Entry = MType Entry1 \<and> MAttribute Entry = MAttribute Entry1 \<and>
             (MEnd Entry + 1 = MStart Entry1 \<or> MStart Entry = MEnd Entry1 + 1)) (MemoryMap m) of
           None \<Rightarrow> Ret m
         | Some q \<Rightarrow>
             if MEnd Entry + 1 = MStart (MapEntry m q)
             then RemoveMemoryMapEntry freeI p (upd_entry q (\<lambda>E. E\<lparr>MStart := MStart Entry\<rparr>) m)
             else RemoveMemoryMapEntry freeI p (upd_entry q (\<lambda>E. E\<lparr>MEnd := MEnd Entry\<rparr>) m))"

definition AddRange :: "'y free_op \<Rightarrow> int \<Rightarrow> UINT64 \<Rightarrow> UINT64 \<Rightarrow> UINT64 \<Rightarrow> 'y mem_scheme \<Rightarrow> 'y mem_scheme run" where
  "AddRange freeI Type Start End Attr m =
     (let m1 = m\<lparr>MemoryMapKey := MemoryMapKey m + 1\<rparr>
      in case List.find (\<lambda>p. adjoins Type Attr Start End (MapEntry m1 p)) (MemoryMap m1) of
           Some p \<Rightarrow>
             if MEnd (MapEntry m1 p) + 1 = Start
             then merge_entry freeI p (upd_entry p (\<lambda>E. E\<lparr>MEnd := End\<rparr>) m1)
             else merge_entry freeI p (upd_entry p (\<lambda>E. E\<lparr>MStart := Start\<rparr>) m1)
         | None \<Rightarrow>
             push_entry (\<lambda>_. \<lparr>FromPool = False, MType = Type, MStart = Start, MEnd = End,
                              VirtualStart = 0, MAttribute = Attr\<rparr>) m1)"

text \<open>The place in the map for a descriptor that moves to the pool.\<close>

fun insert_pool_entry :: "(map_ptr \<Rightarrow> MEMORY_MAP) \<Rightarrow> map_ptr \<Rightarrow> map_ptr list \<Rightarrow> map_ptr list" where
  "insert_pool_entry E p [] = [p]"
| "insert_pool_entry E p (q # qs) =
     (if FromPool (E q) \<and> MStart (E q) > MStart (E p) then p # q # qs else q # insert_pool_entry E p qs)"

definition move_to_pool :: "nat \<Rightarrow> UINTN \<Rightarrow> 'y mem_scheme \<Rightarrow> 'y mem_scheme" where
  "move_to_pool d e m =
     (let m1 = m\<lparr>MemoryMap := remove1 (OnStack d) (MemoryMap m)\<rparr>;
          m2 = upd_entry (OnPool e) (\<lambda>_. (MapEntry m1 (OnStack d))\<lparr>FromPool := True\<rparr>) m1
      in m2\<lparr>MemoryMap := insert_pool_entry (MapEntry m2) (OnPool e) (MemoryMap m2)\<rparr>)"

primrec free_map_stack_loop :: "'y alloc_op \<Rightarrow> 'y free_op \<Rightarrow> nat \<Rightarrow> 'y mem_scheme \<Rightarrow> 'y mem_scheme run" where
  "free_map_stack_loop allocI freeI 0 m = NoFuel"
| "free_map_stack_loop allocI freeI (Suc n) m =
     (if MapDepth m = 0 then Ret m
      else bind_run (allocI EfiRuntimeServicesData sizeof_MEMORY_MAP m) (\<lambda>(e, m1).
        let d = MapDepth m1 - 1;
            m2 = m1\<lparr>MapDepth := d\<rparr>
        in if OnStack d \<in> set (MemoryMap m2)
           then if e = 0 then Fault else free_map_stack_loop allocI freeI n (move_to_pool d e m2)
           else bind_run (freeI e m2) (\<lambda>(_, m3). free_map_stack_loop allocI freeI n m3)))"

definition FreeMemoryMapStack :: "'y alloc_op \<Rightarrow> 'y free_op \<Rightarrow> nat \<Rightarrow> 'y mem_scheme \<Rightarrow> 'y mem_scheme run" where
  "FreeMemoryMapStack allocI freeI n m =
     (if FreeMapStack m \<noteq> 0 then Ret m
      else bind_run (free_map_stack_loop allocI freeI n (m\<lparr>FreeMapStack := FreeMapStack m + 1\<rparr>)) (\<lambda>m1.
             Ret (m1\<lparr>FreeMapStack := FreeMapStack m1 - 1\<rparr>)))"

section \<open>Converting a range\<close>

definition incompatible :: "bool \<Rightarrow> int \<Rightarrow> int \<Rightarrow> bool" where
  "incompatible LoadConvert NewType EntryType \<longleftrightarrow>
     \<not> LoadConvert \<and> ((NewType = EfiConventionalMemory) = (EntryType = EfiConventionalMemory))"

text \<open>
  Pulling \<open>[Start, RangeEnd]\<close> out of the descriptor \<open>p\<close>: clip its start, clip its end, or split it.
  The result is the descriptor the code goes on with.
\<close>

definition pull_range :: "map_ptr \<Rightarrow> UINT64 \<Rightarrow> UINT64 \<Rightarrow> 'y mem_scheme \<Rightarrow> (map_ptr \<times> 'y mem_scheme) run" where
  "pull_range p Start RangeEnd m =
     (let Entry = MapEntry m p
      in if MStart Entry = Start then Ret (p, upd_entry p (\<lambda>E. E\<lparr>MStart := RangeEnd + 1\<rparr>) m)
         else if MEnd Entry = RangeEnd then Ret (p, upd_entry p (\<lambda>E. E\<lparr>MEnd := Start - 1\<rparr>) m)
         else bind_run (push_entry (\<lambda>E. E\<lparr>FromPool := False, MType := MType Entry, MStart := RangeEnd + 1,
                                          MEnd := MEnd Entry, MAttribute := MAttribute Entry\<rparr>) m) (\<lambda>m1.
                Ret (OnStack (MapDepth m), upd_entry p (\<lambda>E. E\<lparr>MEnd := Start - 1\<rparr>) m1)))"

primrec convert_loop ::
  "'y alloc_op \<Rightarrow> 'y free_op \<Rightarrow> nat \<Rightarrow> bool \<Rightarrow> UINT64 \<Rightarrow> UINT64 \<Rightarrow> int \<Rightarrow> 'y mem_scheme \<Rightarrow> (EFI_STATUS \<times> 'y mem_scheme) run"
where
  "convert_loop allocI freeI 0 LoadConvert Start End NewType m = NoFuel"
| "convert_loop allocI freeI (Suc n) LoadConvert Start End NewType m =
     (if \<not> Start < End then Ret (EFI_SUCCESS, m)
      else case List.find (\<lambda>p. MStart (MapEntry m p) \<le> Start \<and> MEnd (MapEntry m p) > Start) (MemoryMap m) of
             None \<Rightarrow> Ret (EFI_NOT_FOUND, m)
           | Some p \<Rightarrow>
               let Entry = MapEntry m p;
                   RangeEnd = (if MEnd Entry < End then MEnd Entry else End)
               in if incompatible LoadConvert NewType (MType Entry) then Ret (EFI_NOT_FOUND, m)
                  else bind_run (pull_range p Start RangeEnd (m\<lparr>MemoryMapKey := MemoryMapKey m + 1\<rparr>)) (\<lambda>(q, m1).
                         let Attr = MAttribute (MapEntry m1 q)
                         in bind_run (if MStart (MapEntry m1 q) = MEnd (MapEntry m1 q) + 1
                                      then RemoveMemoryMapEntry freeI q m1 else Ret m1) (\<lambda>m2.
                            bind_run (AddRange freeI NewType Start RangeEnd Attr m2) (\<lambda>m3.
                            bind_run (FreeMemoryMapStack allocI freeI n m3) (\<lambda>m4.
                              convert_loop allocI freeI n LoadConvert (RangeEnd + 1) End NewType m4)))))"

definition ConvertPages ::
  "'y alloc_op \<Rightarrow> 'y free_op \<Rightarrow> nat \<Rightarrow> bool \<Rightarrow> UINT64 \<Rightarrow> UINT64 \<Rightarrow> int \<Rightarrow> 'y mem_scheme \<Rightarrow> (EFI_STATUS \<times> 'y mem_scheme) run"
where
  "ConvertPages allocI freeI n LoadConvert Start NoPages NewType m =
     (let NoBytes = push_bit EFI_PAGE_SHIFT NoPages;
          End = Start + NoBytes - 1
      in if NoPages = 0 \<or> Start AND EFI_PAGE_MASK \<noteq> 0 \<or> Start > Start + NoBytes then Ret (EFI_INVALID_PARAMETER, m)
         else convert_loop allocI freeI n LoadConvert Start End NewType m)"

section \<open>Finding free pages\<close>

definition desc_end :: "UINT64 \<Rightarrow> UINT64 \<Rightarrow> MEMORY_MAP \<Rightarrow> UINT64" where
  "desc_end MaxAddress Alignment Entry =
     (((if MEnd Entry \<ge> MaxAddress then MaxAddress else MEnd Entry) + 1) AND NOT (Alignment - 1)) - 1"

definition free_target :: "UINT64 \<Rightarrow> UINT64 \<Rightarrow> UINT64 \<Rightarrow> UINT64 \<Rightarrow> MEMORY_MAP \<Rightarrow> UINT64" where
  "free_target MaxAddress NoBytes Alignment Target Entry =
     (if MType Entry \<noteq> EfiConventionalMemory then Target
      else if MStart Entry \<ge> MaxAddress then Target
      else let DescEnd = desc_end MaxAddress Alignment Entry;
               DescNoBytes = DescEnd - MStart Entry + 1
           in if DescNoBytes \<ge> NoBytes then (if DescEnd > Target then DescEnd else Target) else Target)"

definition FindFreePagesI :: "UINT64 \<Rightarrow> UINT64 \<Rightarrow> int \<Rightarrow> UINT64 \<Rightarrow> 'y mem_scheme \<Rightarrow> UINT64" where
  "FindFreePagesI MaxAddress0 NoPages NewType Alignment m =
     (if MaxAddress0 < EFI_PAGE_MASK then 0
      else
        let MaxAddress = (if MaxAddress0 AND EFI_PAGE_MASK \<noteq> EFI_PAGE_MASK
                          then ((MaxAddress0 - (EFI_PAGE_MASK + 1)) AND NOT EFI_PAGE_MASK) OR EFI_PAGE_MASK
                          else MaxAddress0)
        in if NoPages = 0 then 0
           else
             let NoBytes = push_bit EFI_PAGE_SHIFT NoPages;
                 Target = fold (\<lambda>p T. free_target MaxAddress NoBytes Alignment T (MapEntry m p)) (MemoryMap m) 0;
                 Base = Target - (NoBytes - 1)
             in if Base AND EFI_PAGE_MASK \<noteq> 0 then 0 else Base)"

definition watermark :: "int \<Rightarrow> 'y mem_scheme \<Rightarrow> UINT64 option" where
  "watermark NewType m =
     (if NewType = EfiRuntimeServicesCode then Some (EfiWatermarkRuntimeServicesCode m)
      else if NewType = EfiRuntimeServicesData then Some (EfiWatermarkRuntimeServicesData m)
      else if NewType = EfiBootServicesCode then Some (EfiWatermarkBootServicesCode m)
      else if NewType = EfiBootServicesData then Some (EfiWatermarkBootServicesData m)
      else if NewType \<in> {EfiLoaderCode, EfiLoaderData, EfiACPIReclaimMemory, EfiACPIMemoryNVS, EfiReservedMemoryType}
      then Some (EfiWatermarkDefault m)
      else None)"

definition FindFreePages :: "UINT64 \<Rightarrow> UINT64 \<Rightarrow> int \<Rightarrow> UINT64 \<Rightarrow> 'y mem_scheme \<Rightarrow> UINT64" where
  "FindFreePages MaxAddress NoPages NewType Alignment m =
     (let NewMaxAddress = (case watermark NewType m of
            Some w \<Rightarrow> if MaxAddress > w then w else MaxAddress | None \<Rightarrow> MaxAddress);
          Start = FindFreePagesI NewMaxAddress NoPages NewType Alignment m
      in if Start = 0 then FindFreePagesI MaxAddress NoPages NewType Alignment m else Start)"

text \<open>The pages behind the pool.\<close>

definition AllocatePoolPages ::
  "'y alloc_op \<Rightarrow> 'y free_op \<Rightarrow> nat \<Rightarrow> int \<Rightarrow> UINTN \<Rightarrow> UINTN \<Rightarrow> 'y mem_scheme \<Rightarrow> (UINTN \<times> 'y mem_scheme) run"
where
  "AllocatePoolPages allocI freeI n PoolType NoPages Alignment m =
     (let Start = FindFreePages MAX_ADDRESS NoPages PoolType Alignment m
      in if Start \<noteq> 0
         then bind_run (ConvertPages allocI freeI n False Start NoPages PoolType m) (\<lambda>(Status, m1).
                Ret (if EFI_ERROR Status then 0 else Start, m1))
         else Ret (0, m))"

definition FreePoolPages :: "'y alloc_op \<Rightarrow> 'y free_op \<Rightarrow> nat \<Rightarrow> UINT64 \<Rightarrow> UINTN \<Rightarrow> 'y mem_scheme \<Rightarrow> 'y mem_scheme run" where
  "FreePoolPages allocI freeI n Memory NoPages m =
     bind_run (ConvertPages allocI freeI n False Memory NoPages EfiConventionalMemory m) (\<lambda>(_, m1). Ret m1)"

end
