(* ===== verification/Pool.thy ===== *)
theory Pool
  imports MemMap
begin

text \<open>
  The pool allocator of \<open>mem/pool.c\<close>. A pool hands out blocks of 64 sizes, carved from chunks of two
  pages, and whole pages above that. \<open>AllocatePoolI\<close> and \<open>FreePoolI\<close> call themselves through the
  memory map and for the pool descriptors of the OS loader's memory types: with fuel \<open>n + 1\<close> they
  pass on the two operations with fuel \<open>n\<close>.
\<close>

section \<open>Sizes\<close>

abbreviation (input) SIZE_OF_POOL_HEAD :: UINTN where "SIZE_OF_POOL_HEAD \<equiv> 16"
abbreviation (input) sizeof_POOL_TAIL :: UINTN where "sizeof_POOL_TAIL \<equiv> 8"
abbreviation (input) POOL_OVERHEAD :: UINTN where "POOL_OVERHEAD \<equiv> 24"
abbreviation (input) POOL_SHIFT :: nat where "POOL_SHIFT \<equiv> 7"
abbreviation (input) MAX_POOL_LIST :: nat where "MAX_POOL_LIST \<equiv> 64"
abbreviation (input) DEFAULT_PAGE_ALLOCATION :: UINTN where "DEFAULT_PAGE_ALLOCATION \<equiv> 8192"
abbreviation (input) sizeof_POOL :: UINTN where "sizeof_POOL \<equiv> 1064"

definition SIZE_TO_LIST :: "UINTN \<Rightarrow> nat" where
  "SIZE_TO_LIST a = unat (drop_bit POOL_SHIFT a)"

definition LIST_TO_SIZE :: "nat \<Rightarrow> nat" where
  "LIST_TO_SIZE i = (i + 1) * 128"

definition EFI_SIZE_TO_PAGES :: "UINTN \<Rightarrow> UINTN" where
  "EFI_SIZE_TO_PAGES a = drop_bit EFI_PAGE_SHIFT a + (if a AND EFI_PAGE_MASK \<noteq> 0 then 1 else 0)"

definition ALIGN_VARIABLE :: "UINTN \<Rightarrow> UINTN" where
  "ALIGN_VARIABLE Value = Value + (if Value mod 8 \<noteq> 0 then 8 - Value mod 8 else 0)"

definition pool_pages :: "UINTN \<Rightarrow> UINTN" where
  "pool_pages Size =
     (EFI_SIZE_TO_PAGES Size + EFI_SIZE_TO_PAGES DEFAULT_PAGE_ALLOCATION - 1)
       AND NOT (EFI_SIZE_TO_PAGES DEFAULT_PAGE_ALLOCATION - 1)"

text \<open>
  How a chunk is cut up: blocks of the largest size that fits, then of the next smaller ones. The
  nested loops over \<open>offset\<close> and \<open>Index\<close>, as the list of the blocks they visit. With 128-byte
  granularity the size with index 0 fills what is left, so that \<open>Index\<close> never passes 0.
\<close>

function carve :: "nat \<Rightarrow> nat \<Rightarrow> (nat \<times> nat) list" where
  "carve Index offset =
     (if offset \<ge> 8192 then []
      else if offset + LIST_TO_SIZE Index \<le> 8192 then (offset, Index) # carve Index (offset + LIST_TO_SIZE Index)
      else if Index = 0 then [] else carve (Index - 1) offset)"
  by auto
termination
  by (relation "measures [\<lambda>(i, off). 8192 - off, \<lambda>(i, off). i]") (auto simp: LIST_TO_SIZE_def)

declare carve.simps [simp del]

section \<open>Pools\<close>

datatype pool_ref = Static int | Dynamic UINTN

definition get_pool :: "pool_ref \<Rightarrow> 'y mem_scheme \<Rightarrow> POOL" where
  "get_pool r m =
     (case r of Static t \<Rightarrow> PoolHead m t
      | Dynamic a \<Rightarrow> (case map_of (PoolHeadList m) a of Some P \<Rightarrow> P | None \<Rightarrow> \<lparr>Used = 0, PMemoryType = 0, FreeList = (\<lambda>_. [])\<rparr>))"

definition upd_pool :: "pool_ref \<Rightarrow> (POOL \<Rightarrow> POOL) \<Rightarrow> 'y mem_scheme \<Rightarrow> 'y mem_scheme" where
  "upd_pool r f m =
     (case r of Static t \<Rightarrow> m\<lparr>PoolHead := (PoolHead m)(t := f (PoolHead m t))\<rparr>
      | Dynamic a \<Rightarrow> m\<lparr>PoolHeadList := map (\<lambda>(b, P). (b, if b = a then f P else P)) (PoolHeadList m)\<rparr>)"

definition empty_pool :: "int \<Rightarrow> POOL" where
  "empty_pool t = \<lparr>Used = 0, PMemoryType = t, FreeList = (\<lambda>_. [])\<rparr>"

definition InitializePool :: "'y mem_scheme \<Rightarrow> 'y mem_scheme" where
  "InitializePool m =
     m\<lparr>PoolHead := (\<lambda>t. if 0 \<le> t \<and> t < EfiMaxMemoryType then empty_pool t else PoolHead m t), PoolHeadList := []\<rparr>"

definition LookupPoolHead :: "'y alloc_op \<Rightarrow> int \<Rightarrow> 'y mem_scheme \<Rightarrow> (pool_ref option \<times> 'y mem_scheme) run" where
  "LookupPoolHead allocI t m =
     (if 0 \<le> t \<and> t < EfiMaxMemoryType then Ret (Some (Static t), m)
      else if t < 0
      then case List.find (\<lambda>(a, P). PMemoryType P = t) (PoolHeadList m) of
             Some (a, P) \<Rightarrow> Ret (Some (Dynamic a), m)
           | None \<Rightarrow>
               bind_run (allocI EfiBootServicesData sizeof_POOL m) (\<lambda>(a, m1).
                 if a = 0 then Ret (None, m1)
                 else Ret (Some (Dynamic a), m1\<lparr>PoolHeadList := (a, empty_pool t) # PoolHeadList m1\<rparr>))
      else Ret (None, m))"

section \<open>Allocation\<close>

text \<open>Putting the blocks of a fresh chunk on their free lists.\<close>

definition add_free :: "pool_ref \<Rightarrow> UINTN \<Rightarrow> nat \<times> nat \<Rightarrow> 'y mem_scheme \<Rightarrow> 'y mem_scheme" where
  "add_free r NewPage b m =
     (let a = NewPage + of_nat (fst b)
      in upd_pool r (\<lambda>P. P\<lparr>FreeList := (FreeList P)(snd b := a # FreeList P (snd b))\<rparr>)
           (m\<lparr>Blocks := (Blocks m)(a \<mapsto> POOL_FREE (snd b))\<rparr>))"

text \<open>Writing the header and the tail of a block that is handed out; the buffer is behind the header.\<close>

definition fill_block :: "pool_ref \<Rightarrow> int \<Rightarrow> UINTN \<Rightarrow> UINTN \<Rightarrow> 'y mem_scheme \<Rightarrow> UINTN \<times> 'y mem_scheme" where
  "fill_block r PoolType Size Head m =
     (if Head = 0 then (0, m)
      else let sz = (ucast Size :: UINT32);
               m1 = m\<lparr>Blocks := (Blocks m)(Head \<mapsto> POOL_HEAD PoolType sz),
                      Tails := (Tails m)(Head + ucast sz - sizeof_POOL_TAIL \<mapsto> sz)\<rparr>
           in (Head + SIZE_OF_POOL_HEAD, upd_pool r (\<lambda>P. P\<lparr>Used := Used P + Size\<rparr>) m1))"

definition AllocatePoolI_with :: "'y alloc_op \<Rightarrow> 'y free_op \<Rightarrow> nat \<Rightarrow> 'y alloc_op" where
  "AllocatePoolI_with allocI freeI n PoolType Size0 m =
     (let Size = ALIGN_VARIABLE Size0 + POOL_OVERHEAD;
          Index = SIZE_TO_LIST Size
      in bind_run (LookupPoolHead allocI PoolType m) (\<lambda>(Pool, m1).
           case Pool of
             None \<Rightarrow> Ret (0, m1)
           | Some r \<Rightarrow>
               if Index \<ge> MAX_POOL_LIST
               then bind_run (AllocatePoolPages allocI freeI n PoolType (pool_pages Size) DEFAULT_PAGE_ALLOCATION m1) (\<lambda>(Head, m2).
                      Ret (fill_block r PoolType Size Head m2))
               else
                 bind_run
                   (if FreeList (get_pool r m1) Index = []
                    then bind_run (AllocatePoolPages allocI freeI n PoolType (EFI_SIZE_TO_PAGES DEFAULT_PAGE_ALLOCATION)
                                     DEFAULT_PAGE_ALLOCATION m1) (\<lambda>(NewPage, m2).
                           Ret (NewPage \<noteq> 0, if NewPage \<noteq> 0 then fold (add_free r NewPage) (carve Index 0) m2 else m2))
                    else Ret (True, m1)) (\<lambda>(ok, m2).
                   if \<not> ok then Ret (0, m2)
                   else case FreeList (get_pool r m2) Index of
                          [] \<Rightarrow> Fault
                        | Head # rest \<Rightarrow>
                            Ret (fill_block r PoolType Size Head
                                   (upd_pool r (\<lambda>P. P\<lparr>FreeList := (FreeList P)(Index := rest)\<rparr>) m2)))))"

section \<open>Freeing\<close>

definition is_free :: "UINTN \<Rightarrow> 'y mem_scheme \<Rightarrow> bool" where
  "is_free a m = (case Blocks m a of Some (POOL_FREE _) \<Rightarrow> True | _ \<Rightarrow> False)"

text \<open>\<open>RemoveEntryList\<close> for a free block: off whichever free list it is on.\<close>

definition unlink_free :: "UINTN \<Rightarrow> 'y mem_scheme \<Rightarrow> 'y mem_scheme" where
  "unlink_free a m =
     m\<lparr>PoolHead := (\<lambda>t. (PoolHead m t)\<lparr>FreeList := (\<lambda>i. remove1 a (FreeList (PoolHead m t) i))\<rparr>),
       PoolHeadList := map (\<lambda>(b, P). (b, P\<lparr>FreeList := (\<lambda>i. remove1 a (FreeList P i))\<rparr>)) (PoolHeadList m)\<rparr>"

text \<open>A block goes back to its free list; a chunk that is all free goes back to the memory map.\<close>

definition free_small :: "'y alloc_op \<Rightarrow> 'y free_op \<Rightarrow> nat \<Rightarrow> pool_ref \<Rightarrow> UINTN \<Rightarrow> nat \<Rightarrow> 'y mem_scheme \<Rightarrow> 'y mem_scheme run" where
  "free_small allocI freeI n r Head Index m =
     (let m1 = upd_pool r (\<lambda>P. P\<lparr>FreeList := (FreeList P)(Index := Head # FreeList P Index)\<rparr>)
                 (m\<lparr>Blocks := (Blocks m)(Head \<mapsto> POOL_FREE Index)\<rparr>);
          NewPage = Head AND NOT (DEFAULT_PAGE_ALLOCATION - 1)
      in case Blocks m1 NewPage of
           Some (POOL_FREE j) \<Rightarrow>
             let bs = map (\<lambda>b. NewPage + of_nat (fst b)) (carve j 0)
             in if list_all (\<lambda>a. is_free a m1) bs
                then FreePoolPages allocI freeI n NewPage (EFI_SIZE_TO_PAGES DEFAULT_PAGE_ALLOCATION) (fold unlink_free bs m1)
                else Ret m1
         | _ \<Rightarrow> Ret m1)"

definition FreePoolI_with :: "'y alloc_op \<Rightarrow> 'y free_op \<Rightarrow> nat \<Rightarrow> 'y free_op" where
  "FreePoolI_with allocI freeI n Buffer m =
     (if Buffer = 0 then Ret (EFI_INVALID_PARAMETER, m)
      else
        let Head = Buffer - SIZE_OF_POOL_HEAD
        in case Blocks m Head of
             Some (POOL_HEAD Type sz) \<Rightarrow>
               if Tails m (Head + ucast sz - sizeof_POOL_TAIL) \<noteq> Some sz then Ret (EFI_INVALID_PARAMETER, m)
               else
                 let Size = (ucast sz :: UINTN)
                 in bind_run (LookupPoolHead allocI Type m) (\<lambda>(Pool, m1).
                      case Pool of
                        None \<Rightarrow> Ret (EFI_INVALID_PARAMETER, m1)
                      | Some r \<Rightarrow>
                          let m2 = upd_pool r (\<lambda>P. P\<lparr>Used := Used P - Size\<rparr>) m1;
                              Index = SIZE_TO_LIST Size
                          in bind_run (if Index \<ge> MAX_POOL_LIST then FreePoolPages allocI freeI n Head (pool_pages Size) m2
                                       else free_small allocI freeI n r Head Index m2) (\<lambda>m3.
                               case r of
                                 Dynamic a \<Rightarrow>
                                   if PMemoryType (get_pool r m3) < 0 \<and> Used (get_pool r m3) = 0
                                   then bind_run (freeI a (m3\<lparr>PoolHeadList := filter (\<lambda>(b, P). b \<noteq> a) (PoolHeadList m3)\<rparr>))
                                          (\<lambda>(_, m4). Ret (EFI_SUCCESS, m4))
                                   else Ret (EFI_SUCCESS, m3)
                               | Static t \<Rightarrow> Ret (EFI_SUCCESS, m3)))
           | _ \<Rightarrow> Ret (EFI_INVALID_PARAMETER, m))"

section \<open>Tying the knot\<close>

primrec pool_ops :: "nat \<Rightarrow> 'y alloc_op \<times> 'y free_op" where
  "pool_ops 0 = ((\<lambda>_ _ _. NoFuel), (\<lambda>_ _. NoFuel))"
| "pool_ops (Suc n) =
     (AllocatePoolI_with (fst (pool_ops n)) (snd (pool_ops n)) n,
      FreePoolI_with (fst (pool_ops n)) (snd (pool_ops n)) n)"

definition AllocatePoolI :: "nat \<Rightarrow> 'y alloc_op" where
  "AllocatePoolI n = fst (pool_ops n)"

definition FreePoolI :: "nat \<Rightarrow> 'y free_op" where
  "FreePoolI n = snd (pool_ops n)"

end
