(* ===== verification/MemServices.thy ===== *)
theory MemServices
  imports Pool ExecSystem
begin

text \<open>
  The memory services of \<open>mem/page.c\<close> and \<open>mem/pool.c\<close>, on the state of the execution services with
  the memory state beside it (\<open>exec.more\<close>): each takes the memory lock, whose release may run
  notification functions.
\<close>

type_synonym 'y memst = "'y mem_scheme exec_scheme"

text \<open>\<^verbatim>\<open>AcquireLock (&MemoryLock); ... ReleaseLock (&MemoryLock);\<close> around a body on the memory state.\<close>

definition with_memory ::
  "'y mem_scheme notify_fn \<Rightarrow> nat \<Rightarrow> ('y mem_scheme \<Rightarrow> ('r \<times> 'y mem_scheme) run) \<Rightarrow> 'y memst \<Rightarrow> ('r \<times> 'y memst) run"
where
  "with_memory cb n body s =
     (let s1 = AcquireLock MemoryLock s
      in bind_run (body (exec.more s1)) (\<lambda>(r, m).
         bind_run (ReleaseLock cb n MemoryLock (s1\<lparr>exec.more := m\<rparr>)) (\<lambda>s2. Ret (r, s2))))"

section \<open>Initialisation\<close>

definition InitializeMemoryMap :: "'y memst \<Rightarrow> 'y memst" where
  "InitializeMemoryMap s =
     (let s1 = InitializeLock MemoryLock TPL_NOTIFY s;
          m = InitializePool ((exec.more s1)\<lparr>MemoryMap := []\<rparr>)
      in s1\<lparr>exec.more := m\<lparr>MemoryMapKey := 0, MapDepth := 0, FreeMapStack := 0\<rparr>\<rparr>)"

text \<open>The body of \<open>FwAddMemoryDescriptor\<close> under the lock.\<close>

definition add_body :: "nat \<Rightarrow> int \<Rightarrow> UINT64 \<Rightarrow> UINT64 \<Rightarrow> UINT64 \<Rightarrow> 'y mem_scheme \<Rightarrow> (unit \<times> 'y mem_scheme) run" where
  "add_body n Type Start NoPages Attr m =
     (let End = Start + push_bit EFI_PAGE_SHIFT NoPages - 1
      in bind_run (AddRange (FreePoolI n) Type Start End Attr m) (\<lambda>m1.
         bind_run (FreeMemoryMapStack (AllocatePoolI n) (FreePoolI n) n m1) (\<lambda>m2. Ret ((), m2))))"

definition FwAddMemoryDescriptor ::
  "'y mem_scheme notify_fn \<Rightarrow> nat \<Rightarrow> int \<Rightarrow> UINT64 \<Rightarrow> UINT64 \<Rightarrow> UINT64 \<Rightarrow> 'y memst \<Rightarrow> 'y memst run"
where
  "FwAddMemoryDescriptor cb n Type Start NoPages Attr s =
     bind_run (with_memory cb n (add_body n Type Start NoPages Attr) s) (\<lambda>(_, s'). Ret s')"

section \<open>Pages\<close>

abbreviation (input) AllocateAnyPages :: int where "AllocateAnyPages \<equiv> 0"
abbreviation (input) AllocateMaxAddress :: int where "AllocateMaxAddress \<equiv> 1"
abbreviation (input) AllocateAddress :: int where "AllocateAddress \<equiv> 2"
abbreviation (input) MaxAllocateType :: int where "MaxAllocateType \<equiv> 3"

definition page_alignment :: "int \<Rightarrow> UINTN" where
  "page_alignment MemoryType =
     (if MemoryType \<in> {EfiACPIReclaimMemory, EfiACPIMemoryNVS, EfiRuntimeServicesCode, EfiRuntimeServicesData}
      then 8192 else 4096)"

definition round_pages :: "UINTN \<Rightarrow> UINTN \<Rightarrow> UINTN" where
  "round_pages Alignment NoPages =
     (NoPages + (EFI_SIZE_TO_PAGES Alignment - 1)) AND NOT (EFI_SIZE_TO_PAGES Alignment - 1)"

text \<open>The body of \<open>AllocatePages\<close> under the lock: the status and the base address.\<close>

definition allocate_body :: "nat \<Rightarrow> int \<Rightarrow> int \<Rightarrow> UINTN \<Rightarrow> UINT64 \<Rightarrow> 'y mem_scheme \<Rightarrow> ((EFI_STATUS \<times> UINT64) \<times> 'y mem_scheme) run" where
  "allocate_body n Type MemoryType NoPages Memory m =
     (let MaxAddress = (if Type = AllocateMaxAddress then Memory else MAX_ADDRESS);
          Start = (if Type \<noteq> AllocateAddress then FindFreePages MaxAddress NoPages MemoryType (page_alignment MemoryType) m
                   else Memory)
      in if Type \<noteq> AllocateAddress \<and> Start = 0 then Ret ((EFI_OUT_OF_RESOURCES, Start), m)
         else bind_run (ConvertPages (AllocatePoolI n) (FreePoolI n) n False Start NoPages MemoryType m) (\<lambda>(Status, m1).
                Ret ((Status, Start), m1)))"

definition AllocatePages ::
  "'y mem_scheme notify_fn \<Rightarrow> nat \<Rightarrow> int \<Rightarrow> int \<Rightarrow> UINTN \<Rightarrow> UINT64 \<Rightarrow> 'y memst \<Rightarrow> (EFI_STATUS \<times> UINT64 \<times> 'y memst) run"
where
  "AllocatePages cb n Type MemoryType NoPages Memory s =
     (if Type < AllocateAnyPages \<or> Type \<ge> MaxAllocateType then Ret (EFI_INVALID_PARAMETER, Memory, s)
      else if EfiAtRuntime s then Ret (EFI_UNSUPPORTED, Memory, s)
      else if Type = AllocateAddress \<and> Memory AND (page_alignment MemoryType - 1) \<noteq> 0
      then Ret (EFI_INVALID_PARAMETER, Memory, s)
      else bind_run (with_memory cb n
                       (allocate_body n Type MemoryType (round_pages (page_alignment MemoryType) NoPages) Memory) s)
             (\<lambda>((Status, Start), s1). Ret (Status, if EFI_ERROR Status then Memory else Start, s1)))"

definition BootServiceAllocatePages ::
  "'y mem_scheme notify_fn \<Rightarrow> nat \<Rightarrow> int \<Rightarrow> int \<Rightarrow> UINTN \<Rightarrow> UINT64 \<Rightarrow> 'y memst \<Rightarrow> (EFI_STATUS \<times> UINT64 \<times> 'y memst) run"
where
  "BootServiceAllocatePages cb n Type MemoryType NoPages Memory s =
     (if MemoryType \<ge> EfiMaxMemoryType \<and> MemoryType \<le> 0x7fffffff then Ret (EFI_INVALID_PARAMETER, Memory, s)
      else AllocatePages cb n Type MemoryType NoPages Memory s)"

text \<open>The body of \<open>FreePages\<close> under the lock.\<close>

definition free_body :: "nat \<Rightarrow> UINT64 \<Rightarrow> UINTN \<Rightarrow> 'y mem_scheme \<Rightarrow> (EFI_STATUS \<times> 'y mem_scheme) run" where
  "free_body n Memory NoPages0 m =
     (case List.find (\<lambda>p. MStart (MapEntry m p) \<le> Memory \<and> MEnd (MapEntry m p) > Memory) (MemoryMap m) of
        None \<Rightarrow> Ret (EFI_NOT_FOUND, m)
      | Some p \<Rightarrow>
          let Entry = MapEntry m p;
              Alignment = page_alignment (MType Entry);
              NoPages = round_pages Alignment NoPages0
          in if Memory AND (Alignment - 1) \<noteq> 0 then Ret (EFI_INVALID_PARAMETER, m)
             else if NoPages = 0 \<or> NoPages > drop_bit EFI_PAGE_SHIFT (MEnd Entry - MStart Entry + 1)
             then Ret (EFI_INVALID_PARAMETER, m)
             else ConvertPages (AllocatePoolI n) (FreePoolI n) n False Memory NoPages EfiConventionalMemory m)"

definition FreePages ::
  "'y mem_scheme notify_fn \<Rightarrow> nat \<Rightarrow> UINT64 \<Rightarrow> UINTN \<Rightarrow> 'y memst \<Rightarrow> (EFI_STATUS \<times> 'y memst) run"
where
  "FreePages cb n Memory NoPages s =
     (if EfiAtRuntime s then Ret (EFI_UNSUPPORTED, s) else with_memory cb n (free_body n Memory NoPages) s)"

definition SetCodeSection ::
  "'y mem_scheme notify_fn \<Rightarrow> nat \<Rightarrow> UINT64 \<Rightarrow> UINTN \<Rightarrow> int \<Rightarrow> 'y memst \<Rightarrow> (EFI_STATUS \<times> 'y memst) run"
where
  "SetCodeSection cb n Base NoPages MemoryType s =
     with_memory cb n (ConvertPages (AllocatePoolI n) (FreePoolI n) n True Base NoPages MemoryType) s"

text \<open>
  The watermarks: room for each kind of service memory is allocated from the top of memory and freed
  again, and the place is remembered.
\<close>

abbreviation (input) EFI_RUNTIME_SERVICES_CODE_RESERVE :: UINT64 where "EFI_RUNTIME_SERVICES_CODE_RESERVE \<equiv> 0x80000"
abbreviation (input) EFI_RUNTIME_SERVICES_DATA_RESERVE :: UINT64 where "EFI_RUNTIME_SERVICES_DATA_RESERVE \<equiv> 0x180000"
abbreviation (input) EFI_BOOT_SERVICES_CODE_RESERVE :: UINT64 where "EFI_BOOT_SERVICES_CODE_RESERVE \<equiv> 0x400000"
abbreviation (input) EFI_BOOT_SERVICES_DATA_RESERVE :: UINT64 where "EFI_BOOT_SERVICES_DATA_RESERVE \<equiv> 0xA00000"

definition reserve ::
  "'y mem_scheme notify_fn \<Rightarrow> nat \<Rightarrow> int \<Rightarrow> UINT64 \<Rightarrow> ('y mem_scheme \<Rightarrow> UINT64)
   \<Rightarrow> ((UINT64 \<Rightarrow> UINT64) \<Rightarrow> 'y mem_scheme \<Rightarrow> 'y mem_scheme) \<Rightarrow> 'y memst \<Rightarrow> (bool \<times> 'y memst) run"
where
  "reserve cb n MemoryType Size get upd s =
     bind_run (AllocatePages cb n AllocateMaxAddress MemoryType (drop_bit EFI_PAGE_SHIFT Size) (get (exec.more s)) s)
       (\<lambda>(Status, Memory, s1). Ret (\<not> EFI_ERROR Status, s1\<lparr>exec.more := upd (\<lambda>_. Memory) (exec.more s1)\<rparr>))"

definition unreserve ::
  "'y mem_scheme notify_fn \<Rightarrow> nat \<Rightarrow> bool \<Rightarrow> UINT64 \<Rightarrow> ('y mem_scheme \<Rightarrow> UINT64)
   \<Rightarrow> ((UINT64 \<Rightarrow> UINT64) \<Rightarrow> 'y mem_scheme \<Rightarrow> 'y mem_scheme) \<Rightarrow> 'y memst \<Rightarrow> 'y memst run"
where
  "unreserve cb n ok Size get upd s =
     (if ok then bind_run (FreePages cb n (get (exec.more s)) (drop_bit EFI_PAGE_SHIFT Size) s)
                   (\<lambda>(_, s1). Ret (s1\<lparr>exec.more := upd (\<lambda>w. w + (Size - 1)) (exec.more s1)\<rparr>))
      else Ret s)"

definition InitializeMemoryMapWatermarks :: "'y mem_scheme notify_fn \<Rightarrow> nat \<Rightarrow> 'y memst \<Rightarrow> 'y memst run" where
  "InitializeMemoryMapWatermarks cb n s =
     bind_run (reserve cb n EfiRuntimeServicesData EFI_RUNTIME_SERVICES_DATA_RESERVE
                 EfiWatermarkRuntimeServicesData EfiWatermarkRuntimeServicesData_update s) (\<lambda>(rd, s1).
     bind_run (reserve cb n EfiRuntimeServicesCode EFI_RUNTIME_SERVICES_CODE_RESERVE
                 EfiWatermarkRuntimeServicesCode EfiWatermarkRuntimeServicesCode_update s1) (\<lambda>(rc, s2).
     bind_run (reserve cb n EfiBootServicesCode EFI_BOOT_SERVICES_CODE_RESERVE
                 EfiWatermarkBootServicesCode EfiWatermarkBootServicesCode_update s2) (\<lambda>(bc, s3).
     bind_run (reserve cb n EfiBootServicesData EFI_BOOT_SERVICES_DATA_RESERVE
                 EfiWatermarkBootServicesData EfiWatermarkBootServicesData_update s3) (\<lambda>(bd, s4).
     bind_run (unreserve cb n rc EFI_RUNTIME_SERVICES_CODE_RESERVE
                 EfiWatermarkRuntimeServicesCode EfiWatermarkRuntimeServicesCode_update s4) (\<lambda>s5.
     bind_run (unreserve cb n rd EFI_RUNTIME_SERVICES_DATA_RESERVE
                 EfiWatermarkRuntimeServicesData EfiWatermarkRuntimeServicesData_update s5) (\<lambda>s6.
     bind_run (unreserve cb n bc EFI_BOOT_SERVICES_CODE_RESERVE
                 EfiWatermarkBootServicesCode EfiWatermarkBootServicesCode_update s6) (\<lambda>s7.
     bind_run (if bd then bind_run (FreePages cb n (EfiWatermarkBootServicesData (exec.more s7))
                                      (drop_bit EFI_PAGE_SHIFT EFI_BOOT_SERVICES_DATA_RESERVE) s7) (\<lambda>(_, s8).
                            let m = exec.more s8;
                                m1 = m\<lparr>EfiWatermarkDefault := EfiWatermarkBootServicesData m - 1\<rparr>
                            in Ret (s8\<lparr>exec.more := m1\<lparr>EfiWatermarkBootServicesData :=
                                       EfiWatermarkBootServicesData m1 + (EFI_BOOT_SERVICES_DATA_RESERVE - 1)\<rparr>\<rparr>))
               else Ret s7) (\<lambda>s9.
       Ret (if rd \<and> rc \<and> bc \<and> bd then s9
            else s9\<lparr>exec.more := (exec.more s9)\<lparr>EfiWatermarkRuntimeServicesCode := MAX_ADDRESS,
                       EfiWatermarkRuntimeServicesData := MAX_ADDRESS, EfiWatermarkBootServicesCode := MAX_ADDRESS,
                       EfiWatermarkBootServicesData := MAX_ADDRESS, EfiWatermarkDefault := MAX_ADDRESS\<rparr>\<rparr>)))))))))"

section \<open>The map for the operating system\<close>

record EFI_MEMORY_DESCRIPTOR =
  DType :: UINT32
  DPhysicalStart :: UINT64
  DVirtualStart :: UINT64
  DNumberOfPages :: UINT64
  DAttribute :: UINT64

definition descriptor :: "MEMORY_MAP \<Rightarrow> EFI_MEMORY_DESCRIPTOR" where
  "descriptor Entry =
     \<lparr>DType = word_of_int (MType Entry), DPhysicalStart = MStart Entry, DVirtualStart = VirtualStart Entry,
      DNumberOfPages = drop_bit EFI_PAGE_SHIFT (MEnd Entry - MStart Entry + 1),
      DAttribute = (if MType Entry \<in> {EfiRuntimeServicesCode, EfiRuntimeServicesData, EfiPalCode}
                    then MAttribute Entry OR EFI_MEMORY_RUNTIME else MAttribute Entry)\<rparr>"

text \<open>The padded descriptor size, \<open>sizeof(EFI_MEMORY_DESCRIPTOR)\<close> being 40.\<close>

definition descriptor_size :: UINTN where
  "descriptor_size = 40 + (8 - 40 mod 8)"

text \<open>
  What \<open>GetMemoryMap\<close> writes through its pointers, \<open>None\<close> where it writes nothing. A \<open>NULL\<close> size
  pointer is \<open>None\<close>; the other pointers are the Booleans that say whether they are not \<open>NULL\<close>.
\<close>

record GetMemoryMap_out =
  OMemoryMapSize :: "UINTN option"
  ODesc :: "EFI_MEMORY_DESCRIPTOR list option"
  OMapKey :: "UINTN option"
  ODescriptorSize :: "UINTN option"
  ODescriptorVersion :: "UINT32 option"

definition build_map :: "UINTN \<Rightarrow> bool \<Rightarrow> bool \<Rightarrow> GetMemoryMap_out \<Rightarrow> 'y mem_scheme \<Rightarrow> EFI_STATUS \<times> GetMemoryMap_out" where
  "build_map MapSize Desc MapKey out m =
     (let BufferSize = of_nat (length (MemoryMap m)) * descriptor_size;
          out1 = out\<lparr>OMemoryMapSize := Some BufferSize\<rparr>
      in if MapSize < BufferSize then (EFI_BUFFER_TOO_SMALL, out1)
         else if \<not> Desc then (EFI_INVALID_PARAMETER, out1)
         else (EFI_SUCCESS, out1\<lparr>ODesc := Some (map (\<lambda>p. descriptor (MapEntry m p)) (MemoryMap m)),
                                 OMapKey := (if MapKey then Some (MemoryMapKey m) else None)\<rparr>))"

definition GetMemoryMap ::
  "'y mem_scheme notify_fn \<Rightarrow> nat \<Rightarrow> UINTN option \<Rightarrow> bool \<Rightarrow> bool \<Rightarrow> bool \<Rightarrow> bool \<Rightarrow> 'y memst
   \<Rightarrow> ((EFI_STATUS \<times> GetMemoryMap_out) \<times> 'y memst) run"
where
  "GetMemoryMap cb n MemoryMapSize Desc MapKey DescriptorSize DescriptorVersion s =
     (let out = \<lparr>OMemoryMapSize = None, ODesc = None, OMapKey = None, ODescriptorSize = None, ODescriptorVersion = None\<rparr>
      in case MemoryMapSize of
           None \<Rightarrow> Ret ((EFI_INVALID_PARAMETER, out), s)
         | Some MapSize \<Rightarrow>
             let out1 = out\<lparr>ODescriptorSize := (if DescriptorSize then Some descriptor_size else None),
                             ODescriptorVersion := (if DescriptorVersion then Some 1 else None)\<rparr>
             in with_memory cb n (\<lambda>m. Ret (build_map MapSize Desc MapKey out1 m, m)) s)"

definition bad_runtime_entry :: "MEMORY_MAP \<Rightarrow> bool" where
  "bad_runtime_entry Entry \<longleftrightarrow>
     MAttribute Entry AND EFI_MEMORY_RUNTIME \<noteq> 0 \<and>
     (MType Entry = EfiACPIReclaimMemory \<or> MType Entry = EfiACPIMemoryNVS \<or>
      MStart Entry AND (8192 - 1) \<noteq> 0 \<or> (MEnd Entry + 1) AND (8192 - 1) \<noteq> 0)"

definition TerminateMemoryMap ::
  "'y mem_scheme notify_fn \<Rightarrow> nat \<Rightarrow> UINTN \<Rightarrow> 'y memst \<Rightarrow> (EFI_STATUS \<times> 'y memst) run"
where
  "TerminateMemoryMap cb n MapKey s =
     (let s1 = AcquireLock MemoryLock s;
          m = exec.more s1
      in if MapKey = MemoryMapKey m
         then if list_ex (\<lambda>p. bad_runtime_entry (MapEntry m p)) (MemoryMap m)
              then bind_run (ReleaseLock cb n MemoryLock s1) (\<lambda>s2. Ret (EFI_INVALID_PARAMETER, s2))
              else bind_run (ReleaseLock cb n MemoryLock (s1\<lparr>EfiAtRuntime := True\<rparr>)) (\<lambda>s2. Ret (EFI_SUCCESS, s2))
         else bind_run (ReleaseLock cb n MemoryLock s1) (\<lambda>s2. Ret (EFI_INVALID_PARAMETER, s2)))"

section \<open>Pool\<close>

text \<open>The second result is what is written to \<open>*Buffer\<close>, if anything.\<close>

definition BSAllocatePool ::
  "'y mem_scheme notify_fn \<Rightarrow> nat \<Rightarrow> int \<Rightarrow> UINTN \<Rightarrow> 'y memst \<Rightarrow> (EFI_STATUS \<times> UINTN option \<times> 'y memst) run"
where
  "BSAllocatePool cb n PoolType Size s =
     (if EfiAtRuntime s then Ret (EFI_UNSUPPORTED, None, s)
      else if Size > 0xffffff00 then Ret (EFI_UNSUPPORTED, Some 0, s)
      else bind_run (with_memory cb n (AllocatePoolI n PoolType Size) s) (\<lambda>(Buffer, s1).
             Ret (if Buffer \<noteq> 0 then EFI_SUCCESS else EFI_OUT_OF_RESOURCES, Some Buffer, s1)))"

definition BootServiceAllocatePool ::
  "'y mem_scheme notify_fn \<Rightarrow> nat \<Rightarrow> int \<Rightarrow> UINTN \<Rightarrow> 'y memst \<Rightarrow> (EFI_STATUS \<times> UINTN option \<times> 'y memst) run"
where
  "BootServiceAllocatePool cb n PoolType Size s =
     (if PoolType \<ge> EfiMaxMemoryType \<and> PoolType \<le> 0x7fffffff then Ret (EFI_INVALID_PARAMETER, None, s)
      else BSAllocatePool cb n PoolType Size s)"

definition BSFreePool ::
  "'y mem_scheme notify_fn \<Rightarrow> nat \<Rightarrow> UINTN \<Rightarrow> 'y memst \<Rightarrow> (EFI_STATUS \<times> 'y memst) run"
where
  "BSFreePool cb n Buffer s =
     (if EfiAtRuntime s then Ret (EFI_UNSUPPORTED, s) else with_memory cb n (FreePoolI n Buffer) s)"

end
