(* ===== verification/MapInv.thy ===== *)
theory MapInv
  imports MemMap
begin

text \<open>
  The invariant of the memory map and its abstract view: the set of the addresses it describes, each
  with its memory type and attribute. Addresses are natural numbers here.
\<close>

section \<open>Descriptors as intervals\<close>

definition iv :: "MEMORY_MAP \<Rightarrow> nat set" where
  "iv E = {unat (MStart E) ..< Suc (unat (MEnd E))}"

text \<open>
  A descriptor is not empty, starts and ends at page boundaries and does not reach the very last
  address, where \<open>MEnd + 1\<close> would wrap around.
\<close>

definition wf_range :: "UINT64 \<Rightarrow> UINT64 \<Rightarrow> bool" where
  "wf_range S E \<longleftrightarrow> S \<le> E \<and> unat S mod 4096 = 0 \<and> Suc (unat E) mod 4096 = 0 \<and> Suc (unat E) < 2 ^ 64"

definition wf_entry :: "MEMORY_MAP \<Rightarrow> bool" where
  "wf_entry E \<longleftrightarrow> wf_range (MStart E) (MEnd E)"

text \<open>
  The invariant of the list of descriptors, as a function of the list, the descriptors and the depth
  of the stack: the descriptors are well-formed and do not overlap, a descriptor on the stack is
  below its top, and \<open>FromPool\<close> says where it lives.
\<close>

definition home :: "nat \<Rightarrow> map_ptr \<Rightarrow> MEMORY_MAP \<Rightarrow> bool" where
  "home d p E = (case p of OnStack i \<Rightarrow> i < d \<and> \<not> FromPool E | OnPool a \<Rightarrow> FromPool E)"

definition mlist_inv :: "map_ptr list \<Rightarrow> (map_ptr \<Rightarrow> MEMORY_MAP) \<Rightarrow> nat \<Rightarrow> bool" where
  "mlist_inv ps E d \<longleftrightarrow>
     distinct ps \<and> (\<forall>p\<in>set ps. wf_entry (E p) \<and> home d p (E p)) \<and>
     (\<forall>p\<in>set ps. \<forall>q\<in>set ps. p \<noteq> q \<longrightarrow> iv (E p) \<inter> iv (E q) = {})"

definition map_inv :: "'y mem_scheme \<Rightarrow> bool" where
  "map_inv m \<longleftrightarrow> mlist_inv (MemoryMap m) (MapEntry m) (MapDepth m)"

text \<open>What the descriptors say of each address: its type and its attribute.\<close>

definition ereg :: "MEMORY_MAP \<Rightarrow> (nat \<times> int \<times> UINT64) set" where
  "ereg E = {(a, t, w). a \<in> iv E \<and> t = MType E \<and> w = MAttribute E}"

definition lregion :: "map_ptr list \<Rightarrow> (map_ptr \<Rightarrow> MEMORY_MAP) \<Rightarrow> (nat \<times> int \<times> UINT64) set" where
  "lregion ps E = (\<Union>p\<in>set ps. ereg (E p))"

definition region :: "'y mem_scheme \<Rightarrow> (nat \<times> int \<times> UINT64) set" where
  "region m = lregion (MemoryMap m) (MapEntry m)"

text \<open>Taking addresses out of the map, and putting them in with a type and an attribute.\<close>

definition cut :: "nat set \<Rightarrow> (nat \<times> int \<times> UINT64) set \<Rightarrow> (nat \<times> int \<times> UINT64) set" where
  "cut X R = {(a, t, w). (a, t, w) \<in> R \<and> a \<notin> X}"

definition fill :: "nat set \<Rightarrow> int \<Rightarrow> UINT64 \<Rightarrow> (nat \<times> int \<times> UINT64) set" where
  "fill X t w = {(a, t', w'). a \<in> X \<and> t' = t \<and> w' = w}"

definition addrs :: "UINT64 \<Rightarrow> UINT64 \<Rightarrow> nat set" where
  "addrs S E = {unat S ..< Suc (unat E)}"

lemma iv_addrs: "iv E = addrs (MStart E) (MEnd E)"
  by (simp add: iv_def addrs_def)

lemma mlist_wf: "mlist_inv ps E d \<Longrightarrow> p \<in> set ps \<Longrightarrow> wf_entry (E p)"
  by (simp add: mlist_inv_def)

lemma lregion_functional:
  assumes "mlist_inv ps E d" and "(a, t, w) \<in> lregion ps E" and "(a, t', w') \<in> lregion ps E"
  shows "t = t' \<and> w = w'"
  using assms unfolding mlist_inv_def lregion_def ereg_def by fastforce

subsection \<open>Changing the list\<close>

lemma mlist_upd:
  assumes "mlist_inv ps E d" and "p \<in> set ps" and "wf_entry E'" and "FromPool E' = FromPool (E p)"
    and "\<And>q. q \<in> set ps \<Longrightarrow> q \<noteq> p \<Longrightarrow> iv E' \<inter> iv (E q) = {}"
  shows "mlist_inv ps (E(p := E')) d"
  using assms unfolding mlist_inv_def by (auto simp: home_def Int_commute split: map_ptr.splits)

lemma mlist_remove: "mlist_inv ps E d \<Longrightarrow> mlist_inv (remove1 p ps) E d"
  unfolding mlist_inv_def by (auto dest!: in_set_remove1 notin_set_remove1)

lemma mlist_push:
  assumes "mlist_inv ps E d" and "wf_entry E'" and "\<not> FromPool E'" and "\<And>q. q \<in> set ps \<Longrightarrow> iv E' \<inter> iv (E q) = {}"
  shows "mlist_inv (ps @ [OnStack d]) (E(OnStack d := E')) (Suc d)" "OnStack d \<notin> set ps"
proof -
  show n: "OnStack d \<notin> set ps" using assms(1) by (auto simp: mlist_inv_def home_def)
  have "home (Suc d) q (E q)" if "q \<in> set ps" for q
    using assms(1) that by (auto simp: mlist_inv_def home_def split: map_ptr.splits)
  then show "mlist_inv (ps @ [OnStack d]) (E(OnStack d := E')) (Suc d)"
    using assms n unfolding mlist_inv_def by (auto simp: home_def Int_commute)
qed

lemma lregion_upd: "p \<in> set ps \<Longrightarrow> distinct ps \<Longrightarrow> lregion ps (E(p := E')) = lregion (remove1 p ps) E \<union> ereg E'"
  by (auto simp: lregion_def split: if_splits)

lemma lregion_split: "p \<in> set ps \<Longrightarrow> distinct ps \<Longrightarrow> lregion ps E = lregion (remove1 p ps) E \<union> ereg (E p)"
  by (auto simp: lregion_def)

lemma lregion_push: "p \<notin> set ps \<Longrightarrow> lregion (ps @ [p]) (E(p := E')) = lregion ps E \<union> ereg E'"
  by (auto simp: lregion_def split: if_splits)

lemma lregion_others:
  assumes "mlist_inv ps E d" and "p \<in> set ps" and "(a, t, w) \<in> lregion (remove1 p ps) E"
  shows "a \<notin> iv (E p)"
  using assms unfolding mlist_inv_def lregion_def ereg_def by auto

lemma cut_entry:
  assumes "mlist_inv ps E d" and "p \<in> set ps" and "X \<subseteq> iv (E p)"
    and "ereg E1 \<union> Y = {(a, t, w). a \<in> iv (E p) - X \<and> t = MType (E p) \<and> w = MAttribute (E p)}"
  shows "lregion (remove1 p ps) E \<union> ereg E1 \<union> Y = cut X (lregion ps E)"
proof -
  have d: "distinct ps" using assms(1) by (simp add: mlist_inv_def)
  have "cut X (lregion ps E) = lregion (remove1 p ps) E \<union> cut X (ereg (E p))"
    using lregion_others [OF assms(1,2)] assms(3) unfolding lregion_split [OF assms(2) d] cut_def by fast
  moreover have "cut X (ereg (E p)) = ereg E1 \<union> Y" using assms(4) by (auto simp: cut_def ereg_def)
  ultimately show ?thesis by auto
qed

section \<open>Words as numbers\<close>

lemma unat_plus1: "Suc (unat x) < 2 ^ 64 \<Longrightarrow> unat (x + 1) = Suc (unat x)" for x :: "64 word"
  by (simp add: unat_word_ariths)

lemma unat_minus1: "x \<noteq> 0 \<Longrightarrow> unat (x - 1) = unat x - 1" for x :: "64 word"
  by (rule unat_minus_one)

lemma unat_add_le: "unat x + unat y < 2 ^ 64 \<Longrightarrow> unat (x + y) = unat x + unat y" for x y :: "64 word"
  by (simp add: unat_word_ariths)

lemma unat_sub_le: "unat y \<le> unat x \<Longrightarrow> unat (x - y) = unat x - unat y" for x y :: "64 word"
  by (simp add: unat_sub word_le_nat_alt)

lemma no_overflow: "x \<le> x + y \<Longrightarrow> unat x + unat y < 2 ^ 64" for x y :: "64 word"
proof -
  assume "x \<le> x + y"
  then have "unat (x + y) = unat x + unat y" using unat_plus_simple by blast
  then show ?thesis using unsigned_less [of "x + y", where ?'a = nat] by simp
qed

lemma page_offset: "unat (x AND EFI_PAGE_MASK) = unat x mod 4096" for x :: "64 word"
proof -
  have "x AND EFI_PAGE_MASK = take_bit 12 x" by (simp add: take_bit_eq_mask mask_eq_exp_minus_1)
  then show ?thesis by (simp add: take_bit_eq_mod unat_mod_distrib)
qed

lemma unat_of_nat64: "n < 2 ^ 64 \<Longrightarrow> unat (of_nat n :: 64 word) = n"
  by (simp add: unat_of_nat take_bit_nat_eq_self)

lemma unat_exp: "k < 64 \<Longrightarrow> unat ((2 :: 64 word) ^ k) = 2 ^ k"
  using unat_of_nat64 [of "2 ^ k"] power_strict_increasing [of k 64 "2 :: nat"] by simp

lemma align_down:
  fixes x :: "64 word"
  assumes "k < 64"
  shows "unat (x AND NOT (2 ^ k - 1)) = unat x div 2 ^ k * 2 ^ k"
proof -
  have "x AND NOT (2 ^ k - 1) = push_bit k (drop_bit k x)"
    by (rule bit_word_eqI) (auto simp: bit_simps mask_eq_exp_minus_1 [symmetric])
  also have "unat \<dots> = unat x div 2 ^ k * 2 ^ k"
  proof -
    have "unat x div 2 ^ k * 2 ^ k \<le> unat x" by simp
    also have "\<dots> < 2 ^ 64" using unsigned_less [of x, where ?'a = nat] by simp
    finally have "unat x div 2 ^ k * 2 ^ k < 2 ^ 64" .
    moreover have "unat (drop_bit k x) = unat x div 2 ^ k" by (simp add: drop_bit_eq_div unat_div_distrib unat_exp assms)
    ultimately show ?thesis by (simp add: push_bit_eq_mult unat_word_ariths unat_exp assms del: drop_bit_eq_div)
  qed
  finally show ?thesis .
qed

lemma page_or: "x AND EFI_PAGE_MASK = 0 \<Longrightarrow> x OR EFI_PAGE_MASK = x + EFI_PAGE_MASK" for x :: "64 word"
  by (simp add: disjunctive_add_eq_or)

lemma shift_pages: "unat n < 2 ^ 52 \<Longrightarrow> unat (push_bit EFI_PAGE_SHIFT n) = unat n * 4096" for n :: "64 word"
  by (simp add: push_bit_eq_mult unat_word_ariths)

lemma page_offset_neg: "(1 - push_bit EFI_PAGE_SHIFT n) AND EFI_PAGE_MASK = 1" for n :: "64 word"
proof -
  have "1 AND push_bit 12 (- n) = 0" by (rule bit_word_eqI) (simp add: bit_simps)
  then have "1 + push_bit 12 (- n) = 1 OR push_bit 12 (- n)" by (rule disjunctive_add_eq_or)
  moreover have "1 - push_bit 12 n = 1 + push_bit 12 (- n)" by (simp add: push_bit_eq_mult)
  moreover have "(1 OR push_bit 12 (- n)) AND mask 12 = 1" by (rule bit_word_eqI) (auto simp: bit_simps)
  ultimately show ?thesis by (simp add: mask_eq_exp_minus_1)
qed

section \<open>An example\<close>

text \<open>The state after the first free range has been added: one megabyte at \<open>0x100000\<close>.\<close>

definition one_range :: mem where
  "one_range = \<lparr>MemoryMap = [OnStack 0],
     MapEntry = (\<lambda>_. \<lparr>FromPool = False, MType = EfiConventionalMemory, MStart = 0x100000, MEnd = 0x1FFFFF,
                       VirtualStart = 0, MAttribute = 0xF\<rparr>),
     MapDepth = 1, FreeMapStack = 0, MemoryMapKey = 1,
     EfiWatermarkRuntimeServicesCode = MAX_ADDRESS, EfiWatermarkRuntimeServicesData = MAX_ADDRESS,
     EfiWatermarkBootServicesCode = MAX_ADDRESS, EfiWatermarkBootServicesData = MAX_ADDRESS,
     EfiWatermarkDefault = MAX_ADDRESS,
     PoolHead = (\<lambda>t. \<lparr>Used = 0, PMemoryType = t, FreeList = (\<lambda>_. [])\<rparr>), PoolHeadList = [],
     Blocks = Map.empty, Tails = Map.empty\<rparr>"

lemma map_inv_one_range: "map_inv one_range"
  by (simp add: map_inv_def mlist_inv_def home_def one_range_def wf_entry_def wf_range_def)

end
