(* ===== verification/MapOps.thy ===== *)
theory MapOps
  imports MapInv
begin

text \<open>
  The changes of the list of descriptors (\<open>pull_range\<close>, the two halves of \<open>AddRange\<close>, the move of a
  descriptor to the pool) as changes of the region: each keeps the invariant of the map and takes
  out or puts in exactly the addresses it should. The calls of the pool are not in these lemmas:
  every one of them happens in a state that the lemmas here describe.
\<close>

text \<open>The part of the state that the changes of the list leave alone.\<close>

definition pool_same :: "'y mem_scheme \<Rightarrow> 'y mem_scheme \<Rightarrow> bool" where
  "pool_same m m' \<longleftrightarrow>
     PoolHead m' = PoolHead m \<and> PoolHeadList m' = PoolHeadList m \<and> Blocks m' = Blocks m \<and> Tails m' = Tails m \<and>
     mem.more m' = mem.more m"

definition pool_entries :: "'y mem_scheme \<Rightarrow> UINTN set" where
  "pool_entries m = {a. OnPool a \<in> set (MemoryMap m)}"

lemma upd_entry_simps [simp]:
  "MemoryMap (upd_entry p f m) = MemoryMap m" "MapDepth (upd_entry p f m) = MapDepth m"
  "MapEntry (upd_entry p f m) = (MapEntry m)(p := f (MapEntry m p))"
  "pool_same m' (upd_entry p f m) = pool_same m' m" "FreeMapStack (upd_entry p f m) = FreeMapStack m"
  by (simp_all add: upd_entry_def pool_same_def)

lemma pool_same_refl [simp]: "pool_same m m"
  by (simp add: pool_same_def)

lemma pool_same_fields [simp]:
  "pool_same m' (m\<lparr>MemoryMap := x\<rparr>) = pool_same m' m" "pool_same m' (m\<lparr>MapDepth := y\<rparr>) = pool_same m' m"
  "pool_same m' (m\<lparr>MemoryMapKey := z\<rparr>) = pool_same m' m" "pool_same m' (m\<lparr>FreeMapStack := v\<rparr>) = pool_same m' m"
  by (simp_all add: pool_same_def)

lemma map_inv_key [simp]:
  "map_inv (m\<lparr>MemoryMapKey := k\<rparr>) = map_inv m" "region (m\<lparr>MemoryMapKey := k\<rparr>) = region m"
  "pool_entries (m\<lparr>MemoryMapKey := k\<rparr>) = pool_entries m"
  "map_inv (m\<lparr>FreeMapStack := v\<rparr>) = map_inv m" "region (m\<lparr>FreeMapStack := v\<rparr>) = region m"
  "pool_entries (m\<lparr>FreeMapStack := v\<rparr>) = pool_entries m"
  "region (m\<lparr>MapDepth := d\<rparr>) = region m" "pool_entries (m\<lparr>MapDepth := d\<rparr>) = pool_entries m"
  by (simp_all add: map_inv_def region_def pool_entries_def)

section \<open>Taking a range out\<close>

text \<open>The state after \<open>pull_range\<close> and, when nothing is left of the descriptor, after its removal.\<close>

definition pulled :: "map_ptr \<Rightarrow> 'y mem_scheme \<Rightarrow> 'y mem_scheme" where
  "pulled q m1 = (if MStart (MapEntry m1 q) = MEnd (MapEntry m1 q) + 1 then m1\<lparr>MemoryMap := remove1 q (MemoryMap m1)\<rparr> else m1)"

lemma wf_rangeD:
  assumes "wf_range S R"
  shows "unat S \<le> unat R" "unat S mod 4096 = 0" "Suc (unat R) mod 4096 = 0" "unat (R + 1) = Suc (unat R)"
    "R + 1 \<noteq> 0" "R \<noteq> - 1"
proof -
  show "unat S \<le> unat R" "unat S mod 4096 = 0" "Suc (unat R) mod 4096 = 0"
    using assms by (auto simp: wf_range_def word_le_nat_alt)
  show u: "unat (R + 1) = Suc (unat R)" using assms by (intro unat_plus1) (simp add: wf_range_def)
  then show "R + 1 \<noteq> 0" by (metis nat.distinct(1) unsigned_0)
  then show "R \<noteq> - 1" by auto
qed

lemma wf_range_rest:
  assumes "wf_range S0 R0" and "wf_range S R"
  shows "R < R0 \<Longrightarrow> wf_range (R + 1) R0" and "S0 < S \<Longrightarrow> wf_range S0 (S - 1) \<and> Suc (unat (S - 1)) = unat S"
proof -
  note w = wf_rangeD [OF assms(2)]
  show "wf_range (R + 1) R0" if "R < R0"
    using assms w that by (auto simp: wf_range_def word_le_nat_alt word_less_nat_alt)
  show "wf_range S0 (S - 1) \<and> Suc (unat (S - 1)) = unat S" if lt: "S0 < S"
  proof -
    have "S \<noteq> 0" using lt by auto
    then have s: "Suc (unat (S - 1)) = unat S" using unat_minus1 [of S] by (simp add: unat_gt_0)
    have "unat S < 2 ^ 64" using unsigned_less [of S, where ?'a = nat] by simp
    moreover have "unat S0 < unat S" using lt by (simp add: word_less_nat_alt)
    moreover have "unat S0 \<le> unat (S - 1)" using calculation s by linarith
    ultimately show ?thesis using assms(1) w(2) s unfolding wf_range_def word_le_nat_alt s by auto
  qed
qed

lemma addrs_rest:
  assumes "wf_range S0 R0" and "wf_range S R" and "S0 \<le> S" and "R \<le> R0"
  shows "addrs S R \<subseteq> addrs S0 R0"
    and "addrs S0 R0 - addrs S R = (if S0 < S then addrs S0 (S - 1) else {}) \<union> (if R < R0 then addrs (R + 1) R0 else {})"
  using assms wf_rangeD [OF assms(2)] wf_range_rest [OF assms(1,2)] unfolding addrs_def
  by (auto simp: word_le_nat_alt word_less_nat_alt)

lemma ereg_clip:
  "ereg (E\<lparr>MStart := S\<rparr>) = fill (addrs S (MEnd E)) (MType E) (MAttribute E)"
  "ereg (E\<lparr>MEnd := R\<rparr>) = fill (addrs (MStart E) R) (MType E) (MAttribute E)"
  "ereg E = fill (iv E) (MType E) (MAttribute E)"
  by (auto simp: ereg_def fill_def iv_addrs)

lemma fill_Un: "fill X t w \<union> fill Y t w = fill (X \<union> Y) t w" "fill {} t w = {}"
  by (auto simp: fill_def)

lemma cut_entry_fill:
  assumes "mlist_inv ps E d" and "p \<in> set ps" and "X \<subseteq> iv (E p)" and "Y = fill (iv (E p) - X) (MType (E p)) (MAttribute (E p))"
  shows "lregion (remove1 p ps) E \<union> Y = cut X (lregion ps E)"
proof -
  have d: "distinct ps" using assms(1) by (simp add: mlist_inv_def)
  have "cut X (lregion ps E) = lregion (remove1 p ps) E \<union> cut X (ereg (E p))"
    using lregion_others [OF assms(1,2)] assms(3) unfolding lregion_split [OF assms(2) d] cut_def by fast
  moreover have "cut X (ereg (E p)) = Y" using assms(4) by (auto simp: cut_def ereg_def fill_def)
  ultimately show ?thesis by auto
qed

lemma shrink_disjoint:
  assumes "mlist_inv ps E d" and "p \<in> set ps" and "iv E' \<subseteq> iv (E p)" and "q \<in> set ps" "q \<noteq> p"
  shows "iv E' \<inter> iv (E q) = {}"
  using assms unfolding mlist_inv_def by blast

lemma pull_range_cut:
  assumes inv: "map_inv m" and p: "p \<in> set (MemoryMap m)" and wf: "wf_range S R"
    and le: "MStart (MapEntry m p) \<le> S" "R \<le> MEnd (MapEntry m p)" and ret: "pull_range p S R m = Ret (q, m1)"
  shows "map_inv (pulled q m1) \<and> region (pulled q m1) = cut (addrs S R) (region m) \<and> pool_same m (pulled q m1) \<and>
         MAttribute (MapEntry m1 q) = MAttribute (MapEntry m p) \<and> MapEntry (pulled q m1) q = MapEntry m1 q \<and>
         q \<in> set (MemoryMap m1) \<and> home (MapDepth m1) q (MapEntry m1 q) \<and> distinct (MemoryMap m1) \<and> pool_entries m1 = pool_entries m"
proof -
  let ?E = "MapEntry m p" and ?ps = "MemoryMap m"
  have mi: "mlist_inv ?ps (MapEntry m) (MapDepth m)" using inv by (simp add: map_inv_def)
  have d: "distinct ?ps" using mi by (simp add: mlist_inv_def)
  have we: "wf_range (MStart ?E) (MEnd ?E)" using mlist_wf [OF mi p] by (simp add: wf_entry_def)
  note w = wf_rangeD [OF wf] and rest = wf_range_rest [OF we wf] and ar = addrs_rest [OF we wf le]
  have iv: "addrs S R \<subseteq> iv ?E" using ar(1) by (simp add: iv_addrs)
  have hm: "home (MapDepth m) p ?E" using mi p by (simp add: mlist_inv_def)
  consider (all) "MStart ?E = S" "MEnd ?E = R" | (start) "MStart ?E = S" "R < MEnd ?E"
    | (fin) "MStart ?E < S" "MEnd ?E = R" | (mid) "MStart ?E < S" "R < MEnd ?E"
    using le by (auto simp: order_le_less)
  then show ?thesis
  proof cases
    case all
    then have r: "q = p" "m1 = upd_entry p (\<lambda>E. E\<lparr>MStart := R + 1\<rparr>) m" using ret by (auto simp: pull_range_def Let_def)
    then have pl: "pulled q m1 = m1\<lparr>MemoryMap := remove1 p ?ps\<rparr>" using all by (simp add: pulled_def)
    have "lregion (remove1 p ?ps) (MapEntry m1) = lregion (remove1 p ?ps) (MapEntry m)"
      using d r by (auto simp: lregion_def)
    also have "\<dots> = cut (addrs S R) (lregion ?ps (MapEntry m))"
      using cut_entry_fill [OF mi p iv] all by (simp add: iv_addrs fill_Un)
    finally have "region (pulled q m1) = cut (addrs S R) (region m)" unfolding pl by (simp add: region_def)
    moreover have "mlist_inv (remove1 p ?ps) (MapEntry m1) (MapDepth m)"
      using mlist_remove [OF mi, of p] d r by (auto simp: mlist_inv_def)
    ultimately show ?thesis using pl r p hm d by (simp add: map_inv_def pool_entries_def home_def split: map_ptr.splits)
  next
    case start
    let ?E' = "?E\<lparr>MStart := R + 1\<rparr>"
    have r: "q = p" "m1 = upd_entry p (\<lambda>E. E\<lparr>MStart := R + 1\<rparr>) m" using ret start by (auto simp: pull_range_def Let_def)
    have pl: "pulled q m1 = m1" using start r w by (auto simp: pulled_def)
    have "iv ?E' = iv ?E - addrs S R" using ar(2) start by (simp add: iv_addrs)
    then have "lregion ?ps (MapEntry m1) = cut (addrs S R) (lregion ?ps (MapEntry m))"
      using cut_entry_fill [OF mi p iv, of "ereg ?E'"] lregion_upd [OF p d] r by (simp add: ereg_clip(3))
    moreover have "mlist_inv ?ps (MapEntry m1) (MapDepth m)"
      using mlist_upd [OF mi p, of ?E'] shrink_disjoint [OF mi p, of ?E'] \<open>iv ?E' = _\<close> rest(1) start(2) r
      by (simp add: wf_entry_def)
    ultimately show ?thesis using pl r p hm d by (simp add: map_inv_def region_def pool_entries_def home_def split: map_ptr.splits)
  next
    case fin
    let ?E' = "?E\<lparr>MEnd := S - 1\<rparr>"
    have r: "q = p" "m1 = upd_entry p (\<lambda>E. E\<lparr>MEnd := S - 1\<rparr>) m" using ret fin by (auto simp: pull_range_def Let_def split: if_splits)
    have pl: "pulled q m1 = m1" using fin r by (auto simp: pulled_def)
    have "iv ?E' = iv ?E - addrs S R" using ar(2) fin by (simp add: iv_addrs)
    then have "lregion ?ps (MapEntry m1) = cut (addrs S R) (lregion ?ps (MapEntry m))"
      using cut_entry_fill [OF mi p iv, of "ereg ?E'"] lregion_upd [OF p d] r by (simp add: ereg_clip(3))
    moreover have "mlist_inv ?ps (MapEntry m1) (MapDepth m)"
      using mlist_upd [OF mi p, of ?E'] shrink_disjoint [OF mi p, of ?E'] \<open>iv ?E' = _\<close> rest(2) fin(1) r
      by (simp add: wf_entry_def)
    ultimately show ?thesis using pl r p hm d by (simp add: map_inv_def region_def pool_entries_def home_def split: map_ptr.splits)
  next
    case mid
    let ?d = "OnStack (MapDepth m)" and ?E' = "?E\<lparr>MEnd := S - 1\<rparr>"
    let ?N = "(MapEntry m ?d)\<lparr>FromPool := False, MType := MType ?E, MStart := R + 1, MEnd := MEnd ?E, MAttribute := MAttribute ?E\<rparr>"
    have n: "?d \<notin> set ?ps" using mi by (auto simp: mlist_inv_def home_def)
    then have pd: "p \<noteq> ?d" using p by auto
    have r: "q = ?d" "MemoryMap m1 = ?ps @ [?d]" "MapDepth m1 = Suc (MapDepth m)" "pool_same m m1"
        "MapEntry m1 = ((MapEntry m)(p := ?E'))(?d := ?N)"
      using ret mid pd by (auto simp: pull_range_def push_entry_def Let_def fun_eq_iff split: if_splits)
    have pl: "pulled q m1 = m1" using mid r w pd by (auto simp: pulled_def)
    have sub: "iv ?N \<subseteq> iv ?E" "iv ?N \<inter> iv ?E' = {}" and un: "iv ?E' \<union> iv ?N = iv ?E - addrs S R"
      using ar(2) mid rest w by (auto simp: iv_addrs addrs_def word_le_nat_alt word_less_nat_alt)
    have mi': "mlist_inv ?ps ((MapEntry m)(p := ?E')) (MapDepth m)"
      by (rule mlist_upd [OF mi p]) (use un rest(2) mid shrink_disjoint [OF mi p, of ?E'] in \<open>auto simp: wf_entry_def\<close>)
    have "mlist_inv (MemoryMap m1) (MapEntry m1) (MapDepth m1)"
      unfolding r by (rule mlist_push [OF mi'])
        (use sub shrink_disjoint [OF mi p sub(1)] rest(1) mid in \<open>auto simp: wf_entry_def split: if_splits\<close>)
    moreover have "lregion (MemoryMap m1) (MapEntry m1) = lregion (remove1 p ?ps) (MapEntry m) \<union> ereg ?E' \<union> ereg ?N"
      unfolding r using lregion_push [OF n] lregion_upd [OF p d] by simp
    moreover have "ereg ?E' \<union> ereg ?N = fill (iv ?E - addrs S R) (MType ?E) (MAttribute ?E)"
      unfolding un [symmetric] by (auto simp: ereg_def fill_def)
    then have "lregion (remove1 p ?ps) (MapEntry m) \<union> ereg ?E' \<union> ereg ?N = cut (addrs S R) (lregion ?ps (MapEntry m))"
      using cut_entry_fill [OF mi p iv] by (simp add: Un_assoc)
    ultimately show ?thesis using pl r n d by (simp add: map_inv_def region_def pool_entries_def home_def)
  qed
qed

section \<open>Putting a range in\<close>

text \<open>A descriptor that has just become superfluous: the map is well-formed without it.\<close>

definition removable :: "map_ptr \<Rightarrow> 'y mem_scheme \<Rightarrow> bool" where
  "removable p m \<longleftrightarrow> p \<in> set (MemoryMap m) \<and> distinct (MemoryMap m) \<and> home (MapDepth m) p (MapEntry m p) \<and>
     map_inv (m\<lparr>MemoryMap := remove1 p (MemoryMap m)\<rparr>)"

definition fresh :: "nat set \<Rightarrow> 'y mem_scheme \<Rightarrow> bool" where
  "fresh X m \<longleftrightarrow> (\<forall>(a, t, w)\<in>region m. a \<notin> X)"

lemma fresh_disjoint: "fresh X m \<Longrightarrow> p \<in> set (MemoryMap m) \<Longrightarrow> X \<inter> iv (MapEntry m p) = {}"
  unfolding fresh_def region_def lregion_def ereg_def by fastforce

lemma extend_entry:
  assumes inv: "map_inv m" and p: "p \<in> set (MemoryMap m)" and fr: "fresh X m"
    and E': "wf_entry E'" "FromPool E' = FromPool (MapEntry m p)" "MType E' = MType (MapEntry m p)"
      "MAttribute E' = MAttribute (MapEntry m p)" "iv E' = iv (MapEntry m p) \<union> X"
  shows "map_inv (upd_entry p (\<lambda>_. E') m)"
    and "region (upd_entry p (\<lambda>_. E') m) = region m \<union> fill X (MType (MapEntry m p)) (MAttribute (MapEntry m p))"
proof -
  have mi: "mlist_inv (MemoryMap m) (MapEntry m) (MapDepth m)" using inv by (simp add: map_inv_def)
  then have d: "distinct (MemoryMap m)" by (simp add: mlist_inv_def)
  have "iv E' \<inter> iv (MapEntry m q) = {}" if "q \<in> set (MemoryMap m)" "q \<noteq> p" for q
  proof -
    have "iv (MapEntry m p) \<inter> iv (MapEntry m q) = {}" using mi p that by (simp add: mlist_inv_def)
    then show ?thesis using fresh_disjoint [OF fr that(1)] E'(5) by auto
  qed
  then show "map_inv (upd_entry p (\<lambda>_. E') m)"
    using mlist_upd [OF mi p E'(1,2)] by (simp add: map_inv_def)
  have "ereg E' = ereg (MapEntry m p) \<union> fill X (MType (MapEntry m p)) (MAttribute (MapEntry m p))"
    using E' by (auto simp: ereg_def fill_def)
  then show "region (upd_entry p (\<lambda>_. E') m) = region m \<union> fill X (MType (MapEntry m p)) (MAttribute (MapEntry m p))"
    using lregion_upd [OF p d] lregion_split [OF p d, of "MapEntry m"] by (auto simp: region_def)
qed

lemma join_ranges:
  assumes "wf_range S R" and "wf_range S' R'" and "R + 1 = S'"
  shows "wf_range S R'" and "addrs S R' = addrs S R \<union> addrs S' R'" and "S' \<noteq> R' + 1" and "S' \<noteq> S"
  using wf_rangeD [OF assms(1)] wf_rangeD [OF assms(2)] assms unfolding wf_range_def addrs_def
  by (auto simp: word_le_nat_alt)

text \<open>The descriptor \<open>p\<close> is absorbed by its neighbour \<open>q\<close>.\<close>

lemma absorb_entry:
  assumes inv: "map_inv m" and p: "p \<in> set (MemoryMap m)" and q: "q \<in> set (MemoryMap m)" "q \<noteq> p"
    and E': "wf_entry E'" "FromPool E' = FromPool (MapEntry m q)" "MType E' = MType (MapEntry m q)"
      "MAttribute E' = MAttribute (MapEntry m q)" "iv E' = iv (MapEntry m q) \<union> iv (MapEntry m p)"
    and same: "MType (MapEntry m p) = MType (MapEntry m q)" "MAttribute (MapEntry m p) = MAttribute (MapEntry m q)"
    and m': "m' = upd_entry q (\<lambda>_. E') m"
  shows "removable p m'" and "region (m'\<lparr>MemoryMap := remove1 p (MemoryMap m')\<rparr>) = region m"
    and "MapEntry m' p = MapEntry m p"
proof -
  let ?r = "m\<lparr>MemoryMap := remove1 p (MemoryMap m)\<rparr>"
  have mi: "mlist_inv (MemoryMap m) (MapEntry m) (MapDepth m)" using inv by (simp add: map_inv_def)
  then have d: "distinct (MemoryMap m)" and hp: "home (MapDepth m) p (MapEntry m p)"
    using p by (auto simp: mlist_inv_def)
  have inv': "map_inv ?r" using mlist_remove [OF mi] by (simp add: map_inv_def)
  have fr: "fresh (iv (MapEntry m p)) ?r"
    using lregion_others [OF mi p] by (auto simp: fresh_def region_def)
  have q': "q \<in> set (MemoryMap ?r)" using q d by simp
  have eq: "m'\<lparr>MemoryMap := remove1 p (MemoryMap m')\<rparr> = upd_entry q (\<lambda>_. E') ?r"
    by (simp add: m' upd_entry_def)
  note ex = extend_entry [OF inv' q' fr, of E']
  show "removable p m'"
    using ex(1) E' p d hp q(2) unfolding removable_def eq by (simp add: m')
  have "region (upd_entry q (\<lambda>_. E') ?r) = region ?r \<union> ereg (MapEntry m p)"
    using ex(2) E' same by (simp add: ereg_clip(3))
  then show "region (m'\<lparr>MemoryMap := remove1 p (MemoryMap m')\<rparr>) = region m"
    using lregion_split [OF p d, of "MapEntry m"] unfolding eq by (simp add: region_def)
  show "MapEntry m' p = MapEntry m p" using q(2) by (simp add: m')
qed

text \<open>\<open>AddRange\<close> as a change of the map: what it returns, or what it is about to remove.\<close>

definition added :: "nat set \<Rightarrow> int \<Rightarrow> UINT64 \<Rightarrow> 'y mem_scheme \<Rightarrow> 'y mem_scheme \<Rightarrow> bool" where
  "added X t w m m' \<longleftrightarrow> region m' = region m \<union> fill X t w \<and> pool_same m m'"

lemma merge_entry_ok:
  assumes inv: "map_inv m" and p: "p \<in> set (MemoryMap m)"
  shows "merge_entry freeI p m = Ret m \<or>
         (\<exists>m'. merge_entry freeI p m = RemoveMemoryMapEntry freeI p m' \<and> removable p m' \<and> pool_same m m' \<and>
               region (m'\<lparr>MemoryMap := remove1 p (MemoryMap m')\<rparr>) = region m \<and> pool_entries m' = pool_entries m)"
proof (cases "merge_entry freeI p m = Ret m")
  case False
  let ?E = "MapEntry m p"
  let ?P = "\<lambda>q. MType ?E = MType (MapEntry m q) \<and> MAttribute ?E = MAttribute (MapEntry m q) \<and>
             (MEnd ?E + 1 = MStart (MapEntry m q) \<or> MStart ?E = MEnd (MapEntry m q) + 1)"
  have mi: "mlist_inv (MemoryMap m) (MapEntry m) (MapDepth m)" using inv by (simp add: map_inv_def)
  have wp: "wf_range (MStart ?E) (MEnd ?E)" using mlist_wf [OF mi p] by (simp add: wf_entry_def)
  from False obtain q where f: "List.find ?P (MemoryMap m) = Some q"
    by (auto simp: merge_entry_def Let_def split: option.splits)
  then have q: "q \<in> set (MemoryMap m)" and Pq: "?P q" by (auto simp: find_Some_iff)
  let ?F = "MapEntry m q"
  have wq: "wf_range (MStart ?F) (MEnd ?F)" using mlist_wf [OF mi q] by (simp add: wf_entry_def)
  have ne: "q \<noteq> p" using Pq wf_rangeD [OF wp] by (auto simp: word_unat_eq_iff)
  define m' where "m' = (if MEnd ?E + 1 = MStart ?F then upd_entry q (\<lambda>E. E\<lparr>MStart := MStart ?E\<rparr>) m
                         else upd_entry q (\<lambda>E. E\<lparr>MEnd := MEnd ?E\<rparr>) m)"
  define E' where "E' = (if MEnd ?E + 1 = MStart ?F then ?F\<lparr>MStart := MStart ?E\<rparr> else ?F\<lparr>MEnd := MEnd ?E\<rparr>)"
  have eq: "m' = upd_entry q (\<lambda>_. E') m" by (simp add: m'_def E'_def upd_entry_def)
  have "wf_entry E' \<and> iv E' = iv ?F \<union> iv ?E"
    using Pq join_ranges [OF wp wq] join_ranges [OF wq wp] by (auto simp: E'_def wf_entry_def iv_addrs)
  then have "removable p m'" "region (m'\<lparr>MemoryMap := remove1 p (MemoryMap m')\<rparr>) = region m"
    using absorb_entry [OF inv p q ne, of E' m'] eq Pq by (auto simp: E'_def)
  moreover have "merge_entry freeI p m = RemoveMemoryMapEntry freeI p m'"
    using f by (simp add: merge_entry_def Let_def m'_def)
  moreover have "pool_same m m'" "pool_entries m' = pool_entries m" by (simp_all add: eq pool_entries_def)
  ultimately show ?thesis by blast
qed simp

lemma AddRange_cases:
  assumes inv: "map_inv m" and wf: "wf_range S R" and fr: "fresh (addrs S R) m"
  shows "(\<exists>m'. AddRange freeI t S R w m = Ret m' \<and> map_inv m' \<and> added (addrs S R) t w m m' \<and> pool_entries m' = pool_entries m) \<or>
         (\<exists>p m'. AddRange freeI t S R w m = RemoveMemoryMapEntry freeI p m' \<and> removable p m' \<and>
            added (addrs S R) t w m (m'\<lparr>MemoryMap := remove1 p (MemoryMap m')\<rparr>) \<and> pool_entries m' = pool_entries m) \<or>
         AddRange freeI t S R w m = Fault"
proof -
  let ?k = "m\<lparr>MemoryMapKey := MemoryMapKey m + 1\<rparr>"
  have mi: "mlist_inv (MemoryMap m) (MapEntry m) (MapDepth m)" using inv by (simp add: map_inv_def)
  show ?thesis
  proof (cases "List.find (\<lambda>p. adjoins t w S R (MapEntry m p)) (MemoryMap m)")
    case None
    let ?N = "\<lparr>FromPool = False, MType = t, MStart = S, MEnd = R, VirtualStart = 0, MAttribute = w\<rparr>"
    have "mlist_inv (MemoryMap m @ [OnStack (MapDepth m)]) ((MapEntry m)(OnStack (MapDepth m) := ?N)) (Suc (MapDepth m))"
        and n: "OnStack (MapDepth m) \<notin> set (MemoryMap m)"
      using mlist_push [OF mi, of ?N] wf fresh_disjoint [OF fr] by (auto simp: wf_entry_def iv_addrs)
    moreover have "ereg ?N = fill (addrs S R) t w" by (simp add: ereg_clip(3) iv_addrs)
    ultimately show ?thesis
      using None lregion_push [OF n, of "MapEntry m" ?N]
      by (auto simp: AddRange_def Let_def push_entry_def map_inv_def added_def region_def pool_entries_def)
  next
    case (Some p)
    then have p: "p \<in> set (MemoryMap m)" and ad: "adjoins t w S R (MapEntry m p)" by (auto simp: find_Some_iff)
    let ?E = "MapEntry m p"
    have wp: "wf_range (MStart ?E) (MEnd ?E)" using mlist_wf [OF mi p] by (simp add: wf_entry_def)
    define E' where "E' = (if MEnd ?E + 1 = S then ?E\<lparr>MEnd := R\<rparr> else ?E\<lparr>MStart := S\<rparr>)"
    let ?m1 = "upd_entry p (\<lambda>_. E') ?k"
    have "wf_entry E' \<and> iv E' = iv ?E \<union> addrs S R"
      using ad join_ranges [OF wp wf] join_ranges [OF wf wp] by (auto simp: E'_def adjoins_def wf_entry_def iv_addrs)
    then have i1: "map_inv ?m1" and r1: "region ?m1 = region m \<union> fill (addrs S R) t w"
      using extend_entry [of ?k p "addrs S R" E'] inv p fr ad by (auto simp: E'_def adjoins_def fresh_def)
    have eq: "AddRange freeI t S R w m = merge_entry freeI p ?m1"
      using Some by (auto simp: AddRange_def Let_def E'_def upd_entry_def)
    have pe: "pool_entries ?m1 = pool_entries m" and ps: "pool_same m ?m1" by (simp_all add: pool_entries_def)
    from ps have ps': "pool_same ?m1 m' = pool_same m m'" for m' by (auto simp: pool_same_def)
    have "p \<in> set (MemoryMap ?m1)" using p by simp
    from merge_entry_ok [OF i1 this, of freeI] show ?thesis
    proof (elim disjE exE conjE, goal_cases)
      case 1
      then show ?thesis using i1 r1 pe ps unfolding eq added_def by blast
    next
      case (2 m')
      then show ?thesis using r1 pe ps' unfolding eq added_def by (intro disjI2 disjI1 exI [of _ p] exI [of _ m']) simp
    qed
  qed
qed

section \<open>Moving a descriptor to the pool\<close>

lemma set_insert_pool_entry: "set (insert_pool_entry E p ps) = insert p (set ps)"
  and distinct_insert_pool_entry: "p \<notin> set ps \<Longrightarrow> distinct ps \<Longrightarrow> distinct (insert_pool_entry E p ps)"
  by (induction ps) auto

lemma move_to_pool_ok:
  assumes inv: "mlist_inv (MemoryMap m) (MapEntry m) (Suc d)" and d: "OnStack d \<in> set (MemoryMap m)"
    and e: "OnPool e \<notin> set (MemoryMap m)" and depth: "MapDepth m = d"
  shows "map_inv (move_to_pool d e m) \<and> region (move_to_pool d e m) = region m \<and> pool_same m (move_to_pool d e m) \<and>
         pool_entries (move_to_pool d e m) = insert e (pool_entries m)"
proof -
  let ?ps = "remove1 (OnStack d) (MemoryMap m)" and ?N = "(MapEntry m (OnStack d))\<lparr>FromPool := True\<rparr>"
  let ?E = "(MapEntry m)(OnPool e := ?N)"
  have dist: "distinct (MemoryMap m)" using inv by (simp add: mlist_inv_def)
  have ne: "OnPool e \<notin> set ?ps" using e dist by simp
  have st: "set ?ps = set (MemoryMap m) - {OnStack d}" using dist by simp
  have eq: "MemoryMap (move_to_pool d e m) = insert_pool_entry ?E (OnPool e) ?ps" "MapEntry (move_to_pool d e m) = ?E"
      "MapDepth (move_to_pool d e m) = d" "pool_same m (move_to_pool d e m)"
    using depth by (simp_all add: move_to_pool_def Let_def)
  have "home d q (?E q)" if "q = OnPool e \<or> q \<in> set ?ps" for q
    using that inv ne st by (auto simp: mlist_inv_def home_def less_Suc_eq split: map_ptr.splits)
  moreover have "wf_entry (?E q)" if "q = OnPool e \<or> q \<in> set ?ps" for q
    using that inv ne st d by (auto simp: mlist_inv_def wf_entry_def)
  moreover have "iv (?E q) \<inter> iv (?E q') = {}" if "q = OnPool e \<or> q \<in> set ?ps" "q' = OnPool e \<or> q' \<in> set ?ps" "q \<noteq> q'" for q q'
    using that inv ne st d by (auto simp: mlist_inv_def iv_addrs Int_commute)
  ultimately have "map_inv (move_to_pool d e m)"
    using distinct_insert_pool_entry [OF ne] dist
    unfolding map_inv_def eq mlist_inv_def by (auto simp: set_insert_pool_entry)
  moreover have "region (move_to_pool d e m) = lregion ?ps (MapEntry m) \<union> ereg (MapEntry m (OnStack d))"
  proof -
    have "region (move_to_pool d e m) = lregion (?ps @ [OnPool e]) ?E"
      unfolding region_def eq lregion_def by (simp add: set_insert_pool_entry)
    also have "\<dots> = lregion ?ps (MapEntry m) \<union> ereg ?N" by (rule lregion_push [OF ne])
    also have "ereg ?N = ereg (MapEntry m (OnStack d))" by (simp add: ereg_def iv_addrs)
    finally show ?thesis .
  qed
  then have "region (move_to_pool d e m) = region m" using lregion_split [OF d dist] by (simp add: region_def)
  ultimately show ?thesis using eq st by (auto simp: pool_entries_def set_insert_pool_entry)
qed

end
