(* ===== verification/PoolInv.thy ===== *)
theory PoolInv
  imports Pool MapInv
begin

text \<open>
  The invariant of the pool: chunks of pages, each cut into blocks or holding one large block; the
  blocks on the free lists and the blocks handed out are different blocks of these chunks.
\<close>

section \<open>How a chunk is cut up\<close>

text \<open>Blocks that lie side by side from \<open>off\<close> to the end of the chunk.\<close>

fun tiles :: "nat \<Rightarrow> (nat \<times> nat) list \<Rightarrow> bool" where
  "tiles off [] \<longleftrightarrow> off = 8192"
| "tiles off ((o1, i) # bs) \<longleftrightarrow> o1 = off \<and> tiles (off + LIST_TO_SIZE i) bs"

lemma carve_tiles: "128 dvd off \<Longrightarrow> off \<le> 8192 \<Longrightarrow> tiles off (carve i off) \<and> (\<forall>(o1, j)\<in>set (carve i off). j \<le> i)"
proof (induction i off rule: carve.induct)
  case (1 i off)
  show ?case
  proof (cases "off \<ge> 8192")
    case True
    then show ?thesis using 1(4) by (simp add: carve.simps)
  next
    case False
    show ?thesis
    proof (cases "off + LIST_TO_SIZE i \<le> 8192")
      case True
      have "128 dvd off + LIST_TO_SIZE i" using 1(3) by (simp add: LIST_TO_SIZE_def)
      then show ?thesis using 1(1) [OF False True] True False by (subst (1 2) carve.simps) auto
    next
      case nfit: False
      have "i \<noteq> 0"
      proof
        assume "i = 0"
        then have "8192 < off + 128" using nfit by (simp add: LIST_TO_SIZE_def)
        moreover obtain k where "off = 128 * k" using 1(3) by blast
        ultimately show False using False by simp
      qed
      then show ?thesis using 1(2) [OF False nfit] 1(3,4) False nfit by (subst (1 2) carve.simps) auto
    qed
  qed
qed

lemma carve_first: "i < 64 \<Longrightarrow> \<exists>bs. carve i 0 = (0, i) # bs"
  by (subst carve.simps) (simp add: LIST_TO_SIZE_def)

lemma tiles_bound: "tiles off bs \<Longrightarrow> off \<le> 8192 \<and> (\<forall>(o1, i)\<in>set bs. off \<le> o1 \<and> o1 + LIST_TO_SIZE i \<le> 8192)"
proof (induction bs arbitrary: off)
  case (Cons b bs)
  obtain o1 i where b: "b = (o1, i)" by force
  with Cons.prems have "o1 = off" "tiles (off + LIST_TO_SIZE i) bs" by auto
  then show ?case using Cons.IH [of "off + LIST_TO_SIZE i"] b by auto
qed simp

lemma tiles_disjoint:
  "tiles off bs \<Longrightarrow> (o1, i) \<in> set bs \<Longrightarrow> (o2, j) \<in> set bs \<Longrightarrow> (o1, i) \<noteq> (o2, j) \<Longrightarrow>
   o1 + LIST_TO_SIZE i \<le> o2 \<or> o2 + LIST_TO_SIZE j \<le> o1"
proof (induction bs arbitrary: off)
  case (Cons b bs)
  obtain o3 k where b: "b = (o3, k)" by force
  with Cons.prems(1) have t: "o3 = off" "tiles (off + LIST_TO_SIZE k) bs" by auto
  note le = tiles_bound [OF t(2)]
  show ?case using Cons.prems(2-4) Cons.IH [OF t(2)] le b t(1) by auto
qed simp

lemma tiles_distinct: "tiles off bs \<Longrightarrow> distinct (map fst bs)"
proof (induction bs arbitrary: off)
  case (Cons b bs)
  obtain o3 k where b: "b = (o3, k)" by force
  with Cons.prems(1) have t: "o3 = off" "tiles (off + LIST_TO_SIZE k) bs" by auto
  have "0 < LIST_TO_SIZE k" by (simp add: LIST_TO_SIZE_def)
  then show ?case using Cons.IH [OF t(2)] tiles_bound [OF t(2)] b t(1) by fastforce
qed simp

lemma carve_0: "tiles 0 (carve i 0)" "(o1, j) \<in> set (carve i 0) \<Longrightarrow> j \<le> i \<and> o1 + LIST_TO_SIZE j \<le> 8192"
  using carve_tiles [of 0 i] tiles_bound [of 0 "carve i 0"] by auto

text \<open>
  C22: the nested loops that cut a chunk into blocks end for every size class, and lay the blocks out
  side by side: the first one has the requested class, the blocks do not overlap, and together they
  fill the chunk exactly, so that the index never runs below 0.
\<close>

theorem carve_partition:
  assumes "Index < 64"
  shows "\<exists>bs. carve Index 0 = (0, Index) # bs \<and> tiles 0 (carve Index 0) \<and>
           (\<forall>(offset, i)\<in>set (carve Index 0). i \<le> Index \<and> offset + LIST_TO_SIZE i \<le> 8192) \<and>
           (\<Sum>(offset, i)\<leftarrow>carve Index 0. LIST_TO_SIZE i) = 8192"
proof -
  have sum: "tiles off bs \<Longrightarrow> off + (\<Sum>(offset, i)\<leftarrow>bs. LIST_TO_SIZE i) = 8192" for off bs
    by (induction off bs rule: tiles.induct) auto
  obtain bs where "carve Index 0 = (0, Index) # bs" using carve_first [OF assms] by blast
  moreover have "\<forall>(offset, i)\<in>set (carve Index 0). i \<le> Index \<and> offset + LIST_TO_SIZE i \<le> 8192"
    using carve_0(2) by auto
  moreover have "(\<Sum>(offset, i)\<leftarrow>carve Index 0. LIST_TO_SIZE i) = 8192" using sum [OF carve_0(1)] by simp
  ultimately show ?thesis using carve_0(1) [of Index] by blast
qed

theorem carve_partition_witness:
  "carve 20 0 = [(0, 20), (2688, 20), (5376, 20), (8064, 0)] \<and>
   (\<exists>bs. carve 20 0 = (0, 20) # bs \<and> tiles 0 (carve 20 0) \<and>
           (\<forall>(offset, i)\<in>set (carve 20 0). i \<le> 20 \<and> offset + LIST_TO_SIZE i \<le> 8192) \<and>
           (\<Sum>(offset, i)\<leftarrow>carve 20 0. LIST_TO_SIZE i) = 8192)"
  using carve_partition [of 20] by (simp add: carve.simps LIST_TO_SIZE_def)

section \<open>Chunks and blocks\<close>

text \<open>A chunk is cut into blocks from a size class downwards, or holds one block of whole pages.\<close>

datatype chunk = Small nat | Big nat

definition chunk_size :: "chunk \<Rightarrow> nat" where
  "chunk_size c = (case c of Small j \<Rightarrow> 8192 | Big p \<Rightarrow> p * 4096)"

definition space :: "UINTN \<Rightarrow> chunk \<Rightarrow> nat set" where
  "space b c = {unat b ..< unat b + chunk_size c}"

definition chunk_ok :: "UINTN \<Rightarrow> chunk \<Rightarrow> bool" where
  "chunk_ok b c \<longleftrightarrow> b \<noteq> 0 \<and> unat b mod 8192 = 0 \<and> unat b + chunk_size c < 2 ^ 64 \<and>
     (case c of Small j \<Rightarrow> j < 64 | Big p \<Rightarrow> 0 < p)"

definition chunks_ok :: "(UINTN \<rightharpoonup> chunk) \<Rightarrow> bool" where
  "chunks_ok C \<longleftrightarrow> (\<forall>b c. C b = Some c \<longrightarrow> chunk_ok b c) \<and>
     (\<forall>b c b' c'. C b = Some c \<and> C b' = Some c' \<and> b \<noteq> b' \<longrightarrow> space b c \<inter> space b' c' = {})"

definition slot :: "(UINTN \<rightharpoonup> chunk) \<Rightarrow> UINTN \<Rightarrow> nat \<Rightarrow> bool" where
  "slot C a i \<longleftrightarrow> (\<exists>b j o1. C b = Some (Small j) \<and> (o1, i) \<in> set (carve j 0) \<and> a = b + of_nat o1)"

text \<open>A block of a chunk, with its room.\<close>

definition block :: "(UINTN \<rightharpoonup> chunk) \<Rightarrow> UINTN \<Rightarrow> nat \<Rightarrow> bool" where
  "block C a n \<longleftrightarrow> (\<exists>i. slot C a i \<and> n = LIST_TO_SIZE i) \<or> (\<exists>p. C a = Some (Big p) \<and> n = p * 4096)"

lemma slot_addr:
  assumes "chunk_ok b (Small j)" and "(o1, i) \<in> set (carve j 0)"
  shows "unat (b + of_nat o1) = unat b + o1" "{unat (b + of_nat o1) ..< unat (b + of_nat o1) + LIST_TO_SIZE i} \<subseteq> space b (Small j)"
proof -
  have o: "o1 + LIST_TO_SIZE i \<le> 8192" using carve_0(2) [OF assms(2)] by simp
  have b: "unat b + 8192 < 2 ^ 64" using assms(1) by (simp add: chunk_ok_def chunk_size_def)
  then have "unat (of_nat o1 :: 64 word) = o1" using o by (intro unat_of_nat64) simp
  then show u: "unat (b + of_nat o1) = unat b + o1" using o b by (subst unat_add_le) simp_all
  show "{unat (b + of_nat o1) ..< unat (b + of_nat o1) + LIST_TO_SIZE i} \<subseteq> space b (Small j)"
    using o unfolding u by (auto simp: space_def chunk_size_def)
qed

lemma block_space:
  assumes "chunks_ok C" and "block C a n"
  shows "\<exists>b c. C b = Some c \<and> {unat a ..< unat a + n} \<subseteq> space b c \<and> 0 < n \<and> chunk_ok b c"
proof -
  have ok: "C b = Some c \<Longrightarrow> chunk_ok b c" for b c using assms(1) by (simp add: chunks_ok_def)
  from assms(2) consider i b j o1 where "C b = Some (Small j)" "(o1, i) \<in> set (carve j 0)" "a = b + of_nat o1" "n = LIST_TO_SIZE i"
    | p where "C a = Some (Big p)" "n = p * 4096" by (auto simp: block_def slot_def)
  then show ?thesis
  proof cases
    case 1
    then show ?thesis using slot_addr(2) [OF ok [OF 1(1)] 1(2)] ok [OF 1(1)] by (auto simp: LIST_TO_SIZE_def)
  next
    case 2
    then show ?thesis using ok [OF 2(1)] by (intro exI [of _ a] exI [of _ "Big p"]) (auto simp: space_def chunk_size_def chunk_ok_def)
  qed
qed

lemma block_bounds:
  assumes "chunks_ok C" and "block C a n"
  shows "a \<noteq> 0" "unat a + n < 2 ^ 64"
proof -
  obtain b c where b: "C b = Some c" "{unat a ..< unat a + n} \<subseteq> space b c" "0 < n" "chunk_ok b c"
    using block_space [OF assms] by blast
  have "unat a \<in> {unat a ..< unat a + n}" "unat a + n - 1 \<in> {unat a ..< unat a + n}" using b(3) by auto
  then have "unat a \<in> space b c" "unat a + n - 1 \<in> space b c" using b(2) by blast+
  then show "a \<noteq> 0" "unat a + n < 2 ^ 64"
    using b(3,4) unat_gt_0 [of b] by (auto simp: space_def chunk_ok_def)
qed

lemma chunk_unique:
  "chunks_ok C \<Longrightarrow> C b = Some c \<Longrightarrow> C b' = Some c' \<Longrightarrow> x \<in> space b c \<Longrightarrow> x \<in> space b' c' \<Longrightarrow> b' = b \<and> c' = c"
  unfolding chunks_ok_def by (metis disjoint_iff option.inject)

lemma chunks_okD: "chunks_ok C \<Longrightarrow> C b = Some c \<Longrightarrow> chunk_ok b c"
  by (simp add: chunks_ok_def)

lemma slot_owner:
  assumes ok: "chunks_ok C" and b: "C b = Some c" and a: "unat a \<in> space b c" and s: "slot C a i"
  shows "\<exists>j o1. c = Small j \<and> (o1, i) \<in> set (carve j 0) \<and> a = b + of_nat o1 \<and> unat a = unat b + o1"
proof -
  obtain b2 j o1 where o: "C b2 = Some (Small j)" "(o1, i) \<in> set (carve j 0)" "a = b2 + of_nat o1"
    using s by (auto simp: slot_def)
  note sa = slot_addr [OF chunks_okD [OF ok o(1)] o(2)]
  have "unat a \<in> space b2 (Small j)" using sa(2) o(3) by (auto simp: LIST_TO_SIZE_def)
  then have "b2 = b \<and> Small j = c" using chunk_unique [OF ok b o(1) a] by simp
  then show ?thesis using o sa(1) by blast
qed

lemma slot_block: "slot C a i \<Longrightarrow> block C a (LIST_TO_SIZE i)"
  by (auto simp: block_def)

lemma slot_unique:
  assumes "chunks_ok C" and "slot C a i" and "slot C a j"
  shows "i = j"
proof -
  obtain b c where b: "C b = Some c" "{unat a ..< unat a + LIST_TO_SIZE i} \<subseteq> space b c"
    using block_space [OF assms(1) slot_block [OF assms(2)]] by blast
  then have a: "unat a \<in> space b c" by (auto simp: LIST_TO_SIZE_def)
  obtain k o1 o2 where "(o1, i) \<in> set (carve k 0)" "(o2, j) \<in> set (carve k 0)" "o1 = o2"
    using slot_owner [OF assms(1) b(1) a assms(2)] slot_owner [OF assms(1) b(1) a assms(3)] by auto
  then show ?thesis using tiles_distinct [OF carve_0(1) [of k]] by (metis eq_key_imp_eq_value)
qed

lemma slot_not_big:
  assumes "chunks_ok C" and "slot C a i" shows "C a \<noteq> Some (Big p)"
proof
  assume C: "C a = Some (Big p)"
  have "unat a \<in> space a (Big p)" using chunks_okD [OF assms(1) C] by (simp add: space_def chunk_size_def chunk_ok_def)
  then show False using slot_owner [OF assms(1) C _ assms(2)] by auto
qed

lemma blocks_disjoint:
  assumes ok: "chunks_ok C" and a: "block C a n" and a': "block C a' n'" and ne: "a \<noteq> a'"
  shows "{unat a ..< unat a + n} \<inter> {unat a' ..< unat a' + n'} = {}"
proof -
  obtain b c where b: "C b = Some c" "{unat a ..< unat a + n} \<subseteq> space b c" "0 < n" using block_space [OF ok a] by blast
  obtain b' c' where b': "C b' = Some c'" "{unat a' ..< unat a' + n'} \<subseteq> space b' c'" "0 < n'" using block_space [OF ok a'] by blast
  have in_b: "unat a \<in> space b c" and in_b': "unat a' \<in> space b' c'" using b(2,3) b'(2,3) by auto
  show ?thesis
  proof (cases "b = b'")
    case False
    then show ?thesis using ok b b' unfolding chunks_ok_def by blast
  next
    case same: True
    then have c': "c' = c" using b(1) b'(1) by simp
    have big: "x = b" if "C x = Some (Big p)" "unat x \<in> space b c" for x p
    proof -
      have "unat x \<in> space x (Big p)" using chunks_okD [OF ok that(1)] by (simp add: space_def chunk_size_def chunk_ok_def)
      then show ?thesis using chunk_unique [OF ok b(1) that(1) that(2)] by simp
    qed
    from a a' show ?thesis unfolding block_def
    proof (elim disjE exE conjE)
      fix i i' assume s: "slot C a i" "n = LIST_TO_SIZE i" "slot C a' i'" "n' = LIST_TO_SIZE i'"
      obtain j o1 where x: "c = Small j" "(o1, i) \<in> set (carve j 0)" "unat a = unat b + o1"
        using slot_owner [OF ok b(1) in_b s(1)] by blast
      obtain o2 where y: "(o2, i') \<in> set (carve j 0)" "unat a' = unat b + o2"
        using slot_owner [OF ok b(1) _ s(3)] in_b' same c' x(1) by auto
      have "(o1, i) \<noteq> (o2, i')" using ne x(3) y(2) by (auto simp: word_unat_eq_iff)
      then have "o1 + n \<le> o2 \<or> o2 + n' \<le> o1" using tiles_disjoint [OF carve_0(1) x(2) y(1)] s by blast
      then show ?thesis using x(3) y(2) by auto
    next
      fix i p assume s: "slot C a i" "C a' = Some (Big p)"
      then have "C b = Some (Big p)" using big in_b' same c' by metis
      then show ?thesis using slot_owner [OF ok b(1) in_b s(1)] b(1) by auto
    next
      fix i p assume s: "slot C a' i" "C a = Some (Big p)"
      then have "C b = Some (Big p)" using big in_b by metis
      then show ?thesis using slot_owner [OF ok b(1) _ s(1)] in_b' same c' b(1) by auto
    next
      fix p p' assume "C a = Some (Big p)" "C a' = Some (Big p')"
      then have "a = a'" using big in_b in_b' same c' by metis
      then show ?thesis using ne by simp
    qed
  qed
qed

section \<open>Block sizes\<close>

lemma SIZE_TO_LIST_div: "SIZE_TO_LIST x = unat x div 128"
  by (simp add: SIZE_TO_LIST_def drop_bit_eq_div unat_div_distrib)

lemma EFI_SIZE_TO_PAGES_ge: "unat x \<le> unat (EFI_SIZE_TO_PAGES x) * 4096" "unat (EFI_SIZE_TO_PAGES x) \<le> 2 ^ 52"
proof -
  have d: "unat (drop_bit 12 x) = unat x div 4096" by (simp add: drop_bit_eq_div unat_div_distrib)
  have lt: "unat x div 4096 < 2 ^ 52" using unsigned_less [of x, where ?'a = nat] by (simp add: less_mult_imp_div_less)
  have off: "x AND EFI_PAGE_MASK \<noteq> 0 \<longleftrightarrow> unat x mod 4096 \<noteq> 0"
    by (metis page_offset unat_eq_zero unsigned_0)
  have "unat (EFI_SIZE_TO_PAGES x) = unat x div 4096 + (if unat x mod 4096 \<noteq> 0 then 1 else 0)"
    unfolding EFI_SIZE_TO_PAGES_def using off d lt by (auto simp: unat_plus1)
  then show "unat x \<le> unat (EFI_SIZE_TO_PAGES x) * 4096" "unat (EFI_SIZE_TO_PAGES x) \<le> 2 ^ 52"
    using lt div_mult_mod_eq [of "unat x" 4096] by (auto split: if_splits)
qed

lemma pool_pages_ge:
  assumes "unat x < 2 ^ 33"
  shows "unat x \<le> unat (pool_pages x) * 4096" "unat (pool_pages x) < 2 ^ 52" "even (unat (pool_pages x))"
proof -
  let ?p = "EFI_SIZE_TO_PAGES x"
  have two: "EFI_SIZE_TO_PAGES DEFAULT_PAGE_ALLOCATION = 2" by (simp add: EFI_SIZE_TO_PAGES_def)
  have d: "unat (drop_bit 12 x) = unat x div 4096" by (simp add: drop_bit_eq_div unat_div_distrib)
  have lt: "unat x div 4096 < 2 ^ 21" using assms by (simp add: less_mult_imp_div_less)
  have p: "unat ?p \<le> 2 ^ 21" unfolding EFI_SIZE_TO_PAGES_def using d lt by (auto simp: unat_plus1)
  have "pool_pages x = (?p + 1) AND NOT (2 ^ 1 - 1)" by (simp add: pool_pages_def two add.commute)
  then have pp: "unat (pool_pages x) = Suc (unat ?p) div 2 * 2"
    using align_down [of 1 "?p + 1"] p by (simp add: unat_plus1)
  then have "unat ?p \<le> unat (pool_pages x)" by linarith
  then show "unat x \<le> unat (pool_pages x) * 4096"
    using EFI_SIZE_TO_PAGES_ge(1) [of x] by (meson le_trans mult_le_mono1)
  show "unat (pool_pages x) < 2 ^ 52" "even (unat (pool_pages x))" using pp p by auto
qed

text \<open>A block has room for a buffer whose header says \<open>sz\<close>.\<close>

definition room :: "(UINTN \<rightharpoonup> chunk) \<Rightarrow> UINTN \<Rightarrow> UINT32 \<Rightarrow> bool" where
  "room C a sz \<longleftrightarrow> 24 \<le> unat sz \<and>
     (if SIZE_TO_LIST (ucast sz) < 64 then slot C a (SIZE_TO_LIST (ucast sz))
      else C a = Some (Big (unat (pool_pages (ucast sz)))))"

lemma room_block:
  assumes "room C a sz" shows "\<exists>n. block C a n \<and> unat sz \<le> n"
proof (cases "SIZE_TO_LIST (ucast sz) < 64")
  case True
  let ?i = "SIZE_TO_LIST (ucast sz)"
  have "unat sz \<le> LIST_TO_SIZE ?i"
    using dividend_less_div_times [of 128 "unat sz"] by (simp add: SIZE_TO_LIST_div LIST_TO_SIZE_def ucast_32_64)
  moreover have "slot C a ?i" using assms True by (simp add: room_def)
  ultimately show ?thesis using slot_block by blast
next
  case False
  have "unat sz < 2 ^ 32" using unsigned_less [of sz, where ?'a = nat] by simp
  then have "unat sz \<le> unat (pool_pages (ucast sz)) * 4096"
    using pool_pages_ge(1) [of "ucast sz"] by (simp add: ucast_32_64)
  then show ?thesis using assms False by (auto simp: room_def block_def)
qed

definition tail_addr :: "UINTN \<Rightarrow> UINT32 \<Rightarrow> UINTN" where
  "tail_addr a sz = a + ucast sz - sizeof_POOL_TAIL"

lemma tail_in_block:
  assumes "chunks_ok C" and "room C a sz"
  shows "unat (tail_addr a sz) \<in> {unat a ..< unat a + unat sz}"
proof -
  obtain n where n: "block C a n" "unat sz \<le> n" using room_block [OF assms(2)] by blast
  have "unat a + unat sz < 2 ^ 64" using block_bounds(2) [OF assms(1) n(1)] n(2) by simp
  then have "unat (a + ucast sz) = unat a + unat sz" by (subst unat_add_le) (simp_all add: ucast_32_64)
  moreover have "24 \<le> unat sz" using assms(2) by (simp add: room_def)
  ultimately have "unat (tail_addr a sz) = unat a + unat sz - 8"
    unfolding tail_addr_def by (subst unat_sub_le) simp_all
  then show ?thesis using \<open>24 \<le> unat sz\<close> by auto
qed

lemma tails_differ:
  assumes "chunks_ok C" and "room C a sz" and "room C a' sz'" and "a \<noteq> a'"
  shows "tail_addr a sz \<noteq> tail_addr a' sz'"
proof -
  obtain n n' where "block C a n" "unat sz \<le> n" "block C a' n'" "unat sz' \<le> n'"
    using room_block [OF assms(2)] room_block [OF assms(3)] by blast
  then have "{unat a ..< unat a + unat sz} \<inter> {unat a' ..< unat a' + unat sz'} = {}"
    using blocks_disjoint [OF assms(1) _ _ assms(4), of n n'] by fastforce
  then show ?thesis using tail_in_block [OF assms(1,2)] tail_in_block [OF assms(1,3)] by force
qed

section \<open>The invariant\<close>

type_synonym heads = "UINTN \<rightharpoonup> int \<times> UINT32"
type_synonym lists = "pool_ref \<Rightarrow> nat \<Rightarrow> UINTN list"

definition okref :: "pool_ref \<Rightarrow> bool" where
  "okref r = (case r of Static t \<Rightarrow> 0 \<le> t \<and> t < EfiMaxMemoryType | Dynamic a \<Rightarrow> True)"

text \<open>
  The blocks handed out (\<open>K\<close>, with the type and size in their headers) have room, a header and a
  matching tail; the members of the free lists are free blocks of the class of their list, and no
  block is on two lists.
\<close>

definition free_inv :: "(UINTN \<rightharpoonup> chunk) \<Rightarrow> lists \<Rightarrow> (UINTN \<rightharpoonup> pool_block) \<Rightarrow> bool" where
  "free_inv C F B \<longleftrightarrow>
     (\<forall>r i. okref r \<longrightarrow> distinct (F r i) \<and> (\<forall>a\<in>set (F r i). slot C a i \<and> B a = Some (POOL_FREE i))) \<and>
     (\<forall>r r' i a. okref r \<and> okref r' \<and> a \<in> set (F r i) \<and> a \<in> set (F r' i) \<longrightarrow> r = r')"

definition used_inv :: "(UINTN \<rightharpoonup> chunk) \<Rightarrow> heads \<Rightarrow> (UINTN \<rightharpoonup> pool_block) \<Rightarrow> (UINTN \<rightharpoonup> UINT32) \<Rightarrow> bool" where
  "used_inv C K B T \<longleftrightarrow> (\<forall>a t sz. K a = Some (t, sz) \<longrightarrow>
     room C a sz \<and> B a = Some (POOL_HEAD t sz) \<and> T (tail_addr a sz) = Some sz)"

definition index_inv :: "(UINTN \<rightharpoonup> chunk) \<Rightarrow> (UINTN \<rightharpoonup> pool_block) \<Rightarrow> bool" where
  "index_inv C B \<longleftrightarrow> (\<forall>a i j. slot C a i \<and> B a = Some (POOL_FREE j) \<longrightarrow> j = i)"

definition pinv :: "(UINTN \<rightharpoonup> chunk) \<Rightarrow> heads \<Rightarrow> lists \<Rightarrow> (UINTN \<rightharpoonup> pool_block) \<Rightarrow> (UINTN \<rightharpoonup> UINT32) \<Rightarrow> bool" where
  "pinv C K F B T \<longleftrightarrow> chunks_ok C \<and> free_inv C F B \<and> used_inv C K B T \<and> index_inv C B"

lemma free_invD:
  assumes "free_inv C F B" and "okref r"
  shows "distinct (F r i)" and "a \<in> set (F r i) \<Longrightarrow> slot C a i" and "a \<in> set (F r i) \<Longrightarrow> B a = Some (POOL_FREE i)"
    and "okref r' \<Longrightarrow> a \<in> set (F r i) \<Longrightarrow> a \<in> set (F r' i) \<Longrightarrow> r = r'"
  using assms unfolding free_inv_def by blast+

lemma used_invD:
  "used_inv C K B T \<Longrightarrow> K a = Some (t, sz) \<Longrightarrow> room C a sz \<and> B a = Some (POOL_HEAD t sz) \<and> T (tail_addr a sz) = Some sz"
  by (simp add: used_inv_def)

lemma free_invI:
  assumes "\<And>r i. okref r \<Longrightarrow> distinct (F r i)"
    and "\<And>r i a. okref r \<Longrightarrow> a \<in> set (F r i) \<Longrightarrow> slot C a i \<and> B a = Some (POOL_FREE i)"
    and "\<And>r r' i a. okref r \<Longrightarrow> okref r' \<Longrightarrow> a \<in> set (F r i) \<Longrightarrow> a \<in> set (F r' i) \<Longrightarrow> r = r'"
  shows "free_inv C F B"
  unfolding free_inv_def using assms by blast

subsection \<open>Handing out and taking back a block\<close>

lemma pinv_take:
  assumes inv: "pinv C K F B T" and r: "okref r" and F: "F r i = h # rest" and i: "SIZE_TO_LIST (ucast sz) = i" "24 \<le> unat sz"
  shows "pinv C (K(h \<mapsto> (t, sz))) (F(r := (F r)(i := rest))) (B(h \<mapsto> POOL_HEAD t sz)) (T(tail_addr h sz \<mapsto> sz))"
    and "K h = None" and "h \<noteq> 0"
proof -
  have ok: "chunks_ok C" and fi: "free_inv C F B" and ui: "used_inv C K B T" and ii: "index_inv C B"
    using inv by (auto simp: pinv_def)
  have h: "slot C h i" "B h = Some (POOL_FREE i)" and d: "h \<notin> set rest" "distinct rest"
    using free_invD(1-3) [OF fi r, where i = i] F by auto
  show "K h = None" using ui h(2) by (cases "K h") (auto simp: used_inv_def)
  show "h \<noteq> 0" using block_bounds(1) [OF ok slot_block [OF h(1)]] .
  have "i < 64"
  proof -
    obtain b j o1 where b: "C b = Some (Small j)" "(o1, i) \<in> set (carve j 0)" using h(1) by (auto simp: slot_def)
    then show ?thesis using carve_0(2) [OF b(2)] chunks_okD [OF ok b(1)] by (simp add: chunk_ok_def)
  qed
  then have rm: "room C h sz" using h(1) i by (simp add: room_def)
  have off: "h \<notin> set (F r' i')" if "okref r'" "(r', i') \<noteq> (r, i)" for r' i'
  proof
    assume a: "h \<in> set (F r' i')"
    then have "slot C h i'" using fi that(1) by (simp add: free_inv_def)
    then have "i' = i" using slot_unique [OF ok _ h(1)] by simp
    moreover have "r' = r" using fi that(1) r a F \<open>i' = i\<close> unfolding free_inv_def by (metis list.set_intros(1))
    ultimately show False using that(2) by simp
  qed
  let ?F = "F(r := (F r)(i := rest))"
  have sub: "set (?F r' i') \<subseteq> set (F r' i')" "h \<notin> set (?F r' i')" "distinct (?F r' i')" if "okref r'" for r' i'
    using off [OF that, of i'] d F free_invD(1) [OF fi that, of i'] by auto
  have "free_inv C ?F (B(h \<mapsto> POOL_HEAD t sz))"
  proof (rule free_invI)
    fix r' i' assume "okref r'"
    then show "distinct (?F r' i')" by (rule sub(3))
  next
    fix r' i' a assume a: "okref r'" "a \<in> set (?F r' i')"
    then have "a \<in> set (F r' i')" "a \<noteq> h" using sub(1,2) by blast+
    then show "slot C a i' \<and> (B(h \<mapsto> POOL_HEAD t sz)) a = Some (POOL_FREE i')" using free_invD(2,3) [OF fi a(1)] by auto
  next
    fix r1 r2 i' a assume "okref r1" "okref r2" "a \<in> set (?F r1 i')" "a \<in> set (?F r2 i')"
    then show "r1 = r2" using sub(1) free_invD(4) [OF fi] by blast
  qed
  moreover have "used_inv C (K(h \<mapsto> (t, sz))) (B(h \<mapsto> POOL_HEAD t sz)) (T(tail_addr h sz \<mapsto> sz))"
    using ui rm tails_differ [OF ok rm] \<open>K h = None\<close> by (fastforce simp: used_inv_def)
  moreover have "index_inv C (B(h \<mapsto> POOL_HEAD t sz))" using ii by (auto simp: index_inv_def)
  ultimately show "pinv C (K(h \<mapsto> (t, sz))) ?F (B(h \<mapsto> POOL_HEAD t sz)) (T(tail_addr h sz \<mapsto> sz))"
    using ok by (simp add: pinv_def)
qed

lemma pinv_heads_mono: "pinv C K F B T \<Longrightarrow> K' \<subseteq>\<^sub>m K \<Longrightarrow> pinv C K' F B T"
  unfolding pinv_def used_inv_def by (auto simp: map_le_def dom_def)

lemma pinv_lists_mono:
  assumes inv: "pinv C K F B T"
    and F': "\<And>r i. okref r \<Longrightarrow> set (F' r i) \<subseteq> set (F r i) \<and> distinct (F' r i)"
  shows "pinv C K F' B T"
proof -
  have "free_inv C F' B" using inv F' unfolding pinv_def free_inv_def by blast
  then show ?thesis using inv by (simp add: pinv_def)
qed

text \<open>A free block goes onto a free list: a fresh one, or one that comes back.\<close>

lemma pinv_push:
  assumes inv: "pinv C K F B T" and h: "slot C h i" and K: "K h = None" and off: "\<And>r. okref r \<Longrightarrow> h \<notin> set (F r i)"
  shows "pinv C K (F(r := (F r)(i := h # F r i))) (B(h \<mapsto> POOL_FREE i)) T"
    and "pinv C K F (B(h \<mapsto> POOL_FREE i)) T"
proof -
  have ok: "chunks_ok C" and fi: "free_inv C F B" and ui: "used_inv C K B T" and ii: "index_inv C B"
    using inv by (auto simp: pinv_def)
  have off': "h \<notin> set (F r' i')" if "okref r'" for r' i'
    using off [OF that] fi that slot_unique [OF ok h] unfolding free_inv_def by blast
  have ui': "used_inv C K (B(h \<mapsto> POOL_FREE i)) T" using ui K by (auto simp: used_inv_def)
  have ii': "index_inv C (B(h \<mapsto> POOL_FREE i))" using ii slot_unique [OF ok h] by (auto simp: index_inv_def)
  have fi': "free_inv C F (B(h \<mapsto> POOL_FREE i))" using fi off' unfolding free_inv_def by auto
  show "pinv C K F (B(h \<mapsto> POOL_FREE i)) T" using ok ui' ii' fi' by (simp add: pinv_def)
  have "free_inv C (F(r := (F r)(i := h # F r i))) (B(h \<mapsto> POOL_FREE i))"
    using fi' off' h unfolding free_inv_def by (simp add: fun_upd_def) blast
  then show "pinv C K (F(r := (F r)(i := h # F r i))) (B(h \<mapsto> POOL_FREE i)) T" using ok ui' ii' by (simp add: pinv_def)
qed

lemma used_not_free:
  assumes "pinv C K F B T" and "K h = Some x" and "okref r"
  shows "h \<notin> set (F r i)"
proof
  assume "h \<in> set (F r i)"
  then have "B h = Some (POOL_FREE i)" using assms(1) free_invD(3) [OF _ assms(3)] unfolding pinv_def by metis
  then show False using assms(1,2) by (cases x) (auto simp: pinv_def used_inv_def)
qed

lemma pinv_release:
  assumes inv: "pinv C K F B T" and K: "K h = Some (t, sz)" and i: "SIZE_TO_LIST (ucast sz) = i" "i < 64"
  shows "pinv C (K(h := None)) (F(r := (F r)(i := h # F r i))) (B(h \<mapsto> POOL_FREE i)) T"
    and "pinv C (K(h := None)) F (B(h \<mapsto> POOL_FREE i)) T"
proof -
  have "slot C h i" using inv K i by (auto simp: pinv_def used_inv_def room_def)
  moreover have "pinv C (K(h := None)) F B T" by (rule pinv_heads_mono [OF inv]) (auto simp: map_le_def)
  ultimately show "pinv C (K(h := None)) (F(r := (F r)(i := h # F r i))) (B(h \<mapsto> POOL_FREE i)) T"
      "pinv C (K(h := None)) F (B(h \<mapsto> POOL_FREE i)) T"
    using pinv_push [where K = "K(h := None)" and h = h and i = i] used_not_free [OF inv K] by auto
qed

subsection \<open>New chunks\<close>

definition apart :: "(UINTN \<rightharpoonup> chunk) \<Rightarrow> nat set \<Rightarrow> bool" where
  "apart C X \<longleftrightarrow> (\<forall>b c. C b = Some c \<longrightarrow> space b c \<inter> X = {})"

lemma chunk_nonempty: "chunk_ok b c \<Longrightarrow> unat b \<in> space b c"
  by (auto simp: chunk_ok_def space_def chunk_size_def split: chunk.splits)

lemma apart_none:
  assumes "chunks_ok C" and "apart C (space b c)" and "chunk_ok b c" shows "C b = None"
proof (cases "C b")
  case (Some c0)
  then have "unat b \<in> space b c0 \<inter> space b c" using chunk_nonempty chunks_okD [OF assms(1)] assms(3) by blast
  then show ?thesis using assms(2) Some by (auto simp: apart_def)
qed

lemma chunks_ok_new: "chunks_ok C \<Longrightarrow> apart C (space b c) \<Longrightarrow> chunk_ok b c \<Longrightarrow> chunks_ok (C(b \<mapsto> c))"
  by (auto simp: chunks_ok_def apart_def)

lemma slot_in_space:
  assumes "chunk_ok b (Small j)" and "(o1, i) \<in> set (carve j 0)"
  shows "unat (b + of_nat o1) \<in> space b (Small j)"
proof -
  have "unat (b + of_nat o1) \<in> {unat (b + of_nat o1) ..< unat (b + of_nat o1) + LIST_TO_SIZE i}" by (simp add: LIST_TO_SIZE_def)
  then show ?thesis using slot_addr(2) [OF assms] by blast
qed

lemma slot_new: "slot C a i \<Longrightarrow> C b = None \<Longrightarrow> slot (C(b \<mapsto> c)) a i"
proof -
  assume "slot C a i" and n: "C b = None"
  then obtain b2 j o1 where o: "C b2 = Some (Small j)" "(o1, i) \<in> set (carve j 0)" "a = b2 + of_nat o1" by (auto simp: slot_def)
  then have "(C(b \<mapsto> c)) b2 = Some (Small j)" using n by auto
  then show ?thesis using o(2,3) unfolding slot_def by blast
qed

lemma slot_newD:
  "slot (C(b \<mapsto> c)) a i \<Longrightarrow> slot C a i \<or> (\<exists>j o1. c = Small j \<and> (o1, i) \<in> set (carve j 0) \<and> a = b + of_nat o1)"
  by (auto simp: slot_def split: if_splits)

lemma room_new: "room C a sz \<Longrightarrow> C b = None \<Longrightarrow> room (C(b \<mapsto> c)) a sz"
  by (auto simp: room_def intro: slot_new split: if_splits)

lemma pinv_new:
  assumes inv: "pinv C K F B T" and ap: "apart C (space b c)" and ck: "chunk_ok b c"
    and B': "\<And>a. unat a \<notin> space b c \<Longrightarrow> B' a = B a"
    and new: "\<And>j o1 i. c = Small j \<Longrightarrow> (o1, i) \<in> set (carve j 0) \<Longrightarrow> B' (b + of_nat o1) = Some (POOL_FREE i)"
  shows "pinv (C(b \<mapsto> c)) K F B' T" "K b = None"
proof -
  have ok: "chunks_ok C" and fi: "free_inv C F B" and ui: "used_inv C K B T" and ii: "index_inv C B"
    using inv by (auto simp: pinv_def)
  have none: "C b = None" by (rule apart_none [OF ok ap ck])
  have sn: "slot C a i \<Longrightarrow> slot (C(b \<mapsto> c)) a i" and rn: "room C a sz \<Longrightarrow> room (C(b \<mapsto> c)) a sz" for a i sz
    by (erule slot_new, rule none) (erule room_new, rule none)
  have out: "unat a \<notin> space b c" if blk: "block C a n" for a n
  proof -
    obtain b2 c2 where "C b2 = Some c2" "{unat a ..< unat a + n} \<subseteq> space b2 c2" "0 < n" using block_space [OF ok blk] by blast
    then show ?thesis using ap by (fastforce simp: apart_def)
  qed
  have same: "B' a = B a" if "slot C a i \<or> room C a sz" for a i sz
    using that out [OF slot_block] room_block [of C a sz] out B' by blast
  have "free_inv (C(b \<mapsto> c)) F B'"
    by (rule free_invI) (use free_invD [OF fi] sn same in \<open>blast, metis, blast\<close>)
  moreover have "used_inv (C(b \<mapsto> c)) K B' T"
    using ui rn same unfolding used_inv_def by metis
  moreover have "index_inv (C(b \<mapsto> c)) B'"
    unfolding index_inv_def
  proof (intro allI impI, elim conjE)
    fix a i j assume a: "slot (C(b \<mapsto> c)) a i" "B' a = Some (POOL_FREE j)"
    show "j = i"
    proof (cases "slot C a i")
      case True
      then show ?thesis using ii same a(2) unfolding index_inv_def by metis
    next
      case False
      then show ?thesis using slot_newD [OF a(1)] new a(2) by fastforce
    qed
  qed
  ultimately show "pinv (C(b \<mapsto> c)) K F B' T" using chunks_ok_new [OF ok ap ck] by (simp add: pinv_def)
  show "K b = None"
  proof (cases "K b")
    case (Some x)
    then have "room C b (snd x)" using ui by (cases x) (auto simp: used_inv_def)
    then show ?thesis using room_block out chunk_nonempty [OF ck] by blast
  qed
qed

lemma pinv_new_big:
  assumes inv: "pinv C K F B T" and c: "c = Big (unat (pool_pages (ucast sz)))" and ap: "apart C (space b c)" and ck: "chunk_ok b c"
    and sz: "24 \<le> unat sz" "64 \<le> SIZE_TO_LIST (ucast sz)"
  shows "pinv (C(b \<mapsto> c)) (K(b \<mapsto> (t, sz))) F (B(b \<mapsto> POOL_HEAD t sz)) (T(tail_addr b sz \<mapsto> sz))"
    and "K b = None"
proof -
  let ?B = "B(b \<mapsto> POOL_HEAD t sz)"
  have "?B a = B a" if "unat a \<notin> space b c" for a using that chunk_nonempty [OF ck] by auto
  then have new: "pinv (C(b \<mapsto> c)) K F ?B T" and K: "K b = None" using pinv_new [OF inv ap ck, of ?B] c by auto
  have ok: "chunks_ok (C(b \<mapsto> c))" using new by (simp add: pinv_def)
  have rm: "room (C(b \<mapsto> c)) b sz" using sz c by (simp add: room_def)
  have ui: "used_inv (C(b \<mapsto> c)) K ?B T" using new by (simp add: pinv_def)
  have "used_inv (C(b \<mapsto> c)) (K(b \<mapsto> (t, sz))) ?B (T(tail_addr b sz \<mapsto> sz))"
    unfolding used_inv_def
  proof (intro allI impI)
    fix a t' sz' assume a: "(K(b \<mapsto> (t, sz))) a = Some (t', sz')"
    show "room (C(b \<mapsto> c)) a sz' \<and> ?B a = Some (POOL_HEAD t' sz') \<and> (T(tail_addr b sz \<mapsto> sz)) (tail_addr a sz') = Some sz'"
    proof (cases "a = b")
      case False
      then have *: "room (C(b \<mapsto> c)) a sz' \<and> ?B a = Some (POOL_HEAD t' sz') \<and> T (tail_addr a sz') = Some sz'"
        using used_invD [OF ui, of a t' sz'] a by simp
      then have "tail_addr b sz \<noteq> tail_addr a sz'" using tails_differ [OF ok rm] False by blast
      then show ?thesis using * by simp
    qed (use a rm in simp)
  qed
  then show "pinv (C(b \<mapsto> c)) (K(b \<mapsto> (t, sz))) F ?B (T(tail_addr b sz \<mapsto> sz))" using new by (simp add: pinv_def)
  show "K b = None" by (rule K)
qed

subsection \<open>Dropping a chunk\<close>

lemma pinv_drop:
  assumes inv: "pinv C K F B T" and b: "C b = Some c"
    and K: "\<And>a x. K a = Some x \<Longrightarrow> unat a \<notin> space b c"
    and F: "\<And>r i a. okref r \<Longrightarrow> a \<in> set (F r i) \<Longrightarrow> unat a \<notin> space b c"
  shows "pinv (C(b := None)) K F B T"
proof -
  have ok: "chunks_ok C" and fi: "free_inv C F B" and ui: "used_inv C K B T" and ii: "index_inv C B"
    using inv by (auto simp: pinv_def)
  have ok': "chunks_ok (C(b := None))" using ok by (auto simp: chunks_ok_def split: if_splits)
  have sub: "slot (C(b := None)) a i \<Longrightarrow> slot C a i" for a i by (auto simp: slot_def split: if_splits)
  have keep: "slot (C(b := None)) a i" if s: "slot C a i" and n: "unat a \<notin> space b c" for a i
  proof -
    obtain b2 j o1 where o: "C b2 = Some (Small j)" "(o1, i) \<in> set (carve j 0)" "a = b2 + of_nat o1"
      using s by (auto simp: slot_def)
    have "b2 \<noteq> b"
    proof
      assume "b2 = b"
      then have "c = Small j" using b o(1) by simp
      then show False using slot_in_space [OF chunks_okD [OF ok o(1)] o(2)] n o(3) \<open>b2 = b\<close> by simp
    qed
    then show ?thesis using o unfolding slot_def by fastforce
  qed
  have "free_inv (C(b := None)) F B"
    using free_invD [OF fi] keep F by (intro free_invI) auto
  moreover have "used_inv (C(b := None)) K B T"
    unfolding used_inv_def
  proof (intro allI impI)
    fix a t sz assume a: "K a = Some (t, sz)"
    then have n: "unat a \<notin> space b c" and r: "room C a sz" using K ui by (auto simp: used_inv_def)
    have "a \<noteq> b" using n chunk_nonempty [OF chunks_okD [OF ok b]] by auto
    then have "room (C(b := None)) a sz" using r keep n by (auto simp: room_def)
    then show "room (C(b := None)) a sz \<and> B a = Some (POOL_HEAD t sz) \<and> T (tail_addr a sz) = Some sz"
      using ui a by (auto simp: used_inv_def)
  qed
  moreover have "index_inv (C(b := None)) B" using ii sub unfolding index_inv_def by blast
  ultimately show ?thesis using ok' by (simp add: pinv_def)
qed

end
