(* ===== verification/PoolOps.thy ===== *)
theory PoolOps
  imports PoolInv
begin

text \<open>
  The pool operations of \<open>mem/pool.c\<close> that do not change the memory map, against the invariant of
  the pool: cutting a new chunk up, handing a block out, taking it back, unlinking the blocks of a
  chunk that is all free.
\<close>

section \<open>The free lists of the state\<close>

definition fl :: "'y mem_scheme \<Rightarrow> lists" where
  "fl m r i = FreeList (get_pool r m) i"

definition pool_inv :: "(UINTN \<rightharpoonup> chunk) \<Rightarrow> heads \<Rightarrow> 'y mem_scheme \<Rightarrow> bool" where
  "pool_inv C K m \<longleftrightarrow> pinv C K (fl m) (Blocks m) (Tails m)"

definition present :: "pool_ref \<Rightarrow> 'y mem_scheme \<Rightarrow> bool" where
  "present r m = (case r of Static t \<Rightarrow> True | Dynamic a \<Rightarrow> map_of (PoolHeadList m) a \<noteq> None)"

text \<open>The part of the state that the changes of the pool leave alone.\<close>

definition map_same :: "'y mem_scheme \<Rightarrow> 'y mem_scheme \<Rightarrow> bool" where
  "map_same m m' \<longleftrightarrow> MemoryMap m' = MemoryMap m \<and> MapEntry m' = MapEntry m \<and> MapDepth m' = MapDepth m \<and>
     mem.more m' = mem.more m \<and> map fst (PoolHeadList m') = map fst (PoolHeadList m)"

lemma map_same_refl [simp]: "map_same m m"
  by (simp add: map_same_def)

lemma map_same_trans: "map_same m m1 \<Longrightarrow> map_same m1 m2 \<Longrightarrow> map_same m m2"
  by (simp add: map_same_def)

lemma map_of_upd_values: "map_of (map (\<lambda>(b, P). (b, if b = a then f P else P)) L) x =
    (if x = a then map_option f (map_of L x) else map_of L x)"
  by (induction L) auto

lemma map_of_values: "map_of (map (\<lambda>(b, P). (b, f P)) L) x = map_option f (map_of L x)"
  by (induction L) auto

lemma upd_pool_simps [simp]:
  "Blocks (upd_pool r f m) = Blocks m" "Tails (upd_pool r f m) = Tails m" "map_same m0 (upd_pool r f m) = map_same m0 m"
  by (auto simp: upd_pool_def map_same_def comp_def split_def split: pool_ref.splits)

lemma get_upd_pool:
  "get_pool r' (upd_pool r f m) = (if r' = r \<and> present r m then f (get_pool r m) else get_pool r' m)"
  by (auto simp: get_pool_def upd_pool_def present_def map_of_upd_values split: pool_ref.splits option.splits)

lemma fl_upd_pool: "fl (upd_pool r f m) = (if present r m then (fl m)(r := FreeList (f (get_pool r m))) else fl m)"
  by (auto simp: fl_def get_upd_pool fun_eq_iff)

lemma fl_fields [simp]:
  "fl (m\<lparr>Blocks := b\<rparr>) = fl m" "fl (m\<lparr>Tails := t\<rparr>) = fl m" "fl (m\<lparr>MemoryMap := ps\<rparr>) = fl m" "fl (m\<lparr>MapEntry := E\<rparr>) = fl m"
  "get_pool r (m\<lparr>Blocks := b\<rparr>) = get_pool r m" "get_pool r (m\<lparr>Tails := t\<rparr>) = get_pool r m"
  "present r (m\<lparr>Blocks := b\<rparr>) = present r m" "present r (m\<lparr>Tails := t\<rparr>) = present r m"
  by (auto simp: fl_def get_pool_def present_def fun_eq_iff split: pool_ref.splits)

lemma map_same_blocks [simp]: "map_same m0 (m\<lparr>Blocks := b\<rparr>) = map_same m0 m" "map_same m0 (m\<lparr>Tails := t\<rparr>) = map_same m0 m"
  by (auto simp: map_same_def)

lemma fl_absent: "\<not> present r m \<Longrightarrow> fl m r i = []"
  by (auto simp: fl_def get_pool_def present_def split: pool_ref.splits option.splits)

lemma fl_upd_same: "(\<And>P. FreeList (f P) = FreeList P) \<Longrightarrow> fl (upd_pool r f m) = fl m"
  by (auto simp: fl_def get_upd_pool fun_eq_iff)

section \<open>A new chunk\<close>

lemma add_free_simps:
  "Blocks (add_free r b x m) = (Blocks m)(b + of_nat (fst x) \<mapsto> POOL_FREE (snd x))" "Tails (add_free r b x m) = Tails m"
  "map_same m (add_free r b x m)"
  "fl (add_free r b x m) =
     (if present r m then (fl m)(r := (fl m r)(snd x := (b + of_nat (fst x)) # fl m r (snd x))) else fl m)"
  by (simp_all add: add_free_def Let_def fl_upd_pool) (auto simp: fl_def fun_eq_iff)

lemma fold_add_free_frame:
  "Tails (fold (add_free r b) bs m) = Tails m \<and> map_same m (fold (add_free r b) bs m)"
proof (induction bs arbitrary: m)
  case (Cons x bs)
  then show ?case using add_free_simps(2) [of r b x m] add_free_simps(3) [of m r b x] map_same_trans by (metis fold_simps(2))
qed simp

lemma of_nat_inj: "(o1 :: nat) < 8192 \<Longrightarrow> o2 < 8192 \<Longrightarrow> b + of_nat o1 = b + of_nat o2 \<Longrightarrow> o1 = o2" for b :: "64 word"
proof -
  assume lt: "o1 < 8192" "o2 < 8192" and "b + of_nat o1 = b + of_nat o2"
  then have "(of_nat o1 :: 64 word) = of_nat o2" by (metis add_left_imp_eq)
  moreover have "unat (of_nat o1 :: 64 word) = o1" "unat (of_nat o2 :: 64 word) = o2"
    by (rule unat_of_nat64, use lt in simp)+
  ultimately show "o1 = o2" by metis
qed

lemma fold_add_free_outside:
  "\<forall>x\<in>set bs. a \<noteq> b + of_nat (fst x) \<Longrightarrow> Blocks (fold (add_free r b) bs m) a = Blocks m a"
  by (induction bs arbitrary: m) (simp_all add: add_free_simps)

lemma offsets_inj:
  assumes "distinct (map fst (x # bs))" and "\<forall>y\<in>set (x # bs). fst y < 8192" and "y \<in> set bs"
  shows "b + of_nat (fst x) \<noteq> b + (of_nat (fst y) :: 64 word)"
  using assms of_nat_inj [of "fst x" "fst y" b] by force

lemma fold_add_free_inside:
  assumes "distinct (map fst bs)" and "\<forall>x\<in>set bs. fst x < 8192" and "x \<in> set bs"
  shows "Blocks (fold (add_free r b) bs m) (b + of_nat (fst x)) = Some (POOL_FREE (snd x))"
  using assms
proof (induction bs arbitrary: m)
  case (Cons y bs)
  show ?case
  proof (cases "x \<in> set bs")
    case True
    then show ?thesis using Cons by simp
  next
    case False
    then have "x = y" using Cons.prems(3) by auto
    then have "\<forall>z\<in>set bs. b + of_nat (fst x) \<noteq> b + of_nat (fst z)" using offsets_inj [OF Cons.prems(1,2)] by blast
    from fold_add_free_outside [OF this, of r "add_free r b y m"] \<open>x = y\<close> show ?thesis by (simp add: add_free_simps)
  qed
qed simp

lemma fold_add_free_lists:
  assumes "distinct (map fst bs)" and "\<forall>x\<in>set bs. fst x < 8192"
    and "\<forall>x\<in>set bs. slot C (b + of_nat (fst x)) (snd x) \<and> K (b + of_nat (fst x)) = None \<and>
           B (b + of_nat (fst x)) = Some (POOL_FREE (snd x)) \<and> (\<forall>r. okref r \<longrightarrow> b + of_nat (fst x) \<notin> set (fl m r (snd x)))"
    and "pinv C K (fl m) B T"
  shows "pinv C K (fl (fold (add_free r b) bs m)) B T"
  using assms
proof (induction bs arbitrary: m)
  case (Cons x bs)
  let ?h = "b + of_nat (fst x)"
  have h: "slot C ?h (snd x)" "K ?h = None" "B(?h \<mapsto> POOL_FREE (snd x)) = B" and off: "okref r' \<Longrightarrow> ?h \<notin> set (fl m r' (snd x))" for r'
    using Cons.prems(3) by auto
  have p: "pinv C K (fl (add_free r b x m)) B T"
    using pinv_push(1) [OF Cons.prems(4) h(1,2) off, of r] Cons.prems(4) h(3) by (simp add: add_free_simps)
  have "b + of_nat (fst y) \<notin> set (fl (add_free r b x m) r' (snd y))" if y: "y \<in> set bs" "okref r'" for y r'
    using offsets_inj [OF Cons.prems(1,2) y(1), of b] Cons.prems(3) y by (auto simp: add_free_simps)
  then show ?case using Cons.IH [of "add_free r b x m"] Cons.prems(1-3) p by simp
qed simp

lemma new_chunk:
  assumes inv: "pool_inv C K m" and ap: "apart C (space b (Small j))" and ck: "chunk_ok b (Small j)"
  shows "pool_inv (C(b \<mapsto> Small j)) K (fold (add_free r b) (carve j 0) m)"
proof -
  let ?bs = "carve j 0" and ?m = "fold (add_free r b) (carve j 0) m" and ?C = "C(b \<mapsto> Small j)"
  have p: "pinv C K (fl m) (Blocks m) (Tails m)" using inv by (simp add: pool_inv_def)
  then have ok: "chunks_ok C" and fi: "free_inv C (fl m) (Blocks m)" by (auto simp: pinv_def)
  have d: "distinct (map fst ?bs)" by (rule tiles_distinct [OF carve_0(1)])
  have lt: "\<forall>x\<in>set ?bs. fst x < 8192" using carve_0(2) by (fastforce simp: LIST_TO_SIZE_def)
  have isp: "unat (b + of_nat (fst x)) \<in> space b (Small j)" if "x \<in> set ?bs" for x
    using slot_in_space [OF ck, of "fst x" "snd x"] that by simp
  have B: "Blocks ?m a = Blocks m a" if "unat a \<notin> space b (Small j)" for a
    by (rule fold_add_free_outside) (use that isp in blast)
  have new: "Blocks ?m (b + of_nat (fst x)) = Some (POOL_FREE (snd x))" if "x \<in> set ?bs" for x
    by (rule fold_add_free_inside [OF d lt that])
  have q: "pinv ?C K (fl m) (Blocks ?m) (Tails m)"
    by (rule pinv_new(1) [OF p ap ck B]) (use new in fastforce)+
  have out: "unat a \<notin> space b (Small j)" if blk: "block C a n" for a n
  proof -
    obtain b2 c2 where "C b2 = Some c2" "{unat a ..< unat a + n} \<subseteq> space b2 c2" "0 < n" using block_space [OF ok blk] by blast
    then show ?thesis using ap by (fastforce simp: apart_def)
  qed
  have K: "K a = None" if "unat a \<in> space b (Small j)" for a
  proof (cases "K a")
    case (Some x)
    then have "room C a (snd x)" using p by (cases x) (auto simp: pinv_def used_inv_def)
    then show ?thesis using room_block out that by blast
  qed
  have F: "a \<notin> set (fl m r i)" if "unat a \<in> space b (Small j)" "okref r" for a r i
    using that out [OF slot_block] free_invD(2) [OF fi that(2)] by blast
  have S: "slot ?C (b + of_nat (fst x)) (snd x)" if "x \<in> set ?bs" for x
    using that by (auto simp: slot_def) (metis prod.collapse)
  have "pinv ?C K (fl ?m) (Blocks ?m) (Tails m)"
    by (rule fold_add_free_lists [OF d lt _ q]) (use new isp K F S in blast)
  then show ?thesis using fold_add_free_frame [of r b ?bs m] by (simp add: pool_inv_def)
qed

section \<open>Handing out a block\<close>

lemma ucast_id: "unat x < 2 ^ 32 \<Longrightarrow> ucast (ucast x :: 32 word) = x" "unat x < 2 ^ 32 \<Longrightarrow> unat (ucast x :: 32 word) = unat x" for x :: "64 word"
proof -
  assume x: "unat x < 2 ^ 32"
  show u: "unat (ucast x :: 32 word) = unat x" using x by (simp add: unsigned_ucast_eq take_bit_nat_eq_self)
  show "ucast (ucast x :: 32 word) = x" using u by (simp add: word_unat_eq_iff ucast_32_64)
qed

lemma fill_block_simps:
  assumes "h \<noteq> 0" and "fill_block r t Size h m = (b, m')" and "unat Size < 2 ^ 32"
  shows "b = h + 16" "fl m' = fl m" "Blocks m' = (Blocks m)(h \<mapsto> POOL_HEAD t (ucast Size))"
    "Tails m' = (Tails m)(tail_addr h (ucast Size) \<mapsto> ucast Size)" "map_same m m'"
  using assms by (auto simp: fill_block_def Let_def fl_upd_same tail_addr_def)

lemma take_block:
  assumes inv: "pool_inv C K m" and r: "okref r" and l: "fl m r i = h # rest"
    and i: "SIZE_TO_LIST Size = i" "24 \<le> unat Size" "unat Size < 2 ^ 32"
    and res: "fill_block r t Size h (upd_pool r (\<lambda>P. P\<lparr>FreeList := (FreeList P)(i := rest)\<rparr>) m) = (b, m')"
  shows "pool_inv C (K(h \<mapsto> (t, ucast Size))) m' \<and> b = h + 16 \<and> K h = None \<and> map_same m m' \<and> b \<noteq> 0"
proof -
  have p: "pinv C K (fl m) (Blocks m) (Tails m)" using inv by (simp add: pool_inv_def)
  have i': "SIZE_TO_LIST (ucast (ucast Size :: 32 word)) = i" "24 \<le> unat (ucast Size :: 32 word)"
    using i ucast_id [OF i(3)] by auto
  note t = pinv_take [OF p r l i']
  note f = fill_block_simps [OF t(3) res i(3)]
  have "present r m" using l fl_absent by force
  then have "fl (upd_pool r (\<lambda>P. P\<lparr>FreeList := (FreeList P)(i := rest)\<rparr>) m) = (fl m)(r := (fl m r)(i := rest))"
    by (auto simp: fl_upd_pool fl_def fun_eq_iff)
  then have "pool_inv C (K(h \<mapsto> (t, ucast Size))) m'" using t(1) f by (simp add: pool_inv_def)
  moreover have "h + 16 \<noteq> 0"
  proof -
    have ok: "chunks_ok C" using p by (simp add: pinv_def)
    have "slot C h i" using p free_invD(2) [OF _ r, where C = C] l unfolding pinv_def by (metis list.set_intros(1))
    then have "unat h + LIST_TO_SIZE i < 2 ^ 64" using block_bounds(2) [OF ok slot_block] by simp
    then have "unat (h + 16) = unat h + 16" by (subst unat_add_le) (simp_all add: LIST_TO_SIZE_def)
    then show ?thesis by (metis add_is_0 zero_neq_numeral unsigned_0)
  qed
  moreover have "map_same m m'" by (rule map_same_trans [OF _ f(5)]) simp
  ultimately show ?thesis using t(2) f(1) by simp
qed

section \<open>Taking back a block\<close>

lemma release_block:
  assumes inv: "pool_inv C K m" and K: "K h = Some (t, sz)" and i: "SIZE_TO_LIST (ucast sz) = i" "i < 64"
  shows "pool_inv C (K(h := None)) (upd_pool r (\<lambda>P. P\<lparr>FreeList := (FreeList P)(i := h # FreeList P i)\<rparr>)
           (m\<lparr>Blocks := (Blocks m)(h \<mapsto> POOL_FREE i)\<rparr>))"
proof -
  let ?m = "m\<lparr>Blocks := (Blocks m)(h \<mapsto> POOL_FREE i)\<rparr>"
  have p: "pinv C K (fl m) (Blocks m) (Tails m)" using inv by (simp add: pool_inv_def)
  have "fl (upd_pool r (\<lambda>P. P\<lparr>FreeList := (FreeList P)(i := h # FreeList P i)\<rparr>) ?m) =
      (if present r m then (fl m)(r := (fl m r)(i := h # fl m r i)) else fl m)"
    by (auto simp: fl_upd_pool fl_def fun_eq_iff)
  then show ?thesis using pinv_release(1) [OF p K i, of r] pinv_release(2) [OF p K i] by (simp add: pool_inv_def)
qed

text \<open>The chunk a small block lies in.\<close>

lemma slot_chunk:
  assumes ok: "chunks_ok C" and s: "slot C h i"
  shows "\<exists>j. C (h AND NOT (DEFAULT_PAGE_ALLOCATION - 1)) = Some (Small j)"
proof -
  obtain b j o1 where o: "C b = Some (Small j)" "(o1, i) \<in> set (carve j 0)" "h = b + of_nat o1"
    using s by (auto simp: slot_def)
  have ck: "chunk_ok b (Small j)" by (rule chunks_okD [OF ok o(1)])
  have "o1 < 8192" using carve_0(2) [OF o(2)] by (simp add: LIST_TO_SIZE_def)
  moreover have "unat h = unat b + o1" using slot_addr(1) [OF ck o(2)] o(3) by simp
  moreover obtain q where "unat b = 8192 * q" using ck unfolding chunk_ok_def by (metis mod_0_imp_dvd dvdE)
  ultimately have "unat h div 8192 * 8192 = unat b" by simp
  then have "h AND NOT (DEFAULT_PAGE_ALLOCATION - 1) = b"
    using align_down [of 13 h] by (simp add: word_unat_eq_iff)
  then show ?thesis using o(1) by simp
qed

lemma unlink_free_simps:
  "fl (unlink_free a m) r i = remove1 a (fl m r i)" "Blocks (unlink_free a m) = Blocks m"
  "Tails (unlink_free a m) = Tails m" "map_same m (unlink_free a m)"
proof -
  have f: "map_of (map (\<lambda>(b, P). (b, P\<lparr>FreeList := (\<lambda>i. remove1 a (FreeList P i))\<rparr>)) L) x =
      map_option (\<lambda>P. P\<lparr>FreeList := (\<lambda>i. remove1 a (FreeList P i))\<rparr>) (map_of L x)" for L x
    by (rule map_of_values)
  show "fl (unlink_free a m) r i = remove1 a (fl m r i)"
    by (auto simp: fl_def get_pool_def unlink_free_def f split: pool_ref.splits option.splits)
qed (auto simp: unlink_free_def map_same_def comp_def split_def)

lemma fold_unlink:
  "fl (fold unlink_free bs m) r i = fold remove1 bs (fl m r i) \<and> Blocks (fold unlink_free bs m) = Blocks m \<and>
   Tails (fold unlink_free bs m) = Tails m \<and> map_same m (fold unlink_free bs m)"
proof (induction bs arbitrary: m)
  case (Cons a bs)
  have "map_same m (fold unlink_free bs (unlink_free a m))"
    using Cons [of "unlink_free a m"] unlink_free_simps(4) [of m a] map_same_trans by blast
  then show ?case using Cons [of "unlink_free a m"] by (simp add: unlink_free_simps)
qed simp

lemma fold_remove1: "distinct xs \<Longrightarrow> distinct (fold remove1 bs xs) \<and> set (fold remove1 bs xs) = set xs - set bs"
  by (induction bs arbitrary: xs) auto

text \<open>A chunk whose blocks are all free is given up: its blocks go off the free lists.\<close>

lemma empty_chunk:
  assumes inv: "pool_inv C K m" and b: "C b = Some (Small j)"
    and bs: "bs = map (\<lambda>x. b + of_nat (fst x)) (carve j 0)" and free: "list_all (\<lambda>a. is_free a m) bs"
  shows "pool_inv (C(b := None)) K (fold unlink_free bs m)"
proof -
  let ?m = "fold unlink_free bs m" and ?c = "Small j"
  have p: "pinv C K (fl m) (Blocks m) (Tails m)" using inv by (simp add: pool_inv_def)
  then have ok: "chunks_ok C" and fi: "free_inv C (fl m) (Blocks m)" and ui: "used_inv C K (Blocks m) (Tails m)"
    by (auto simp: pinv_def)
  have F: "fl ?m r i = fold remove1 bs (fl m r i)" for r i using fold_unlink [of bs m r i] by simp
  have mem: "a \<in> set bs" if "slot C a i" "unat a \<in> space b ?c" for a i
    using slot_owner [OF ok b that(2,1)] bs by force
  have "pinv C K (fl ?m) (Blocks m) (Tails m)"
  proof (rule pinv_lists_mono [OF p])
    fix r i assume "okref r"
    then show "set (fl ?m r i) \<subseteq> set (fl m r i) \<and> distinct (fl ?m r i)"
      using fold_remove1 [OF free_invD(1) [OF fi, of r i], of bs] unfolding F by blast
  qed
  moreover have "unat a \<notin> space b ?c" if "okref r" "a \<in> set (fl ?m r i)" for a r i
  proof -
    have "a \<in> set (fl m r i)" "a \<notin> set bs"
      using that(2) fold_remove1 [OF free_invD(1) [OF fi that(1), of i], of bs] unfolding F by auto
    then show ?thesis using mem free_invD(2) [OF fi that(1)] by blast
  qed
  moreover have "unat a \<notin> space b ?c" if a: "K a = Some x" for a x
  proof
    assume sp: "unat a \<in> space b ?c"
    obtain t sz where x: "x = (t, sz)" by force
    have u: "room C a sz" "Blocks m a = Some (POOL_HEAD t sz)" using used_invD [OF ui] a x by auto
    show False
    proof (cases "SIZE_TO_LIST (ucast sz) < 64")
      case True
      then have "slot C a (SIZE_TO_LIST (ucast sz))" using u(1) by (simp add: room_def)
      then have "a \<in> set bs" using mem sp by blast
      then have "is_free a m" using free by (simp add: list_all_iff)
      then show False using u(2) by (simp add: is_free_def)
    next
      case False
      then obtain p where big: "C a = Some (Big p)" using u(1) by (simp add: room_def)
      have "b = a" using chunk_unique [OF ok big b chunk_nonempty [OF chunks_okD [OF ok big]] sp] by simp
      then show False using b big by simp
    qed
  qed
  ultimately have "pinv (C(b := None)) K (fl ?m) (Blocks m) (Tails m)" using pinv_drop [where C = C and b = b and c = ?c] b by blast
  then show ?thesis using fold_unlink [of bs m] by (simp add: pool_inv_def)
qed

text \<open>A block of whole pages is given up.\<close>

lemma drop_big:
  assumes inv: "pool_inv C K m" and K: "K h = Some (t, sz)" and big: "64 \<le> SIZE_TO_LIST (ucast sz)"
  shows "C h = Some (Big (unat (pool_pages (ucast sz)))) \<and> pool_inv (C(h := None)) (K(h := None)) m"
proof -
  let ?c = "Big (unat (pool_pages (ucast sz)))"
  have p: "pinv C K (fl m) (Blocks m) (Tails m)" using inv by (simp add: pool_inv_def)
  then have ok: "chunks_ok C" and fi: "free_inv C (fl m) (Blocks m)" and ui: "used_inv C K (Blocks m) (Tails m)"
    by (auto simp: pinv_def)
  have C: "C h = Some ?c" using used_invD [OF ui K] big by (auto simp: room_def)
  have p': "pinv C (K(h := None)) (fl m) (Blocks m) (Tails m)" by (rule pinv_heads_mono [OF p]) (auto simp: map_le_def)
  have ns: "unat a \<notin> space h ?c" if "slot C a i" for a i using slot_owner [OF ok C _ that] by auto
  have "unat a \<notin> space h ?c" if a: "(K(h := None)) a = Some x" for a x
  proof
    assume sp: "unat a \<in> space h ?c"
    obtain t' sz' where x: "x = (t', sz')" by force
    have ne: "a \<noteq> h" and "K a = Some (t', sz')" using a x by (auto split: if_splits)
    then have u: "room C a sz'" using used_invD [OF ui] by blast
    show False
    proof (cases "SIZE_TO_LIST (ucast sz') < 64")
      case True
      then show False using ns u sp by (auto simp: room_def)
    next
      case False
      then obtain p where "C a = Some (Big p)" using u by (simp add: room_def)
      then show False using chunk_unique [OF ok _ C chunk_nonempty sp] chunks_okD [OF ok] ne by blast
    qed
  qed
  moreover have "unat a \<notin> space h ?c" if "okref r" "a \<in> set (fl m r i)" for a r i
    using ns free_invD(2) [OF fi that] by blast
  ultimately have "pinv (C(h := None)) (K(h := None)) (fl m) (Blocks m) (Tails m)" by (intro pinv_drop [OF p' C]) auto
  then show ?thesis using C by (simp add: pool_inv_def)
qed

end
