(* ===== verification/FindPages.thy ===== *)
theory FindPages
  imports MapInv
begin

text \<open>
  The search for free pages of \<open>mem/page.c\<close> against its specification: of all the places where a run
  of pages fits into one free descriptor below the limit, it takes the highest one.
\<close>

text \<open>
  A run of \<open>np\<close> pages fits at the address \<open>x\<close>: it lies in one free descriptor, ends at or below the
  limit and ends at a multiple of the alignment.
\<close>

definition fits :: "nat \<Rightarrow> nat \<Rightarrow> nat \<Rightarrow> MEMORY_MAP list \<Rightarrow> nat \<Rightarrow> bool" where
  "fits limit al np Es x \<longleftrightarrow>
     (\<exists>E\<in>set Es. MType E = EfiConventionalMemory \<and> unat (MStart E) \<le> x \<and> x + np * 4096 \<le> Suc (unat (MEnd E))) \<and>
     x + np * 4096 \<le> limit \<and> (x + np * 4096) mod al = 0"

text \<open>The limit a maximum address stands for: the end of the last whole page below it.\<close>

definition page_limit :: "UINT64 \<Rightarrow> nat" where
  "page_limit MaxAddress = Suc (unat MaxAddress) div 4096 * 4096"

text \<open>The last address that the loop of \<open>FindFreePagesI\<close> finds usable in one descriptor, plus one.\<close>

definition usable_end :: "nat \<Rightarrow> nat \<Rightarrow> MEMORY_MAP \<Rightarrow> nat" where
  "usable_end limit al E = min limit (Suc (unat (MEnd E))) div al * al"

lemma page_limit_le: "page_limit x \<le> 2 ^ 64"
proof -
  have "page_limit x \<le> Suc (unat x)" by (simp add: page_limit_def)
  also have "\<dots> \<le> 2 ^ 64" using unsigned_less [of x, where ?'a = nat] by simp
  finally show ?thesis .
qed

lemma clip_max:
  assumes "\<not> x < EFI_PAGE_MASK"
  shows "Suc (unat (if x AND EFI_PAGE_MASK \<noteq> EFI_PAGE_MASK then ((x - (EFI_PAGE_MASK + 1)) AND NOT EFI_PAGE_MASK) OR EFI_PAGE_MASK else x))
         = page_limit x"
proof -
  have x: "4095 \<le> unat x" using assms by (simp add: not_less word_le_nat_alt)
  have off: "x AND EFI_PAGE_MASK = EFI_PAGE_MASK \<longleftrightarrow> unat x mod 4096 = 4095"
    by (simp add: word_unat_eq_iff page_offset)
  show ?thesis
  proof (cases "unat x mod 4096 = 4095")
    case True
    then have "page_limit x = Suc (unat x)"
      by (simp add: page_limit_def minus_mod_eq_div_mult [symmetric] mod_Suc)
    then show ?thesis using True off by simp
  next
    case False
    let ?y = "(x - 4096) AND NOT EFI_PAGE_MASK"
    have ge: "4096 \<le> unat x" using x False by (cases "unat x = 4095") auto
    have "unat (x - 4096) = unat x - 4096" by (subst unat_sub_le) (use ge in auto)
    then have y: "unat ?y = (unat x - 4096) div 4096 * 4096"
      using align_down [of 12 "x - 4096"] by simp
    have "?y AND EFI_PAGE_MASK = 0" by (simp add: and.assoc)
    then have "?y OR EFI_PAGE_MASK = ?y + EFI_PAGE_MASK" by (rule page_or)
    moreover have "unat (?y + EFI_PAGE_MASK) = unat ?y + 4095"
      by (subst unat_add_le) (use y ge unsigned_less [of x, where ?'a = nat] in auto)
    moreover have "page_limit x = unat x div 4096 * 4096" 
      using False by (simp add: page_limit_def minus_mod_eq_div_mult [symmetric] mod_Suc)
    moreover have "unat x div 4096 * 4096 = Suc (unat ?y + 4095)" using y ge le_div_geq [of 4096 "unat x"] by simp
    ultimately show ?thesis using off False by simp
  qed
qed

lemma usable_end_less: "wf_entry E \<Longrightarrow> usable_end limit al E < 2 ^ 64"
proof -
  assume "wf_entry E"
  then have "Suc (unat (MEnd E)) < 2 ^ 64" by (simp add: wf_entry_def wf_range_def)
  moreover have "usable_end limit al E \<le> Suc (unat (MEnd E))"
    unfolding usable_end_def by (metis div_times_less_eq_dividend le_trans min.cobounded2)
  ultimately show ?thesis by simp
qed

lemma desc_end_plus1:
  assumes "wf_entry E" and "limit = Suc (unat MaxAddress)" and "k < 64"
  shows "unat (desc_end MaxAddress (2 ^ k) E + 1) = usable_end limit (2 ^ k) E"
proof -
  let ?e = "if MEnd E \<ge> MaxAddress then MaxAddress else MEnd E"
  have min: "Suc (unat ?e) = min limit (Suc (unat (MEnd E)))"
    using assms(2) by (auto simp: word_le_nat_alt)
  have lt: "Suc (unat ?e) < 2 ^ 64" using assms(1) min by (auto simp: wf_entry_def wf_range_def)
  then have "unat (?e + 1) = min limit (Suc (unat (MEnd E)))" by (metis unat_plus1 min)
  then show ?thesis
    using align_down [of k "?e + 1"] assms(3) by (simp add: usable_end_def desc_end_def)
qed

text \<open>The candidate a descriptor yields, as the number of the first address behind it, or 0.\<close>

definition candidate :: "nat \<Rightarrow> nat \<Rightarrow> nat \<Rightarrow> MEMORY_MAP \<Rightarrow> nat" where
  "candidate limit al np E =
     (if MType E = EfiConventionalMemory \<and> unat (MStart E) + np * 4096 \<le> usable_end limit al E
      then usable_end limit al E else 0)"

definition target_end :: "UINT64 \<Rightarrow> nat" where
  "target_end T = (if T = 0 then 0 else Suc (unat T))"

lemma usable_end_ge:
  assumes "wf_entry E" and "limit mod 4096 = 0" and "unat (MStart E) < limit" and "al = 4096 \<or> al = 8192"
  shows "unat (MStart E) \<le> usable_end limit al E"
proof -
  let ?m = "min limit (Suc (unat (MEnd E)))"
  have "?m mod 4096 = 0" "unat (MStart E) mod 4096 = 0" and lt: "unat (MStart E) < ?m"
    using assms(1-3) by (auto simp: wf_entry_def wf_range_def word_le_nat_alt min_def)
  then obtain a b where a: "?m = 4096 * a" and b: "unat (MStart E) = 4096 * b" by (metis mod_0_imp_dvd dvdE)
  have "b < a" using lt a b by simp
  moreover have "4096 * a div 8192 = a div 2" using div_mult2_eq [of "4096 * a" 4096 2] by simp
  moreover have "a \<le> a div 2 * 2 + 1" by linarith
  ultimately show ?thesis using assms(4) a b by (auto simp: usable_end_def)
qed

lemma free_target_eq:
  assumes wf: "wf_entry E" and M: "limit = Suc (unat MaxAddress)" "limit mod 4096 = 0"
    and al: "k = 12 \<or> k = 13" and np: "0 < np" "np < 2 ^ 52" and nb: "unat NoBytes = np * 4096"
  shows "target_end (free_target MaxAddress NoBytes (2 ^ k) T E) = max (target_end T) (candidate limit (2 ^ k) np E)"
proof (cases "MType E = EfiConventionalMemory \<and> \<not> MStart E \<ge> MaxAddress")
  case False
  have "usable_end limit (2 ^ k) E \<le> limit" by (metis div_times_less_eq_dividend le_trans min.cobounded1 usable_end_def)
  then have "candidate limit (2 ^ k) np E = 0"
    using False M(1) np by (auto simp: candidate_def word_le_nat_alt)
  then show ?thesis using False by (auto simp: free_target_def)
next
  case True
  let ?u = "usable_end limit (2 ^ k) E" and ?d = "desc_end MaxAddress (2 ^ k) E"
  have lt: "unat (MStart E) < limit" using True M(1) by (simp add: word_le_nat_alt)
  have ge: "unat (MStart E) \<le> ?u" by (rule usable_end_ge) (use wf M lt al in auto)
  have d1: "unat (?d + 1) = ?u" by (rule desc_end_plus1) (use wf M al in auto)
  have "?d - MStart E + 1 = (?d + 1) - MStart E" by simp
  then have no: "unat (?d - MStart E + 1) = ?u - unat (MStart E)" using ge d1 by (simp only: unat_sub_le)
  have d: "Suc (unat ?d) = ?u" if "0 < ?u"
    using that d1 unat_minus1 [of "?d + 1"] by (simp add: unat_eq_zero) (metis One_nat_def Suc_pred less_irrefl unsigned_0)
  have nb0: "0 < np * 4096" using np by simp
  have "?d - MStart E + 1 \<ge> NoBytes \<longleftrightarrow> unat (MStart E) + np * 4096 \<le> ?u"
    using no nb ge nb0 by (simp add: word_le_nat_alt) linarith
  then show ?thesis
    using True d nb0 ge
    by (auto simp: free_target_def Let_def candidate_def target_end_def word_less_nat_alt unat_eq_zero split: if_splits)
qed

text \<open>The whole list: the highest candidate.\<close>

definition best_end :: "nat \<Rightarrow> nat \<Rightarrow> nat \<Rightarrow> MEMORY_MAP list \<Rightarrow> nat" where
  "best_end limit al np Es = fold (\<lambda>E t. max t (candidate limit al np E)) Es 0"

lemma fold_max_ge: "t \<le> fold (\<lambda>E t. max t (f E)) Es t \<and> (\<forall>E\<in>set Es. f E \<le> fold (\<lambda>E t. max t (f E)) Es t)" for t :: nat
proof (induction Es arbitrary: t)
  case (Cons E Es)
  show ?case using Cons [of "max t (f E)"] by auto
qed simp

lemma fold_max_in: "fold (\<lambda>E t. max t (f E)) Es t = t \<or> (\<exists>E\<in>set Es. f E = fold (\<lambda>E t. max t (f E)) Es t)" for t :: nat
proof (induction Es arbitrary: t)
  case (Cons E Es)
  show ?case using Cons [of "max t (f E)"] by (auto simp: max_def split: if_splits)
qed simp

lemma fits_best:
  assumes "0 < np" and "0 < al"
  shows "fits limit al np Es x \<Longrightarrow> x + np * 4096 \<le> best_end limit al np Es"
    and "best_end limit al np Es \<noteq> 0 \<Longrightarrow>
         np * 4096 \<le> best_end limit al np Es \<and> fits limit al np Es (best_end limit al np Es - np * 4096)"
proof -
  assume "fits limit al np Es x"
  then obtain E where E: "E \<in> set Es" "MType E = EfiConventionalMemory" "unat (MStart E) \<le> x"
      and le: "x + np * 4096 \<le> min limit (Suc (unat (MEnd E)))" and dvd: "(x + np * 4096) mod al = 0"
    unfolding fits_def by auto
  have "x + np * 4096 = (x + np * 4096) div al * al" using dvd by (metis add.right_neutral div_mult_mod_eq)
  also have "\<dots> \<le> usable_end limit al E" unfolding usable_end_def using le by (intro mult_right_mono div_le_mono) auto
  finally have u: "x + np * 4096 \<le> usable_end limit al E" .
  then have "candidate limit al np E = usable_end limit al E" using E by (simp add: candidate_def)
  moreover have "candidate limit al np E \<le> best_end limit al np Es"
    using fold_max_ge [of 0 "candidate limit al np" Es] E(1) by (auto simp: best_end_def)
  ultimately show "x + np * 4096 \<le> best_end limit al np Es" using u by simp
next
  assume nz: "best_end limit al np Es \<noteq> 0"
  then obtain E where E: "E \<in> set Es" "candidate limit al np E = best_end limit al np Es"
    using fold_max_in [of "candidate limit al np" Es 0] by (auto simp: best_end_def)
  then have c: "MType E = EfiConventionalMemory" "unat (MStart E) + np * 4096 \<le> best_end limit al np Es"
      "best_end limit al np Es = usable_end limit al E"
    using nz by (auto simp: candidate_def split: if_splits)
  have "usable_end limit al E \<le> min limit (Suc (unat (MEnd E)))" 
    unfolding usable_end_def by (rule div_times_less_eq_dividend)
  moreover have "usable_end limit al E mod al = 0" by (simp add: usable_end_def)
  ultimately show "np * 4096 \<le> best_end limit al np Es \<and> fits limit al np Es (best_end limit al np Es - np * 4096)"
    using c E(1) unfolding fits_def by auto
qed

abbreviation (input) entries :: "'y mem_scheme \<Rightarrow> MEMORY_MAP list" where
  "entries m \<equiv> map (MapEntry m) (MemoryMap m)"

lemma fold_free_target:
  assumes "\<forall>p\<in>set ps. wf_entry (f p)" and "limit = Suc (unat MaxAddress)" "limit mod 4096 = 0"
    and "k = 12 \<or> k = 13" and "0 < np" "np < 2 ^ 52" and "unat NoBytes = np * 4096"
  shows "target_end (fold (\<lambda>p T. free_target MaxAddress NoBytes (2 ^ k) T (f p)) ps T)
         = fold (\<lambda>E t. max t (candidate limit (2 ^ k) np E)) (map f ps) (target_end T)"
  using assms(1) by (induction ps arbitrary: T) (simp_all add: free_target_eq [OF _ assms(2-7)])

lemma FindFreePagesI_eq:
  assumes wf: "\<forall>p\<in>set (MemoryMap m). wf_entry (MapEntry m p)"
    and k: "Alignment = 2 ^ k" "k = 12 \<or> k = 13" and np: "0 < unat NoPages" "unat NoPages < 2 ^ 52"
  shows "unat (FindFreePagesI MaxAddress NoPages NewType Alignment m)
         = best_end (page_limit MaxAddress) (2 ^ k) (unat NoPages) (entries m) - unat NoPages * 4096"
proof (cases "MaxAddress < EFI_PAGE_MASK")
  case True
  then have "page_limit MaxAddress = 0" by (simp add: page_limit_def word_less_nat_alt)
  then have "candidate (page_limit MaxAddress) (2 ^ k) (unat NoPages) E = 0" for E
    using np by (simp add: candidate_def usable_end_def)
  then have "best_end (page_limit MaxAddress) (2 ^ k) (unat NoPages) (entries m) = 0"
    using fold_max_in [of "candidate (page_limit MaxAddress) (2 ^ k) (unat NoPages)" "entries m" 0]
    by (auto simp: best_end_def)
  then show ?thesis using True by (simp add: FindFreePagesI_def)
next
  case False
  let ?M = "if MaxAddress AND EFI_PAGE_MASK \<noteq> EFI_PAGE_MASK
            then ((MaxAddress - (EFI_PAGE_MASK + 1)) AND NOT EFI_PAGE_MASK) OR EFI_PAGE_MASK else MaxAddress"
  let ?nb = "push_bit EFI_PAGE_SHIFT NoPages" and ?np = "unat NoPages"
  let ?T = "fold (\<lambda>p T. free_target ?M ?nb (2 ^ k) T (MapEntry m p)) (MemoryMap m) 0"
  let ?t = "best_end (page_limit MaxAddress) (2 ^ k) ?np (entries m)"
  have np0: "NoPages \<noteq> 0" using np(1) by auto
  have M: "page_limit MaxAddress = Suc (unat ?M)" by (rule clip_max [OF False, symmetric])
  have nb: "unat ?nb = ?np * 4096" by (rule shift_pages [OF np(2)])
  have t: "target_end ?T = ?t"
    unfolding best_end_def by (subst fold_free_target [OF wf M _ k(2) np nb]) (auto simp: page_limit_def target_end_def)
  have res: "FindFreePagesI MaxAddress NoPages NewType Alignment m =
      (if (?T - (?nb - 1)) AND EFI_PAGE_MASK \<noteq> 0 then 0 else ?T - (?nb - 1))"
    using False k(1) np0 by (simp add: FindFreePagesI_def Let_def)
  have nb1: "unat (?nb - 1) = ?np * 4096 - 1"
    using unat_minus1 [of ?nb] nb np by (metis mult_pos_pos less_irrefl unsigned_0 zero_less_numeral)
  show ?thesis
  proof (cases "?t = 0")
    case True
    then have "?T = 0" using t by (simp add: target_end_def split: if_splits)
    then have "?T - (?nb - 1) = 1 - ?nb" by simp
    moreover have "(1 - ?nb) AND EFI_PAGE_MASK = 1" by (simp add: page_offset_neg)
    ultimately show ?thesis using res True by simp
  next
    case ne: False
    then have T: "Suc (unat ?T) = ?t" using t by (simp add: target_end_def split: if_splits)
    have le: "?np * 4096 \<le> ?t" and fit: "fits (page_limit MaxAddress) (2 ^ k) ?np (entries m) (?t - ?np * 4096)"
      using fits_best(2) [OF np(1) _ ne] by auto
    have b: "unat (?T - (?nb - 1)) = ?t - ?np * 4096"
      by (subst unat_sub_le) (use nb1 T le np in auto)
    have "?t mod 2 ^ k = 0" using fit le by (simp add: fits_def)
    then have "?t mod 4096 = 0" using k(2) by (auto simp: mod_eq_0_iff_dvd intro: dvd_trans [of 4096 8192])
    then have "(?t - ?np * 4096) mod 4096 = 0" using le by (simp add: mod_diff_right_eq mod_eq_0_iff_dvd dvd_diff_nat)
    then have "(?T - (?nb - 1)) AND EFI_PAGE_MASK = 0" using b by (simp add: word_unat_eq_iff page_offset)
    then show ?thesis using res b by simp
  qed
qed

text \<open>The highest place where the run fits, or 0 when there is none above 0.\<close>

definition highest_fit :: "nat \<Rightarrow> nat \<Rightarrow> nat \<Rightarrow> MEMORY_MAP list \<Rightarrow> nat \<Rightarrow> bool" where
  "highest_fit limit al np Es b \<longleftrightarrow> (\<forall>x. fits limit al np Es x \<longrightarrow> x \<le> b) \<and> (b = 0 \<or> fits limit al np Es b)"

lemma highest_fit_unique: "highest_fit limit al np Es b \<Longrightarrow> highest_fit limit al np Es c \<Longrightarrow> b = c"
  by (auto simp: highest_fit_def intro: antisym)

lemma FindFreePagesI_highest:
  assumes wf: "\<forall>p\<in>set (MemoryMap m). wf_entry (MapEntry m p)"
    and al: "Alignment \<in> {4096, 8192}" and np: "0 < unat NoPages" "unat NoPages < 2 ^ 52"
  shows "highest_fit (page_limit MaxAddress) (unat Alignment) (unat NoPages) (entries m)
           (unat (FindFreePagesI MaxAddress NoPages NewType Alignment m))"
proof -
  obtain k where k: "Alignment = 2 ^ k" "k = 12 \<or> k = 13" "unat Alignment = 2 ^ k"
  proof (cases "Alignment = 4096")
    case True
    then show ?thesis using that [of 12] by simp
  next
    case False
    then show ?thesis using that [of 13] al by simp
  qed
  let ?t = "best_end (page_limit MaxAddress) (2 ^ k) (unat NoPages) (entries m)"
  have "x \<le> ?t - unat NoPages * 4096" if "fits (page_limit MaxAddress) (2 ^ k) (unat NoPages) (entries m) x" for x
    using fits_best(1) [OF np(1) _ that] by simp
  moreover have "?t - unat NoPages * 4096 = 0 \<or> fits (page_limit MaxAddress) (2 ^ k) (unat NoPages) (entries m) (?t - unat NoPages * 4096)"
    using fits_best(2) [OF np(1), of "2 ^ k" "page_limit MaxAddress" "entries m"] by (cases "?t = 0") auto
  ultimately show ?thesis
    unfolding highest_fit_def k(3) FindFreePagesI_eq [OF wf k(1,2) np] by blast
qed

text \<open>The limit with the watermark of the memory type.\<close>

definition watermark_max :: "int \<Rightarrow> UINT64 \<Rightarrow> 'y mem_scheme \<Rightarrow> UINT64" where
  "watermark_max NewType MaxAddress m = (case watermark NewType m of Some w \<Rightarrow> min MaxAddress w | None \<Rightarrow> MaxAddress)"

definition search_limit :: "int \<Rightarrow> UINT64 \<Rightarrow> nat \<Rightarrow> nat \<Rightarrow> 'y mem_scheme \<Rightarrow> nat" where
  "search_limit NewType MaxAddress al np m =
     (let L = page_limit (watermark_max NewType MaxAddress m)
      in if \<exists>x>0. fits L al np (entries m) x then L else page_limit MaxAddress)"

lemma page_limit_mono: "x \<le> y \<Longrightarrow> page_limit x \<le> page_limit y"
  by (simp add: page_limit_def word_le_nat_alt div_le_mono)

lemma search_limit_le: "search_limit NewType MaxAddress al np m \<le> page_limit MaxAddress"
  by (auto simp: search_limit_def Let_def watermark_max_def split: option.splits intro!: page_limit_mono)

lemma FindFreePages_highest:
  assumes "\<forall>p\<in>set (MemoryMap m). wf_entry (MapEntry m p)" and "Alignment \<in> {4096, 8192}"
    and "0 < unat NoPages" "unat NoPages < 2 ^ 52"
  shows "highest_fit (search_limit NewType MaxAddress (unat Alignment) (unat NoPages) m) (unat Alignment) (unat NoPages)
           (entries m) (unat (FindFreePages MaxAddress NoPages NewType Alignment m))"
proof -
  let ?w = "watermark_max NewType MaxAddress m"
  let ?B = "FindFreePagesI ?w NoPages NewType Alignment m"
  have w: "(case watermark NewType m of Some w \<Rightarrow> if MaxAddress > w then w else MaxAddress | None \<Rightarrow> MaxAddress) = ?w"
    by (auto simp: watermark_max_def min_def split: option.splits)
  have hf: "highest_fit (page_limit ?w) (unat Alignment) (unat NoPages) (entries m) (unat ?B)"
    by (rule FindFreePagesI_highest [OF assms])
  then have iff: "unat ?B = 0 \<longleftrightarrow> \<not> (\<exists>x>0. fits (page_limit ?w) (unat Alignment) (unat NoPages) (entries m) x)"
    unfolding highest_fit_def by (metis gr0I le_zero_eq less_irrefl)
  show ?thesis
  proof (cases "?B = 0")
    case True
    then have none: "\<not> (\<exists>x>0. fits (page_limit ?w) (unat Alignment) (unat NoPages) (entries m) x)"
      using iff by (metis unsigned_0)
    show ?thesis
      using FindFreePagesI_highest [OF assms, of MaxAddress NewType]
      unfolding FindFreePages_def search_limit_def Let_def w if_not_P [OF none] if_P [OF True] .
  next
    case False
    then have "unat ?B \<noteq> 0" by (simp add: unat_eq_zero)
    then show ?thesis using False iff hf unfolding FindFreePages_def search_limit_def Let_def w by simp
  qed
qed

lemma FindFreePages_fits:
  assumes "\<forall>p\<in>set (MemoryMap m). wf_entry (MapEntry m p)" and "Alignment \<in> {4096, 8192}"
    and "0 < unat NoPages" "unat NoPages < 2 ^ 52" and "FindFreePages MaxAddress NoPages NewType Alignment m = B" "B \<noteq> 0"
  shows "fits (page_limit MaxAddress) (unat Alignment) (unat NoPages) (entries m) (unat B)"
proof -
  have "fits (search_limit NewType MaxAddress (unat Alignment) (unat NoPages) m) (unat Alignment) (unat NoPages) (entries m) (unat B)"
    using FindFreePages_highest [OF assms(1-4), of NewType MaxAddress] assms(5,6) by (simp add: highest_fit_def unat_eq_zero)
  then show ?thesis using search_limit_le [of NewType MaxAddress "unat Alignment" "unat NoPages" m] by (auto simp: fits_def)
qed

text \<open>
  C21: \<open>FindFreePages\<close> returns the highest address where the run of pages fits into one free
  descriptor and ends at a multiple of the alignment, first below the watermark of the memory type
  and, if nothing fits there, below the caller's limit; 0 stands for "no place above 0".
\<close>

theorem find_free_pages_highest:
  assumes "map_inv m" and "Alignment \<in> {4096, 8192}" and "0 < unat NoPages" and "unat NoPages < 2 ^ 52"
  shows "highest_fit (search_limit NewType MaxAddress (unat Alignment) (unat NoPages) m) (unat Alignment) (unat NoPages)
           (entries m) (unat (FindFreePages MaxAddress NoPages NewType Alignment m))"
  by (rule FindFreePages_highest) (use assms in \<open>auto simp: map_inv_def mlist_inv_def\<close>)

theorem find_free_pages_highest_witness:
  "map_inv one_range \<and> FindFreePages 0x1FEFFF 4 EfiBootServicesData 8192 one_range = 0x1FA000 \<and>
   highest_fit (search_limit EfiBootServicesData 0x1FEFFF (unat (8192 :: UINT64)) (unat (4 :: UINT64)) one_range)
     (unat (8192 :: UINT64)) (unat (4 :: UINT64)) (entries one_range)
     (unat (FindFreePages 0x1FEFFF 4 EfiBootServicesData 8192 one_range))"
  using find_free_pages_highest [where m = one_range and Alignment = 8192 and NoPages = 4
          and NewType = EfiBootServicesData and MaxAddress = "0x1FEFFF"] map_inv_one_range
  by (simp add: FindFreePages_def FindFreePagesI_def watermark_def free_target_def desc_end_def one_range_def Let_def)

end
