(* ===== verification/MemInv.thy ===== *)
theory MemInv
  imports MapOps PoolOps FindPages
begin

text \<open>
  The invariant of the whole memory state and the contract between the memory map and the pool. The
  map keeps its descriptors in the pool and the pool takes its pages from the map; the two
  operations of the pool that the map calls are the \<open>fixes\<close> of the locale \<open>pool_contract\<close>, and the
  theorems about the map are proved once from their laws.
\<close>

section \<open>The invariant\<close>

text \<open>What the map says of the addresses apart from their types: this never changes.\<close>

definition vis :: "(nat \<times> int \<times> UINT64) set \<Rightarrow> (nat \<times> UINT64) set" where
  "vis R = {(a, w). \<exists>t. (a, t, w) \<in> R}"

text \<open>The addresses that were handed out as pages (\<open>D\<close>, with their types) have that type in the map.\<close>

definition claims :: "(nat \<rightharpoonup> int) \<Rightarrow> (nat \<times> int \<times> UINT64) set \<Rightarrow> bool" where
  "claims D R \<longleftrightarrow> (\<forall>a t. D a = Some t \<longrightarrow> t \<noteq> EfiConventionalMemory \<and> (\<exists>w. (a, t, w) \<in> R))"

text \<open>The chunks of the pool are memory that is neither free nor handed out as pages.\<close>

definition backed :: "(UINTN \<rightharpoonup> chunk) \<Rightarrow> (nat \<rightharpoonup> int) \<Rightarrow> (nat \<times> int \<times> UINT64) set \<Rightarrow> bool" where
  "backed C D R \<longleftrightarrow> (\<forall>b c a. C b = Some c \<and> a \<in> space b c \<longrightarrow>
     D a = None \<and> (\<exists>t w. t \<noteq> EfiConventionalMemory \<and> (a, t, w) \<in> R))"

text \<open>
  The pool blocks in use: those handed out to callers (\<open>K\<close>), those that hold descriptors of the map
  and those that hold the pools of the OS loader's memory types.
\<close>

definition hdr :: "UINTN \<Rightarrow> UINTN" where
  "hdr b = b - SIZE_OF_POOL_HEAD"

definition pool_descs :: "'y mem_scheme \<Rightarrow> UINTN set" where
  "pool_descs m = fst ` set (PoolHeadList m)"

definition owners :: "heads \<Rightarrow> heads \<Rightarrow> UINTN set \<Rightarrow> UINTN set \<Rightarrow> bool" where
  "owners Ka K P Q \<longleftrightarrow> K \<subseteq>\<^sub>m Ka \<and> dom Ka = dom K \<union> hdr ` P \<union> hdr ` Q \<and> dom K \<inter> (hdr ` P \<union> hdr ` Q) = {} \<and> P \<inter> Q = {}"

definition mem_inv ::
  "heads \<Rightarrow> (nat \<rightharpoonup> int) \<Rightarrow> (nat \<times> UINT64) set \<times> 'y \<Rightarrow> 'y mem_scheme \<Rightarrow> bool"
where
  "mem_inv K D V m \<longleftrightarrow>
     map_inv m \<and> V = (vis (region m), mem.more m) \<and> claims D (region m) \<and> distinct (map fst (PoolHeadList m)) \<and>
     (\<exists>C Ka. backed C D (region m) \<and> owners Ka K (pool_entries m) (pool_descs m) \<and> pool_inv C Ka m)"

lemma hdr_inj [simp]: "hdr a = hdr b \<longleftrightarrow> a = b"
  by (simp add: hdr_def)

lemma hdr_image [simp]: "hdr a \<in> hdr ` A \<longleftrightarrow> a \<in> A"
  by (auto simp: image_iff)

lemma hdr_plus [simp]: "hdr (h + 16) = h"
  by (simp add: hdr_def)

lemma claims_restrict: "claims D R \<Longrightarrow> claims (D |` S) R"
  by (auto simp: claims_def restrict_map_def split: if_splits)

lemma backed_restrict: "backed C D R \<Longrightarrow> backed C (D |` S) R"
  by (fastforce simp: backed_def restrict_map_def)

lemma mem_inv_restrict: "mem_inv K D V m \<Longrightarrow> mem_inv K (D |` S) V m"
  unfolding mem_inv_def using claims_restrict backed_restrict by blast

text \<open>A block changes hands between the map or the list of pools and a caller.\<close>

lemma hdr_diff: "hdr ` (P - {a}) = hdr ` P - {hdr a}"
  by auto

lemma owners_none: "owners Ka K P Q \<Longrightarrow> a \<in> P \<union> Q \<Longrightarrow> K (hdr a) = None \<and> (\<exists>x. Ka (hdr a) = Some x)"
proof -
  assume ow: "owners Ka K P Q" and a: "a \<in> P \<union> Q"
  then have "hdr a \<in> hdr ` P \<union> hdr ` Q" by blast
  then have "hdr a \<notin> dom K" "hdr a \<in> dom Ka" using ow unfolding owners_def by blast+
  then show ?thesis by blast
qed

lemma owners_swap: "owners Ka K P Q \<Longrightarrow> owners Ka K Q P"
  unfolding owners_def by (simp add: Un_commute Un_left_commute Int_commute Un_assoc)

lemma owners_give:
  assumes ow: "owners Ka K P Q" and a: "a \<in> P" and x: "Ka (hdr a) = Some x"
  shows "owners Ka (K(hdr a \<mapsto> x)) (P - {a}) Q"
proof -
  have "hdr a \<notin> hdr ` Q" using ow a unfolding owners_def by auto
  moreover have "hdr a \<in> hdr ` P" using a by simp
  ultimately have "dom Ka = dom (K(hdr a \<mapsto> x)) \<union> hdr ` (P - {a}) \<union> hdr ` Q"
      "dom (K(hdr a \<mapsto> x)) \<inter> (hdr ` (P - {a}) \<union> hdr ` Q) = {}"
    using ow unfolding owners_def hdr_diff dom_fun_upd by auto
  moreover have "K(hdr a \<mapsto> x) \<subseteq>\<^sub>m Ka" using ow x by (simp add: owners_def map_le_def)
  ultimately show ?thesis using ow unfolding owners_def by blast
qed

lemma owners_keep:
  assumes ow: "owners Ka (K(hdr a \<mapsto> x)) P Q" and K: "K (hdr a) = None"
  shows "owners Ka K (insert a P) Q"
proof -
  have "hdr a \<in> dom (K(hdr a \<mapsto> x))" by simp
  then have n: "hdr a \<notin> hdr ` P" "hdr a \<notin> hdr ` Q" using ow unfolding owners_def by blast+
  then have "insert a P \<inter> Q = {}" using ow unfolding owners_def by auto
  moreover have "dom K \<inter> (hdr ` insert a P \<union> hdr ` Q) = {}" "dom Ka = dom K \<union> hdr ` insert a P \<union> hdr ` Q"
    using ow K unfolding owners_def dom_fun_upd by auto
  moreover have "K \<subseteq>\<^sub>m Ka"
  proof (rule map_le_trans)
    show "K \<subseteq>\<^sub>m K(hdr a \<mapsto> x)" using K by (auto simp: map_le_def)
    show "K(hdr a \<mapsto> x) \<subseteq>\<^sub>m Ka" using ow by (simp add: owners_def)
  qed
  ultimately show ?thesis unfolding owners_def by blast
qed

text \<open>A caller that forgets a block leaks it.\<close>

lemma owners_forget: "owners Ka K P Q \<Longrightarrow> K h \<noteq> None \<Longrightarrow> owners (Ka(h := None)) (K(h := None)) P Q"
  by (auto simp: owners_def map_le_def)

lemma mem_inv_forget: "mem_inv K D V m \<Longrightarrow> mem_inv (K(h := None)) D V m"
proof (cases "K h = None")
  case True
  then have "K(h := None) = K" by auto
  then show "mem_inv K D V m \<Longrightarrow> ?thesis" by simp
next
  case False
  assume "mem_inv K D V m"
  then obtain C Ka where *: "map_inv m" "V = (vis (region m), mem.more m)" "claims D (region m)" "distinct (map fst (PoolHeadList m))"
      "backed C D (region m)" "owners Ka K (pool_entries m) (pool_descs m)" "pool_inv C Ka m" by (auto simp: mem_inv_def)
  have "pool_inv C (Ka(h := None)) m"
    using *(7) unfolding pool_inv_def by (rule pinv_heads_mono) (auto simp: map_le_def)
  then show ?thesis using * owners_forget [OF *(6) False] unfolding mem_inv_def by blast
qed

text \<open>The invariant of a map one of whose descriptors is about to be removed.\<close>

definition leaving :: "map_ptr \<Rightarrow> heads \<Rightarrow> (nat \<rightharpoonup> int) \<Rightarrow> (nat \<times> UINT64) set \<times> 'y \<Rightarrow> 'y mem_scheme \<Rightarrow> bool" where
  "leaving p K D V m \<longleftrightarrow>
     (let m1 = m\<lparr>MemoryMap := remove1 p (MemoryMap m)\<rparr> in
      removable p m \<and> V = (vis (region m1), mem.more m) \<and> claims D (region m1) \<and> distinct (map fst (PoolHeadList m)) \<and>
      (\<exists>C Ka. backed C D (region m1) \<and> owners Ka K (pool_entries m) (pool_descs m) \<and> pool_inv C Ka m))"

lemma pool_inv_same: "pool_same m m' \<Longrightarrow> pool_inv C K m' = pool_inv C K m"
proof -
  assume s: "pool_same m m'"
  then have "get_pool r m' = get_pool r m" for r by (simp add: get_pool_def pool_same_def split: pool_ref.splits)
  then have "fl m' = fl m" by (simp add: fl_def fun_eq_iff)
  then show ?thesis using s by (simp add: pool_inv_def pool_same_def)
qed

lemma pool_descs_same: "pool_same m m' \<Longrightarrow> pool_descs m' = pool_descs m \<and> map fst (PoolHeadList m') = map fst (PoolHeadList m) \<and> mem.more m' = mem.more m"
  by (simp add: pool_descs_def pool_same_def)

definition retype :: "(nat \<rightharpoonup> int) \<Rightarrow> nat set \<Rightarrow> int \<Rightarrow> (nat \<rightharpoonup> int)" where
  "retype D X t = (\<lambda>a. if a \<in> X then (if t = EfiConventionalMemory then None else Some t) else D a)"

lemma retype_simps:
  "retype (retype D X t) Y t = retype D (X \<union> Y) t" "(retype D X t) |` (- Y) |` (- X) = D |` (- (X \<union> Y))"
  "retype D {} t = D" "retype (D |` (- X)) X t = retype D X t" "retype D X EfiConventionalMemory = D |` (- X)"
  by (auto simp: retype_def restrict_map_def fun_eq_iff)

text \<open>Putting fresh addresses into the map.\<close>

lemma fill_inv:
  assumes cl: "claims D (region m)" and b: "backed C D (region m)" and fr: "fresh X m" and R: "R = region m \<union> fill X t w"
  shows "claims (retype D X t) R" and "backed C (retype D X t) R" and "vis R = vis (region m) \<union> X \<times> {w}"
proof -
  show "claims (retype D X t) R"
    using cl unfolding claims_def retype_def R fill_def by (auto split: if_splits)
  show "backed C (retype D X t) R"
    using b fr unfolding backed_def retype_def R fresh_def by fastforce
  show "vis R = vis (region m) \<union> X \<times> {w}" by (auto simp: vis_def R fill_def)
qed

text \<open>Taking addresses out that no chunk of the pool uses.\<close>

lemma cut_inv:
  assumes cl: "claims D (region m)" and b: "backed C D (region m)" and ap: "apart C X"
  shows "claims (D |` (- X)) (cut X (region m))" and "backed C (D |` (- X)) (cut X (region m))"
    and "vis (cut X (region m)) = vis (region m) - X \<times> UNIV"
proof -
  show "claims (D |` (- X)) (cut X (region m))"
    using cl unfolding claims_def cut_def by (auto simp: restrict_map_def split: if_splits)
  show "backed C (D |` (- X)) (cut X (region m))"
    using b ap unfolding backed_def cut_def apart_def by (fastforce simp: restrict_map_def)
  show "vis (cut X (region m)) = vis (region m) - X \<times> UNIV" by (auto simp: vis_def cut_def)
qed

lemma apart_claimed: "backed C D R \<Longrightarrow> X \<subseteq> dom D \<Longrightarrow> apart C X"
  unfolding backed_def apart_def by fastforce

lemma apart_free:
  assumes "map_inv m" and "backed C D (region m)" and "\<And>a. a \<in> X \<Longrightarrow> \<exists>w. (a, EfiConventionalMemory, w) \<in> region m"
  shows "apart C X"
  using assms lregion_functional [of "MemoryMap m" "MapEntry m" "MapDepth m"]
  unfolding backed_def apart_def map_inv_def region_def by (metis disjoint_iff)

section \<open>The contract\<close>

locale pool_contract =
  fixes allocI :: "'y alloc_op" and freeI :: "'y free_op"
  assumes alloc_ok: "mem_inv K D V m \<Longrightarrow> unat Size \<le> 0xffffff00 \<Longrightarrow> allocI t Size m = Ret (b, m') \<Longrightarrow>
      if b = 0 then mem_inv K D V m'
      else K (hdr b) = None \<and> mem_inv (K(hdr b \<mapsto> (t, ucast (ALIGN_VARIABLE Size + POOL_OVERHEAD)))) D V m'"
    and free_ok: "mem_inv K D V m \<Longrightarrow> K (hdr b) \<noteq> None \<Longrightarrow> freeI b m = Ret (st, m') \<Longrightarrow> mem_inv (K(hdr b := None)) D V m'"
    and free_null: "freeI 0 m = Ret (st, m') \<Longrightarrow> m' = m"
begin

lemma RemoveMemoryMapEntry_ok:
  assumes l: "leaving p K D V m" and ret: "RemoveMemoryMapEntry freeI p m = Ret m'"
  shows "mem_inv K D V m'"
proof -
  let ?m1 = "m\<lparr>MemoryMap := remove1 p (MemoryMap m)\<rparr>"
  obtain C Ka where rm: "removable p m" and V: "V = (vis (region ?m1), mem.more m)" and cl: "claims D (region ?m1)"
      and dp: "distinct (map fst (PoolHeadList m))" and b: "backed C D (region ?m1)"
      and ow: "owners Ka K (pool_entries m) (pool_descs m)" and pi: "pool_inv C Ka m"
    using l unfolding leaving_def Let_def by blast
  have mi: "map_inv ?m1" and p: "p \<in> set (MemoryMap m)" and d: "distinct (MemoryMap m)" and h: "home (MapDepth m) p (MapEntry m p)"
    using rm by (auto simp: removable_def)
  have pi1: "pool_inv C Ka ?m1" using pi pool_inv_same [of m ?m1] by simp
  show ?thesis
  proof (cases p)
    case (OnStack i)
    then have "m' = ?m1" using ret h by (simp add: RemoveMemoryMapEntry_def Let_def home_def)
    moreover have "pool_entries ?m1 = pool_entries m" using OnStack d by (auto simp: pool_entries_def)
    ultimately show ?thesis
      using mi V cl dp b ow pi1 unfolding mem_inv_def by (auto simp: pool_descs_def)
  next
    case (OnPool a)
    have pe: "pool_entries ?m1 = pool_entries m - {a}" "a \<in> pool_entries m" using OnPool d p by (auto simp: pool_entries_def)
    then obtain x where x: "Ka (hdr a) = Some x" and Kn: "K (hdr a) = None" using owners_none [OF ow] by blast
    have "owners Ka (K(hdr a \<mapsto> x)) (pool_entries ?m1) (pool_descs ?m1)"
      using owners_give [OF ow pe(2) x] pe(1) by (simp add: pool_descs_def)
    then have "mem_inv (K(hdr a \<mapsto> x)) D V ?m1"
      using mi V cl dp b pi1 unfolding mem_inv_def by auto
    moreover obtain st where "freeI a ?m1 = Ret (st, m')"
      using ret OnPool h by (auto simp: RemoveMemoryMapEntry_def Let_def home_def)
    ultimately have "mem_inv ((K(hdr a \<mapsto> x))(hdr a := None)) D V m'" by (intro free_ok) auto
    moreover have "(K(hdr a \<mapsto> x))(hdr a := None) = K" using Kn by auto
    ultimately show ?thesis by simp
  qed
qed

lemma AddRange_ok:
  assumes inv: "mem_inv K D (W, z) m" and wf: "wf_range S R" and fr: "fresh (addrs S R) m"
    and ret: "AddRange freeI t S R w m = Ret m'"
  shows "mem_inv K (retype D (addrs S R) t) (W \<union> addrs S R \<times> {w}, z) m'"
proof -
  let ?X = "addrs S R"
  obtain C Ka where mi: "map_inv m" and V: "W = vis (region m)" "z = mem.more m" and cl: "claims D (region m)"
      and dp: "distinct (map fst (PoolHeadList m))" and b: "backed C D (region m)"
      and ow: "owners Ka K (pool_entries m) (pool_descs m)" and pi: "pool_inv C Ka m"
    using inv by (auto simp: mem_inv_def)
  consider (plain) "map_inv m'" "added ?X t w m m'" "pool_entries m' = pool_entries m"
    | (merge) p m1 where "RemoveMemoryMapEntry freeI p m1 = Ret m'" "removable p m1"
        "added ?X t w m (m1\<lparr>MemoryMap := remove1 p (MemoryMap m1)\<rparr>)" "pool_entries m1 = pool_entries m"
    using AddRange_cases [OF mi wf fr, of freeI t w] ret by (metis run.distinct(1) run.inject)
  then show ?thesis
  proof cases
    case plain
    then have "pool_same m m'" and R: "region m' = region m \<union> fill ?X t w" by (auto simp: added_def)
    then show ?thesis
      using plain fill_inv [OF cl b fr R] V dp ow pi pool_inv_same [of m m'] pool_descs_same [of m m']
      unfolding mem_inv_def by auto
  next
    case merge
    let ?m2 = "m1\<lparr>MemoryMap := remove1 p (MemoryMap m1)\<rparr>"
    have ps: "pool_same m m1" and R: "region ?m2 = region m \<union> fill ?X t w" using merge(3) by (auto simp: added_def)
    have "leaving p K (retype D ?X t) (W \<union> ?X \<times> {w}, z) m1"
      using merge fill_inv [OF cl b fr R] V dp ow pi pool_inv_same [OF ps] pool_descs_same [OF ps]
      unfolding leaving_def Let_def by auto
    then show ?thesis by (rule RemoveMemoryMapEntry_ok [OF _ merge(1)])
  qed
qed

lemma move_ok:
  assumes inv: "mem_inv (K(hdr e \<mapsto> x)) D V m" and K: "K (hdr e) = None" and d: "d = MapDepth m - 1" and st: "OnStack d \<in> set (MemoryMap m)"
  shows "mem_inv K D V (move_to_pool d e (m\<lparr>MapDepth := d\<rparr>))"
proof -
  obtain C Ka where mi: "map_inv m" and V: "V = (vis (region m), mem.more m)" and cl: "claims D (region m)"
      and dp: "distinct (map fst (PoolHeadList m))" and b: "backed C D (region m)"
      and ow: "owners Ka (K(hdr e \<mapsto> x)) (pool_entries m) (pool_descs m)" and pi: "pool_inv C Ka m"
    using inv by (auto simp: mem_inv_def)
  let ?m = "m\<lparr>MapDepth := d\<rparr>"
  have "d < MapDepth m" using mi st by (auto simp: map_inv_def mlist_inv_def home_def)
  then have "Suc d = MapDepth m" using d by simp
  then have mi': "mlist_inv (MemoryMap ?m) (MapEntry ?m) (Suc d)" using mi by (simp add: map_inv_def)
  have "e \<notin> pool_entries m" using owners_none [OF ow, of e] by auto
  then have "OnPool e \<notin> set (MemoryMap ?m)" by (simp add: pool_entries_def)
  note mv = move_to_pool_ok [OF mi' _ this] st
  then have "map_inv (move_to_pool d e ?m)" "region (move_to_pool d e ?m) = region m" and ps: "pool_same m (move_to_pool d e ?m)"
      and "pool_entries (move_to_pool d e ?m) = insert e (pool_entries m)"
    by (auto simp: pool_same_def)
  then show ?thesis
    using V cl dp b owners_keep [OF ow K] pi pool_inv_same [OF ps] pool_descs_same [OF ps] unfolding mem_inv_def by auto
qed

lemma unpush_ok:
  assumes "mem_inv K D V m" and "d = MapDepth m - 1" and "OnStack d \<notin> set (MemoryMap m)"
  shows "mem_inv K D V (m\<lparr>MapDepth := d\<rparr>)"
proof -
  have ps: "pool_same m (m\<lparr>MapDepth := d\<rparr>)" by simp
  have "map_inv (m\<lparr>MapDepth := d\<rparr>)"
    using assms unfolding mem_inv_def map_inv_def mlist_inv_def home_def
    by (auto split: map_ptr.splits) (metis Suc_pred diff_0_eq_0 gr_zeroI less_Suc_eq less_nat_zero_code)
  then show ?thesis using assms(1) pool_inv_same [OF ps] unfolding mem_inv_def by (auto simp: pool_descs_def)
qed

lemma free_map_stack_loop_ok:
  "mem_inv K D V m \<Longrightarrow> free_map_stack_loop allocI freeI n m = Ret m' \<Longrightarrow> mem_inv K D V m'"
proof (induction n arbitrary: m)
  case (Suc n)
  show ?case
  proof (cases "MapDepth m = 0")
    case True
    then show ?thesis using Suc.prems by simp
  next
    case False
    then obtain e m1 where a: "allocI EfiRuntimeServicesData sizeof_MEMORY_MAP m = Ret (e, m1)"
        and rest: "(let d = MapDepth m1 - 1; m2 = m1\<lparr>MapDepth := d\<rparr>
          in if OnStack d \<in> set (MemoryMap m2)
             then if e = 0 then Fault else free_map_stack_loop allocI freeI n (move_to_pool d e m2)
             else bind_run (freeI e m2) (\<lambda>(_, m3). free_map_stack_loop allocI freeI n m3)) = Ret m'"
      using Suc.prems(2) by auto
    let ?d = "MapDepth m1 - 1"
    note al = alloc_ok [OF Suc.prems(1) _ a]
    show ?thesis
    proof (cases "OnStack ?d \<in> set (MemoryMap m1)")
      case True
      then have e: "e \<noteq> 0" and r: "free_map_stack_loop allocI freeI n (move_to_pool ?d e (m1\<lparr>MapDepth := ?d\<rparr>)) = Ret m'"
        using rest by (auto simp: Let_def split: if_splits)
      then obtain x where "K (hdr e) = None" "mem_inv (K(hdr e \<mapsto> x)) D V m1" using al by auto
      then show ?thesis using Suc.IH [OF _ r] move_ok [OF _ _ refl True] by blast
    next
      case False
      then obtain st m3 where f: "freeI e (m1\<lparr>MapDepth := ?d\<rparr>) = Ret (st, m3)" and r: "free_map_stack_loop allocI freeI n m3 = Ret m'"
        using rest by (auto simp: Let_def)
      have "mem_inv K D V m3"
      proof (cases "e = 0")
        case True
        then have "m3 = m1\<lparr>MapDepth := ?d\<rparr>" using free_null f by blast
        moreover have "mem_inv K D V m1" using al True by simp
        ultimately show ?thesis using unpush_ok [OF _ refl False] by blast
      next
        case nz: False
        then obtain x where K: "K (hdr e) = None" and "mem_inv (K(hdr e \<mapsto> x)) D V m1" using al by auto
        then have "mem_inv (K(hdr e \<mapsto> x)) D V (m1\<lparr>MapDepth := ?d\<rparr>)" using unpush_ok [OF _ refl False] by blast
        then have "mem_inv ((K(hdr e \<mapsto> x))(hdr e := None)) D V m3" by (rule free_ok [OF _ _ f]) simp
        moreover have "(K(hdr e \<mapsto> x))(hdr e := None) = K" using K by auto
        ultimately show ?thesis by simp
      qed
      then show ?thesis by (rule Suc.IH [OF _ r])
    qed
  qed
qed simp

lemma mem_inv_fields [simp]:
  "mem_inv K D V (m\<lparr>FreeMapStack := v\<rparr>) = mem_inv K D V m" "mem_inv K D V (m\<lparr>MemoryMapKey := k\<rparr>) = mem_inv K D V m"
  using pool_inv_same [of m "m\<lparr>FreeMapStack := v\<rparr>"] pool_inv_same [of m "m\<lparr>MemoryMapKey := k\<rparr>"]
  unfolding mem_inv_def by (simp_all add: pool_descs_def)

lemma FreeMemoryMapStack_ok:
  assumes "mem_inv K D V m" and "FreeMemoryMapStack allocI freeI n m = Ret m'"
  shows "mem_inv K D V m'"
  using assms free_map_stack_loop_ok [of K D V "m\<lparr>FreeMapStack := FreeMapStack m + 1\<rparr>" n]
  by (auto simp: FreeMemoryMapStack_def split: if_splits)

end

end
