(* ===== verification/ConvertInv.thy ===== *)
theory ConvertInv
  imports MemInv
begin

text \<open>
  The conversion of page ranges against the invariant of the memory state: the loop of
  \<open>ConvertPages\<close>, and the pages behind the pool.
\<close>

text \<open>The addresses whose conversion is legitimate: they were handed out as pages, or they are free.\<close>

definition free_addrs :: "'y mem_scheme \<Rightarrow> nat set" where
  "free_addrs m = {a. \<exists>w. (a, EfiConventionalMemory, w) \<in> region m}"

lemma region_functional:
  "map_inv m \<Longrightarrow> (a, t, w) \<in> region m \<Longrightarrow> (a, t', w') \<in> region m \<Longrightarrow> t = t' \<and> w = w'"
  unfolding map_inv_def region_def by (rule lregion_functional)

lemma free_not_claimed: "map_inv m \<Longrightarrow> claims D (region m) \<Longrightarrow> a \<in> free_addrs m \<Longrightarrow> D a = None"
proof (cases "D a")
  case (Some t)
  moreover assume "map_inv m" "claims D (region m)" "a \<in> free_addrs m"
  ultimately show ?thesis unfolding claims_def free_addrs_def using region_functional by blast
qed

lemma free_unclaimed:
  assumes "map_inv m" and "claims D (region m)" and "X \<subseteq> free_addrs m" shows "X \<inter> dom D = {}"
proof -
  have "a \<notin> dom D" if "a \<in> X" for a using free_not_claimed [OF assms(1,2)] assms(3) that by (simp add: domIff subset_iff)
  then show ?thesis by (simp add: disjoint_iff)
qed

lemma entry_region: "p \<in> set (MemoryMap m) \<Longrightarrow> a \<in> iv (MapEntry m p) \<Longrightarrow> (a, MType (MapEntry m p), MAttribute (MapEntry m p)) \<in> region m"
  by (auto simp: region_def lregion_def ereg_def)

lemma vis_cut_fill:
  assumes "map_inv m" and "p \<in> set (MemoryMap m)" and "X \<subseteq> iv (MapEntry m p)"
  shows "vis (region m) - X \<times> UNIV \<union> X \<times> {MAttribute (MapEntry m p)} = vis (region m)"
proof -
  have "w = MAttribute (MapEntry m p)" if "(a, t, w) \<in> region m" "a \<in> X" for a t w
    using region_functional [OF assms(1) that(1)] entry_region [OF assms(2), of a] that(2) assms(3) by blast
  moreover have "(a, MAttribute (MapEntry m p)) \<in> vis (region m)" if "a \<in> X" for a
    using that assms(3) entry_region [OF assms(2), of a] unfolding vis_def by blast
  ultimately show ?thesis unfolding vis_def by auto
qed

lemma convert_loop_status:
  "convert_loop allocI freeI n LoadConvert Start End t m = Ret (st, m') \<Longrightarrow> st = EFI_NOT_FOUND \<or> st = EFI_SUCCESS"
proof (induction n arbitrary: Start m)
  case (Suc n)
  then show ?case by (auto simp: Let_def split: if_splits option.splits)
qed simp

lemma ConvertPages_status:
  "ConvertPages allocI freeI n LoadConvert Start NoPages t m = Ret (st, m') \<Longrightarrow>
   st = EFI_NOT_FOUND \<or> st = EFI_INVALID_PARAMETER \<or> st = EFI_SUCCESS"
  using convert_loop_status by (fastforce simp: ConvertPages_def Let_def split: if_splits)

lemma fits_free:
  assumes "map_inv m" and "fits limit al np (entries m) x"
  shows "{x ..< x + np * 4096} \<subseteq> free_addrs m"
proof -
  obtain p where p: "p \<in> set (MemoryMap m)" "MType (MapEntry m p) = EfiConventionalMemory"
      "unat (MStart (MapEntry m p)) \<le> x" "x + np * 4096 \<le> Suc (unat (MEnd (MapEntry m p)))"
    using assms(2) by (auto simp: fits_def)
  then have "a \<in> iv (MapEntry m p)" if "a \<in> {x ..< x + np * 4096}" for a using that by (auto simp: iv_def)
  then show ?thesis using entry_region [OF p(1)] p(2) unfolding free_addrs_def by fastforce
qed

text \<open>Free memory cannot be converted to free memory.\<close>

lemma convert_free_to_free:
  assumes mi: "map_inv m" and st: "unat Start \<in> free_addrs m" and ret: "ConvertPages allocI freeI n False Start NoPages EfiConventionalMemory m = Ret (st, m')"
    and lt: "Start < Start + push_bit EFI_PAGE_SHIFT NoPages - 1"
  shows "EFI_ERROR st \<and> m' = m"
proof (cases n)
  case 0
  then show ?thesis using ret lt by (auto simp: ConvertPages_def Let_def split: if_splits)
next
  case (Suc k)
  let ?P = "\<lambda>p. MStart (MapEntry m p) \<le> Start \<and> MEnd (MapEntry m p) > Start"
  show ?thesis
  proof (cases "List.find ?P (MemoryMap m)")
    case None
    then show ?thesis using ret lt Suc by (auto simp: ConvertPages_def Let_def split: if_splits)
  next
    case (Some p)
    then have p: "p \<in> set (MemoryMap m)" "?P p" by (auto simp: find_Some_iff)
    then have "unat Start \<in> iv (MapEntry m p)" by (auto simp: iv_def word_le_nat_alt word_less_nat_alt)
    then have "MType (MapEntry m p) = EfiConventionalMemory"
      using entry_region [OF p(1)] st region_functional [OF mi] unfolding free_addrs_def by blast
    then show ?thesis using ret lt Suc Some by (auto simp: ConvertPages_def Let_def incompatible_def split: if_splits)
  qed
qed

text \<open>
  What is claimed after a conversion: on success the whole range, with its new type. A failed
  allocation leaves the claims as they were; the other conversions give them up.
\<close>

definition after :: "EFI_STATUS \<Rightarrow> bool \<Rightarrow> (nat \<rightharpoonup> int) \<Rightarrow> nat set \<Rightarrow> int \<Rightarrow> (nat \<rightharpoonup> int)" where
  "after st given_up D X t = (if st = EFI_SUCCESS then retype D X t else if given_up then D |` (- X) else D)"

lemma disjoint_restrict: "X \<inter> dom D = {} \<Longrightarrow> D |` (- X) = D"
proof
  fix x assume "X \<inter> dom D = {}"
  then show "(D |` (- X)) x = D x" by (cases "D x") (auto simp: restrict_map_def)
qed

lemma after_step:
  assumes "c \<or> X \<inter> dom D = {}"
  shows "after EFI_SUCCESS c (retype D X t) Y t = after EFI_SUCCESS c D (X \<union> Y) t"
    and "st \<noteq> EFI_SUCCESS \<Longrightarrow> after st c (retype D X t) Y t |` (- X) = after st c D (X \<union> Y) t"
proof -
  have "X \<inter> dom D = {} \<Longrightarrow> retype D X t |` (- X) = D"
  proof
    fix x assume "X \<inter> dom D = {}"
    then show "(retype D X t |` (- X)) x = D x" by (cases "D x") (auto simp: retype_def restrict_map_def)
  qed
  then show "st \<noteq> EFI_SUCCESS \<Longrightarrow> after st c (retype D X t) Y t |` (- X) = after st c D (X \<union> Y) t"
    using assms by (auto simp: after_def retype_simps(2) simp del: restrict_restrict)
qed (simp add: after_def retype_simps)

context pool_contract
begin

lemma pull_ok:
  assumes inv: "mem_inv K D V m" and p: "p \<in> set (MemoryMap m)" and wf: "wf_range S R"
    and le: "MStart (MapEntry m p) \<le> S" "R \<le> MEnd (MapEntry m p)"
    and ok: "addrs S R \<subseteq> dom D \<or> addrs S R \<subseteq> free_addrs m"
    and pull: "pull_range p S R m = Ret (q, m1)"
    and rem: "(if MStart (MapEntry m1 q) = MEnd (MapEntry m1 q) + 1 then RemoveMemoryMapEntry freeI q m1 else Ret m1) = Ret m2"
  shows "mem_inv K (D |` (- addrs S R)) (fst V - addrs S R \<times> UNIV, snd V) m2 \<and> MAttribute (MapEntry m1 q) = MAttribute (MapEntry m p)"
proof -
  let ?X = "addrs S R" and ?m1 = "pulled q m1"
  obtain C Ka where mi: "map_inv m" and V: "V = (vis (region m), mem.more m)" and cl: "claims D (region m)"
      and dp: "distinct (map fst (PoolHeadList m))" and b: "backed C D (region m)"
      and ow: "owners Ka K (pool_entries m) (pool_descs m)" and pi: "pool_inv C Ka m"
    using inv by (auto simp: mem_inv_def)
  have ap: "apart C ?X"
    using ok apart_claimed [OF b] apart_free [OF mi b] unfolding free_addrs_def by blast
  note cut = cut_inv [OF cl b ap]
  have pr: "map_inv ?m1" "region ?m1 = cut ?X (region m)" "pool_same m ?m1"
      "q \<in> set (MemoryMap m1)" "home (MapDepth m1) q (MapEntry m1 q)" "distinct (MemoryMap m1)" "pool_entries m1 = pool_entries m"
      and at: "MAttribute (MapEntry m1 q) = MAttribute (MapEntry m p)"
    using pull_range_cut [OF mi p wf le pull] by auto
  have ps: "pool_same m m1" using pr(3) by (simp add: pulled_def split: if_splits)
  have "mem_inv K (D |` (- ?X)) (fst V - ?X \<times> UNIV, snd V) m2"
  proof (cases "MStart (MapEntry m1 q) = MEnd (MapEntry m1 q) + 1")
    case True
    then have m1: "?m1 = m1\<lparr>MemoryMap := remove1 q (MemoryMap m1)\<rparr>" by (simp add: pulled_def)
    have "leaving q K (D |` (- ?X)) (fst V - ?X \<times> UNIV, snd V) m1"
      using pr cut V dp ow pi pool_inv_same [OF ps] pool_descs_same [OF ps] m1
      unfolding leaving_def removable_def Let_def by auto
    then show ?thesis using True rem RemoveMemoryMapEntry_ok by auto
  next
    case False
    then have "?m1 = m1" "m2 = m1" using rem by (auto simp: pulled_def)
    then show ?thesis
      using pr cut V dp ow pi pool_inv_same [OF ps] pool_descs_same [OF ps] unfolding mem_inv_def by auto
  qed
  then show ?thesis using at by blast
qed

lemma convert_step_ok:
  assumes inv: "mem_inv K D V m" and p: "p \<in> set (MemoryMap m)" and wf: "wf_range S R"
    and le: "MStart (MapEntry m p) \<le> S" "R \<le> MEnd (MapEntry m p)"
    and ok: "addrs S R \<subseteq> dom D \<or> addrs S R \<subseteq> free_addrs m"
    and pull: "pull_range p S R (m\<lparr>MemoryMapKey := k\<rparr>) = Ret (q, m1)"
    and rem: "(if MStart (MapEntry m1 q) = MEnd (MapEntry m1 q) + 1 then RemoveMemoryMapEntry freeI q m1 else Ret m1) = Ret m2"
    and add: "AddRange freeI t S R (MAttribute (MapEntry m1 q)) m2 = Ret m3"
    and fs: "FreeMemoryMapStack allocI freeI n m3 = Ret m4"
  shows "mem_inv K (retype D (addrs S R) t) V m4"
proof -
  let ?X = "addrs S R" and ?w = "MAttribute (MapEntry m p)"
  have inv': "mem_inv K D V (m\<lparr>MemoryMapKey := k\<rparr>)" using inv by simp
  have "mem_inv K (D |` (- ?X)) (fst V - ?X \<times> UNIV, snd V) m2" and at: "MAttribute (MapEntry m1 q) = ?w"
    using pull_ok [OF inv' _ wf _ _ _ pull rem] p le ok by (auto simp: free_addrs_def)
  moreover have "fresh ?X m2" using calculation unfolding fresh_def mem_inv_def vis_def by auto
  ultimately have i3: "mem_inv K (retype (D |` (- ?X)) ?X t) (fst V - ?X \<times> UNIV \<union> ?X \<times> {?w}, snd V) m3"
    using AddRange_ok [OF _ wf _ add [unfolded at]] by blast
  have "wf_range (MStart (MapEntry m p)) (MEnd (MapEntry m p))"
    using inv p by (auto simp: mem_inv_def map_inv_def mlist_inv_def wf_entry_def)
  then have "?X \<subseteq> iv (MapEntry m p)" using addrs_rest(1) [OF _ wf le] by (simp add: iv_addrs)
  then have "fst V - ?X \<times> UNIV \<union> ?X \<times> {?w} = fst V" "(fst V, snd V) = V"
    using vis_cut_fill [OF _ p] inv by (auto simp: mem_inv_def)
  then have "mem_inv K (retype D ?X t) V m3" using i3 by (simp add: retype_simps)
  then show ?thesis using FreeMemoryMapStack_ok [OF _ fs] by blast
qed

lemma convert_loop_ok:
  assumes "mem_inv K D V m" and "wf_range Start End \<or> Start = End + 1 \<and> End < Start"
    and "LoadConvert \<or> t = EfiConventionalMemory \<Longrightarrow> addrs Start End \<subseteq> dom D"
    and "convert_loop allocI freeI n LoadConvert Start End t m = Ret (st, m')"
  shows "mem_inv K (after st (LoadConvert \<or> t = EfiConventionalMemory) D (addrs Start End) t) V m' \<and>
         (st = EFI_SUCCESS \<longrightarrow> LoadConvert \<or> t = EfiConventionalMemory \<or> addrs Start End \<inter> dom D = {})"
  using assms
proof (induction n arbitrary: Start D m)
  case (Suc n)
  show ?case
  proof (cases "Start < End")
    case False
    then have "st = EFI_SUCCESS" "m' = m" using Suc.prems(4) by auto
    moreover have "addrs Start End = {}"
    proof -
      have "End < Start"
      proof (rule ccontr)
        assume "\<not> End < Start"
        then have w: "wf_range Start End" "Start = End" using Suc.prems(2) False by auto
        then have "Suc (unat End) mod 4096 = 0" "unat End mod 4096 = 0" by (auto simp: wf_range_def)
        then show False by (simp add: mod_Suc)
      qed
      then show ?thesis by (auto simp: addrs_def word_less_nat_alt)
    qed
    ultimately show ?thesis using Suc.prems(1) by (simp add: after_def retype_simps)
  next
    case lt: True
    then have wf: "wf_range Start End" using Suc.prems(2) by auto
    let ?P = "\<lambda>p. MStart (MapEntry m p) \<le> Start \<and> MEnd (MapEntry m p) > Start"
    show ?thesis
    proof (cases "List.find ?P (MemoryMap m)")
      case None
      then have "st = EFI_NOT_FOUND" "m' = m" using Suc.prems(4) lt by auto
      then show ?thesis using mem_inv_restrict [OF Suc.prems(1)] Suc.prems(1) by (simp add: after_def)
    next
      case (Some p)
      let ?E = "MapEntry m p"
      define R where "R = (if MEnd ?E < End then MEnd ?E else End)"
      have p: "p \<in> set (MemoryMap m)" and pe: "MStart ?E \<le> Start" "Start < MEnd ?E" using Some by (auto simp: find_Some_iff)
      show ?thesis
      proof (cases "incompatible LoadConvert t (MType ?E)")
        case True
        then have "st = EFI_NOT_FOUND" "m' = m" using Suc.prems(4) lt Some by (auto simp: Let_def)
        then show ?thesis using mem_inv_restrict [OF Suc.prems(1)] Suc.prems(1) by (simp add: after_def)
      next
        case comp: False
        let ?k = "m\<lparr>MemoryMapKey := MemoryMapKey m + 1\<rparr>" and ?X = "addrs Start R"
        obtain q m1 m2 m3 m4 where pull: "pull_range p Start R ?k = Ret (q, m1)"
          and rem: "(if MStart (MapEntry m1 q) = MEnd (MapEntry m1 q) + 1 then RemoveMemoryMapEntry freeI q m1 else Ret m1) = Ret m2"
          and add: "AddRange freeI t Start R (MAttribute (MapEntry m1 q)) m2 = Ret m3"
          and fs: "FreeMemoryMapStack allocI freeI n m3 = Ret m4"
          and go: "convert_loop allocI freeI n LoadConvert (R + 1) End t m4 = Ret (st, m')"
          using Suc.prems(4) lt Some comp by (auto simp: Let_def R_def)
        have we: "wf_range (MStart ?E) (MEnd ?E)"
          using Suc.prems(1) p by (auto simp: mem_inv_def map_inv_def mlist_inv_def wf_entry_def)
        have wR: "wf_range Start R" using wf we pe lt by (auto simp: R_def wf_range_def)
        have le: "R \<le> MEnd ?E" "R \<le> End" by (auto simp: R_def)
        have split: "addrs Start End = ?X \<union> addrs (R + 1) End"
          using addrs_rest [OF wf wR order_refl le(2)] le(2) wf_rangeD(4) [OF wR]
          by (auto simp: order_le_less addrs_def)
        have un: "LoadConvert \<or> t = EfiConventionalMemory \<or> ?X \<subseteq> free_addrs m"
        proof (cases "LoadConvert \<or> t = EfiConventionalMemory")
          case False
          then have "MType ?E = EfiConventionalMemory" using comp by (auto simp: incompatible_def)
          moreover have "?X \<subseteq> iv ?E" using addrs_rest(1) [OF we wR pe(1) le(1)] by (simp add: iv_addrs)
          ultimately show ?thesis using entry_region [OF p] unfolding free_addrs_def by fastforce
        qed auto
        then have ok: "?X \<subseteq> dom D \<or> ?X \<subseteq> free_addrs m" using Suc.prems(3) split by blast
        have dj: "LoadConvert \<or> t = EfiConventionalMemory \<or> ?X \<inter> dom D = {}"
          using un free_unclaimed [of m D ?X] Suc.prems(1) unfolding mem_inv_def by blast
        have i4: "mem_inv K (retype D ?X t) V m4"
          by (rule convert_step_ok [OF Suc.prems(1) p wR pe(1) le(1) ok pull rem add fs])
        have w': "wf_range (R + 1) End \<or> R + 1 = End + 1 \<and> End < R + 1"
        proof (cases "R < End")
          case True
          then show ?thesis using wf_range_rest(1) [OF wf wR] by blast
        next
          case False
          then have "R = End" using le(2) by simp
          then show ?thesis using wf_rangeD(4) [OF wf] by (simp add: word_less_nat_alt)
        qed
        have cl: "addrs (R + 1) End \<subseteq> dom (retype D ?X t)" if "LoadConvert \<or> t = EfiConventionalMemory"
          using Suc.prems(3) [OF that] split addrs_rest [OF wf wR order_refl le(2)]
          by (auto simp: retype_def dom_def addrs_def wf_rangeD(4) [OF wR])
        let ?c = "LoadConvert \<or> t = EfiConventionalMemory" and ?D = "retype D ?X t" and ?Y = "addrs (R + 1) End"
        have fin: "mem_inv K (after st ?c ?D ?Y t) V m'" and un': "st = EFI_SUCCESS \<Longrightarrow> ?c \<or> ?Y \<inter> dom ?D = {}"
          using Suc.IH [OF i4 w' cl go] by auto
        have "mem_inv K (after st ?c D (?X \<union> ?Y) t) V m'"
          
        proof (cases "st = EFI_SUCCESS")
          case True
          then show ?thesis using fin after_step(1) [of ?c ?X D t ?Y] dj by simp
        next
          case False
          then show ?thesis using mem_inv_restrict [OF fin, of "- ?X"] after_step(2) [of ?c ?X D st t ?Y] dj by simp
        qed
        moreover have "?c \<or> (?X \<union> ?Y) \<inter> dom D = {}" if "st = EFI_SUCCESS"
        proof (cases ?c)
          case False
          then have "D a = None" if "a \<in> ?X" for a using dj that by auto
          moreover have "D a = None" if "a \<in> ?Y" "a \<notin> ?X" for a
            using un' [OF \<open>st = EFI_SUCCESS\<close>] False that by (auto simp: retype_def disjoint_iff domIff)
          ultimately show ?thesis by (intro disjI2) (auto simp: disjoint_iff domIff)
        qed simp
        ultimately show ?thesis unfolding split by blast
      qed
    qed
  qed
qed simp

text \<open>The range a call of \<open>ConvertPages\<close> is about.\<close>

lemma ConvertPages_ok:
  assumes inv: "mem_inv K D V m" and np: "unat NoPages < 2 ^ 52"
    and X: "X = {unat Start ..< unat Start + unat NoPages * 4096}"
    and claimed: "LoadConvert \<or> t = EfiConventionalMemory \<Longrightarrow> X \<subseteq> dom D"
    and ret: "ConvertPages allocI freeI n LoadConvert Start NoPages t m = Ret (st, m')"
  shows "mem_inv K (after st (LoadConvert \<or> t = EfiConventionalMemory) D X t) V m' \<and>
         (st = EFI_SUCCESS \<longrightarrow> (LoadConvert \<or> t = EfiConventionalMemory \<or> X \<inter> dom D = {}) \<and> 0 < unat NoPages \<and> unat Start mod 4096 = 0 \<and> unat Start + unat NoPages * 4096 < 2 ^ 64)"
proof -
  let ?nb = "push_bit EFI_PAGE_SHIFT NoPages"
  let ?End = "Start + ?nb - 1"
  have nb: "unat ?nb = unat NoPages * 4096" by (rule shift_pages [OF np])
  show ?thesis
  proof (cases "NoPages = 0 \<or> Start AND EFI_PAGE_MASK \<noteq> 0 \<or> Start > Start + ?nb")
    case True
    then have "st = EFI_INVALID_PARAMETER" "m' = m" using ret by (auto simp: ConvertPages_def Let_def)
    then show ?thesis using mem_inv_restrict [OF inv] inv by (simp add: after_def)
  next
    case False
    have pos: "0 < unat NoPages" using False by (auto simp: unat_gt_0)
    have al: "unat Start mod 4096 = 0" using False by (metis page_offset unsigned_0)
    have lt: "unat Start + unat NoPages * 4096 < 2 ^ 64"
    proof -
      have "Start \<le> Start + ?nb" using False by (simp add: not_less)
      then show ?thesis using no_overflow [of Start ?nb] nb by simp
    qed
    have sum: "unat (Start + ?nb) = unat Start + unat NoPages * 4096" using lt nb by (subst unat_add_le) simp_all
    then have "Start + ?nb \<noteq> 0" using pos by auto
    then have e: "Suc (unat ?End) = unat Start + unat NoPages * 4096" using unat_minus1 [of "Start + ?nb"] sum pos by simp
    have wf: "wf_range Start ?End"
      using e al lt pos by (simp add: wf_range_def word_le_nat_alt mod_add_eq [symmetric])
    have Xe: "X = addrs Start ?End" using X e by (simp add: addrs_def)
    have "convert_loop allocI freeI n LoadConvert Start ?End t m = Ret (st, m')"
      using ret False by (simp add: ConvertPages_def Let_def)
    then show ?thesis
      using convert_loop_ok [OF inv _ _, of Start ?End LoadConvert t n st m'] wf claimed Xe pos al lt by auto
  qed
qed

lemma AllocatePoolPages_ok:
  assumes inv: "mem_inv K D V m" and np: "0 < unat NoPages" "unat NoPages < 2 ^ 52" "even (unat NoPages)"
    and ret: "AllocatePoolPages allocI freeI n t NoPages DEFAULT_PAGE_ALLOCATION m = Ret (b, m')"
    and X: "X = {unat b ..< unat b + unat NoPages * 4096}"
  shows "if b = 0 then mem_inv K D V m'
         else mem_inv K (retype D X t) V m' \<and> X \<inter> dom D = {} \<and> t \<noteq> EfiConventionalMemory \<and>
              unat b mod 8192 = 0 \<and> unat b + unat NoPages * 4096 < 2 ^ 64"
proof -
  define B where "B = FindFreePages MAX_ADDRESS NoPages t DEFAULT_PAGE_ALLOCATION m"
  have mi: "map_inv m" and cl: "claims D (region m)" using inv by (auto simp: mem_inv_def)
  show ?thesis
  proof (cases "B = 0")
    case True
    then show ?thesis using ret inv by (simp add: AllocatePoolPages_def B_def Let_def)
  next
    case False
    let ?X = "{unat B ..< unat B + unat NoPages * 4096}"
    obtain st where cv: "ConvertPages allocI freeI n False B NoPages t m = Ret (st, m')" and b: "b = (if EFI_ERROR st then 0 else B)"
      using ret False by (auto simp: AllocatePoolPages_def B_def [symmetric] Let_def)
    have ft: "fits (page_limit MAX_ADDRESS) (unat DEFAULT_PAGE_ALLOCATION) (unat NoPages) (entries m) (unat B)"
      by (rule FindFreePages_fits [OF _ _ np(1,2) B_def [symmetric] False])
         (use mi in \<open>auto simp: map_inv_def mlist_inv_def\<close>)
    have fr: "?X \<subseteq> free_addrs m" by (rule fits_free [OF mi ft])
    then have dj: "?X \<inter> dom D = {}" by (rule free_unclaimed [OF mi cl])
    have al: "unat B mod 8192 = 0"
    proof -
      obtain k where "unat NoPages = 2 * k" using np(3) by blast
      then have "unat NoPages * 4096 = 8192 * k" by simp
      moreover have "(unat B + unat NoPages * 4096) mod 8192 = 0" using ft by (simp add: fits_def)
      ultimately show ?thesis by (metis mod_mult_self2)
    qed
    show ?thesis
    proof (cases "t = EfiConventionalMemory")
      case True
      have "unat B \<in> free_addrs m" using fr np(1) by auto
      moreover have "B < B + push_bit EFI_PAGE_SHIFT NoPages - 1"
      proof -
        have "unat B + unat NoPages * 4096 < 2 ^ 64"
        proof -
          obtain E where "E \<in> set (entries m)" "unat B + unat NoPages * 4096 \<le> Suc (unat (MEnd E))" using ft by (auto simp: fits_def)
          moreover have "wf_entry E" using calculation(1) mi by (auto simp: map_inv_def mlist_inv_def)
          ultimately show ?thesis by (simp add: wf_entry_def wf_range_def)
        qed
        then have s: "unat (B + push_bit EFI_PAGE_SHIFT NoPages) = unat B + unat NoPages * 4096"
          by (subst unat_add_le) (simp_all add: shift_pages [OF np(2)])
        moreover have "B + push_bit EFI_PAGE_SHIFT NoPages \<noteq> 0" using s np(1) by auto
        ultimately have "unat (B + push_bit EFI_PAGE_SHIFT NoPages - 1) = unat B + unat NoPages * 4096 - 1" using unat_minus1 by metis
        then show ?thesis using np(1) by (simp add: word_less_nat_alt)
      qed
      ultimately have "EFI_ERROR st \<and> m' = m" using convert_free_to_free [OF mi _ cv [unfolded True]] by blast
      then show ?thesis using b inv by simp
    next
      case nc: False
      have c: "mem_inv K (if st = EFI_SUCCESS then retype D ?X t else D) V m'"
          and s: "st = EFI_SUCCESS \<Longrightarrow> unat B + unat NoPages * 4096 < 2 ^ 64"
        using ConvertPages_ok [OF inv np(2) refl _ cv] nc by (auto simp: after_def)
      show ?thesis
      proof (cases "st = EFI_SUCCESS")
        case True
        then show ?thesis using c s b False X dj nc al by simp
      next
        case nst: False
        then have "mem_inv K D V m'" using c by simp
        moreover have "b = 0"
        proof -
          have "st = EFI_NOT_FOUND \<or> st = EFI_INVALID_PARAMETER \<or> st = EFI_SUCCESS" using ConvertPages_status [OF cv] .
          then show ?thesis using nst b by auto
        qed
        ultimately show ?thesis by simp
      qed
    qed
  qed
qed

lemma FreePoolPages_ok:
  assumes inv: "mem_inv K D V m" and np: "unat NoPages < 2 ^ 52" and X: "{unat b ..< unat b + unat NoPages * 4096} \<subseteq> dom D"
    and ret: "FreePoolPages allocI freeI n b NoPages m = Ret m'"
  shows "mem_inv K (D |` (- {unat b ..< unat b + unat NoPages * 4096})) V m'"
proof -
  obtain st where cv: "ConvertPages allocI freeI n False b NoPages EfiConventionalMemory m = Ret (st, m')"
    using ret by (auto simp: FreePoolPages_def)
  show ?thesis using ConvertPages_ok [OF inv np refl X cv] by (cases "st = EFI_SUCCESS") (simp_all add: after_def retype_simps(5))
qed

end

end
