(* ===== verification/PoolContract.thy ===== *)
theory PoolContract
  imports ConvertInv
begin

text \<open>
  The two pool operations keep the contract of \<open>MemInv\<close> when the operations they are given keep it;
  tying the knot, \<open>AllocatePoolI\<close> and \<open>FreePoolI\<close> keep it at every fuel.
\<close>

section \<open>Pages become chunks, and chunks become pages again\<close>

lemma mem_invI:
  assumes "map_inv m" "V = (vis (region m), mem.more m)" "claims D (region m)" "distinct (map fst (PoolHeadList m))"
    "backed C D (region m)" "owners Ka K (pool_entries m) (pool_descs m)" "pool_inv C Ka m"
  shows "mem_inv K D V m"
  using assms unfolding mem_inv_def by blast

lemma mem_invE:
  assumes "mem_inv K D V m"
  obtains C Ka where "map_inv m" "V = (vis (region m), mem.more m)" "claims D (region m)" "distinct (map fst (PoolHeadList m))"
    "backed C D (region m)" "owners Ka K (pool_entries m) (pool_descs m)" "pool_inv C Ka m"
  using assms unfolding mem_inv_def by blast

lemma map_same_mem:
  assumes "map_same m m'"
  shows "map_inv m' = map_inv m" "region m' = region m" "mem.more m' = mem.more m" "pool_entries m' = pool_entries m"
    "pool_descs m' = pool_descs m" "map fst (PoolHeadList m') = map fst (PoolHeadList m)"
proof -
  have "set (map fst (PoolHeadList m')) = set (map fst (PoolHeadList m))" using assms by (simp add: map_same_def del: set_map)
  then show "pool_descs m' = pool_descs m" by (simp add: pool_descs_def)
qed (use assms in \<open>auto simp: map_same_def map_inv_def region_def pool_entries_def\<close>)

lemma claim_to_chunk:
  assumes cl: "claims (retype D X t) R" and b: "backed C (retype D X t) R" and dj: "X \<inter> dom D = {}"
    and t: "t \<noteq> EfiConventionalMemory" and X: "X = space b c"
  shows "claims D R" "backed (C(b \<mapsto> c)) D R" "apart C X"
proof -
  have sub: "D a = Some s \<Longrightarrow> retype D X t a = Some s" for a s using dj by (auto simp: retype_def)
  then show "claims D R" using cl unfolding claims_def by blast
  show "backed (C(b \<mapsto> c)) D R"
    unfolding backed_def
  proof (intro allI impI, elim conjE)
    fix b' c' a assume a: "(C(b \<mapsto> c)) b' = Some c'" "a \<in> space b' c'"
    show "D a = None \<and> (\<exists>t w. t \<noteq> EfiConventionalMemory \<and> (a, t, w) \<in> R)"
    proof (cases "b' = b")
      case True
      then have "a \<in> X" using a X by simp
      then have "retype D X t a = Some t" "D a = None" using t dj by (auto simp: retype_def)
      moreover from this(1) obtain w where "(a, t, w) \<in> R" using cl unfolding claims_def by blast
      ultimately show ?thesis using t by blast
    next
      case False
      then have *: "retype D X t a = None \<and> (\<exists>t w. t \<noteq> EfiConventionalMemory \<and> (a, t, w) \<in> R)"
        using a b unfolding backed_def by simp
      then show ?thesis using sub by (cases "D a") auto
    qed
  qed
  have "X \<subseteq> dom (retype D X t)" using t by (auto simp: retype_def)
  then show "apart C X" by (rule apart_claimed [OF b])
qed

text \<open>The claim that stands for a chunk on its way back to the map.\<close>

definition reclaim :: "(nat \<rightharpoonup> int) \<Rightarrow> nat set \<Rightarrow> (nat \<times> int \<times> UINT64) set \<Rightarrow> (nat \<rightharpoonup> int)" where
  "reclaim D X R = (\<lambda>a. if a \<in> X then Some (SOME t. t \<noteq> EfiConventionalMemory \<and> (\<exists>w. (a, t, w) \<in> R)) else D a)"

lemma chunk_to_claim:
  assumes cl: "claims D R" and b: "backed C D R" and ok: "chunks_ok C" and C: "C b = Some c"
  shows "claims (reclaim D (space b c) R) R" "backed (C(b := None)) (reclaim D (space b c) R) R"
    "space b c \<subseteq> dom (reclaim D (space b c) R)" "(reclaim D (space b c) R) |` (- space b c) = D"
proof -
  let ?X = "space b c"
  let ?t = "\<lambda>a. SOME t. t \<noteq> EfiConventionalMemory \<and> (\<exists>w. (a, t, w) \<in> R)"
  have ex: "?t a \<noteq> EfiConventionalMemory \<and> (\<exists>w. (a, ?t a, w) \<in> R)" if "a \<in> ?X" for a
    by (rule someI_ex [of "\<lambda>t. t \<noteq> EfiConventionalMemory \<and> (\<exists>w. (a, t, w) \<in> R)"]) (use b C that in \<open>auto simp: backed_def\<close>)
  show "claims (reclaim D ?X R) R"
    unfolding claims_def
  proof (intro allI impI)
    fix a t assume a: "reclaim D ?X R a = Some t"
    show "t \<noteq> EfiConventionalMemory \<and> (\<exists>w. (a, t, w) \<in> R)"
    proof (cases "a \<in> ?X")
      case True
      then show ?thesis using a ex [OF True] by (simp add: reclaim_def)
    next
      case False
      then show ?thesis using a cl by (simp add: reclaim_def claims_def)
    qed
  qed
  show "backed (C(b := None)) (reclaim D ?X R) R"
    unfolding backed_def
  proof (intro allI impI, elim conjE)
    fix b' c' a assume a: "(C(b := None)) b' = Some c'" "a \<in> space b' c'"
    then have C': "C b' = Some c'" "b' \<noteq> b" by (auto split: if_splits)
    then have "a \<notin> ?X" using chunk_unique [OF ok C C'(1), of a] a(2) by blast
    moreover have "D a = None \<and> (\<exists>t w. t \<noteq> EfiConventionalMemory \<and> (a, t, w) \<in> R)" using b C'(1) a(2) unfolding backed_def by blast
    ultimately show "reclaim D ?X R a = None \<and> (\<exists>t w. t \<noteq> EfiConventionalMemory \<and> (a, t, w) \<in> R)" by (simp add: reclaim_def)
  qed
  show "?X \<subseteq> dom (reclaim D ?X R)" by (auto simp: reclaim_def)
  show "(reclaim D ?X R) |` (- ?X) = D"
  proof
    fix a show "((reclaim D ?X R) |` (- ?X)) a = D a"
      using b C by (cases "a \<in> ?X") (auto simp: reclaim_def restrict_map_def backed_def)
  qed
qed

section \<open>Sizes of requests\<close>

lemma request_size:
  assumes "unat Size \<le> 0xffffff00"
  shows "24 \<le> unat (ALIGN_VARIABLE Size + POOL_OVERHEAD)" "unat (ALIGN_VARIABLE Size + POOL_OVERHEAD) < 2 ^ 32"
    "unat Size + 24 \<le> unat (ALIGN_VARIABLE Size + POOL_OVERHEAD)"
proof -
  let ?adj = "if Size mod 8 \<noteq> 0 then 8 - Size mod 8 else 0"
  have m: "unat (Size mod 8) < 8" by (simp add: unat_mod_distrib)
  have a: "unat ?adj \<le> 8" using m by (auto simp: unat_sub_le)
  have av: "unat (ALIGN_VARIABLE Size) = unat Size + unat ?adj"
    unfolding ALIGN_VARIABLE_def using assms a by (subst unat_add_le) auto
  have "unat (ALIGN_VARIABLE Size + POOL_OVERHEAD) = unat Size + unat ?adj + 24"
    using assms a av by (subst unat_add_le) auto
  then show "24 \<le> unat (ALIGN_VARIABLE Size + POOL_OVERHEAD)" "unat (ALIGN_VARIABLE Size + POOL_OVERHEAD) < 2 ^ 32"
    "unat Size + 24 \<le> unat (ALIGN_VARIABLE Size + POOL_OVERHEAD)"
    using assms a by auto
qed

section \<open>The pool descriptors of the OS loader's types\<close>

lemma add_pool_ok:
  assumes inv: "mem_inv (K(hdr a \<mapsto> x)) D V m" and K: "K (hdr a) = None"
  shows "mem_inv K D V (m\<lparr>PoolHeadList := (a, empty_pool t) # PoolHeadList m\<rparr>)"
  using inv
proof (rule mem_invE)
  fix C Ka
  let ?m = "m\<lparr>PoolHeadList := (a, empty_pool t) # PoolHeadList m\<rparr>"
  assume *: "map_inv m" "V = (vis (region m), mem.more m)" "claims D (region m)" "distinct (map fst (PoolHeadList m))"
    "backed C D (region m)" "owners Ka (K(hdr a \<mapsto> x)) (pool_entries m) (pool_descs m)" "pool_inv C Ka m"
  have n: "a \<notin> pool_descs m" using owners_none [OF *(6), of a] by auto
  then have "map_of (PoolHeadList m) a = None" by (simp add: pool_descs_def map_of_eq_None_iff)
  then have "fl ?m = fl m"
    by (auto simp: fl_def get_pool_def empty_pool_def fun_eq_iff split: pool_ref.splits option.splits)
  then have "pool_inv C Ka ?m" using *(7) by (simp add: pool_inv_def)
  moreover have "map_inv ?m = map_inv m" "region ?m = region m" "pool_entries ?m = pool_entries m" "pool_descs ?m = insert a (pool_descs m)"
    by (simp_all add: map_inv_def region_def pool_entries_def pool_descs_def)
  moreover have "owners Ka K (pool_entries m) (insert a (pool_descs m))"
    by (rule owners_swap [OF owners_keep [OF owners_swap [OF *(6)] K]])
  moreover have "distinct (map fst (PoolHeadList ?m))" using *(4) n by (simp add: pool_descs_def)
  ultimately show ?thesis using *(1-3,5) by (intro mem_invI) auto
qed

lemma drop_pool_ok:
  assumes inv: "mem_inv K D V m" and a: "a \<in> pool_descs m"
  shows "\<exists>x. K (hdr a) = None \<and> mem_inv (K(hdr a \<mapsto> x)) D V (m\<lparr>PoolHeadList := filter (\<lambda>(b, P). b \<noteq> a) (PoolHeadList m)\<rparr>)"
  using inv
proof (rule mem_invE)
  fix C Ka
  let ?m = "m\<lparr>PoolHeadList := filter (\<lambda>(b, P). b \<noteq> a) (PoolHeadList m)\<rparr>"
  assume *: "map_inv m" "V = (vis (region m), mem.more m)" "claims D (region m)" "distinct (map fst (PoolHeadList m))"
    "backed C D (region m)" "owners Ka K (pool_entries m) (pool_descs m)" "pool_inv C Ka m"
  obtain x where x: "Ka (hdr a) = Some x" "K (hdr a) = None" using owners_none [OF *(6)] a by blast
  have mo: "map_of (filter (\<lambda>(b, P). b \<noteq> a) L) y = (if y = a then None else map_of L y)" for L :: "(UINTN \<times> POOL) list" and y
    by (induction L) auto
  have p: "pinv C Ka (fl m) (Blocks m) (Tails m)" using *(7) by (simp add: pool_inv_def)
  then have fi: "free_inv C (fl m) (Blocks m)" by (simp add: pinv_def)
  have "set (fl ?m r i) \<subseteq> set (fl m r i) \<and> distinct (fl ?m r i)" if "okref r" for r i
    using free_invD(1) [OF fi that, of i] by (auto simp: fl_def get_pool_def mo split: pool_ref.splits option.splits)
  then have "pinv C Ka (fl ?m) (Blocks m) (Tails m)" by (rule pinv_lists_mono [OF p])
  then have "pool_inv C Ka ?m" by (simp add: pool_inv_def)
  moreover have "map_inv ?m = map_inv m" "region ?m = region m" "pool_entries ?m = pool_entries m" "pool_descs ?m = pool_descs m - {a}"
    by (auto simp: map_inv_def region_def pool_entries_def pool_descs_def)
  moreover have "owners Ka (K(hdr a \<mapsto> x)) (pool_entries m) (pool_descs m - {a})"
    by (rule owners_swap [OF owners_give [OF owners_swap [OF *(6)] a x(1)]])
  moreover have "distinct (map fst (PoolHeadList ?m))" using *(4) by (simp add: distinct_map_filter)
  ultimately have "mem_inv (K(hdr a \<mapsto> x)) D V ?m" using *(1-3,5) by (intro mem_invI) auto
  then show ?thesis using x(2) by blast
qed

context pool_contract
begin

lemma LookupPoolHead_ok:
  assumes inv: "mem_inv K D V m" and ret: "LookupPoolHead allocI t m = Ret (r, m')"
  shows "mem_inv K D V m' \<and> (\<forall>r'. r = Some r' \<longrightarrow> okref r')"
proof (cases "0 \<le> t \<and> t < EfiMaxMemoryType \<or> \<not> t < 0")
  case True
  then show ?thesis using ret inv by (auto simp: LookupPoolHead_def okref_def split: if_splits)
next
  case False
  show ?thesis
  proof (cases "List.find (\<lambda>(a, P). PMemoryType P = t) (PoolHeadList m)")
    case (Some aP)
    then show ?thesis using ret inv False by (cases aP) (auto simp: LookupPoolHead_def okref_def)
  next
    case None
    then obtain a m1 where al: "allocI EfiBootServicesData sizeof_POOL m = Ret (a, m1)"
        and rest: "(if a = 0 then Ret (None, m1)
                    else Ret (Some (Dynamic a), m1\<lparr>PoolHeadList := (a, empty_pool t) # PoolHeadList m1\<rparr>)) = Ret (r, m')"
      using ret False by (auto simp: LookupPoolHead_def)
    note ok = alloc_ok [OF inv _ al]
    show ?thesis
    proof (cases "a = 0")
      case True
      then show ?thesis using ok rest by simp
    next
      case nz: False
      then obtain x where "K (hdr a) = None" "mem_inv (K(hdr a \<mapsto> x)) D V m1" using ok by auto
      then have "mem_inv K D V (m1\<lparr>PoolHeadList := (a, empty_pool t) # PoolHeadList m1\<rparr>)" using add_pool_ok by blast
      then show ?thesis using rest nz by (auto simp: okref_def)
    qed
  qed
qed

end

section \<open>Allocation\<close>

lemma owners_add: "owners Ka K P Q \<Longrightarrow> Ka b = None \<Longrightarrow> owners (Ka(b \<mapsto> x)) (K(b \<mapsto> x)) P Q \<and> K b = None"
proof -
  assume ow: "owners Ka K P Q" and n: "Ka b = None"
  then have "b \<notin> dom Ka" by blast
  then have b: "b \<notin> dom K" "b \<notin> hdr ` P" "b \<notin> hdr ` Q" using ow unfolding owners_def by blast+
  have "K(b \<mapsto> x) \<subseteq>\<^sub>m Ka(b \<mapsto> x)" using ow by (auto simp: owners_def map_le_def)
  moreover have "dom (Ka(b \<mapsto> x)) = dom (K(b \<mapsto> x)) \<union> hdr ` P \<union> hdr ` Q" "dom (K(b \<mapsto> x)) \<inter> (hdr ` P \<union> hdr ` Q) = {}"
    using ow b unfolding owners_def dom_fun_upd by auto
  ultimately have "owners (Ka(b \<mapsto> x)) (K(b \<mapsto> x)) P Q" using ow by (simp add: owners_def)
  moreover have "K b = None" using b(1) by blast
  ultimately show ?thesis ..
qed

lemma mem_inv_same:
  assumes inv: "mem_inv K D V m" and s: "map_same m m'" and p: "\<And>C Ka. pool_inv C Ka m \<Longrightarrow> pool_inv C Ka m'"
  shows "mem_inv K D V m'"
  using inv
proof (rule mem_invE)
  fix C Ka
  assume "map_inv m" "V = (vis (region m), mem.more m)" "claims D (region m)" "distinct (map fst (PoolHeadList m))"
    "backed C D (region m)" "owners Ka K (pool_entries m) (pool_descs m)" "pool_inv C Ka m"
  then show ?thesis using p map_same_mem [OF s] by (intro mem_invI) auto
qed

lemma big_block_ok:
  assumes inv: "mem_inv K (retype D X t) V m" and X: "X = {unat b ..< unat b + unat (pool_pages Size) * 4096}"
    and dj: "X \<inter> dom D = {}" and t: "t \<noteq> EfiConventionalMemory" and b: "b \<noteq> 0" "unat b mod 8192 = 0" "unat b + unat (pool_pages Size) * 4096 < 2 ^ 64"
    and sz: "24 \<le> unat Size" "unat Size < 2 ^ 32" "64 \<le> SIZE_TO_LIST Size"
    and fill: "fill_block r t Size b m = (buf, m')"
  shows "buf = b + 16 \<and> buf \<noteq> 0 \<and> K b = None \<and> mem_inv (K(b \<mapsto> (t, ucast Size))) D V m'"
  using inv
proof (rule mem_invE)
  fix C Ka
  let ?sz = "ucast Size :: UINT32" and ?c = "Big (unat (pool_pages Size))"
  assume *: "map_inv m" "V = (vis (region m), mem.more m)" "claims (retype D X t) (region m)" "distinct (map fst (PoolHeadList m))"
    "backed C (retype D X t) (region m)" "owners Ka K (pool_entries m) (pool_descs m)" "pool_inv C Ka m"
  have sp: "X = space b ?c" using X by (simp add: space_def chunk_size_def)
  note ch = claim_to_chunk [OF *(3,5) dj t sp]
  have pg: "unat Size \<le> unat (pool_pages Size) * 4096" using pool_pages_ge(1) [of Size] sz(2) by simp
  then have ck: "chunk_ok b ?c" using b sz(1) by (auto simp: chunk_ok_def chunk_size_def intro: gr0I)
  have u: "ucast ?sz = Size" "unat ?sz = unat Size" using ucast_id sz(2) by auto
  have p: "pinv C Ka (fl m) (Blocks m) (Tails m)" using *(7) by (simp add: pool_inv_def)
  have c: "?c = Big (unat (pool_pages (ucast ?sz)))" using u by simp
  have pn: "pinv (C(b \<mapsto> ?c)) (Ka(b \<mapsto> (t, ?sz))) (fl m) ((Blocks m)(b \<mapsto> POOL_HEAD t ?sz)) ((Tails m)(tail_addr b ?sz \<mapsto> ?sz))"
      and Kb: "Ka b = None"
    using pinv_new_big [OF p c _ ck] ch(3) sp sz u by auto
  note f = fill_block_simps [OF b(1) fill sz(2)]
  have "pool_inv (C(b \<mapsto> ?c)) (Ka(b \<mapsto> (t, ?sz))) m'" using pn f by (simp add: pool_inv_def)
  moreover have ow: "owners (Ka(b \<mapsto> (t, ?sz))) (K(b \<mapsto> (t, ?sz))) (pool_entries m) (pool_descs m)" "K b = None"
    using owners_add [OF *(6) Kb] by auto
  ultimately have "mem_inv (K(b \<mapsto> (t, ?sz))) D V m'" using *(1,2,4) ch map_same_mem [OF f(5)] by (intro mem_invI) auto
  moreover have "unat (b + 16) = unat b + 16" by (rule unat_add_le [of b 16, simplified]) (use b(3) pg sz(1) in simp)
  then have "b + 16 \<noteq> 0" by auto
  ultimately show ?thesis using ow(2) f(1) by simp
qed

lemma small_chunk_ok:
  assumes inv: "mem_inv K (retype D X t) V m" and X: "X = {unat b ..< unat b + 8192}"
    and dj: "X \<inter> dom D = {}" and t: "t \<noteq> EfiConventionalMemory" and b: "b \<noteq> 0" "unat b mod 8192 = 0" "unat b + 8192 < 2 ^ 64" and j: "j < 64"
  shows "mem_inv K D V (fold (add_free r b) (carve j 0) m)"
  using inv
proof (rule mem_invE)
  fix C Ka
  assume *: "map_inv m" "V = (vis (region m), mem.more m)" "claims (retype D X t) (region m)" "distinct (map fst (PoolHeadList m))"
    "backed C (retype D X t) (region m)" "owners Ka K (pool_entries m) (pool_descs m)" "pool_inv C Ka m"
  have sp: "X = space b (Small j)" using X by (simp add: space_def chunk_size_def)
  note ch = claim_to_chunk [OF *(3,5) dj t sp]
  have ck: "chunk_ok b (Small j)" using b j by (simp add: chunk_ok_def chunk_size_def)
  have "pool_inv (C(b \<mapsto> Small j)) Ka (fold (add_free r b) (carve j 0) m)"
    by (rule new_chunk [OF *(7) _ ck]) (use ch(3) sp in simp)
  then show ?thesis
    using *(1,2,4,6) ch(1,2) map_same_mem [OF conjunct2 [OF fold_add_free_frame [of r b "carve j 0" m]]] by (intro mem_invI) auto
qed

lemma take_ok:
  assumes inv: "mem_inv K D V m" and r: "okref r" and l: "FreeList (get_pool r m) i = h # rest"
    and i: "SIZE_TO_LIST Size = i" "24 \<le> unat Size" "unat Size < 2 ^ 32"
    and res: "fill_block r t Size h (upd_pool r (\<lambda>P. P\<lparr>FreeList := (FreeList P)(i := rest)\<rparr>) m) = (b, m')"
  shows "b = h + 16 \<and> b \<noteq> 0 \<and> K h = None \<and> mem_inv (K(h \<mapsto> (t, ucast Size))) D V m'"
  using inv
proof (rule mem_invE)
  fix C Ka
  assume *: "map_inv m" "V = (vis (region m), mem.more m)" "claims D (region m)" "distinct (map fst (PoolHeadList m))"
    "backed C D (region m)" "owners Ka K (pool_entries m) (pool_descs m)" "pool_inv C Ka m"
  have "fl m r i = h # rest" using l by (simp add: fl_def)
  from take_block [OF *(7) r this i res] have tb: "pool_inv C (Ka(h \<mapsto> (t, ucast Size))) m'" "b = h + 16" "Ka h = None" "map_same m m'" "b \<noteq> 0"
    by auto
  have "owners (Ka(h \<mapsto> (t, ucast Size))) (K(h \<mapsto> (t, ucast Size))) (pool_entries m) (pool_descs m)" "K h = None"
    using owners_add [OF *(6) tb(3)] by auto
  then show ?thesis using *(1-5) tb map_same_mem [OF tb(4)] by (auto intro!: mem_invI [where C = C])
qed

context pool_contract
begin

lemma AllocatePoolI_with_ok:
  assumes inv: "mem_inv K D V m" and sz: "unat Size0 \<le> 0xffffff00" and ret: "AllocatePoolI_with allocI freeI n t Size0 m = Ret (b, m')"
  shows "if b = 0 then mem_inv K D V m'
         else K (hdr b) = None \<and> mem_inv (K(hdr b \<mapsto> (t, ucast (ALIGN_VARIABLE Size0 + POOL_OVERHEAD)))) D V m'"
proof -
  define Size where "Size = ALIGN_VARIABLE Size0 + POOL_OVERHEAD"
  have s: "24 \<le> unat Size" "unat Size < 2 ^ 32" using request_size [OF sz] by (auto simp: Size_def)
  obtain P m1 where lk: "LookupPoolHead allocI t m = Ret (P, m1)" using ret by (auto simp: AllocatePoolI_with_def Let_def)
  have i1: "mem_inv K D V m1" and ok: "P = Some r \<Longrightarrow> okref r" for r using LookupPoolHead_ok [OF inv lk] by auto
  show ?thesis
  proof (cases P)
    case None
    then show ?thesis using ret lk i1 by (auto simp: AllocatePoolI_with_def Let_def)
  next
    case (Some r)
    show ?thesis
    proof (cases "SIZE_TO_LIST Size \<ge> MAX_POOL_LIST")
      case big: True
      obtain Head m2 where ap: "AllocatePoolPages allocI freeI n t (pool_pages Size) DEFAULT_PAGE_ALLOCATION m1 = Ret (Head, m2)"
          and fb: "fill_block r t Size Head m2 = (b, m')"
        using ret lk Some big by (auto simp: AllocatePoolI_with_def Let_def Size_def)
      have s33: "unat Size < 2 ^ 33" using s(2) by simp
      note pg = pool_pages_ge [OF s33]
      have pos: "0 < unat (pool_pages Size)" using pg(1) s(1) by (auto intro: gr0I)
      note apo = AllocatePoolPages_ok [OF i1 pos pg(2,3) ap refl]
      show ?thesis
      proof (cases "Head = 0")
        case True
        then show ?thesis using fb apo by (simp add: fill_block_def)
      next
        case False
        then show ?thesis
          using big_block_ok [OF _ refl _ _ False _ _ s big fb, of K D V] apo unfolding Size_def [symmetric] by (auto simp: hdr_plus)
      qed
    next
      case small: False
      let ?i = "SIZE_TO_LIST Size"
      have i64: "?i < 64" using small by simp
      obtain ok2 m2 where gr: "(if FreeList (get_pool r m1) ?i = []
                then bind_run (AllocatePoolPages allocI freeI n t (EFI_SIZE_TO_PAGES DEFAULT_PAGE_ALLOCATION) DEFAULT_PAGE_ALLOCATION m1)
                  (\<lambda>(NewPage, m2). Ret (NewPage \<noteq> 0, if NewPage \<noteq> 0 then fold (add_free r NewPage) (carve ?i 0) m2 else m2))
                else Ret (True, m1)) = Ret (ok2, m2)"
          and rest: "(if \<not> ok2 then Ret (0, m2)
                   else case FreeList (get_pool r m2) ?i of [] \<Rightarrow> Fault
                        | Head # rest \<Rightarrow> Ret (fill_block r t Size Head
                            (upd_pool r (\<lambda>P. P\<lparr>FreeList := (FreeList P)(?i := rest)\<rparr>) m2))) = Ret (b, m')"
        using ret lk Some small unfolding AllocatePoolI_with_def Let_def Size_def [symmetric] by auto
      have i2: "mem_inv K D V m2"
      proof (cases "FreeList (get_pool r m1) ?i = []")
        case False
        then show ?thesis using gr i1 by simp
      next
        case True
        then obtain N m3 where ap: "AllocatePoolPages allocI freeI n t (EFI_SIZE_TO_PAGES DEFAULT_PAGE_ALLOCATION) DEFAULT_PAGE_ALLOCATION m1 = Ret (N, m3)"
            and m2: "m2 = (if N \<noteq> 0 then fold (add_free r N) (carve ?i 0) m3 else m3)"
          using gr by auto
        have two: "unat (EFI_SIZE_TO_PAGES DEFAULT_PAGE_ALLOCATION) = 2" by (simp add: EFI_SIZE_TO_PAGES_def)
        note apo = AllocatePoolPages_ok [OF i1 _ _ _ ap refl, unfolded two, simplified]
        show ?thesis
        proof (cases "N = 0")
          case True
          then show ?thesis using apo m2 by simp
        next
          case False
          then show ?thesis using small_chunk_ok [OF _ refl _ _ False _ _ i64, of K D t V m3 r] apo m2 by auto
        qed
      qed
      show ?thesis
      proof (cases "ok2")
        case False
        then show ?thesis using rest i2 by simp
      next
        case True
        then obtain Head tl where l: "FreeList (get_pool r m2) ?i = Head # tl"
            and fb: "fill_block r t Size Head (upd_pool r (\<lambda>P. P\<lparr>FreeList := (FreeList P)(?i := tl)\<rparr>) m2) = (b, m')"
          using rest by (auto split: list.splits)
        from take_ok [OF i2 ok [OF Some] l refl s fb] show ?thesis unfolding Size_def [symmetric] by (auto simp: hdr_plus)
      qed
    qed
  qed
qed

end

section \<open>Freeing\<close>

lemma free_big_ok:
  assumes inv: "mem_inv K D V m" and K: "K h = Some (t, sz)" and big: "64 \<le> SIZE_TO_LIST (ucast sz)"
    and X: "X = {unat h ..< unat h + unat (pool_pages (ucast sz)) * 4096}"
  shows "\<exists>D'. mem_inv (K(h := None)) D' V m \<and> X \<subseteq> dom D' \<and> D' |` (- X) = D"
  using inv
proof (rule mem_invE)
  fix C Ka
  let ?c = "Big (unat (pool_pages (ucast sz)))"
  assume *: "map_inv m" "V = (vis (region m), mem.more m)" "claims D (region m)" "distinct (map fst (PoolHeadList m))"
    "backed C D (region m)" "owners Ka K (pool_entries m) (pool_descs m)" "pool_inv C Ka m"
  have "Ka h = Some (t, sz)" using *(6) K unfolding owners_def map_le_def by (metis domI)
  from drop_big [OF *(7) this big] have C: "C h = Some ?c" and pi: "pool_inv (C(h := None)) (Ka(h := None)) m" by auto
  have ok: "chunks_ok C" using *(7) by (simp add: pool_inv_def pinv_def)
  have sp: "X = space h ?c" using X by (simp add: space_def chunk_size_def)
  note cc = chunk_to_claim [OF *(3,5) ok C, folded sp]
  have "owners (Ka(h := None)) (K(h := None)) (pool_entries m) (pool_descs m)" using owners_forget [OF *(6)] K by simp
  then have "mem_inv (K(h := None)) (reclaim D X (region m)) V m" using *(1,2,4) cc pi by (intro mem_invI) auto
  then show ?thesis using cc by blast
qed

lemma release_block_ok:
  assumes inv: "mem_inv K D V m" and K: "K h = Some (t, sz)" and small: "SIZE_TO_LIST (ucast sz) = i" "i < 64"
    and m1: "m1 = upd_pool r (\<lambda>P. P\<lparr>FreeList := (FreeList P)(i := h # FreeList P i)\<rparr>) (m\<lparr>Blocks := (Blocks m)(h \<mapsto> POOL_FREE i)\<rparr>)"
    and N: "N = h AND NOT (DEFAULT_PAGE_ALLOCATION - 1)" and X: "X = {unat N ..< unat N + 8192}"
  shows "mem_inv (K(h := None)) D V m1"
    and "Blocks m1 N = Some (POOL_FREE j) \<Longrightarrow> bs = map (\<lambda>b. N + of_nat (fst b)) (carve j 0) \<Longrightarrow> list_all (\<lambda>a. is_free a m1) bs \<Longrightarrow>
         \<exists>D'. mem_inv (K(h := None)) D' V (fold unlink_free bs m1) \<and> X \<subseteq> dom D' \<and> D' |` (- X) = D"
proof -
  from inv obtain C Ka where *: "map_inv m" "V = (vis (region m), mem.more m)" "claims D (region m)" "distinct (map fst (PoolHeadList m))"
    "backed C D (region m)" "owners Ka K (pool_entries m) (pool_descs m)" "pool_inv C Ka m" by (rule mem_invE)
  have Kh: "Ka h = Some (t, sz)" using *(6) K unfolding owners_def map_le_def by (metis domI)
  have pi: "pool_inv C (Ka(h := None)) m1" unfolding m1 by (rule release_block [OF *(7) Kh small])
  have ms: "map_same m m1" by (simp add: m1)
  have ow: "owners (Ka(h := None)) (K(h := None)) (pool_entries m) (pool_descs m)" using owners_forget [OF *(6)] K by simp
  show "mem_inv (K(h := None)) D V m1"
    by (rule mem_invI [where C = C and Ka = "Ka(h := None)"]) (simp_all add: map_same_mem [OF ms] * ow pi)
  have ok: "chunks_ok C" using *(7) by (simp add: pool_inv_def pinv_def)
  have "slot C h i"
    using *(7) Kh small used_invD [of C Ka "Blocks m" "Tails m" h t sz] by (auto simp: pool_inv_def pinv_def room_def)
  then obtain j0 where CN: "C N = Some (Small j0)" using slot_chunk [OF ok] N by blast
  assume fr: "Blocks m1 N = Some (POOL_FREE j)" and bs: "bs = map (\<lambda>b. N + of_nat (fst b)) (carve j 0)"
    and all: "list_all (\<lambda>a. is_free a m1) bs"
  have "j0 < 64" using chunks_okD [OF ok CN] by (simp add: chunk_ok_def)
  then have "(0, j0) \<in> set (carve j0 0)" using carve_first by fastforce
  then have "slot C N j0"
    unfolding slot_def by (intro exI [of _ N] exI [of _ j0] exI [of _ 0]) (simp add: CN)
  then have j: "j = j0" using pi fr by (auto simp: pool_inv_def pinv_def index_inv_def)
  let ?m2 = "fold unlink_free bs m1"
  have pi2: "pool_inv (C(N := None)) (Ka(h := None)) ?m2" by (rule empty_chunk [OF pi CN _ all]) (simp add: bs j)
  have ms2: "map_same m ?m2" using ms fold_unlink [of bs m1] map_same_trans by blast
  have sp: "X = space N (Small j0)" using X by (simp add: space_def chunk_size_def)
  note cc = chunk_to_claim [OF *(3,5) ok CN, folded sp]
  have "mem_inv (K(h := None)) (reclaim D X (region m)) V ?m2"
    by (rule mem_invI [where C = "C(N := None)" and Ka = "Ka(h := None)"]) (simp_all add: map_same_mem [OF ms2] * ow pi2 cc)
  then show "\<exists>D'. mem_inv (K(h := None)) D' V ?m2 \<and> X \<subseteq> dom D' \<and> D' |` (- X) = D" using cc by blast
qed

context pool_contract
begin

lemma free_small_ok:
  assumes inv: "mem_inv K D V m" and K: "K h = Some (t, sz)" and small: "SIZE_TO_LIST (ucast sz) = i" "i < 64"
    and ret: "free_small allocI freeI n r h i m = Ret m'"
  shows "mem_inv (K(h := None)) D V m'"
proof -
  define m1 where "m1 = upd_pool r (\<lambda>P. P\<lparr>FreeList := (FreeList P)(i := h # FreeList P i)\<rparr>) (m\<lparr>Blocks := (Blocks m)(h \<mapsto> POOL_FREE i)\<rparr>)"
  define N where "N = h AND NOT (DEFAULT_PAGE_ALLOCATION - 1)"
  note rel = release_block_ok [OF inv K small m1_def N_def refl]
  show ?thesis
  proof (cases "\<exists>j. Blocks m1 N = Some (POOL_FREE j) \<and> list_all (\<lambda>a. is_free a m1) (map (\<lambda>b. N + of_nat (fst b)) (carve j 0))")
    case False
    then have "m' = m1"
      using ret unfolding free_small_def Let_def m1_def [symmetric] N_def [symmetric]
      by (auto split: option.splits pool_block.splits if_splits)
    then show ?thesis using rel(1) by simp
  next
    case True
    then obtain j where j: "Blocks m1 N = Some (POOL_FREE j)" and all: "list_all (\<lambda>a. is_free a m1) (map (\<lambda>b. N + of_nat (fst b)) (carve j 0))" by blast
    have fp: "FreePoolPages allocI freeI n N (EFI_SIZE_TO_PAGES DEFAULT_PAGE_ALLOCATION)
        (fold unlink_free (map (\<lambda>b. N + of_nat (fst b)) (carve j 0)) m1) = Ret m'"
      using ret j all unfolding free_small_def Let_def m1_def [symmetric] N_def [symmetric] by simp
    obtain D' where D': "mem_inv (K(h := None)) D' V (fold unlink_free (map (\<lambda>b. N + of_nat (fst b)) (carve j 0)) m1)"
        "{unat N ..< unat N + 8192} \<subseteq> dom D'" "D' |` (- {unat N ..< unat N + 8192}) = D"
      using rel(2) [OF j refl all] by blast
    have two: "unat (EFI_SIZE_TO_PAGES DEFAULT_PAGE_ALLOCATION) = 2" by (simp add: EFI_SIZE_TO_PAGES_def)
    show ?thesis using FreePoolPages_ok [OF D'(1) _ _ fp, unfolded two] D'(2,3) by simp
  qed
qed

lemma FreePoolI_with_ok:
  assumes inv: "mem_inv K D V m" and Kb: "K (hdr b) \<noteq> None" and ret: "FreePoolI_with allocI freeI n b m = Ret (st, m')"
  shows "mem_inv (K(hdr b := None)) D V m'"
proof -
  let ?h = "hdr b" and ?K = "K(hdr b := None)"
  obtain t sz where K: "K ?h = Some (t, sz)" using Kb by auto
  from inv obtain C Ka where *: "owners Ka K (pool_entries m) (pool_descs m)" "pool_inv C Ka m" by (rule mem_invE)
  then have "Ka ?h = Some (t, sz)" using K unfolding owners_def map_le_def by (metis domI)
  then have B: "Blocks m ?h = Some (POOL_HEAD t sz)" "Tails m (?h + ucast sz - sizeof_POOL_TAIL) = Some sz"
    using *(2) used_invD [of C Ka "Blocks m" "Tails m"] unfolding pool_inv_def pinv_def tail_addr_def by blast+
  show ?thesis
  proof (cases "b = 0")
    case True
    then show ?thesis using ret mem_inv_forget [OF inv] by (simp add: FreePoolI_with_def)
  next
    case False
    obtain P m1 where lk: "LookupPoolHead allocI t m = Ret (P, m1)"
      using ret B False by (auto simp: FreePoolI_with_def Let_def hdr_def)
    have i1: "mem_inv K D V m1" using LookupPoolHead_ok [OF inv lk] by blast
    show ?thesis
    proof (cases P)
      case None
      then have "m' = m1" using ret B False lk by (auto simp: FreePoolI_with_def Let_def hdr_def)
      then show ?thesis using mem_inv_forget [OF i1] by simp
    next
      case (Some r)
      let ?Size = "ucast sz :: UINTN"
      let ?m2 = "upd_pool r (\<lambda>P. P\<lparr>Used := Used P - ?Size\<rparr>) m1"
      have i2: "mem_inv K D V ?m2"
        by (rule mem_inv_same [OF i1]) (simp_all add: pool_inv_def fl_upd_same)
      obtain m3 where mid: "(if SIZE_TO_LIST ?Size \<ge> MAX_POOL_LIST then FreePoolPages allocI freeI n ?h (pool_pages ?Size) ?m2
                             else free_small allocI freeI n r ?h (SIZE_TO_LIST ?Size) ?m2) = Ret m3"
          and rest: "(case r of
              Dynamic a \<Rightarrow> if PMemoryType (get_pool r m3) < 0 \<and> Used (get_pool r m3) = 0
                then bind_run (freeI a (m3\<lparr>PoolHeadList := filter (\<lambda>(b, P). b \<noteq> a) (PoolHeadList m3)\<rparr>)) (\<lambda>(_, m4). Ret (EFI_SUCCESS, m4))
                else Ret (EFI_SUCCESS, m3)
            | Static t \<Rightarrow> Ret (EFI_SUCCESS, m3)) = Ret (st, m')"
        using ret B False lk Some unfolding FreePoolI_with_def Let_def hdr_def [symmetric]
        by auto
      have i3: "mem_inv ?K D V m3"
      proof (cases "SIZE_TO_LIST ?Size \<ge> MAX_POOL_LIST")
        case True
        obtain D' where D': "mem_inv ?K D' V ?m2" "{unat ?h ..< unat ?h + unat (pool_pages ?Size) * 4096} \<subseteq> dom D'"
            "D' |` (- {unat ?h ..< unat ?h + unat (pool_pages ?Size) * 4096}) = D"
          using free_big_ok [OF i2 K True refl] by blast
        have "unat sz < 2 ^ 32" using unsigned_less [of sz, where ?'a = nat] by simp
        then have "unat (pool_pages ?Size) < 2 ^ 52" using pool_pages_ge(2) [of ?Size] by (simp add: ucast_32_64)
        then show ?thesis using FreePoolPages_ok [OF D'(1) _ D'(2)] D'(3) mid True by auto
      next
        case False
        then show ?thesis using free_small_ok [OF i2 K refl] mid by auto
      qed
      show ?thesis
      proof (cases "\<exists>a. r = Dynamic a \<and> PMemoryType (get_pool r m3) < 0 \<and> Used (get_pool r m3) = 0")
        case False
        then have "m' = m3" using rest by (auto split: pool_ref.splits if_splits)
        then show ?thesis using i3 by simp
      next
        case True
        then obtain a where r: "r = Dynamic a" and neg: "PMemoryType (get_pool r m3) < 0" "Used (get_pool r m3) = 0" by blast
        let ?m = "m3\<lparr>PoolHeadList := filter (\<lambda>(b, P). b \<noteq> a) (PoolHeadList m3)\<rparr>"
        have "map_of (PoolHeadList m3) a \<noteq> None"
          using neg r by (auto simp: get_pool_def split: option.splits)
        then have "a \<in> pool_descs m3" by (simp add: pool_descs_def map_of_eq_None_iff)
        then obtain x where Ka: "?K (hdr a) = None" and i: "mem_inv (?K(hdr a \<mapsto> x)) D V ?m" using drop_pool_ok [OF i3] by blast
        obtain st' where f: "freeI a ?m = Ret (st', m')" using rest r neg by auto
        have "mem_inv ((?K(hdr a \<mapsto> x))(hdr a := None)) D V m'" by (rule free_ok [OF i _ f]) simp
        moreover have "(?K(hdr a \<mapsto> x))(hdr a := None) = ?K" using fun_upd_triv [of ?K "hdr a"] Ka by simp
        ultimately show ?thesis by simp
      qed
    qed
  qed
qed

end

section \<open>The knot\<close>

lemma pool_ops_contract: "pool_contract (AllocatePoolI n) (FreePoolI n)"
proof (induction n)
  case 0
  show ?case by unfold_locales (simp_all add: AllocatePoolI_def FreePoolI_def)
next
  case (Suc n)
  have a: "AllocatePoolI (Suc n) = AllocatePoolI_with (AllocatePoolI n) (FreePoolI n) n"
    and f: "FreePoolI (Suc n) = FreePoolI_with (AllocatePoolI n) (FreePoolI n) n"
    by (simp_all add: AllocatePoolI_def FreePoolI_def)
  show ?case
  proof (unfold_locales, goal_cases)
    case 1
    then show ?case unfolding a by (intro pool_contract.AllocatePoolI_with_ok [OF Suc])
  next
    case 2
    then show ?case unfolding f by (intro pool_contract.FreePoolI_with_ok [OF Suc])
  next
    case 3
    then show ?case by (simp add: f FreePoolI_with_def)
  qed
qed

interpretation pool: pool_contract "AllocatePoolI n" "FreePoolI n" for n
  by (rule pool_ops_contract)

end
