(* ===== verification/MemSystem.thy ===== *)
theory MemSystem
  imports MemServices PoolContract
begin

text \<open>
  The memory services as one system. Every change of the memory state happens in a body that runs
  under the memory lock, so a history of the memory state is a sequence of such bodies, whatever
  notification functions run in between. The states such histories reach keep the invariant, and
  with it memory is handed out exclusively.
\<close>

section \<open>The histories\<close>

text \<open>
  \<open>K\<close> are the pool blocks in the hands of callers (by header, with type and size), \<open>D\<close> the pages in
  the hands of callers, address by address. A step is a call with any arguments that returns; the page
  services come with the number of pages rounded up already.
\<close>

definition page_range :: "UINT64 \<Rightarrow> UINT64 \<Rightarrow> nat set" where
  "page_range Start NoPages = {unat Start ..< unat Start + unat NoPages * 4096}"

type_synonym 'y owned = "heads \<times> (nat \<rightharpoonup> int) \<times> 'y mem_scheme"

datatype mem_call =
    Add_memory int UINT64 UINT64 UINT64
  | Alloc_pages int int UINT64 UINT64
  | Free_pages UINT64 UINT64
  | Set_code UINT64 UINT64 int
  | Alloc_pool int UINTN
  | Free_pool UINTN

definition freed_range :: "(nat \<rightharpoonup> int) \<Rightarrow> UINT64 \<Rightarrow> UINT64 \<Rightarrow> nat set" where
  "freed_range D Memory NoPages =
     (case D (unat Memory) of None \<Rightarrow> {} | Some t \<Rightarrow> page_range Memory (round_pages (page_alignment t) NoPages))"

inductive mem_step :: "mem_call \<Rightarrow> 'y owned \<Rightarrow> 'y owned \<Rightarrow> bool" where
  add: "add_body n t Start NoPages Attr m = Ret ((), m') \<Longrightarrow>
        mem_step (Add_memory t Start NoPages Attr) (K, D, m) (K, retype D (page_range Start NoPages) t, m')"
| alloc_pages: "allocate_body n Type t NoPages Memory m = Ret ((st, Start), m') \<Longrightarrow>
        mem_step (Alloc_pages Type t NoPages Memory) (K, D, m)
          (K, if st = EFI_SUCCESS then retype D (page_range Start NoPages) t else D, m')"
| free_pages: "free_body n Memory NoPages m = Ret (st, m') \<Longrightarrow>
        mem_step (Free_pages Memory NoPages) (K, D, m) (K, D |` (- freed_range D Memory NoPages), m')"
| set_code: "ConvertPages (AllocatePoolI n) (FreePoolI n) n True Base NoPages t m = Ret (st, m') \<Longrightarrow>
        mem_step (Set_code Base NoPages t) (K, D, m)
          (K, if st = EFI_SUCCESS then retype D (page_range Base NoPages) t else D |` (- page_range Base NoPages), m')"
| alloc_pool: "AllocatePoolI n t Size m = Ret (b, m') \<Longrightarrow>
        mem_step (Alloc_pool t Size) (K, D, m)
          (if b = 0 then K else K(hdr b \<mapsto> (t, ucast (ALIGN_VARIABLE Size + POOL_OVERHEAD))), D, m')"
| free_pool: "FreePoolI n b m = Ret (st, m') \<Longrightarrow> mem_step (Free_pool b) (K, D, m) (K(hdr b := None), D, m')"

text \<open>
  The calls after which memory is still consistent: the firmware adds memory that is not in the map yet; pages
  are not allocated as free memory, nor \<open>2 ^ 52\<close> or more of them at once (\<open>AllocatePages\<close> accepts both:
  \<open>allocate_pages_wraps\<close> in \<open>MemProps\<close> is the second case, and with \<open>EfiConventionalMemory\<close> at an address it gives pages of their
  owner back to the map); callers free what they own, and retype only their own pages; a pool buffer has at
  most the size that \<open>BSAllocatePool\<close> lets through.
\<close>

definition proper_call :: "mem_call \<Rightarrow> 'y owned \<Rightarrow> bool" where
  "proper_call c s \<longleftrightarrow>
     (case s of (K, D, m) \<Rightarrow>
       (case c of
          Add_memory t Start NoPages Attr \<Rightarrow>
            wf_range Start (Start + push_bit EFI_PAGE_SHIFT NoPages - 1) \<and> unat NoPages < 2 ^ 52 \<and> fresh (page_range Start NoPages) m
        | Alloc_pages Type t NoPages Memory \<Rightarrow> unat NoPages < 2 ^ 52 \<and> t \<noteq> EfiConventionalMemory
        | Free_pages Memory NoPages \<Rightarrow> D (unat Memory) \<noteq> None \<and> freed_range D Memory NoPages \<subseteq> dom D
        | Set_code Base NoPages t \<Rightarrow> unat NoPages < 2 ^ 52 \<and> page_range Base NoPages \<subseteq> dom D
        | Alloc_pool t Size \<Rightarrow> unat Size \<le> 0xffffff00
        | Free_pool b \<Rightarrow> K (hdr b) \<noteq> None))"

definition proper_step :: "'y owned \<Rightarrow> 'y owned \<Rightarrow> bool" where
  "proper_step s s' \<longleftrightarrow> (\<exists>c. proper_call c s \<and> mem_step c s s')"

section \<open>The invariant\<close>

lemma mem_inv_initial:
  "mem_inv Map.empty Map.empty (vis (region m), mem.more m) m" if "m = exec.more (InitializeMemoryMap s)"
proof (rule mem_invI [where C = Map.empty and Ka = Map.empty])
  have m: "MemoryMap m = []" "PoolHeadList m = []" "0 \<le> t \<Longrightarrow> t < EfiMaxMemoryType \<Longrightarrow> PoolHead m t = empty_pool t" for t
    using that by (simp_all add: InitializeMemoryMap_def InitializeLock_def InitializePool_def Let_def)
  then show "map_inv m" "claims Map.empty (region m)" "distinct (map fst (PoolHeadList m))" "backed Map.empty Map.empty (region m)"
      "owners Map.empty Map.empty (pool_entries m) (pool_descs m)"
    by (simp_all add: map_inv_def mlist_inv_def claims_def backed_def owners_def pool_entries_def pool_descs_def)
  have "fl m r i = []" if "okref r" for r i
    using that m by (auto simp: fl_def get_pool_def okref_def empty_pool_def split: pool_ref.splits)
  then show "pool_inv Map.empty Map.empty m"
    by (auto simp: pool_inv_def pinv_def chunks_ok_def used_inv_def index_inv_def slot_def intro!: free_invI)
qed simp

lemma wf_page_range:
  assumes wf: "wf_range Start (Start + push_bit EFI_PAGE_SHIFT NoPages - 1)" and np: "unat NoPages < 2 ^ 52"
  shows "addrs Start (Start + push_bit EFI_PAGE_SHIFT NoPages - 1) = page_range Start NoPages"
    "unat Start + unat NoPages * 4096 < 2 ^ 64"
proof -
  let ?nb = "push_bit EFI_PAGE_SHIFT NoPages"
  let ?e = "Start + ?nb - 1"
  note w = wf_rangeD [OF wf]
  have e: "unat (Start + ?nb) = Suc (unat ?e)" using w(4) by simp
  then have "Start \<le> Start + ?nb" using w(1) by (simp add: word_le_nat_alt)
  then show lt: "unat Start + unat NoPages * 4096 < 2 ^ 64" using no_overflow shift_pages [OF np] by fastforce
  then have "unat (Start + ?nb) = unat Start + unat NoPages * 4096"
    using shift_pages [OF np] by (subst unat_add_le) simp_all
  then show "addrs Start ?e = page_range Start NoPages" using e by (simp add: addrs_def page_range_def)
qed

lemma mem_inv_self: "mem_inv K D V m \<Longrightarrow> mem_inv K D (vis (region m), mem.more m) m"
  by (simp add: mem_inv_def)

lemma add_body_ok:
  assumes inv: "mem_inv K D (W, z) m" and wf: "wf_range Start (Start + push_bit EFI_PAGE_SHIFT NoPages - 1)" and np: "unat NoPages < 2 ^ 52"
    and fr: "fresh (page_range Start NoPages) m" and ret: "add_body n t Start NoPages Attr m = Ret ((), m')"
  shows "mem_inv K (retype D (page_range Start NoPages) t) (W \<union> page_range Start NoPages \<times> {Attr}, z) m'"
proof -
  let ?e = "Start + push_bit EFI_PAGE_SHIFT NoPages - 1"
  obtain m1 where a: "AddRange (FreePoolI n) t Start ?e Attr m = Ret m1"
      and f: "FreeMemoryMapStack (AllocatePoolI n) (FreePoolI n) n m1 = Ret m'"
    using ret by (auto simp: add_body_def Let_def)
  note X = wf_page_range(1) [OF wf np]
  show ?thesis
    using pool.FreeMemoryMapStack_ok [OF pool.AddRange_ok [OF inv wf fr [folded X] a] f] unfolding X .
qed

lemma allocate_body_ok:
  assumes inv: "mem_inv K D V m" and np: "unat NoPages < 2 ^ 52" and t: "t \<noteq> EfiConventionalMemory"
    and ret: "allocate_body n Type t NoPages Memory m = Ret ((st, Start), m')"
  shows "mem_inv K (if st = EFI_SUCCESS then retype D (page_range Start NoPages) t else D) V m' \<and>
         (st = EFI_SUCCESS \<longrightarrow> page_range Start NoPages \<inter> dom D = {} \<and> 0 < unat NoPages \<and> unat Start mod 4096 = 0 \<and>
            unat Start + unat NoPages * 4096 < 2 ^ 64)"
proof -
  consider "st = EFI_OUT_OF_RESOURCES" "m' = m"
    | (cv) "ConvertPages (AllocatePoolI n) (FreePoolI n) n False Start NoPages t m = Ret (st, m')"
    using ret by (auto simp: allocate_body_def Let_def split: if_splits)
  then show ?thesis
  proof cases
    case 1
    then show ?thesis using inv by simp
  next
    case cv
    from pool.ConvertPages_ok [OF inv np refl _ cv] t show ?thesis unfolding page_range_def by (auto simp: after_def)
  qed
qed

lemma free_body_ok:
  assumes inv: "mem_inv K D V m" and D: "D (unat Memory) = Some t"
    and own: "page_range Memory (round_pages (page_alignment t) NoPages) \<subseteq> dom D" and ret: "free_body n Memory NoPages m = Ret (st, m')"
  shows "mem_inv K (D |` (- page_range Memory (round_pages (page_alignment t) NoPages))) V m'"
proof -
  let ?P = "\<lambda>p. MStart (MapEntry m p) \<le> Memory \<and> MEnd (MapEntry m p) > Memory"
  let ?np = "round_pages (page_alignment t) NoPages"
  show ?thesis
  proof (cases "List.find ?P (MemoryMap m)")
    case None
    then show ?thesis using ret mem_inv_restrict [OF inv] by (simp add: free_body_def)
  next
    case (Some p)
    then have p: "p \<in> set (MemoryMap m)" "?P p" by (auto simp: find_Some_iff)
    have mi: "map_inv m" and cl: "claims D (region m)" using inv by (auto simp: mem_inv_def)
    have "unat Memory \<in> iv (MapEntry m p)" using p(2) by (auto simp: iv_def word_le_nat_alt word_less_nat_alt)
    then have ty: "MType (MapEntry m p) = t"
      using entry_region [OF p(1)] D cl region_functional [OF mi] unfolding claims_def by blast
    show ?thesis
    proof (cases "EFI_ERROR st \<and> m' = m")
      case True
      then show ?thesis using mem_inv_restrict [OF inv] by simp
    next
      case False
      then have cv: "ConvertPages (AllocatePoolI n) (FreePoolI n) n False Memory ?np EfiConventionalMemory m = Ret (st, m')"
          and le: "?np \<le> drop_bit EFI_PAGE_SHIFT (MEnd (MapEntry m p) - MStart (MapEntry m p) + 1)"
        using ret Some ty by (auto simp: free_body_def Let_def not_less split: if_splits)
      have "unat (drop_bit EFI_PAGE_SHIFT x) < 2 ^ 52" for x :: UINT64
        using unsigned_less [of x, where ?'a = nat] by (simp add: drop_bit_eq_div unat_div_distrib less_mult_imp_div_less)
      then have np: "unat ?np < 2 ^ 52" using le by (meson le_less_trans word_le_nat_alt)
      show ?thesis
        using pool.ConvertPages_ok [OF inv np refl own [unfolded page_range_def] cv] unfolding page_range_def
        by (cases "st = EFI_SUCCESS") (simp_all add: after_def retype_simps(5))
    qed
  qed
qed

lemma set_code_ok:
  assumes inv: "mem_inv K D V m" and "unat NoPages < 2 ^ 52" and "page_range Base NoPages \<subseteq> dom D"
    and "ConvertPages (AllocatePoolI n) (FreePoolI n) n True Base NoPages t m = Ret (st, m')"
  shows "mem_inv K (if st = EFI_SUCCESS then retype D (page_range Base NoPages) t else D |` (- page_range Base NoPages)) V m'"
  using pool.ConvertPages_ok [OF inv assms(2) refl assms(3) [unfolded page_range_def] assms(4)] unfolding page_range_def
  by (auto simp: after_def)

lemma alloc_pool_ok:
  assumes "mem_inv K D V m" and "unat Size \<le> 0xffffff00" and "AllocatePoolI n t Size m = Ret (b, m')"
  shows "mem_inv (if b = 0 then K else K(hdr b \<mapsto> (t, ucast (ALIGN_VARIABLE Size + POOL_OVERHEAD)))) D V m'" "b \<noteq> 0 \<Longrightarrow> K (hdr b) = None"
  using pool.alloc_ok [OF assms] by (auto split: if_splits)

lemma mem_inv_region: "mem_inv K D V m \<Longrightarrow> V = (vis (region m), mem.more m)"
  by (simp add: mem_inv_def)

lemma mem_step_inv:
  assumes "mem_step c s s'" and "proper_call c s" and "s = (K, D, m)" "s' = (K', D', m')" and "mem_inv K D V m"
  shows "\<exists>V'. mem_inv K' D' V' m' \<and> fst V \<subseteq> fst V' \<and> snd V' = snd V"
  using assms
proof (induction rule: mem_step.induct)
  case (add n t Start NoPages Attr m m' K D)
  have "mem_inv K D (fst V, snd V) m" using add by simp
  from add_body_ok [OF this _ _ _ add(1)] show ?case using add(2-4)
    by (intro exI [of _ "(fst V \<union> page_range Start NoPages \<times> {Attr}, snd V)"]) (auto simp: proper_call_def)
next
  case (alloc_pages n Type t NoPages Memory m0 st Start m0' K0 D0)
  then have e: "m0 = m" "K' = K" "D' = (if st = EFI_SUCCESS then retype D (page_range Start NoPages) t else D)" "m0' = m'" by auto
  have p: "unat NoPages < 2 ^ 52" "t \<noteq> EfiConventionalMemory" using alloc_pages(2) by (simp_all add: proper_call_def)
  show ?case using allocate_body_ok [OF alloc_pages(5) p alloc_pages(1) [unfolded e]] unfolding e by blast
next
  case (free_pages n Memory NoPages m0 st m0' K0 D0)
  then have e: "K0 = K" "D0 = D" "m0 = m" "K' = K" "D' = D |` (- freed_range D Memory NoPages)" "m0' = m'" by simp_all
  obtain t where t: "D (unat Memory) = Some t" using free_pages(2) e by (auto simp: proper_call_def)
  have r: "freed_range D Memory NoPages = page_range Memory (round_pages (page_alignment t) NoPages)"
    using t by (simp add: freed_range_def)
  have own: "page_range Memory (round_pages (page_alignment t) NoPages) \<subseteq> dom D"
    using free_pages(2) e r by (simp add: proper_call_def)
  show ?case using free_body_ok [OF free_pages(5) t own free_pages(1) [unfolded e]] unfolding e r by blast
next
  case (set_code n Base NoPages t m0 st m0' K0 D0)
  then have e: "m0 = m" "K' = K" "m0' = m'" "D0 = D"
      "D' = (if st = EFI_SUCCESS then retype D (page_range Base NoPages) t else D |` (- page_range Base NoPages))" by auto
  have p: "unat NoPages < 2 ^ 52" "page_range Base NoPages \<subseteq> dom D" using set_code(2) e(4) by (simp_all add: proper_call_def)
  show ?case using set_code_ok [OF set_code(5) p set_code(1) [unfolded e]] unfolding e by blast
next
  case (alloc_pool n t Size m0 b m0' K0 D0)
  then have e: "m0 = m" "D' = D" "m0' = m'" "K' = (if b = 0 then K else K(hdr b \<mapsto> (t, ucast (ALIGN_VARIABLE Size + POOL_OVERHEAD))))" by auto
  have "unat Size \<le> 0xffffff00" using alloc_pool(2) by (simp add: proper_call_def)
  from alloc_pool_ok(1) [OF alloc_pool(5) this alloc_pool(1) [unfolded e]] show ?case unfolding e by blast
next
  case (free_pool n b m0 st m0' K0 D0)
  then have e: "m0 = m" "K0 = K" "D' = D" "m0' = m'" "K' = K(hdr b := None)" by simp_all
  have "K (hdr b) \<noteq> None" using free_pool(2) e(2) by (simp add: proper_call_def)
  from pool.free_ok [OF free_pool(5) this free_pool(1) [unfolded e]] show ?case unfolding e by blast
qed

lemma mem_steps_inv:
  assumes "proper_step\<^sup>*\<^sup>* (K, D, m) c'" and "mem_inv K D V m"
  shows "\<exists>K' D' m' V'. c' = (K', D', m') \<and> mem_inv K' D' V' m' \<and> fst V \<subseteq> fst V' \<and> snd V' = snd V"
  using assms(1)
proof (induction rule: rtranclp_induct)
  case base
  then show ?case using assms(2) by blast
next
  case (step c c')
  then obtain K1 D1 m1 V1 where c: "c = (K1, D1, m1)" "mem_inv K1 D1 V1 m1" "fst V \<subseteq> fst V1" "snd V1 = snd V" by blast
  obtain K2 D2 m2 where c2: "c' = (K2, D2, m2)" by (cases c') auto
  obtain call where "proper_call call c" "mem_step call c c'" using step(2) unfolding proper_step_def by blast
  from mem_step_inv [OF this(2,1) c(1) c2 c(2)] show ?case using c c2 by fastforce
qed

section \<open>Exclusiveness\<close>

definition block_addrs :: "UINTN \<Rightarrow> UINT32 \<Rightarrow> nat set" where
  "block_addrs h sz = {unat h ..< unat h + unat sz}"

text \<open>
  What the invariant means for the owners of memory: the blocks in their hands do not overlap each
  other or the pages in their hands, pages have the type they were asked for, and none of this
  memory is free in the map.
\<close>

definition exclusive :: "heads \<Rightarrow> (nat \<rightharpoonup> int) \<Rightarrow> 'y mem_scheme \<Rightarrow> bool" where
  "exclusive K D m \<longleftrightarrow>
     (\<forall>h h' t sz t' sz'. K h = Some (t, sz) \<and> K h' = Some (t', sz') \<and> h \<noteq> h' \<longrightarrow> block_addrs h sz \<inter> block_addrs h' sz' = {}) \<and>
     (\<forall>h t sz. K h = Some (t, sz) \<longrightarrow> block_addrs h sz \<inter> (dom D \<union> free_addrs m) = {} \<and> Blocks m h = Some (POOL_HEAD t sz)) \<and>
     (\<forall>a t. D a = Some t \<longrightarrow> a \<notin> free_addrs m \<and> (\<exists>w. (a, t, w) \<in> region m))"

lemma mem_inv_exclusive:
  assumes "mem_inv K D V m" shows "exclusive K D m"
proof -
  from assms obtain C Ka where *: "map_inv m" "claims D (region m)" "backed C D (region m)"
      "owners Ka K (pool_entries m) (pool_descs m)" "pool_inv C Ka m" by (rule mem_invE)
  have ok: "chunks_ok C" and ui: "used_inv C Ka (Blocks m) (Tails m)" using *(5) by (auto simp: pool_inv_def pinv_def)
  have sub: "Ka h = Some x" if "K h = Some x" for h x using *(4) that unfolding owners_def map_le_def by (metis domI)
  have blk: "\<exists>n. block C h n \<and> unat sz \<le> n" if "K h = Some (t, sz)" for h t sz
    using used_invD [OF ui sub [OF that]] room_block by blast
  have "block_addrs h sz \<inter> block_addrs h' sz' = {}" if h: "K h = Some (t, sz)" "K h' = Some (t', sz')" "h \<noteq> h'" for h h' t sz t' sz'
  proof -
    obtain n n' where n: "block C h n" "unat sz \<le> n" "block C h' n'" "unat sz' \<le> n'" using blk [OF h(1)] blk [OF h(2)] by blast
    have "block_addrs h sz \<subseteq> {unat h ..< unat h + n}" "block_addrs h' sz' \<subseteq> {unat h' ..< unat h' + n'}"
      using n(2,4) by (auto simp: block_addrs_def)
    then show ?thesis using blocks_disjoint [OF ok n(1,3) h(3)] by blast
  qed
  moreover have "block_addrs h sz \<inter> (dom D \<union> free_addrs m) = {} \<and> Blocks m h = Some (POOL_HEAD t sz)" if h: "K h = Some (t, sz)" for h t sz
  proof -
    obtain n where n: "block C h n" "unat sz \<le> n" using blk [OF h] by blast
    obtain b c where b: "C b = Some c" "{unat h ..< unat h + n} \<subseteq> space b c" using block_space [OF ok n(1)] by blast
    have "a \<notin> dom D \<and> a \<notin> free_addrs m" if "a \<in> block_addrs h sz" for a
    proof -
      have "a \<in> space b c" using that n(2) b(2) by (auto simp: block_addrs_def)
      then obtain t w where "D a = None" "t \<noteq> EfiConventionalMemory" "(a, t, w) \<in> region m" using *(3) b(1) unfolding backed_def by blast
      then show ?thesis using region_functional [OF *(1)] unfolding free_addrs_def by blast
    qed
    then show ?thesis using used_invD [OF ui sub [OF h]] by blast
  qed
  moreover have "a \<notin> free_addrs m \<and> (\<exists>w. (a, t, w) \<in> region m)" if "D a = Some t" for a t
    using that *(2) free_not_claimed [OF *(1,2), of a] unfolding claims_def by auto
  ultimately show ?thesis unfolding exclusive_def by blast
qed

end
