(* ===== verification/PoolFree.thy ===== *)
theory PoolFree
  imports MemSystem
begin

text \<open>
  Allocations and frees of pool buffers that come back. An allocation with a free block of the right size at hand
  and the free of a small buffer whose chunk stays in use touch the pool only, and return at once. (A
  free that empties a chunk gives its pages back to the memory map, for which \<open>page.c\<close> may need new
  descriptors; \<open>FreeMemoryMapStack\<close> does not check that it got them.)
\<close>

section \<open>Blocks that share a chunk\<close>

definition used_blocks :: "heads \<Rightarrow> 'y mem_scheme \<Rightarrow> UINTN set" where
  "used_blocks K m = dom K \<union> hdr ` pool_entries m \<union> hdr ` pool_descs m"

definition chunk_base :: "UINTN \<Rightarrow> UINTN" where
  "chunk_base h = h AND NOT (DEFAULT_PAGE_ALLOCATION - 1)"

text \<open>A block in the hands of a caller, of one of the EFI memory types and not made of whole pages.\<close>

definition small_block :: "heads \<Rightarrow> UINTN \<Rightarrow> bool" where
  "small_block K h \<longleftrightarrow> (\<exists>t sz. K h = Some (t, sz) \<and> 0 \<le> t \<and> t < EfiMaxMemoryType \<and> SIZE_TO_LIST (ucast sz) < MAX_POOL_LIST)"

text \<open>
  The buffers \<open>L\<close> can all be freed without emptying a chunk: they are small, and the chunk of each has a
  used block that is not one of them.
\<close>

definition releasable_in :: "heads \<Rightarrow> UINTN set \<Rightarrow> 'y mem_scheme \<Rightarrow> bool" where
  "releasable_in K L m \<longleftrightarrow>
     (\<forall>b\<in>L. small_block K (hdr b) \<and> (\<exists>a\<in>used_blocks K m - hdr ` L. chunk_base a = chunk_base (hdr b)))"

definition releasable :: "UINTN set \<Rightarrow> 'y mem_scheme \<Rightarrow> bool" where
  "releasable L m \<longleftrightarrow> (\<exists>K D V. mem_inv K D V m \<and> releasable_in K L m)"

text \<open>The next free block of a size class, in a chunk that is in use.\<close>

definition at_hand :: "heads \<Rightarrow> int \<Rightarrow> nat \<Rightarrow> 'y mem_scheme \<Rightarrow> bool" where
  "at_hand K t i m \<longleftrightarrow>
     (\<exists>h hs. FreeList (PoolHead m t) i = h # hs \<and> (\<exists>a\<in>used_blocks K m. chunk_base a = chunk_base h))"

lemma used_blocks_dom:
  assumes "owners Ka K (pool_entries m) (pool_descs m)" shows "used_blocks K m = dom Ka"
  using assms by (auto simp: owners_def used_blocks_def)

lemma used_blocks_same:
  assumes "map_same m m'" shows "used_blocks K m' = used_blocks K m"
  using map_same_mem(4,5) [OF assms] by (simp add: used_blocks_def)

lemma chunk_base_self: "unat a mod 8192 = 0 \<Longrightarrow> chunk_base a = a"
  using align_down [of 13 a] by (auto simp: chunk_base_def word_unat_eq_iff)

section \<open>Freeing\<close>

text \<open>The effect of handing out and of taking back a small block on the pools of the EFI memory types.\<close>

definition pool_taken :: "int \<Rightarrow> nat \<Rightarrow> UINTN \<Rightarrow> (int \<Rightarrow> POOL) \<Rightarrow> (int \<Rightarrow> POOL)" where
  "pool_taken t i Size Ps = Ps(t := (Ps t)\<lparr>FreeList := (FreeList (Ps t))(i := tl (FreeList (Ps t) i)), Used := Used (Ps t) + Size\<rparr>)"

definition pool_given :: "int \<Rightarrow> nat \<Rightarrow> UINTN \<Rightarrow> UINTN \<Rightarrow> (int \<Rightarrow> POOL) \<Rightarrow> (int \<Rightarrow> POOL)" where
  "pool_given t i Size h Ps = Ps(t := (Ps t)\<lparr>Used := Used (Ps t) - Size, FreeList := (FreeList (Ps t))(i := h # FreeList (Ps t) i)\<rparr>)"

lemma pool_given_taken: "FreeList (Ps t) i = h # hs \<Longrightarrow> pool_given t i Size h (pool_taken t i Size Ps) = Ps"
  by (rule ext) (auto simp: pool_given_def pool_taken_def fun_upd_idem)

text \<open>Another used block of the chunk is not free, so that the walk over the chunk finds it.\<close>

lemma chunk_in_use:
  assumes pi: "pool_inv C Ka m" and C: "C N = Some (Small j)" and a: "Ka a = Some x" "chunk_base a = N"
  shows "a \<in> set (map (\<lambda>b. N + of_nat (fst b)) (carve j 0)) \<and> \<not> is_free a m"
proof -
  have ok: "chunks_ok C" and ui: "used_inv C Ka (Blocks m) (Tails m)" using pi by (auto simp: pool_inv_def pinv_def)
  obtain t sz where x: "x = (t, sz)" by (cases x)
  note u = used_invD [OF ui a(1) [unfolded x]]
  have "slot C a (SIZE_TO_LIST (ucast sz))"
  proof (rule ccontr)
    assume n: "\<not> slot C a (SIZE_TO_LIST (ucast sz))"
    then have big: "C a = Some (Big (unat (pool_pages (ucast sz))))" using u by (auto simp: room_def split: if_splits)
    then have "unat a mod 8192 = 0" using chunks_okD [OF ok big] by (simp add: chunk_ok_def)
    then have "a = N" using a(2) chunk_base_self by simp
    then show False using big C by simp
  qed
  then obtain i where s: "slot C a i" by blast
  obtain b k o1 where o: "C b = Some (Small k)" "(o1, i) \<in> set (carve k 0)" "a = b + of_nat o1" using s by (auto simp: slot_def)
  have bN: "b = N"
  proof -
    have ck: "chunk_ok b (Small k)" by (rule chunks_okD [OF ok o(1)])
    have "o1 < 8192" using carve_0(2) [OF o(2)] by (simp add: LIST_TO_SIZE_def)
    moreover have "unat a = unat b + o1" using slot_addr(1) [OF ck o(2)] o(3) by simp
    moreover obtain q where "unat b = 8192 * q" using ck unfolding chunk_ok_def by (metis mod_0_imp_dvd dvdE)
    ultimately have "unat a div 8192 * 8192 = unat b" by simp
    then have "chunk_base a = b" using align_down [of 13 a] by (simp add: word_unat_eq_iff chunk_base_def)
    then show ?thesis using a(2) by simp
  qed
  then have "k = j" using o(1) C by simp
  then have "a \<in> set (map (\<lambda>b. N + of_nat (fst b)) (carve j 0))" using o(2,3) unfolding bN by force
  moreover have "\<not> is_free a m" using u by (simp add: is_free_def)
  ultimately show ?thesis by blast
qed

lemma free_small_returns:
  assumes inv: "mem_inv K D V m" and K: "K h = Some (t, sz)" and i: "SIZE_TO_LIST (ucast sz) = i" "i < 64"
    and a: "a \<in> used_blocks K m" "a \<noteq> h" "chunk_base a = chunk_base h"
  shows "\<exists>m'. free_small allocI freeI n r h i m = Ret m' \<and> map_same m m' \<and>
     (r = Static t' \<longrightarrow> PoolHead m' = (PoolHead m)(t' := (PoolHead m t')\<lparr>FreeList := (FreeList (PoolHead m t'))(i := h # FreeList (PoolHead m t') i)\<rparr>))"
proof -
  from inv obtain C Ka where *: "owners Ka K (pool_entries m) (pool_descs m)" "pool_inv C Ka m" by (rule mem_invE)
  define m1 where "m1 = upd_pool r (\<lambda>P. P\<lparr>FreeList := (FreeList P)(i := h # FreeList P i)\<rparr>) (m\<lparr>Blocks := (Blocks m)(h \<mapsto> POOL_FREE i)\<rparr>)"
  have Kh: "Ka h = Some (t, sz)" using *(1) K unfolding owners_def map_le_def by (metis domI)
  have pi: "pool_inv C (Ka(h := None)) m1" unfolding m1_def by (rule release_block [OF *(2) Kh i])
  have ok: "chunks_ok C" using *(2) by (simp add: pool_inv_def pinv_def)
  have "slot C h i"
    using *(2) Kh i used_invD [of C Ka "Blocks m" "Tails m" h t sz] by (auto simp: pool_inv_def pinv_def room_def)
  then obtain j0 where CN: "C (chunk_base h) = Some (Small j0)" using slot_chunk [OF ok] by (auto simp: chunk_base_def)
  obtain x where x: "(Ka(h := None)) a = Some x" using a(1,2) used_blocks_dom [OF *(1)] by auto
  note use = chunk_in_use [OF pi CN x a(3)]
  have "j0 < 64" using chunks_okD [OF ok CN] by (simp add: chunk_ok_def)
  then have "(0, j0) \<in> set (carve j0 0)" using carve_first by fastforce
  then have "slot C (chunk_base h) j0"
    unfolding slot_def by (intro exI [of _ "chunk_base h"] exI [of _ j0] exI [of _ 0]) (simp add: CN)
  then have "Blocks m1 (chunk_base h) = Some (POOL_FREE j) \<Longrightarrow> j = j0" for j
    using pi by (auto simp: pool_inv_def pinv_def index_inv_def)
  then have "free_small allocI freeI n r h i m = Ret m1"
    using use unfolding free_small_def Let_def m1_def [symmetric] chunk_base_def [symmetric]
    by (auto simp: list_all_iff split: option.splits pool_block.splits)
  moreover have "map_same m m1" by (simp add: m1_def)
  moreover have "r = Static t' \<longrightarrow>
      PoolHead m1 = (PoolHead m)(t' := (PoolHead m t')\<lparr>FreeList := (FreeList (PoolHead m t'))(i := h # FreeList (PoolHead m t') i)\<rparr>)"
    by (simp add: m1_def upd_pool_def)
  ultimately show ?thesis by blast
qed

lemma FreePoolI_returns:
  assumes inv: "mem_inv K D V m" and K: "K (hdr b) = Some (t, sz)" and t: "0 \<le> t" "t < EfiMaxMemoryType"
    and i: "SIZE_TO_LIST (ucast sz) < MAX_POOL_LIST" and a: "a \<in> used_blocks K m" "a \<noteq> hdr b" "chunk_base a = chunk_base (hdr b)"
    and n: "0 < n"
  shows "\<exists>m'. FreePoolI n b m = Ret (EFI_SUCCESS, m') \<and> map_same m m' \<and> mem_inv (K(hdr b := None)) D V m' \<and>
     PoolHead m' = pool_given t (SIZE_TO_LIST (ucast sz)) (ucast sz) (hdr b) (PoolHead m)"
proof -
  let ?h = "hdr b"
  obtain k where k: "n = Suc k" using n by (cases n) auto
  from inv obtain C Ka where *: "owners Ka K (pool_entries m) (pool_descs m)" "pool_inv C Ka m" by (rule mem_invE)
  have Ka: "Ka ?h = Some (t, sz)" using *(1) K unfolding owners_def map_le_def by (metis domI)
  have ok: "chunks_ok C" and ui: "used_inv C Ka (Blocks m) (Tails m)" using *(2) by (auto simp: pool_inv_def pinv_def)
  note u = used_invD [OF ui Ka]
  then have B: "Blocks m (b - 16) = Some (POOL_HEAD t sz)" "Tails m (b - 16 + ucast sz - 8) = Some sz"
    by (simp_all add: hdr_def tail_addr_def)
  have b0: "b \<noteq> 0"
  proof
    assume "b = 0"
    then have h: "unat ?h = 2 ^ 64 - 16" by (simp add: hdr_def)
    obtain l where "block C ?h l" "unat sz \<le> l" using u room_block by blast
    then show False using block_bounds(2) [OF ok, of ?h l] u h by (simp add: room_def)
  qed
  let ?m2 = "upd_pool (Static t) (\<lambda>P. P\<lparr>Used := Used P - ucast sz\<rparr>) m"
  have i2: "mem_inv K D V ?m2" by (rule mem_inv_same [OF inv]) (simp_all add: pool_inv_def fl_upd_same)
  have ms2: "map_same m ?m2" by simp
  obtain m' where m': "free_small (AllocatePoolI k) (FreePoolI k) k (Static t) ?h (SIZE_TO_LIST (ucast sz)) ?m2 = Ret m'" "map_same ?m2 m'"
      "PoolHead m' = (PoolHead ?m2)(t := (PoolHead ?m2 t)\<lparr>FreeList := (FreeList (PoolHead ?m2 t))(SIZE_TO_LIST (ucast sz) := ?h # FreeList (PoolHead ?m2 t) (SIZE_TO_LIST (ucast sz)))\<rparr>)"
    using free_small_returns [OF i2 K refl i a(1) [folded used_blocks_same [OF ms2]] a(2,3)] by blast
  have f: "FreePoolI n b m = FreePoolI_with (AllocatePoolI k) (FreePoolI k) k b m" by (simp add: k FreePoolI_def AllocatePoolI_def)
  have ret: "FreePoolI n b m = Ret (EFI_SUCCESS, m')"
    unfolding f using B b0 t i m'(1) by (simp add: FreePoolI_with_def LookupPoolHead_def Let_def hdr_def del: bind_run_Ret)
  moreover have "mem_inv (K(?h := None)) D V m'" by (rule pool.free_ok [OF inv _ ret]) (simp add: K)
  moreover have "PoolHead m' = pool_given t (SIZE_TO_LIST (ucast sz)) (ucast sz) ?h (PoolHead m)"
    unfolding m'(3) by (simp add: pool_given_def upd_pool_def)
  ultimately show ?thesis using map_same_trans [OF ms2 m'(2)] by blast
qed

lemma releasable_free:
  assumes "releasable L m" and "b \<in> L" and "0 < n"
  shows "\<exists>m'. FreePoolI n b m = Ret (EFI_SUCCESS, m') \<and> mem.more m' = mem.more m \<and> releasable (L - {b}) m'"
proof -
  obtain K D V where inv: "mem_inv K D V m" and r: "releasable_in K L m" using assms(1) by (auto simp: releasable_def)
  obtain a where a: "small_block K (hdr b)" "a \<in> used_blocks K m" "a \<notin> hdr ` L" "chunk_base a = chunk_base (hdr b)"
    using r assms(2) unfolding releasable_in_def by blast
  then have "a \<noteq> hdr b" using assms(2) by auto
  moreover obtain t sz where "K (hdr b) = Some (t, sz)" "0 \<le> t" "t < EfiMaxMemoryType" "SIZE_TO_LIST (ucast sz) < MAX_POOL_LIST"
    using a(1) unfolding small_block_def by blast
  ultimately obtain m' where m': "FreePoolI n b m = Ret (EFI_SUCCESS, m')" "map_same m m'" "mem_inv (K(hdr b := None)) D V m'"
    using FreePoolI_returns [OF inv _ _ _ _ a(2) _ a(4) assms(3)] by blast
  have ub: "used_blocks (K(hdr b := None)) m' \<supseteq> used_blocks K m - {hdr b}"
    using used_blocks_same [OF m'(2), of K] by (auto simp: used_blocks_def)
  have "releasable_in (K(hdr b := None)) (L - {b}) m'"
    unfolding releasable_in_def
  proof
    fix c assume c: "c \<in> L - {b}"
    then obtain a where a: "small_block K (hdr c)" "a \<in> used_blocks K m" "a \<notin> hdr ` L" "chunk_base a = chunk_base (hdr c)"
      using r unfolding releasable_in_def by blast
    have "small_block (K(hdr b := None)) (hdr c)" using a(1) c by (simp add: small_block_def)
    moreover have "a \<in> used_blocks (K(hdr b := None)) m' - hdr ` (L - {b})" using a(2,3) ub assms(2) by auto
    ultimately show "small_block (K(hdr b := None)) (hdr c) \<and>
        (\<exists>a\<in>used_blocks (K(hdr b := None)) m' - hdr ` (L - {b}). chunk_base a = chunk_base (hdr c))" using a(4) by blast
  qed
  then show ?thesis using m' unfolding releasable_def map_same_def by blast
qed

lemma releasable_mono:
  assumes "releasable L m" and "L' \<subseteq> L" shows "releasable L' m"
proof -
  have "releasable_in K L m \<Longrightarrow> releasable_in K L' m" for K
    using assms(2) unfolding releasable_in_def by blast
  then show ?thesis using assms(1) unfolding releasable_def by blast
qed

section \<open>Allocating\<close>

lemma free_block_bounds:
  assumes "mem_inv K D V m" and "0 \<le> t" "t < EfiMaxMemoryType" and "h \<in> set (FreeList (PoolHead m t) i)"
  shows "h \<noteq> 0 \<and> h + SIZE_OF_POOL_HEAD \<noteq> 0"
proof -
  from assms(1) obtain C Ka where *: "pool_inv C Ka m" by (rule mem_invE)
  have ok: "chunks_ok C" and fi: "free_inv C (fl m) (Blocks m)" using * by (auto simp: pool_inv_def pinv_def)
  have "h \<in> set (fl m (Static t) i)" using assms(4) by (simp add: fl_def get_pool_def)
  then have "slot C h i" using free_invD(2) [OF fi, of "Static t"] assms(2,3) by (simp add: okref_def)
  then have b: "block C h (LIST_TO_SIZE i)" by (rule slot_block)
  have "h \<noteq> 0" using block_bounds(1) [OF ok b] by simp
  moreover have "unat h + 128 < 2 ^ 64" using block_bounds(2) [OF ok b] by (simp add: LIST_TO_SIZE_def)
  then have "unat (h + 16) = unat h + 16" by (subst unat_add_le) simp_all
  ultimately show ?thesis by auto
qed

text \<open>With a free block of the right size at hand, an allocation returns at once.\<close>

lemma AllocatePoolI_fast:
  assumes "0 \<le> t" "t < EfiMaxMemoryType" and "SIZE_TO_LIST (ALIGN_VARIABLE Size + POOL_OVERHEAD) < MAX_POOL_LIST"
    and "FreeList (PoolHead m t) (SIZE_TO_LIST (ALIGN_VARIABLE Size + POOL_OVERHEAD)) = h # hs" and "0 < n" and "h \<noteq> 0"
  shows "\<exists>m'. AllocatePoolI n t Size m = Ret (h + SIZE_OF_POOL_HEAD, m') \<and> map_same m m' \<and>
     PoolHead m' = pool_taken t (SIZE_TO_LIST (ALIGN_VARIABLE Size + POOL_OVERHEAD)) (ALIGN_VARIABLE Size + POOL_OVERHEAD) (PoolHead m)"
proof -
  obtain k where "n = Suc k" using assms(5) by (cases n) auto
  then show ?thesis using assms(1-4,6)
    by (simp add: AllocatePoolI_def AllocatePoolI_with_def LookupPoolHead_def get_pool_def fill_block_def Let_def del: bind_run_Ret)
       (simp add: upd_pool_def pool_taken_def)
qed

text \<open>A buffer from a chunk that is in use can be given back.\<close>

lemma at_hand_alloc:
  assumes inv: "mem_inv K D V m" and at: "at_hand K t (SIZE_TO_LIST (ALIGN_VARIABLE Size + POOL_OVERHEAD)) m" and t: "0 \<le> t" "t < EfiMaxMemoryType"
    and sz: "unat Size \<le> 0xffffff00" and i: "SIZE_TO_LIST (ALIGN_VARIABLE Size + POOL_OVERHEAD) < MAX_POOL_LIST" and n: "0 < n"
  shows "\<exists>b m'. AllocatePoolI n t Size m = Ret (b, m') \<and> b \<noteq> 0 \<and> map_same m m' \<and> K (hdr b) = None \<and>
     mem_inv (K(hdr b \<mapsto> (t, ucast (ALIGN_VARIABLE Size + POOL_OVERHEAD)))) D V m' \<and>
     ucast (ucast (ALIGN_VARIABLE Size + POOL_OVERHEAD) :: UINT32) = ALIGN_VARIABLE Size + POOL_OVERHEAD \<and>
     FreeList (PoolHead m t) (SIZE_TO_LIST (ALIGN_VARIABLE Size + POOL_OVERHEAD)) =
       hdr b # tl (FreeList (PoolHead m t) (SIZE_TO_LIST (ALIGN_VARIABLE Size + POOL_OVERHEAD))) \<and>
     PoolHead m' = pool_taken t (SIZE_TO_LIST (ALIGN_VARIABLE Size + POOL_OVERHEAD)) (ALIGN_VARIABLE Size + POOL_OVERHEAD) (PoolHead m) \<and>
     releasable_in (K(hdr b \<mapsto> (t, ucast (ALIGN_VARIABLE Size + POOL_OVERHEAD)))) {b} m'"
proof -
  obtain h hs a where h: "FreeList (PoolHead m t) (SIZE_TO_LIST (ALIGN_VARIABLE Size + POOL_OVERHEAD)) = h # hs"
      and a: "a \<in> used_blocks K m" "chunk_base a = chunk_base h" using at by (auto simp: at_hand_def)
  have nz: "h \<noteq> 0 \<and> h + 16 \<noteq> 0" using free_block_bounds [OF inv t, of h] h by (metis list.set_intros(1))
  obtain m' where m': "AllocatePoolI n t Size m = Ret (h + 16, m')" "map_same m m'"
      "PoolHead m' = pool_taken t (SIZE_TO_LIST (ALIGN_VARIABLE Size + POOL_OVERHEAD)) (ALIGN_VARIABLE Size + POOL_OVERHEAD) (PoolHead m)" using AllocatePoolI_fast [OF t i h n] nz by blast
  let ?K = "K(h \<mapsto> (t, ucast (ALIGN_VARIABLE Size + POOL_OVERHEAD)))"
  have Kh: "K h = None" "mem_inv ?K D V m'" using alloc_pool_ok [OF inv sz m'(1)] nz by simp_all
  let ?S = "ALIGN_VARIABLE Size + POOL_OVERHEAD"
  have "unat ?S div 128 < 64" using i by (simp add: SIZE_TO_LIST_div)
  then have "unat ?S < 2 ^ 32" by simp
  then have S: "ucast (ucast ?S :: UINT32) = ?S" by (rule ucast_id)
  have "small_block ?K h" using t i S by (simp add: small_block_def)
  moreover have "a \<noteq> h"
  proof
    assume e: "a = h"
    from inv obtain C Ka where *: "owners Ka K (pool_entries m) (pool_descs m)" "pool_inv C Ka m" by (rule mem_invE)
    then obtain x where x: "Ka h = Some x" using a(1) used_blocks_dom [OF *(1)] e by blast
    have "h \<in> set (fl m (Static t) (SIZE_TO_LIST (ALIGN_VARIABLE Size + POOL_OVERHEAD)))" using h by (simp add: fl_def get_pool_def)
    then show False using used_not_free [of C Ka "fl m" "Blocks m" "Tails m" h x "Static t"] *(2) x t by (simp add: pool_inv_def okref_def)
  qed
  moreover have "a \<in> used_blocks ?K m'" using a(1) used_blocks_same [OF m'(2)] by (auto simp: used_blocks_def)
  ultimately have "releasable_in ?K {h + 16} m'" using a(2) by (auto simp: releasable_in_def)
  then show ?thesis using m' nz Kh S h by (intro exI [of _ "h + 16"] exI [of _ m']) simp
qed

end
