(* ===== verification/MemProps.thy ===== *)
theory MemProps
  imports PoolFree
begin

text \<open>
  The properties of the memory services: exclusive ownership over every history, the services seen
  by a caller when no notification is due, the map for the operating system, and three places where
  the services do not do what they should.
\<close>

section \<open>Examples\<close>

text \<open>
  A map with one free range and one chunk of the runtime services data pool, in which the first two
  blocks hold the descriptors of the map and the third one is free.
\<close>

definition sample_mem :: mem where
  "sample_mem = one_range\<lparr>MemoryMap := [OnPool 0x1FE010, OnPool 0x1FE090],
     MapEntry := (\<lambda>p. \<lparr>FromPool = True, MType = (if p = OnPool 0x1FE090 then EfiRuntimeServicesData else EfiConventionalMemory),
                       MStart = (if p = OnPool 0x1FE090 then 0x1FE000 else 0x100000),
                       MEnd = (if p = OnPool 0x1FE090 then 0x1FFFFF else 0x1FDFFF), VirtualStart = 0, MAttribute = 0xF\<rparr>),
     MapDepth := 0,
     PoolHead := (\<lambda>t. \<lparr>Used = 0, PMemoryType = t, FreeList = (\<lambda>i. if t = EfiRuntimeServicesData \<and> i = 0 then [0x1FE100] else [])\<rparr>),
     Blocks := [0x1FE000 \<mapsto> POOL_HEAD EfiRuntimeServicesData 88, 0x1FE080 \<mapsto> POOL_HEAD EfiRuntimeServicesData 88,
                0x1FE100 \<mapsto> POOL_FREE 0],
     Tails := [0x1FE050 \<mapsto> 88, 0x1FE0D0 \<mapsto> 88]\<rparr>"

lemma sample_map_inv: "map_inv sample_mem"
  by (auto simp: map_inv_def mlist_inv_def sample_mem_def one_range_def wf_entry_def wf_range_def home_def iv_def)

lemma sample_backed: "backed [0x1FE000 \<mapsto> Small 0] Map.empty (region sample_mem)"
  unfolding backed_def
proof (intro allI impI, elim conjE)
  fix b c a assume "[0x1FE000 \<mapsto> Small 0] b = Some c" "a \<in> space b c"
  then have "a \<in> iv (MapEntry sample_mem (OnPool 0x1FE090))"
    by (auto simp: sample_mem_def space_def chunk_size_def iv_def split: if_splits)
  moreover have "OnPool 0x1FE090 \<in> set (MemoryMap sample_mem)" "MType (MapEntry sample_mem (OnPool 0x1FE090)) = EfiRuntimeServicesData"
    by (simp_all add: sample_mem_def)
  ultimately have "(a, EfiRuntimeServicesData, MAttribute (MapEntry sample_mem (OnPool 0x1FE090))) \<in> region sample_mem"
    using entry_region [of "OnPool 0x1FE090" sample_mem a] by simp
  moreover have "EfiRuntimeServicesData \<noteq> EfiConventionalMemory" by simp
  ultimately show "Map.empty a = None \<and> (\<exists>t w. t \<noteq> EfiConventionalMemory \<and> (a, t, w) \<in> region sample_mem)" by blast
qed

lemma sample_pool_inv:
  "pool_inv [0x1FE000 \<mapsto> Small 0] [0x1FE000 \<mapsto> (EfiRuntimeServicesData, 88), 0x1FE080 \<mapsto> (EfiRuntimeServicesData, 88)] sample_mem"
proof -
  let ?C = "[0x1FE000 \<mapsto> Small 0] :: UINTN \<rightharpoonup> chunk"
  have ok: "chunks_ok ?C" by (auto simp: chunks_ok_def chunk_ok_def chunk_size_def split: if_splits)
  have "{(0, 0), (128, 0), (256, 0)} \<subseteq> set (carve 0 0)" by (simp add: carve.simps LIST_TO_SIZE_def)
  then have sl: "slot ?C 0x1FE000 0" "slot ?C 0x1FE080 0" "slot ?C 0x1FE100 0"
    by (auto simp: slot_def intro: exI [of _ 0] exI [of _ 128] exI [of _ 256])
  have B: "Blocks sample_mem = [0x1FE000 \<mapsto> POOL_HEAD EfiRuntimeServicesData 88, 0x1FE080 \<mapsto> POOL_HEAD EfiRuntimeServicesData 88,
      0x1FE100 \<mapsto> POOL_FREE 0]" "Tails sample_mem = [0x1FE050 \<mapsto> 88, 0x1FE0D0 \<mapsto> 88]" by (simp_all add: sample_mem_def)
  have fl: "fl sample_mem r i = (if r = Static EfiRuntimeServicesData \<and> i = 0 then [0x1FE100] else [])" for r i
    by (auto simp: fl_def get_pool_def sample_mem_def one_range_def split: pool_ref.splits)
  have "free_inv ?C (fl sample_mem) (Blocks sample_mem)"
    by (rule free_invI) (auto simp: fl sl B split: if_splits)
  moreover have "index_inv ?C (Blocks sample_mem)"
    using slot_unique [OF ok sl(3)] by (auto simp: index_inv_def B split: if_splits)
  moreover have "used_inv ?C [0x1FE000 \<mapsto> (EfiRuntimeServicesData, 88), 0x1FE080 \<mapsto> (EfiRuntimeServicesData, 88)] (Blocks sample_mem) (Tails sample_mem)"
    by (auto simp: used_inv_def B room_def sl SIZE_TO_LIST_def tail_addr_def split: if_splits)
  ultimately show ?thesis using ok by (simp add: pool_inv_def pinv_def)
qed

lemma sample_mem_inv: "mem_inv Map.empty Map.empty (vis (region sample_mem), ()) sample_mem"
  by (rule mem_invI [OF sample_map_inv _ _ _ sample_backed _ sample_pool_inv])
     (auto simp: claims_def sample_mem_def one_range_def owners_def pool_entries_def pool_descs_def hdr_def)

definition sample_alloc :: mem where
  "sample_alloc = snd (fill_block (Static EfiRuntimeServicesData) EfiRuntimeServicesData 88 0x1FE100
     (upd_pool (Static EfiRuntimeServicesData) (\<lambda>P. P\<lparr>FreeList := (FreeList P)(0 := [])\<rparr>) sample_mem))"

lemma sample_alloc_step: "AllocatePoolI (Suc n) EfiRuntimeServicesData 64 sample_mem = Ret (0x1FE110, sample_alloc)"
  by (simp add: AllocatePoolI_def AllocatePoolI_with_def LookupPoolHead_def ALIGN_VARIABLE_def SIZE_TO_LIST_def Let_def
        get_pool_def sample_mem_def one_range_def fill_block_def sample_alloc_def)

section \<open>Ownership\<close>

text \<open>
  C23: memory is handed out exclusively. The initialised memory state satisfies the invariant, and from a state
  that does, after any history of calls of the page and pool services, successful or failing, the blocks and pages
  in the hands of callers do not overlap, keep their headers and their types, and are not free in the map, whose
  descriptors stay well-formed and disjoint and still describe every address they described before. The
  calls are those of \<open>proper_call\<close>: the firmware adds memory that is not in the map yet, a caller frees and retypes only
  what it owns, a pool request has the size \<open>BSAllocatePool\<close> lets through, and pages are requested fewer than
  \<open>2 ^ 52\<close> at a time and not as \<open>EfiConventionalMemory\<close>. \<open>AllocatePages\<close> does not check the last two itself;
  C28 is a call that this leaves out.
\<close>

theorem memory_exclusive:
  "mem_inv Map.empty Map.empty (vis (region (exec.more (InitializeMemoryMap s))), mem.more (exec.more (InitializeMemoryMap s)))
     (exec.more (InitializeMemoryMap s)) \<and>
   (mem_inv K D V m \<and> proper_step\<^sup>*\<^sup>* (K, D, m) (K', D', m') \<longrightarrow>
      exclusive K' D' m' \<and> map_inv m' \<and> fst V \<subseteq> vis (region m'))"
proof (intro conjI impI mem_inv_initial [OF refl])
  assume "mem_inv K D V m \<and> proper_step\<^sup>*\<^sup>* (K, D, m) (K', D', m')"
  then obtain V' where V': "mem_inv K' D' V' m'" "fst V \<subseteq> fst V'" using mem_steps_inv [of K D m _ V] by blast
  then show "exclusive K' D' m'" "map_inv m'" "fst V \<subseteq> vis (region m')"
    using mem_inv_exclusive [OF V'(1)] mem_inv_region [OF V'(1)] by (auto simp: mem_inv_def)
qed

theorem memory_exclusive_witness:
  "mem_inv Map.empty Map.empty (vis (region sample_mem), ()) sample_mem \<and>
   proper_step\<^sup>*\<^sup>* (Map.empty, Map.empty, sample_mem) ([0x1FE100 \<mapsto> (EfiRuntimeServicesData, 88)], Map.empty, sample_alloc) \<and>
   exclusive [0x1FE100 \<mapsto> (EfiRuntimeServicesData, 88)] Map.empty sample_alloc"
proof -
  have "mem_step (Alloc_pool EfiRuntimeServicesData 64) (Map.empty, Map.empty, sample_mem)
      ([0x1FE100 \<mapsto> (EfiRuntimeServicesData, 88)], Map.empty, sample_alloc)"
    using mem_step.alloc_pool [of "Suc 0" EfiRuntimeServicesData 64 sample_mem "0x1FE110" sample_alloc Map.empty Map.empty] sample_alloc_step
    by (simp add: hdr_def ALIGN_VARIABLE_def)
  moreover have "proper_call (Alloc_pool EfiRuntimeServicesData 64) (Map.empty, Map.empty, sample_mem)"
    by (simp add: proper_call_def)
  ultimately have "proper_step\<^sup>*\<^sup>* (Map.empty, Map.empty, sample_mem) ([0x1FE100 \<mapsto> (EfiRuntimeServicesData, 88)], Map.empty, sample_alloc)"
    unfolding proper_step_def by (intro r_into_rtranclp) blast
  then show ?thesis
    using memory_exclusive [of _ Map.empty Map.empty "(vis (region sample_mem), ())" sample_mem
        "[0x1FE100 \<mapsto> (EfiRuntimeServicesData, 88)]" Map.empty sample_alloc] sample_mem_inv by blast
qed

section \<open>Services\<close>

lemma page_offset_8k: "unat (x AND 0x1FFF) = unat x mod 8192" for x :: UINT64
proof -
  have "x AND 0x1FFF = take_bit 13 x" by (simp add: take_bit_eq_mask mask_eq_exp_minus_1)
  then show ?thesis by (simp add: take_bit_eq_mod unat_mod_distrib)
qed

text \<open>
  With nothing pending above the current level the memory lock is transparent: the body runs on the
  memory state, and the execution services are as before.
\<close>

definition mem_after :: "'y mem_scheme \<Rightarrow> 'y memst \<Rightarrow> 'y memst" where
  "mem_after m s = released MemoryLock ((AcquireLock MemoryLock s)\<lparr>exec.more := m\<rparr>)"

lemma mem_after_simps [simp]: "exec_frame s (mem_after m s)" "exec.more (mem_after m s) = m"
  by (simp_all add: mem_after_def exec_frame_def released_def AcquireLock_def RaiseTPL_def Let_def)

lemma mem_after_exec [simp]: "quiet (mem_after m s) = quiet s" "EfiAtRuntime (mem_after m s) = EfiAtRuntime s"
  using exec_frame_quiet [OF mem_after_simps(1) [of s m]] mem_after_simps(1) [of s m] by (simp_all add: exec_frame_def)

lemma with_memory_quiet:
  assumes "quiet s" and "2 \<le> n"
  shows "with_memory cb n body s = bind_run (body (exec.more s)) (\<lambda>(r, m). Ret (r, mem_after m s))"
proof -
  have o: "OwnerTpl (Locks ((AcquireLock MemoryLock s)\<lparr>exec.more := m\<rparr>) MemoryLock) = TPL s" for m by simp
  have "ReleaseLock cb n MemoryLock ((AcquireLock MemoryLock s)\<lparr>exec.more := m\<rparr>) = Ret (mem_after m s)" for m
    unfolding mem_after_def by (rule release_quiet) (use assms in \<open>simp_all add: quiet_def\<close>)
  then show ?thesis by (simp add: with_memory_def Let_def AcquireLock_def RaiseTPL_def)
qed

lemma page_alignment_cases: "page_alignment t \<in> {4096, 8192}"
  by (simp add: page_alignment_def)

lemma round_pages_aligned: "unat (round_pages (page_alignment t) NoPages) * 4096 mod unat (page_alignment t) = 0"
proof -
  have "unat ((NoPages + 1) AND NOT 1) = unat (NoPages + 1) div 2 * 2" using align_down [of 1 "NoPages + 1"] by simp
  then show ?thesis using page_alignment_cases [of t]
    by (auto simp: round_pages_def EFI_SIZE_TO_PAGES_def mult_mod_right)
qed

lemma find_pages_aligned:
  assumes "map_inv m" and "FindFreePages MaxAddress NoPages t (page_alignment t) m = B" "B \<noteq> 0"
    and "NoPages = round_pages (page_alignment t) np" and "0 < unat NoPages" "unat NoPages < 2 ^ 52"
  shows "unat B mod unat (page_alignment t) = 0" "unat B + unat NoPages * 4096 \<le> Suc (unat MaxAddress)"
proof -
  have ft: "fits (page_limit MaxAddress) (unat (page_alignment t)) (unat NoPages) (entries m) (unat B)"
    by (rule FindFreePages_fits [OF _ page_alignment_cases assms(5,6,2,3)])
       (use assms(1) in \<open>auto simp: map_inv_def mlist_inv_def\<close>)
  have "(unat NoPages * 4096) mod unat (page_alignment t) = 0" using round_pages_aligned [of t np] assms(4) by simp
  then show "unat B mod unat (page_alignment t) = 0"
    using ft unfolding fits_def by (metis mod_add_right_eq add_0_right)
  have "page_limit MaxAddress \<le> Suc (unat MaxAddress)" by (simp add: page_limit_def)
  then show "unat B + unat NoPages * 4096 \<le> Suc (unat MaxAddress)" using ft unfolding fits_def by linarith
qed

text \<open>Pages that lie in one free descriptor are converted in one turn of the loop, so that this cannot fail halfway.\<close>

lemma fits_end:
  assumes "map_inv m" and "fits limit al (unat np) (entries m) (unat B)" and "0 < unat np" "unat np < 2 ^ 52"
  shows "\<exists>p\<in>set (MemoryMap m). MType (MapEntry m p) = EfiConventionalMemory \<and> MStart (MapEntry m p) \<le> B \<and>
           B + push_bit EFI_PAGE_SHIFT np - 1 \<le> MEnd (MapEntry m p) \<and> B < B + push_bit EFI_PAGE_SHIFT np - 1 \<and>
           B + push_bit EFI_PAGE_SHIFT np - 1 + 1 \<noteq> 0"
proof -
  obtain p where p: "p \<in> set (MemoryMap m)" "MType (MapEntry m p) = EfiConventionalMemory"
      "unat (MStart (MapEntry m p)) \<le> unat B" "unat B + unat np * 4096 \<le> Suc (unat (MEnd (MapEntry m p)))"
    using assms(2) by (auto simp: fits_def)
  have "Suc (unat (MEnd (MapEntry m p))) < 2 ^ 64"
    using assms(1) p(1) by (simp add: map_inv_def mlist_inv_def wf_entry_def wf_range_def)
  then have s: "unat (B + push_bit EFI_PAGE_SHIFT np) = unat B + unat np * 4096"
    using p(4) by (subst unat_add_le) (simp_all add: shift_pages [OF assms(4)])
  then have nz: "B + push_bit EFI_PAGE_SHIFT np \<noteq> 0" using assms(3) by auto
  then have "unat (B + push_bit EFI_PAGE_SHIFT np - 1) = unat B + unat np * 4096 - 1" using unat_minus1 s by metis
  then show ?thesis using p nz assms(3) by (intro bexI [OF _ p(1)]) (auto simp: word_less_nat_alt word_le_nat_alt)
qed

lemma ConvertPages_one:
  assumes mi: "map_inv m" and ft: "fits limit al (unat np) (entries m) (unat B)" and np: "0 < unat np" "unat np < 2 ^ 52"
    and t: "t \<noteq> EfiConventionalMemory" and ret: "ConvertPages allocI freeI n False B np t m = Ret (st, m')"
  shows "st = EFI_SUCCESS \<or> m' = m"
proof (cases "np = 0 \<or> B AND EFI_PAGE_MASK \<noteq> 0 \<or> B > B + push_bit EFI_PAGE_SHIFT np")
  case True
  then show ?thesis using ret by (auto simp: ConvertPages_def Let_def)
next
  case False
  let ?End = "B + push_bit EFI_PAGE_SHIFT np - 1"
  let ?P = "\<lambda>p. MStart (MapEntry m p) \<le> B \<and> MEnd (MapEntry m p) > B"
  obtain p where p: "p \<in> set (MemoryMap m)" "MType (MapEntry m p) = EfiConventionalMemory" "MStart (MapEntry m p) \<le> B"
      "?End \<le> MEnd (MapEntry m p)" "B < ?End" "?End + 1 \<noteq> 0" using fits_end [OF mi ft np] by blast
  then have "?P p" by simp
  moreover have "q = p" if "q \<in> set (MemoryMap m)" "?P q" for q
  proof -
    have "unat B \<in> iv (MapEntry m q) \<inter> iv (MapEntry m p)"
      using that(2) \<open>?P p\<close> by (auto simp: iv_def word_le_nat_alt word_less_nat_alt)
    then show ?thesis using mi that(1) p(1) unfolding map_inv_def mlist_inv_def by blast
  qed
  moreover have "List.find ?P (MemoryMap m) \<noteq> None" using p(1) \<open>?P p\<close> unfolding find_None_iff by blast
  then obtain q where q: "List.find ?P (MemoryMap m) = Some q" by blast
  then have "q \<in> set (MemoryMap m)" "?P q" unfolding find_Some_iff by auto
  ultimately have fd: "List.find ?P (MemoryMap m) = Some p" using q by simp
  have cl: "convert_loop allocI freeI n False B ?End t m = Ret (st, m')" using ret False by (auto simp: ConvertPages_def Let_def)
  then obtain k where k: "n = Suc k" by (cases n) auto
  have re: "(if MEnd (MapEntry m p) < ?End then MEnd (MapEntry m p) else ?End) = ?End" using p(4) by (intro if_not_P) (simp only: not_less)
  have inc: "\<not> incompatible False t (MType (MapEntry m p))" using p(2) t by (simp add: incompatible_def)
  have "\<exists>m4. convert_loop allocI freeI k False (?End + 1) ?End t m4 = Ret (st, m')"
    using cl p(5) unfolding k convert_loop.simps(2) fd option.case re Let_def if_not_P [OF inc] by auto
  moreover have "\<not> ?End + 1 < ?End" using unat_minus1 [of "?End + 1"] p(6) by (simp add: word_less_nat_alt)
  ultimately show ?thesis by (cases k) auto
qed

lemma exec_frame_refl [simp]: "exec_frame s s"
  by (simp add: exec_frame_def)

lemma ConvertPages_invalid:
  "ConvertPages allocI freeI n LoadConvert Start NoPages t m = Ret (EFI_INVALID_PARAMETER, m') \<Longrightarrow> m' = m"
  using convert_loop_status [of allocI freeI n LoadConvert Start _ t m EFI_INVALID_PARAMETER m']
  by (auto simp: ConvertPages_def Let_def split: if_splits)

lemma allocate_body_fails:
  assumes mi: "map_inv m" and np: "np = round_pages (page_alignment t) NoPages" "unat np < 2 ^ 52" and t: "t \<noteq> EfiConventionalMemory"
    and ret: "allocate_body n Type t np Memory m = Ret ((st, Start), m')" and st: "st \<noteq> EFI_SUCCESS"
  shows "Type = AllocateAddress \<and> st = EFI_NOT_FOUND \<or> m' = m"
proof -
  define Max where "Max = (if Type = AllocateMaxAddress then Memory else MAX_ADDRESS)"
  have S: "Type \<noteq> AllocateAddress \<Longrightarrow> Start = FindFreePages Max np t (page_alignment t) m"
    using ret by (auto simp: allocate_body_def Max_def Let_def split: if_splits)
  consider "m' = m" | (cv) "ConvertPages (AllocatePoolI n) (FreePoolI n) n False Start np t m = Ret (st, m')"
      "Type \<noteq> AllocateAddress \<Longrightarrow> Start \<noteq> 0"
    using ret by (auto simp: allocate_body_def Let_def split: if_splits)
  then show ?thesis
  proof cases
    case cv
    show ?thesis
    proof (cases "np = 0 \<or> st = EFI_INVALID_PARAMETER")
      case True
      then have "st = EFI_INVALID_PARAMETER" using cv(1) by (auto simp: ConvertPages_def)
      then show ?thesis using cv(1) ConvertPages_invalid by blast
    next
      case False
      then have pos: "0 < unat np" and nf: "st = EFI_NOT_FOUND"
        using ConvertPages_status [OF cv(1)] st by (auto intro: gr0I simp: unat_eq_zero)
      show ?thesis
      proof (cases "Type = AllocateAddress")
        case nA: False
        have ft: "fits (page_limit Max) (unat (page_alignment t)) (unat np) (entries m) (unat Start)"
          by (rule FindFreePages_fits [OF _ page_alignment_cases pos np(2) S [OF nA, symmetric] cv(2) [OF nA]])
             (use mi in \<open>auto simp: map_inv_def mlist_inv_def\<close>)
        show ?thesis using ConvertPages_one [OF mi ft pos np(2) t cv(1)] st by simp
      qed (use nf in simp)
    qed
  qed simp
qed

lemma AllocatePages_ok:
  assumes q: "quiet s" "2 \<le> n" "\<not> EfiAtRuntime s" and inv: "mem_inv K D V (exec.more s)"
    and np: "np = round_pages (page_alignment t) NoPages" "unat np < 2 ^ 52" and t: "t \<noteq> EfiConventionalMemory"
    and ret: "AllocatePages cb n Type t NoPages Memory s = Ret (st, Base, s')"
  shows "exec_frame s s' \<and>
    (if st = EFI_SUCCESS
     then page_range Base np \<inter> dom D = {} \<and> unat Base mod unat (page_alignment t) = 0 \<and>
          (Type = AllocateMaxAddress \<longrightarrow> unat Base + unat np * 4096 \<le> Suc (unat Memory)) \<and> (Type = AllocateAddress \<longrightarrow> Base = Memory) \<and>
          mem_inv K (retype D (page_range Base np) t) V (exec.more s')
     else Base = Memory \<and> mem_inv K D V (exec.more s') \<and>
          (Type = AllocateAddress \<and> st = EFI_NOT_FOUND \<or> exec.more s' = exec.more s))"
proof (cases "st = EFI_INVALID_PARAMETER \<and> Base = Memory \<and> s' = s")
  case True
  then show ?thesis using inv by simp
next
  case False
  have Q: "with_memory cb n body s = bind_run (body (exec.more s)) (\<lambda>(r, m). Ret (r, mem_after m s))" for body :: "'a mem_scheme \<Rightarrow> ((EFI_STATUS \<times> UINT64) \<times> 'a mem_scheme) run"
    by (rule with_memory_quiet [OF q(1,2)])
  have g: "\<not> (Type < 0 \<or> 3 \<le> Type)" using ret False by (auto simp: AllocatePages_def)
  have al: "\<not> (Type = 2 \<and> Memory AND (page_alignment t - 1) \<noteq> 0)" using ret False q(3) g by (auto simp: AllocatePages_def split: if_splits)
  obtain Start m' where b: "allocate_body n Type t np Memory (exec.more s) = Ret ((st, Start), m')"
      and s': "s' = mem_after m' s" and B: "Base = (if EFI_ERROR st then Memory else Start)"
    using ret unfolding AllocatePages_def Q np(1) [symmetric] if_not_P [OF g] if_not_P [OF q(3)] if_not_P [OF al]
    by (cases "allocate_body n Type t np Memory (exec.more s)") auto
  note ok = allocate_body_ok [OF inv np(2) t b]
  have mi: "map_inv (exec.more s)" using inv by (simp add: mem_inv_def)
  show ?thesis
  proof (cases "st = EFI_SUCCESS")
    case st: True
    then have p: "0 < unat np" and BS: "Base = Start" using ok B by simp_all
    have "unat Base mod unat (page_alignment t) = 0 \<and> (Type = AllocateMaxAddress \<longrightarrow> unat Base + unat np * 4096 \<le> Suc (unat Memory))
        \<and> (Type = AllocateAddress \<longrightarrow> Base = Memory)"
    proof (cases "Type = AllocateAddress")
      case True
      then have S: "Start = Memory" using b by (auto simp: allocate_body_def Let_def split: if_splits)
      have "unat Memory mod unat (page_alignment t) = unat (Memory AND (page_alignment t - 1))"
        using page_alignment_cases [of t] page_offset [of Memory] page_offset_8k [of Memory] by auto
      then show ?thesis using al True S BS by auto
    next
      case nA: False
      define Max where "Max = (if Type = AllocateMaxAddress then Memory else MAX_ADDRESS)"
      have "Start = FindFreePages Max np t (page_alignment t) (exec.more s)" "Start \<noteq> 0"
        using b st nA by (auto simp: allocate_body_def Max_def Let_def split: if_splits)
      from find_pages_aligned [OF mi this(1) [symmetric] this(2) np(1) p np(2)] show ?thesis using nA BS by (auto simp: Max_def)
    qed
    then show ?thesis using ok st s' BS by simp
  next
    case nst: False
    have "st = EFI_OUT_OF_RESOURCES \<or> st = EFI_NOT_FOUND \<or> st = EFI_INVALID_PARAMETER"
      using b nst by (auto simp: allocate_body_def Let_def dest!: ConvertPages_status split: if_splits)
    then have "Base = Memory" using B by auto
    moreover have "Type = AllocateAddress \<and> st = EFI_NOT_FOUND \<or> m' = exec.more s"
      using allocate_body_fails [OF mi np t b nst] .
    ultimately show ?thesis using ok nst s' by simp
  qed
qed

definition sample_state :: "mem exec_scheme" where
  "sample_state = idle_state 4 Map.empty sample_mem"

lemma sample_quiet: "quiet sample_state" "\<not> EfiAtRuntime sample_state" "exec.more sample_state = sample_mem"
  by (simp_all add: sample_state_def quiet_def idle_state_def)

text \<open>
  C24: what \<open>AllocatePages\<close> promises its caller, for fewer than \<open>2 ^ 52\<close> pages (after rounding) of a type other than
  \<open>EfiConventionalMemory\<close>. When it succeeds, the pages were in nobody's hands
  before and are now the caller's, with the memory type asked for, aligned as that type needs, below
  the maximum address or at the address asked for. When it fails, nothing is handed out: the address it was given
  and the pages and blocks in the hands of callers are unchanged, and the memory state is untouched, with one exception: an allocation
  at an address that answers \<open>EFI_NOT_FOUND\<close> may have taken the front part of the range out of free memory
  before it came to a page that is not free. Either way the invariant of the memory state holds and the execution
  services are as before.
\<close>

theorem allocate_pages_service:
  assumes "quiet s" and "2 \<le> n" and "\<not> EfiAtRuntime s" and "mem_inv K D V (exec.more s)"
    and "unat (round_pages (page_alignment t) NoPages) < 2 ^ 52" and "t \<noteq> EfiConventionalMemory"
    and "BootServiceAllocatePages cb n Type t NoPages Memory s = Ret (st, Base, s')"
  shows "exec_frame s s' \<and>
    (let X = page_range Base (round_pages (page_alignment t) NoPages)
     in if st = EFI_SUCCESS
        then X \<inter> dom D = {} \<and> unat Base mod unat (page_alignment t) = 0 \<and>
             (Type = AllocateMaxAddress \<longrightarrow>
                unat Base + unat (round_pages (page_alignment t) NoPages) * 4096 \<le> Suc (unat Memory)) \<and>
             (Type = AllocateAddress \<longrightarrow> Base = Memory) \<and> mem_inv K (retype D X t) V (exec.more s')
        else Base = Memory \<and> mem_inv K D V (exec.more s') \<and>
             (Type = AllocateAddress \<and> st = EFI_NOT_FOUND \<or> exec.more s' = exec.more s))"
proof (cases "t \<ge> EfiMaxMemoryType \<and> t \<le> 0x7fffffff")
  case True
  then show ?thesis using assms(4,7) by (simp add: BootServiceAllocatePages_def Let_def)
next
  case False
  then have "AllocatePages cb n Type t NoPages Memory s = Ret (st, Base, s')"
    using assms(7) by (auto simp: BootServiceAllocatePages_def split: if_splits)
  from AllocatePages_ok [OF assms(1-4) refl assms(5,6) this] show ?thesis by (simp add: Let_def)
qed

lemma sample_find: "FindFreePages 0x1FFFFF 2 EfiRuntimeServicesData 8192 sample_mem = 0x1FC000"
  by (simp add: FindFreePages_def FindFreePagesI_def watermark_def free_target_def desc_end_def Let_def
      sample_mem_def one_range_def)

lemma sample_convert:
  assumes "n = Suc (Suc 0)"
  shows "\<exists>m'. ConvertPages allocI freeI n False 0x1FC000 2 EfiRuntimeServicesData sample_mem = Ret (EFI_SUCCESS, m')"
  by (simp add: ConvertPages_def Let_def incompatible_def pull_range_def sample_mem_def one_range_def upd_entry_def AddRange_def
      adjoins_def merge_entry_def FreeMemoryMapStack_def assms del: bind_run_Ret)

lemma sample_allocate:
  "\<exists>s'. BootServiceAllocatePages cb 2 AllocateMaxAddress EfiRuntimeServicesData 1 0x1FFFFF sample_state = Ret (EFI_SUCCESS, 0x1FC000, s')"
  using sample_convert [of 2]
  by (auto simp: BootServiceAllocatePages_def AllocatePages_def with_memory_quiet sample_quiet page_alignment_def round_pages_def
      EFI_SIZE_TO_PAGES_def allocate_body_def Let_def sample_find)

theorem allocate_pages_service_witness:
  "\<exists>s'. BootServiceAllocatePages (\<lambda>_ _ _ _. Fault) 2 AllocateMaxAddress EfiRuntimeServicesData 1 0x1FFFFF sample_state = Ret (EFI_SUCCESS, 0x1FC000, s') \<and>
        mem_inv Map.empty (retype Map.empty (page_range 0x1FC000 (round_pages (page_alignment EfiRuntimeServicesData) 1)) EfiRuntimeServicesData)
          (vis (region sample_mem), ()) (exec.more s')"
proof -
  obtain s' where s': "BootServiceAllocatePages (\<lambda>_ _ _ _. Fault) 2 AllocateMaxAddress EfiRuntimeServicesData 1 0x1FFFFF sample_state = Ret (EFI_SUCCESS, 0x1FC000, s')"
    using sample_allocate by blast
  have "unat (round_pages (page_alignment EfiRuntimeServicesData) 1) < 2 ^ 52"
    by (simp add: round_pages_def page_alignment_def EFI_SIZE_TO_PAGES_def)
  from allocate_pages_service [OF sample_quiet(1) _ sample_quiet(2) _ this _ s'] show ?thesis
    using s' sample_mem_inv sample_quiet(3) by (fastforce simp: Let_def)
qed

text \<open>A block in the hands of a caller goes back to its pool.\<close>

lemma FreePoolI_status:
  assumes "mem_inv K D V m" and "K (hdr b) = Some (t, sz)" and "b \<noteq> 0" and "0 \<le> t" "t < EfiMaxMemoryType"
    and ret: "FreePoolI n b m = Ret (st, m')"
  shows "st = EFI_SUCCESS"
proof -
  from assms(1) obtain C Ka where *: "owners Ka K (pool_entries m) (pool_descs m)" "pool_inv C Ka m" by (rule mem_invE)
  have Ka: "Ka (hdr b) = Some (t, sz)" using *(1) assms(2) unfolding owners_def map_le_def by (metis domI)
  have "used_inv C Ka (Blocks m) (Tails m)" using *(2) by (simp add: pool_inv_def pinv_def)
  from used_invD [OF this Ka] have B: "Blocks m (b - 16) = Some (POOL_HEAD t sz)" "Tails m (b - 16 + ucast sz - 8) = Some sz"
    by (simp_all add: hdr_def tail_addr_def)
  show ?thesis
    using ret assms(3-5) B
    by (cases n) (auto simp: FreePoolI_def FreePoolI_with_def LookupPoolHead_def Let_def split: if_splits)
qed

text \<open>An allocation from a chunk that is in use, and the free after it.\<close>

lemma alloc_free_returns:
  assumes q: "quiet s" "2 \<le> n" "\<not> EfiAtRuntime s" and inv: "mem_inv K D V (exec.more s)" and t: "0 \<le> t" "t < EfiMaxMemoryType"
    and at: "at_hand K t (SIZE_TO_LIST (ALIGN_VARIABLE Size + POOL_OVERHEAD)) (exec.more s)"
    and sz: "Size \<le> 0xffffff00" and i: "SIZE_TO_LIST (ALIGN_VARIABLE Size + POOL_OVERHEAD) < MAX_POOL_LIST"
  shows "\<exists>b s1 s2. BSAllocatePool cb n t Size s = Ret (EFI_SUCCESS, Some b, s1) \<and> BSFreePool cb n b s1 = Ret (EFI_SUCCESS, s2) \<and>
     exec_frame s s2 \<and> mem_inv K D V (exec.more s2) \<and> PoolHead (exec.more s2) = PoolHead (exec.more s)"
proof -
  have n: "0 < n" using q(2) by simp
  have sz': "unat Size \<le> 0xffffff00" using sz by (simp add: word_le_nat_alt)
  let ?T = "(t, ucast (ALIGN_VARIABLE Size + POOL_OVERHEAD))"
  let ?S = "ALIGN_VARIABLE Size + POOL_OVERHEAD"
  obtain b m1 where m1: "AllocatePoolI n t Size (exec.more s) = Ret (b, m1)" "b \<noteq> 0" "K (hdr b) = None"
      "mem_inv (K(hdr b \<mapsto> ?T)) D V m1" "releasable_in (K(hdr b \<mapsto> ?T)) {b} m1" "ucast (ucast ?S :: UINT32) = ?S"
      "FreeList (PoolHead (exec.more s) t) (SIZE_TO_LIST ?S) = hdr b # tl (FreeList (PoolHead (exec.more s) t) (SIZE_TO_LIST ?S))"
      "PoolHead m1 = pool_taken t (SIZE_TO_LIST ?S) ?S (PoolHead (exec.more s))"
    using at_hand_alloc [OF inv at t sz' i n] by blast
  obtain a where a: "a \<in> used_blocks (K(hdr b \<mapsto> ?T)) m1" "a \<noteq> hdr b" "chunk_base a = chunk_base (hdr b)"
    using m1(5) unfolding releasable_in_def by auto
  have "(K(hdr b \<mapsto> ?T)) (hdr b) = Some ?T" "SIZE_TO_LIST (ucast (ucast ?S :: UINT32)) < MAX_POOL_LIST" using m1(6) i by simp_all
  then obtain m2 where m2: "FreePoolI n b m1 = Ret (EFI_SUCCESS, m2)" "mem_inv ((K(hdr b \<mapsto> ?T))(hdr b := None)) D V m2"
      "PoolHead m2 = pool_given t (SIZE_TO_LIST ?S) ?S (hdr b) (PoolHead m1)"
    using FreePoolI_returns [OF m1(4) _ t _ a n] m1(6) by metis
  have ph: "PoolHead m2 = PoolHead (exec.more s)" unfolding m2(3) m1(8) by (rule pool_given_taken) (rule m1(7))
  have "(K(hdr b \<mapsto> ?T))(hdr b := None) = K" using m1(3) by auto
  then have inv2: "mem_inv K D V m2" using m2(2) by simp
  let ?s1 = "mem_after m1 s"
  have A: "BSAllocatePool cb n t Size s = Ret (EFI_SUCCESS, Some b, ?s1)"
    using m1(1,2) sz q(3) by (simp add: BSAllocatePool_def with_memory_quiet [OF q(1,2)] not_less del: bind_run_Ret)
  have q1: "quiet ?s1" "\<not> EfiAtRuntime ?s1" using q by simp_all
  have "BSFreePool cb n b ?s1 = Ret (EFI_SUCCESS, mem_after m2 ?s1)"
    using m2(1) q1(2) by (simp add: BSFreePool_def with_memory_quiet [OF q1(1) q(2)] del: bind_run_Ret)
  moreover have "exec_frame s (mem_after m2 ?s1)" using exec_frame_trans [of s ?s1] by simp
  ultimately show ?thesis using A inv2 ph
    by (intro exI [of _ b] exI [of _ ?s1] exI [of _ "mem_after m2 ?s1"]) simp
qed

text \<open>
  C25: the life of a pool buffer. With a free block of its size class at hand an allocation succeeds; if the chunk of that
  block has another block in use, the new buffer can be freed again, this succeeds, and what callers own is what it was before the
  allocation, and so are the free lists and the counters of the pools. A buffer that any allocation returns is not \<open>NULL\<close>, and its block overlaps no block and no page in the hands of
  other callers and is not free in the map; freeing it restores what callers own and reports success also
  where it empties its chunk or gives back whole pages, if it comes back (these frees change the map of memory, which
  can fail for want of descriptors).
\<close>

theorem pool_roundtrip:
  assumes "quiet s" and "2 \<le> n" and "\<not> EfiAtRuntime s" and "mem_inv K D V (exec.more s)" and "0 \<le> t" and "t < EfiMaxMemoryType"
  shows "(Size \<le> 0xffffff00 \<and> SIZE_TO_LIST (ALIGN_VARIABLE Size + POOL_OVERHEAD) < MAX_POOL_LIST \<and>
          FreeList (PoolHead (exec.more s) t) (SIZE_TO_LIST (ALIGN_VARIABLE Size + POOL_OVERHEAD)) \<noteq> [] \<longrightarrow>
            (\<exists>b s1. BootServiceAllocatePool cb n t Size s = Ret (EFI_SUCCESS, Some b, s1))) \<and>
         (Size \<le> 0xffffff00 \<and> SIZE_TO_LIST (ALIGN_VARIABLE Size + POOL_OVERHEAD) < MAX_POOL_LIST \<and>
          at_hand K t (SIZE_TO_LIST (ALIGN_VARIABLE Size + POOL_OVERHEAD)) (exec.more s) \<longrightarrow>
            (\<exists>b s1 s2. BootServiceAllocatePool cb n t Size s = Ret (EFI_SUCCESS, Some b, s1) \<and>
               BSFreePool cb n b s1 = Ret (EFI_SUCCESS, s2) \<and> exec_frame s s2 \<and> mem_inv K D V (exec.more s2) \<and>
               PoolHead (exec.more s2) = PoolHead (exec.more s))) \<and>
         (BootServiceAllocatePool cb n t Size s = Ret (EFI_SUCCESS, Some b, s1) \<longrightarrow>
            b \<noteq> 0 \<and> K (hdr b) = None \<and> exec_frame s s1 \<and>
            exclusive (K(hdr b \<mapsto> (t, ucast (ALIGN_VARIABLE Size + POOL_OVERHEAD)))) D (exec.more s1) \<and>
            (BSFreePool cb n b s1 = Ret (st, s2) \<longrightarrow>
               st = EFI_SUCCESS \<and> exec_frame s s2 \<and> mem_inv K D V (exec.more s2)))"
proof (intro conjI impI, elim conjE)
  have bs: "BootServiceAllocatePool cb n t Size s = BSAllocatePool cb n t Size s"
    using assms(6) by (simp add: BootServiceAllocatePool_def)
  note Q = with_memory_quiet [OF assms(1,2)]
  {
    assume sz: "Size \<le> 0xffffff00" and i: "SIZE_TO_LIST (ALIGN_VARIABLE Size + POOL_OVERHEAD) < MAX_POOL_LIST"
      and ne: "FreeList (PoolHead (exec.more s) t) (SIZE_TO_LIST (ALIGN_VARIABLE Size + POOL_OVERHEAD)) \<noteq> []"
    then obtain h hs where h: "FreeList (PoolHead (exec.more s) t) (SIZE_TO_LIST (ALIGN_VARIABLE Size + POOL_OVERHEAD)) = h # hs"
      by (meson neq_Nil_conv)
    have nz: "h \<noteq> 0 \<and> h + 16 \<noteq> 0" using free_block_bounds [OF assms(4-6), of h] h by (metis list.set_intros(1))
    obtain m' where "AllocatePoolI n t Size (exec.more s) = Ret (h + 16, m')"
      using AllocatePoolI_fast [OF assms(5,6) i h, of n] assms(2) nz by auto
    then show "\<exists>b s1. BootServiceAllocatePool cb n t Size s = Ret (EFI_SUCCESS, Some b, s1)"
      using bs nz sz assms(3) by (simp add: BSAllocatePool_def Q not_less del: bind_run_Ret)
  }
  {
    assume a: "Size \<le> 0xffffff00 \<and> SIZE_TO_LIST (ALIGN_VARIABLE Size + POOL_OVERHEAD) < MAX_POOL_LIST \<and>
        at_hand K t (SIZE_TO_LIST (ALIGN_VARIABLE Size + POOL_OVERHEAD)) (exec.more s)"
    show "\<exists>b s1 s2. BootServiceAllocatePool cb n t Size s = Ret (EFI_SUCCESS, Some b, s1) \<and>
        BSFreePool cb n b s1 = Ret (EFI_SUCCESS, s2) \<and> exec_frame s s2 \<and> mem_inv K D V (exec.more s2) \<and>
        PoolHead (exec.more s2) = PoolHead (exec.more s)"
      using alloc_free_returns [OF assms, of Size cb] a bs by simp
  }
  let ?K = "K(hdr b \<mapsto> (t, ucast (ALIGN_VARIABLE Size + POOL_OVERHEAD)))"
  assume "BootServiceAllocatePool cb n t Size s = Ret (EFI_SUCCESS, Some b, s1)"
  then obtain m1 where sz: "unat Size \<le> 0xffffff00" and al: "AllocatePoolI n t Size (exec.more s) = Ret (b, m1)"
      and b: "b \<noteq> 0" and s1: "s1 = mem_after m1 s"
    unfolding bs BSAllocatePool_def Q using assms(3) by (auto simp: word_le_nat_alt not_less split: if_splits)
  have K: "K (hdr b) = None" and inv1: "mem_inv ?K D V m1" using alloc_pool_ok [OF assms(4) sz al] b by simp_all
  then show "b \<noteq> 0" "K (hdr b) = None" "exec_frame s s1" "exclusive ?K D (exec.more s1)"
    using b s1 mem_inv_exclusive [OF inv1] by simp_all
  have q1: "quiet s1" "\<not> EfiAtRuntime s1" using s1 assms(1,3) by simp_all
  assume "BSFreePool cb n b s1 = Ret (st, s2)"
  then obtain m2 where fr: "FreePoolI n b m1 = Ret (st, m2)" and s2: "s2 = mem_after m2 s1"
    unfolding BSFreePool_def with_memory_quiet [OF q1(1) assms(2)] using q1(2) s1 by auto
  show "st = EFI_SUCCESS" by (rule FreePoolI_status [OF inv1 _ b assms(5,6) fr]) simp
  show "exec_frame s s2" using s1 s2 exec_frame_trans [of s s1 s2] by simp
  have "mem_inv (?K(hdr b := None)) D V m2" by (rule pool.free_ok [OF inv1 _ fr]) simp
  moreover have "?K(hdr b := None) = K" using K by auto
  ultimately show "mem_inv K D V (exec.more s2)" using s2 by simp
qed

theorem pool_roundtrip_witness:
  "\<exists>b s1 s2. BootServiceAllocatePool (\<lambda>_ _ _ _. Fault) 2 EfiRuntimeServicesData 64 sample_state = Ret (EFI_SUCCESS, Some b, s1) \<and>
           BSFreePool (\<lambda>_ _ _ _. Fault) 2 b s1 = Ret (EFI_SUCCESS, s2) \<and>
           mem_inv Map.empty Map.empty (vis (region sample_mem), ()) (exec.more s2)"
proof -
  have inv: "mem_inv Map.empty Map.empty (vis (region sample_mem), ()) (exec.more sample_state)"
    using sample_mem_inv sample_quiet(3) by simp
  have i: "SIZE_TO_LIST (ALIGN_VARIABLE 64 + POOL_OVERHEAD) = 0" by (simp add: SIZE_TO_LIST_def ALIGN_VARIABLE_def)
  have "0x1FE000 \<in> used_blocks Map.empty sample_mem" "chunk_base 0x1FE000 = chunk_base 0x1FE100"
    by (simp_all add: used_blocks_def pool_entries_def sample_mem_def hdr_def image_iff chunk_base_def)
  moreover have "FreeList (PoolHead sample_mem EfiRuntimeServicesData) 0 = [0x1FE100]" by (simp add: sample_mem_def)
  ultimately have "at_hand Map.empty EfiRuntimeServicesData 0 (exec.more sample_state)"
    unfolding at_hand_def sample_quiet(3) by blast
  then have "\<exists>b s1 s2. BootServiceAllocatePool (\<lambda>_ _ _ _. Fault) 2 EfiRuntimeServicesData 64 sample_state = Ret (EFI_SUCCESS, Some b, s1) \<and>
      BSFreePool (\<lambda>_ _ _ _. Fault) 2 b s1 = Ret (EFI_SUCCESS, s2) \<and> exec_frame sample_state s2 \<and>
      mem_inv Map.empty Map.empty (vis (region sample_mem), ()) (exec.more s2) \<and> PoolHead (exec.more s2) = PoolHead (exec.more sample_state)"
    by (intro pool_roundtrip [THEN conjunct2, THEN conjunct1, THEN mp, OF sample_quiet(1) _ sample_quiet(2) inv]) (simp_all add: i)
  then show ?thesis by blast
qed

section \<open>The map for the operating system\<close>

lemma descriptor_fields:
  assumes "wf_entry E"
  shows "unat (DPhysicalStart (descriptor E)) + unat (DNumberOfPages (descriptor E)) * 4096 = Suc (unat (MEnd E))"
    and "DPhysicalStart (descriptor E) = MStart E" and "DType (descriptor E) = word_of_int (MType E)"
proof -
  have w: "MStart E \<le> MEnd E" "unat (MStart E) mod 4096 = 0" "Suc (unat (MEnd E)) mod 4096 = 0" "Suc (unat (MEnd E)) < 2 ^ 64"
    using assms(1) by (simp_all add: wf_entry_def wf_range_def)
  have "unat (MEnd E - MStart E) = unat (MEnd E) - unat (MStart E)" using w(1) by (subst unat_sub_le) (simp_all add: word_le_nat_alt)
  then have u: "unat (MEnd E - MStart E + 1) = Suc (unat (MEnd E)) - unat (MStart E)"
    using w by (subst unat_add_le) (simp_all add: word_le_nat_alt)
  have "(Suc (unat (MEnd E)) - unat (MStart E)) mod 4096 = 0"
    using w by (metis dvd_diff_nat dvd_imp_mod_0 mod_0_imp_dvd)
  then have "(Suc (unat (MEnd E)) - unat (MStart E)) div 4096 * 4096 = Suc (unat (MEnd E)) - unat (MStart E)" by auto
  then show "unat (DPhysicalStart (descriptor E)) + unat (DNumberOfPages (descriptor E)) * 4096 = Suc (unat (MEnd E))"
    using u w(1) by (simp add: descriptor_def drop_bit_eq_div unat_div_distrib word_le_nat_alt)
  show "DPhysicalStart (descriptor E) = MStart E" by (simp add: descriptor_def)
  show "DType (descriptor E) = word_of_int (MType E)" by (simp add: descriptor_def)
qed

text \<open>The addresses, with their types and attributes, that a list of descriptors for the operating system describes.\<close>

definition described :: "EFI_MEMORY_DESCRIPTOR list \<Rightarrow> (nat \<times> UINT32 \<times> UINT64) set" where
  "described ds = {(a, t, w). \<exists>d\<in>set ds. unat (DPhysicalStart d) \<le> a \<and>
     a < unat (DPhysicalStart d) + unat (DNumberOfPages d) * 4096 \<and> t = DType d \<and> w = DAttribute d}"

text \<open>
  What the operating system is to be told of the map: bit 63 of the attribute is set for the memory of the runtime
  services and of the PAL code, the other bits are the map's.
\<close>

definition runtime_marked :: "int \<Rightarrow> UINT64 \<Rightarrow> UINT64" where
  "runtime_marked t w = (if t = EfiRuntimeServicesCode \<or> t = EfiRuntimeServicesData \<or> t = EfiPalCode then set_bit 63 w else w)"

lemma descriptor_attribute: "DAttribute (descriptor E) = runtime_marked (MType E) (MAttribute E)"
  by (simp add: descriptor_def runtime_marked_def set_bit_eq_or push_bit_of_1)

text \<open>
  C26: \<open>GetMemoryMap\<close> and its buffer size protocol. It always reports the size of the whole map. A
  buffer that is too small is refused and a \<open>NULL\<close> buffer that would be large enough is an error; otherwise
  the descriptors written out, one for each descriptor of the map, describe exactly the addresses of the map, each
  with its type (as a 32-bit value) and its attribute, in which the memory of the runtime services and of the PAL code is marked
  as runtime memory, and the key written out is the map's current key. The memory state is unchanged.
\<close>

theorem get_memory_map_exact:
  assumes "quiet s" and "2 \<le> n" and "map_inv (exec.more s)"
  shows "\<exists>st out s'. GetMemoryMap cb n (Some MapSize) Desc True DescSize DescVersion s = Ret ((st, out), s') \<and>
     exec_frame s s' \<and> exec.more s' = exec.more s \<and>
     OMemoryMapSize out = Some (of_nat (length (MemoryMap (exec.more s))) * 48) \<and>
     (if MapSize < of_nat (length (MemoryMap (exec.more s))) * 48 then st = EFI_BUFFER_TOO_SMALL \<and> ODesc out = None
      else if \<not> Desc then st = EFI_INVALID_PARAMETER \<and> ODesc out = None
      else st = EFI_SUCCESS \<and> OMapKey out = Some (MemoryMapKey (exec.more s)) \<and>
           (\<exists>ds. ODesc out = Some ds \<and> length ds = length (MemoryMap (exec.more s)) \<and>
                 described ds = (\<lambda>(a, t, w). (a, word_of_int t, runtime_marked t w)) ` region (exec.more s)))"
proof -
  let ?m = "exec.more s"
  have wf: "\<forall>p\<in>set (MemoryMap ?m). wf_entry (MapEntry ?m p)" using assms(3) by (simp add: map_inv_def mlist_inv_def)
  have "(\<exists>d\<in>set (map (\<lambda>p. descriptor (MapEntry ?m p)) (MemoryMap ?m)). unat (DPhysicalStart d) \<le> a \<and>
       a < unat (DPhysicalStart d) + unat (DNumberOfPages d) * 4096 \<and> t = DType d \<and> w = DAttribute d) \<longleftrightarrow>
     (\<exists>p\<in>set (MemoryMap ?m). a \<in> iv (MapEntry ?m p) \<and> t = word_of_int (MType (MapEntry ?m p)) \<and>
        w = runtime_marked (MType (MapEntry ?m p)) (MAttribute (MapEntry ?m p)))" for a t w
    using wf descriptor_fields by (force simp: iv_def descriptor_attribute)
  then have D: "described (map (\<lambda>p. descriptor (MapEntry ?m p)) (MemoryMap ?m)) =
      (\<lambda>(a, t, w). (a, word_of_int t, runtime_marked t w)) ` region ?m"
    unfolding described_def region_def lregion_def ereg_def by (auto simp: image_iff)
  show ?thesis
    using D by (auto simp: GetMemoryMap_def with_memory_quiet [OF assms(1,2)] build_map_def descriptor_size_def Let_def)
qed

theorem get_memory_map_exact_witness:
  "\<exists>out s' ds. GetMemoryMap (\<lambda>_ _ _ _. Fault) 2 (Some 96) True True True True sample_state = Ret ((EFI_SUCCESS, out), s') \<and>
     ODesc out = Some ds \<and> described ds = (\<lambda>(a, t, w). (a, word_of_int t, runtime_marked t w)) ` region sample_mem"
proof -
  have len: "length (MemoryMap sample_mem) = 2" by (simp add: sample_mem_def)
  have mi: "map_inv (exec.more sample_state)" using sample_map_inv sample_quiet(3) by simp
  show ?thesis
    using get_memory_map_exact [OF sample_quiet(1) _ mi, of 2 "\<lambda>_ _ _ _. Fault" 96 True True True]
    unfolding sample_quiet(3) len by auto
qed

section \<open>Leaving the boot services\<close>

text \<open>What the operating system relies on when it maps runtime memory in pages of 8 KB.\<close>

definition runtime_mappable :: "MEMORY_MAP \<Rightarrow> bool" where
  "runtime_mappable E \<longleftrightarrow>
     MType E \<noteq> EfiACPIReclaimMemory \<and> MType E \<noteq> EfiACPIMemoryNVS \<and>
     unat (MStart E) mod 8192 = 0 \<and> Suc (unat (MEnd E)) mod 8192 = 0"

lemma bad_runtime_entry_iff: "bad_runtime_entry E \<longleftrightarrow> bit (MAttribute E) 63 \<and> \<not> runtime_mappable E"
proof -
  have off: "x AND (8192 - 1) = 0 \<longleftrightarrow> unat x mod 8192 = 0" for x :: UINT64
    using page_offset_8k [of x] by (simp add: unat_eq_zero [symmetric] del: unat_eq_zero)
  have rt: "MAttribute E AND EFI_MEMORY_RUNTIME \<noteq> 0 \<longleftrightarrow> bit (MAttribute E) 63"
    by (simp add: bit_iff_and_push_bit_not_eq_0)
  have en: "unat (MEnd E + 1) mod 8192 = Suc (unat (MEnd E)) mod 8192"
    by (simp add: unat_word_ariths mod_mod_cancel)
  show ?thesis unfolding bad_runtime_entry_def off runtime_mappable_def rt en by simp
qed

text \<open>
  C27: \<open>TerminateMemoryMap\<close> switches the boot memory services off exactly when the caller knows the
  current map, and every descriptor that is marked as runtime memory (bit 63 of its attribute) is of a type other than the two
  ACPI ones and begins and ends at a multiple of 8 KB; otherwise nothing changes. Afterwards no page or pool service of the boot
  services changes anything any more.
\<close>

theorem terminate_memory_map:
  assumes "quiet s" and "2 \<le> n" and "\<not> EfiAtRuntime s"
  shows "\<exists>st s'. TerminateMemoryMap cb n Key s = Ret (st, s') \<and> exec.more s' = exec.more s \<and>
     (st = EFI_SUCCESS \<longleftrightarrow> EfiAtRuntime s') \<and> (st \<noteq> EFI_SUCCESS \<longrightarrow> st = EFI_INVALID_PARAMETER \<and> exec_frame s s') \<and>
     (st = EFI_SUCCESS \<longleftrightarrow> Key = MemoryMapKey (exec.more s) \<and>
        (\<forall>p\<in>set (MemoryMap (exec.more s)).
           bit (MAttribute (MapEntry (exec.more s) p)) 63 \<longrightarrow> runtime_mappable (MapEntry (exec.more s) p))) \<and>
     (st = EFI_SUCCESS \<longrightarrow>
        AllocatePages cb n' AllocateAnyPages t np Memory s' = Ret (EFI_UNSUPPORTED, Memory, s') \<and>
        FreePages cb n' Memory np s' = Ret (EFI_UNSUPPORTED, s') \<and>
        BSAllocatePool cb n' t Size s' = Ret (EFI_UNSUPPORTED, None, s') \<and>
        BSFreePool cb n' Buffer s' = Ret (EFI_UNSUPPORTED, s'))"
proof -
  let ?a = "AcquireLock MemoryLock s"
  define rt where "rt \<longleftrightarrow> Key = MemoryMapKey (exec.more s) \<and>
      \<not> list_ex (\<lambda>p. bad_runtime_entry (MapEntry (exec.more s) p)) (MemoryMap (exec.more s))"
  define s1 where "s1 = (if rt then ?a\<lparr>EfiAtRuntime := True\<rparr> else ?a)"
  have a: "exec.more ?a = exec.more s" by (simp add: AcquireLock_def RaiseTPL_def Let_def)
  have rel: "ReleaseLock cb n MemoryLock s1 = Ret (released MemoryLock s1)"
    by (rule release_quiet) (use assms in \<open>simp_all add: s1_def quiet_def\<close>)
  have T: "TerminateMemoryMap cb n Key s = Ret (if rt then EFI_SUCCESS else EFI_INVALID_PARAMETER, released MemoryLock s1)"
    using rel unfolding TerminateMemoryMap_def Let_def a by (auto simp: rt_def s1_def)
  have more: "exec.more (released MemoryLock s1) = exec.more s" using a by (simp add: s1_def released_def)
  have run: "EfiAtRuntime (released MemoryLock s1) = rt" using assms(3) by (simp add: s1_def)
  have same: "\<not> rt \<Longrightarrow> exec_frame s (released MemoryLock s1)" by (simp add: exec_frame_def s1_def)
  have R: "rt \<longleftrightarrow> Key = MemoryMapKey (exec.more s) \<and>
      (\<forall>p\<in>set (MemoryMap (exec.more s)).
         bit (MAttribute (MapEntry (exec.more s) p)) 63 \<longrightarrow> runtime_mappable (MapEntry (exec.more s) p))"
    by (auto simp: rt_def list_ex_iff bad_runtime_entry_iff)
  show ?thesis
    unfolding T R [symmetric] using more run same
    by (cases rt) (simp_all add: AllocatePages_def FreePages_def BSAllocatePool_def BSFreePool_def)
qed

theorem terminate_memory_map_witness:
  "\<exists>s'. TerminateMemoryMap (\<lambda>_ _ _ _. Fault) 2 1 sample_state = Ret (EFI_SUCCESS, s') \<and> EfiAtRuntime s'"
proof -
  have "\<not> bit (0xF :: UINT64) 63" by (simp add: bit_iff_odd_drop_bit)
  moreover have "MemoryMapKey (exec.more sample_state) = 1"
    and "\<forall>p. MAttribute (MapEntry (exec.more sample_state) p) = 0xF"
    unfolding sample_quiet(3) by (simp_all add: sample_mem_def one_range_def)
  ultimately have "MemoryMapKey (exec.more sample_state) = 1"
    and "\<forall>p\<in>set (MemoryMap (exec.more sample_state)). bit (MAttribute (MapEntry (exec.more sample_state) p)) 63 \<longrightarrow>
           runtime_mappable (MapEntry (exec.more sample_state) p)" by simp_all
  then show ?thesis
    using terminate_memory_map [OF sample_quiet(1) _ sample_quiet(2), of 2 "\<lambda>_ _ _ _. Fault" 1] by simp blast
qed

section \<open>Where the services go wrong\<close>

text \<open>
  C28: \<open>AllocatePages\<close> at a given address does not check that the size of the run fits the address
  space. For a number of pages that is a multiple of \<open>2 ^ 52\<close> the length in bytes wraps around to 0, and for a
  non-zero page-aligned address the service reports success without having allocated anything: the memory state,
  and so the map, is unchanged.
\<close>

theorem allocate_pages_wraps:
  assumes "quiet s" and "2 \<le> n" and "\<not> EfiAtRuntime s" and "NoPages \<noteq> 0" and "unat NoPages mod 2 ^ 52 = 0"
    and "page_alignment t = 4096" and "Memory AND 0xFFF = 0" and "Memory \<noteq> 0" and "t < EfiMaxMemoryType"
  shows "\<exists>s'. BootServiceAllocatePages cb n AllocateAddress t NoPages Memory s = Ret (EFI_SUCCESS, Memory, s') \<and>
              exec.more s' = exec.more s"
proof -
  have "push_bit EFI_PAGE_SHIFT NoPages = 0"
  proof -
    have "unat (push_bit EFI_PAGE_SHIFT NoPages) = unat NoPages * 2 ^ 12 mod 2 ^ 64"
      by (simp add: push_bit_eq_mult unat_word_ariths mult.commute)
    moreover have "2 ^ 64 dvd unat NoPages * 2 ^ 12"
      using mult_dvd_mono [of "2 ^ 52" "unat NoPages" "2 ^ 12" "2 ^ 12"] assms(5) by (simp add: mod_eq_0_iff_dvd)
    ultimately show ?thesis by (metis dvd_imp_mod_0 unat_eq_zero)
  qed
  moreover obtain k where "n = Suc k" using assms(2) by (cases n) auto
  moreover have "\<not> Memory < Memory - 1" using assms(8) by (simp add: word_less_nat_alt unat_minus_one)
  ultimately have cv: "ConvertPages allocI freeI n False Memory NoPages t (exec.more s) = Ret (EFI_SUCCESS, exec.more s)" for allocI freeI
    using assms(4,7,8) by (simp add: ConvertPages_def Let_def)
  have rp: "round_pages 4096 NoPages = NoPages" by (simp add: round_pages_def EFI_SIZE_TO_PAGES_def)
  have "allocate_body n AllocateAddress t NoPages Memory (exec.more s) = Ret ((EFI_SUCCESS, Memory), exec.more s)"
    using cv by (simp add: allocate_body_def)
  then show ?thesis
    using assms(3,6,7,9) rp
    by (simp add: BootServiceAllocatePages_def AllocatePages_def with_memory_quiet [OF assms(1,2)] del: bind_run_Ret)
qed

theorem allocate_pages_wraps_witness:
  "\<exists>s'. BootServiceAllocatePages (\<lambda>_ _ _ _. Fault) 2 AllocateAddress EfiLoaderData 0x10000000000000 0x1FE000 sample_state =
          Ret (EFI_SUCCESS, 0x1FE000, s') \<and> exec.more s' = sample_mem"
  using allocate_pages_wraps [OF sample_quiet(1) _ sample_quiet(2), where NoPages = "0x10000000000000" and t = EfiLoaderData and Memory = "0x1FE000" and n = 2 and cb = "\<lambda>_ _ _ _. Fault"]
  by (simp add: sample_quiet(3) page_alignment_def)

end
