(* ===== verification/HandleDb.thy ===== *)
theory HandleDb
  imports MemServices
begin

text \<open>
  The handle database of \<open>hand/handle.c\<close> and \<open>hand/notify.c\<close>: protocols installed on handles, who has opened
  them, and who waits for new ones. Its state lies behind that of the memory services
  (\<open>mem.more\<close>); its records are pool buffers, held by address. What the code calls through the table
  of boot services is a field of \<open>EFI_BOOT_SERVICES\<close>.
\<close>

section \<open>Identifiers\<close>

text \<open>\<open>Data4\<close> is the last eight bytes as one little-endian number.\<close>

record EFI_GUID =
  Data1 :: UINT32
  Data2 :: UINT16
  Data3 :: UINT16
  Data4 :: UINT64

text \<open>The identifier as the four 32-bit numbers \<open>RtCompareGuid\<close> reads.\<close>

definition guid_words :: "EFI_GUID \<Rightarrow> UINT32 list" where
  "guid_words g = [Data1 g, ucast (Data2 g) OR push_bit 16 (ucast (Data3 g)), ucast (Data4 g), ucast (drop_bit 32 (Data4 g))]"

text \<open>The differences of the parts, or-ed together, as an \<open>INT32\<close> widened to \<open>INTN\<close>.\<close>

definition CompareGuid :: "EFI_GUID \<Rightarrow> EFI_GUID \<Rightarrow> UINTN" where
  "CompareGuid g1 g2 = int_to_UINTN (fold (OR) (map2 (-) (guid_words g1) (guid_words g2)) 0)"

section \<open>The database\<close>

record OPEN_PROTOCOL_DATA =
  ODAgentHandle :: UINTN
  ODControllerHandle :: UINTN
  ODAttributes :: UINT32
  ODOpenCount :: UINT32

text \<open>The open list has the records with their addresses.\<close>

record PROTOCOL_INTERFACE =
  PIHandle :: UINTN
  PIProtocol :: UINTN
  PIInterface :: UINTN
  PIOpenList :: "(UINTN \<times> OPEN_PROTOCOL_DATA) list"
  PIOpenListCount :: UINTN

record PROTOCOL_ENTRY =
  PEProtocolID :: EFI_GUID
  PEProtocols :: "UINTN list"
  PENotify :: "UINTN list"

text \<open>A place in the list of a protocol's interfaces: its head, or the link of an interface.\<close>

datatype position = AtHead | AtProt UINTN

record PROTOCOL_NOTIFY =
  PNProtocol :: UINTN
  PNEvent :: UINTN
  PNPosition :: position

record IHANDLE =
  IHProtocols :: "UINTN list"
  IHLocateRequest :: UINTN
  IHKey :: UINT64

text \<open>
  The globals, with the records by address. An address outside \<open>Handles\<close> is \<open>NULL\<close> or memory
  without the signature of a handle, which \<open>UninstallProtocolInterface\<close> clears.
\<close>

record hand =
  ProtocolDatabase :: "UINTN list"
  HandleList :: "UINTN list"
  HandleDatabaseKey :: UINT64
  EfiLocateHandleRequest :: UINTN
  Entries :: "UINTN \<rightharpoonup> PROTOCOL_ENTRY"
  Handles :: "UINTN \<rightharpoonup> IHANDLE"
  Prots :: "UINTN \<rightharpoonup> PROTOCOL_INTERFACE"
  Notifies :: "UINTN \<rightharpoonup> PROTOCOL_NOTIFY"

type_synonym 'z handst = "'z hand_scheme mem_scheme exec_scheme"

definition db :: "'z handst \<Rightarrow> 'z hand_scheme" where
  "db s = mem.more (exec.more s)"

definition upd_db :: "('z hand_scheme \<Rightarrow> 'z hand_scheme) \<Rightarrow> 'z handst \<Rightarrow> 'z handst" where
  "upd_db f s = s\<lparr>exec.more := (exec.more s)\<lparr>mem.more := f (db s)\<rparr>\<rparr>"

definition upd_handle :: "UINTN \<Rightarrow> (IHANDLE \<Rightarrow> IHANDLE) \<Rightarrow> 'z hand_scheme \<Rightarrow> 'z hand_scheme" where
  "upd_handle a f h = h\<lparr>Handles := (Handles h)(a := map_option f (Handles h a))\<rparr>"

definition upd_entry_rec :: "UINTN \<Rightarrow> (PROTOCOL_ENTRY \<Rightarrow> PROTOCOL_ENTRY) \<Rightarrow> 'z hand_scheme \<Rightarrow> 'z hand_scheme" where
  "upd_entry_rec a f h = h\<lparr>Entries := (Entries h)(a := map_option f (Entries h a))\<rparr>"

definition upd_prot :: "UINTN \<Rightarrow> (PROTOCOL_INTERFACE \<Rightarrow> PROTOCOL_INTERFACE) \<Rightarrow> 'z hand_scheme \<Rightarrow> 'z hand_scheme" where
  "upd_prot a f h = h\<lparr>Prots := (Prots h)(a := map_option f (Prots h a))\<rparr>"

definition InitializeHandle :: "'z handst \<Rightarrow> 'z handst" where
  "InitializeHandle s = InitializeLock ProtocolDatabaseLock TPL_NOTIFY (upd_db (\<lambda>h. h\<lparr>ProtocolDatabase := [], HandleList := []\<rparr>) s)"

section \<open>The services it calls\<close>

record 's EFI_BOOT_SERVICES =
  BS_AllocatePool :: "int \<Rightarrow> UINTN \<Rightarrow> 's \<Rightarrow> (EFI_STATUS \<times> UINTN option \<times> 's) run"
  BS_FreePool :: "UINTN \<Rightarrow> 's \<Rightarrow> (EFI_STATUS \<times> 's) run"
  BS_ConnectController :: "UINTN \<Rightarrow> UINTN list option \<Rightarrow> UINT8 list option \<Rightarrow> bool \<Rightarrow> 's \<Rightarrow> (EFI_STATUS \<times> 's) run"
  BS_DisconnectController :: "UINTN \<Rightarrow> UINTN \<Rightarrow> UINTN \<Rightarrow> 's \<Rightarrow> (EFI_STATUS \<times> 's) run"

text \<open>The library's \<open>AllocatePool\<close> and \<open>FreePool\<close>. Zeroed memory is written before it is read here.\<close>

definition AllocatePool :: "'s EFI_BOOT_SERVICES \<Rightarrow> UINTN \<Rightarrow> 's \<Rightarrow> (UINTN \<times> 's) run" where
  "AllocatePool bs Size s =
     bind_run (BS_AllocatePool bs EfiBootServicesData Size s) (\<lambda>(Status, p, s1).
       Ret (if EFI_ERROR Status then 0 else case p of None \<Rightarrow> 0 | Some b \<Rightarrow> b, s1))"

definition FreePool :: "'s EFI_BOOT_SERVICES \<Rightarrow> UINTN \<Rightarrow> 's \<Rightarrow> 's run" where
  "FreePool bs Buffer s = bind_run (BS_FreePool bs Buffer s) (\<lambda>(_, s1). Ret s1)"

abbreviation (input) sizeof_PROTOCOL_ENTRY :: UINTN where "sizeof_PROTOCOL_ENTRY \<equiv> 72"
abbreviation (input) sizeof_PROTOCOL_INTERFACE :: UINTN where "sizeof_PROTOCOL_INTERFACE \<equiv> 96"
abbreviation (input) sizeof_IHANDLE :: UINTN where "sizeof_IHANDLE \<equiv> 56"
abbreviation (input) sizeof_PROTOCOL_NOTIFY :: UINTN where "sizeof_PROTOCOL_NOTIFY \<equiv> 48"
abbreviation (input) sizeof_OPEN_PROTOCOL_DATA :: UINTN where "sizeof_OPEN_PROTOCOL_DATA \<equiv> 48"
abbreviation (input) sizeof_OPEN_PROTOCOL_INFORMATION_ENTRY :: UINTN where "sizeof_OPEN_PROTOCOL_INFORMATION_ENTRY \<equiv> 24"

section \<open>Looking things up\<close>

definition ValidateHandle :: "'z handst \<Rightarrow> UINTN \<Rightarrow> EFI_STATUS" where
  "ValidateHandle s UserHandle =
     (if UserHandle = 0 then EFI_INVALID_PARAMETER
      else if Handles (db s) UserHandle = None then EFI_INVALID_PARAMETER else EFI_SUCCESS)"

definition has_id :: "'z hand_scheme \<Rightarrow> EFI_GUID \<Rightarrow> UINTN \<Rightarrow> bool" where
  "has_id h g a = (case Entries h a of None \<Rightarrow> False | Some Item \<Rightarrow> CompareGuid (PEProtocolID Item) g = 0)"

definition new_entry :: "UINTN \<Rightarrow> EFI_GUID \<Rightarrow> 'z hand_scheme \<Rightarrow> 'z hand_scheme" where
  "new_entry e g h =
     h\<lparr>Entries := (Entries h)(e \<mapsto> \<lparr>PEProtocolID = g, PEProtocols = [], PENotify = []\<rparr>),
       ProtocolDatabase := ProtocolDatabase h @ [e]\<rparr>"

definition FindProtocolEntry :: "'z handst EFI_BOOT_SERVICES \<Rightarrow> EFI_GUID \<Rightarrow> bool \<Rightarrow> 'z handst \<Rightarrow> (UINTN \<times> 'z handst) run" where
  "FindProtocolEntry bs Protocol Create s =
     (case List.find (has_id (db s) Protocol) (ProtocolDatabase (db s)) of
        Some e \<Rightarrow> Ret (e, s)
      | None \<Rightarrow>
          if Create then bind_run (AllocatePool bs sizeof_PROTOCOL_ENTRY s) (\<lambda>(e, s1).
            Ret (e, if e \<noteq> 0 then upd_db (new_entry e Protocol) s1 else s1))
          else Ret (0, s))"

text \<open>The first interface of a handle with a property.\<close>

primrec scan_prots :: "(PROTOCOL_INTERFACE \<Rightarrow> bool) \<Rightarrow> (UINTN \<rightharpoonup> PROTOCOL_INTERFACE) \<Rightarrow> UINTN list \<Rightarrow> UINTN run" where
  "scan_prots Q P [] = Ret 0"
| "scan_prots Q P (p # ps) =
     (case P p of None \<Rightarrow> Fault | Some Prot \<Rightarrow> if Q Prot then Ret p else scan_prots Q P ps)"

definition FindProtocolInterface :: "'z hand_scheme \<Rightarrow> UINTN \<Rightarrow> EFI_GUID \<Rightarrow> UINTN \<Rightarrow> UINTN run" where
  "FindProtocolInterface h Handle Protocol Interface =
     (case List.find (has_id h Protocol) (ProtocolDatabase h) of
        None \<Rightarrow> Ret 0
      | Some e \<Rightarrow>
          (case Handles h Handle of
             None \<Rightarrow> Fault
           | Some H \<Rightarrow> scan_prots (\<lambda>Prot. PIInterface Prot = Interface \<and> PIProtocol Prot = e) (Prots h) (IHProtocols H)))"

definition GetProtocolEntry :: "'z hand_scheme \<Rightarrow> UINTN \<Rightarrow> EFI_GUID \<Rightarrow> UINTN run" where
  "GetProtocolEntry h UserHandle Protocol =
     (if UserHandle = 0 then Ret 0
      else case Handles h UserHandle of
             None \<Rightarrow> Ret 0
           | Some H \<Rightarrow> scan_prots (\<lambda>Prot. has_id h Protocol (PIProtocol Prot)) (Prots h) (IHProtocols H))"

section \<open>Notifications\<close>

primrec notify_all_entries :: "'z hand_scheme mem_scheme notify_fn \<Rightarrow> nat \<Rightarrow> UINTN list \<Rightarrow> 'z handst \<Rightarrow> 'z handst run" where
  "notify_all_entries cb n [] s = Ret s"
| "notify_all_entries cb n (a # as) s =
     (case Notifies (db s) a of
        None \<Rightarrow> Fault
      | Some ProtNotify \<Rightarrow> bind_run (SignalEvent cb n (PNEvent ProtNotify) s) (\<lambda>(_, s1). notify_all_entries cb n as s1))"

definition NotifyProtocolEntry :: "'z hand_scheme mem_scheme notify_fn \<Rightarrow> nat \<Rightarrow> UINTN \<Rightarrow> 'z handst \<Rightarrow> 'z handst run" where
  "NotifyProtocolEntry cb n e s =
     (case Entries (db s) e of None \<Rightarrow> Fault | Some ProtEntry \<Rightarrow> notify_all_entries cb n (PENotify ProtEntry) s)"

text \<open>\<open>Blink\<close> and \<open>Flink\<close> of a place in the list of interfaces.\<close>

definition before :: "UINTN list \<Rightarrow> UINTN \<Rightarrow> position" where
  "before ps p = (case rev (takeWhile (\<lambda>x. x \<noteq> p) ps) of [] \<Rightarrow> AtHead | q # qs \<Rightarrow> AtProt q)"

definition rest_behind :: "UINTN list \<Rightarrow> position \<Rightarrow> UINTN list run" where
  "rest_behind ps pos =
     (case pos of AtHead \<Rightarrow> Ret ps
      | AtProt p \<Rightarrow> if p \<in> set ps then Ret (tl (dropWhile (\<lambda>x. x \<noteq> p) ps)) else Fault)"

text \<open>
  Taking an interface out of its protocol's list. A notification whose place is at this interface
  goes back by one.
\<close>

definition back_up :: "UINTN list \<Rightarrow> UINTN \<Rightarrow> PROTOCOL_NOTIFY \<Rightarrow> PROTOCOL_NOTIFY" where
  "back_up ps p N = (if PNPosition N = AtProt p then N\<lparr>PNPosition := before ps p\<rparr> else N)"

definition detach :: "UINTN \<Rightarrow> UINTN \<Rightarrow> PROTOCOL_ENTRY \<Rightarrow> 'z hand_scheme \<Rightarrow> 'z hand_scheme" where
  "detach p e E h =
     upd_entry_rec e (\<lambda>E. E\<lparr>PEProtocols := remove1 p (PEProtocols E)\<rparr>)
       (h\<lparr>Notifies := (\<lambda>a. if a \<in> set (PENotify E) then map_option (back_up (PEProtocols E) p) (Notifies h a) else Notifies h a)\<rparr>)"

definition RemoveInterfaceFromProtocol :: "UINTN \<Rightarrow> EFI_GUID \<Rightarrow> UINTN \<Rightarrow> 'z handst \<Rightarrow> (UINTN \<times> 'z handst) run" where
  "RemoveInterfaceFromProtocol Handle Protocol Interface s =
     bind_run (FindProtocolInterface (db s) Handle Protocol Interface) (\<lambda>p.
       if p = 0 then Ret (0, s)
       else case Prots (db s) p of
              None \<Rightarrow> Fault
            | Some Prot \<Rightarrow>
                (case Entries (db s) (PIProtocol Prot) of
                   None \<Rightarrow> Fault
                 | Some E \<Rightarrow> Ret (p, upd_db (detach p (PIProtocol Prot) E) s)))"

text \<open>The second result is what is written to \<open>*Registration\<close>. With no entry, \<open>ProtNotify\<close> is not initialised.\<close>

definition RegisterProtocolNotify ::
  "'z handst EFI_BOOT_SERVICES \<Rightarrow> 'z hand_scheme mem_scheme notify_fn \<Rightarrow> nat \<Rightarrow> EFI_GUID \<Rightarrow> UINTN \<Rightarrow> 'z handst
   \<Rightarrow> (EFI_STATUS \<times> UINTN option \<times> 'z handst) run"
where
  "RegisterProtocolNotify bs cb n Protocol Event s =
     bind_run (FindProtocolEntry bs Protocol True (AcquireLock ProtocolDatabaseLock s)) (\<lambda>(e, s1).
       if e = 0 then Fault
       else bind_run (AllocatePool bs sizeof_PROTOCOL_NOTIFY s1) (\<lambda>(a, s2).
         let s3 = (if a = 0 then s2
                   else upd_db (\<lambda>h. upd_entry_rec e (\<lambda>E. E\<lparr>PENotify := PENotify E @ [a]\<rparr>)
                          (h\<lparr>Notifies := (Notifies h)(a \<mapsto> \<lparr>PNProtocol = e, PNEvent = Event, PNPosition = AtHead\<rparr>)\<rparr>)) s2)
         in bind_run (ReleaseLock cb n ProtocolDatabaseLock s3) (\<lambda>s4.
              Ret (if a = 0 then (EFI_OUT_OF_RESOURCES, None, s4) else (EFI_SUCCESS, Some a, s4)))))"

text \<open>The first registration with the event, over all protocols.\<close>

definition has_event :: "'z hand_scheme \<Rightarrow> UINTN \<Rightarrow> UINTN \<Rightarrow> bool" where
  "has_event h Event a = (case Notifies h a of None \<Rightarrow> False | Some N \<Rightarrow> PNEvent N = Event)"

definition find_notify :: "'z hand_scheme \<Rightarrow> UINTN \<Rightarrow> UINTN option" where
  "find_notify h Event =
     List.find (has_event h Event)
       (concat (map (\<lambda>e. case Entries h e of None \<Rightarrow> [] | Some E \<Rightarrow> PENotify E) (ProtocolDatabase h)))"

definition drop_notify :: "UINTN \<Rightarrow> 'z hand_scheme \<Rightarrow> 'z hand_scheme" where
  "drop_notify a h =
     h\<lparr>Entries := (\<lambda>e. map_option (\<lambda>E. E\<lparr>PENotify := remove1 a (PENotify E)\<rparr>) (Entries h e)), Notifies := (Notifies h)(a := None)\<rparr>"

definition UnregisterProtocolNotifyEvent ::
  "'z handst EFI_BOOT_SERVICES \<Rightarrow> 'z hand_scheme mem_scheme notify_fn \<Rightarrow> nat \<Rightarrow> UINTN \<Rightarrow> 'z handst \<Rightarrow> (EFI_STATUS \<times> 'z handst) run"
where
  "UnregisterProtocolNotifyEvent bs cb n Event s =
     (let s1 = AcquireLock ProtocolDatabaseLock s
      in case find_notify (db s1) Event of
           Some a \<Rightarrow>
             bind_run (FreePool bs a (upd_db (drop_notify a) s1)) (\<lambda>s2.
             bind_run (ReleaseLock cb n ProtocolDatabaseLock s2) (\<lambda>s3. Ret (EFI_SUCCESS, s3)))
         | None \<Rightarrow> bind_run (ReleaseLock cb n ProtocolDatabaseLock s1) (\<lambda>s3. Ret (EFI_NOT_FOUND, s3)))"

primrec unregister_loop ::
  "'z handst EFI_BOOT_SERVICES \<Rightarrow> 'z hand_scheme mem_scheme notify_fn \<Rightarrow> nat \<Rightarrow> nat \<Rightarrow> UINTN \<Rightarrow> 'z handst \<Rightarrow> 'z handst run"
where
  "unregister_loop bs cb n 0 Event s = NoFuel"
| "unregister_loop bs cb n (Suc k) Event s =
     bind_run (UnregisterProtocolNotifyEvent bs cb n Event s) (\<lambda>(Status, s1).
       if EFI_ERROR Status then Ret s1 else unregister_loop bs cb n k Event s1)"

definition UnregisterProtocolNotify ::
  "'z handst EFI_BOOT_SERVICES \<Rightarrow> 'z hand_scheme mem_scheme notify_fn \<Rightarrow> nat \<Rightarrow> UINTN \<Rightarrow> 'z handst \<Rightarrow> (EFI_STATUS \<times> 'z handst) run"
where
  "UnregisterProtocolNotify bs cb n Event s = bind_run (unregister_loop bs cb n n Event s) (\<lambda>s1. Ret (EFI_SUCCESS, s1))"

end
