(* ===== verification/Protocols.thy ===== *)
theory Protocols
  imports HandleDb
begin

text \<open>
  The protocol services of \<open>hand/handle.c\<close> and \<open>hand/notify.c\<close>: installing, uninstalling and reinstalling
  an interface, opening and closing it, and the questions about who uses it. A pointer a service
  writes through is a further result, \<open>None\<close> when the service leaves it alone.
\<close>

abbreviation (input) EFI_OPEN_PROTOCOL_BY_HANDLE_PROTOCOL :: UINT32 where "EFI_OPEN_PROTOCOL_BY_HANDLE_PROTOCOL \<equiv> 0x01"
abbreviation (input) EFI_OPEN_PROTOCOL_GET_PROTOCOL :: UINT32 where "EFI_OPEN_PROTOCOL_GET_PROTOCOL \<equiv> 0x02"
abbreviation (input) EFI_OPEN_PROTOCOL_TEST_PROTOCOL :: UINT32 where "EFI_OPEN_PROTOCOL_TEST_PROTOCOL \<equiv> 0x04"
abbreviation (input) EFI_OPEN_PROTOCOL_BY_CHILD_CONTROLLER :: UINT32 where "EFI_OPEN_PROTOCOL_BY_CHILD_CONTROLLER \<equiv> 0x08"
abbreviation (input) EFI_OPEN_PROTOCOL_BY_DRIVER :: UINT32 where "EFI_OPEN_PROTOCOL_BY_DRIVER \<equiv> 0x10"
abbreviation (input) EFI_OPEN_PROTOCOL_EXCLUSIVE :: UINT32 where "EFI_OPEN_PROTOCOL_EXCLUSIVE \<equiv> 0x20"
abbreviation (input) EFI_NATIVE_INTERFACE :: int where "EFI_NATIVE_INTERFACE \<equiv> 0"

section \<open>Open lists\<close>

definition by_driver :: "UINTN \<times> OPEN_PROTOCOL_DATA \<Rightarrow> bool" where
  "by_driver x \<longleftrightarrow> ODAttributes (snd x) AND EFI_OPEN_PROTOCOL_BY_DRIVER \<noteq> 0"

definition by_lookup :: "UINTN \<times> OPEN_PROTOCOL_DATA \<Rightarrow> bool" where
  "by_lookup x \<longleftrightarrow>
     ODAttributes (snd x) AND (EFI_OPEN_PROTOCOL_BY_HANDLE_PROTOCOL OR EFI_OPEN_PROTOCOL_GET_PROTOCOL OR EFI_OPEN_PROTOCOL_TEST_PROTOCOL) \<noteq> 0"

text \<open>
  The two loops that start over after every change of the list: disconnecting the drivers of an
  interface, during which the database is unlocked, and removing open records.
\<close>

primrec disconnect_loop ::
  "'z handst EFI_BOOT_SERVICES \<Rightarrow> 'z hand_scheme mem_scheme notify_fn \<Rightarrow> nat \<Rightarrow> nat \<Rightarrow> UINTN \<Rightarrow> UINTN \<Rightarrow> 'z handst \<Rightarrow> (bool \<times> 'z handst) run"
where
  "disconnect_loop bs cb n 0 UserHandle p s = NoFuel"
| "disconnect_loop bs cb n (Suc k) UserHandle p s =
     (case Prots (db s) p of
        None \<Rightarrow> Fault
      | Some Prot \<Rightarrow>
          (case List.find by_driver (PIOpenList Prot) of
             None \<Rightarrow> Ret (True, s)
           | Some OpenData \<Rightarrow>
               bind_run (ReleaseLock cb n ProtocolDatabaseLock s) (\<lambda>s1.
               bind_run (BS_DisconnectController bs UserHandle (ODAgentHandle (snd OpenData)) 0 s1) (\<lambda>(Status, s2).
                 let s3 = AcquireLock ProtocolDatabaseLock s2
                 in if EFI_ERROR Status then Ret (False, s3) else disconnect_loop bs cb n k UserHandle p s3))))"

definition drop_open :: "UINTN \<Rightarrow> PROTOCOL_INTERFACE \<Rightarrow> PROTOCOL_INTERFACE" where
  "drop_open a Prot =
     Prot\<lparr>PIOpenList := filter (\<lambda>x. fst x \<noteq> a) (PIOpenList Prot), PIOpenListCount := PIOpenListCount Prot - 1\<rparr>"

primrec remove_opens ::
  "'z handst EFI_BOOT_SERVICES \<Rightarrow> (UINTN \<times> OPEN_PROTOCOL_DATA \<Rightarrow> bool) \<Rightarrow> nat \<Rightarrow> UINTN \<Rightarrow> 'z handst \<Rightarrow> (bool \<times> 'z handst) run"
where
  "remove_opens bs Q 0 p s = NoFuel"
| "remove_opens bs Q (Suc k) p s =
     (case Prots (db s) p of
        None \<Rightarrow> Fault
      | Some Prot \<Rightarrow>
          (case List.find Q (PIOpenList Prot) of
             None \<Rightarrow> Ret (False, s)
           | Some (a, OpenData) \<Rightarrow>
               bind_run (FreePool bs a (upd_db (upd_prot p (drop_open a)) s)) (\<lambda>s1.
               bind_run (remove_opens bs Q k p s1) (\<lambda>(_, s2). Ret (True, s2)))))"

definition DisconnectControllersUsingProtocolInterface ::
  "'z handst EFI_BOOT_SERVICES \<Rightarrow> 'z hand_scheme mem_scheme notify_fn \<Rightarrow> nat \<Rightarrow> UINTN \<Rightarrow> UINTN \<Rightarrow> 'z handst \<Rightarrow> (EFI_STATUS \<times> 'z handst) run"
where
  "DisconnectControllersUsingProtocolInterface bs cb n UserHandle p s =
     bind_run (disconnect_loop bs cb n n UserHandle p s) (\<lambda>(ok, s1).
       if \<not> ok then Ret (EFI_ACCESS_DENIED, s1)
       else bind_run (remove_opens bs by_lookup n p s1) (\<lambda>(_, s2).
         case Prots (db s2) p of
           None \<Rightarrow> Fault
         | Some Prot \<Rightarrow>
             if PIOpenListCount Prot > 0
             then bind_run (ReleaseLock cb n ProtocolDatabaseLock s2) (\<lambda>s3.
                  bind_run (BS_ConnectController bs UserHandle None None True s3) (\<lambda>(_, s4).
                    Ret (EFI_ACCESS_DENIED, AcquireLock ProtocolDatabaseLock s4)))
             else Ret (EFI_SUCCESS, s2)))"

section \<open>Opening\<close>

text \<open>
  The walk over the open list: it ends early on an exact match, which an opener by driver may not repeat and
  any other non-exclusive one counts; otherwise it tells whether there is a driver or an exclusive opener.
\<close>

definition exact_match :: "UINTN \<Rightarrow> UINTN \<Rightarrow> UINT32 \<Rightarrow> OPEN_PROTOCOL_DATA \<Rightarrow> bool" where
  "exact_match Agent Controller Attributes D \<longleftrightarrow>
     ODAgentHandle D = Agent \<and> ODAttributes D = Attributes \<and> ODControllerHandle D = Controller"

datatype open_scan = Scan_end bool bool | Scan_started | Scan_counted UINTN

fun scan_open :: "UINTN \<Rightarrow> UINTN \<Rightarrow> UINT32 \<Rightarrow> bool \<Rightarrow> bool \<Rightarrow> (UINTN \<times> OPEN_PROTOCOL_DATA) list \<Rightarrow> open_scan" where
  "scan_open Agent Controller Attributes ByDriver Exclusive [] = Scan_end ByDriver Exclusive"
| "scan_open Agent Controller Attributes ByDriver Exclusive ((a, D) # ds) =
     (let ExactMatch = exact_match Agent Controller Attributes D
      in if ODAttributes D AND EFI_OPEN_PROTOCOL_BY_DRIVER \<noteq> 0 \<and> ExactMatch then Scan_started
         else let ByDriver' = (ByDriver \<or> ODAttributes D AND EFI_OPEN_PROTOCOL_BY_DRIVER \<noteq> 0)
              in if ODAttributes D AND EFI_OPEN_PROTOCOL_EXCLUSIVE \<noteq> 0
                 then scan_open Agent Controller Attributes ByDriver' True ds
                 else if ExactMatch then Scan_counted a
                 else scan_open Agent Controller Attributes ByDriver' Exclusive ds)"

definition check_attributes :: "'z handst \<Rightarrow> UINTN \<Rightarrow> UINTN \<Rightarrow> UINTN \<Rightarrow> UINT32 \<Rightarrow> EFI_STATUS" where
  "check_attributes s UserHandle ImageHandle ControllerHandle Attributes =
     (if Attributes = EFI_OPEN_PROTOCOL_BY_CHILD_CONTROLLER
      then if EFI_ERROR (ValidateHandle s ImageHandle) then ValidateHandle s ImageHandle
           else if EFI_ERROR (ValidateHandle s ControllerHandle) then ValidateHandle s ControllerHandle
           else if UserHandle = ControllerHandle then EFI_INVALID_PARAMETER else EFI_SUCCESS
      else if Attributes = EFI_OPEN_PROTOCOL_BY_DRIVER \<or> Attributes = EFI_OPEN_PROTOCOL_BY_DRIVER OR EFI_OPEN_PROTOCOL_EXCLUSIVE
      then if EFI_ERROR (ValidateHandle s ImageHandle) then ValidateHandle s ImageHandle
           else if EFI_ERROR (ValidateHandle s ControllerHandle) then ValidateHandle s ControllerHandle else EFI_SUCCESS
      else if Attributes = EFI_OPEN_PROTOCOL_EXCLUSIVE
      then if EFI_ERROR (ValidateHandle s ImageHandle) then ValidateHandle s ImageHandle else EFI_SUCCESS
      else if Attributes = EFI_OPEN_PROTOCOL_BY_HANDLE_PROTOCOL \<or> Attributes = EFI_OPEN_PROTOCOL_GET_PROTOCOL \<or>
              Attributes = EFI_OPEN_PROTOCOL_TEST_PROTOCOL then EFI_SUCCESS
      else EFI_INVALID_PARAMETER)"

definition count_open :: "UINTN \<Rightarrow> PROTOCOL_INTERFACE \<Rightarrow> PROTOCOL_INTERFACE" where
  "count_open a Prot =
     Prot\<lparr>PIOpenList := map (\<lambda>(b, D). (b, if b = a then D\<lparr>ODOpenCount := ODOpenCount D + 1\<rparr> else D)) (PIOpenList Prot)\<rparr>"

definition add_open :: "UINTN \<Rightarrow> OPEN_PROTOCOL_DATA \<Rightarrow> PROTOCOL_INTERFACE \<Rightarrow> PROTOCOL_INTERFACE" where
  "add_open a D Prot = Prot\<lparr>PIOpenList := PIOpenList Prot @ [(a, D)], PIOpenListCount := PIOpenListCount Prot + 1\<rparr>"

text \<open>Recording a new opener, if there is one.\<close>

definition new_open ::
  "'z handst EFI_BOOT_SERVICES \<Rightarrow> UINTN \<Rightarrow> UINTN \<Rightarrow> UINTN \<Rightarrow> UINT32 \<Rightarrow> 'z handst \<Rightarrow> (EFI_STATUS \<times> 'z handst) run"
where
  "new_open bs p ImageHandle ControllerHandle Attributes s =
     (if ImageHandle = 0 then Ret (EFI_SUCCESS, s)
      else bind_run (BS_AllocatePool bs EfiBootServicesData sizeof_OPEN_PROTOCOL_DATA s) (\<lambda>(Status, a, s1).
        if EFI_ERROR Status then Ret (Status, s1)
        else case a of
               None \<Rightarrow> Fault
             | Some b \<Rightarrow>
                 if Prots (db s1) p = None then Fault
                 else Ret (EFI_SUCCESS, upd_db (upd_prot p (add_open b
                        \<lparr>ODAgentHandle = ImageHandle, ODControllerHandle = ControllerHandle,
                         ODAttributes = Attributes, ODOpenCount = 1\<rparr>)) s1)))"

text \<open>The part of \<open>OpenProtocol\<close> between taking and releasing the lock: the status and the interface.\<close>

definition open_body ::
  "'z handst EFI_BOOT_SERVICES \<Rightarrow> 'z hand_scheme mem_scheme notify_fn \<Rightarrow> nat \<Rightarrow> UINTN \<Rightarrow> EFI_GUID \<Rightarrow> UINTN \<Rightarrow> UINTN \<Rightarrow> UINT32
   \<Rightarrow> 'z handst \<Rightarrow> ((EFI_STATUS \<times> UINTN option) \<times> 'z handst) run"
where
  "open_body bs cb n UserHandle Protocol ImageHandle ControllerHandle Attributes s =
     bind_run (GetProtocolEntry (db s) UserHandle Protocol) (\<lambda>p.
       if p = 0 then Ret ((EFI_UNSUPPORTED, None), s)
       else case Prots (db s) p of
              None \<Rightarrow> Fault
            | Some Prot \<Rightarrow>
                let Interface = (if Attributes \<noteq> EFI_OPEN_PROTOCOL_TEST_PROTOCOL then Some (PIInterface Prot) else None)
                in case scan_open ImageHandle ControllerHandle Attributes False False (PIOpenList Prot) of
                     Scan_started \<Rightarrow> Ret ((EFI_ALREADY_STARTED, Interface), s)
                   | Scan_counted a \<Rightarrow> Ret ((EFI_SUCCESS, Interface), upd_db (upd_prot p (count_open a)) s)
                   | Scan_end ByDriver Exclusive \<Rightarrow>
                       bind_run
                         (if Attributes = EFI_OPEN_PROTOCOL_BY_DRIVER then Ret (\<not> (Exclusive \<or> ByDriver), s)
                          else if Attributes = EFI_OPEN_PROTOCOL_BY_DRIVER OR EFI_OPEN_PROTOCOL_EXCLUSIVE \<or>
                                  Attributes = EFI_OPEN_PROTOCOL_EXCLUSIVE
                          then if Exclusive then Ret (False, s)
                               else if ByDriver then disconnect_loop bs cb n n UserHandle p s
                               else Ret (True, s)
                          else Ret (True, s)) (\<lambda>(ok, s1).
                       if \<not> ok then Ret ((EFI_ACCESS_DENIED, Interface), s1)
                       else bind_run (new_open bs p ImageHandle ControllerHandle Attributes s1) (\<lambda>(Status, s2).
                              Ret ((Status, Interface), s2))))"

definition OpenProtocol ::
  "'z handst EFI_BOOT_SERVICES \<Rightarrow> 'z hand_scheme mem_scheme notify_fn \<Rightarrow> nat \<Rightarrow> UINTN \<Rightarrow> EFI_GUID option \<Rightarrow> bool \<Rightarrow> UINTN \<Rightarrow> UINTN \<Rightarrow> UINT32
   \<Rightarrow> 'z handst \<Rightarrow> (EFI_STATUS \<times> UINTN option \<times> 'z handst) run"
where
  "OpenProtocol bs cb n UserHandle Protocol Interface ImageHandle ControllerHandle Attributes s =
     (case Protocol of
        None \<Rightarrow> Ret (EFI_INVALID_PARAMETER, None, s)
      | Some g \<Rightarrow>
          if Attributes \<noteq> EFI_OPEN_PROTOCOL_TEST_PROTOCOL \<and> \<not> Interface then Ret (EFI_INVALID_PARAMETER, None, s)
          else if EFI_ERROR (ValidateHandle s UserHandle) then Ret (ValidateHandle s UserHandle, None, s)
          else let Check = check_attributes s UserHandle ImageHandle ControllerHandle Attributes
               in if EFI_ERROR Check then Ret (Check, None, s)
                  else bind_run (open_body bs cb n UserHandle g ImageHandle ControllerHandle Attributes
                                   (AcquireLock ProtocolDatabaseLock s)) (\<lambda>((Status, I), s1).
                       bind_run (ReleaseLock cb n ProtocolDatabaseLock s1) (\<lambda>s2. Ret (Status, I, s2))))"

definition HandleProtocol ::
  "'z handst EFI_BOOT_SERVICES \<Rightarrow> 'z hand_scheme mem_scheme notify_fn \<Rightarrow> nat \<Rightarrow> UINTN \<Rightarrow> EFI_GUID option \<Rightarrow> bool
   \<Rightarrow> 'z handst \<Rightarrow> (EFI_STATUS \<times> UINTN option \<times> 'z handst) run"
where
  "HandleProtocol bs cb n UserHandle Protocol Interface s =
     OpenProtocol bs cb n UserHandle Protocol Interface 0 0 EFI_OPEN_PROTOCOL_BY_HANDLE_PROTOCOL s"

definition opened_by :: "UINTN \<Rightarrow> UINTN \<Rightarrow> UINTN \<times> OPEN_PROTOCOL_DATA \<Rightarrow> bool" where
  "opened_by Agent Controller x \<longleftrightarrow> ODAgentHandle (snd x) = Agent \<and> ODControllerHandle (snd x) = Controller"

definition CloseProtocol ::
  "'z handst EFI_BOOT_SERVICES \<Rightarrow> 'z hand_scheme mem_scheme notify_fn \<Rightarrow> nat \<Rightarrow> UINTN \<Rightarrow> EFI_GUID option \<Rightarrow> UINTN \<Rightarrow> UINTN
   \<Rightarrow> 'z handst \<Rightarrow> (EFI_STATUS \<times> 'z handst) run"
where
  "CloseProtocol bs cb n UserHandle Protocol ImageHandle ControllerHandle s =
     (if EFI_ERROR (ValidateHandle s UserHandle) then Ret (ValidateHandle s UserHandle, s)
      else if EFI_ERROR (ValidateHandle s ImageHandle) then Ret (ValidateHandle s ImageHandle, s)
      else if ControllerHandle \<noteq> 0 \<and> EFI_ERROR (ValidateHandle s ControllerHandle) then Ret (ValidateHandle s ControllerHandle, s)
      else case Protocol of
             None \<Rightarrow> Ret (EFI_INVALID_PARAMETER, s)
           | Some g \<Rightarrow>
               let s1 = AcquireLock ProtocolDatabaseLock s
               in bind_run (GetProtocolEntry (db s1) UserHandle g) (\<lambda>p.
                  bind_run (if p = 0 then Ret (False, s1) else remove_opens bs (opened_by ImageHandle ControllerHandle) n p s1) (\<lambda>(removed, s2).
                  bind_run (ReleaseLock cb n ProtocolDatabaseLock s2) (\<lambda>s3.
                    Ret (if removed then EFI_SUCCESS else EFI_NOT_FOUND, s3)))))"

text \<open>The second result is the buffer, by address and content.\<close>

definition OpenProtocolInformation ::
  "'z handst EFI_BOOT_SERVICES \<Rightarrow> 'z hand_scheme mem_scheme notify_fn \<Rightarrow> nat \<Rightarrow> UINTN \<Rightarrow> EFI_GUID
   \<Rightarrow> 'z handst \<Rightarrow> (EFI_STATUS \<times> (UINTN \<times> OPEN_PROTOCOL_DATA list) option \<times> 'z handst) run"
where
  "OpenProtocolInformation bs cb n UserHandle Protocol s =
     (let s1 = AcquireLock ProtocolDatabaseLock s
      in bind_run (GetProtocolEntry (db s1) UserHandle Protocol) (\<lambda>p.
         bind_run
           (if p = 0 then Ret ((EFI_NOT_FOUND, None), s1)
            else case Prots (db s1) p of
                   None \<Rightarrow> Fault
                 | Some Prot \<Rightarrow>
                     let Count = length (PIOpenList Prot);
                         Size = (if Count = 0 then sizeof_OPEN_PROTOCOL_INFORMATION_ENTRY
                                 else of_nat Count * sizeof_OPEN_PROTOCOL_INFORMATION_ENTRY)
                     in bind_run (BS_AllocatePool bs EfiBootServicesData Size s1) (\<lambda>(Status, Buffer, s2).
                          if EFI_ERROR Status then Ret ((EFI_OUT_OF_RESOURCES, None), s2)
                          else case Buffer of
                                 None \<Rightarrow> Fault
                               | Some b \<Rightarrow> Ret ((Status, Some (b, map snd (PIOpenList Prot))), s2))) (\<lambda>((Status, Buffer), s2).
         bind_run (ReleaseLock cb n ProtocolDatabaseLock s2) (\<lambda>s3. Ret (Status, Buffer, s3)))))"

definition ProtocolsPerHandle ::
  "'z handst EFI_BOOT_SERVICES \<Rightarrow> UINTN \<Rightarrow> bool \<Rightarrow> bool \<Rightarrow> 'z handst \<Rightarrow> (EFI_STATUS \<times> (UINTN \<times> UINTN list) option \<times> 'z handst) run"
where
  "ProtocolsPerHandle bs UserHandle ProtocolBuffer ProtocolBufferCount s =
     (case (if UserHandle = 0 then None else Handles (db s) UserHandle) of
        None \<Rightarrow> Ret (EFI_INVALID_PARAMETER, None, s)
      | Some Handle \<Rightarrow>
          if \<not> ProtocolBuffer \<or> \<not> ProtocolBufferCount then Ret (EFI_INVALID_PARAMETER, None, s)
          else if IHProtocols Handle = [] then Ret (EFI_INVALID_PARAMETER, None, s)
          else bind_run (BS_AllocatePool bs EfiBootServicesData (8 * of_nat (length (IHProtocols Handle))) s) (\<lambda>(Status, Buffer, s1).
                 if EFI_ERROR Status then Ret (Status, None, s1)
                 else case Buffer of
                        None \<Rightarrow> Fault
                      | Some b \<Rightarrow>
                          if list_all (\<lambda>p. Prots (db s1) p \<noteq> None) (IHProtocols Handle)
                          then Ret (Status, Some (b, map (\<lambda>p. case Prots (db s1) p of None \<Rightarrow> 0 | Some Prot \<Rightarrow> PIProtocol Prot) (IHProtocols Handle)), s1)
                          else Fault))"

section \<open>Installing\<close>

definition new_handle :: "UINTN \<Rightarrow> 'z hand_scheme \<Rightarrow> 'z hand_scheme" where
  "new_handle a h =
     (let h1 = h\<lparr>HandleDatabaseKey := HandleDatabaseKey h + 1\<rparr>
      in h1\<lparr>Handles := (Handles h1)(a \<mapsto> \<lparr>IHProtocols = [], IHLocateRequest = 0, IHKey = HandleDatabaseKey h1\<rparr>),
            HandleList := HandleList h1 @ [a]\<rparr>)"

definition link_prot :: "UINTN \<Rightarrow> UINTN \<Rightarrow> UINTN \<Rightarrow> UINTN \<Rightarrow> 'z hand_scheme \<Rightarrow> 'z hand_scheme" where
  "link_prot p Handle e Interface h =
     upd_entry_rec e (\<lambda>E. E\<lparr>PEProtocols := PEProtocols E @ [p]\<rparr>)
       (upd_handle Handle (\<lambda>H. H\<lparr>IHProtocols := p # IHProtocols H\<rparr>)
         (h\<lparr>Prots := (Prots h)(p \<mapsto> \<lparr>PIHandle = Handle, PIProtocol = e, PIInterface = Interface, PIOpenList = [], PIOpenListCount = 0\<rparr>)\<rparr>))"

text \<open>
  Between taking and releasing the lock. The results are the status, which starts as \<open>Status0\<close>, the
  interface record to be freed on an error (0 if none) and the handle.
\<close>

definition install_body ::
  "'z handst EFI_BOOT_SERVICES \<Rightarrow> 'z hand_scheme mem_scheme notify_fn \<Rightarrow> nat \<Rightarrow> EFI_STATUS \<Rightarrow> UINTN \<Rightarrow> EFI_GUID \<Rightarrow> UINTN
   \<Rightarrow> 'z handst \<Rightarrow> ((EFI_STATUS \<times> UINTN \<times> UINTN) \<times> 'z handst) run"
where
  "install_body bs cb n Status0 UserHandle Protocol Interface s =
     bind_run (FindProtocolEntry bs Protocol True s) (\<lambda>(e, s1).
       if e = 0 then Ret ((Status0, 0, 0), s1)
       else bind_run (AllocatePool bs sizeof_PROTOCOL_INTERFACE s1) (\<lambda>(p, s2).
         if p = 0 then Ret ((Status0, 0, 0), s2)
         else bind_run (if UserHandle \<noteq> 0 then Ret (UserHandle, s2)
                        else bind_run (AllocatePool bs sizeof_IHANDLE s2) (\<lambda>(a, s3).
                               Ret (a, if a \<noteq> 0 then upd_db (new_handle a) s3 else s3))) (\<lambda>(Handle, s3).
           if Handle = 0 then Ret ((Status0, p, 0), s3)
           else if Handles (db s3) Handle = None then Ret ((EFI_INVALID_PARAMETER, p, Handle), s3)
           else bind_run (NotifyProtocolEntry cb n e (upd_db (link_prot p Handle e Interface) s3)) (\<lambda>s4.
                  Ret ((EFI_SUCCESS, p, Handle), s4)))))"

text \<open>The second result is the value of \<open>*UserHandle\<close> afterwards; a \<open>NULL\<close> pointer is \<open>None\<close>.\<close>

definition InstallProtocolInterface ::
  "'z handst EFI_BOOT_SERVICES \<Rightarrow> 'z hand_scheme mem_scheme notify_fn \<Rightarrow> nat \<Rightarrow> UINTN option \<Rightarrow> EFI_GUID option \<Rightarrow> int \<Rightarrow> UINTN
   \<Rightarrow> 'z handst \<Rightarrow> (EFI_STATUS \<times> UINTN option \<times> 'z handst) run"
where
  "InstallProtocolInterface bs cb n UserHandle Protocol InterfaceType Interface s =
     (case (UserHandle, Protocol) of
        (Some uh, Some g) \<Rightarrow>
          if InterfaceType \<noteq> EFI_NATIVE_INTERFACE then Ret (EFI_INVALID_PARAMETER, UserHandle, s)
          else bind_run (if uh \<noteq> 0 then bind_run (HandleProtocol bs cb n uh Protocol True s) (\<lambda>(Status, _, s1). Ret (Status, s1))
                         else Ret (EFI_OUT_OF_RESOURCES, s)) (\<lambda>(Status0, s1).
            if uh \<noteq> 0 \<and> \<not> EFI_ERROR Status0 then Ret (EFI_INVALID_PARAMETER, UserHandle, s1)
            else bind_run (install_body bs cb n Status0 uh g Interface (AcquireLock ProtocolDatabaseLock s1)) (\<lambda>((Status, p, Handle), s2).
                 bind_run (ReleaseLock cb n ProtocolDatabaseLock s2) (\<lambda>s3.
                   if \<not> EFI_ERROR Status then Ret (Status, Some Handle, s3)
                   else if p \<noteq> 0 then bind_run (FreePool bs p s3) (\<lambda>s4. Ret (Status, UserHandle, s4))
                   else Ret (Status, UserHandle, s3))))
      | _ \<Rightarrow> Ret (EFI_INVALID_PARAMETER, UserHandle, s))"

section \<open>Uninstalling and reinstalling\<close>

definition touch :: "UINTN \<Rightarrow> 'z hand_scheme \<Rightarrow> 'z hand_scheme" where
  "touch a h =
     (let h1 = h\<lparr>HandleDatabaseKey := HandleDatabaseKey h + 1\<rparr> in upd_handle a (\<lambda>H. H\<lparr>IHKey := HandleDatabaseKey h1\<rparr>) h1)"

definition unlink_prot :: "UINTN \<Rightarrow> UINTN \<Rightarrow> 'z hand_scheme \<Rightarrow> 'z hand_scheme" where
  "unlink_prot p Handle h =
     (upd_handle Handle (\<lambda>H. H\<lparr>IHProtocols := remove1 p (IHProtocols H)\<rparr>) h)\<lparr>Prots := (Prots h)(p := None)\<rparr>"

definition drop_handle :: "UINTN \<Rightarrow> 'z hand_scheme \<Rightarrow> 'z hand_scheme" where
  "drop_handle a h = h\<lparr>Handles := (Handles h)(a := None), HandleList := remove1 a (HandleList h)\<rparr>"

definition uninstall_body ::
  "'z handst EFI_BOOT_SERVICES \<Rightarrow> 'z hand_scheme mem_scheme notify_fn \<Rightarrow> nat \<Rightarrow> UINTN \<Rightarrow> EFI_GUID \<Rightarrow> UINTN
   \<Rightarrow> 'z handst \<Rightarrow> (EFI_STATUS \<times> 'z handst) run"
where
  "uninstall_body bs cb n Handle Protocol Interface s =
     bind_run (FindProtocolInterface (db s) Handle Protocol Interface) (\<lambda>p.
       if p = 0 then Ret (EFI_NOT_FOUND, s)
       else bind_run (DisconnectControllersUsingProtocolInterface bs cb n Handle p s) (\<lambda>(Status, s1).
         if EFI_ERROR Status then Ret (Status, s1)
         else bind_run (RemoveInterfaceFromProtocol Handle Protocol Interface s1) (\<lambda>(p2, s2).
           if Handles (db s2) Handle = None then Fault
           else let s3 = upd_db (touch Handle) s2
             in bind_run (if p2 = 0 then Ret (EFI_NOT_FOUND, s3)
                          else bind_run (FreePool bs p2 (upd_db (unlink_prot p2 Handle) s3)) (\<lambda>s4. Ret (EFI_SUCCESS, s4))) (\<lambda>(Status2, s4).
                case Handles (db s4) Handle of
                  None \<Rightarrow> Fault
                | Some H \<Rightarrow>
                    if IHProtocols H = []
                    then bind_run (FreePool bs Handle (upd_db (drop_handle Handle) s4)) (\<lambda>s5. Ret (Status2, s5))
                    else Ret (Status2, s4)))))"

definition UninstallProtocolInterface ::
  "'z handst EFI_BOOT_SERVICES \<Rightarrow> 'z hand_scheme mem_scheme notify_fn \<Rightarrow> nat \<Rightarrow> UINTN \<Rightarrow> EFI_GUID option \<Rightarrow> UINTN
   \<Rightarrow> 'z handst \<Rightarrow> (EFI_STATUS \<times> 'z handst) run"
where
  "UninstallProtocolInterface bs cb n UserHandle Protocol Interface s =
     (case Protocol of
        None \<Rightarrow> Ret (EFI_INVALID_PARAMETER, s)
      | Some g \<Rightarrow>
          if EFI_ERROR (ValidateHandle s UserHandle) then Ret (ValidateHandle s UserHandle, s)
          else bind_run (uninstall_body bs cb n UserHandle g Interface (AcquireLock ProtocolDatabaseLock s)) (\<lambda>(Status, s1).
               bind_run (ReleaseLock cb n ProtocolDatabaseLock s1) (\<lambda>s2. Ret (Status, s2))))"

definition reattach :: "UINTN \<Rightarrow> UINTN \<Rightarrow> UINTN \<Rightarrow> 'z hand_scheme \<Rightarrow> 'z hand_scheme" where
  "reattach p e NewInterface h =
     upd_entry_rec e (\<lambda>E. E\<lparr>PEProtocols := PEProtocols E @ [p]\<rparr>) (upd_prot p (\<lambda>Prot. Prot\<lparr>PIInterface := NewInterface\<rparr>) h)"

definition reinstall_body ::
  "'z handst EFI_BOOT_SERVICES \<Rightarrow> 'z hand_scheme mem_scheme notify_fn \<Rightarrow> nat \<Rightarrow> UINTN \<Rightarrow> EFI_GUID \<Rightarrow> UINTN \<Rightarrow> UINTN
   \<Rightarrow> 'z handst \<Rightarrow> (EFI_STATUS \<times> 'z handst) run"
where
  "reinstall_body bs cb n Handle Protocol OldInterface NewInterface s =
     bind_run (FindProtocolInterface (db s) Handle Protocol OldInterface) (\<lambda>p.
       if p = 0 then Ret (EFI_NOT_FOUND, s)
       else bind_run (DisconnectControllersUsingProtocolInterface bs cb n Handle p s) (\<lambda>(Status, s1).
         if EFI_ERROR Status
         then bind_run (ReleaseLock cb n ProtocolDatabaseLock s1) (\<lambda>s2.
              bind_run (BS_ConnectController bs Handle None None True s2) (\<lambda>(_, s3). Ret (Status, AcquireLock ProtocolDatabaseLock s3)))
         else bind_run (RemoveInterfaceFromProtocol Handle Protocol OldInterface s1) (\<lambda>(p2, s2).
           if Handles (db s2) Handle = None then Fault
           else let s3 = upd_db (touch Handle) s2
             in if p2 = 0 then Ret (EFI_NOT_FOUND, s3)
                else case Prots (db s3) p2 of
                       None \<Rightarrow> Fault
                     | Some Prot \<Rightarrow>
                         bind_run (ReleaseLock cb n ProtocolDatabaseLock (upd_db (reattach p2 (PIProtocol Prot) NewInterface) s3)) (\<lambda>s4.
                         bind_run (BS_ConnectController bs Handle None None True s4) (\<lambda>(_, s5).
                         bind_run (NotifyProtocolEntry cb n (PIProtocol Prot) (AcquireLock ProtocolDatabaseLock s5)) (\<lambda>s6.
                           Ret (EFI_SUCCESS, s6)))))))"

definition ReinstallProtocolInterface ::
  "'z handst EFI_BOOT_SERVICES \<Rightarrow> 'z hand_scheme mem_scheme notify_fn \<Rightarrow> nat \<Rightarrow> UINTN \<Rightarrow> EFI_GUID option \<Rightarrow> UINTN \<Rightarrow> UINTN
   \<Rightarrow> 'z handst \<Rightarrow> (EFI_STATUS \<times> 'z handst) run"
where
  "ReinstallProtocolInterface bs cb n UserHandle Protocol OldInterface NewInterface s =
     (if EFI_ERROR (ValidateHandle s UserHandle) then Ret (EFI_INVALID_PARAMETER, s)
      else case Protocol of
             None \<Rightarrow> Ret (EFI_INVALID_PARAMETER, s)
           | Some g \<Rightarrow>
               bind_run (reinstall_body bs cb n UserHandle g OldInterface NewInterface (AcquireLock ProtocolDatabaseLock s)) (\<lambda>(Status, s1).
               bind_run (ReleaseLock cb n ProtocolDatabaseLock s1) (\<lambda>s2. Ret (Status, s2))))"

definition CoreGetHandleDatabaseKey :: "'z handst \<Rightarrow> UINT64" where
  "CoreGetHandleDatabaseKey s = HandleDatabaseKey (db s)"

text \<open>Connecting the handles that are newer than a key, in the order of the handle list.\<close>

primrec connect_handles :: "'s EFI_BOOT_SERVICES \<Rightarrow> UINTN list \<Rightarrow> 's \<Rightarrow> 's run" where
  "connect_handles bs [] s = Ret s"
| "connect_handles bs (a # as) s = bind_run (BS_ConnectController bs a None None True s) (\<lambda>(_, s1). connect_handles bs as s1)"

definition newer :: "'z hand_scheme \<Rightarrow> UINT64 \<Rightarrow> UINTN \<Rightarrow> bool" where
  "newer h Key a = (case Handles h a of None \<Rightarrow> False | Some Handle \<Rightarrow> IHKey Handle > Key)"

definition CoreConnectHandlesByKey ::
  "'z handst EFI_BOOT_SERVICES \<Rightarrow> 'z hand_scheme mem_scheme notify_fn \<Rightarrow> nat \<Rightarrow> UINT64 \<Rightarrow> 'z handst \<Rightarrow> 'z handst run"
where
  "CoreConnectHandlesByKey bs cb n Key s =
     (let s1 = AcquireLock ProtocolDatabaseLock s;
          Count = length (filter (newer (db s1) Key) (HandleList (db s1)))
      in if Count = 0 then ReleaseLock cb n ProtocolDatabaseLock s1
         else bind_run (BS_AllocatePool bs EfiBootServicesData (of_nat Count * 8) s1) (\<lambda>(Status, Buffer, s2).
                if EFI_ERROR Status then ReleaseLock cb n ProtocolDatabaseLock s2
                else case Buffer of
                       None \<Rightarrow> Fault
                     | Some HandleBuffer \<Rightarrow>
                         let hs = filter (newer (db s2) Key) (HandleList (db s2))
                         in bind_run (ReleaseLock cb n ProtocolDatabaseLock s2) (\<lambda>s3.
                            bind_run (connect_handles bs hs s3) (\<lambda>s4. FreePool bs HandleBuffer s4))))"

end
