(* ===== verification/HandleInv.thy ===== *)
theory HandleInv
  imports Protocols
begin

text \<open>
  The invariant of the handle database and its preservation by each change of the database: the lists
  and the back pointers agree, every address is that of one record, open lists are counted and have at
  most one driver.
\<close>

section \<open>Identifiers\<close>

lemma or_fold_0: "fold (OR) ds (a :: 32 word) = 0 \<longleftrightarrow> a = 0 \<and> (\<forall>d\<in>set ds. d = 0)"
proof (induction ds arbitrary: a)
  case (Cons d ds)
  then show ?case using Cons [of "d OR a"] by (auto simp: or_eq_0_iff)
qed simp

lemma int_to_UINTN_0: "int_to_UINTN w = 0 \<longleftrightarrow> w = 0"
proof
  assume "int_to_UINTN w = 0"
  then have b: "bit (scast w :: UINTN) i = False" for i by (simp add: int_to_UINTN_def)
  have "\<not> bit w i" if "i < 32" for i using b [of i] that by (cases "i = 31") (auto simp: bit_simps min_def split: if_splits)
  then show "w = 0" by (intro bit_word_eqI) simp
qed (simp add: int_to_UINTN_def)

lemma halves_eq:
  fixes a b c d :: UINT16
  assumes "(ucast a OR push_bit 16 (ucast b) :: UINT32) = ucast c OR push_bit 16 (ucast d)"
  shows "a = c" "b = d"
proof -
  have *: "bit (ucast a OR push_bit 16 (ucast b) :: UINT32) i = bit (ucast c OR push_bit 16 (ucast d) :: UINT32) i" for i
    using assms by simp
  have "bit a i = bit c i" if "i < 16" for i using * [of i] that by (auto simp: bit_simps)
  then show "a = c" by (intro bit_word_eqI) simp
  have "bit b i = bit d i" if "i < 16" for i using * [of "i + 16"] that by (auto simp: bit_simps dest: bit_imp_le_length)
  then show "b = d" by (intro bit_word_eqI) simp
qed

lemma long_eq:
  fixes a b :: UINT64
  assumes "(ucast a :: UINT32) = ucast b" "(ucast (drop_bit 32 a) :: UINT32) = ucast (drop_bit 32 b)"
  shows "a = b"
proof (rule bit_word_eqI)
  fix i assume i: "i < LENGTH(64)"
  have "bit (ucast a :: UINT32) i = bit (ucast b :: UINT32) i"
    "bit (ucast (drop_bit 32 a) :: UINT32) (i - 32) = bit (ucast (drop_bit 32 b) :: UINT32) (i - 32)" using assms by simp_all
  then show "bit a i = bit b i" using i by (cases "i < 32") (auto simp: bit_simps)
qed

lemma CompareGuid_0 [simp]: "CompareGuid g1 g2 = 0 \<longleftrightarrow> g1 = g2"
proof
  assume "CompareGuid g1 g2 = 0"
  then have "Data1 g1 = Data1 g2"
    "ucast (Data2 g1) OR push_bit 16 (ucast (Data3 g1)) = (ucast (Data2 g2) OR push_bit 16 (ucast (Data3 g2)) :: UINT32)"
    "(ucast (Data4 g1) :: UINT32) = ucast (Data4 g2)" "(ucast (drop_bit 32 (Data4 g1)) :: UINT32) = ucast (drop_bit 32 (Data4 g2))"
    unfolding CompareGuid_def int_to_UINTN_0 or_fold_0 guid_words_def by simp_all
  then show "g1 = g2" using halves_eq long_eq by (intro EFI_GUID.equality) auto
qed (simp add: CompareGuid_def guid_words_def int_to_UINTN_def)

lemma has_id_eq: "has_id h g a \<longleftrightarrow> (\<exists>E. Entries h a = Some E \<and> PEProtocolID E = g)"
  by (auto simp: has_id_def split: option.splits)

section \<open>The invariant\<close>

definition record_ok :: "UINTN \<Rightarrow> PROTOCOL_INTERFACE \<Rightarrow> bool" where
  "record_ok p X \<longleftrightarrow> p \<noteq> 0 \<and> PIOpenListCount X = of_nat (length (PIOpenList X)) \<and>
     distinct (map fst (PIOpenList X)) \<and> length (filter by_driver (PIOpenList X)) \<le> 1"

definition opens_ok :: "(UINTN \<rightharpoonup> PROTOCOL_INTERFACE) \<Rightarrow> bool" where
  "opens_ok P \<longleftrightarrow>
     (\<forall>p X. P p = Some X \<longrightarrow> record_ok p X) \<and>
     (\<forall>p X q Y a. P p = Some X \<and> P q = Some Y \<and> a \<in> fst ` set (PIOpenList X) \<and> a \<in> fst ` set (PIOpenList Y) \<longrightarrow> p = q)"

lemma opens_okI:
  assumes "\<And>p X. P p = Some X \<Longrightarrow> record_ok p X"
    and "\<And>p X q Y a. P p = Some X \<Longrightarrow> P q = Some Y \<Longrightarrow> a \<in> fst ` set (PIOpenList X) \<Longrightarrow> a \<in> fst ` set (PIOpenList Y) \<Longrightarrow> p = q"
  shows "opens_ok P"
  unfolding opens_ok_def using assms by blast

lemma opens_okD:
  assumes "opens_ok P" and "P p = Some X"
  shows "record_ok p X" and "P q = Some Y \<Longrightarrow> a \<in> fst ` set (PIOpenList X) \<Longrightarrow> a \<in> fst ` set (PIOpenList Y) \<Longrightarrow> p = q"
  using assms unfolding opens_ok_def by blast+

definition handles_ok :: "UINTN list \<Rightarrow> (UINTN \<rightharpoonup> IHANDLE) \<Rightarrow> (UINTN \<rightharpoonup> PROTOCOL_INTERFACE) \<Rightarrow> bool" where
  "handles_ok L H P \<longleftrightarrow> distinct L \<and> set L = dom H \<and>
     (\<forall>a X. H a = Some X \<longrightarrow> a \<noteq> 0 \<and> distinct (IHProtocols X) \<and>
        (\<forall>p. p \<in> set (IHProtocols X) \<longleftrightarrow> (\<exists>Y. P p = Some Y \<and> PIHandle Y = a))) \<and>
     (\<forall>p Y. P p = Some Y \<longrightarrow> H (PIHandle Y) \<noteq> None)"

definition entries_ok :: "UINTN list \<Rightarrow> (UINTN \<rightharpoonup> PROTOCOL_ENTRY) \<Rightarrow> (UINTN \<rightharpoonup> PROTOCOL_INTERFACE) \<Rightarrow> bool" where
  "entries_ok L E P \<longleftrightarrow> distinct L \<and> set L = dom E \<and>
     (\<forall>a b X Y. E a = Some X \<and> E b = Some Y \<and> PEProtocolID X = PEProtocolID Y \<longrightarrow> a = b) \<and>
     (\<forall>a X. E a = Some X \<longrightarrow> a \<noteq> 0 \<and> distinct (PEProtocols X) \<and>
        (\<forall>p. p \<in> set (PEProtocols X) \<longleftrightarrow> (\<exists>Y. P p = Some Y \<and> PIProtocol Y = a))) \<and>
     (\<forall>p Y. P p = Some Y \<longrightarrow> E (PIProtocol Y) \<noteq> None)"

definition notifies_ok :: "(UINTN \<rightharpoonup> PROTOCOL_ENTRY) \<Rightarrow> (UINTN \<rightharpoonup> PROTOCOL_INTERFACE) \<Rightarrow> (UINTN \<rightharpoonup> PROTOCOL_NOTIFY) \<Rightarrow> bool" where
  "notifies_ok E P N \<longleftrightarrow>
     (\<forall>a X. E a = Some X \<longrightarrow> distinct (PENotify X) \<and>
        (\<forall>c. c \<in> set (PENotify X) \<longleftrightarrow> (\<exists>Y. N c = Some Y \<and> PNProtocol Y = a))) \<and>
     (\<forall>c Y. N c = Some Y \<longrightarrow> c \<noteq> 0 \<and> E (PNProtocol Y) \<noteq> None \<and>
        (\<forall>p. PNPosition Y = AtProt p \<longrightarrow> (\<exists>Z. P p = Some Z \<and> PIProtocol Z = PNProtocol Y)))"

text \<open>The addresses of the open records; every address is that of one record only.\<close>

definition open_addrs :: "(UINTN \<rightharpoonup> PROTOCOL_INTERFACE) \<Rightarrow> UINTN set" where
  "open_addrs P = {a. \<exists>p X. P p = Some X \<and> a \<in> fst ` set (PIOpenList X)}"

definition addrs_apart :: "'z hand_scheme \<Rightarrow> bool" where
  "addrs_apart h \<longleftrightarrow>
     dom (Handles h) \<inter> (dom (Prots h) \<union> dom (Entries h) \<union> dom (Notifies h) \<union> open_addrs (Prots h)) = {} \<and>
     dom (Prots h) \<inter> (dom (Entries h) \<union> dom (Notifies h) \<union> open_addrs (Prots h)) = {} \<and>
     dom (Entries h) \<inter> (dom (Notifies h) \<union> open_addrs (Prots h)) = {} \<and>
     dom (Notifies h) \<inter> open_addrs (Prots h) = {}"

definition live :: "'z hand_scheme \<Rightarrow> UINTN set" where
  "live h = dom (Handles h) \<union> dom (Prots h) \<union> dom (Entries h) \<union> dom (Notifies h) \<union> open_addrs (Prots h)"

definition hand_inv :: "'z hand_scheme \<Rightarrow> bool" where
  "hand_inv h \<longleftrightarrow>
     handles_ok (HandleList h) (Handles h) (Prots h) \<and> entries_ok (ProtocolDatabase h) (Entries h) (Prots h) \<and>
     notifies_ok (Entries h) (Prots h) (Notifies h) \<and> opens_ok (Prots h) \<and> addrs_apart h"

lemma handles_okD:
  assumes "handles_ok L H P"
  shows "distinct L" "set L = dom H"
    and "H a = Some X \<Longrightarrow> a \<noteq> 0" "H a = Some X \<Longrightarrow> distinct (IHProtocols X)"
    and "H a = Some X \<Longrightarrow> p \<in> set (IHProtocols X) \<longleftrightarrow> (\<exists>Y. P p = Some Y \<and> PIHandle Y = a)"
    and "P p = Some Y \<Longrightarrow> \<exists>X. H (PIHandle Y) = Some X \<and> p \<in> set (IHProtocols X)"
  using assms unfolding handles_ok_def by blast+

lemma entries_okD:
  assumes "entries_ok L E P"
  shows "distinct L" "set L = dom E"
    and "E a = Some X \<Longrightarrow> a \<noteq> 0" "E a = Some X \<Longrightarrow> distinct (PEProtocols X)"
    and "E a = Some X \<Longrightarrow> p \<in> set (PEProtocols X) \<longleftrightarrow> (\<exists>Y. P p = Some Y \<and> PIProtocol Y = a)"
    and "P p = Some Y \<Longrightarrow> \<exists>X. E (PIProtocol Y) = Some X \<and> p \<in> set (PEProtocols X)"
    and "E a = Some X \<Longrightarrow> E b = Some Z \<Longrightarrow> PEProtocolID X = PEProtocolID Z \<Longrightarrow> a = b"
  using assms unfolding entries_ok_def by blast+

lemma notifies_okD:
  assumes "notifies_ok E P N"
  shows "E a = Some X \<Longrightarrow> distinct (PENotify X)"
    and "E a = Some X \<Longrightarrow> c \<in> set (PENotify X) \<longleftrightarrow> (\<exists>Y. N c = Some Y \<and> PNProtocol Y = a)"
    and "N c = Some Y \<Longrightarrow> c \<noteq> 0" "N c = Some Y \<Longrightarrow> \<exists>X. E (PNProtocol Y) = Some X \<and> c \<in> set (PENotify X)"
    and "N c = Some Y \<Longrightarrow> PNPosition Y = AtProt p \<Longrightarrow> \<exists>Z. P p = Some Z \<and> PIProtocol Z = PNProtocol Y"
  using assms unfolding notifies_ok_def by blast+

lemma hand_invD:
  assumes "hand_inv h"
  shows "handles_ok (HandleList h) (Handles h) (Prots h)" "entries_ok (ProtocolDatabase h) (Entries h) (Prots h)"
    "notifies_ok (Entries h) (Prots h) (Notifies h)" "opens_ok (Prots h)" "addrs_apart h"
  using assms by (simp_all add: hand_inv_def)

lemma upd_fields [simp]:
  "Handles (upd_handle a f h) = (Handles h)(a := map_option f (Handles h a))" "HandleList (upd_handle a f h) = HandleList h"
  "Prots (upd_handle a f h) = Prots h" "Entries (upd_handle a f h) = Entries h" "ProtocolDatabase (upd_handle a f h) = ProtocolDatabase h"
  "Notifies (upd_handle a f h) = Notifies h" "HandleDatabaseKey (upd_handle a f h) = HandleDatabaseKey h"
  "Handles (upd_entry_rec a g h) = Handles h" "HandleList (upd_entry_rec a g h) = HandleList h"
  "Prots (upd_entry_rec a g h) = Prots h" "Entries (upd_entry_rec a g h) = (Entries h)(a := map_option g (Entries h a))"
  "ProtocolDatabase (upd_entry_rec a g h) = ProtocolDatabase h" "Notifies (upd_entry_rec a g h) = Notifies h"
  "HandleDatabaseKey (upd_entry_rec a g h) = HandleDatabaseKey h"
  "Handles (upd_prot a k h) = Handles h" "HandleList (upd_prot a k h) = HandleList h"
  "Prots (upd_prot a k h) = (Prots h)(a := map_option k (Prots h a))" "Entries (upd_prot a k h) = Entries h"
  "ProtocolDatabase (upd_prot a k h) = ProtocolDatabase h" "Notifies (upd_prot a k h) = Notifies h"
  "HandleDatabaseKey (upd_prot a k h) = HandleDatabaseKey h"
  by (simp_all add: upd_handle_def upd_entry_rec_def upd_prot_def)

section \<open>New records\<close>

lemma new_entry_inv:
  assumes inv: "hand_inv h" and e: "e \<notin> live h" "e \<noteq> 0" and new: "\<forall>a. \<not> has_id h g a"
  shows "hand_inv (new_entry e g h)" "live (new_entry e g h) = insert e (live h)"
proof -
  have e': "Entries h e = None" "Prots h e = None" "Handles h e = None" "Notifies h e = None" "e \<notin> open_addrs (Prots h)"
    using e(1) by (auto simp: live_def dom_def)
  have p: "Prots h p = Some Y \<Longrightarrow> PIProtocol Y \<noteq> e" "Notifies h c = Some Z \<Longrightarrow> PNProtocol Z \<noteq> e" for p Y c Z
    using hand_invD(2,3) [OF inv] e'(1) unfolding entries_ok_def notifies_ok_def by metis+
  have "handles_ok (HandleList h) (Handles h) (Prots h)" "opens_ok (Prots h)" by (fact hand_invD [OF inv])+
  moreover have "entries_ok (ProtocolDatabase h @ [e]) ((Entries h)(e \<mapsto> \<lparr>PEProtocolID = g, PEProtocols = [], PENotify = []\<rparr>)) (Prots h)"
    using hand_invD(2) [OF inv] e'(1) e(2) p(1) new unfolding entries_ok_def has_id_eq by auto
  moreover have "notifies_ok ((Entries h)(e \<mapsto> \<lparr>PEProtocolID = g, PEProtocols = [], PENotify = []\<rparr>)) (Prots h) (Notifies h)"
    using hand_invD(3) [OF inv] e' p(2) unfolding notifies_ok_def by auto
  moreover have "addrs_apart (new_entry e g h)" using hand_invD(5) [OF inv] e' by (auto simp: addrs_apart_def new_entry_def)
  ultimately show "hand_inv (new_entry e g h)" by (simp add: hand_inv_def new_entry_def)
  show "live (new_entry e g h) = insert e (live h)" by (auto simp: live_def new_entry_def)
qed

lemma new_handle_inv:
  assumes inv: "hand_inv h" and a: "a \<notin> live h" "a \<noteq> 0"
  shows "hand_inv (new_handle a h)" "live (new_handle a h) = insert a (live h)"
proof -
  have a': "Entries h a = None" "Prots h a = None" "Handles h a = None" "Notifies h a = None" "a \<notin> open_addrs (Prots h)"
    using a(1) by (auto simp: live_def dom_def)
  have p: "Prots h p = Some Y \<Longrightarrow> PIHandle Y \<noteq> a" for p Y using hand_invD(1) [OF inv] a'(3) unfolding handles_ok_def by metis
  have "handles_ok (HandleList h @ [a]) ((Handles h)(a \<mapsto> \<lparr>IHProtocols = [], IHLocateRequest = 0, IHKey = k\<rparr>)) (Prots h)" for k
    using hand_invD(1) [OF inv] a'(3) a(2) p unfolding handles_ok_def by auto
  moreover have "addrs_apart (new_handle a h)" using hand_invD(5) [OF inv] a' by (auto simp: addrs_apart_def new_handle_def)
  ultimately show "hand_inv (new_handle a h)" using hand_invD [OF inv] by (simp add: hand_inv_def new_handle_def Let_def)
  show "live (new_handle a h) = insert a (live h)" by (auto simp: live_def new_handle_def)
qed

lemma open_addrs_upd:
  "open_addrs (P(p \<mapsto> X)) = (if PIOpenList X = [] then {} else fst ` set (PIOpenList X)) \<union> open_addrs (P(p := None))"
  by (auto simp: open_addrs_def split: if_splits)

lemma open_addrs_fresh: "P p = None \<Longrightarrow> P(p := None) = P"
  by auto

lemma link_prot_inv:
  assumes inv: "hand_inv h" and p: "p \<notin> live h" "p \<noteq> 0" and H: "Handles h a \<noteq> None" and E: "Entries h e \<noteq> None"
  shows "hand_inv (link_prot p a e i h)" "live (link_prot p a e i h) = insert p (live h)"
proof -
  let ?P = "(Prots h)(p \<mapsto> \<lparr>PIHandle = a, PIProtocol = e, PIInterface = i, PIOpenList = [], PIOpenListCount = 0\<rparr>)"
  have p': "Entries h p = None" "Prots h p = None" "Handles h p = None" "Notifies h p = None" "p \<notin> open_addrs (Prots h)"
    using p(1) by (auto simp: live_def dom_def)
  have n: "p \<notin> set (IHProtocols X)" if "Handles h b = Some X" for b X
    using hand_invD(1) [OF inv] that p'(2) unfolding handles_ok_def by auto
  have m: "p \<notin> set (PEProtocols X)" if "Entries h b = Some X" for b X
    using hand_invD(2) [OF inv] that p'(2) unfolding entries_ok_def by auto
  have pos: "PNPosition N \<noteq> AtProt p" if "Notifies h c = Some N" for c N
    using hand_invD(3) [OF inv] that p'(2) unfolding notifies_ok_def by (metis option.distinct(1))
  obtain X Y where X: "Handles h a = Some X" and Y: "Entries h e = Some Y" using H E by auto
  have oa: "open_addrs ?P = open_addrs (Prots h)" using p'(2) by (simp add: open_addrs_upd open_addrs_fresh)
  have "handles_ok (HandleList h) ((Handles h)(a := map_option (\<lambda>H. H\<lparr>IHProtocols := p # IHProtocols H\<rparr>) (Handles h a))) ?P"
    using hand_invD(1) [OF inv] p'(2) X n [OF X] unfolding handles_ok_def by auto
  moreover have "entries_ok (ProtocolDatabase h) ((Entries h)(e := map_option (\<lambda>E. E\<lparr>PEProtocols := PEProtocols E @ [p]\<rparr>) (Entries h e))) ?P"
    using hand_invD(2) [OF inv] p'(2) Y m [OF Y] unfolding entries_ok_def by auto
  moreover have "notifies_ok ((Entries h)(e := map_option (\<lambda>E. E\<lparr>PEProtocols := PEProtocols E @ [p]\<rparr>) (Entries h e))) ?P (Notifies h)"
    using hand_invD(3) [OF inv] p'(2) Y pos unfolding notifies_ok_def by auto
  moreover have "opens_ok ?P"
    by (rule opens_okI) (use opens_okD [OF hand_invD(4) [OF inv]] p(2) in \<open>auto simp: record_ok_def split: if_splits\<close>)
  moreover have "addrs_apart (link_prot p a e i h)"
    using hand_invD(5) [OF inv] p' X Y oa by (auto simp: addrs_apart_def link_prot_def)
  ultimately show "hand_inv (link_prot p a e i h)" by (simp add: hand_inv_def link_prot_def)
  show "live (link_prot p a e i h) = insert p (live h)" using X Y oa by (auto simp: live_def link_prot_def)
qed

section \<open>Taking an interface off\<close>

lemma before_in: "before ps p = AtProt q \<Longrightarrow> q \<in> set ps \<and> q \<noteq> p"
proof -
  assume "before ps p = AtProt q"
  then have "q \<in> set (rev (takeWhile (\<lambda>x. x \<noteq> p) ps))" unfolding before_def by (auto split: list.splits)
  then show ?thesis using set_takeWhileD [of q "\<lambda>x. x \<noteq> p" ps] by simp
qed

text \<open>Off its protocol's list, the handle marked as changed, off the handle's list, and gone.\<close>

definition uninstall_db :: "UINTN \<Rightarrow> UINTN \<Rightarrow> PROTOCOL_ENTRY \<Rightarrow> UINTN \<Rightarrow> 'z hand_scheme \<Rightarrow> 'z hand_scheme" where
  "uninstall_db p e E a h = unlink_prot p a (touch a (detach p e E h))"

lemma uninstall_db_fields [simp]:
  "Handles (uninstall_db p e E a h) =
     (Handles h)(a := map_option (\<lambda>H. H\<lparr>IHKey := HandleDatabaseKey h + 1, IHProtocols := remove1 p (IHProtocols H)\<rparr>) (Handles h a))"
  "HandleList (uninstall_db p e E a h) = HandleList h" "ProtocolDatabase (uninstall_db p e E a h) = ProtocolDatabase h"
  "Prots (uninstall_db p e E a h) = (Prots h)(p := None)"
  "Entries (uninstall_db p e E a h) = (Entries h)(e := map_option (\<lambda>E. E\<lparr>PEProtocols := remove1 p (PEProtocols E)\<rparr>) (Entries h e))"
  "Notifies (uninstall_db p e E a h) =
     (\<lambda>c. if c \<in> set (PENotify E) then map_option (back_up (PEProtocols E) p) (Notifies h c) else Notifies h c)"
  by (simp_all add: uninstall_db_def unlink_prot_def touch_def detach_def Let_def option.map_comp o_def)

lemma back_up_fields [simp]: "PNProtocol (back_up ps p N) = PNProtocol N" "PNEvent (back_up ps p N) = PNEvent N"
  by (simp_all add: back_up_def)

lemma detach_notifies:
  assumes n: "notifies_ok E P N" and e: "entries_ok L E P" and X: "P p = Some X" and Y: "E (PIProtocol X) = Some Y"
  shows "notifies_ok (E(PIProtocol X := Some (Y\<lparr>PEProtocols := ps\<rparr>))) (P(p := None))
     (\<lambda>c. if c \<in> set (PENotify Y) then map_option (back_up (PEProtocols Y) p) (N c) else N c)"
proof -
  let ?N = "\<lambda>c. if c \<in> set (PENotify Y) then map_option (back_up (PEProtocols Y) p) (N c) else N c"
  have in_iff: "c \<in> set (PENotify Z) \<longleftrightarrow> (\<exists>M. N c = Some M \<and> PNProtocol M = a)" if "E a = Some Z" for a Z c
    using n that unfolding notifies_ok_def by blast
  have img: "(\<exists>M. ?N c = Some M \<and> PNProtocol M = a) \<longleftrightarrow> (\<exists>M. N c = Some M \<and> PNProtocol M = a)" for a c by auto
  have pos: "\<exists>Z. (P(p := None)) q = Some Z \<and> PIProtocol Z = PNProtocol M" if M: "?N c = Some M" and q: "PNPosition M = AtProt q" for c M q
  proof -
    obtain M0 where M0: "N c = Some M0" "PNProtocol M0 = PNProtocol M" using M by (cases "N c") (auto split: if_splits)
    have in_list: "\<exists>Z. P r = Some Z \<and> PIProtocol Z = PNProtocol M0" if "PNPosition M0 = AtProt r" for r
      using n M0(1) that unfolding notifies_ok_def by blast
    show ?thesis
    proof (cases "PNPosition M0 = AtProt p")
      case True
      then have prot: "PNProtocol M0 = PIProtocol X" using in_list X by auto
      then have "c \<in> set (PENotify Y)" using in_iff [OF Y] M0(1) by blast
      then have "before (PEProtocols Y) p = AtProt q" using M M0(1) True q by (auto simp: back_up_def)
      then have "q \<in> set (PEProtocols Y)" "q \<noteq> p" using before_in by blast+
      then show ?thesis using e Y prot M0(2) unfolding entries_ok_def by auto
    next
      case False
      then have "PNPosition M = PNPosition M0" using M M0(1) by (auto simp: back_up_def split: if_splits)
      then show ?thesis using in_list q False M0(2) by auto
    qed
  qed
  have "c \<noteq> 0 \<and> (E(PIProtocol X := Some (Y\<lparr>PEProtocols := ps\<rparr>))) (PNProtocol M) \<noteq> None" if M: "?N c = Some M" for c M
  proof -
    obtain M0 where M0: "N c = Some M0" "PNProtocol M0 = PNProtocol M" using M by (cases "N c") (auto split: if_splits)
    have "c \<noteq> 0 \<and> E (PNProtocol M0) \<noteq> None" using n M0(1) unfolding notifies_ok_def by blast
    then show ?thesis using M0(2) by auto
  qed
  moreover have "distinct (PENotify Z) \<and> (\<forall>c. c \<in> set (PENotify Z) \<longleftrightarrow> (\<exists>M. ?N c = Some M \<and> PNProtocol M = a))"
    if Z: "(E(PIProtocol X := Some (Y\<lparr>PEProtocols := ps\<rparr>))) a = Some Z" for a Z
  proof -
    obtain Z0 where Z0: "E a = Some Z0" "PENotify Z0 = PENotify Z" using Z Y by (auto split: if_splits)
    have "distinct (PENotify Z0)" using n Z0(1) unfolding notifies_ok_def by blast
    then show ?thesis using in_iff [OF Z0(1)] unfolding img Z0(2) by blast
  qed
  ultimately show ?thesis using pos unfolding notifies_ok_def by blast
qed

lemma without_block:
  assumes "p \<notin> H" "p \<notin> E" "p \<notin> N" "p \<notin> B'" and "B \<inter> (H \<union> P \<union> E \<union> N) = {}" and "B \<inter> B' = {}"
  shows "H \<union> (P - {p}) \<union> E \<union> N \<union> B' = H \<union> P \<union> E \<union> N \<union> (B \<union> B') - {p} - B"
  using assms by blast

lemma apart_shrink:
  assumes "H \<inter> (P \<union> E \<union> M \<union> Q) = {} \<and> P \<inter> (E \<union> M \<union> Q) = {} \<and> E \<inter> (M \<union> Q) = {} \<and> M \<inter> Q = {}" and "P' \<subseteq> P" and "Q' \<subseteq> Q"
  shows "H \<inter> (P' \<union> E \<union> M \<union> Q') = {} \<and> P' \<inter> (E \<union> M \<union> Q') = {} \<and> E \<inter> (M \<union> Q') = {} \<and> M \<inter> Q' = {}"
  using assms by blast

lemma uninstall_db_inv:
  assumes inv: "hand_inv h" and X: "Prots h p = Some X" and Y: "Entries h (PIProtocol X) = Some Y"
  shows "hand_inv (uninstall_db p (PIProtocol X) Y (PIHandle X) h)"
    "live (uninstall_db p (PIProtocol X) Y (PIHandle X) h) = live h - {p} - fst ` set (PIOpenList X)"
proof -
  let ?h = "uninstall_db p (PIProtocol X) Y (PIHandle X) h"
  have "Handles h (PIHandle X) \<noteq> None" using hand_invD(1) [OF inv] X unfolding handles_ok_def by blast
  then obtain H where H: "Handles h (PIHandle X) = Some H" by blast
  have oa: "open_addrs (Prots h) = fst ` set (PIOpenList X) \<union> open_addrs ((Prots h)(p := None))"
    using open_addrs_upd [of "Prots h" p X] X by (auto simp: map_upd_triv split: if_splits)
  have od: "fst ` set (PIOpenList X) \<inter> open_addrs ((Prots h)(p := None)) = {}"
  proof -
    have False if "a \<in> fst ` set (PIOpenList X)" "((Prots h)(p := None)) q = Some Y" "a \<in> fst ` set (PIOpenList Y)" for a q Y
      using opens_okD(2) [OF hand_invD(4) [OF inv] X, of q Y a] that by (simp split: if_splits)
    then show ?thesis unfolding open_addrs_def by blast
  qed
  have ol: "fst ` set (PIOpenList X) \<inter> (dom (Handles h) \<union> dom (Prots h) \<union> dom (Entries h) \<union> dom (Notifies h)) = {}"
    using hand_invD(5) [OF inv] unfolding addrs_apart_def oa by blast
  have dom: "dom (Handles ?h) = dom (Handles h)" "dom (Entries ?h) = dom (Entries h)" "dom (Prots ?h) = dom (Prots h) - {p}"
      "dom (Notifies ?h) = dom (Notifies h)" using H Y by (auto split: if_splits)
  have p: "p \<notin> dom (Handles h)" "p \<notin> dom (Entries h)" "p \<notin> dom (Notifies h)" "p \<notin> open_addrs (Prots h)"
    using hand_invD(5) [OF inv] X by (auto simp: addrs_apart_def dom_def)
  have p': "p \<notin> open_addrs ((Prots h)(p := None))" using p(4) unfolding oa by (rule contra_subsetD [rotated]) (rule Un_upper2)
  have hp: "set (remove1 p (IHProtocols H)) = set (IHProtocols H) - {p}" "set (remove1 p (PEProtocols Y)) = set (PEProtocols Y) - {p}"
    using hand_invD(1,2) [OF inv] H Y unfolding handles_ok_def entries_ok_def by (auto simp: set_remove1_eq)
  have np: "p \<notin> set (IHProtocols I)" if "Handles h b = Some I" "b \<noteq> PIHandle X" for b I
    using hand_invD(1) [OF inv] that X unfolding handles_ok_def by auto
  have ne: "p \<notin> set (PEProtocols I)" if "Entries h b = Some I" "b \<noteq> PIProtocol X" for b I
    using hand_invD(2) [OF inv] that X unfolding entries_ok_def by auto
  have "handles_ok (HandleList h) (Handles ?h) ((Prots h)(p := None))"
    using hand_invD(1) [OF inv] H hp(1) np unfolding handles_ok_def by (auto split: if_splits)
  moreover have "entries_ok (ProtocolDatabase h) (Entries ?h) ((Prots h)(p := None))"
    using hand_invD(2) [OF inv] Y hp(2) ne unfolding entries_ok_def by (auto split: if_splits)
  moreover have "notifies_ok (Entries ?h) (Prots ?h) (Notifies ?h)"
    using detach_notifies [OF hand_invD(3,2) [OF inv] X Y, of "remove1 p (PEProtocols Y)"] Y by simp
  moreover have "opens_ok ((Prots h)(p := None))"
    by (rule opens_okI) (use opens_okD [OF hand_invD(4) [OF inv]] in \<open>auto split: if_splits\<close>)
  moreover have "addrs_apart ?h"
    using apart_shrink [OF hand_invD(5) [OF inv, unfolded addrs_apart_def], of "dom (Prots h) - {p}" "open_addrs ((Prots h)(p := None))"]
    unfolding addrs_apart_def dom uninstall_db_fields(4) oa by simp
  ultimately show "hand_inv ?h" by (simp add: hand_inv_def)
  show "live ?h = live h - {p} - fst ` set (PIOpenList X)" unfolding live_def dom uninstall_db_fields(4) oa dom_fun_upd
    by simp (fact without_block [OF p(1-3) p' ol od])
qed

text \<open>A handle without protocols goes.\<close>

lemma drop_handle_inv:
  assumes inv: "hand_inv h" and X: "Handles h a = Some X" "IHProtocols X = []"
  shows "hand_inv (drop_handle a h)" "live (drop_handle a h) = live h - {a}"
proof -
  have p: "PIHandle Y \<noteq> a" if "Prots h p = Some Y" for p Y
    using handles_okD(6) [OF hand_invD(1) [OF inv] that] X by auto
  have d: "a \<notin> dom (Prots h)" "a \<notin> dom (Entries h)" "a \<notin> dom (Notifies h)" "a \<notin> open_addrs (Prots h)"
    using hand_invD(5) [OF inv] X by (auto simp: addrs_apart_def dom_def)
  have "handles_ok (remove1 a (HandleList h)) ((Handles h)(a := None)) (Prots h)"
    using hand_invD(1) [OF inv] p unfolding handles_ok_def by (auto split: if_splits)
  moreover have "addrs_apart (drop_handle a h)" using hand_invD(5) [OF inv] by (auto simp: addrs_apart_def drop_handle_def)
  ultimately show "hand_inv (drop_handle a h)" using hand_invD [OF inv] by (simp add: hand_inv_def drop_handle_def)
  show "live (drop_handle a h) = live h - {a}" using d unfolding live_def drop_handle_def by auto
qed

section \<open>Changes inside records\<close>

lemma handle_change_inv:
  assumes inv: "hand_inv h" and f: "\<And>X. IHProtocols (f X) = IHProtocols X"
  shows "hand_inv (upd_handle a f h)" "live (upd_handle a f h) = live h"
proof -
  have dom: "dom (Handles (upd_handle a f h)) = dom (Handles h)" by (auto split: if_splits)
  have "handles_ok (HandleList h) ((Handles h)(a := map_option f (Handles h a))) (Prots h)"
    using hand_invD(1) [OF inv] f handles_okD(6) [OF hand_invD(1) [OF inv]] unfolding handles_ok_def by (fastforce split: if_splits)
  moreover have "addrs_apart (upd_handle a f h)" using hand_invD(5) [OF inv] unfolding addrs_apart_def dom by simp
  ultimately show "hand_inv (upd_handle a f h)" using hand_invD [OF inv] by (simp add: hand_inv_def)
  show "live (upd_handle a f h) = live h" unfolding live_def dom by simp
qed

lemma globals_inv [simp]:
  "hand_inv (h\<lparr>HandleDatabaseKey := k\<rparr>) = hand_inv h" "live (h\<lparr>HandleDatabaseKey := k\<rparr>) = live h"
  "hand_inv (h\<lparr>EfiLocateHandleRequest := r\<rparr>) = hand_inv h" "live (h\<lparr>EfiLocateHandleRequest := r\<rparr>) = live h"
  by (simp_all add: hand_inv_def addrs_apart_def live_def)

lemma touch_inv:
  assumes "hand_inv h" shows "hand_inv (touch a h)" "live (touch a h) = live h"
  using handle_change_inv [where h = "h\<lparr>HandleDatabaseKey := HandleDatabaseKey h + 1\<rparr>"] assms by (simp_all add: touch_def Let_def)

text \<open>Changes of an open list.\<close>

lemma apart_grow:
  assumes "H \<inter> (P \<union> E \<union> M \<union> Q) = {} \<and> P \<inter> (E \<union> M \<union> Q) = {} \<and> E \<inter> (M \<union> Q) = {} \<and> M \<inter> Q = {}"
    and "Q' \<subseteq> Q \<union> N" and "N \<inter> (H \<union> P \<union> E \<union> M \<union> Q) = {}"
  shows "H \<inter> (P \<union> E \<union> M \<union> Q') = {} \<and> P \<inter> (E \<union> M \<union> Q') = {} \<and> E \<inter> (M \<union> Q') = {} \<and> M \<inter> Q' = {}"
proof -
  have "Z \<inter> Q' = {}" if "Z \<inter> Q = {}" "N \<inter> Z = {}" for Z using that assms(2) by blast
  then show ?thesis using assms(1,3) by (simp add: Int_Un_distrib)
qed

lemma prot_change:
  assumes inv: "hand_inv h" and X: "Prots h p = Some X" and f: "PIHandle (f X) = PIHandle X" "PIProtocol (f X) = PIProtocol X"
    and ok: "record_ok p (f X)"
    and new: "fst ` set (PIOpenList (f X)) \<subseteq> fst ` set (PIOpenList X) \<union> N" and fr: "N \<inter> live h = {}"
  shows "hand_inv (upd_prot p f h)"
proof -
  let ?P = "(Prots h)(p := map_option f (Prots h p))"
  have P: "?P = (Prots h)(p \<mapsto> f X)" using X by simp
  have dom: "dom ?P = dom (Prots h)" using X by auto
  have sm: "(\<exists>Y. ?P q = Some Y \<and> PIHandle Y = a) \<longleftrightarrow> (\<exists>Y. Prots h q = Some Y \<and> PIHandle Y = a)"
    "(\<exists>Y. ?P q = Some Y \<and> PIProtocol Y = a) \<longleftrightarrow> (\<exists>Y. Prots h q = Some Y \<and> PIProtocol Y = a)" for q a
    using X f by auto
  have ok': "handles_ok (HandleList h) (Handles h) ?P" "entries_ok (ProtocolDatabase h) (Entries h) ?P" "notifies_ok (Entries h) ?P (Notifies h)"
  proof -
    show "handles_ok (HandleList h) (Handles h) ?P"
      using hand_invD(1) [OF inv] X f(1) unfolding handles_ok_def sm(1) by auto
    show "entries_ok (ProtocolDatabase h) (Entries h) ?P"
      using hand_invD(2) [OF inv] X f(2) unfolding entries_ok_def sm(2) by auto
    show "notifies_ok (Entries h) ?P (Notifies h)"
      using hand_invD(3) [OF inv] unfolding notifies_ok_def sm(2) .
  qed
  have oa: "open_addrs ?P \<subseteq> open_addrs (Prots h) \<union> N"
  proof -
    have "open_addrs (Prots h) = fst ` set (PIOpenList X) \<union> open_addrs ((Prots h)(p := None))"
      using open_addrs_upd [of "Prots h" p X] X by (auto simp: map_upd_triv split: if_splits)
    then show ?thesis unfolding P open_addrs_upd using new by (auto split: if_splits)
  qed
  have N: "a \<notin> fst ` set (PIOpenList Y)" if "a \<in> N" "Prots h q = Some Y" for a q Y
    using fr that by (auto simp: live_def open_addrs_def)
  have one: "q = p" if Y: "Prots h q = Some Y" "a \<in> fst ` set (PIOpenList Y)" "a \<in> fst ` set (PIOpenList (f X))" for q Y a
    using opens_okD(2) [OF hand_invD(4) [OF inv] Y(1) X Y(2)] new Y(3) N [OF _ Y(1)] Y(2) by blast
  have "opens_ok ?P"
  proof (rule opens_okI)
    fix q Y assume "?P q = Some Y"
    then show "record_ok q Y" using ok opens_okD(1) [OF hand_invD(4) [OF inv], of q Y] unfolding P by (cases "q = p") auto
  next
    fix q Y r Z a assume Y: "?P q = Some Y" "a \<in> fst ` set (PIOpenList Y)" and Z: "?P r = Some Z" "a \<in> fst ` set (PIOpenList Z)"
    consider "q = p" "r = p" | "q = p" "r \<noteq> p" | "q \<noteq> p" "r = p" | "q \<noteq> p" "r \<noteq> p" by blast
    then show "q = r"
    proof cases
      case 2
      then show ?thesis using one [of r Z a] Y Z unfolding P by simp
    next
      case 3
      then show ?thesis using one [of q Y a] Y Z unfolding P by simp
    next
      case 4
      then show ?thesis using opens_okD(2) [OF hand_invD(4) [OF inv], of q Y r Z a] Y Z unfolding P by simp
    qed simp
  qed
  moreover have "addrs_apart (upd_prot p f h)"
    using apart_grow [OF hand_invD(5) [OF inv, unfolded addrs_apart_def] oa fr [unfolded live_def]] unfolding addrs_apart_def upd_fields dom .
  ultimately show ?thesis using ok' by (simp add: hand_inv_def)
qed

lemma filter_fst_unique: "distinct (map fst xs) \<Longrightarrow> (a, D) \<in> set xs \<Longrightarrow> length (filter (\<lambda>x. fst x \<noteq> a) xs) + 1 = length xs"
proof (induction xs)
  case (Cons x xs)
  show ?case
  proof (cases "fst x = a")
    case True
    then have "filter (\<lambda>x. fst x \<noteq> a) xs = xs" using Cons.prems(1) by (auto simp: filter_id_conv image_iff)
    then show ?thesis using True by simp
  next
    case False
    then have "(a, D) \<in> set xs" "distinct (map fst xs)" using Cons.prems by auto
    then show ?thesis using Cons.IH False by simp
  qed
qed simp

lemma drop_open_inv:
  assumes inv: "hand_inv h" and X: "Prots h p = Some X" and a: "(a, D) \<in> set (PIOpenList X)"
  shows "hand_inv (upd_prot p (drop_open a) h)" "live (upd_prot p (drop_open a) h) = live h - {a}"
proof -
  have r: "record_ok p X" by (rule opens_okD(1) [OF hand_invD(4) [OF inv] X])
  have "record_ok p (drop_open a X)"
  proof -
    have "length (filter (\<lambda>x. fst x \<noteq> a) (PIOpenList X)) + 1 = length (PIOpenList X)"
      using filter_fst_unique [OF _ a] r by (simp add: record_ok_def)
    then have "PIOpenListCount X = of_nat (length (filter (\<lambda>x. fst x \<noteq> a) (PIOpenList X)) + 1)" using r by (simp add: record_ok_def)
    then have "PIOpenListCount X - 1 = of_nat (length (filter (\<lambda>x. fst x \<noteq> a) (PIOpenList X)))" by simp
    moreover have "distinct (map fst (filter (\<lambda>x. fst x \<noteq> a) (PIOpenList X)))"
      using r by (simp add: record_ok_def distinct_map_filter)
    moreover have "length (filter by_driver (filter (\<lambda>x. fst x \<noteq> a) (PIOpenList X))) \<le> 1"
      using r length_filter_le [of "\<lambda>x. fst x \<noteq> a" "filter by_driver (PIOpenList X)"]
      by (simp add: record_ok_def filter_filter conj_commute)
    ultimately show ?thesis using r by (simp add: record_ok_def drop_open_def)
  qed
  then show "hand_inv (upd_prot p (drop_open a) h)"
    by (intro prot_change [OF inv X, where N = "{}"]) (auto simp: drop_open_def)
  have "open_addrs ((Prots h)(p \<mapsto> drop_open a X)) = open_addrs (Prots h) - {a}"
  proof -
    have "open_addrs (Prots h) = fst ` set (PIOpenList X) \<union> open_addrs ((Prots h)(p := None))"
      using open_addrs_upd [of "Prots h" p X] X by (auto simp: map_upd_triv split: if_splits)
    moreover have "a \<notin> open_addrs ((Prots h)(p := None))"
    proof
      assume "a \<in> open_addrs ((Prots h)(p := None))"
      then obtain q Y where "q \<noteq> p" "Prots h q = Some Y" "a \<in> fst ` set (PIOpenList Y)" by (auto simp: open_addrs_def split: if_splits)
      moreover have "a \<in> fst ` set (PIOpenList X)" using a by (rule image_eqI [rotated]) simp
      ultimately show False using opens_okD(2) [OF hand_invD(4) [OF inv] X] by blast
    qed
    moreover have "fst ` set (PIOpenList (drop_open a X)) = fst ` set (PIOpenList X) - {a}" by (auto simp: drop_open_def)
    ultimately show ?thesis unfolding open_addrs_upd by (auto split: if_splits)
  qed
  moreover have "a \<in> open_addrs (Prots h)" using X a unfolding open_addrs_def by force
  then have "a \<notin> dom (Handles h)" "a \<notin> dom (Prots h)" "a \<notin> dom (Entries h)" "a \<notin> dom (Notifies h)"
    using hand_invD(5) [OF inv] unfolding addrs_apart_def by blast+
  ultimately show "live (upd_prot p (drop_open a) h) = live h - {a}" using X unfolding live_def by (auto simp: insert_absorb)
qed

lemma count_open_inv:
  assumes inv: "hand_inv h" and X: "Prots h p = Some X"
  shows "hand_inv (upd_prot p (count_open a) h)" "live (upd_prot p (count_open a) h) = live h"
proof -
  have r: "record_ok p X" by (rule opens_okD(1) [OF hand_invD(4) [OF inv] X])
  have f: "map fst (PIOpenList (count_open a X)) = map fst (PIOpenList X)" by (auto simp: count_open_def)
  have "length (PIOpenList (count_open a X)) = length (PIOpenList X)" "PIOpenListCount (count_open a X) = PIOpenListCount X"
    by (simp_all add: count_open_def)
  moreover have "length (filter by_driver (PIOpenList (count_open a X))) = length (filter by_driver (PIOpenList X))"
    by (simp add: count_open_def filter_map o_def by_driver_def [abs_def] case_prod_beta if_distrib [of ODAttributes] cong: if_cong)
  ultimately have "record_ok p (count_open a X)" using r f by (simp add: record_ok_def)
  moreover have s: "fst ` set (PIOpenList (count_open a X)) = fst ` set (PIOpenList X)" using arg_cong [OF f, of set] by simp
  ultimately show "hand_inv (upd_prot p (count_open a) h)"
    by (intro prot_change [OF inv X, where N = "{}"]) (auto simp: count_open_def)
  have "open_addrs ((Prots h)(p \<mapsto> count_open a X)) = open_addrs (Prots h)"
    using open_addrs_upd [of "Prots h" p X] open_addrs_upd [of "Prots h" p "count_open a X"] X s
    by (auto simp: map_upd_triv split: if_splits)
  then show "live (upd_prot p (count_open a) h) = live h" using X unfolding live_def by (auto simp: insert_absorb)
qed

lemma add_open_inv:
  assumes inv: "hand_inv h" and X: "Prots h p = Some X" and b: "b \<notin> live h"
    and one: "by_driver (b, D) \<Longrightarrow> filter by_driver (PIOpenList X) = []"
  shows "hand_inv (upd_prot p (add_open b D) h)" "live (upd_prot p (add_open b D) h) = insert b (live h)"
proof -
  have r: "record_ok p X" by (rule opens_okD(1) [OF hand_invD(4) [OF inv] X])
  have nb: "b \<notin> fst ` set (PIOpenList X)" using b X by (auto simp: live_def open_addrs_def)
  have "record_ok p (add_open b D X)" using r nb one by (simp add: record_ok_def add_open_def)
  moreover have s: "fst ` set (PIOpenList (add_open b D X)) = insert b (fst ` set (PIOpenList X))" by (auto simp: add_open_def)
  ultimately show "hand_inv (upd_prot p (add_open b D) h)"
    using b by (intro prot_change [OF inv X, where N = "{b}"]) (auto simp: add_open_def)
  have "open_addrs ((Prots h)(p \<mapsto> add_open b D X)) = insert b (open_addrs (Prots h))"
    using open_addrs_upd [of "Prots h" p X] open_addrs_upd [of "Prots h" p "add_open b D X"] X s
    by (auto simp: map_upd_triv add_open_def split: if_splits)
  then show "live (upd_prot p (add_open b D) h) = insert b (live h)" using X unfolding live_def by (auto simp: insert_absorb)
qed

section \<open>Notifications\<close>

lemma apart_fields:
  "addrs_apart h \<longleftrightarrow> addrs_apart h'" if "dom (Handles h') = dom (Handles h)" "dom (Prots h') = dom (Prots h)" "dom (Entries h') = dom (Entries h)"
    "dom (Notifies h') = dom (Notifies h)" "open_addrs (Prots h') = open_addrs (Prots h)"
  using that by (simp add: addrs_apart_def)

definition register_db :: "UINTN \<Rightarrow> UINTN \<Rightarrow> UINTN \<Rightarrow> 'z hand_scheme \<Rightarrow> 'z hand_scheme" where
  "register_db e a v h =
     upd_entry_rec e (\<lambda>E. E\<lparr>PENotify := PENotify E @ [a]\<rparr>)
       (h\<lparr>Notifies := (Notifies h)(a \<mapsto> \<lparr>PNProtocol = e, PNEvent = v, PNPosition = AtHead\<rparr>)\<rparr>)"

lemma register_inv:
  assumes inv: "hand_inv h" and a: "a \<notin> live h" "a \<noteq> 0" and E: "Entries h e = Some Y"
  shows "hand_inv (register_db e a v h)" "live (register_db e a v h) = insert a (live h)"
proof -
  let ?E = "(Entries h)(e \<mapsto> Y\<lparr>PENotify := PENotify Y @ [a]\<rparr>)"
  let ?N = "(Notifies h)(a \<mapsto> \<lparr>PNProtocol = e, PNEvent = v, PNPosition = AtHead\<rparr>)"
  have a': "Entries h a = None" "Prots h a = None" "Handles h a = None" "Notifies h a = None" "a \<notin> open_addrs (Prots h)"
    using a(1) by (auto simp: live_def dom_def)
  have n: "a \<notin> set (PENotify X)" if "Entries h b = Some X" for b X
    using notifies_okD(2) [OF hand_invD(3) [OF inv] that, of a] a'(4) by simp
  have "entries_ok (ProtocolDatabase h) ?E (Prots h)"
    using hand_invD(2) [OF inv] E unfolding entries_ok_def by auto
  moreover have "notifies_ok ?E (Prots h) ?N"
  proof -
    have "distinct (PENotify Z) \<and> (\<forall>c. c \<in> set (PENotify Z) \<longleftrightarrow> (\<exists>M. ?N c = Some M \<and> PNProtocol M = b))" if Z: "?E b = Some Z" for b Z
      using notifies_okD(1,2) [OF hand_invD(3) [OF inv]] Z E n a'(4) by (cases "b = e") auto
    moreover have "c \<noteq> 0 \<and> ?E (PNProtocol M) \<noteq> None \<and> (\<forall>p. PNPosition M = AtProt p \<longrightarrow> (\<exists>Z. Prots h p = Some Z \<and> PIProtocol Z = PNProtocol M))"
      if M: "?N c = Some M" for c M
      using hand_invD(3) [OF inv] M a(2) unfolding notifies_ok_def by (cases "c = a") auto
    ultimately show ?thesis unfolding notifies_ok_def by blast
  qed
  moreover have "addrs_apart (register_db e a v h)"
    using hand_invD(5) [OF inv] a' E by (auto simp: addrs_apart_def register_db_def)
  ultimately show "hand_inv (register_db e a v h)" using hand_invD [OF inv] E by (simp add: hand_inv_def register_db_def)
  show "live (register_db e a v h) = insert a (live h)" using E by (auto simp: live_def register_db_def)
qed

lemma drop_notify_inv:
  assumes inv: "hand_inv h" and N: "Notifies h a = Some N"
  shows "hand_inv (drop_notify a h)" "live (drop_notify a h) = live h - {a}"
proof -
  let ?E = "\<lambda>e. map_option (\<lambda>E. E\<lparr>PENotify := remove1 a (PENotify E)\<rparr>) (Entries h e)"
  let ?N = "(Notifies h)(a := None)"
  have dom: "dom ?E = dom (Entries h)" by (auto simp: dom_def)
  have d: "a \<notin> dom (Handles h)" "a \<notin> dom (Prots h)" "a \<notin> dom (Entries h)" "a \<notin> open_addrs (Prots h)"
    using hand_invD(5) [OF inv] N by (auto simp: addrs_apart_def dom_def)
  have "entries_ok (ProtocolDatabase h) ?E (Prots h)"
    using hand_invD(2) [OF inv] unfolding entries_ok_def dom by (auto simp: dom_def)
  moreover have "notifies_ok ?E (Prots h) ?N"
  proof -
    have "distinct (PENotify Z) \<and> (\<forall>c. c \<in> set (PENotify Z) \<longleftrightarrow> (\<exists>M. ?N c = Some M \<and> PNProtocol M = b))" if Z: "?E b = Some Z" for b Z
      using notifies_okD(1,2) [OF hand_invD(3) [OF inv]] Z by (auto simp: set_remove1_eq)
    moreover have "c \<noteq> 0 \<and> ?E (PNProtocol M) \<noteq> None \<and> (\<forall>p. PNPosition M = AtProt p \<longrightarrow> (\<exists>Z. Prots h p = Some Z \<and> PIProtocol Z = PNProtocol M))"
      if M: "?N c = Some M" for c M
      using hand_invD(3) [OF inv] M unfolding notifies_ok_def by (cases "c = a") auto
    ultimately show ?thesis unfolding notifies_ok_def by blast
  qed
  moreover have "addrs_apart (drop_notify a h)"
    using hand_invD(5) [OF inv] unfolding addrs_apart_def drop_notify_def by (simp add: dom) blast
  ultimately show "hand_inv (drop_notify a h)" using hand_invD [OF inv] by (simp add: hand_inv_def drop_notify_def)
  show "live (drop_notify a h) = live h - {a}" using d unfolding live_def drop_notify_def by (simp add: dom) blast
qed

text \<open>Moving a registration to another place in the list of its protocol.\<close>

lemma position_inv:
  assumes inv: "hand_inv h" and N: "Notifies h a = Some N"
    and pos: "\<And>p. pos = AtProt p \<Longrightarrow> \<exists>Z. Prots h p = Some Z \<and> PIProtocol Z = PNProtocol N"
  shows "hand_inv (h\<lparr>Notifies := (Notifies h)(a \<mapsto> N\<lparr>PNPosition := pos\<rparr>)\<rparr>)"
    "live (h\<lparr>Notifies := (Notifies h)(a \<mapsto> N\<lparr>PNPosition := pos\<rparr>)\<rparr>) = live h"
proof -
  let ?N = "(Notifies h)(a \<mapsto> N\<lparr>PNPosition := pos\<rparr>)"
  have dom: "dom ?N = dom (Notifies h)" using N by auto
  have "(\<exists>M. ?N c = Some M \<and> PNProtocol M = e) \<longleftrightarrow> (\<exists>M. Notifies h c = Some M \<and> PNProtocol M = e)" for c e using N by auto
  then have "notifies_ok (Entries h) (Prots h) ?N"
    using hand_invD(3) [OF inv] N pos unfolding notifies_ok_def by (auto split: if_splits)
  moreover have "addrs_apart (h\<lparr>Notifies := ?N\<rparr>) = addrs_apart h" by (rule apart_fields) (use dom in simp_all)
  ultimately show "hand_inv (h\<lparr>Notifies := ?N\<rparr>)" using hand_invD [OF inv] by (simp add: hand_inv_def)
  show "live (h\<lparr>Notifies := ?N\<rparr>) = live h" unfolding live_def using dom by simp
qed

text \<open>Reinstalling: off the protocol's list, the handle marked, and on the list again at its end.\<close>

definition reinstall_db :: "UINTN \<Rightarrow> UINTN \<Rightarrow> PROTOCOL_ENTRY \<Rightarrow> UINTN \<Rightarrow> UINTN \<Rightarrow> 'z hand_scheme \<Rightarrow> 'z hand_scheme" where
  "reinstall_db p e E a i h = reattach p e i (touch a (detach p e E h))"

lemma notifies_mono: "notifies_ok E (P(p := None)) N \<Longrightarrow> notifies_ok E (P(p \<mapsto> X)) N" if "P p = Some Y" "PIProtocol X = PIProtocol Y" for Y
proof -
  assume n: "notifies_ok E (P(p := None)) N"
  have "\<exists>Z. (P(p \<mapsto> X)) q = Some Z \<and> PIProtocol Z = t" if "\<exists>Z. (P(p := None)) q = Some Z \<and> PIProtocol Z = t" for q t
    using that by (auto split: if_splits)
  then show ?thesis using n unfolding notifies_ok_def by blast
qed

lemma reinstall_db_inv:
  assumes inv: "hand_inv h" and X: "Prots h p = Some X" and Y: "Entries h (PIProtocol X) = Some Y"
  shows "hand_inv (reinstall_db p (PIProtocol X) Y (PIHandle X) i h)" "live (reinstall_db p (PIProtocol X) Y (PIHandle X) i h) = live h"
proof -
  let ?e = "PIProtocol X" and ?a = "PIHandle X"
  let ?h = "reinstall_db p ?e Y ?a i h"
  let ?E = "(Entries h)(?e \<mapsto> Y\<lparr>PEProtocols := remove1 p (PEProtocols Y) @ [p]\<rparr>)"
  let ?P = "(Prots h)(p \<mapsto> X\<lparr>PIInterface := i\<rparr>)"
  let ?N = "\<lambda>c. if c \<in> set (PENotify Y) then map_option (back_up (PEProtocols Y) p) (Notifies h c) else Notifies h c"
  obtain H where H: "Handles h ?a = Some H" "p \<in> set (IHProtocols H)" using handles_okD(6) [OF hand_invD(1) [OF inv] X] by blast
  have f: "Prots ?h = ?P" "Entries ?h = ?E" "Notifies ?h = ?N" "HandleList ?h = HandleList h" "ProtocolDatabase ?h = ProtocolDatabase h"
    "Handles ?h = (Handles h)(?a \<mapsto> H\<lparr>IHKey := HandleDatabaseKey h + 1\<rparr>)"
    using X Y H(1) by (simp_all add: reinstall_db_def reattach_def touch_def detach_def Let_def)
  have sm: "(\<exists>Z. ?P q = Some Z \<and> PIHandle Z = b) \<longleftrightarrow> (\<exists>Z. Prots h q = Some Z \<and> PIHandle Z = b)"
    "(\<exists>Z. ?P q = Some Z \<and> PIProtocol Z = b) \<longleftrightarrow> (\<exists>Z. Prots h q = Some Z \<and> PIProtocol Z = b)" for q b
    using X by auto
  have dom: "dom (Handles ?h) = dom (Handles h)" "dom (Entries ?h) = dom (Entries h)" "dom (Prots ?h) = dom (Prots h)"
      "dom (Notifies ?h) = dom (Notifies h)" unfolding f using H Y X by (auto split: if_splits)
  have oa: "open_addrs ?P = open_addrs (Prots h)"
    using open_addrs_upd [of "Prots h" p X] open_addrs_upd [of "Prots h" p "X\<lparr>PIInterface := i\<rparr>"] X by (simp add: map_upd_triv)
  have inP: "p \<in> set (PEProtocols Y)" using entries_okD(5) [OF hand_invD(2) [OF inv] Y, of p] X by blast
  have "handles_ok (HandleList h) (Handles ?h) ?P"
    using hand_invD(1) [OF inv] H(1) X unfolding handles_ok_def f sm by (auto split: if_splits)
  moreover have "entries_ok (ProtocolDatabase h) ?E ?P"
  proof -
    have s: "set (remove1 p (PEProtocols Y) @ [p]) = set (PEProtocols Y)" "distinct (remove1 p (PEProtocols Y) @ [p])"
      using entries_okD(4) [OF hand_invD(2) [OF inv] Y] inP by (auto simp: set_remove1_eq)
    show ?thesis using hand_invD(2) [OF inv] Y X s unfolding entries_ok_def sm by (auto split: if_splits)
  qed
  moreover have "notifies_ok ?E ?P ?N"
    by (rule notifies_mono [OF X _ detach_notifies [OF hand_invD(3,2) [OF inv] X Y]]) simp
  moreover have "opens_ok ?P"
    using hand_invD(4) [OF prot_change [OF inv X, where f = "\<lambda>Z. Z\<lparr>PIInterface := i\<rparr>" and N = "{}"]]
      opens_okD(1) [OF hand_invD(4) [OF inv] X] X by (simp add: record_ok_def)
  moreover have "addrs_apart ?h = addrs_apart h" by (rule apart_fields) (use dom oa f in simp_all)
  ultimately show "hand_inv ?h" using hand_invD(5) [OF inv] unfolding hand_inv_def f by simp
  show "live ?h = live h" unfolding live_def dom using oa f(1) by simp
qed

end
