(* ===== verification/Levels.thy ===== *)
theory Levels
  imports HandleInv
begin

text \<open>
  What notification functions do to the state behind the execution services. A function that runs above
  the level of the database and memory locks may not use what they protect; one that runs below keeps a
  family of invariants. Lowering the priority level then has the same effect.
\<close>

section \<open>The contract\<close>

definition same_levels :: "'x exec_scheme \<Rightarrow> 'x exec_scheme \<Rightarrow> bool" where
  "same_levels s s' \<longleftrightarrow> (\<forall>l. LockTpl (Locks s' l) = LockTpl (Locks s l))"

definition keeps :: "('f \<Rightarrow> 'x \<Rightarrow> bool) \<Rightarrow> UINTN \<Rightarrow> 'x exec_scheme \<Rightarrow> 'x exec_scheme \<Rightarrow> bool" where
  "keeps J p s s' \<longleftrightarrow> same_levels s s' \<and> TPL s' = p \<and> (TPL_NOTIFY \<le> p \<longrightarrow> exec.more s' = exec.more s) \<and>
     (\<forall>F. J F (exec.more s) \<longrightarrow> J F (exec.more s'))"

definition cb_keeps :: "('f \<Rightarrow> 'x \<Rightarrow> bool) \<Rightarrow> 'x notify_fn \<Rightarrow> bool" where
  "cb_keeps J cb \<longleftrightarrow>
     (\<forall>f e c s s'. cb f e c s = Ret s' \<longrightarrow> same_levels s s' \<and> TPL s' = TPL s \<and>
        (TPL_NOTIFY < TPL s \<longrightarrow> exec.more s' = exec.more s) \<and> (\<forall>F. J F (exec.more s) \<longrightarrow> J F (exec.more s')))"

lemma same_levels_trans: "same_levels s s' \<Longrightarrow> same_levels s' s'' \<Longrightarrow> same_levels s s''"
  by (simp add: same_levels_def)

lemma same_levels_simps [simp]:
  "same_levels s s" "same_levels s (AcquireLock l s')  = same_levels s s'"
  "same_levels s (s'\<lparr>Locks := (Locks s')(l := (Locks s' l)\<lparr>LockCount := k\<rparr>)\<rparr>) = same_levels s s'"
  "same_levels s (s'\<lparr>TPL := p\<rparr>) = same_levels s s'" "same_levels s (s'\<lparr>Interrupts := i\<rparr>) = same_levels s s'"
  "same_levels s (s'\<lparr>EventPending := w\<rparr>) = same_levels s s'" "same_levels s (s'\<lparr>EventQueue := q\<rparr>) = same_levels s s'"
  "same_levels s (s'\<lparr>Events := E\<rparr>) = same_levels s s'" "same_levels s (s'\<lparr>exec.more := m\<rparr>) = same_levels s s'"
  by (auto simp: same_levels_def AcquireLock_def RaiseTPL_def Let_def)

section \<open>The highest pending level\<close>

lemma HSB_at_Ret: "HSB_at w = Ret t \<Longrightarrow> unat w < 256"
  by (simp add: HSB_at_def HSB_length split: if_splits)

lemma HighestSetBit_Ret:
  assumes "HighestSetBit i = Ret t" and "i \<noteq> 0"
  shows "\<exists>m. t = of_nat m \<and> m < 32 \<and> 2 ^ m \<le> unat i \<and> unat i < 2 ^ Suc m"
proof -
  have "unat (drop_bit k i) = unat i div 2 ^ k" for k by (subst unat_drop_bit_eq) (rule drop_bit_eq_div)
  then have "unat i div 2 ^ 24 < 256"
  proof -
    have d: "\<exists>k\<le>24. unat (drop_bit k i) < 256"
      using assms(1) unfolding HighestSetBit_def
      by (auto split: if_splits dest!: HSB_at_Ret intro: exI [of _ 24] exI [of _ 16] exI [of _ 8] exI [of _ 0])
    then obtain k where k: "k \<le> 24" "unat i div 2 ^ k < 256"
      using \<open>\<And>k. unat (drop_bit k i) = unat i div 2 ^ k\<close> by auto
    have "unat i div 2 ^ 24 \<le> unat i div 2 ^ k" using k(1) by (intro div_le_mono2 power_increasing) simp_all
    then show ?thesis using k(2) by simp
  qed
  then have "unat i < 2 ^ 32" by (simp add: div_less_iff_less_mult)
  then have "i < 2 ^ 32" by (simp add: word_less_nat_alt)
  moreover have "0 < i" using assms(2) by (simp add: word_gt_0)
  ultimately show ?thesis using HighestSetBit_correct [of i] assms(1) by auto
qed

lemma above_mask_bit:
  assumes "above_mask p AND i \<noteq> 0" shows "\<exists>b > unat p. bit i b"
proof -
  obtain b where b: "bit (above_mask p) b" "bit i b" using assms by (auto simp: word_0_iff_bits bit_and_iff)
  have "bit (push_bit (unat p) (- 2 :: 32 word)) (if b < 32 then b else 31)"
    using b(1) by (cases "b < 31"; cases "b = 31") (auto simp: above_mask_def int_to_UINTN_def bit_signed_iff min_def split: if_splits)
  then have c: "unat p \<le> (if b < 32 then b else 31)" "bit (- 2 :: 32 word) ((if b < 32 then b else 31) - unat p)"
    by (simp_all add: bit_push_bit_iff)
  have "\<not> bit (- 2 :: 32 word) 0" by simp
  then have "(if b < 32 then b else 31) - unat p \<noteq> 0" using c(2) by metis
  then have "unat p < b" by (auto split: if_splits)
  then show ?thesis using b(2) by blast
qed

lemma highest_above:
  assumes "HighestSetBit i = Ret t" and "above_mask p AND i \<noteq> 0"
  shows "p < t"
proof -
  have "i \<noteq> 0" using assms(2) by auto
  then obtain m where m: "t = of_nat m" "m < 32" "unat i < 2 ^ Suc m" using HighestSetBit_Ret [OF assms(1)] by blast
  obtain b where b: "unat p < b" "bit i b" using above_mask_bit [OF assms(2)] by blast
  have "b < Suc m" using m(3) b(2) unfolding unat_less_exp_iff by (meson not_le)
  then have "unat p < m" using b(1) by simp
  then show ?thesis using m(1,2) by (simp add: word_less_nat_alt unsigned_of_nat take_bit_nat_eq_self)
qed

section \<open>Lowering the level\<close>

lemma keeps_trans:
  assumes "keeps J q s s1" and "keeps J p s1 s'" and "TPL_NOTIFY \<le> p \<Longrightarrow> TPL_NOTIFY \<le> q"
  shows "keeps J p s s'"
  using assms same_levels_trans [of s s1 s'] unfolding keeps_def by auto

lemma ReleaseLock_with_keeps:
  assumes "\<And>p s s'. restore p s = Ret s' \<Longrightarrow> keeps J p s s'" and "ReleaseLock_with restore l s = Ret s'"
  shows "keeps J (OwnerTpl (Locks s l)) s s'"
  using assms(1) [OF assms(2) [unfolded ReleaseLock_with_def Let_def]] by (simp add: keeps_def same_levels_def)

lemma acquire_owner [simp]: "OwnerTpl (Locks (AcquireLock l s) l) = TPL s" "exec.more (AcquireLock l s) = exec.more s"
  by (simp_all add: AcquireLock_def RaiseTPL_def Let_def)

lemma dispatch_loop_keeps:
  assumes cb: "cb_keeps J cb" and restore: "\<And>p s s'. restore p s = Ret s' \<Longrightarrow> keeps J p s s'" and t: "p < t"
    and ret: "dispatch_loop cb restore n t s = Ret s'" and own: "OwnerTpl (Locks s EventQueueLock) = t"
  shows "same_levels s s' \<and> (TPL_NOTIFY \<le> p \<longrightarrow> exec.more s' = exec.more s) \<and> (\<forall>F. J F (exec.more s) \<longrightarrow> J F (exec.more s'))"
  using ret own
proof (induction n arbitrary: s)
  case (Suc n)
  have pt: "TPL_NOTIFY \<le> p \<Longrightarrow> TPL_NOTIFY < t" using t by (rule le_less_trans [rotated])
  show ?case
  proof (cases "EventQueue s (unat t)")
    case Nil
    let ?s = "s\<lparr>EventPending := EventPending s AND NOT (tpl_bit t)\<rparr>"
    have "keeps J t ?s s'" using ReleaseLock_with_keeps [OF restore, where l = EventQueueLock and s = ?s and s' = s'] Suc.prems Nil by simp
    then show ?thesis using pt by (auto simp: keeps_def same_levels_def)
  next
    case (Cons e es)
    let ?s = "dequeue_notify t e es s"
    have d: "same_levels s ?s" "exec.more ?s = exec.more s" "OwnerTpl (Locks ?s EventQueueLock) = t"
      using Suc.prems(2) by (simp_all add: dequeue_notify_def upd_event_def)
    obtain s1 s2 where s1: "ReleaseLock_with restore EventQueueLock ?s = Ret s1" and s2: "call_notify cb e s1 = Ret s2"
        and s3: "dispatch_loop cb restore n t (AcquireLock EventQueueLock s2) = Ret s'"
      using Suc.prems(1) Cons by auto
    have k1: "keeps J t ?s s1" using ReleaseLock_with_keeps [OF restore s1] d(3) by simp
    have k2: "same_levels s1 s2 \<and> TPL s2 = TPL s1 \<and> (TPL_NOTIFY < TPL s1 \<longrightarrow> exec.more s2 = exec.more s1) \<and>
        (\<forall>F. J F (exec.more s1) \<longrightarrow> J F (exec.more s2))"
      using s2 cb unfolding cb_keeps_def call_notify_def by (auto split: option.splits if_splits)
    have t1: "TPL s1 = t" using k1 by (simp add: keeps_def)
    from Suc.IH [OF s3] k2 t1 have k3: "same_levels s2 s' \<and> (TPL_NOTIFY \<le> p \<longrightarrow> exec.more s' = exec.more s2) \<and>
        (\<forall>F. J F (exec.more s2) \<longrightarrow> J F (exec.more s'))" by (simp add: same_levels_def)
    show ?thesis using k1 k2 k3 t1 d pt unfolding keeps_def same_levels_def by auto
  qed
qed simp

lemma restore_loop_keeps:
  assumes cb: "cb_keeps J cb" and restore: "\<And>p s s'. restore p s = Ret s' \<Longrightarrow> keeps J p s s'"
    and ret: "restore_loop cb restore n p s = Ret s'"
  shows "same_levels s s' \<and> (TPL_NOTIFY \<le> p \<longrightarrow> exec.more s' = exec.more s) \<and> (\<forall>F. J F (exec.more s) \<longrightarrow> J F (exec.more s'))"
  using ret
proof (induction n arbitrary: s)
  case (Suc n)
  show ?case
  proof (cases "above_mask p AND EventPending s = 0")
    case False
    define lower where "lower t = (if t < TPL_HIGH_LEVEL then s\<lparr>TPL := t, Interrupts := True\<rparr> else s\<lparr>TPL := t\<rparr>)" for t
    have "restore_loop cb restore (Suc n) p s =
        bind_run (HighestSetBit (EventPending s)) (\<lambda>t. bind_run (DispatchEventNotifies cb restore n t (lower t)) (restore_loop cb restore n p))"
      using False by (auto simp: Let_def lower_def intro!: arg_cong [where f = "bind_run _"])
    then obtain t s2 s3 where t: "HighestSetBit (EventPending s) = Ret t" and s2: "s2 = lower t"
        and s3: "DispatchEventNotifies cb restore n t s2 = Ret s3" "restore_loop cb restore n p s3 = Ret s'"
      using Suc.prems by auto
    have e: "TPL s2 = t" "exec.more s2 = exec.more s" "same_levels s s2" using s2 by (simp_all add: lower_def)
    have "dispatch_loop cb restore n t (AcquireLock EventQueueLock s2) = Ret s3"
      using s3(1) by (simp add: DispatchEventNotifies_def split: if_splits)
    from dispatch_loop_keeps [OF cb restore highest_above [OF t False] this] e
    have "same_levels s2 s3 \<and> (TPL_NOTIFY \<le> p \<longrightarrow> exec.more s3 = exec.more s2) \<and> (\<forall>F. J F (exec.more s2) \<longrightarrow> J F (exec.more s3))"
      by (simp add: same_levels_def)
    then show ?thesis using Suc.IH [OF s3(2)] e unfolding same_levels_def by auto
  qed (use Suc.prems in simp)
qed simp

lemma RestoreTPL_keeps: "cb_keeps J cb \<Longrightarrow> RestoreTPL cb n p s = Ret s' \<Longrightarrow> keeps J p s s'"
proof (induction n arbitrary: p s s')
  case (Suc n)
  let ?s1 = "if CurrentTPL s \<ge> TPL_HIGH_LEVEL \<and> p < TPL_HIGH_LEVEL then s\<lparr>TPL := TPL_HIGH_LEVEL\<rparr> else s"
  obtain s2 where s2: "restore_loop cb (RestoreTPL cb n) n p ?s1 = Ret s2"
      and s': "s' = (if p < TPL_HIGH_LEVEL then s2\<lparr>TPL := p, Interrupts := True\<rparr> else s2\<lparr>TPL := p\<rparr>)"
    using Suc.prems(2) by (auto simp: Let_def)
  have e: "exec.more ?s1 = exec.more s" "same_levels s ?s1" by simp_all
  show ?case
    using restore_loop_keeps [OF Suc.prems(1) Suc.IH [OF Suc.prems(1)] s2] e s' unfolding keeps_def
    by (auto intro: same_levels_trans)
qed simp

lemma ReleaseLock_keeps:
  "cb_keeps J cb \<Longrightarrow> ReleaseLock cb n l s = Ret s' \<Longrightarrow> keeps J (OwnerTpl (Locks s l)) s s'"
  unfolding ReleaseLock_def by (rule ReleaseLock_with_keeps [OF RestoreTPL_keeps])

lemma SignalEvent_keeps:
  assumes "cb_keeps J cb" and "SignalEvent cb n e s = Ret (st, s')"
  shows "keeps J (TPL s) s s'"
proof (cases "Events s e")
  case None
  then show ?thesis using assms(2) by (auto simp: SignalEvent_def keeps_def split: if_splits)
next
  case (Some ev)
  then obtain s1 where s1: "signal_locked e (AcquireLock EventQueueLock s) = Ret s1" "ReleaseLock cb n EventQueueLock s1 = Ret s'"
    using assms(2) by (auto simp: SignalEvent_def split: if_splits)
  have "Locks s1 = Locks (AcquireLock EventQueueLock s) \<and> exec.more s1 = exec.more s"
    using s1(1) by (auto simp: signal_locked_def NotifyEvent_def unlink_notify_def upd_event_def Let_def split: option.splits if_splits)
  then show ?thesis using ReleaseLock_keeps [OF assms(1) s1(2)] by (simp add: keeps_def same_levels_def AcquireLock_def RaiseTPL_def Let_def split: if_splits)
qed

end
