(* ===== verification/HandleContract.thy ===== *)
theory HandleContract
  imports Levels MemSystem
begin

text \<open>
  What the handle database relies on: the pool services inside and outside its critical sections,
  notifications, and the drivers that are connected and disconnected. The pool keeps its part.
\<close>

section \<open>The interface\<close>

text \<open>
  \<open>inside L s\<close>: the database lock is held and the blocks \<open>L\<close> are allocated. \<open>outside F s\<close>: it
  is not held, the database is consistent, its records are allocated, and so are the blocks \<open>F\<close>, which are
  not records of the database.
\<close>

locale handle_env =
  fixes bs :: "'z handst EFI_BOOT_SERVICES" and cb :: "'z hand_scheme mem_scheme notify_fn" and n :: nat
    and inside outside :: "UINTN set \<Rightarrow> 'z handst \<Rightarrow> bool"
  assumes in_alloc: "inside L s \<Longrightarrow> BS_AllocatePool bs t Size s = Ret (st, p, s') \<Longrightarrow>
        db s' = db s \<and> (if EFI_ERROR st then inside L s' else \<exists>b. p = Some b \<and> b \<noteq> 0 \<and> b \<notin> L \<and> inside (insert b L) s')"
    and in_free: "inside L s \<Longrightarrow> b \<in> L \<Longrightarrow> BS_FreePool bs b s = Ret (st, s') \<Longrightarrow> db s' = db s \<and> inside (L - {b}) s'"
    and in_upd: "inside L s \<Longrightarrow> L' \<subseteq> L \<Longrightarrow> inside L' (upd_db f s)"
    and in_signal: "inside L s \<Longrightarrow> SignalEvent cb n e s = Ret (st, s') \<Longrightarrow> db s' = db s \<and> inside L s'"
    and acquire: "outside F s \<Longrightarrow> hand_inv (db s) \<and> F \<inter> live (db s) = {} \<and> inside (F \<union> live (db s)) (AcquireLock ProtocolDatabaseLock s)"
    and release: "inside (F \<union> live (db s)) s \<Longrightarrow> hand_inv (db s) \<Longrightarrow> F \<inter> live (db s) = {} \<Longrightarrow>
        ReleaseLock cb n ProtocolDatabaseLock s = Ret s' \<Longrightarrow> outside F s'"
    and out_alloc: "outside F s \<Longrightarrow> BS_AllocatePool bs t Size s = Ret (st, p, s') \<Longrightarrow>
        if EFI_ERROR st then outside F s' else \<exists>b. p = Some b \<and> b \<noteq> 0 \<and> b \<notin> F \<and> outside (insert b F) s'"
    and out_free: "outside F s \<Longrightarrow> b \<in> F \<Longrightarrow> BS_FreePool bs b s = Ret (st, s') \<Longrightarrow> outside (F - {b}) s'"
    and out_mono: "outside F s \<Longrightarrow> F' \<subseteq> F \<Longrightarrow> outside F' s"
    and connect: "outside F s \<Longrightarrow> BS_ConnectController bs h im dp rec s = Ret (st, s') \<Longrightarrow> outside F s'"
    and disconnect: "outside F s \<Longrightarrow> BS_DisconnectController bs h d c s = Ret (st, s') \<Longrightarrow> outside F s'"

section \<open>The provider\<close>

definition core_services ::
  "'z hand_scheme mem_scheme notify_fn \<Rightarrow> nat
   \<Rightarrow> (UINTN \<Rightarrow> UINTN list option \<Rightarrow> UINT8 list option \<Rightarrow> bool \<Rightarrow> 'z handst \<Rightarrow> (EFI_STATUS \<times> 'z handst) run)
   \<Rightarrow> (UINTN \<Rightarrow> UINTN \<Rightarrow> UINTN \<Rightarrow> 'z handst \<Rightarrow> (EFI_STATUS \<times> 'z handst) run) \<Rightarrow> 'z handst EFI_BOOT_SERVICES"
where
  "core_services cb n con dis =
     \<lparr>BS_AllocatePool = BootServiceAllocatePool cb n, BS_FreePool = BSFreePool cb n, BS_ConnectController = con, BS_DisconnectController = dis\<rparr>"

definition heap :: "UINTN set \<Rightarrow> 'z hand_scheme mem_scheme \<Rightarrow> bool" where
  "heap L m \<longleftrightarrow> (\<exists>K D V. mem_inv K D V m \<and> (\<forall>b\<in>L. K (hdr b) \<noteq> None))"

definition upper_ok :: "UINTN set \<Rightarrow> 'z hand_scheme mem_scheme \<Rightarrow> bool" where
  "upper_ok F m \<longleftrightarrow> hand_inv (mem.more m) \<and> F \<inter> live (mem.more m) = {} \<and> heap (F \<union> live (mem.more m)) m"

definition drivers_keep ::
  "(UINTN \<Rightarrow> UINTN list option \<Rightarrow> UINT8 list option \<Rightarrow> bool \<Rightarrow> 'z handst \<Rightarrow> (EFI_STATUS \<times> 'z handst) run)
   \<Rightarrow> (UINTN \<Rightarrow> UINTN \<Rightarrow> UINTN \<Rightarrow> 'z handst \<Rightarrow> (EFI_STATUS \<times> 'z handst) run) \<Rightarrow> bool"
where
  "drivers_keep con dis \<longleftrightarrow>
     (\<forall>h im dp rec s st s'. con h im dp rec s = Ret (st, s') \<and> levels s \<longrightarrow>
        levels s' \<and> (\<forall>F. upper_ok F (exec.more s) \<longrightarrow> upper_ok F (exec.more s'))) \<and>
     (\<forall>h d c s st s'. dis h d c s = Ret (st, s') \<and> levels s \<longrightarrow>
        levels s' \<and> (\<forall>F. upper_ok F (exec.more s) \<longrightarrow> upper_ok F (exec.more s')))"

definition inside ::
  "'z hand_scheme mem_scheme notify_fn
   \<Rightarrow> (UINTN \<Rightarrow> UINTN list option \<Rightarrow> UINT8 list option \<Rightarrow> bool \<Rightarrow> 'z handst \<Rightarrow> (EFI_STATUS \<times> 'z handst) run)
   \<Rightarrow> (UINTN \<Rightarrow> UINTN \<Rightarrow> UINTN \<Rightarrow> 'z handst \<Rightarrow> (EFI_STATUS \<times> 'z handst) run) \<Rightarrow> UINTN set \<Rightarrow> 'z handst \<Rightarrow> bool"
where
  "inside cb con dis L s \<longleftrightarrow> cb_keeps upper_ok cb \<and> drivers_keep con dis \<and> levels s \<and> TPL s = TPL_NOTIFY \<and> heap L (exec.more s)"

definition outside ::
  "'z hand_scheme mem_scheme notify_fn
   \<Rightarrow> (UINTN \<Rightarrow> UINTN list option \<Rightarrow> UINT8 list option \<Rightarrow> bool \<Rightarrow> 'z handst \<Rightarrow> (EFI_STATUS \<times> 'z handst) run)
   \<Rightarrow> (UINTN \<Rightarrow> UINTN \<Rightarrow> UINTN \<Rightarrow> 'z handst \<Rightarrow> (EFI_STATUS \<times> 'z handst) run) \<Rightarrow> UINTN set \<Rightarrow> 'z handst \<Rightarrow> bool"
where
  "outside cb con dis F s \<longleftrightarrow> cb_keeps upper_ok cb \<and> drivers_keep con dis \<and> levels s \<and> upper_ok F (exec.more s)"

lemma mem_inv_more:
  assumes "mem_inv K D V m" shows "mem_inv K D (fst V, z) (m\<lparr>mem.more := z\<rparr>)"
proof -
  have e: "MemoryMap (m\<lparr>mem.more := z\<rparr>) = MemoryMap m" "MapEntry (m\<lparr>mem.more := z\<rparr>) = MapEntry m"
    "PoolHeadList (m\<lparr>mem.more := z\<rparr>) = PoolHeadList m" by simp_all
  have "map_inv (m\<lparr>mem.more := z\<rparr>) = map_inv m" by (simp add: map_inv_def mlist_inv_def)
  moreover have "region (m\<lparr>mem.more := z\<rparr>) = region m" by (simp add: region_def)
  moreover have "pool_entries (m\<lparr>mem.more := z\<rparr>) = pool_entries m" "pool_descs (m\<lparr>mem.more := z\<rparr>) = pool_descs m"
    by (simp_all add: pool_entries_def pool_descs_def)
  moreover have "pool_inv C Ka (m\<lparr>mem.more := z\<rparr>) = pool_inv C Ka m" for C Ka
  proof -
    have "fl (m\<lparr>mem.more := z\<rparr>) = fl m" by (intro ext) (simp add: fl_def get_pool_def split: pool_ref.split)
    then show ?thesis by (simp add: pool_inv_def)
  qed
  ultimately show ?thesis using assms unfolding mem_inv_def by simp
qed

lemma heapI: "mem_inv K D V m \<Longrightarrow> (\<And>b. b \<in> L \<Longrightarrow> K (hdr b) \<noteq> None) \<Longrightarrow> heap L m"
  unfolding heap_def by blast

lemma heapE:
  assumes "heap L m"
  obtains K D V where "mem_inv K D V m" "\<And>b. b \<in> L \<Longrightarrow> K (hdr b) \<noteq> None"
  using assms unfolding heap_def by blast

lemma heap_more: "heap L m \<Longrightarrow> heap L (m\<lparr>mem.more := z\<rparr>)"
  by (elim heapE, rule heapI [OF mem_inv_more])

lemma heap_mono: "heap L m \<Longrightarrow> L' \<subseteq> L \<Longrightarrow> heap L' m"
  unfolding heap_def by blast

lemma same_more: "mem_inv K D V m \<Longrightarrow> mem_inv K' D' V m' \<Longrightarrow> mem.more m' = mem.more m"
  by (auto simp: mem_inv_def)

lemma levels_same: "same_levels s s' \<Longrightarrow> levels s' = levels s"
  by (simp add: levels_def same_levels_def)

lemma drivers_keepD:
  "drivers_keep con dis \<Longrightarrow> con h im dp rec s = Ret (st, s') \<Longrightarrow> levels s \<Longrightarrow>
     levels s' \<and> (upper_ok F (exec.more s) \<longrightarrow> upper_ok F (exec.more s'))"
  "drivers_keep con dis \<Longrightarrow> dis h d c s = Ret (st, s') \<Longrightarrow> levels s \<Longrightarrow>
     levels s' \<and> (upper_ok F (exec.more s) \<longrightarrow> upper_ok F (exec.more s'))"
  unfolding drivers_keep_def by blast+

text \<open>The pool on the memory state.\<close>

lemma heap_alloc:
  assumes "heap L m" and "\<not> 0xffffff00 < Size" and "AllocatePoolI n t Size m = Ret (b, m')"
  shows "mem.more m' = mem.more m" "b = 0 \<Longrightarrow> heap L m'" "b \<noteq> 0 \<Longrightarrow> b \<notin> L \<and> heap (insert b L) m'"
proof -
  obtain K D V where K: "mem_inv K D V m" "\<And>b. b \<in> L \<Longrightarrow> K (hdr b) \<noteq> None" using assms(1) by (rule heapE) blast
  have sz: "unat Size \<le> 0xffffff00" using assms(2) by (simp add: word_less_nat_alt)
  note a = alloc_pool_ok [OF K(1) sz assms(3)]
  show "mem.more m' = mem.more m" by (rule same_more [OF K(1) a(1)])
  show "b = 0 \<Longrightarrow> heap L m'" using a(1) heapI [of K D V m', OF _ K(2)] by simp
  assume b: "b \<noteq> 0"
  have "heap (insert b L) m'" by (rule heapI [OF a(1)]) (use b K(2) in auto)
  then show "b \<notin> L \<and> heap (insert b L) m'" using a(2) [OF b] K(2) by blast
qed

lemma heap_free:
  assumes "heap L m" and "b \<in> L" and "FreePoolI n b m = Ret (st, m')"
  shows "mem.more m' = mem.more m" "heap (L - {b}) m'"
proof -
  obtain K D V where K: "mem_inv K D V m" "\<And>b. b \<in> L \<Longrightarrow> K (hdr b) \<noteq> None" using assms(1) by (rule heapE) blast
  have f: "mem_inv (K(hdr b := None)) D V m'" by (rule pool.free_ok [OF K(1) _ assms(3)]) (rule K(2) [OF assms(2)])
  show "mem.more m' = mem.more m" by (rule same_more [OF K(1) f])
  show "heap (L - {b}) m'" by (rule heapI [OF f]) (use K(2) in auto)
qed

text \<open>Under the memory lock.\<close>

lemma with_memory_keeps:
  assumes "cb_keeps J cb" and "with_memory cb n body s = Ret (r, s')"
  shows "\<exists>m. body (exec.more s) = Ret (r, m) \<and> same_levels s s' \<and> TPL s' = TPL s \<and>
     (TPL_NOTIFY \<le> TPL s \<longrightarrow> exec.more s' = m) \<and> (\<forall>F. J F m \<longrightarrow> J F (exec.more s'))"
proof -
  let ?a = "AcquireLock MemoryLock s"
  obtain m where m: "body (exec.more s) = Ret (r, m)" and r: "ReleaseLock cb n MemoryLock (?a\<lparr>exec.more := m\<rparr>) = Ret s'"
    using assms(2) by (auto simp: with_memory_def Let_def)
  have "OwnerTpl (Locks (?a\<lparr>exec.more := m\<rparr>) MemoryLock) = TPL s" by simp
  with ReleaseLock_keeps [OF assms(1) r] show ?thesis using m by (auto simp: keeps_def same_levels_def AcquireLock_def RaiseTPL_def Let_def split: if_splits)
qed

lemma BootServiceAllocatePool_cases:
  assumes "BootServiceAllocatePool cb n t Size s = Ret (st, p, s')"
  obtains "EFI_ERROR st" "s' = s"
    | b where "\<not> 0xffffff00 < Size" "with_memory cb n (AllocatePoolI n t Size) s = Ret (b, s')" "p = Some b" "EFI_ERROR st \<longleftrightarrow> b = 0"
  using assms by (auto simp: BootServiceAllocatePool_def BSAllocatePool_def split: if_splits)

interpretation hdb: handle_env "core_services cb n con dis" cb n "inside cb con dis" "outside cb con dis" for cb n con dis
proof (unfold_locales, goal_cases)
  case (1 L s t Size st p s')
  then have I: "cb_keeps upper_ok cb" "levels s" "TPL s = TPL_NOTIFY" "heap L (exec.more s)" by (simp_all add: inside_def)
  from 1(2) have "BootServiceAllocatePool cb n t Size s = Ret (st, p, s')" by (simp add: core_services_def)
  then show ?case
  proof (cases rule: BootServiceAllocatePool_cases)
    case (2 b)
    obtain m where m: "AllocatePoolI n t Size (exec.more s) = Ret (b, m)" "same_levels s s'" "TPL s' = TPL s" "exec.more s' = m"
      using with_memory_keeps [OF I(1) 2(2)] I(3) by auto
    show ?thesis using heap_alloc [OF I(4) 2(1) m(1)] m 2(3,4) \<open>inside cb con dis L s\<close> levels_same [OF m(2)] by (auto simp: inside_def db_def)
  qed (use 1 in auto)
next
  case (2 L s b st s')
  then have I: "cb_keeps upper_ok cb" "levels s" "TPL s = TPL_NOTIFY" "heap L (exec.more s)" "drivers_keep con dis"
    by (simp_all add: inside_def)
  from 2(3) consider "s' = s" | "with_memory cb n (FreePoolI n b) s = Ret (st, s')"
    by (auto simp: core_services_def BSFreePool_def split: if_splits)
  then show ?case
  proof cases
    case 1
    then show ?thesis using I heap_mono [OF I(4), of "L - {b}"] by (simp add: inside_def)
  next
    case w: 2
    obtain m where m: "FreePoolI n b (exec.more s) = Ret (st, m)" "same_levels s s'" "TPL s' = TPL s" "exec.more s' = m"
      using with_memory_keeps [OF I(1) w] I(3) by auto
    show ?thesis using heap_free [OF I(4) 2(2) m(1)] m I levels_same [OF m(2)] by (simp add: inside_def db_def)
  qed
next
  case (3 L s L' f)
  then show ?case by (auto simp: inside_def upd_db_def levels_def intro: heap_more heap_mono)
next
  case (4 L s e st s')
  then show ?case using SignalEvent_keeps [of upper_ok cb n e s st s'] by (auto simp: inside_def db_def keeps_def levels_def same_levels_def)
next
  case (5 F s)
  then show ?case by (auto simp: outside_def inside_def upper_ok_def db_def levels_def AcquireLock_def RaiseTPL_def Let_def split: if_splits)
next
  case (6 F s s')
  then have I: "cb_keeps upper_ok cb" "levels s" "drivers_keep con dis" "upper_ok F (exec.more s)"
    by (simp_all add: inside_def upper_ok_def db_def)
  show ?case using ReleaseLock_keeps [OF I(1) 6(4)] I levels_same [of s s'] by (simp add: outside_def keeps_def)
next
  case (7 F s t Size st p s')
  then have I: "cb_keeps upper_ok cb" "levels s" "drivers_keep con dis" "upper_ok F (exec.more s)" by (simp_all add: outside_def)
  from 7(2) have "BootServiceAllocatePool cb n t Size s = Ret (st, p, s')" by (simp add: core_services_def)
  then show ?case
  proof (cases rule: BootServiceAllocatePool_cases)
    case (2 b)
    obtain m where m: "AllocatePoolI n t Size (exec.more s) = Ret (b, m)" "same_levels s s'" "\<And>F. upper_ok F m \<Longrightarrow> upper_ok F (exec.more s')"
      using with_memory_keeps [OF I(1) 2(2)] by auto
    have h: "heap (F \<union> live (mem.more (exec.more s))) (exec.more s)" using I(4) by (simp add: upper_ok_def)
    note a = heap_alloc [OF h 2(1) m(1)]
    have "b = 0 \<Longrightarrow> upper_ok F m" "b \<noteq> 0 \<Longrightarrow> b \<notin> F \<and> upper_ok (insert b F) m"
      using I(4) a by (auto simp: upper_ok_def)
    then show ?thesis using I 2(3,4) m(3) levels_same [OF m(2)] by (cases "b = 0") (simp_all add: outside_def)
  qed (use 7 in auto)
next
  case (8 F s b st s')
  then have I: "cb_keeps upper_ok cb" "levels s" "drivers_keep con dis" "upper_ok F (exec.more s)" by (simp_all add: outside_def)
  have h: "heap (F \<union> live (mem.more (exec.more s))) (exec.more s)" "b \<notin> live (mem.more (exec.more s))"
    using I(4) 8(2) by (auto simp: upper_ok_def)
  have eq: "F \<union> live (mem.more (exec.more s)) - {b} = (F - {b}) \<union> live (mem.more (exec.more s))" using h(2) by blast
  from 8(3) consider "s' = s" | "with_memory cb n (FreePoolI n b) s = Ret (st, s')"
    by (auto simp: core_services_def BSFreePool_def split: if_splits)
  then show ?case
  proof cases
    case 1
    then show ?thesis using I heap_mono [OF h(1), of "(F - {b}) \<union> live (mem.more (exec.more s))"] unfolding outside_def upper_ok_def by simp blast
  next
    case w: 2
    obtain m where m: "FreePoolI n b (exec.more s) = Ret (st, m)" "same_levels s s'" "\<And>F. upper_ok F m \<Longrightarrow> upper_ok F (exec.more s')"
      using with_memory_keeps [OF I(1) w] by auto
    have "b \<in> F \<union> live (mem.more (exec.more s))" using 8(2) by blast
    note f = heap_free [OF h(1) this m(1)]
    have "hand_inv (mem.more (exec.more s))" "(F - {b}) \<inter> live (mem.more (exec.more s)) = {}" using I(4) unfolding upper_ok_def by blast+
    then have "upper_ok (F - {b}) m" using f(2) unfolding upper_ok_def f(1) eq by simp
    then show ?thesis using I m(3) levels_same [OF m(2)] by (simp add: outside_def)
  qed
next
  case (9 F s F')
  have "F' \<union> live (mem.more (exec.more s)) \<subseteq> F \<union> live (mem.more (exec.more s))" using 9(2) by blast
  then show ?case using 9 heap_mono unfolding outside_def upper_ok_def by blast
next
  case (10 F s h im dp rec st s')
  then have "con h im dp rec s = Ret (st, s')" by (simp add: core_services_def)
  from drivers_keepD(1) [of con dis, OF _ this] 10(1) show ?case unfolding outside_def by blast
next
  case (11 F s h d c st s')
  then have "dis h d c s = Ret (st, s')" by (simp add: core_services_def)
  from drivers_keepD(2) [of con dis, OF _ this] 11(1) show ?case unfolding outside_def by blast
qed

end
