(* ===== verification/HandleOps.thy ===== *)
theory HandleOps
  imports HandleContract
begin

text \<open>
  Every operation of the handle database keeps it consistent, over the interface of
  \<open>handle_env\<close>: a service that returns leaves a consistent database whose records are allocated, and
  gives back what it allocated for itself.
\<close>

lemma db_upd_db [simp]: "db (upd_db f s) = f (db s)"
  by (simp add: db_def upd_db_def)

lemma upd_db_upd_db [simp]: "upd_db f (upd_db g s) = upd_db (\<lambda>h. f (g h)) s"
  by (simp add: db_def upd_db_def)

lemma db_acquire [simp]: "db (AcquireLock l s) = db s"
  by (simp add: db_def)

lemma find_id_Some:
  "List.find (has_id h g) L = Some e \<Longrightarrow> \<exists>E. Entries h e = Some E \<and> PEProtocolID E = g"
  by (auto simp: find_Some_iff has_id_eq)

lemma find_id_None:
  "List.find (has_id h g) L = None \<Longrightarrow> set L = dom (Entries h) \<Longrightarrow> \<not> has_id h g a"
  by (auto simp: find_None_iff has_id_eq)

lemma scan_prots_Ret:
  "scan_prots Q P ps = Ret p \<Longrightarrow> p \<noteq> 0 \<Longrightarrow> p \<in> set ps \<and> (\<exists>X. P p = Some X \<and> Q X)"
  by (induction ps) (auto split: option.splits if_splits)

lemma FindProtocolInterface_Ret:
  assumes "FindProtocolInterface h a g i = Ret p" and "p \<noteq> 0" and "hand_inv h"
  shows "\<exists>X E. Prots h p = Some X \<and> PIInterface X = i \<and> PIHandle X = a \<and> Entries h (PIProtocol X) = Some E \<and> PEProtocolID E = g"
proof -
  obtain e H where e: "List.find (has_id h g) (ProtocolDatabase h) = Some e" and H: "Handles h a = Some H"
      and s: "scan_prots (\<lambda>Prot. PIInterface Prot = i \<and> PIProtocol Prot = e) (Prots h) (IHProtocols H) = Ret p"
    using assms(1,2) by (auto simp: FindProtocolInterface_def split: option.splits)
  obtain X where X: "p \<in> set (IHProtocols H)" "Prots h p = Some X" "PIInterface X = i" "PIProtocol X = e"
    using scan_prots_Ret [OF s assms(2)] by auto
  have "PIHandle X = a" using handles_okD(5) [OF hand_invD(1) [OF assms(3)] H, of p] X(1,2) by auto
  then show ?thesis using X find_id_Some [OF e] by auto
qed

lemma GetProtocolEntry_Ret:
  assumes "GetProtocolEntry h a g = Ret p" and "p \<noteq> 0"
  shows "\<exists>X. Prots h p = Some X \<and> has_id h g (PIProtocol X)"
  using assms by (auto simp: GetProtocolEntry_def dest!: scan_prots_Ret split: option.splits if_splits)

context handle_env
begin

section \<open>Critical sections\<close>

definition sect :: "UINTN set \<Rightarrow> 'z handst \<Rightarrow> bool" where
  "sect F s \<longleftrightarrow> inside (F \<union> live (db s)) s \<and> hand_inv (db s) \<and> F \<inter> live (db s) = {}"

lemma sect_inv: "sect F s \<Longrightarrow> hand_inv (db s)"
  by (simp add: sect_def)

lemma sect_acquire: "outside F s \<Longrightarrow> sect F (AcquireLock ProtocolDatabaseLock s)"
  using acquire by (simp add: sect_def)

lemma sect_release: "sect F s \<Longrightarrow> ReleaseLock cb n ProtocolDatabaseLock s = Ret s' \<Longrightarrow> outside F s'"
  using release [of F s s'] by (simp add: sect_def)

lemma sect_upd:
  "sect F s \<Longrightarrow> hand_inv (f (db s)) \<Longrightarrow> F' \<inter> live (f (db s)) = {} \<Longrightarrow> F' \<union> live (f (db s)) \<subseteq> F \<union> live (db s) \<Longrightarrow> sect F' (upd_db f s)"
  unfolding sect_def using in_upd [of "F \<union> live (db s)" s "F' \<union> live (f (db s))" f] by simp

lemma sect_same: "sect F s \<Longrightarrow> hand_inv (f (db s)) \<Longrightarrow> live (f (db s)) = live (db s) \<Longrightarrow> sect F (upd_db f s)"
  by (rule sect_upd [where F = F]) (simp_all add: sect_def)

lemma sect_mono: "sect F s \<Longrightarrow> F' \<subseteq> F \<Longrightarrow> sect F' s"
  using sect_upd [of F s "\<lambda>h. h" F'] by (auto simp: sect_def upd_db_def db_def)

text \<open>A record that enters the database, and one that leaves it.\<close>

lemma sect_enter:
  "sect (insert b F) s \<Longrightarrow> b \<notin> F \<Longrightarrow> hand_inv (f (db s)) \<Longrightarrow> live (f (db s)) = insert b (live (db s)) \<Longrightarrow> sect F (upd_db f s)"
  by (rule sect_upd [where F = "insert b F"]) (auto simp: sect_def)

lemma sect_leave:
  "sect F s \<Longrightarrow> b \<in> live (db s) \<Longrightarrow> hand_inv (f (db s)) \<Longrightarrow> live (f (db s)) \<subseteq> live (db s) - {b} \<Longrightarrow> sect (insert b F) (upd_db f s) \<and> b \<notin> F"
  by (rule conjI, rule sect_upd [where F = F]) (auto simp: sect_def)

lemma BS_AllocatePool_sect:
  assumes "sect F s" and "BS_AllocatePool bs t Size s = Ret (st, p, s')"
  shows "db s' = db s \<and> (if EFI_ERROR st then sect F s'
     else \<exists>b. p = Some b \<and> b \<noteq> 0 \<and> b \<notin> F \<and> b \<notin> live (db s) \<and> sect (insert b F) s')"
  using in_alloc [OF _ assms(2), of "F \<union> live (db s)"] assms(1) by (auto simp: sect_def)

lemma AllocatePool_sect:
  assumes "sect F s" and "AllocatePool bs Size s = Ret (b, s')"
  shows "db s' = db s \<and> (if b = 0 then sect F s' else b \<notin> F \<and> b \<notin> live (db s) \<and> sect (insert b F) s')"
proof -
  obtain st p where a: "BS_AllocatePool bs EfiBootServicesData Size s = Ret (st, p, s')"
      and b: "b = (if EFI_ERROR st then 0 else case p of None \<Rightarrow> 0 | Some b \<Rightarrow> b)"
    using assms(2) by (auto simp: AllocatePool_def)
  show ?thesis using BS_AllocatePool_sect [OF assms(1) a] b by (auto split: if_splits)
qed

lemma FreePool_sect:
  assumes "sect (insert b F) s" and "b \<notin> F" and "FreePool bs b s = Ret s'"
  shows "db s' = db s \<and> sect F s'"
proof -
  obtain st where f: "BS_FreePool bs b s = Ret (st, s')" using assms(3) by (auto simp: FreePool_def)
  have "insert b F \<union> live (db s) - {b} = F \<union> live (db s)" using assms(1,2) by (auto simp: sect_def)
  then show ?thesis using in_free [OF _ _ f, of "insert b F \<union> live (db s)"] assms(1) by (auto simp: sect_def)
qed

lemma FindProtocolEntry_sect:
  assumes "sect F s" and "FindProtocolEntry bs g c s = Ret (e, s')"
  shows "sect F s' \<and> (e \<noteq> 0 \<longrightarrow> Entries (db s') e \<noteq> None)"
proof (cases "List.find (has_id (db s) g) (ProtocolDatabase (db s))")
  case (Some e')
  then show ?thesis using assms find_id_Some [OF Some] by (auto simp: FindProtocolEntry_def)
next
  case None
  note new = find_id_None [OF None entries_okD(2) [OF hand_invD(2) [OF sect_inv [OF assms(1)]]]]
  show ?thesis
  proof (cases c)
    case True
    then obtain s1 where a: "AllocatePool bs sizeof_PROTOCOL_ENTRY s = Ret (e, s1)" and s': "s' = (if e \<noteq> 0 then upd_db (new_entry e g) s1 else s1)"
      using assms(2) None by (auto simp: FindProtocolEntry_def)
    note b = AllocatePool_sect [OF assms(1) a]
    show ?thesis
    proof (cases "e = 0")
      case False
      then have e: "e \<notin> F" "e \<notin> live (db s1)" "sect (insert e F) s1" "db s1 = db s" using b by auto
      have n: "\<forall>a. \<not> has_id (db s1) g a" using new e(4) by simp
      have "sect F (upd_db (new_entry e g) s1)"
        by (rule sect_enter [OF e(3,1)]) (rule new_entry_inv [OF sect_inv [OF e(3)] e(2) False n])+
      then show ?thesis using s' False by (simp add: new_entry_def)
    qed (use b s' in auto)
  qed (use assms None in \<open>auto simp: FindProtocolEntry_def\<close>)
qed

lemma notify_all_sect: "sect F s \<Longrightarrow> notify_all_entries cb n as s = Ret s' \<Longrightarrow> db s' = db s \<and> sect F s'"
proof (induction as arbitrary: s)
  case (Cons a as)
  obtain N where N: "Notifies (db s) a = Some N" using Cons.prems(2) by (cases "Notifies (db s) a") auto
  then obtain st s1 where s1: "SignalEvent cb n (PNEvent N) s = Ret (st, s1)" "notify_all_entries cb n as s1 = Ret s'"
    using Cons.prems(2) by auto
  have "db s1 = db s" "sect F s1" using in_signal [OF _ s1(1)] Cons.prems(1) by (auto simp: sect_def)
  then show ?case using Cons.IH [OF _ s1(2)] by simp
qed simp

lemma NotifyProtocolEntry_sect: "sect F s \<Longrightarrow> NotifyProtocolEntry cb n e s = Ret s' \<Longrightarrow> db s' = db s \<and> sect F s'"
  using notify_all_sect by (auto simp: NotifyProtocolEntry_def split: option.splits)

section \<open>Open lists\<close>

lemma sect_disconnect:
  assumes "sect F s" and "ReleaseLock cb n ProtocolDatabaseLock s = Ret s1" and "BS_DisconnectController bs h d c s1 = Ret (st, s2)"
  shows "sect F (AcquireLock ProtocolDatabaseLock s2)"
  by (rule sect_acquire [OF disconnect [OF sect_release [OF assms(1,2)] assms(3)]])

lemma sect_connect:
  assumes "sect F s" and "ReleaseLock cb n ProtocolDatabaseLock s = Ret s1" and "BS_ConnectController bs h im dp r s1 = Ret (st, s2)"
  shows "sect F (AcquireLock ProtocolDatabaseLock s2)"
  by (rule sect_acquire [OF connect [OF sect_release [OF assms(1,2)] assms(3)]])

lemma disconnect_loop_sect:
  "sect F s \<Longrightarrow> disconnect_loop bs cb n k h p s = Ret (ok, s') \<Longrightarrow>
     sect F s' \<and> (ok \<longrightarrow> (\<exists>X. Prots (db s') p = Some X \<and> filter by_driver (PIOpenList X) = []))"
proof (induction k arbitrary: s)
  case (Suc k)
  obtain X where X: "Prots (db s) p = Some X" using Suc.prems(2) by (cases "Prots (db s) p") auto
  show ?case
  proof (cases "List.find by_driver (PIOpenList X)")
    case None
    then have "filter by_driver (PIOpenList X) = []" by (auto simp: find_None_iff filter_empty_conv)
    then show ?thesis using Suc.prems X None by auto
  next
    case (Some D)
    then obtain s1 st s2 where s1: "ReleaseLock cb n ProtocolDatabaseLock s = Ret s1"
        and s2: "BS_DisconnectController bs h (ODAgentHandle (snd D)) 0 s1 = Ret (st, s2)"
        and r: "(if EFI_ERROR st then Ret (False, AcquireLock ProtocolDatabaseLock s2)
                 else disconnect_loop bs cb n k h p (AcquireLock ProtocolDatabaseLock s2)) = Ret (ok, s')"
      using Suc.prems(2) X by (auto simp: Let_def)
    have "sect F (AcquireLock ProtocolDatabaseLock s2)" by (rule sect_disconnect [OF Suc.prems(1) s1 s2])
    then show ?thesis using r Suc.IH [of "AcquireLock ProtocolDatabaseLock s2"] by (auto split: if_splits)
  qed
qed simp

lemma remove_opens_sect:
  "sect F s \<Longrightarrow> remove_opens bs Q k p s = Ret (r, s') \<Longrightarrow> sect F s'"
proof (induction k arbitrary: s r)
  case (Suc k)
  obtain X where X: "Prots (db s) p = Some X" using Suc.prems(2) by (cases "Prots (db s) p") auto
  show ?case
  proof (cases "List.find Q (PIOpenList X)")
    case None
    then show ?thesis using Suc.prems X by auto
  next
    case (Some aD)
    obtain a D where aD: "aD = (a, D)" by (cases aD)
    then obtain s1 where s1: "FreePool bs a (upd_db (upd_prot p (drop_open a)) s) = Ret s1"
        and r: "bind_run (remove_opens bs Q k p s1) (\<lambda>(_, s2). Ret (True, s2)) = Ret (r, s')"
      using Suc.prems(2) X Some by auto
    have m: "(a, D) \<in> set (PIOpenList X)" using Some aD by (auto simp: find_Some_iff)
    note d = drop_open_inv [OF sect_inv [OF Suc.prems(1)] X m]
    have "a \<in> open_addrs (Prots (db s))" using X m unfolding open_addrs_def by force
    then have "a \<in> live (db s)" by (simp add: live_def)
    then have "sect (insert a F) (upd_db (upd_prot p (drop_open a)) s) \<and> a \<notin> F"
      by (rule sect_leave [OF Suc.prems(1)]) (use d in simp_all)
    then have "sect F s1" using FreePool_sect [OF _ _ s1] by blast
    then show ?thesis using Suc.IH [of s1] r by auto
  qed
qed simp

lemma DisconnectControllers_sect:
  assumes "sect F s" and "DisconnectControllersUsingProtocolInterface bs cb n h p s = Ret (st, s')"
  shows "sect F s'"
proof -
  obtain ok s1 where d: "disconnect_loop bs cb n n h p s = Ret (ok, s1)"
      and r: "(if \<not> ok then Ret (EFI_ACCESS_DENIED, s1)
       else bind_run (remove_opens bs by_lookup n p s1) (\<lambda>(_, s2).
         case Prots (db s2) p of
           None \<Rightarrow> Fault
         | Some Prot \<Rightarrow>
             if PIOpenListCount Prot > 0
             then bind_run (ReleaseLock cb n ProtocolDatabaseLock s2) (\<lambda>s3.
                  bind_run (BS_ConnectController bs h None None True s3) (\<lambda>(_, s4).
                    Ret (EFI_ACCESS_DENIED, AcquireLock ProtocolDatabaseLock s4)))
             else Ret (EFI_SUCCESS, s2))) = Ret (st, s')"
    using assms(2) unfolding DisconnectControllersUsingProtocolInterface_def by auto
  have s1: "sect F s1" using disconnect_loop_sect [OF assms(1) d] by blast
  show ?thesis
  proof (cases ok)
    case True
    then obtain q s2 where q: "remove_opens bs by_lookup n p s1 = Ret (q, s2)" using r by auto
    have s2: "sect F s2" by (rule remove_opens_sect [OF s1 q])
    then show ?thesis using r True q sect_connect [OF s2] by (auto split: option.splits if_splits)
  qed (use r s1 in auto)
qed

lemma new_open_sect:
  assumes "sect F s" and "new_open bs p Agent Controller Attributes s = Ret (st, s')" and "Prots (db s) p = Some X"
    and "Attributes AND EFI_OPEN_PROTOCOL_BY_DRIVER \<noteq> 0 \<Longrightarrow> filter by_driver (PIOpenList X) = []"
  shows "sect F s'"
proof (cases "Agent = 0")
  case False
  then obtain st' a s1 where a: "BS_AllocatePool bs EfiBootServicesData sizeof_OPEN_PROTOCOL_DATA s = Ret (st', a, s1)"
      and r: "(if EFI_ERROR st' then Ret (st', s1)
        else case a of
               None \<Rightarrow> Fault
             | Some b \<Rightarrow>
                 if Prots (db s1) p = None then Fault
                 else Ret (EFI_SUCCESS, upd_db (upd_prot p (add_open b
                        \<lparr>ODAgentHandle = Agent, ODControllerHandle = Controller,
                         ODAttributes = Attributes, ODOpenCount = 1\<rparr>)) s1)) = Ret (st, s')"
    using assms(2) by (auto simp: new_open_def)
  show ?thesis
  proof (cases "EFI_ERROR st'")
    case False
    with BS_AllocatePool_sect [OF assms(1) a] obtain b where b: "a = Some b" "b \<notin> F" "b \<notin> live (db s1)" "sect (insert b F) s1" "db s1 = db s"
      by auto
    let ?D = "\<lparr>ODAgentHandle = Agent, ODControllerHandle = Controller, ODAttributes = Attributes, ODOpenCount = 1\<rparr>"
    have X: "Prots (db s1) p = Some X" using b(5) assms(3) by simp
    have one: "by_driver (b, ?D) \<Longrightarrow> filter by_driver (PIOpenList X) = []" using assms(4) by (simp add: by_driver_def)
    have "sect F (upd_db (upd_prot p (add_open b ?D)) s1)"
      by (rule sect_enter [OF b(4,2)]) (rule add_open_inv [OF sect_inv [OF b(4)] X b(3) one], assumption)+
    then show ?thesis using r False b(1) X by simp
  qed (use BS_AllocatePool_sect [OF assms(1) a] r in simp)
qed (use assms in \<open>simp add: new_open_def\<close>)

lemma scan_open_end:
  "scan_open Agent Controller Attributes ByDriver Exclusive ds = Scan_end B E \<Longrightarrow>
     B = (ByDriver \<or> (\<exists>x\<in>set ds. by_driver x)) \<and> E = (Exclusive \<or> (\<exists>x\<in>set ds. ODAttributes (snd x) AND EFI_OPEN_PROTOCOL_EXCLUSIVE \<noteq> 0))"
  by (induction Agent Controller Attributes ByDriver Exclusive ds rule: scan_open.induct)
     (auto simp: by_driver_def Let_def split: if_splits)

lemma open_body_sect:
  assumes "sect F s" and "open_body bs cb n h g Agent Controller Attributes s = Ret (r, s')"
    and at: "\<not> EFI_ERROR (check_attributes s0 h Agent Controller Attributes)"
  shows "sect F s'"
proof -
  obtain p where p: "GetProtocolEntry (db s) h g = Ret p" using assms(2) by (auto simp: open_body_def)
  show ?thesis
  proof (cases "p = 0")
    case False
    obtain X where X: "Prots (db s) p = Some X" using GetProtocolEntry_Ret [OF p False] by blast
    show ?thesis
    proof (cases "scan_open Agent Controller Attributes False False (PIOpenList X)")
      case (Scan_end B E)
      define pick where "pick = (if Attributes = EFI_OPEN_PROTOCOL_BY_DRIVER then Ret (\<not> (E \<or> B), s)
                          else if Attributes = EFI_OPEN_PROTOCOL_BY_DRIVER OR EFI_OPEN_PROTOCOL_EXCLUSIVE \<or>
                                  Attributes = EFI_OPEN_PROTOCOL_EXCLUSIVE
                          then if E then Ret (False, s)
                               else if B then disconnect_loop bs cb n n h p s
                               else Ret (True, s)
                          else Ret (True, s))"
      define I where "I = (if Attributes \<noteq> EFI_OPEN_PROTOCOL_TEST_PROTOCOL then Some (PIInterface X) else None)"
      have "bind_run pick (\<lambda>(ok, s1).
           if \<not> ok then Ret ((EFI_ACCESS_DENIED, I), s1)
           else bind_run (new_open bs p Agent Controller Attributes s1) (\<lambda>(Status, s2). Ret ((Status, I), s2))) = open_body bs cb n h g Agent Controller Attributes s"
        unfolding pick_def I_def using p False X Scan_end by (simp add: open_body_def Let_def del: bind_run_Ret)
      then obtain ok s1 where o: "pick = Ret (ok, s1)" and e: "\<not> ok \<Longrightarrow> s' = s1"
          and k: "ok \<Longrightarrow> \<exists>st. new_open bs p Agent Controller Attributes s1 = Ret (st, s')"
        unfolding assms(2) by (auto split: if_splits)
      note o = o [unfolded pick_def]
      have B: "\<not> B \<Longrightarrow> filter by_driver (PIOpenList X) = []" using scan_open_end [OF Scan_end] by (auto simp: filter_empty_conv)
      have s1: "sect F s1" using o assms(1) disconnect_loop_sect [OF assms(1)] by (auto split: if_splits)
      show ?thesis
      proof (cases ok)
        case True
        then obtain st where st: "new_open bs p Agent Controller Attributes s1 = Ret (st, s')" using k by blast
        have "\<exists>Y. Prots (db s1) p = Some Y \<and> (Attributes AND EFI_OPEN_PROTOCOL_BY_DRIVER \<noteq> 0 \<longrightarrow> filter by_driver (PIOpenList Y) = [])"
        proof (cases "B \<and> \<not> E \<and> (Attributes = EFI_OPEN_PROTOCOL_BY_DRIVER OR EFI_OPEN_PROTOCOL_EXCLUSIVE \<or> Attributes = EFI_OPEN_PROTOCOL_EXCLUSIVE)")
          case True
          then have "disconnect_loop bs cb n n h p s = Ret (True, s1)" using o \<open>ok\<close> by (auto split: if_splits)
          then show ?thesis using disconnect_loop_sect [OF assms(1)] by blast
        next
          case False
          then have "s1 = s" and "\<not> B \<or> Attributes AND EFI_OPEN_PROTOCOL_BY_DRIVER = 0"
            using o \<open>ok\<close> at by (auto simp: check_attributes_def split: if_splits)
          then show ?thesis using X B by auto
        qed
        then show ?thesis using new_open_sect [OF s1 st] by blast
      qed (use s1 e in simp)
    next
      case (Scan_counted a)
      then have "s' = upd_db (upd_prot p (count_open a)) s" using assms(2) p False X by (auto simp: open_body_def Let_def)
      then show ?thesis using sect_same [OF assms(1)] count_open_inv [OF sect_inv [OF assms(1)] X] by simp
    qed (use assms p False X in \<open>auto simp: open_body_def Let_def\<close>)
  qed (use assms p in \<open>auto simp: open_body_def\<close>)
qed

lemma OpenProtocol_ok:
  assumes "outside F s" and "OpenProtocol bs cb n h g I Agent Controller Attributes s = Ret (st, i, s')"
  shows "outside F s'"
proof (cases "s' = s")
  case False
  obtain g' r s1 where "\<not> EFI_ERROR (check_attributes s h Agent Controller Attributes)"
      and o: "open_body bs cb n h g' Agent Controller Attributes (AcquireLock ProtocolDatabaseLock s) = Ret (r, s1)"
      and rel: "ReleaseLock cb n ProtocolDatabaseLock s1 = Ret s'"
    using assms(2) False by (auto simp: OpenProtocol_def Let_def split: option.splits if_splits)
  then show ?thesis using sect_release [OF open_body_sect [OF sect_acquire [OF assms(1)] o] rel] by blast
qed (use assms in simp)

lemma HandleProtocol_ok: "outside F s \<Longrightarrow> HandleProtocol bs cb n h g I s = Ret (st, i, s') \<Longrightarrow> outside F s'"
  unfolding HandleProtocol_def by (rule OpenProtocol_ok)

lemma CloseProtocol_ok:
  assumes "outside F s" and "CloseProtocol bs cb n h g Agent Controller s = Ret (st, s')"
  shows "outside F s'"
proof -
  note a = sect_acquire [OF assms(1)]
  show ?thesis
    using assms sect_release [OF a] sect_release [OF remove_opens_sect [OF a]]
    by (auto simp: CloseProtocol_def Let_def split: option.splits if_splits)
qed

end

end
