(* ===== verification/InstallOps.thy ===== *)
theory InstallOps
  imports HandleOps
begin

text \<open>
  Installing, uninstalling and reinstalling interfaces and the services built on the lists of the
  database keep it consistent.
\<close>

lemma find_notify_Some:
  assumes "find_notify h v = Some a" shows "\<exists>N. Notifies h a = Some N \<and> PNEvent N = v"
  using assms by (auto simp: find_notify_def find_Some_iff has_event_def split: option.splits)

lemma touch_fields [simp]:
  "Prots (touch a h) = Prots h" "Entries (touch a h) = Entries h" "Notifies (touch a h) = Notifies h"
  "ProtocolDatabase (touch a h) = ProtocolDatabase h" "HandleList (touch a h) = HandleList h"
  "Handles (touch a h) b = None \<longleftrightarrow> Handles h b = None"
  by (simp_all add: touch_def Let_def)

context handle_env
begin

section \<open>Installing\<close>

lemma link_prot_sect:
  assumes "sect (insert p F) s" and "p \<notin> F" "p \<noteq> 0" and "Handles (db s) a \<noteq> None" and "Entries (db s) e \<noteq> None"
  shows "sect F (upd_db (link_prot p a e i) s)"
proof -
  have "p \<notin> live (db s)" using assms(1) by (auto simp: sect_def)
  then show ?thesis by (intro sect_enter [OF assms(1,2)] link_prot_inv [OF sect_inv [OF assms(1)]] assms(3-5))
qed

lemma new_handle_sect:
  assumes "sect (insert a F) s" and "a \<notin> F" "a \<noteq> 0"
  shows "sect F (upd_db (new_handle a) s)"
proof -
  have "a \<notin> live (db s)" using assms(1) by (auto simp: sect_def)
  then show ?thesis by (intro sect_enter [OF assms(1,2)] new_handle_inv [OF sect_inv [OF assms(1)]] assms(3))
qed

lemma install_body_sect:
  assumes "sect F s" and "install_body bs cb n Status0 uh g i s = Ret ((st, p, a), s')" and "EFI_ERROR Status0"
  shows "if EFI_ERROR st \<and> p \<noteq> 0 then p \<notin> F \<and> sect (insert p F) s' else sect F s'"
proof -
  obtain e s1 where e: "FindProtocolEntry bs g True s = Ret (e, s1)"
      and r1: "(if e = 0 then Ret ((Status0, 0, 0), s1)
       else bind_run (AllocatePool bs sizeof_PROTOCOL_INTERFACE s1) (\<lambda>(p, s2).
         if p = 0 then Ret ((Status0, 0, 0), s2)
         else bind_run (if uh \<noteq> 0 then Ret (uh, s2)
                        else bind_run (AllocatePool bs sizeof_IHANDLE s2) (\<lambda>(a, s3).
                               Ret (a, if a \<noteq> 0 then upd_db (new_handle a) s3 else s3))) (\<lambda>(Handle, s3).
           if Handle = 0 then Ret ((Status0, p, 0), s3)
           else if Handles (db s3) Handle = None then Ret ((EFI_INVALID_PARAMETER, p, Handle), s3)
           else bind_run (NotifyProtocolEntry cb n e (upd_db (link_prot p Handle e i) s3)) (\<lambda>s4.
                  Ret ((EFI_SUCCESS, p, Handle), s4))))) = Ret ((st, p, a), s')"
    using assms(2) unfolding install_body_def bind_run_Ret by auto
  note s1 = FindProtocolEntry_sect [OF assms(1) e]
  show ?thesis
  proof (cases "e = 0")
    case False
    then obtain q s2 where q: "AllocatePool bs sizeof_PROTOCOL_INTERFACE s1 = Ret (q, s2)"
      and r2: "(if q = 0 then Ret ((Status0, 0, 0), s2)
         else bind_run (if uh \<noteq> 0 then Ret (uh, s2)
                        else bind_run (AllocatePool bs sizeof_IHANDLE s2) (\<lambda>(a, s3).
                               Ret (a, if a \<noteq> 0 then upd_db (new_handle a) s3 else s3))) (\<lambda>(Handle, s3).
           if Handle = 0 then Ret ((Status0, q, 0), s3)
           else if Handles (db s3) Handle = None then Ret ((EFI_INVALID_PARAMETER, q, Handle), s3)
           else bind_run (NotifyProtocolEntry cb n e (upd_db (link_prot q Handle e i) s3)) (\<lambda>s4.
                  Ret ((EFI_SUCCESS, q, Handle), s4)))) = Ret ((st, p, a), s')"
      using r1 by auto
    note s2 = AllocatePool_sect [OF conjunct1 [OF s1] q]
    show ?thesis
    proof (cases "q = 0")
      case qn: False
      then have s2': "q \<notin> F" "sect (insert q F) s2" "Entries (db s2) e \<noteq> None" using s2 s1 False by auto
      obtain b s3 where h: "(if uh \<noteq> 0 then Ret (uh, s2)
                        else bind_run (AllocatePool bs sizeof_IHANDLE s2) (\<lambda>(a, s3).
                               Ret (a, if a \<noteq> 0 then upd_db (new_handle a) s3 else s3))) = Ret (b, s3)"
          and r3: "(if b = 0 then Ret ((Status0, q, 0), s3)
           else if Handles (db s3) b = None then Ret ((EFI_INVALID_PARAMETER, q, b), s3)
           else bind_run (NotifyProtocolEntry cb n e (upd_db (link_prot q b e i) s3)) (\<lambda>s4.
                  Ret ((EFI_SUCCESS, q, b), s4))) = Ret ((st, p, a), s')"
        using r2 qn by auto
      have s3: "sect (insert q F) s3" "Entries (db s3) e \<noteq> None"
      proof -
        consider "s3 = s2" | s where "AllocatePool bs sizeof_IHANDLE s2 = Ret (b, s)" "s3 = (if b \<noteq> 0 then upd_db (new_handle b) s else s)"
          using h by (auto split: if_splits)
        then have "sect (insert q F) s3 \<and> Entries (db s3) e \<noteq> None"
        proof cases
          case (2 s)
          have "b \<noteq> 0 \<Longrightarrow> sect (insert q F) (upd_db (new_handle b) s)"
            using AllocatePool_sect [OF s2'(2) 2(1)] new_handle_sect [of b "insert q F" s] by (auto simp: insert_commute)
          then show ?thesis using AllocatePool_sect [OF s2'(2) 2(1)] s2'(3) 2(2) by (auto simp: new_handle_def Let_def)
        qed (use s2' in simp)
        then show "sect (insert q F) s3" "Entries (db s3) e \<noteq> None" by blast+
      qed
      show ?thesis
      proof (cases "b = 0 \<or> Handles (db s3) b = None")
        case True
        then show ?thesis using r3 s3 s2' qn assms(3) by (auto split: if_splits)
      next
        case False
        then have "sect F (upd_db (link_prot q b e i) s3)" using link_prot_sect [OF s3(1) s2'(1) qn] s3(2) by blast
        then show ?thesis using NotifyProtocolEntry_sect r3 False by auto
      qed
    qed (use s2 r2 in auto)
  qed (use s1 r1 in auto)
qed

lemma release_ret: "sect F s \<Longrightarrow> ret_ok (outside F) (ReleaseLock cb n ProtocolDatabaseLock s)"
  using sect_release by (simp add: ret_ok_def)

lemma out_free_ret: "outside (insert b F) s \<Longrightarrow> b \<notin> F \<Longrightarrow> ret_ok (outside F) (FreePool bs b s)"
  using out_free [of "insert b F" s b] by (fastforce simp: ret_ok_def FreePool_def)

lemma InstallProtocolInterface_ok:
  assumes "outside F s" shows "ret_ok (\<lambda>(st, u, s'). outside F s') (InstallProtocolInterface bs cb n uh g t i s)"
proof -
  have first: "ret_ok (\<lambda>(st, s1). outside F s1 \<and> (h = 0 \<longrightarrow> EFI_ERROR st))
     (if h \<noteq> 0 then bind_run (HandleProtocol bs cb n h g True s) (\<lambda>(Status, _, s1). Ret (Status, s1))
      else Ret (EFI_OUT_OF_RESOURCES, s))" for h g
    using HandleProtocol_ok [OF assms] assms by (auto simp: ret_ok_def)
  have body: "ret_ok (\<lambda>((st, p, a), s2). if EFI_ERROR st \<and> p \<noteq> 0 then p \<notin> F \<and> sect (insert p F) s2 else sect F s2)
     (install_body bs cb n st h g i (AcquireLock ProtocolDatabaseLock s1))" if "outside F s1" "EFI_ERROR st" for st h g s1
    unfolding ret_ok_def using install_body_sect [OF sect_acquire [OF that(1)] _ that(2)] by fast
  have last: "ret_ok (\<lambda>(st, u, s'). outside F s')
     (bind_run (ReleaseLock cb n ProtocolDatabaseLock s2) (\<lambda>s3.
        if \<not> EFI_ERROR st then Ret (st, Some a, s3)
        else if p \<noteq> 0 then bind_run (FreePool bs p s3) (\<lambda>s4. Ret (st, u, s4)) else Ret (st, u, s3)))"
    if "if EFI_ERROR st \<and> p \<noteq> 0 then p \<notin> F \<and> sect (insert p F) s2 else sect F s2" for st p a u s2
  proof (cases "EFI_ERROR st \<and> p \<noteq> 0")
    case True
    then have p: "p \<notin> F" "sect (insert p F) s2" using that by auto
    have fr: "ret_ok (\<lambda>(st, u, s'). outside F s') (bind_run (FreePool bs p s3) (\<lambda>s4. Ret (st, u, s4)))" if "outside (insert p F) s3" for s3
      by (rule ret_ok_bind [OF out_free_ret [OF that p(1)]]) simp
    show ?thesis using True by simp (intro ret_ok_bind [OF release_ret [OF p(2)]] fr)
  next
    case False
    then show ?thesis using that by (intro ret_ok_bind [OF release_ret [of F s2]]) auto
  qed
  have rest: "ret_ok (\<lambda>(st, u, s'). outside F s')
     (if h \<noteq> 0 \<and> \<not> EFI_ERROR st then Ret (EFI_INVALID_PARAMETER, u, s1)
      else bind_run (install_body bs cb n st h g i (AcquireLock ProtocolDatabaseLock s1)) (\<lambda>((Status, p, Handle), s2).
                 bind_run (ReleaseLock cb n ProtocolDatabaseLock s2) (\<lambda>s3.
                   if \<not> EFI_ERROR Status then Ret (Status, Some Handle, s3)
                   else if p \<noteq> 0 then bind_run (FreePool bs p s3) (\<lambda>s4. Ret (Status, u, s4))
                   else Ret (Status, u, s3))))" if "outside F s1" "h = 0 \<longrightarrow> EFI_ERROR st" for st s1 h g u
  proof (cases "h \<noteq> 0 \<and> \<not> EFI_ERROR st")
    case False
    then have "EFI_ERROR st" using that by blast
    then show ?thesis using False that(1) by (simp only: if_False) (rule ret_ok_bind [OF body], auto intro: last)
  qed (use that in simp)
  show ?thesis
  proof (cases "uh = None \<or> g = None \<or> t \<noteq> EFI_NATIVE_INTERFACE")
    case True
    then show ?thesis using assms by (auto simp: InstallProtocolInterface_def split: option.split)
  next
    case False
    then obtain h g' where eq: "uh = Some h" "g = Some g'" "t = EFI_NATIVE_INTERFACE" by auto
    show ?thesis
      unfolding InstallProtocolInterface_def eq prod.case option.case simp_thms if_False
      by (rule ret_ok_bind [OF first]) (clarify, rule rest)
  qed
qed

section \<open>Uninstalling\<close>

lemma RemoveInterface_sect:
  assumes "sect F s" and "RemoveInterfaceFromProtocol h g i s = Ret (p, s')" and "p \<noteq> 0"
  shows "\<exists>X E. Prots (db s) p = Some X \<and> PIHandle X = h \<and> PIInterface X = i \<and>
     Entries (db s) (PIProtocol X) = Some E \<and> PEProtocolID E = g \<and> s' = upd_db (detach p (PIProtocol X) E) s"
proof -
  have f: "FindProtocolInterface (db s) h g i = Ret p" using assms(2,3) by (auto simp: RemoveInterfaceFromProtocol_def split: if_splits option.splits)
  from FindProtocolInterface_Ret [OF f assms(3) sect_inv [OF assms(1)]] obtain X E where
    "Prots (db s) p = Some X" "PIInterface X = i" "PIHandle X = h" "Entries (db s) (PIProtocol X) = Some E" "PEProtocolID E = g" by blast
  then show ?thesis using assms(2,3) f by (intro exI [of _ X] exI [of _ E]) (simp add: RemoveInterfaceFromProtocol_def)
qed

lemma RemoveInterface_0: "RemoveInterfaceFromProtocol h g i s = Ret (0, s') \<Longrightarrow> s' = s"
  by (auto simp: RemoveInterfaceFromProtocol_def split: if_splits option.splits)

lemma touch_sect: "sect F s \<Longrightarrow> sect F (upd_db (touch a) s)"
  using touch_inv [OF sect_inv] by (intro sect_same)

lemma unlink_sect:
  assumes "sect F s" and X: "Prots (db s) p = Some X" and E: "Entries (db s) (PIProtocol X) = Some E"
    and "FreePool bs p (upd_db (uninstall_db p (PIProtocol X) E (PIHandle X)) s) = Ret s'"
  shows "sect F s' \<and> db s' = uninstall_db p (PIProtocol X) E (PIHandle X) (db s)"
proof -
  have "p \<in> live (db s)" using X by (auto simp: live_def)
  from sect_leave [OF assms(1) this, of "uninstall_db p (PIProtocol X) E (PIHandle X)"] uninstall_db_inv [OF sect_inv [OF assms(1)] X E]
  have "sect (insert p F) (upd_db (uninstall_db p (PIProtocol X) E (PIHandle X)) s)" "p \<notin> F" by auto
  then show ?thesis using FreePool_sect [OF _ _ assms(4)] by simp
qed

lemma drop_handle_sect:
  assumes "sect F s" and X: "Handles (db s) a = Some X" "IHProtocols X = []" and "FreePool bs a (upd_db (drop_handle a) s) = Ret s'"
  shows "sect F s' \<and> db s' = drop_handle a (db s)"
proof -
  have "a \<in> live (db s)" using X by (auto simp: live_def)
  from sect_leave [OF assms(1) this, of "drop_handle a"] drop_handle_inv [OF sect_inv [OF assms(1)] X]
  have "sect (insert a F) (upd_db (drop_handle a) s)" "a \<notin> F" by auto
  then show ?thesis using FreePool_sect [OF _ _ assms(4)] by simp
qed

lemma uninstall_tail_sect:
  assumes "sect F s" and "RemoveInterfaceFromProtocol h g i s = Ret (p, s2)"
    and "(if p = 0 then Ret (EFI_NOT_FOUND, upd_db (touch h) s2)
          else bind_run (FreePool bs p (upd_db (unlink_prot p h) (upd_db (touch h) s2))) (\<lambda>s4. Ret (EFI_SUCCESS, s4))) = Ret (st, s')"
  shows "sect F s'"
proof (cases "p = 0")
  case True
  then show ?thesis using RemoveInterface_0 [of h g i s s2] assms touch_sect [OF assms(1)] by auto
next
  case False
  obtain X E where X: "Prots (db s) p = Some X" "PIHandle X = h" "Entries (db s) (PIProtocol X) = Some E"
      and s2: "s2 = upd_db (detach p (PIProtocol X) E) s" using RemoveInterface_sect [OF assms(1,2) False] by blast
  have "FreePool bs p (upd_db (uninstall_db p (PIProtocol X) E (PIHandle X)) s) = Ret s'"
    using assms(3) False by (simp add: s2 uninstall_db_def [abs_def] X(2))
  then show ?thesis using unlink_sect [OF assms(1) X(1,3)] by blast
qed

lemma uninstall_body_sect:
  assumes "sect F s" shows "ret_ok (\<lambda>(st, s'). sect F s') (uninstall_body bs cb n h g i s)"
proof -
  have d: "ret_ok (\<lambda>(st, s1). sect F s1) (DisconnectControllersUsingProtocolInterface bs cb n h p s)" for p
    using DisconnectControllers_sect [OF assms] by (auto simp: ret_ok_def)
  have drop: "ret_ok (\<lambda>(st, s'). sect F s')
      (case Handles (db s4) h of None \<Rightarrow> Fault
       | Some H \<Rightarrow> if IHProtocols H = [] then bind_run (FreePool bs h (upd_db (drop_handle h) s4)) (\<lambda>s5. Ret (st, s5)) else Ret (st, s4))"
    if "sect F s4" for s4 st
    using that drop_handle_sect [OF that] by (auto simp: ret_ok_def split: option.splits if_splits)
  have tail: "ret_ok (\<lambda>(st, s'). sect F s')
      (if Handles (db s2) h = None then Fault
       else let s3 = upd_db (touch h) s2
         in bind_run (if p = 0 then Ret (EFI_NOT_FOUND, s3)
                      else bind_run (FreePool bs p (upd_db (unlink_prot p h) s3)) (\<lambda>s4. Ret (EFI_SUCCESS, s4))) (\<lambda>(st, s4).
              case Handles (db s4) h of None \<Rightarrow> Fault
            | Some H \<Rightarrow> if IHProtocols H = [] then bind_run (FreePool bs h (upd_db (drop_handle h) s4)) (\<lambda>s5. Ret (st, s5)) else Ret (st, s4)))"
    if "sect F s1" "RemoveInterfaceFromProtocol h g i s1 = Ret (p, s2)" for s1 s2 p
    unfolding Let_def
  proof (split if_split, intro conjI impI, simp, rule ret_ok_bind)
    show "ret_ok (\<lambda>(st, s'). sect F s') (if p = 0 then Ret (EFI_NOT_FOUND, upd_db (touch h) s2)
          else bind_run (FreePool bs p (upd_db (unlink_prot p h) (upd_db (touch h) s2))) (\<lambda>s4. Ret (EFI_SUCCESS, s4)))"
      unfolding ret_ok_def using uninstall_tail_sect [OF that] by blast
  qed (use drop in auto)
  have rm: "ret_ok (\<lambda>(p, s2). RemoveInterfaceFromProtocol h g i s1 = Ret (p, s2)) (RemoveInterfaceFromProtocol h g i s1)" for s1
    by (simp add: ret_ok_def)
  have find: "ret_ok (\<lambda>p. True) (FindProtocolInterface (db s) h g i)" by (simp add: ret_ok_def)
  show ?thesis
    unfolding uninstall_body_def
    by (rule ret_ok_bind [OF find], clarsimp simp: assms, rule ret_ok_bind [OF d], clarsimp, rule ret_ok_bind [OF rm])
       (simp only: split_paired_all prod.case, rule tail)
qed

lemma UninstallProtocolInterface_ok:
  assumes "outside F s" shows "ret_ok (\<lambda>(st, s'). outside F s') (UninstallProtocolInterface bs cb n h g i s)"
proof -
  note b = ret_ok_bind [OF uninstall_body_sect [OF sect_acquire [OF assms]]]
  show ?thesis using assms unfolding UninstallProtocolInterface_def
    by (auto split: option.split intro!: b ret_ok_bind [OF release_ret])
qed

section \<open>Reinstalling\<close>

lemma reinstall_sect:
  assumes "sect F s" and X: "Prots (db s) p = Some X" and E: "Entries (db s) (PIProtocol X) = Some E"
  shows "sect F (upd_db (reinstall_db p (PIProtocol X) E (PIHandle X) i) s)"
  using reinstall_db_inv [OF sect_inv [OF assms(1)] X E] by (intro sect_same [OF assms(1)])

lemma reinstall_body_sect:
  assumes "sect F s" shows "ret_ok (\<lambda>(st, s'). sect F s') (reinstall_body bs cb n h g i j s)"
proof -
  have d: "ret_ok (\<lambda>(st, s1). sect F s1) (DisconnectControllersUsingProtocolInterface bs cb n h p s)" for p
    using DisconnectControllers_sect [OF assms] by (auto simp: ret_ok_def)
  have con: "ret_ok (\<lambda>(st, s2). outside F s2) (BS_ConnectController bs h None None True s1)" if "outside F s1" for s1
    using connect [OF that] by (auto simp: ret_ok_def)
  have nt: "ret_ok (sect F) (NotifyProtocolEntry cb n e s1)" if "sect F s1" for e s1
    using NotifyProtocolEntry_sect [OF that] by (auto simp: ret_ok_def)
  have denied: "ret_ok (\<lambda>(st, s'). sect F s') (bind_run (ReleaseLock cb n ProtocolDatabaseLock s1) (\<lambda>s2.
              bind_run (BS_ConnectController bs h None None True s2) (\<lambda>(_, s3). Ret (st, AcquireLock ProtocolDatabaseLock s3))))"
    if "sect F s1" for s1 st
    by (rule ret_ok_bind [OF release_ret [OF that]], rule ret_ok_bind [OF con]) (auto intro: sect_acquire)
  have tail: "ret_ok (\<lambda>(st, s'). sect F s') (bind_run (ReleaseLock cb n ProtocolDatabaseLock s3) (\<lambda>s4.
                         bind_run (BS_ConnectController bs h None None True s4) (\<lambda>(_, s5).
                         bind_run (NotifyProtocolEntry cb n e (AcquireLock ProtocolDatabaseLock s5)) (\<lambda>s6. Ret (EFI_SUCCESS, s6)))))"
    if "sect F s3" for s3 e
    by (rule ret_ok_bind [OF release_ret [OF that]], rule ret_ok_bind [OF con], assumption, clarsimp, rule ret_ok_bind [OF nt [OF sect_acquire]]) auto
  have rest: "ret_ok (\<lambda>(st, s'). sect F s') (if Handles (db s2) h = None then Fault
           else let s3 = upd_db (touch h) s2
             in if p = 0 then Ret (EFI_NOT_FOUND, s3)
                else case Prots (db s3) p of
                       None \<Rightarrow> Fault
                     | Some Prot \<Rightarrow>
                         bind_run (ReleaseLock cb n ProtocolDatabaseLock (upd_db (reattach p (PIProtocol Prot) j) s3)) (\<lambda>s4.
                         bind_run (BS_ConnectController bs h None None True s4) (\<lambda>(_, s5).
                         bind_run (NotifyProtocolEntry cb n (PIProtocol Prot) (AcquireLock ProtocolDatabaseLock s5)) (\<lambda>s6.
                           Ret (EFI_SUCCESS, s6)))))"
    if s1: "sect F s1" and rm: "RemoveInterfaceFromProtocol h g i s1 = Ret (p, s2)" for s1 s2 p
  proof (cases "p = 0")
    case True
    then show ?thesis using RemoveInterface_0 [of h g i s1 s2] rm touch_sect [OF s1] by (auto simp: Let_def)
  next
    case False
    obtain X E where X: "Prots (db s1) p = Some X" "PIHandle X = h" "Entries (db s1) (PIProtocol X) = Some E"
        and s2: "s2 = upd_db (detach p (PIProtocol X) E) s1" using RemoveInterface_sect [OF s1 rm False] by blast
    have P: "Prots (touch h (detach p (PIProtocol X) E (db s1))) p = Some X" using X(1) by (simp add: detach_def)
    have "sect F (upd_db (reattach p (PIProtocol X) j) (upd_db (touch h) s2))"
      using reinstall_sect [OF s1 X(1,3), of j] by (simp add: s2 reinstall_db_def [abs_def] X(2))
    then show ?thesis using False P by (auto simp: Let_def s2 intro: tail)
  qed
  have rm: "ret_ok (\<lambda>(p, s2). RemoveInterfaceFromProtocol h g i s1 = Ret (p, s2)) (RemoveInterfaceFromProtocol h g i s1)" for s1
    by (simp add: ret_ok_def)
  have find: "ret_ok (\<lambda>p. True) (FindProtocolInterface (db s) h g i)" by (simp add: ret_ok_def)
  show ?thesis
    unfolding reinstall_body_def
    by (rule ret_ok_bind [OF find], clarsimp simp: assms, rule ret_ok_bind [OF d], clarsimp simp: denied, rule ret_ok_bind [OF rm])
       (simp only: split_paired_all prod.case, rule rest)
qed

lemma ReinstallProtocolInterface_ok:
  assumes "outside F s" shows "ret_ok (\<lambda>(st, s'). outside F s') (ReinstallProtocolInterface bs cb n h g i j s)"
proof -
  note b = ret_ok_bind [OF reinstall_body_sect [OF sect_acquire [OF assms]]]
  show ?thesis using assms unfolding ReinstallProtocolInterface_def
    by (auto split: option.split intro!: b ret_ok_bind [OF release_ret])
qed

end

end
