(* ===== verification/Locate.thy ===== *)
theory Locate
  imports Protocols
begin

text \<open>
  Finding handles and interfaces (\<open>hand/locate.c\<close>). A position in a list is the part of the list that is
  still ahead.
\<close>

abbreviation (input) AllHandles :: int where "AllHandles \<equiv> 0"
abbreviation (input) ByRegisterNotify :: int where "ByRegisterNotify \<equiv> 1"
abbreviation (input) ByProtocol :: int where "ByProtocol \<equiv> 2"

record LOCATE_POSITION =
  LPSearchKey :: UINTN
  LPPosition :: "UINTN list"

section \<open>The next handle\<close>

text \<open>The results are the handle, 0 at the end, and the interface, as the functions leave \<open>*Interface\<close>.\<close>

definition GetNextLocateAllHandles :: "LOCATE_POSITION \<Rightarrow> (UINTN \<times> UINTN) \<times> LOCATE_POSITION" where
  "GetNextLocateAllHandles Position =
     (case LPPosition Position of
        [] \<Rightarrow> ((0, 0), Position)
      | a # as \<Rightarrow> ((a, 0), Position\<lparr>LPPosition := as\<rparr>))"

definition first_prot :: "'z hand_scheme \<Rightarrow> UINTN list \<Rightarrow> (UINTN \<times> UINTN) run" where
  "first_prot h ps =
     (case ps of
        [] \<Rightarrow> Ret (0, 0)
      | p # _ \<Rightarrow> (case Prots h p of None \<Rightarrow> Fault | Some Prot \<Rightarrow> Ret (PIHandle Prot, PIInterface Prot)))"

definition GetNextLocateByRegisterNotify :: "'z hand_scheme \<Rightarrow> LOCATE_POSITION \<Rightarrow> ((UINTN \<times> UINTN) \<times> LOCATE_POSITION) run" where
  "GetNextLocateByRegisterNotify h Position =
     (if LPSearchKey Position = 0 then Ret ((0, 0), Position)
      else case Notifies h (LPSearchKey Position) of
             None \<Rightarrow> Fault
           | Some ProtNotify \<Rightarrow>
               (case Entries h (PNProtocol ProtNotify) of
                  None \<Rightarrow> Fault
                | Some E \<Rightarrow>
                    bind_run (rest_behind (PEProtocols E) (PNPosition ProtNotify)) (\<lambda>rest.
                    bind_run (first_prot h rest) (\<lambda>r. Ret (r, Position\<lparr>LPSearchKey := 0\<rparr>)))))"

text \<open>A handle is passed over when it is marked with the number of the current request.\<close>

primrec next_by_protocol ::
  "UINTN \<Rightarrow> UINTN list \<Rightarrow> 'z hand_scheme \<Rightarrow> ((UINTN \<times> UINTN) \<times> UINTN list \<times> 'z hand_scheme) run"
where
  "next_by_protocol Interface [] h = Ret ((0, Interface), [], h)"
| "next_by_protocol Interface (p # ps) h =
     (case Prots h p of
        None \<Rightarrow> Fault
      | Some Prot \<Rightarrow>
          (case Handles h (PIHandle Prot) of
             None \<Rightarrow> Fault
           | Some Handle \<Rightarrow>
               if IHLocateRequest Handle \<noteq> EfiLocateHandleRequest h
               then Ret ((PIHandle Prot, PIInterface Prot), ps,
                         upd_handle (PIHandle Prot) (\<lambda>H. H\<lparr>IHLocateRequest := EfiLocateHandleRequest h\<rparr>) h)
               else next_by_protocol (PIInterface Prot) ps h))"

definition GetNextLocateByProtocol ::
  "'z hand_scheme \<Rightarrow> LOCATE_POSITION \<Rightarrow> ((UINTN \<times> UINTN) \<times> LOCATE_POSITION \<times> 'z hand_scheme) run"
where
  "GetNextLocateByProtocol h Position =
     bind_run (next_by_protocol 0 (LPPosition Position) h) (\<lambda>(r, ps, h1). Ret (r, Position\<lparr>LPPosition := ps\<rparr>, h1))"

definition GetNext ::
  "int \<Rightarrow> 'z hand_scheme \<Rightarrow> LOCATE_POSITION \<Rightarrow> ((UINTN \<times> UINTN) \<times> LOCATE_POSITION \<times> 'z hand_scheme) run"
where
  "GetNext SearchType h Position =
     (if SearchType = AllHandles then (case GetNextLocateAllHandles Position of (r, P) \<Rightarrow> Ret (r, P, h))
      else if SearchType = ByRegisterNotify then bind_run (GetNextLocateByRegisterNotify h Position) (\<lambda>(r, P). Ret (r, P, h))
      else GetNextLocateByProtocol h Position)"

text \<open>Every handle returned brings the search nearer to its end.\<close>

definition ahead :: "LOCATE_POSITION \<Rightarrow> nat" where
  "ahead Position = length (LPPosition Position) + (if LPSearchKey Position = 0 then 0 else 1)"

lemma next_by_protocol_ahead:
  "next_by_protocol I ps h = Ret ((Handle, I'), qs, h') \<Longrightarrow> Handle \<noteq> 0 \<Longrightarrow> length qs < length ps"
proof (induction ps arbitrary: I)
  case (Cons p ps)
  have "next_by_protocol J ps h = Ret ((Handle, I'), qs, h') \<Longrightarrow> length qs < Suc (length ps)" for J
    using Cons.IH [of J] Cons.prems(2) by (simp add: less_SucI)
  then show ?case using Cons.prems by (auto split: option.splits if_splits)
qed simp

lemma GetNextLocateByRegisterNotify_Ret:
  assumes "GetNextLocateByRegisterNotify h Position = Ret ((Handle, I), Position')" and "Handle \<noteq> 0"
  shows "LPSearchKey Position \<noteq> 0 \<and> Position' = Position\<lparr>LPSearchKey := 0\<rparr>"
  using assms by (auto simp: GetNextLocateByRegisterNotify_def split: if_split_asm option.split_asm)

lemma GetNext_ahead:
  "GetNext SearchType h Position = Ret ((Handle, I), Position', h') \<Longrightarrow> Handle \<noteq> 0 \<Longrightarrow> ahead Position' < ahead Position"
  by (auto simp: GetNext_def GetNextLocateAllHandles_def GetNextLocateByProtocol_def ahead_def
      dest: next_by_protocol_ahead GetNextLocateByRegisterNotify_Ret split: if_split_asm list.split_asm)

section \<open>LocateHandle\<close>

text \<open>
  The loop: the size of the result, and the handles that have been written out, which are those that fit.
  Writing through a \<open>NULL\<close> buffer is a fault.
\<close>

function locate_loop ::
  "int \<Rightarrow> UINTN \<Rightarrow> bool \<Rightarrow> LOCATE_POSITION \<Rightarrow> UINTN \<Rightarrow> UINTN list \<Rightarrow> 'z hand_scheme \<Rightarrow> (UINTN \<times> UINTN list \<times> 'z hand_scheme) run"
where
  "locate_loop SearchType BufferSize Buffer Position ResultSize Result h =
     bind_run (GetNext SearchType h Position) (\<lambda>(r, Position', h').
       if fst r = 0 then Ret (ResultSize, Result, h')
       else if ResultSize + 8 \<le> BufferSize
       then if Buffer then locate_loop SearchType BufferSize Buffer Position' (ResultSize + 8) (Result @ [fst r]) h' else Fault
       else locate_loop SearchType BufferSize Buffer Position' (ResultSize + 8) Result h')"
  by auto
termination
  by (relation "measure (\<lambda>(t, b, d, Position, r, res, h). ahead Position)") (auto dest: GetNext_ahead)

declare locate_loop.simps [simp del]

text \<open>\<open>ProtNotify->Position = ProtNotify->Position->Flink\<close>; behind the last interface comes the head.\<close>

definition advance_notify :: "UINTN \<Rightarrow> 'z hand_scheme \<Rightarrow> 'z hand_scheme run" where
  "advance_notify a h =
     (case Notifies h a of
        None \<Rightarrow> Fault
      | Some N \<Rightarrow>
          (case Entries h (PNProtocol N) of
             None \<Rightarrow> Fault
           | Some E \<Rightarrow>
               bind_run (rest_behind (PEProtocols E) (PNPosition N)) (\<lambda>rest.
                 let pos = (case rest of [] \<Rightarrow> AtHead | p # _ \<Rightarrow> AtProt p)
                 in Ret (h\<lparr>Notifies := (Notifies h)(a \<mapsto> N\<lparr>PNPosition := pos\<rparr>)\<rparr>))))"

text \<open>The choice of the search, and its start: an error, or the first position.\<close>

definition locate_start :: "int \<Rightarrow> EFI_GUID option \<Rightarrow> UINTN \<Rightarrow> 'z hand_scheme \<Rightarrow> (EFI_STATUS + LOCATE_POSITION) run" where
  "locate_start SearchType Protocol SearchKey h =
     (if SearchType = AllHandles then Ret (Inr \<lparr>LPSearchKey = SearchKey, LPPosition = HandleList h\<rparr>)
      else if SearchType = ByRegisterNotify
      then Ret (if SearchKey = 0 then Inl EFI_INVALID_PARAMETER else Inr \<lparr>LPSearchKey = SearchKey, LPPosition = HandleList h\<rparr>)
      else if SearchType = ByProtocol
      then (case Protocol of
              None \<Rightarrow> Ret (Inl EFI_INVALID_PARAMETER)
            | Some g \<Rightarrow>
                (case List.find (has_id h g) (ProtocolDatabase h) of
                   None \<Rightarrow> Ret (Inl EFI_NOT_FOUND)
                 | Some e \<Rightarrow>
                     (case Entries h e of
                        None \<Rightarrow> Fault
                      | Some E \<Rightarrow> Ret (Inr \<lparr>LPSearchKey = SearchKey, LPPosition = PEProtocols E\<rparr>))))
      else Ret (Inl EFI_INVALID_PARAMETER))"

text \<open>Under the lock: the status, \<open>*BufferSize\<close> and the handles written to the buffer.\<close>

definition locate_body ::
  "int \<Rightarrow> EFI_GUID option \<Rightarrow> UINTN \<Rightarrow> UINTN \<Rightarrow> bool \<Rightarrow> 'z hand_scheme \<Rightarrow> ((EFI_STATUS \<times> UINTN \<times> UINTN list) \<times> 'z hand_scheme) run"
where
  "locate_body SearchType Protocol SearchKey BufferSize Buffer h =
     bind_run (locate_start SearchType Protocol SearchKey h) (\<lambda>start.
       case start of
         Inl Status \<Rightarrow> Ret ((Status, BufferSize, []), h)
       | Inr Position \<Rightarrow>
           bind_run (locate_loop SearchType BufferSize Buffer Position 0 []
                       (h\<lparr>EfiLocateHandleRequest := EfiLocateHandleRequest h + 1\<rparr>)) (\<lambda>(ResultSize, Result, h1).
             let Status = (if ResultSize = 0 then EFI_NOT_FOUND
                           else if ResultSize > BufferSize then EFI_BUFFER_TOO_SMALL else EFI_SUCCESS)
             in if SearchType = ByRegisterNotify \<and> \<not> EFI_ERROR Status
                then bind_run (advance_notify SearchKey h1) (\<lambda>h2. Ret ((Status, ResultSize, Result), h2))
                else Ret ((Status, ResultSize, Result), h1)))"

definition with_database ::
  "'z hand_scheme mem_scheme notify_fn \<Rightarrow> nat \<Rightarrow> ('z hand_scheme \<Rightarrow> ('r \<times> 'z hand_scheme) run) \<Rightarrow> 'z handst \<Rightarrow> ('r \<times> 'z handst) run"
where
  "with_database cb n body s =
     (let s1 = AcquireLock ProtocolDatabaseLock s
      in bind_run (body (db s1)) (\<lambda>(r, h).
         bind_run (ReleaseLock cb n ProtocolDatabaseLock (upd_db (\<lambda>_. h) s1)) (\<lambda>s2. Ret (r, s2))))"

definition LocateHandle ::
  "'z hand_scheme mem_scheme notify_fn \<Rightarrow> nat \<Rightarrow> int \<Rightarrow> EFI_GUID option \<Rightarrow> UINTN \<Rightarrow> UINTN \<Rightarrow> bool
   \<Rightarrow> 'z handst \<Rightarrow> ((EFI_STATUS \<times> UINTN \<times> UINTN list) \<times> 'z handst) run"
where
  "LocateHandle cb n SearchType Protocol SearchKey BufferSize Buffer s =
     with_database cb n (locate_body SearchType Protocol SearchKey BufferSize Buffer) s"

section \<open>LocateProtocol and LocateHandleBuffer\<close>

text \<open>The second result is the value of \<open>*Interface\<close>.\<close>

definition locate_protocol_body :: "EFI_GUID \<Rightarrow> UINTN \<Rightarrow> 'z hand_scheme \<Rightarrow> ((EFI_STATUS \<times> UINTN) \<times> 'z hand_scheme) run" where
  "locate_protocol_body Protocol Registration h =
     (let h1 = h\<lparr>EfiLocateHandleRequest := EfiLocateHandleRequest h + 1\<rparr>
      in if Registration = 0
         then case List.find (has_id h1 Protocol) (ProtocolDatabase h1) of
                None \<Rightarrow> Ret ((EFI_NOT_FOUND, 0), h1)
              | Some e \<Rightarrow>
                  (case Entries h1 e of
                     None \<Rightarrow> Fault
                   | Some E \<Rightarrow>
                       bind_run (GetNextLocateByProtocol h1 \<lparr>LPSearchKey = 0, LPPosition = PEProtocols E\<rparr>) (\<lambda>((Handle, Interface), _, h2).
                         Ret ((if Handle = 0 then EFI_NOT_FOUND else EFI_SUCCESS, Interface), h2)))
         else bind_run (GetNextLocateByRegisterNotify h1 \<lparr>LPSearchKey = Registration, LPPosition = HandleList h1\<rparr>) (\<lambda>((Handle, Interface), _).
                if Handle = 0 then Ret ((EFI_NOT_FOUND, Interface), h1)
                else bind_run (advance_notify Registration h1) (\<lambda>h2. Ret ((EFI_SUCCESS, Interface), h2))))"

definition LocateProtocol ::
  "'z hand_scheme mem_scheme notify_fn \<Rightarrow> nat \<Rightarrow> EFI_GUID \<Rightarrow> UINTN \<Rightarrow> bool
   \<Rightarrow> 'z handst \<Rightarrow> ((EFI_STATUS \<times> UINTN option) \<times> 'z handst) run"
where
  "LocateProtocol cb n Protocol Registration Interface s =
     (if \<not> Interface then Ret ((EFI_INVALID_PARAMETER, None), s)
      else bind_run (with_database cb n (locate_protocol_body Protocol Registration) s) (\<lambda>((Status, I), s1). Ret ((Status, Some I), s1)))"

text \<open>
  The results are the status, \<open>*NumberHandles\<close>, and the buffer, by address and content (\<open>None\<close>: not
  written or \<open>NULL\<close>).
\<close>

definition LocateHandleBuffer ::
  "'z handst EFI_BOOT_SERVICES \<Rightarrow> 'z hand_scheme mem_scheme notify_fn \<Rightarrow> nat \<Rightarrow> int \<Rightarrow> EFI_GUID option \<Rightarrow> UINTN \<Rightarrow> bool \<Rightarrow> bool
   \<Rightarrow> 'z handst \<Rightarrow> ((EFI_STATUS \<times> UINTN option \<times> (UINTN \<times> UINTN list) option) \<times> 'z handst) run"
where
  "LocateHandleBuffer bs cb n SearchType Protocol SearchKey NumberHandles Buffer s =
     (if \<not> NumberHandles then Ret ((EFI_INVALID_PARAMETER, None, None), s)
      else if \<not> Buffer then Ret ((EFI_INVALID_PARAMETER, None, None), s)
      else bind_run (LocateHandle cb n SearchType Protocol SearchKey 0 False s) (\<lambda>((Status, BufferSize, _), s1).
        if Status = EFI_INVALID_PARAMETER then Ret ((Status, Some 0, None), s1)
        else if Status \<noteq> EFI_BUFFER_TOO_SMALL then Ret ((EFI_NOT_FOUND, Some 0, None), s1)
        else bind_run (BS_AllocatePool bs EfiBootServicesData BufferSize s1) (\<lambda>(Status, p, s2).
          if EFI_ERROR Status then Ret ((Status, Some 0, None), s2)
          else case p of
                 None \<Rightarrow> Fault
               | Some b \<Rightarrow>
                   bind_run (LocateHandle cb n SearchType Protocol SearchKey BufferSize (b \<noteq> 0) s2) (\<lambda>((Status, Size, Result), s3).
                     Ret ((Status, Some (if EFI_ERROR Status then 0 else Size div 8), Some (b, Result)), s3)))))"

end
