(* ===== verification/HandleSystem.thy ===== *)
theory HandleSystem
  imports InstallOps Locate
begin

text \<open>
  The services of the handle database as one system: the remaining operations keep the database consistent, and
  so does every sequence of calls.
\<close>

section \<open>Searching\<close>

lemma rest_behind_in: "rest_behind ps pos = Ret (p # qs) \<Longrightarrow> p \<in> set ps"
proof (cases pos)
  case (AtProt x)
  assume "rest_behind ps pos = Ret (p # qs)"
  then have "p \<in> set (tl (dropWhile (\<lambda>y. y \<noteq> x) ps))" using AtProt by (auto simp: rest_behind_def split: if_splits)
  then show ?thesis by (metis list.sel(2) list.set_sel(2) set_dropWhileD)
qed (auto simp: rest_behind_def)

lemma advance_notify_inv:
  assumes inv: "hand_inv h" and ret: "advance_notify a h = Ret h'"
  shows "hand_inv h' \<and> live h' = live h"
proof -
  obtain N E rest where N: "Notifies h a = Some N" "Entries h (PNProtocol N) = Some E" "rest_behind (PEProtocols E) (PNPosition N) = Ret rest"
      and h': "h' = h\<lparr>Notifies := (Notifies h)(a \<mapsto> N\<lparr>PNPosition := (case rest of [] \<Rightarrow> AtHead | p # _ \<Rightarrow> AtProt p)\<rparr>)\<rparr>"
    using ret by (auto simp: advance_notify_def Let_def split: option.split_asm)
  have "\<exists>Z. Prots h p = Some Z \<and> PIProtocol Z = PNProtocol N" if "(case rest of [] \<Rightarrow> AtHead | p # _ \<Rightarrow> AtProt p) = AtProt p" for p
  proof -
    obtain qs where "rest = p # qs" using \<open>(case rest of [] \<Rightarrow> AtHead | p # _ \<Rightarrow> AtProt p) = AtProt p\<close> by (cases rest) auto
    then have "p \<in> set (PEProtocols E)" using rest_behind_in N(3) by blast
    then show ?thesis using entries_okD(5) [OF hand_invD(2) [OF inv] N(2)] by blast
  qed
  then show ?thesis unfolding h' using position_inv [OF inv N(1)] by blast
qed

lemma next_by_protocol_inv:
  "next_by_protocol I ps h = Ret (r, qs, h') \<Longrightarrow> hand_inv h \<Longrightarrow> hand_inv h' \<and> live h' = live h"
proof (induction ps arbitrary: I)
  case (Cons p ps)
  show ?case using Cons handle_change_inv [OF Cons.prems(2)] by (auto split: option.split_asm if_split_asm)
qed simp

lemma GetNext_inv:
  assumes "GetNext t h Position = Ret (r, Position', h')" and "hand_inv h"
  shows "hand_inv h' \<and> live h' = live h"
  using assms by (auto simp: GetNext_def GetNextLocateByProtocol_def split: if_split_asm prod.split_asm dest: next_by_protocol_inv)

lemma locate_loop_inv:
  "locate_loop t BufferSize Buffer Position k res h = Ret (k', res', h') \<Longrightarrow> hand_inv h \<Longrightarrow> hand_inv h' \<and> live h' = live h"
proof (induction t BufferSize Buffer Position k res h rule: locate_loop.induct)
  case (1 t BufferSize Buffer Position k res h)
  obtain r Position1 h1 where g: "GetNext t h Position = Ret (r, Position1, h1)"
    using "1.prems"(1) by (subst (asm) locate_loop.simps) auto
  note inv = GetNext_inv [OF g "1.prems"(2)]
  show ?case
  proof (cases "fst r = 0")
    case True
    then show ?thesis using "1.prems"(1) g inv by (subst (asm) locate_loop.simps) simp
  next
    case False
    note IH = "1.IH" [OF g refl refl False]
    show ?thesis
    proof (cases "k + 8 \<le> BufferSize")
      case True
      have "Buffer \<and> locate_loop t BufferSize Buffer Position1 (k + 8) (res @ [fst r]) h1 = Ret (k', res', h')"
        using "1.prems"(1) unfolding locate_loop.simps [of t BufferSize Buffer Position] using g False True by (simp split: if_splits)
      then have b: "Buffer" and l: "locate_loop t BufferSize Buffer Position1 (k + 8) (res @ [fst r]) h1 = Ret (k', res', h')" by blast+
      show ?thesis using IH(1) [OF True b l conjunct1 [OF inv]] inv by simp
    next
      case Fa: False
      then have "locate_loop t BufferSize Buffer Position1 (k + 8) res h1 = Ret (k', res', h')"
        using "1.prems"(1) g False by (subst (asm) locate_loop.simps) simp
      then show ?thesis using IH(2) Fa inv by simp
    qed
  qed
qed

definition kept :: "'z hand_scheme \<Rightarrow> 'z hand_scheme \<Rightarrow> bool" where
  "kept h h' \<longleftrightarrow> hand_inv h' \<and> live h' = live h"

lemma advance_notify_kept: "kept h h1 \<Longrightarrow> ret_ok (kept h) (advance_notify a h1)"
  using advance_notify_inv [of h1 a] by (auto simp: ret_ok_def kept_def)

lemma locate_body_kept:
  assumes "hand_inv h" shows "ret_ok (\<lambda>(r, h'). kept h h') (locate_body t g k BufferSize Buffer h)"
proof -
  have start: "ret_ok (\<lambda>_. True) (locate_start t g k h)" by (simp add: ret_ok_def)
  have loop: "ret_ok (\<lambda>(m, res, h1). kept h h1)
      (locate_loop t BufferSize Buffer P 0 [] (h\<lparr>EfiLocateHandleRequest := EfiLocateHandleRequest h + 1\<rparr>))" for P
    unfolding ret_ok_def kept_def
    using locate_loop_inv [of t BufferSize Buffer P 0 "[]" "h\<lparr>EfiLocateHandleRequest := EfiLocateHandleRequest h + 1\<rparr>"] assms
    by (simp add: split_paired_all)
  have "kept h h" using assms by (simp add: kept_def)
  then show ?thesis
    unfolding locate_body_def Let_def
    by (intro ret_ok_bind [OF start])
       (auto split: sum.split if_split simp del: bind_run_Ret EFI_ERROR_simps intro!: ret_ok_bind [OF loop] ret_ok_bind [OF advance_notify_kept])
qed

lemma locate_protocol_body_kept:
  assumes "hand_inv h" shows "ret_ok (\<lambda>(r, h'). kept h h') (locate_protocol_body g k h)"
proof -
  let ?h = "h\<lparr>EfiLocateHandleRequest := EfiLocateHandleRequest h + 1\<rparr>"
  have h1: "kept h ?h" using assms by (simp add: kept_def)
  have nx: "ret_ok (\<lambda>(r, P, h2). kept h h2) (GetNextLocateByProtocol ?h P)" for P
    using next_by_protocol_inv [of 0 "LPPosition P" ?h] h1 by (force simp: ret_ok_def kept_def GetNextLocateByProtocol_def)
  have nn: "ret_ok (\<lambda>_. True) (GetNextLocateByRegisterNotify ?h P)" for P by (simp add: ret_ok_def)
  show ?thesis
    unfolding locate_protocol_body_def Let_def
    by (auto split: option.split simp del: bind_run_Ret simp: h1 intro!: ret_ok_bind [OF nx] ret_ok_bind [OF nn] ret_ok_bind [OF advance_notify_kept [OF h1]])
qed

section \<open>Services\<close>

context handle_env
begin

lemma alloc_ret: "outside F s \<Longrightarrow> ret_ok (\<lambda>(st, p, s'). if EFI_ERROR st then outside F s' else \<exists>b. p = Some b \<and> b \<noteq> 0 \<and> b \<notin> F \<and> outside (insert b F) s')
    (BS_AllocatePool bs t Size s)"
  using out_alloc [of F s t Size] by (auto simp: ret_ok_def)

lemma with_database_ok:
  assumes "outside F s" and body: "\<And>h. hand_inv h \<Longrightarrow> ret_ok (\<lambda>(r, h'). kept h h') (body h)"
  shows "ret_ok (\<lambda>(r, s'). outside F s') (with_database cb n body s)"
proof -
  let ?a = "AcquireLock ProtocolDatabaseLock s"
  have a: "sect F ?a" by (rule sect_acquire [OF assms(1)])
  have "ret_ok (\<lambda>(r, h). sect F (upd_db (\<lambda>_. h) ?a)) (body (db ?a))"
    by (rule ret_ok_mono [OF body [OF sect_inv [OF a]]]) (use sect_same [OF a] in \<open>auto simp: kept_def\<close>)
  then show ?thesis
    unfolding with_database_def Let_def
    by (rule ret_ok_bind) (clarsimp, rule ret_ok_bind [OF release_ret], auto)
qed

lemma LocateHandle_ok: "outside F s \<Longrightarrow> ret_ok (\<lambda>(r, s'). outside F s') (LocateHandle cb n t g k BufferSize Buffer s)"
  unfolding LocateHandle_def by (rule with_database_ok [OF _ locate_body_kept])

lemma LocateProtocol_ok: "outside F s \<Longrightarrow> ret_ok (\<lambda>(r, s'). outside F s') (LocateProtocol cb n g k I s)"
  unfolding LocateProtocol_def by (auto intro!: ret_ok_bind [OF with_database_ok [OF _ locate_protocol_body_kept]])

lemma LocateHandleBuffer_ok:
  assumes "outside F s" shows "ret_ok (\<lambda>(r, s'). outside F s') (LocateHandleBuffer bs cb n t g k N B s)"
proof -
  have second: "ret_ok (\<lambda>(r, s'). outside F s') (bind_run (LocateHandle cb n t g k Size bf s2) (\<lambda>((Status, Size, Result), s3).
     Ret ((Status, Some (if EFI_ERROR Status then 0 else Size div 8), Some (b, Result)), s3)))" if "outside (insert b F) s2" for s2 Size bf b
    by (rule ret_ok_bind [OF LocateHandle_ok [OF that]]) (auto intro: out_mono)
  have alloc: "ret_ok (\<lambda>(r, s'). outside F s') (bind_run (BS_AllocatePool bs EfiBootServicesData Size s1) (\<lambda>(Status, p, s2).
          if EFI_ERROR Status then Ret ((Status, Some 0, None), s2)
          else case p of
                 None \<Rightarrow> Fault
               | Some b \<Rightarrow>
                   bind_run (LocateHandle cb n t g k Size (b \<noteq> 0) s2) (\<lambda>((Status, Size, Result), s3).
                     Ret ((Status, Some (if EFI_ERROR Status then 0 else Size div 8), Some (b, Result)), s3))))"
    if "outside F s1" for s1 Size
    by (rule ret_ok_bind [OF alloc_ret [OF that]]) (auto split: if_splits intro!: second)
  show ?thesis
    unfolding LocateHandleBuffer_def
    by (auto simp: assms intro!: ret_ok_bind [OF LocateHandle_ok [OF assms]] alloc)
qed

section \<open>Registrations and information\<close>

lemma FindProtocolEntry_ret: "sect F s \<Longrightarrow> ret_ok (\<lambda>(e, s'). sect F s' \<and> (e \<noteq> 0 \<longrightarrow> Entries (db s') e \<noteq> None)) (FindProtocolEntry bs g c s)"
  using FindProtocolEntry_sect by (auto simp: ret_ok_def)

lemma register_sect:
  assumes "sect (insert a F) s" and "a \<notin> F" "a \<noteq> 0" and "Entries (db s) e \<noteq> None"
  shows "sect F (upd_db (register_db e a v) s)"
proof -
  obtain Y where Y: "Entries (db s) e = Some Y" using assms(4) by blast
  have "a \<notin> live (db s)" using assms(1) by (auto simp: sect_def)
  then show ?thesis using register_inv [OF sect_inv [OF assms(1)] _ assms(3) Y] by (intro sect_enter [OF assms(1,2)])
qed

lemma RegisterProtocolNotify_ok:
  assumes "outside F s" shows "ret_ok (\<lambda>(st, a, s'). outside F s') (RegisterProtocolNotify bs cb n g v s)"
proof -
  have last: "ret_ok (\<lambda>(st, a, s'). outside F s')
      (let s3 = (if a = 0 then s2 else upd_db (register_db e a v) s2)
       in bind_run (ReleaseLock cb n ProtocolDatabaseLock s3) (\<lambda>s4.
            Ret (if a = 0 then (EFI_OUT_OF_RESOURCES, None, s4) else (EFI_SUCCESS, Some a, s4))))"
    if "if a = 0 then sect F s2 else a \<notin> F \<and> sect (insert a F) s2" "Entries (db s2) e \<noteq> None" for a s2 e
  proof -
    have "sect F (if a = 0 then s2 else upd_db (register_db e a v) s2)" using that register_sect by auto
    then show ?thesis unfolding Let_def by (rule ret_ok_bind [OF release_ret]) simp
  qed
  have alloc: "ret_ok (\<lambda>(a, s2). (if a = 0 then sect F s2 else a \<notin> F \<and> sect (insert a F) s2) \<and> Entries (db s2) e \<noteq> None)
      (AllocatePool bs k s1)" if "sect F s1" "Entries (db s1) e \<noteq> None" for s1 e k
    using AllocatePool_sect [OF that(1)] that(2) by (fastforce simp: ret_ok_def split: if_splits)
  have rest: "ret_ok (\<lambda>(st, a, s'). outside F s')
     (if e = 0 then Fault
       else bind_run (AllocatePool bs sizeof_PROTOCOL_NOTIFY s1) (\<lambda>(a, s2).
         let s3 = (if a = 0 then s2 else upd_db (register_db e a v) s2)
         in bind_run (ReleaseLock cb n ProtocolDatabaseLock s3) (\<lambda>s4.
            Ret (if a = 0 then (EFI_OUT_OF_RESOURCES, None, s4) else (EFI_SUCCESS, Some a, s4)))))"
    if "sect F s1 \<and> (e \<noteq> 0 \<longrightarrow> Entries (db s1) e \<noteq> None)" for e s1
  proof (cases "e = 0")
    case False
    then have s1: "sect F s1" "Entries (db s1) e \<noteq> None" using that by auto
    have "ret_ok (\<lambda>(st, a, s'). outside F s') (bind_run (AllocatePool bs sizeof_PROTOCOL_NOTIFY s1) (\<lambda>(a, s2).
         let s3 = (if a = 0 then s2 else upd_db (register_db e a v) s2)
         in bind_run (ReleaseLock cb n ProtocolDatabaseLock s3) (\<lambda>s4.
            Ret (if a = 0 then (EFI_OUT_OF_RESOURCES, None, s4) else (EFI_SUCCESS, Some a, s4)))))"
      by (rule ret_ok_bind [OF alloc [OF s1]], clarify, rule last) auto
    then show ?thesis using False by simp
  qed simp
  show ?thesis
    unfolding RegisterProtocolNotify_def register_db_def [symmetric, abs_def]
    by (rule ret_ok_bind [OF FindProtocolEntry_ret [OF sect_acquire [OF assms]]]) (clarify, rule rest, blast)
qed

lemma UnregisterProtocolNotifyEvent_ok:
  assumes "outside F s" shows "ret_ok (\<lambda>(st, s'). outside F s') (UnregisterProtocolNotifyEvent bs cb n v s)"
proof -
  let ?a = "AcquireLock ProtocolDatabaseLock s"
  have a: "sect F ?a" by (rule sect_acquire [OF assms])
  have free: "ret_ok (sect F) (FreePool bs c (upd_db (drop_notify c) ?a))" if "find_notify (db ?a) v = Some c" for c
  proof -
    obtain N where N: "Notifies (db ?a) c = Some N" using find_notify_Some [OF \<open>find_notify (db ?a) v = Some c\<close>] by blast
    then have "c \<in> live (db ?a)" by (auto simp: live_def)
    with sect_leave [OF a this, of "drop_notify c"] drop_notify_inv [OF sect_inv [OF a] N]
    have "sect (insert c F) (upd_db (drop_notify c) ?a)" "c \<notin> F" by auto
    then show ?thesis using FreePool_sect by (auto simp: ret_ok_def)
  qed
  show ?thesis
    unfolding UnregisterProtocolNotifyEvent_def Let_def
    by (cases "find_notify (db ?a) v")
       (auto simp del: bind_run_Ret intro!: ret_ok_bind [OF free] ret_ok_bind [OF release_ret] ret_ok_bind [OF release_ret [OF a]])
qed

lemma UnregisterProtocolNotify_ok:
  assumes "outside F s" shows "ret_ok (\<lambda>(st, s'). outside F s') (UnregisterProtocolNotify bs cb n v s)"
proof -
  have "ret_ok (outside F) (unregister_loop bs cb n k v s)" if "outside F s" for k s
    using that
  proof (induction k arbitrary: s)
    case (Suc k)
    show ?case unfolding unregister_loop.simps
      by (rule ret_ok_bind [OF UnregisterProtocolNotifyEvent_ok [OF Suc.prems]]) (auto intro: Suc.IH)
  qed simp
  from this [OF assms] show ?thesis unfolding UnregisterProtocolNotify_def by (rule ret_ok_bind) simp
qed

lemma OpenProtocolInformation_ok:
  assumes "outside F s" shows "ret_ok (\<lambda>(st, b, s'). outside F s') (OpenProtocolInformation bs cb n h g s)"
proof -
  let ?a = "AcquireLock ProtocolDatabaseLock s"
  have a: "sect F ?a" by (rule sect_acquire [OF assms])
  have alloc: "ret_ok (\<lambda>(st, p, s2). sect F s2) (BS_AllocatePool bs t k ?a)" for t k
    using BS_AllocatePool_sect [OF a] sect_mono by (fastforce simp: ret_ok_def split: if_splits)
  have get: "ret_ok (\<lambda>p. p \<noteq> 0 \<longrightarrow> Prots (db ?a) p \<noteq> None) (GetProtocolEntry (db ?a) h g)"
    using GetProtocolEntry_Ret by (fastforce simp: ret_ok_def)
  have info: "ret_ok (\<lambda>(r, s2). sect F s2)
           (if p = 0 then Ret ((EFI_NOT_FOUND, None), ?a)
            else case Prots (db ?a) p of
                   None \<Rightarrow> Fault
                 | Some Prot \<Rightarrow>
                     let Count = length (PIOpenList Prot);
                         Size = (if Count = 0 then sizeof_OPEN_PROTOCOL_INFORMATION_ENTRY
                                 else of_nat Count * sizeof_OPEN_PROTOCOL_INFORMATION_ENTRY)
                     in bind_run (BS_AllocatePool bs EfiBootServicesData Size ?a) (\<lambda>(Status, Buffer, s2).
                          if EFI_ERROR Status then Ret ((EFI_OUT_OF_RESOURCES, None), s2)
                          else case Buffer of
                                 None \<Rightarrow> Fault
                               | Some b \<Rightarrow> Ret ((Status, Some (b, map snd (PIOpenList Prot))), s2)))" for p
    unfolding Let_def using a by (auto split: option.split intro!: ret_ok_bind [OF alloc])
  show ?thesis
    unfolding OpenProtocolInformation_def Let_def [of ?a]
    by (rule ret_ok_bind [OF get], rule ret_ok_bind [OF info]) (auto intro: ret_ok_bind [OF release_ret])
qed

lemma ProtocolsPerHandle_ok:
  assumes "outside F s" shows "ret_ok (\<lambda>(st, b, s'). outside F s') (ProtocolsPerHandle bs h B C s)"
proof -
  have "ret_ok (\<lambda>(st, p, s2). outside F s2) (BS_AllocatePool bs t k s)" for t k
    by (rule ret_ok_mono [OF alloc_ret [OF assms]]) (auto split: if_splits intro: out_mono)
  then show ?thesis
    unfolding ProtocolsPerHandle_def
    by (auto simp: assms split: option.split intro!: ret_ok_bind)
qed

lemma connect_handles_ok: "outside F s \<Longrightarrow> ret_ok (outside F) (connect_handles bs as s)"
proof (induction as arbitrary: s)
  case (Cons a as)
  have "ret_ok (\<lambda>(st, s1). outside F s1) (BS_ConnectController bs a None None True s)"
    using connect [OF Cons.prems] by (auto simp: ret_ok_def)
  then show ?case unfolding connect_handles.simps by (rule ret_ok_bind) (auto intro: Cons.IH)
qed simp

lemma CoreConnectHandlesByKey_ok:
  assumes "outside F s" shows "ret_ok (outside F) (CoreConnectHandlesByKey bs cb n Key s)"
proof -
  let ?a = "AcquireLock ProtocolDatabaseLock s"
  have a: "sect F ?a" by (rule sect_acquire [OF assms])
  have alloc: "ret_ok (\<lambda>(st, p, s2). if EFI_ERROR st then sect F s2 else \<exists>b. p = Some b \<and> b \<notin> F \<and> sect (insert b F) s2) (BS_AllocatePool bs t k ?a)" for t k
    using BS_AllocatePool_sect [OF a] by (fastforce simp: ret_ok_def split: if_splits)
  have rest: "ret_ok (outside F) (bind_run (ReleaseLock cb n ProtocolDatabaseLock s2) (\<lambda>s3. bind_run (connect_handles bs hs s3) (FreePool bs b)))"
    if "sect (insert b F) s2" "b \<notin> F" for b s2 hs
    by (rule ret_ok_bind [OF release_ret [OF that(1)]], rule ret_ok_bind [OF connect_handles_ok], assumption, erule out_free_ret, rule that(2))
  show ?thesis
    unfolding CoreConnectHandlesByKey_def Let_def
    by (auto simp del: bind_run_Ret split: if_splits intro!: release_ret a ret_ok_bind [OF alloc] rest)
qed

end

end
