(* ===== verification/HandleQuiet.thy ===== *)
theory HandleQuiet
  imports HandleSystem MemProps
begin

text \<open>
  The services of the handle database when no notification is due: nothing runs in between, and the effect of
  a service is that of its critical section.
\<close>

section \<open>Frames\<close>

text \<open>Inside a critical section of the database, the memory services leave all but their own lock alone.\<close>

definition in_frame :: "'x exec_scheme \<Rightarrow> 'x exec_scheme \<Rightarrow> bool" where
  "in_frame s s' \<longleftrightarrow> exec_frame s s' \<and> Locks s' ProtocolDatabaseLock = Locks s ProtocolDatabaseLock"

lemma in_frame_refl [simp]: "in_frame s s"
  by (simp add: in_frame_def exec_frame_def)

lemma in_frame_trans: "in_frame s s' \<Longrightarrow> in_frame s' s'' \<Longrightarrow> in_frame s s''"
  using exec_frame_trans by (auto simp: in_frame_def)

lemma in_frame_quiet: "in_frame s s' \<Longrightarrow> quiet s' = quiet s"
  using exec_frame_quiet by (auto simp: in_frame_def)

lemma in_frame_upd [simp]: "in_frame s (upd_db f s') = in_frame s s'"
  by (simp add: in_frame_def exec_frame_def upd_db_def)

lemma quiet_upd [simp]: "quiet (upd_db f s) = quiet s"
  by (simp add: quiet_def upd_db_def)

lemma mem_after_frame: "in_frame s (mem_after m s)"
  using mem_after_simps(1) [of s m] by (simp add: in_frame_def mem_after_def released_def AcquireLock_def RaiseTPL_def Let_def)

lemma quiet_section:
  assumes "quiet s" and "TPL s \<le> TPL_NOTIFY" and "levels s"
  shows "quiet (AcquireLock ProtocolDatabaseLock s)"
proof -
  have t: "TPL (AcquireLock ProtocolDatabaseLock s) = TPL_NOTIFY" using assms(3) by (simp add: levels_def AcquireLock_def RaiseTPL_def Let_def)
  have "unat (TPL s) \<le> 16" using assms(2) by (simp add: word_le_nat_alt)
  then show ?thesis using assms(1) unfolding quiet_def t by auto
qed

text \<open>Leaving the critical section restores the caller's execution state.\<close>

definition left :: "'x exec_scheme \<Rightarrow> 'x exec_scheme" where
  "left s = released ProtocolDatabaseLock s"

lemma leave_section:
  assumes "quiet s" and "2 \<le> n" and "in_frame (AcquireLock ProtocolDatabaseLock s) s1"
  shows "ReleaseLock cb n ProtocolDatabaseLock s1 = Ret (left s1)" "exec_frame s (left s1)" "exec.more (left s1) = exec.more s1"
proof -
  have o: "OwnerTpl (Locks s1 ProtocolDatabaseLock) = TPL s" using assms(3) by (simp add: in_frame_def)
  have p: "EventPending s1 = EventPending s" using assms(3) by (simp add: in_frame_def exec_frame_def)
  show "ReleaseLock cb n ProtocolDatabaseLock s1 = Ret (left s1)"
    unfolding left_def by (rule release_quiet) (use assms(1,2) o p in \<open>simp_all add: quiet_def\<close>)
  show "exec_frame s (left s1)" using assms(3) o by (simp add: exec_frame_def in_frame_def left_def)
  show "exec.more (left s1) = exec.more s1" by (simp add: left_def released_def)
qed

lemma left_db [simp]: "db (left s) = db s"
  by (simp add: left_def db_def released_def)

lemma with_database_quiet:
  assumes "quiet s" and "2 \<le> n"
  shows "with_database cb n body s = bind_run (body (db s)) (\<lambda>(r, h). Ret (r, left (upd_db (\<lambda>_. h) (AcquireLock ProtocolDatabaseLock s))))"
proof -
  have "ReleaseLock cb n ProtocolDatabaseLock (upd_db (\<lambda>_. h) (AcquireLock ProtocolDatabaseLock s)) =
      Ret (left (upd_db (\<lambda>_. h) (AcquireLock ProtocolDatabaseLock s)))" for h
    by (rule leave_section [OF assms]) simp
  then show ?thesis by (simp add: with_database_def Let_def cong: bind_run_cong)
qed

lemma BS_AllocatePool_frame:
  assumes "quiet s" and "2 \<le> n" and "BS_AllocatePool (core_services cb n con dis) t Size s = Ret (st, p, s')"
  shows "in_frame s s'"
proof -
  from assms(3) have "BootServiceAllocatePool cb n t Size s = Ret (st, p, s')" by (simp add: core_services_def)
  then show ?thesis
    by (cases rule: BootServiceAllocatePool_cases) (auto simp: with_memory_quiet [OF assms(1,2)] mem_after_frame)
qed

lemma BS_FreePool_frame:
  assumes "quiet s" and "2 \<le> n" and "BS_FreePool (core_services cb n con dis) b s = Ret (st, s')"
  shows "in_frame s s'"
  using assms by (auto simp: core_services_def BSFreePool_def with_memory_quiet [OF assms(1,2)] mem_after_frame split: if_splits)

lemma AllocatePool_frame:
  assumes "quiet s" and "2 \<le> n" and "AllocatePool (core_services cb n con dis) k s = Ret (b, s')"
  shows "in_frame s s'"
  using assms BS_AllocatePool_frame [OF assms(1,2)] by (auto simp: AllocatePool_def)

lemma FreePool_frame:
  assumes "quiet s" and "2 \<le> n" and "FreePool (core_services cb n con dis) b s = Ret s'"
  shows "in_frame s s'"
  using assms BS_FreePool_frame [OF assms(1,2)] by (auto simp: FreePool_def)

end
