(* ===== verification/ProtocolMap.thy ===== *)
theory ProtocolMap
  imports HandleQuiet
begin

text \<open>
  The abstract view of the handle database: a map from handles to maps from protocols to interfaces. Each change
  of the database is one of the map.
\<close>

definition offers :: "'z hand_scheme \<Rightarrow> UINTN \<Rightarrow> EFI_GUID \<Rightarrow> UINTN \<Rightarrow> PROTOCOL_INTERFACE \<Rightarrow> bool" where
  "offers h a g p X \<longleftrightarrow> Prots h p = Some X \<and> PIHandle X = a \<and> (\<exists>E. Entries h (PIProtocol X) = Some E \<and> PEProtocolID E = g)"

definition represents :: "'z hand_scheme \<Rightarrow> (UINTN \<rightharpoonup> EFI_GUID \<rightharpoonup> UINTN) \<Rightarrow> bool" where
  "represents h M \<longleftrightarrow> dom M = dom (Handles h) \<and>
     (\<forall>a m g i. M a = Some m \<longrightarrow> (m g = Some i \<longleftrightarrow> (\<exists>p X. offers h a g p X \<and> PIInterface X = i))) \<and>
     (\<forall>p q X Y. Prots h p = Some X \<and> Prots h q = Some Y \<and> PIHandle X = PIHandle Y \<and> PIProtocol X = PIProtocol Y \<longrightarrow> p = q)"

lemma representsD:
  assumes "represents h M"
  shows "M a = None \<longleftrightarrow> Handles h a = None"
    and "M a = Some m \<Longrightarrow> m g = Some i \<longleftrightarrow> (\<exists>p X. offers h a g p X \<and> PIInterface X = i)"
    and "Prots h p = Some X \<Longrightarrow> Prots h q = Some Y \<Longrightarrow> PIHandle X = PIHandle Y \<Longrightarrow> PIProtocol X = PIProtocol Y \<Longrightarrow> p = q"
proof -
  have "dom M = dom (Handles h)" using assms by (simp add: represents_def)
  then show "M a = None \<longleftrightarrow> Handles h a = None" by (metis domIff)
  show "M a = Some m \<Longrightarrow> m g = Some i \<longleftrightarrow> (\<exists>p X. offers h a g p X \<and> PIInterface X = i)"
    using assms unfolding represents_def by blast
  show "Prots h p = Some X \<Longrightarrow> Prots h q = Some Y \<Longrightarrow> PIHandle X = PIHandle Y \<Longrightarrow> PIProtocol X = PIProtocol Y \<Longrightarrow> p = q"
    using assms unfolding represents_def by blast
qed

lemma representsI:
  assumes "\<And>a. M a = None \<longleftrightarrow> Handles h a = None"
    and "\<And>a m g i. M a = Some m \<Longrightarrow> m g = Some i \<longleftrightarrow> (\<exists>p X. offers h a g p X \<and> PIInterface X = i)"
    and "\<And>p q X Y. Prots h p = Some X \<Longrightarrow> Prots h q = Some Y \<Longrightarrow> PIHandle X = PIHandle Y \<Longrightarrow> PIProtocol X = PIProtocol Y \<Longrightarrow> p = q"
  shows "represents h M"
proof -
  have "dom M = dom (Handles h)" using assms(1) by (auto simp: dom_def)
  then show ?thesis unfolding represents_def using assms(2,3) by blast
qed

text \<open>Changes that the view does not show.\<close>

lemma represents_cong:
  assumes "\<And>a. Handles h' a = None \<longleftrightarrow> Handles h a = None"
    and "\<And>p. map_option (\<lambda>X. (PIHandle X, PIProtocol X, PIInterface X)) (Prots h' p) = map_option (\<lambda>X. (PIHandle X, PIProtocol X, PIInterface X)) (Prots h p)"
    and "\<And>p X. Prots h p = Some X \<Longrightarrow> map_option PEProtocolID (Entries h' (PIProtocol X)) = map_option PEProtocolID (Entries h (PIProtocol X))"
    and "represents h M"
  shows "represents h' M"
proof (rule representsI)
  have P: "\<exists>X. Prots h p = Some X \<and> PIHandle X = PIHandle X' \<and> PIProtocol X = PIProtocol X' \<and> PIInterface X = PIInterface X'" if "Prots h' p = Some X'" for p X'
    using assms(2) [of p] that by (cases "Prots h p") auto
  have P': "\<exists>X'. Prots h' p = Some X' \<and> PIHandle X' = PIHandle X \<and> PIProtocol X' = PIProtocol X \<and> PIInterface X' = PIInterface X" if "Prots h p = Some X" for p X
    using assms(2) [of p] that by (cases "Prots h' p") auto
  have E: "(\<exists>E. Entries h' (PIProtocol X) = Some E \<and> PEProtocolID E = g) \<longleftrightarrow> (\<exists>E. Entries h (PIProtocol X) = Some E \<and> PEProtocolID E = g)"
    if "Prots h p = Some X" for p X g
    using assms(3) [OF that] by (cases "Entries h (PIProtocol X)"; cases "Entries h' (PIProtocol X)") auto
  have "(\<exists>p X. offers h' a g p X \<and> PIInterface X = i) \<longleftrightarrow> (\<exists>p X. offers h a g p X \<and> PIInterface X = i)" for a g i
  proof
    assume "\<exists>p X. offers h' a g p X \<and> PIInterface X = i"
    then obtain p X' where X': "offers h' a g p X'" "PIInterface X' = i" by blast
    then obtain X where X: "Prots h p = Some X" "PIHandle X = PIHandle X'" "PIProtocol X = PIProtocol X'" "PIInterface X = PIInterface X'"
      using P unfolding offers_def by blast
    then have "offers h a g p X" using X' E [OF X(1)] by (simp add: offers_def)
    then show "\<exists>p X. offers h a g p X \<and> PIInterface X = i" using X X' by auto
  next
    assume "\<exists>p X. offers h a g p X \<and> PIInterface X = i"
    then obtain p X where X: "offers h a g p X" "PIInterface X = i" by blast
    then obtain X' where X': "Prots h' p = Some X'" "PIHandle X' = PIHandle X" "PIProtocol X' = PIProtocol X" "PIInterface X' = PIInterface X"
      using P' unfolding offers_def by blast
    have "Prots h p = Some X" using X by (simp add: offers_def)
    then have "offers h' a g p X'" using X X' E by (simp add: offers_def)
    then show "\<exists>p X. offers h' a g p X \<and> PIInterface X = i" using X X' by auto
  qed
  then show "m g = Some i \<longleftrightarrow> (\<exists>p X. offers h' a g p X \<and> PIInterface X = i)" if "M a = Some m" for a m g i
    using representsD(2) [OF assms(4) that] by blast
  show "p = q" if "Prots h' p = Some X" "Prots h' q = Some Y" "PIHandle X = PIHandle Y" "PIProtocol X = PIProtocol Y" for p q X Y
    using P [OF that(1)] P [OF that(2)] that(3,4) representsD(3) [OF assms(4)] by metis
  show "M a = None \<longleftrightarrow> Handles h' a = None" for a using representsD(1) [OF assms(4)] assms(1) by simp
qed

lemma represents_new_entry:
  assumes inv: "hand_inv h" and e: "e \<notin> live h" and "represents h M"
  shows "represents (new_entry e g h) M"
proof (rule represents_cong [OF _ _ _ assms(3)])
  fix p X assume "Prots h p = Some X"
  then have "Entries h (PIProtocol X) \<noteq> None" using entries_okD(6) [OF hand_invD(2) [OF inv]] by fastforce
  then have "PIProtocol X \<noteq> e" using e by (auto simp: live_def)
  then show "map_option PEProtocolID (Entries (new_entry e g h) (PIProtocol X)) = map_option PEProtocolID (Entries h (PIProtocol X))"
    by (simp add: new_entry_def)
qed (simp_all add: new_entry_def)

lemma represents_new_handle:
  assumes inv: "hand_inv h" and a: "a \<notin> live h" and "represents h M"
  shows "represents (new_handle a h) (M(a \<mapsto> Map.empty))" "M a = None"
proof -
  have n: "Handles h a = None" using a by (auto simp: live_def)
  then show "M a = None" using representsD(1) [OF assms(3)] by simp
  have p: "PIHandle X \<noteq> a" if "Prots h p = Some X" for p X
    using handles_okD(6) [OF hand_invD(1) [OF inv] that] n by auto
  have o: "offers (new_handle a h) b g p X = offers h b g p X" for b g p X by (simp add: offers_def new_handle_def)
  show "represents (new_handle a h) (M(a \<mapsto> Map.empty))"
  proof (rule representsI)
    show "m g = Some i \<longleftrightarrow> (\<exists>p X. offers (new_handle a h) b g p X \<and> PIInterface X = i)" if "(M(a \<mapsto> Map.empty)) b = Some m" for b m g i
      unfolding o using that representsD(2) [OF assms(3), of b m g i] p by (cases "b = a") (auto simp: offers_def)
  qed (use representsD [OF assms(3)] in \<open>auto simp: new_handle_def Let_def\<close>)
qed

lemma represents_link:
  assumes inv: "hand_inv h" and p: "p \<notin> live h" and m: "M a = Some m" "m g = None" and E: "Entries h e = Some E" "PEProtocolID E = g"
    and "represents h M"
  shows "represents (link_prot p a e i h) (M(a \<mapsto> m(g \<mapsto> i)))"
proof -
  let ?h = "link_prot p a e i h"
  let ?X = "\<lparr>PIHandle = a, PIProtocol = e, PIInterface = i, PIOpenList = [], PIOpenListCount = 0\<rparr>"
  have p': "Prots h p = None" using p by (auto simp: live_def)
  have f: "Prots ?h = (Prots h)(p \<mapsto> ?X)" "Entries ?h = (Entries h)(e \<mapsto> E\<lparr>PEProtocols := PEProtocols E @ [p]\<rparr>)"
    "Handles ?h b = None \<longleftrightarrow> Handles h b = None" for b
    using E(1) by (simp_all add: link_prot_def)
  have o: "offers ?h b k q X \<longleftrightarrow> (if q = p then X = ?X \<and> b = a \<and> k = g else offers h b k q X)" for b k q X
    using E p' unfolding offers_def f by (cases "X = ?X") auto
  have none: "\<not> (Prots h q = Some X \<and> PIHandle X = a \<and> PIProtocol X = e)" for q X
    using representsD(2) [OF assms(7) m(1), of g "PIInterface X"] m(2) E by (auto simp: offers_def)
  show ?thesis
  proof (rule representsI)
    show "l k = Some j \<longleftrightarrow> (\<exists>q X. offers ?h b k q X \<and> PIInterface X = j)" if l: "(M(a \<mapsto> m(g \<mapsto> i))) b = Some l" for b l k j
    proof -
      have R: "M b = Some l' \<Longrightarrow> l' k = Some j \<longleftrightarrow> (\<exists>q X. offers h b k q X \<and> PIInterface X = j)" for l'
        by (rule representsD(2) [OF assms(7)])
      have np: "\<not> offers h b k p X" for X using p' by (simp add: offers_def)
      have ng: "b = a \<Longrightarrow> k = g \<Longrightarrow> \<not> offers h b k q X" for q X
        using R [of m] m representsD(2) [OF assms(7) m(1), of g "PIInterface X"] by auto
      have ex: "(\<exists>q X. offers ?h b k q X \<and> PIInterface X = j) \<longleftrightarrow>
          b = a \<and> k = g \<and> j = i \<or> (\<exists>q X. offers h b k q X \<and> PIInterface X = j)" (is "?L = ?R")
      proof
        assume ?L
        then show ?R by (auto simp: o split: if_splits)
      next
        assume ?R
        moreover have "offers ?h a g p ?X" by (simp add: o)
        moreover have "offers ?h b k q X" if "offers h b k q X" for q X using that np by (auto simp: o)
        ultimately show ?L by fastforce
      qed
      show ?thesis
      proof (cases "b = a")
        case True
        then have "l = m(g \<mapsto> i)" using l by simp
        then show ?thesis unfolding ex using R [of m] m(1) ng True by auto
      next
        case False
        then show ?thesis unfolding ex using R [of l] l by simp
      qed
    qed
    show "q = r" if "Prots ?h q = Some X" "Prots ?h r = Some Y" "PIHandle X = PIHandle Y" "PIProtocol X = PIProtocol Y" for q r X Y
    proof -
      have in_h: "if t = p then PIHandle Z = a \<and> PIProtocol Z = e else Prots h t = Some Z" if "Prots ?h t = Some Z" for t Z
        using that unfolding f by (auto split: if_splits)
      show ?thesis
        using in_h [OF that(1)] in_h [OF that(2)] that(3,4) none [of q X] none [of r Y] representsD(3) [OF assms(7), of q X r Y]
        by (simp split: if_splits)
    qed
  qed (use representsD(1) [OF assms(7)] representsD(1) [OF assms(7), of a] m(1) f(3) in \<open>auto simp: fun_upd_def\<close>)
qed

lemma represents_uninstall:
  assumes inv: "hand_inv h" and m: "M a = Some m" and X: "offers h a g p X" and Y: "Entries h (PIProtocol X) = Some Y"
    and "represents h M"
  shows "represents (uninstall_db p (PIProtocol X) Y a h) (M(a \<mapsto> m(g := None)))"
proof -
  let ?h = "uninstall_db p (PIProtocol X) Y a h"
  have id: "PEProtocolID Y = g" "Prots h p = Some X" "PIHandle X = a" using X Y by (auto simp: offers_def)
  have ids: "(\<exists>E. Entries ?h t = Some E \<and> PEProtocolID E = k) \<longleftrightarrow> (\<exists>E. Entries h t = Some E \<and> PEProtocolID E = k)" for t k
    using Y by auto
  have o: "offers ?h b k q Z \<longleftrightarrow> q \<noteq> p \<and> offers h b k q Z" for b k q Z
    unfolding offers_def ids by auto
  have only: "q = p" if z: "offers h a g q Z" for q Z
  proof -
    obtain E where E: "Entries h (PIProtocol Z) = Some E" "PEProtocolID E = g" using z by (auto simp: offers_def)
    have "PIProtocol Z = PIProtocol X" using entries_okD(7) [OF hand_invD(2) [OF inv] E(1) Y] E(2) id(1) by simp
    then show ?thesis using representsD(3) [OF assms(5), of q Z p X] z id by (simp add: offers_def)
  qed
  show ?thesis
  proof (rule representsI)
    show "l k = Some j \<longleftrightarrow> (\<exists>q Z. offers ?h b k q Z \<and> PIInterface Z = j)" if l: "(M(a \<mapsto> m(g := None))) b = Some l" for b l k j
    proof -
      have R: "M b = Some l' \<Longrightarrow> l' k = Some j \<longleftrightarrow> (\<exists>q X. offers h b k q X \<and> PIInterface X = j)" for l'
        by (rule representsD(2) [OF assms(5)])
      have np: "offers h b k p Z \<Longrightarrow> b = a \<and> k = g" for Z using id Y by (auto simp: offers_def)
      have ex: "offers ?h b k q Z \<longleftrightarrow> offers h b k q Z \<and> \<not> (b = a \<and> k = g)" for q Z
        unfolding o using np only by blast
      show ?thesis
      proof (cases "b = a")
        case True
        then have "l = m(g := None)" using l by simp
        then show ?thesis unfolding ex using R [of m] m True by auto
      next
        case False
        then show ?thesis unfolding ex using R [of l] l by simp
      qed
    qed
    show "q = r" if "Prots ?h q = Some Z" "Prots ?h r = Some W" "PIHandle Z = PIHandle W" "PIProtocol Z = PIProtocol W" for q r Z W
      using that representsD(3) [OF assms(5), of q Z r W] by (auto split: if_splits)
  qed (use representsD(1) [OF assms(5)] representsD(1) [OF assms(5), of a] m in \<open>auto\<close>)
qed

lemma represents_drop_handle:
  assumes inv: "hand_inv h" and H: "Handles h a = Some H" "IHProtocols H = []" and "represents h M"
  shows "represents (drop_handle a h) (M(a := None))"
proof (rule representsI)
  have o: "offers (drop_handle a h) b k q Z = offers h b k q Z" for b k q Z by (simp add: offers_def drop_handle_def)
  show "l k = Some j \<longleftrightarrow> (\<exists>q Z. offers (drop_handle a h) b k q Z \<and> PIInterface Z = j)" if "(M(a := None)) b = Some l" for b l k j
    unfolding o using representsD(2) [OF assms(4)] that by (auto split: if_splits)
qed (use representsD [OF assms(4)] in \<open>auto simp: drop_handle_def split: if_splits\<close>)

lemma represents_empty:
  assumes inv: "hand_inv h" and "represents h M" and "M a = Some m" and "Handles h a = Some H"
  shows "IHProtocols H = [] \<longleftrightarrow> m = Map.empty"
proof -
  have "(\<exists>p. p \<in> set (IHProtocols H)) \<longleftrightarrow> (\<exists>g i. m g = Some i)"
  proof
    assume "\<exists>p. p \<in> set (IHProtocols H)"
    then obtain p X where X: "Prots h p = Some X" "PIHandle X = a" using handles_okD(5) [OF hand_invD(1) [OF inv] assms(4)] by blast
    obtain E where "Entries h (PIProtocol X) = Some E" using entries_okD(6) [OF hand_invD(2) [OF inv] X(1)] by blast
    then have "offers h a (PEProtocolID E) p X" using X by (simp add: offers_def)
    then show "\<exists>g i. m g = Some i" using representsD(2) [OF assms(2,3)] by blast
  next
    assume "\<exists>g i. m g = Some i"
    then obtain g p X where "offers h a g p X" using representsD(2) [OF assms(2,3)] by blast
    then show "\<exists>p. p \<in> set (IHProtocols H)" using handles_okD(5) [OF hand_invD(1) [OF inv] assms(4)] unfolding offers_def by blast
  qed
  moreover have "IHProtocols H = [] \<longleftrightarrow> \<not> (\<exists>p. p \<in> set (IHProtocols H))" by (metis length_greater_0_conv length_pos_if_in_set list.set_intros(1) neq_Nil_conv)
  moreover have "m = Map.empty \<longleftrightarrow> \<not> (\<exists>g i. m g = Some i)" by (auto simp: fun_eq_iff)
  ultimately show ?thesis by blast
qed

end
