(* ===== verification/ProtocolRefine.thy ===== *)
theory ProtocolRefine
  imports ProtocolMap
begin

text \<open>
  Installing, looking up and uninstalling an interface, as changes of the map from handles to their
  protocols. Nobody has registered for notifications here, and none is due.
\<close>

definition unwatched :: "'z hand_scheme \<Rightarrow> bool" where
  "unwatched h \<longleftrightarrow> (\<forall>e E. Entries h e = Some E \<longrightarrow> PENotify E = [])"

text \<open>Inside a critical section that was entered in state \<open>s0\<close>.\<close>

definition section_ok where
  "section_ok cb con dis F s0 M s \<longleftrightarrow> handle_env.sect (inside cb con dis) F s \<and> in_frame (AcquireLock ProtocolDatabaseLock s0) s \<and>
     represents (db s) M \<and> unwatched (db s)"

lemma section_okD:
  assumes "section_ok cb con dis F s0 M s"
  shows "handle_env.sect (inside cb con dis) F s" "in_frame (AcquireLock ProtocolDatabaseLock s0) s" "represents (db s) M" "unwatched (db s)"
    "hand_inv (db s)"
  using assms hdb.sect_inv by (auto simp: section_ok_def)

lemma section_quiet: "section_ok cb con dis F s0 M s \<Longrightarrow> quiet (AcquireLock ProtocolDatabaseLock s0) \<Longrightarrow> quiet s"
  using in_frame_quiet section_okD(2) by blast

lemma AllocatePool_section:
  assumes "section_ok cb con dis F s0 M s" and "quiet (AcquireLock ProtocolDatabaseLock s0)" and "2 \<le> n"
    and "AllocatePool (core_services cb n con dis) k s = Ret (b, s')"
  shows "db s' = db s" and "b = 0 \<Longrightarrow> section_ok cb con dis F s0 M s'"
    and "b \<noteq> 0 \<Longrightarrow> b \<notin> F \<and> b \<notin> live (db s) \<and> section_ok cb con dis (insert b F) s0 M s'"
proof -
  note D = section_okD [OF assms(1)]
  note a = hdb.AllocatePool_sect [OF D(1) assms(4)]
  have f: "in_frame (AcquireLock ProtocolDatabaseLock s0) s'"
    by (rule in_frame_trans [OF D(2) AllocatePool_frame [OF section_quiet [OF assms(1,2)] assms(3,4)]])
  show "db s' = db s" using a by blast
  show "b = 0 \<Longrightarrow> section_ok cb con dis F s0 M s'" using a f D by (simp add: section_ok_def)
  show "b \<noteq> 0 \<Longrightarrow> b \<notin> F \<and> b \<notin> live (db s) \<and> section_ok cb con dis (insert b F) s0 M s'" using a f D by (simp add: section_ok_def)
qed

lemma FindProtocolEntry_section:
  assumes "section_ok cb con dis F s0 M s" and "quiet (AcquireLock ProtocolDatabaseLock s0)" and "2 \<le> n"
    and "FindProtocolEntry (core_services cb n con dis) g True s = Ret (e, s')"
  shows "section_ok cb con dis F s0 M s' \<and> (e \<noteq> 0 \<longrightarrow> (\<exists>E. Entries (db s') e = Some E \<and> PEProtocolID E = g))"
proof (cases "List.find (has_id (db s) g) (ProtocolDatabase (db s))")
  case (Some e')
  then show ?thesis using assms(1,4) find_id_Some [OF Some] by (auto simp: FindProtocolEntry_def)
next
  case None
  then obtain s1 where a: "AllocatePool (core_services cb n con dis) sizeof_PROTOCOL_ENTRY s = Ret (e, s1)"
      and s': "s' = (if e \<noteq> 0 then upd_db (new_entry e g) s1 else s1)"
    using assms(4) by (auto simp: FindProtocolEntry_def)
  note A = AllocatePool_section [OF assms(1-3) a]
  show ?thesis
  proof (cases "e = 0")
    case False
    then have e: "e \<notin> live (db s1)" "section_ok cb con dis (insert e F) s0 M s1" using A by auto
    note D = section_okD [OF e(2)]
    have "handle_env.sect (inside cb con dis) F s'" using hdb.FindProtocolEntry_sect [OF section_okD(1) [OF assms(1)] assms(4)] by blast
    moreover have "represents (db s') M" using represents_new_entry [OF D(5) e(1) D(3)] s' False by simp
    moreover have "unwatched (db s')" using D(4) s' False by (auto simp: unwatched_def new_entry_def)
    ultimately show ?thesis using D(2) s' False by (simp add: section_ok_def) (simp add: new_entry_def)
  qed (use A s' in simp)
qed

text \<open>The course of a successful and of a failing installation.\<close>

definition install_handle :: "'z handst EFI_BOOT_SERVICES \<Rightarrow> UINTN \<Rightarrow> 'z handst \<Rightarrow> (UINTN \<times> 'z handst) run" where
  "install_handle bs uh s =
     (if uh \<noteq> 0 then Ret (uh, s)
      else bind_run (AllocatePool bs sizeof_IHANDLE s) (\<lambda>(a, s3). Ret (a, if a \<noteq> 0 then upd_db (new_handle a) s3 else s3)))"

lemma install_body_cases:
  assumes "install_body bs cb n Status0 uh g i s = Ret ((st, p, a), s')"
  obtains e s1 where "FindProtocolEntry bs g True s = Ret (e, s1)" "e = 0" "st = Status0" "p = 0" "s' = s1"
  | e s1 where "FindProtocolEntry bs g True s = Ret (e, s1)" "e \<noteq> 0" "AllocatePool bs sizeof_PROTOCOL_INTERFACE s1 = Ret (p, s')" "p = 0" "st = Status0"
  | e s1 s2 b where "FindProtocolEntry bs g True s = Ret (e, s1)" "e \<noteq> 0" "AllocatePool bs sizeof_PROTOCOL_INTERFACE s1 = Ret (p, s2)" "p \<noteq> 0"
      "install_handle bs uh s2 = Ret (b, s')" "b = 0 \<and> st = Status0 \<or> b \<noteq> 0 \<and> Handles (db s') b = None \<and> st = EFI_INVALID_PARAMETER"
  | e s1 s2 s3 where "FindProtocolEntry bs g True s = Ret (e, s1)" "e \<noteq> 0" "AllocatePool bs sizeof_PROTOCOL_INTERFACE s1 = Ret (p, s2)" "p \<noteq> 0"
      "install_handle bs uh s2 = Ret (a, s3)" "a \<noteq> 0" "Handles (db s3) a \<noteq> None"
      "NotifyProtocolEntry cb n e (upd_db (link_prot p a e i) s3) = Ret s'" "st = EFI_SUCCESS"
proof -
  obtain e s1 where e: "FindProtocolEntry bs g True s = Ret (e, s1)" using assms by (auto simp: install_body_def)
  show thesis
  proof (cases "e = 0")
    case True
    then show thesis using that(1) e assms by (simp add: install_body_def)
  next
    case e0: False
    obtain q s2 where q: "AllocatePool bs sizeof_PROTOCOL_INTERFACE s1 = Ret (q, s2)" using assms e e0 by (auto simp: install_body_def)
    show thesis
    proof (cases "q = 0")
      case True
      then show thesis using that(2) e e0 q assms by (simp add: install_body_def)
    next
      case q0: False
      have eq: "install_body bs cb n Status0 uh g i s = bind_run (install_handle bs uh s2) (\<lambda>(Handle, s3).
           if Handle = 0 then Ret ((Status0, q, 0), s3)
           else if Handles (db s3) Handle = None then Ret ((EFI_INVALID_PARAMETER, q, Handle), s3)
           else bind_run (NotifyProtocolEntry cb n e (upd_db (link_prot q Handle e i) s3)) (\<lambda>s4. Ret ((EFI_SUCCESS, q, Handle), s4)))"
        using e e0 q q0 by (simp add: install_body_def install_handle_def del: bind_run_Ret)
      obtain b s3 where b: "install_handle bs uh s2 = Ret (b, s3)" using assms unfolding eq by auto
      show thesis
      proof (cases "b = 0 \<or> Handles (db s3) b = None")
        case True
        then have "q = p" "s3 = s'" using assms unfolding eq by (auto simp: b split: if_splits)
        then show thesis using that(3) [of e s1 s2 b] e e0 q q0 b True assms unfolding eq by (auto split: if_splits)
      next
        case False
        then show thesis using that(4) [of e s1 s2 s3] e e0 q q0 b assms unfolding eq by (auto split: if_splits)
      qed
    qed
  qed
qed

lemma install_handle_section:
  assumes "section_ok cb con dis F s0 M s" and "quiet (AcquireLock ProtocolDatabaseLock s0)" and "2 \<le> n"
    and "install_handle (core_services cb n con dis) uh s = Ret (b, s')"
  shows "\<exists>M'. section_ok cb con dis F s0 M' s' \<and> (\<forall>e E. Entries (db s) e = Some E \<longrightarrow> Entries (db s') e = Some E) \<and>
     (if uh = 0 \<and> b \<noteq> 0 then M b = None \<and> M' = M(b \<mapsto> Map.empty) else M' = M \<and> (uh \<noteq> 0 \<longrightarrow> b = uh))"
proof (cases "uh = 0")
  case True
  then obtain s3 where a: "AllocatePool (core_services cb n con dis) sizeof_IHANDLE s = Ret (b, s3)"
      and s': "s' = (if b \<noteq> 0 then upd_db (new_handle b) s3 else s3)" using assms(4) by (auto simp: install_handle_def)
  note A = AllocatePool_section [OF assms(1-3) a]
  show ?thesis
  proof (cases "b = 0")
    case False
    then have b: "b \<notin> F" "b \<notin> live (db s3)" "section_ok cb con dis (insert b F) s0 M s3" using A by auto
    note D = section_okD [OF b(3)]
    have "section_ok cb con dis F s0 (M(b \<mapsto> Map.empty)) s'"
      using hdb.new_handle_sect [OF D(1) b(1) False] D(2,4) represents_new_handle(1) [OF D(5) b(2) D(3)] s' False
      by (simp add: section_ok_def) (simp add: unwatched_def new_handle_def Let_def)
    then show ?thesis using represents_new_handle(2) [OF D(5) b(2) D(3)] A(1) s' False True by (auto simp: new_handle_def Let_def)
  qed (use A s' True in auto)
qed (use assms in \<open>auto simp: install_handle_def\<close>)

lemma NotifyProtocolEntry_unwatched: "unwatched h \<Longrightarrow> db s = h \<Longrightarrow> NotifyProtocolEntry cb n e s = Ret s' \<Longrightarrow> s' = s"
  by (auto simp: NotifyProtocolEntry_def unwatched_def split: option.splits)

lemma install_body_section:
  assumes "section_ok cb con dis F s0 M s" and "quiet (AcquireLock ProtocolDatabaseLock s0)" and "2 \<le> n"
    and "install_body (core_services cb n con dis) cb n Status0 uh g i s = Ret ((st, p, a), s')" and "EFI_ERROR Status0"
    and free: "uh \<noteq> 0 \<Longrightarrow> \<exists>m. M uh = Some m \<and> m g = None"
  shows "if EFI_ERROR st then in_frame (AcquireLock ProtocolDatabaseLock s0) s' \<and> represents (db s') M \<and> unwatched (db s')
     else st = EFI_SUCCESS \<and> in_frame (AcquireLock ProtocolDatabaseLock s0) s' \<and> unwatched (db s') \<and>
       (if uh = 0 then M a = None \<and> represents (db s') (M(a \<mapsto> [g \<mapsto> i]))
        else a = uh \<and> (\<exists>m. M uh = Some m \<and> m g = None \<and> represents (db s') (M(uh \<mapsto> m(g \<mapsto> i)))))"
  using assms(4)
proof (cases rule: install_body_cases)
  case (1 e s1)
  then show ?thesis using FindProtocolEntry_section [OF assms(1-3) 1(1)] assms(5) by (simp add: section_ok_def)
next
  case (2 e s1)
  note s1 = FindProtocolEntry_section [OF assms(1-3) 2(1)]
  have "section_ok cb con dis F s0 M s'" using AllocatePool_section(2) [OF _ assms(2,3) 2(3)] s1 2(4) by blast
  then show ?thesis using 2(5) assms(5) by (simp add: section_ok_def)
next
  case (3 e s1 s2 b)
  note s1 = FindProtocolEntry_section [OF assms(1-3) 3(1)]
  have s2: "section_ok cb con dis (insert p F) s0 M s2" using AllocatePool_section(3) [OF _ assms(2,3) 3(3,4)] s1 by blast
  obtain M' where M': "section_ok cb con dis (insert p F) s0 M' s'"
      "if uh = 0 \<and> b \<noteq> 0 then M b = None \<and> M' = M(b \<mapsto> Map.empty) else M' = M \<and> (uh \<noteq> 0 \<longrightarrow> b = uh)"
    using install_handle_section [OF s2 assms(2,3) 3(5)] by blast
  have "uh = 0 \<and> b \<noteq> 0 \<Longrightarrow> Handles (db s') b \<noteq> None" using representsD(1) [OF section_okD(3) [OF M'(1)], of b] M'(2) by simp
  then have "M' = M" using M'(2) 3(6) by (auto split: if_splits)
  then show ?thesis using section_okD [OF M'(1)] 3(6) assms(5) by auto
next
  case (4 e s1 s2 s3)
  note s1 = FindProtocolEntry_section [OF assms(1-3) 4(1)]
  obtain E where E: "Entries (db s1) e = Some E" "PEProtocolID E = g" using s1 4(2) by blast
  note A = AllocatePool_section [OF conjunct1 [OF s1] assms(2,3) 4(3)]
  then have s2: "section_ok cb con dis (insert p F) s0 M s2" "p \<notin> F" using 4(4) by blast+
  obtain M' where M': "section_ok cb con dis (insert p F) s0 M' s3" "\<And>e E. Entries (db s2) e = Some E \<Longrightarrow> Entries (db s3) e = Some E"
      "if uh = 0 \<and> a \<noteq> 0 then M a = None \<and> M' = M(a \<mapsto> Map.empty) else M' = M \<and> (uh \<noteq> 0 \<longrightarrow> a = uh)"
    using install_handle_section [OF s2(1) assms(2,3) 4(5)] by blast
  note D = section_okD [OF M'(1)]
  have E3: "Entries (db s3) e = Some E" using M'(2) E(1) A(1) by simp
  obtain m where m: "M' a = Some m" "m g = None" "if uh = 0 then m = Map.empty else M a = Some m"
    using M'(3) 4(6) free by (auto split: if_splits)
  have p: "p \<notin> live (db s3)" using D(1) by (auto simp: hdb.sect_def)
  have r: "represents (link_prot p a e i (db s3)) (M'(a \<mapsto> m(g \<mapsto> i)))"
    by (rule represents_link [OF D(5) p m(1,2) E3 E(2) D(3)])
  have u: "unwatched (link_prot p a e i (db s3))" using D(4) E3 by (auto simp: unwatched_def link_prot_def)
  have s': "s' = upd_db (link_prot p a e i) s3" by (rule NotifyProtocolEntry_unwatched [OF u _ 4(8)]) simp
  show ?thesis
  proof (cases "uh = 0")
    case True
    then have "M'(a \<mapsto> m(g \<mapsto> i)) = M(a \<mapsto> [g \<mapsto> i])" "M a = None" using M'(3) m(3) 4(6) by auto
    then show ?thesis using True r u s' D(2) 4(9) by simp
  next
    case False
    then have "M' = M" "a = uh" "M uh = Some m" using M'(3) m by auto
    then show ?thesis using False r u s' D(2) 4(9) m(2) by auto
  qed
qed

end
