(* ===== verification/HandleSample.thy ===== *)
theory HandleSample
  imports ProtocolRefine
begin

text \<open>
  A small system to try the services of the handle database on: memory with a few free blocks of boot services
  data, and what an allocation from them does.
\<close>

definition hand_mem :: "'z \<Rightarrow> 'z mem_scheme" where
  "hand_mem z = \<lparr>MemoryMap = [OnPool 0x1FE010, OnPool 0x1FE090],
     MapEntry = (\<lambda>p. \<lparr>FromPool = True, MType = (if p = OnPool 0x1FE090 then EfiBootServicesData else EfiConventionalMemory),
                       MStart = (if p = OnPool 0x1FE090 then 0x1FE000 else 0x100000),
                       MEnd = (if p = OnPool 0x1FE090 then 0x1FFFFF else 0x1FDFFF), VirtualStart = 0, MAttribute = 0xF\<rparr>),
     MapDepth = 0, FreeMapStack = 0, MemoryMapKey = 1,
     EfiWatermarkRuntimeServicesCode = MAX_ADDRESS, EfiWatermarkRuntimeServicesData = MAX_ADDRESS,
     EfiWatermarkBootServicesCode = MAX_ADDRESS, EfiWatermarkBootServicesData = MAX_ADDRESS,
     EfiWatermarkDefault = MAX_ADDRESS,
     PoolHead = (\<lambda>t. \<lparr>Used = 0, PMemoryType = t, FreeList = (\<lambda>i. if t = EfiBootServicesData \<and> i = 0 then [0x1FE100, 0x1FE180, 0x1FE200, 0x1FE280] else [])\<rparr>),
     PoolHeadList = [],
     Blocks = [0x1FE000 \<mapsto> POOL_HEAD EfiBootServicesData 88, 0x1FE080 \<mapsto> POOL_HEAD EfiBootServicesData 88,
               0x1FE100 \<mapsto> POOL_FREE 0, 0x1FE180 \<mapsto> POOL_FREE 0, 0x1FE200 \<mapsto> POOL_FREE 0, 0x1FE280 \<mapsto> POOL_FREE 0],
     Tails = [0x1FE050 \<mapsto> 88, 0x1FE0D0 \<mapsto> 88], \<dots> = z\<rparr>"

lemma hand_map_inv: "map_inv (hand_mem z)"
  by (auto simp: map_inv_def mlist_inv_def hand_mem_def wf_entry_def wf_range_def home_def iv_def)

lemma hand_backed: "backed [0x1FE000 \<mapsto> Small 0] Map.empty (region (hand_mem z))"
  unfolding backed_def
proof (intro allI impI, elim conjE)
  fix b c a assume "[0x1FE000 \<mapsto> Small 0] b = Some c" "a \<in> space b c"
  then have "a \<in> iv (MapEntry (hand_mem z) (OnPool 0x1FE090))"
    by (auto simp: hand_mem_def space_def chunk_size_def iv_def split: if_splits)
  moreover have "OnPool 0x1FE090 \<in> set (MemoryMap (hand_mem z))" "MType (MapEntry (hand_mem z) (OnPool 0x1FE090)) = EfiBootServicesData"
    by (simp_all add: hand_mem_def)
  ultimately have "(a, EfiBootServicesData, MAttribute (MapEntry (hand_mem z) (OnPool 0x1FE090))) \<in> region (hand_mem z)"
    using entry_region [of "OnPool 0x1FE090" "hand_mem z" a] by simp
  moreover have "EfiBootServicesData \<noteq> EfiConventionalMemory" by simp
  ultimately show "Map.empty a = None \<and> (\<exists>t w. t \<noteq> EfiConventionalMemory \<and> (a, t, w) \<in> region (hand_mem z))" by blast
qed

lemma hand_pool_inv:
  "pool_inv [0x1FE000 \<mapsto> Small 0] [0x1FE000 \<mapsto> (EfiBootServicesData, 88), 0x1FE080 \<mapsto> (EfiBootServicesData, 88)] (hand_mem z)"
proof -
  let ?C = "[0x1FE000 \<mapsto> Small 0] :: UINTN \<rightharpoonup> chunk"
  have ok: "chunks_ok ?C" by (auto simp: chunks_ok_def chunk_ok_def chunk_size_def split: if_splits)
  have "{(0, 0), (128, 0), (256, 0), (384, 0), (512, 0), (640, 0)} \<subseteq> set (carve 0 0)" by (simp add: carve.simps LIST_TO_SIZE_def)
  then have sl: "slot ?C 0x1FE000 0" "slot ?C 0x1FE080 0" "slot ?C 0x1FE100 0" "slot ?C 0x1FE180 0" "slot ?C 0x1FE200 0" "slot ?C 0x1FE280 0"
    by (auto simp: slot_def intro: exI [of _ 0] exI [of _ 128] exI [of _ 256] exI [of _ 384] exI [of _ 512] exI [of _ 640])
  have B: "Blocks (hand_mem z) = [0x1FE000 \<mapsto> POOL_HEAD EfiBootServicesData 88, 0x1FE080 \<mapsto> POOL_HEAD EfiBootServicesData 88,
      0x1FE100 \<mapsto> POOL_FREE 0, 0x1FE180 \<mapsto> POOL_FREE 0, 0x1FE200 \<mapsto> POOL_FREE 0, 0x1FE280 \<mapsto> POOL_FREE 0]"
    "Tails (hand_mem z) = [0x1FE050 \<mapsto> 88, 0x1FE0D0 \<mapsto> 88]" by (simp_all add: hand_mem_def)
  have fl: "fl (hand_mem z) r i = (if r = Static EfiBootServicesData \<and> i = 0 then [0x1FE100, 0x1FE180, 0x1FE200, 0x1FE280] else [])" for r i
    by (auto simp: fl_def get_pool_def hand_mem_def split: pool_ref.splits)
  have "free_inv ?C (fl (hand_mem z)) (Blocks (hand_mem z))"
    by (rule free_invI) (auto simp: fl sl B split: if_splits)
  moreover have "index_inv ?C (Blocks (hand_mem z))"
    using slot_unique [OF ok sl(3)] slot_unique [OF ok sl(4)] slot_unique [OF ok sl(5)] slot_unique [OF ok sl(6)]
    by (auto simp: index_inv_def B split: if_splits)
  moreover have "used_inv ?C [0x1FE000 \<mapsto> (EfiBootServicesData, 88), 0x1FE080 \<mapsto> (EfiBootServicesData, 88)] (Blocks (hand_mem z)) (Tails (hand_mem z))"
    by (auto simp: used_inv_def B room_def sl SIZE_TO_LIST_def tail_addr_def split: if_splits)
  ultimately show ?thesis using ok by (simp add: pool_inv_def pinv_def)
qed

lemma hand_mem_inv: "mem_inv Map.empty Map.empty (vis (region (hand_mem z)), z) (hand_mem z)"
  by (rule mem_invI [OF hand_map_inv _ _ _ hand_backed _ hand_pool_inv])
     (auto simp: claims_def hand_mem_def owners_def pool_entries_def pool_descs_def hdr_def)

section \<open>Allocating from the stock\<close>

definition stock :: "UINTN list \<Rightarrow> 'z mem_scheme \<Rightarrow> bool" where
  "stock hs m \<longleftrightarrow> FreeList (PoolHead m EfiBootServicesData) 0 = hs \<and> (\<forall>h\<in>set hs. h \<noteq> 0 \<and> h + SIZE_OF_POOL_HEAD \<noteq> 0)"

lemma hand_stock: "stock [0x1FE100, 0x1FE180, 0x1FE200, 0x1FE280] (hand_mem z)"
  by (simp add: stock_def hand_mem_def)

definition small :: "UINTN \<Rightarrow> bool" where
  "small k \<longleftrightarrow> \<not> 0xffffff00 < k \<and> SIZE_TO_LIST (ALIGN_VARIABLE k + POOL_OVERHEAD) = 0"

lemma small_sizes [simp]:
  "small sizeof_PROTOCOL_ENTRY" "small sizeof_PROTOCOL_INTERFACE" "small sizeof_IHANDLE" "small sizeof_PROTOCOL_NOTIFY"
  "small sizeof_OPEN_PROTOCOL_DATA" "small sizeof_OPEN_PROTOCOL_INFORMATION_ENTRY"
  by (simp_all add: small_def SIZE_TO_LIST_def ALIGN_VARIABLE_def)

lemma AllocatePoolI_stock:
  assumes "stock (h # hs) m" and "small k"
  shows "\<exists>m'. AllocatePoolI (Suc n) EfiBootServicesData k m = Ret (h + SIZE_OF_POOL_HEAD, m') \<and> stock hs m' \<and> mem.more m' = mem.more m"
  using assms by (simp add: AllocatePoolI_def AllocatePoolI_with_def LookupPoolHead_def Let_def small_def stock_def get_pool_def
      upd_pool_def fill_block_def del: bind_run_Ret)

lemma BS_AllocatePool_stock:
  assumes "stock (h # hs) (exec.more s)" and "small k" and "quiet s" and "2 \<le> n" and "\<not> EfiAtRuntime s"
  shows "\<exists>s'. BS_AllocatePool (core_services cb n con dis) EfiBootServicesData k s = Ret (EFI_SUCCESS, Some (h + SIZE_OF_POOL_HEAD), s') \<and>
     stock hs (exec.more s') \<and> db s' = db s \<and> in_frame s s'"
proof -
  obtain k' where n: "n = Suc k'" using assms(4) by (cases n) auto
  obtain m' where m': "AllocatePoolI n EfiBootServicesData k (exec.more s) = Ret (h + SIZE_OF_POOL_HEAD, m')" "stock hs m'"
      "mem.more m' = mem.more (exec.more s)" using AllocatePoolI_stock [OF assms(1,2), of k'] n by blast
  have "h + SIZE_OF_POOL_HEAD \<noteq> 0" using assms(1) by (simp add: stock_def)
  then have "BootServiceAllocatePool cb n EfiBootServicesData k s = Ret (EFI_SUCCESS, Some (h + SIZE_OF_POOL_HEAD), mem_after m' s)"
    using m'(1) assms(2,5) by (simp add: BootServiceAllocatePool_def BSAllocatePool_def with_memory_quiet [OF assms(3,4)] small_def del: bind_run_Ret)
  then show ?thesis using m'(2,3) by (intro exI [of _ "mem_after m' s"]) (simp add: core_services_def db_def mem_after_frame)
qed

lemma AllocatePool_stock:
  assumes "stock (h # hs) (exec.more s)" and "small k" and "quiet s" and "2 \<le> n" and "\<not> EfiAtRuntime s"
  obtains s' where "AllocatePool (core_services cb n con dis) k s = Ret (h + SIZE_OF_POOL_HEAD, s')"
     "stock hs (exec.more s')" "db s' = db s" "in_frame s s'"
  using BS_AllocatePool_stock [OF assms, of cb con dis] by (auto simp: AllocatePool_def)

section \<open>An empty database\<close>

definition empty_hand :: hand where
  "empty_hand = \<lparr>ProtocolDatabase = [], HandleList = [], HandleDatabaseKey = 0, EfiLocateHandleRequest = 0,
     Entries = Map.empty, Handles = Map.empty, Prots = Map.empty, Notifies = Map.empty\<rparr>"

definition hand_state :: "hand mem_scheme exec_scheme" where
  "hand_state = InitializeHandle (idle_state 4 Map.empty (hand_mem empty_hand))"

lemma hand_state_simps [simp]:
  "TPL hand_state = 4" "EventPending hand_state = 0" "Events hand_state = Map.empty" "\<not> EfiAtRuntime hand_state"
  "exec.more hand_state = hand_mem empty_hand" "db hand_state = empty_hand" "levels hand_state" "quiet hand_state"
  by (simp_all add: hand_state_def InitializeHandle_def InitializeLock_def idle_state_def upd_db_def db_def hand_mem_def empty_hand_def
      levels_def sample_locks_def quiet_def)

text \<open>One interface on a new handle.\<close>

definition block_io :: EFI_GUID where
  "block_io = \<lparr>Data1 = 0x964E5B21, Data2 = 0x6459, Data3 = 0x11D2, Data4 = 0x3B7269C9A000398E\<rparr>"

definition one_interface :: hand where
  "one_interface = link_prot 0x1FE190 0x1FE210 0x1FE110 0x5000 (new_handle 0x1FE210 (new_entry 0x1FE110 block_io empty_hand))"

lemma one_interface_simps [simp]:
  "Entries one_interface = [0x1FE110 \<mapsto> \<lparr>PEProtocolID = block_io, PEProtocols = [0x1FE190], PENotify = []\<rparr>]"
  "Handles one_interface = [0x1FE210 \<mapsto> \<lparr>IHProtocols = [0x1FE190], IHLocateRequest = 0, IHKey = 1\<rparr>]"
  "Prots one_interface = [0x1FE190 \<mapsto> \<lparr>PIHandle = 0x1FE210, PIProtocol = 0x1FE110, PIInterface = 0x5000, PIOpenList = [], PIOpenListCount = 0\<rparr>]"
  "HandleList one_interface = [0x1FE210]" "ProtocolDatabase one_interface = [0x1FE110]"
  "Notifies one_interface = Map.empty" "HandleDatabaseKey one_interface = 1" "EfiLocateHandleRequest one_interface = 0"
  by (simp_all add: one_interface_def link_prot_def new_handle_def new_entry_def empty_hand_def upd_entry_rec_def upd_handle_def Let_def)

lemma one_interface_inv: "hand_inv one_interface"
  by (simp add: hand_inv_def handles_ok_def entries_ok_def notifies_ok_def opens_ok_def record_ok_def addrs_apart_def open_addrs_def)

lemma db_upd [simp]: "db (upd_db f s) = f (db s)" "stock hs (exec.more (upd_db f s)) = stock hs (exec.more s)"
  "EfiAtRuntime (upd_db f s) = EfiAtRuntime s"
  by (simp_all add: upd_db_def db_def stock_def)

lemma acquire_sample [simp]: "db (AcquireLock l s) = db s" "EfiAtRuntime (AcquireLock l s) = EfiAtRuntime s"
  "exec.more (AcquireLock l s) = exec.more s"
  by (simp_all add: db_def AcquireLock_def RaiseTPL_def Let_def)

lemma in_frame_runtime: "in_frame s s' \<Longrightarrow> EfiAtRuntime s' = EfiAtRuntime s"
  by (simp add: in_frame_def exec_frame_def)

lemma sample_install:
  "\<exists>s'. InstallProtocolInterface (core_services cb 2 con dis) cb 2 (Some 0) (Some block_io) EFI_NATIVE_INTERFACE 0x5000 hand_state =
       Ret (EFI_SUCCESS, Some 0x1FE210, s') \<and>
     db s' = one_interface \<and> exec_frame hand_state s' \<and> stock [0x1FE280] (exec.more s')"
proof -
  let ?bs = "core_services cb 2 con dis" and ?a = "AcquireLock ProtocolDatabaseLock hand_state"
  have q: "quiet ?a" by (rule quiet_section) simp_all
  obtain s1 where s1: "AllocatePool ?bs sizeof_PROTOCOL_ENTRY ?a = Ret (0x1FE110, s1)" "stock [0x1FE180, 0x1FE200, 0x1FE280] (exec.more s1)"
      "db s1 = empty_hand" "in_frame ?a s1"
    by (rule AllocatePool_stock [of "0x1FE100" "[0x1FE180, 0x1FE200, 0x1FE280]" ?a "sizeof_PROTOCOL_ENTRY" 2 cb con dis]) (use q hand_stock in simp_all)
  let ?s1 = "upd_db (new_entry 0x1FE110 block_io) s1"
  have f1: "in_frame ?a ?s1" using s1(4) by simp
  have q1: "quiet ?s1" "\<not> EfiAtRuntime ?s1" using in_frame_quiet [OF f1] in_frame_runtime [OF f1] q by simp_all
  obtain s2 where s2: "AllocatePool ?bs sizeof_PROTOCOL_INTERFACE ?s1 = Ret (0x1FE190, s2)" "stock [0x1FE200, 0x1FE280] (exec.more s2)"
      "db s2 = db ?s1" "in_frame ?s1 s2"
    by (rule AllocatePool_stock [of "0x1FE180" "[0x1FE200, 0x1FE280]" ?s1 sizeof_PROTOCOL_INTERFACE 2 cb con dis]) (use s1 q1 in simp_all)
  have f2: "in_frame ?a s2" by (rule in_frame_trans [OF f1 s2(4)])
  have q2: "quiet s2" "\<not> EfiAtRuntime s2" using in_frame_quiet [OF f2] in_frame_runtime [OF f2] q by simp_all
  obtain s3 where s3: "AllocatePool ?bs sizeof_IHANDLE s2 = Ret (0x1FE210, s3)" "stock [0x1FE280] (exec.more s3)"
      "db s3 = db s2" "in_frame s2 s3"
    by (rule AllocatePool_stock [of "0x1FE200" "[0x1FE280]" s2 sizeof_IHANDLE 2 cb con dis]) (use s2 q2 in simp_all)
  let ?s4 = "upd_db (link_prot 0x1FE190 0x1FE210 0x1FE110 0x5000) (upd_db (new_handle 0x1FE210) s3)"
  have f4: "in_frame ?a ?s4" using in_frame_trans [OF f2 s3(4)] by simp
  have d4: "db ?s4 = one_interface" using s1(3) s2(3) s3(3) by (simp add: one_interface_def)
  have h: "Handles (db (upd_db (new_handle 0x1FE210) s3)) 0x1FE210 \<noteq> None" by (simp add: new_handle_def Let_def)
  have "FindProtocolEntry ?bs block_io True ?a = Ret (0x1FE110, ?s1)"
    using s1(1) by (simp add: FindProtocolEntry_def empty_hand_def)
  moreover have "NotifyProtocolEntry cb 2 0x1FE110 ?s4 = Ret ?s4"
    unfolding NotifyProtocolEntry_def d4 by simp
  ultimately have "install_body ?bs cb 2 EFI_OUT_OF_RESOURCES 0 block_io 0x5000 ?a = Ret ((EFI_SUCCESS, 0x1FE190, 0x1FE210), ?s4)"
    using s2(1) s3(1) h by (simp add: install_body_def)
  moreover note leave_section(1) [OF _ _ f4, of 2 cb] leave_section(2,3) [OF _ _ f4, of 2]
  ultimately have "InstallProtocolInterface ?bs cb 2 (Some 0) (Some block_io) EFI_NATIVE_INTERFACE 0x5000 hand_state =
      Ret (EFI_SUCCESS, Some 0x1FE210, left ?s4)" "exec_frame hand_state (left ?s4)" "exec.more (left ?s4) = exec.more ?s4"
    by (simp_all add: InstallProtocolInterface_def)
  moreover have "stock [0x1FE280] (exec.more ?s4)" using s3(2) by simp
  ultimately show ?thesis using d4 by (intro exI [of _ "left ?s4"]) simp
qed

end
