(* ===== verification/HandleFree.thy ===== *)
theory HandleFree
  imports HandleSample
begin

text \<open>
  Giving buffers back to the pool from the services of the handle database, when no notification is due: a buffer
  that can be released is released, and nothing else of the system changes.
\<close>

section \<open>The memory beside the database\<close>

definition same_pool :: "'z mem_scheme \<Rightarrow> 'z mem_scheme \<Rightarrow> bool" where
  "same_pool m m' \<longleftrightarrow> (\<exists>z. m' = m\<lparr>mem.more := z\<rparr>)"

lemma same_pool_refl [simp]: "same_pool m m"
  unfolding same_pool_def by (rule exI [of _ "mem.more m"]) simp

lemma same_pool_trans: "same_pool m m' \<Longrightarrow> same_pool m' m'' \<Longrightarrow> same_pool m m''"
  by (auto simp: same_pool_def)

lemma same_pool_upd [simp]: "same_pool (exec.more s) (exec.more (upd_db f s'))  = same_pool (exec.more s) (exec.more s')"
proof -
  have "same_pool m (m'\<lparr>mem.more := z\<rparr>) = same_pool m m'" for m m' :: "'a hand_scheme mem_scheme" and z
    unfolding same_pool_def
  proof
    assume "\<exists>y. m'\<lparr>mem.more := z\<rparr> = m\<lparr>mem.more := y\<rparr>"
    then have "m' = m\<lparr>mem.more := mem.more m'\<rparr>" by (cases m, cases m') simp
    then show "\<exists>y. m' = m\<lparr>mem.more := y\<rparr>" ..
  qed auto
  then show ?thesis by (simp add: upd_db_def)
qed

lemma releasable_more: "releasable L m \<Longrightarrow> releasable L (m\<lparr>mem.more := z\<rparr>)"
proof -
  assume "releasable L m"
  then obtain K D V where K: "mem_inv K D V m" "releasable_in K L m" by (auto simp: releasable_def)
  have "used_blocks K (m\<lparr>mem.more := z\<rparr>) = used_blocks K m" by (simp add: used_blocks_def pool_entries_def pool_descs_def)
  then have "releasable_in K L (m\<lparr>mem.more := z\<rparr>)" using K(2) by (simp add: releasable_in_def)
  then show ?thesis using mem_inv_more [OF K(1), of z] by (auto simp: releasable_def)
qed

lemma releasable_pool: "releasable L m \<Longrightarrow> same_pool m m' \<Longrightarrow> releasable L m'"
  using releasable_more by (auto simp: same_pool_def)

lemma releasable_upd [simp]: "releasable L (exec.more s) \<Longrightarrow> releasable L (exec.more (upd_db f s))"
  by (erule releasable_pool) simp

section \<open>Freeing\<close>

lemma BS_FreePool_releasable:
  assumes "quiet s" and "2 \<le> n" and "\<not> EfiAtRuntime s" and "releasable L (exec.more s)" and "b \<in> L"
  shows "\<exists>s'. BS_FreePool (core_services cb n con dis) b s = Ret (EFI_SUCCESS, s') \<and> db s' = db s \<and> in_frame s s' \<and>
     releasable (L - {b}) (exec.more s')"
proof -
  obtain m' where m': "FreePoolI n b (exec.more s) = Ret (EFI_SUCCESS, m')" "mem.more m' = mem.more (exec.more s)" "releasable (L - {b}) m'"
    using releasable_free [OF assms(4,5), of n] assms(2) by auto
  have "BSFreePool cb n b s = Ret (EFI_SUCCESS, mem_after m' s)"
    using m'(1) assms(3) by (simp add: BSFreePool_def with_memory_quiet [OF assms(1,2)] del: bind_run_Ret)
  then show ?thesis using m'(2,3) by (intro exI [of _ "mem_after m' s"]) (simp add: core_services_def db_def mem_after_frame)
qed

lemma FreePool_releasable:
  assumes "quiet s" and "2 \<le> n" and "\<not> EfiAtRuntime s" and "releasable L (exec.more s)" and "b \<in> L"
  obtains s' where "FreePool (core_services cb n con dis) b s = Ret s'" "db s' = db s" "in_frame s s'" "releasable (L - {b}) (exec.more s')"
  using BS_FreePool_releasable [OF assms, of cb con dis] by (auto simp: FreePool_def)

section \<open>Allocating\<close>

lemma AllocatePool_at_hand:
  assumes q: "quiet s" "2 \<le> n" "\<not> EfiAtRuntime s" and inv: "mem_inv K D V (exec.more s)"
    and at: "at_hand K EfiBootServicesData (SIZE_TO_LIST (ALIGN_VARIABLE Size + POOL_OVERHEAD)) (exec.more s)"
    and sz: "Size \<le> 0xffffff00" and i: "SIZE_TO_LIST (ALIGN_VARIABLE Size + POOL_OVERHEAD) < MAX_POOL_LIST"
  obtains b s' where "AllocatePool (core_services cb n con dis) Size s = Ret (b, s')" "b \<noteq> 0" "db s' = db s" "in_frame s s'"
     "releasable {b} (exec.more s')"
proof -
  have sz': "unat Size \<le> 0xffffff00" using sz by (simp add: word_le_nat_alt)
  obtain b m' where m': "AllocatePoolI n EfiBootServicesData Size (exec.more s) = Ret (b, m')" "b \<noteq> 0" "map_same (exec.more s) m'"
      "releasable {b} m'"
    using at_hand_alloc [OF inv at _ _ sz' i, of n] q(2) unfolding releasable_def by fastforce
  have "BootServiceAllocatePool cb n EfiBootServicesData Size s = Ret (EFI_SUCCESS, Some b, mem_after m' s)"
    using m'(1,2) sz q(3) by (simp add: BootServiceAllocatePool_def BSAllocatePool_def with_memory_quiet [OF q(1,2)] not_less del: bind_run_Ret)
  then have "AllocatePool (core_services cb n con dis) Size s = Ret (b, mem_after m' s)"
    by (simp add: AllocatePool_def core_services_def)
  then show ?thesis using that m'(2-4) mem_after_frame by (fastforce simp: db_def map_same_def)
qed

section \<open>A busy system\<close>

text \<open>
  Memory in which the blocks of a small database are allocated: in one chunk the descriptors of the map, a protocol entry, an interface,
  a handle and three records of openers, in another chunk a buffer of 400 bytes and a free block of that size.
\<close>

definition busy_blocks :: heads where
  "busy_blocks = [0x1FE100 \<mapsto> (EfiBootServicesData, 96), 0x1FE180 \<mapsto> (EfiBootServicesData, 120), 0x1FE200 \<mapsto> (EfiBootServicesData, 80),
     0x1FE280 \<mapsto> (EfiBootServicesData, 72), 0x1FE300 \<mapsto> (EfiBootServicesData, 72), 0x1FE380 \<mapsto> (EfiBootServicesData, 72),
     0x1FC000 \<mapsto> (EfiBootServicesData, 424)]"

definition busy_mem :: "'z \<Rightarrow> 'z mem_scheme" where
  "busy_mem z = (hand_mem z)\<lparr>
     MapEntry := (\<lambda>p. \<lparr>FromPool = True, MType = (if p = OnPool 0x1FE090 then EfiBootServicesData else EfiConventionalMemory),
                       MStart = (if p = OnPool 0x1FE090 then 0x1FC000 else 0x100000),
                       MEnd = (if p = OnPool 0x1FE090 then 0x1FFFFF else 0x1FBFFF), VirtualStart = 0, MAttribute = 0xF\<rparr>),
     PoolHead := (\<lambda>t. \<lparr>Used = 0, PMemoryType = t, FreeList = (\<lambda>i. if t = EfiBootServicesData \<and> i = 3 then [0x1FC200] else [])\<rparr>),
     Blocks := [0x1FE000 \<mapsto> POOL_HEAD EfiBootServicesData 88, 0x1FE080 \<mapsto> POOL_HEAD EfiBootServicesData 88,
                0x1FE100 \<mapsto> POOL_HEAD EfiBootServicesData 96, 0x1FE180 \<mapsto> POOL_HEAD EfiBootServicesData 120,
                0x1FE200 \<mapsto> POOL_HEAD EfiBootServicesData 80, 0x1FE280 \<mapsto> POOL_HEAD EfiBootServicesData 72,
                0x1FE300 \<mapsto> POOL_HEAD EfiBootServicesData 72, 0x1FE380 \<mapsto> POOL_HEAD EfiBootServicesData 72,
                0x1FC000 \<mapsto> POOL_HEAD EfiBootServicesData 424, 0x1FC200 \<mapsto> POOL_FREE 3],
     Tails := [0x1FE050 \<mapsto> 88, 0x1FE0D0 \<mapsto> 88, 0x1FE158 \<mapsto> 96, 0x1FE1F0 \<mapsto> 120, 0x1FE248 \<mapsto> 80, 0x1FE2C0 \<mapsto> 72,
               0x1FE340 \<mapsto> 72, 0x1FE3C0 \<mapsto> 72, 0x1FC1A0 \<mapsto> 424]\<rparr>"

lemma busy_map_inv: "map_inv (busy_mem z)"
  by (auto simp: map_inv_def mlist_inv_def busy_mem_def hand_mem_def wf_entry_def wf_range_def home_def iv_def)

definition busy_chunks :: "UINTN \<rightharpoonup> chunk" where
  "busy_chunks = [0x1FC000 \<mapsto> Small 3, 0x1FE000 \<mapsto> Small 0]"

lemma busy_chunks_ok: "chunks_ok busy_chunks"
  by (auto simp: busy_chunks_def chunks_ok_def chunk_ok_def chunk_size_def space_def split: if_splits)

lemma busy_slots:
  "slot busy_chunks 0x1FE000 0" "slot busy_chunks 0x1FE080 0" "slot busy_chunks 0x1FE100 0" "slot busy_chunks 0x1FE180 0"
  "slot busy_chunks 0x1FE200 0" "slot busy_chunks 0x1FE280 0" "slot busy_chunks 0x1FE300 0" "slot busy_chunks 0x1FE380 0"
  "slot busy_chunks 0x1FC000 3" "slot busy_chunks 0x1FC200 3"
proof -
  have A: "(o1, 0) \<in> set (carve 0 0) \<Longrightarrow> slot busy_chunks (0x1FE000 + of_nat o1) 0" for o1
    unfolding slot_def by (intro exI [of _ "0x1FE000"] exI [of _ 0] exI [of _ o1]) (simp add: busy_chunks_def)
  have B: "(o1, 3) \<in> set (carve 3 0) \<Longrightarrow> slot busy_chunks (0x1FC000 + of_nat o1) 3" for o1
    unfolding slot_def by (intro exI [of _ "0x1FC000"] exI [of _ 3] exI [of _ o1]) (simp add: busy_chunks_def)
  have "(0, 0) \<in> set (carve 0 0)" "(128, 0) \<in> set (carve 0 0)" "(256, 0) \<in> set (carve 0 0)" "(384, 0) \<in> set (carve 0 0)"
    "(512, 0) \<in> set (carve 0 0)" "(640, 0) \<in> set (carve 0 0)" "(768, 0) \<in> set (carve 0 0)" "(896, 0) \<in> set (carve 0 0)"
    by (simp_all add: carve.simps LIST_TO_SIZE_def)
  note A = this [THEN A, simplified]
  have "(0, 3) \<in> set (carve 3 0)" "(512, 3) \<in> set (carve 3 0)" by (simp_all add: carve.simps LIST_TO_SIZE_def)
  note B = this [THEN B, simplified]
  show "slot busy_chunks 0x1FE000 0" "slot busy_chunks 0x1FE080 0" "slot busy_chunks 0x1FE100 0" "slot busy_chunks 0x1FE180 0"
    "slot busy_chunks 0x1FE200 0" "slot busy_chunks 0x1FE280 0" "slot busy_chunks 0x1FE300 0" "slot busy_chunks 0x1FE380 0"
    "slot busy_chunks 0x1FC000 3" "slot busy_chunks 0x1FC200 3"
    by (rule A B)+
qed

lemma busy_backed: "backed busy_chunks Map.empty (region (busy_mem z))"
  unfolding backed_def
proof (intro allI impI, elim conjE)
  fix b c a assume "busy_chunks b = Some c" "a \<in> space b c"
  then have "a \<in> iv (MapEntry (busy_mem z) (OnPool 0x1FE090))"
    by (auto simp: busy_chunks_def busy_mem_def space_def chunk_size_def iv_def split: if_splits)
  moreover have "OnPool 0x1FE090 \<in> set (MemoryMap (busy_mem z))" "MType (MapEntry (busy_mem z) (OnPool 0x1FE090)) = EfiBootServicesData"
    by (simp_all add: busy_mem_def hand_mem_def)
  ultimately have "(a, EfiBootServicesData, MAttribute (MapEntry (busy_mem z) (OnPool 0x1FE090))) \<in> region (busy_mem z)"
    using entry_region [of "OnPool 0x1FE090" "busy_mem z" a] by simp
  moreover have "EfiBootServicesData \<noteq> EfiConventionalMemory" by simp
  ultimately show "Map.empty a = None \<and> (\<exists>t w. t \<noteq> EfiConventionalMemory \<and> (a, t, w) \<in> region (busy_mem z))" by blast
qed

lemma busy_pool_inv:
  "pool_inv busy_chunks (busy_blocks(0x1FE000 \<mapsto> (EfiBootServicesData, 88), 0x1FE080 \<mapsto> (EfiBootServicesData, 88))) (busy_mem z)"
proof -
  let ?K = "busy_blocks(0x1FE000 \<mapsto> (EfiBootServicesData, 88), 0x1FE080 \<mapsto> (EfiBootServicesData, 88))"
  have fl: "fl (busy_mem z) r i = (if r = Static EfiBootServicesData \<and> i = 3 then [0x1FC200] else [])" for r i
    by (auto simp: fl_def get_pool_def busy_mem_def hand_mem_def split: pool_ref.splits)
  have B: "Blocks (busy_mem z) =
      [0x1FE000 \<mapsto> POOL_HEAD EfiBootServicesData 88, 0x1FE080 \<mapsto> POOL_HEAD EfiBootServicesData 88,
      0x1FE100 \<mapsto> POOL_HEAD EfiBootServicesData 96, 0x1FE180 \<mapsto> POOL_HEAD EfiBootServicesData 120,
      0x1FE200 \<mapsto> POOL_HEAD EfiBootServicesData 80, 0x1FE280 \<mapsto> POOL_HEAD EfiBootServicesData 72,
      0x1FE300 \<mapsto> POOL_HEAD EfiBootServicesData 72, 0x1FE380 \<mapsto> POOL_HEAD EfiBootServicesData 72,
      0x1FC000 \<mapsto> POOL_HEAD EfiBootServicesData 424, 0x1FC200 \<mapsto> POOL_FREE 3]"
    and T: "Tails (busy_mem z) =
      [0x1FE050 \<mapsto> 88, 0x1FE0D0 \<mapsto> 88, 0x1FE158 \<mapsto> 96, 0x1FE1F0 \<mapsto> 120,
      0x1FE248 \<mapsto> 80, 0x1FE2C0 \<mapsto> 72, 0x1FE340 \<mapsto> 72, 0x1FE3C0 \<mapsto> 72,
      0x1FC1A0 \<mapsto> 424]"
    by (simp_all add: busy_mem_def)
  have "free_inv busy_chunks (fl (busy_mem z)) (Blocks (busy_mem z))"
    by (rule free_invI) (auto simp: fl busy_slots B split: if_splits)
  moreover have "index_inv busy_chunks (Blocks (busy_mem z))"
    using slot_unique [OF busy_chunks_ok busy_slots(10)] by (auto simp: index_inv_def B split: if_splits)
  moreover have "used_inv busy_chunks ?K (Blocks (busy_mem z)) (Tails (busy_mem z))"
    unfolding used_inv_def busy_blocks_def B T
    by (auto simp: room_def busy_slots SIZE_TO_LIST_def tail_addr_def split: if_splits)
  ultimately show ?thesis using busy_chunks_ok by (simp add: pool_inv_def pinv_def)
qed

lemma busy_mem_inv: "mem_inv busy_blocks Map.empty (vis (region (busy_mem z)), z) (busy_mem z)"
  by (rule mem_invI [OF busy_map_inv _ _ _ busy_backed _ busy_pool_inv])
     (auto simp: claims_def busy_mem_def hand_mem_def owners_def pool_entries_def pool_descs_def hdr_def busy_blocks_def map_le_def)

text \<open>The blocks of the descriptors keep the first chunk in use, whatever the database frees.\<close>

lemma busy_anchor: "0x1FE000 \<in> used_blocks busy_blocks (busy_mem z)" "0x1FC000 \<in> used_blocks busy_blocks (busy_mem z)"
  by (simp_all add: used_blocks_def pool_entries_def busy_mem_def hand_mem_def hdr_def image_iff busy_blocks_def)

lemma busy_releasable: "releasable {0x1FE110, 0x1FE190, 0x1FE210, 0x1FE290, 0x1FE310, 0x1FE390} (busy_mem z)"
proof -
  have "releasable_in busy_blocks {0x1FE110, 0x1FE190, 0x1FE210, 0x1FE290, 0x1FE310, 0x1FE390} (busy_mem z)"
    unfolding releasable_in_def
    by (intro ballI conjI bexI [of _ "0x1FE000"])
       (use busy_anchor(1) in \<open>auto simp: small_block_def busy_blocks_def hdr_def SIZE_TO_LIST_def chunk_base_def\<close>)
  with busy_mem_inv [of z] show ?thesis unfolding releasable_def by (intro exI conjI)
qed

lemma busy_at_hand: "at_hand busy_blocks EfiBootServicesData 3 (busy_mem z)"
proof -
  have "FreeList (PoolHead (busy_mem z) EfiBootServicesData) 3 = [0x1FC200]" by (simp add: busy_mem_def)
  moreover have "chunk_base 0x1FC000 = chunk_base 0x1FC200" by (simp add: chunk_base_def)
  ultimately show ?thesis unfolding at_hand_def
    by (intro exI [of _ "0x1FC200"] exI [of _ "[]"] conjI bexI [OF _ busy_anchor(2)])
qed

definition busy_state :: "hand \<Rightarrow> hand mem_scheme exec_scheme" where
  "busy_state h = idle_state 4 Map.empty (busy_mem h)"

lemma busy_state_simps [simp]:
  "TPL (busy_state h) = 4" "\<not> EfiAtRuntime (busy_state h)" "exec.more (busy_state h) = busy_mem h" "db (busy_state h) = h"
  "levels (busy_state h)" "quiet (busy_state h)"
  by (simp_all add: busy_state_def idle_state_def db_def busy_mem_def hand_mem_def levels_def sample_locks_def quiet_def)

end
