(* ===== verification/HandleOpen.thy ===== *)
theory HandleOpen
  imports HandleFree
begin

text \<open>
  Who may open an interface, and how it is closed again: the decisions of \<open>OpenProtocol\<close> against a
  description that does not walk the list, and the loop of \<open>CloseProtocol\<close>.
\<close>

section \<open>The policy\<close>

definition exclusively :: "UINTN \<times> OPEN_PROTOCOL_DATA \<Rightarrow> bool" where
  "exclusively x \<longleftrightarrow> ODAttributes (snd x) AND EFI_OPEN_PROTOCOL_EXCLUSIVE \<noteq> 0"

datatype open_effect = Refuse EFI_STATUS | Count UINTN | Record

text \<open>
  An opener by driver may not come twice, another one that is not exclusive is counted; an exclusive opener
  keeps out drivers and other exclusive openers, and a driver keeps out other drivers.
\<close>

definition open_policy :: "UINTN \<Rightarrow> UINTN \<Rightarrow> UINT32 \<Rightarrow> (UINTN \<times> OPEN_PROTOCOL_DATA) list \<Rightarrow> open_effect" where
  "open_policy Agent Controller Attributes ds =
     (let same = filter (\<lambda>x. exact_match Agent Controller Attributes (snd x)) ds
      in if same \<noteq> [] \<and> Attributes AND EFI_OPEN_PROTOCOL_BY_DRIVER \<noteq> 0 then Refuse EFI_ALREADY_STARTED
         else if same \<noteq> [] \<and> Attributes AND EFI_OPEN_PROTOCOL_EXCLUSIVE = 0 then Count (fst (hd same))
         else if Attributes AND (EFI_OPEN_PROTOCOL_BY_DRIVER OR EFI_OPEN_PROTOCOL_EXCLUSIVE) \<noteq> 0 \<and> list_ex exclusively ds
         then Refuse EFI_ACCESS_DENIED
         else if Attributes = EFI_OPEN_PROTOCOL_BY_DRIVER \<and> list_ex by_driver ds then Refuse EFI_ACCESS_DENIED
         else Record)"

lemma scan_open_policy:
  "scan_open Agent Controller R B E ds =
     (let same = filter (\<lambda>x. exact_match Agent Controller R (snd x)) ds
      in if same \<noteq> [] \<and> R AND EFI_OPEN_PROTOCOL_BY_DRIVER \<noteq> 0 then Scan_started
         else if same \<noteq> [] \<and> R AND EFI_OPEN_PROTOCOL_EXCLUSIVE = 0 then Scan_counted (fst (hd same))
         else Scan_end (B \<or> list_ex by_driver ds) (E \<or> list_ex exclusively ds))"
proof (induction ds arbitrary: B E)
  case (Cons x ds)
  obtain a D where x: "x = (a, D)" by (cases x)
  show ?case
    by (cases "exact_match Agent Controller R D")
       (auto simp: x Let_def Cons.IH by_driver_def exclusively_def exact_match_def)
qed (simp add: Let_def)

lemma check_attributes_cases:
  assumes "check_attributes s h Agent Controller R = EFI_SUCCESS"
  shows "R \<in> {0x01, 0x02, 0x04, 0x08, 0x10, 0x20, 0x30}"
  using assms by (auto simp: check_attributes_def split: if_splits)

definition open_record :: "UINTN \<Rightarrow> UINTN \<Rightarrow> UINT32 \<Rightarrow> OPEN_PROTOCOL_DATA" where
  "open_record Agent Controller R = \<lparr>ODAgentHandle = Agent, ODControllerHandle = Controller, ODAttributes = R, ODOpenCount = 1\<rparr>"

text \<open>
  C30: who may open an interface. With valid arguments, a free block in the pool and no driver that would
  have to be disconnected first, \<open>OpenProtocol\<close> returns and does what the policy says about the openers
  recorded so far: it refuses and changes nothing, it counts the same opener once more, or it records the new opener behind
  the others, and it reports the interface. Nothing else in the database changes.
\<close>

theorem open_protocol_policy:
  assumes "quiet s" and "TPL s \<le> TPL_NOTIFY" and "levels s" and "2 \<le> n" and "\<not> EfiAtRuntime s"
    and "stock (b # bs) (exec.more s)"
    and "Handles (db s) h \<noteq> None" and "h \<noteq> 0" and "GetProtocolEntry (db s) h g = Ret p" and "p \<noteq> 0" and "Prots (db s) p = Some X"
    and "check_attributes s h Agent Controller R = EFI_SUCCESS"
    and "R AND EFI_OPEN_PROTOCOL_EXCLUSIVE \<noteq> 0 \<longrightarrow> list_ex by_driver (PIOpenList X) \<longrightarrow> list_ex exclusively (PIOpenList X)"
  shows "\<exists>st s'. OpenProtocol (core_services cb n con dis) cb n h (Some g) True Agent Controller R s =
       Ret (st, if R \<noteq> EFI_OPEN_PROTOCOL_TEST_PROTOCOL then Some (PIInterface X) else None, s') \<and>
     exec_frame s s' \<and>
     (case open_policy Agent Controller R (PIOpenList X) of
        Refuse e \<Rightarrow> st = e \<and> db s' = db s
      | Count a \<Rightarrow> st = EFI_SUCCESS \<and> db s' = upd_prot p (count_open a) (db s)
      | Record \<Rightarrow> st = EFI_SUCCESS \<and>
          db s' = (if Agent = 0 then db s else upd_prot p (add_open (b + SIZE_OF_POOL_HEAD) (open_record Agent Controller R)) (db s)))"
proof -
  let ?bs = "core_services cb n con dis" and ?a = "AcquireLock ProtocolDatabaseLock s"
    and ?I = "if R \<noteq> EFI_OPEN_PROTOCOL_TEST_PROTOCOL then Some (PIInterface X) else None"
  have q: "quiet ?a" by (rule quiet_section [OF assms(1-3)])
  have R: "R \<in> {0x01, 0x02, 0x04, 0x08, 0x10, 0x20, 0x30}" by (rule check_attributes_cases [OF assms(12)])
  have v: "ValidateHandle s h = EFI_SUCCESS" using assms(7,8) by (simp add: ValidateHandle_def)
  have O: "OpenProtocol ?bs cb n h (Some g) True Agent Controller R s =
      bind_run (open_body ?bs cb n h g Agent Controller R ?a) (\<lambda>((Status, I), s1).
        bind_run (ReleaseLock cb n ProtocolDatabaseLock s1) (\<lambda>s2. Ret (Status, I, s2)))"
    using v assms(12) by (simp add: OpenProtocol_def Let_def)
  obtain s2 where s2: "BS_AllocatePool ?bs EfiBootServicesData sizeof_OPEN_PROTOCOL_DATA ?a = Ret (EFI_SUCCESS, Some (b + SIZE_OF_POOL_HEAD), s2)"
      "db s2 = db s" "in_frame ?a s2"
    using BS_AllocatePool_stock [of b bs ?a "sizeof_OPEN_PROTOCOL_DATA" n cb con dis] q assms(4-6) by auto
  define s3 where "s3 = (if Agent = 0 then ?a else upd_db (upd_prot p (add_open (b + SIZE_OF_POOL_HEAD) (open_record Agent Controller R))) s2)"
  have new: "new_open ?bs p Agent Controller R ?a = Ret (EFI_SUCCESS, s3)"
    using s2(1) assms(11) s2(2) by (simp add: new_open_def s3_def open_record_def)
  have s3: "in_frame ?a s3" "db s3 = (if Agent = 0 then db s else upd_prot p (add_open (b + SIZE_OF_POOL_HEAD) (open_record Agent Controller R)) (db s))"
    using s2(2,3) by (simp_all add: s3_def)
  have "\<exists>st s1. open_body ?bs cb n h g Agent Controller R ?a = Ret ((st, ?I), s1) \<and> in_frame ?a s1 \<and>
      (case open_policy Agent Controller R (PIOpenList X) of
        Refuse e \<Rightarrow> st = e \<and> s1 = ?a
      | Count a \<Rightarrow> st = EFI_SUCCESS \<and> s1 = upd_db (upd_prot p (count_open a)) ?a
      | Record \<Rightarrow> st = EFI_SUCCESS \<and> s1 = s3)"
  proof -
    have body: "open_body ?bs cb n h g Agent Controller R ?a =
       (case scan_open Agent Controller R False False (PIOpenList X) of
          Scan_started \<Rightarrow> Ret ((EFI_ALREADY_STARTED, ?I), ?a)
        | Scan_counted a \<Rightarrow> Ret ((EFI_SUCCESS, ?I), upd_db (upd_prot p (count_open a)) ?a)
        | Scan_end ByDriver Exclusive \<Rightarrow>
            bind_run
              (if R = EFI_OPEN_PROTOCOL_BY_DRIVER then Ret (\<not> (Exclusive \<or> ByDriver), ?a)
               else if R = EFI_OPEN_PROTOCOL_BY_DRIVER OR EFI_OPEN_PROTOCOL_EXCLUSIVE \<or> R = EFI_OPEN_PROTOCOL_EXCLUSIVE
               then if Exclusive then Ret (False, ?a) else if ByDriver then disconnect_loop ?bs cb n n h p ?a else Ret (True, ?a)
               else Ret (True, ?a)) (\<lambda>(ok, s1).
            if \<not> ok then Ret ((EFI_ACCESS_DENIED, ?I), s1)
            else bind_run (new_open ?bs p Agent Controller R s1) (\<lambda>(Status, s2). Ret ((Status, ?I), s2))))"
      unfolding open_body_def using assms(9-11) by (simp add: Let_def del: bind_run_Ret)
    show ?thesis
    proof (cases "filter (\<lambda>x. exact_match Agent Controller R (snd x)) (PIOpenList X) \<noteq> [] \<and>
        (R AND EFI_OPEN_PROTOCOL_BY_DRIVER \<noteq> 0 \<or> R AND EFI_OPEN_PROTOCOL_EXCLUSIVE = 0)")
      case True
      then show ?thesis unfolding body scan_open_policy open_policy_def Let_def by auto
    next
      case False
      then have sc: "scan_open Agent Controller R False False (PIOpenList X) =
          Scan_end (list_ex by_driver (PIOpenList X)) (list_ex exclusively (PIOpenList X))"
        unfolding scan_open_policy Let_def by auto
      show ?thesis using False R assms(13) new s3(1) unfolding body sc open_policy_def Let_def open_scan.case
        by (elim insertE emptyE) auto
    qed
  qed
  then obtain st s1 where s1: "open_body ?bs cb n h g Agent Controller R ?a = Ret ((st, ?I), s1)" "in_frame ?a s1"
      "case open_policy Agent Controller R (PIOpenList X) of
        Refuse e \<Rightarrow> st = e \<and> s1 = ?a
      | Count a \<Rightarrow> st = EFI_SUCCESS \<and> s1 = upd_db (upd_prot p (count_open a)) ?a
      | Record \<Rightarrow> st = EFI_SUCCESS \<and> s1 = s3" by blast
  note l = leave_section(1) [OF assms(1,4) s1(2), of cb] leave_section(2) [OF assms(1,4) s1(2)]
  have "OpenProtocol ?bs cb n h (Some g) True Agent Controller R s = Ret (st, ?I, left s1)" unfolding O by (simp add: s1(1) l(1))
  then show ?thesis using l(2) s1(3) s3(2) by (intro exI [of _ st] exI [of _ "left s1"]) (auto split: open_effect.splits)
qed

theorem open_protocol_policy_witness:
  "\<exists>s1 s2. InstallProtocolInterface (core_services (\<lambda>_ _ _ _. Fault) 2 (\<lambda>_ _ _ _ _. Fault) (\<lambda>_ _ _ _. Fault)) (\<lambda>_ _ _ _. Fault) 2
       (Some 0) (Some block_io) EFI_NATIVE_INTERFACE 0x5000 hand_state = Ret (EFI_SUCCESS, Some 0x1FE210, s1) \<and>
     OpenProtocol (core_services (\<lambda>_ _ _ _. Fault) 2 (\<lambda>_ _ _ _ _. Fault) (\<lambda>_ _ _ _. Fault)) (\<lambda>_ _ _ _. Fault) 2
       0x1FE210 (Some block_io) True 0x1FE210 0x1FE210 EFI_OPEN_PROTOCOL_BY_DRIVER s1 = Ret (EFI_SUCCESS, Some 0x5000, s2) \<and>
     db s2 = upd_prot 0x1FE190 (add_open 0x1FE290 (open_record 0x1FE210 0x1FE210 EFI_OPEN_PROTOCOL_BY_DRIVER)) (db s1)"
proof -
  let ?cb = "\<lambda>_ _ _ _. Fault :: hand mem_scheme exec_scheme run" and ?con = "\<lambda>_ _ _ _ _. Fault :: (EFI_STATUS \<times> hand mem_scheme exec_scheme) run"
    and ?dis = "\<lambda>_ _ _ _. Fault :: (EFI_STATUS \<times> hand mem_scheme exec_scheme) run"
  obtain s1 where s1: "InstallProtocolInterface (core_services ?cb 2 ?con ?dis) ?cb 2 (Some 0) (Some block_io) EFI_NATIVE_INTERFACE 0x5000 hand_state =
       Ret (EFI_SUCCESS, Some 0x1FE210, s1)" "db s1 = one_interface" "exec_frame hand_state s1" "stock [0x1FE280] (exec.more s1)"
    using sample_install [of ?cb ?con ?dis] by blast
  have f: "quiet s1" "TPL s1 \<le> TPL_NOTIFY" "levels s1" "\<not> EfiAtRuntime s1"
    using s1(3) exec_frame_quiet [OF s1(3)] hand_state_simps by (auto simp: exec_frame_def levels_def)
  have g: "GetProtocolEntry (db s1) 0x1FE210 block_io = Ret 0x1FE190"
    by (simp add: s1(2) GetProtocolEntry_def has_id_eq)
  have c: "check_attributes s1 0x1FE210 0x1FE210 0x1FE210 EFI_OPEN_PROTOCOL_BY_DRIVER = EFI_SUCCESS"
    by (simp add: check_attributes_def ValidateHandle_def s1(2))
  from open_protocol_policy [OF f(1-3) _ f(4) s1(4) _ _ g _ _ c, of 2 _ ?cb ?con ?dis] show ?thesis
    using s1(1) by (fastforce simp: s1(2) open_policy_def)
qed

section \<open>Closing\<close>

definition keep_opens :: "(UINTN \<times> OPEN_PROTOCOL_DATA \<Rightarrow> bool) \<Rightarrow> PROTOCOL_INTERFACE \<Rightarrow> PROTOCOL_INTERFACE" where
  "keep_opens Q X =
     X\<lparr>PIOpenList := filter (\<lambda>x. \<not> Q x) (PIOpenList X), PIOpenListCount := PIOpenListCount X - of_nat (length (filter Q (PIOpenList X)))\<rparr>"

lemma upd_prot_same: "Prots h p = Some X \<Longrightarrow> f X = X \<Longrightarrow> upd_prot p f h = h"
  by (auto simp: upd_prot_def map_upd_triv)

lemma upd_prot_twice: "upd_prot p f (upd_prot p g h) = upd_prot p (f \<circ> g) h"
  by (simp add: upd_prot_def option.map_comp o_def)

lemma find_first:
  "distinct (map fst l) \<Longrightarrow> List.find Q l = Some x \<Longrightarrow>
     filter Q l = x # filter Q (filter (\<lambda>y. fst y \<noteq> fst x) l) \<and>
     filter (\<lambda>y. \<not> Q y) (filter (\<lambda>y. fst y \<noteq> fst x) l) = filter (\<lambda>y. \<not> Q y) l"
proof (induction l)
  case (Cons a l)
  have "fst a \<notin> fst ` set l" using Cons.prems(1) by simp
  then have n: "filter (\<lambda>y. fst y \<noteq> fst a) l = l" by (intro filter_True) (auto simp: rev_image_eqI)
  show ?case
  proof (cases "Q a")
    case True
    then show ?thesis using Cons.prems n by auto
  next
    case False
    then have x: "List.find Q l = Some x" using Cons.prems(2) by simp
    then have "x \<in> set l" by (auto simp: find_Some_iff)
    then have "fst a \<noteq> fst x" using Cons.prems(1) by auto
    then show ?thesis using Cons.IH Cons.prems(1) x False by simp
  qed
qed simp

lemma remove_opens_total:
  assumes n: "2 \<le> n"
  shows "Prots (db s) p = Some X \<Longrightarrow> distinct (map fst (PIOpenList X)) \<Longrightarrow> length (filter Q (PIOpenList X)) < k \<Longrightarrow>
     quiet s \<Longrightarrow> \<not> EfiAtRuntime s \<Longrightarrow> releasable (fst ` set (filter Q (PIOpenList X))) (exec.more s) \<Longrightarrow>
     \<exists>s'. remove_opens (core_services cb n con dis) Q k p s = Ret (filter Q (PIOpenList X) \<noteq> [], s') \<and> in_frame s s' \<and>
       db s' = upd_prot p (keep_opens Q) (db s)"
proof (induction k arbitrary: s X)
  case (Suc k)
  let ?bs = "core_services cb n con dis"
  show ?case
  proof (cases "List.find Q (PIOpenList X)")
    case None
    then have "filter Q (PIOpenList X) = []" by (auto simp: find_None_iff filter_empty_conv)
    moreover from this have "keep_opens Q X = X" by (simp add: keep_opens_def filter_empty_conv)
    ultimately show ?thesis using None Suc.prems(1) upd_prot_same [of "db s" p X "keep_opens Q"] by simp
  next
    case (Some x)
    let ?s = "upd_db (upd_prot p (drop_open (fst x))) s" and ?L = "fst ` set (filter Q (PIOpenList X))"
    note f = find_first [OF Suc.prems(2) Some]
    have x: "fst x \<in> ?L" using f by simp
    have qs: "quiet ?s" "\<not> EfiAtRuntime ?s" "releasable ?L (exec.more ?s)" using Suc.prems(4-6) by simp_all
    obtain s1 where s1: "BS_FreePool ?bs (fst x) ?s = Ret (EFI_SUCCESS, s1)" "db s1 = db ?s" "in_frame ?s s1"
        "releasable (?L - {fst x}) (exec.more s1)"
      using BS_FreePool_releasable [OF qs(1) n qs(2,3) x, of cb con dis] by blast
    have X1: "Prots (db s1) p = Some (drop_open (fst x) X)" using s1(2) Suc.prems(1) by (simp add: upd_prot_def)
    have d: "distinct (map fst (PIOpenList (drop_open (fst x) X)))"
      using Suc.prems(2) by (simp add: drop_open_def distinct_map_filter)
    have l: "length (filter Q (PIOpenList (drop_open (fst x) X))) < k" using Suc.prems(3) f by (simp add: drop_open_def)
    have q1: "quiet s1" "\<not> EfiAtRuntime s1" using in_frame_quiet [OF s1(3)] in_frame_runtime [OF s1(3)] qs by simp_all
    have "fst ` set (filter Q (PIOpenList (drop_open (fst x) X))) \<subseteq> ?L - {fst x}" by (auto simp: drop_open_def)
    then have r1: "releasable (fst ` set (filter Q (PIOpenList (drop_open (fst x) X)))) (exec.more s1)"
      by (rule releasable_mono [OF s1(4)])
    obtain s2 r where s2: "remove_opens ?bs Q k p s1 = Ret (r, s2)" "in_frame s1 s2" "db s2 = upd_prot p (keep_opens Q) (db s1)"
      using Suc.IH [OF X1 d l q1 r1] by blast
    have "keep_opens Q (drop_open (fst x) X) = keep_opens Q X" using f by (simp add: keep_opens_def drop_open_def)
    then have "db s2 = upd_prot p (keep_opens Q) (db s)"
      using s2(3) s1(2) Suc.prems(1) by (simp add: upd_prot_twice) (simp add: upd_prot_def)
    moreover have "in_frame s s2" using in_frame_trans [OF s1(3) s2(2)] by (simp add: in_frame_def exec_frame_def upd_db_def)
    moreover have "remove_opens ?bs Q (Suc k) p s = Ret (True, s2)"
      using Some Suc.prems(1) s1(1) s2(1) by (cases x) (simp add: FreePool_def)
    ultimately show ?thesis using f by auto
  qed
qed simp

text \<open>
  C31: \<open>CloseProtocol\<close> comes to an end. On the pool of \<open>mem/pool.c\<close>, with valid handles, no notification due and more fuel than
  there are records of the agent and controller, it returns; it has removed exactly these records, whatever their
  number and place, kept the others in order and the count in step, and reports whether there were any. The records it
  frees must be releasable: small blocks whose chunks have another block in use (freeing the last block of a chunk changes the map of
  memory, which can fail for want of descriptors).
\<close>

theorem close_protocol_terminates:
  assumes "quiet s" and "TPL s \<le> TPL_NOTIFY" and "levels s" and "2 \<le> n" and "\<not> EfiAtRuntime s" and "hand_inv (db s)"
    and "Handles (db s) h \<noteq> None" and "Handles (db s) Agent \<noteq> None" and "Controller = 0 \<or> Handles (db s) Controller \<noteq> None"
    and "GetProtocolEntry (db s) h g = Ret p" and "p \<noteq> 0" and "Prots (db s) p = Some X"
    and "length (filter (opened_by Agent Controller) (PIOpenList X)) < n"
    and "releasable (fst ` set (filter (opened_by Agent Controller) (PIOpenList X))) (exec.more s)"
  shows "\<exists>s'. CloseProtocol (core_services cb n con dis) cb n h (Some g) Agent Controller s =
       Ret (if \<exists>x\<in>set (PIOpenList X). opened_by Agent Controller x then EFI_SUCCESS else EFI_NOT_FOUND, s') \<and>
     exec_frame s s' \<and> db s' = upd_prot p (keep_opens (opened_by Agent Controller)) (db s)"
proof -
  let ?a = "AcquireLock ProtocolDatabaseLock s" and ?bs = "core_services cb n con dis" and ?Q = "opened_by Agent Controller"
  have nz: "Handles (db s) 0 = None" using handles_okD(3) [OF hand_invD(1) [OF assms(6)], of 0] by (cases "Handles (db s) 0") auto
  have v: "ValidateHandle s a = EFI_SUCCESS" if "Handles (db s) a \<noteq> None" for a
    using that nz by (auto simp: ValidateHandle_def)
  have d: "distinct (map fst (PIOpenList X))" using hand_invD [OF assms(6)] assms(12) by (simp add: opens_ok_def record_ok_def)
  have a: "quiet ?a" "\<not> EfiAtRuntime ?a" "Prots (db ?a) p = Some X" "releasable (fst ` set (filter ?Q (PIOpenList X))) (exec.more ?a)"
    using quiet_section [OF assms(1-3)] assms(5,12,14) by simp_all
  obtain s1 where s1: "remove_opens ?bs ?Q n p ?a = Ret (filter ?Q (PIOpenList X) \<noteq> [], s1)"
      "in_frame ?a s1" "db s1 = upd_prot p (keep_opens ?Q) (db s)"
    using remove_opens_total [OF assms(4) a(3) d assms(13) a(1,2,4), of cb con dis] by auto
  note l = leave_section(1) [OF assms(1,4) s1(2), of cb] leave_section(2) [OF assms(1,4) s1(2)]
  have "CloseProtocol ?bs cb n h (Some g) Agent Controller s =
      Ret (if filter ?Q (PIOpenList X) \<noteq> [] then EFI_SUCCESS else EFI_NOT_FOUND, left s1)"
    using assms(7-11) v s1(1) l(1) by (auto simp: CloseProtocol_def Let_def)
  then show ?thesis using s1(3) l(2) by (auto simp: filter_empty_conv)
qed

text \<open>An interface that its handle has open twice, as a driver and for its own use, and that is looked up once more.\<close>

definition thrice :: PROTOCOL_INTERFACE where
  "thrice = \<lparr>PIHandle = 0x1FE210, PIProtocol = 0x1FE110, PIInterface = 0x5000,
     PIOpenList = [(0x1FE290, open_record 0x1FE210 0x1FE210 EFI_OPEN_PROTOCOL_BY_DRIVER),
                   (0x1FE310, open_record 0x1FE210 0 EFI_OPEN_PROTOCOL_GET_PROTOCOL),
                   (0x1FE390, open_record 0x1FE210 0x1FE210 EFI_OPEN_PROTOCOL_GET_PROTOCOL)], PIOpenListCount = 3\<rparr>"

definition opened_thrice :: hand where
  "opened_thrice = one_interface\<lparr>Prots := [0x1FE190 \<mapsto> thrice]\<rparr>"

lemma opened_thrice_inv: "hand_inv opened_thrice"
  by (simp add: hand_inv_def handles_ok_def entries_ok_def notifies_ok_def opens_ok_def record_ok_def addrs_apart_def open_addrs_def
      opened_thrice_def thrice_def by_driver_def open_record_def)

theorem close_protocol_terminates_witness:
  "\<exists>s' X. CloseProtocol (core_services (\<lambda>_ _ _ _. Fault) 3 (\<lambda>_ _ _ _ _. Fault) (\<lambda>_ _ _ _. Fault)) (\<lambda>_ _ _ _. Fault) 3
        0x1FE210 (Some block_io) 0x1FE210 0x1FE210 (busy_state opened_thrice) = Ret (EFI_SUCCESS, s') \<and>
     Prots (db s') 0x1FE190 = Some X \<and> map fst (PIOpenList X) = [0x1FE310] \<and> PIOpenListCount X = 1"
proof -
  let ?s = "busy_state opened_thrice"
  have g: "GetProtocolEntry (db ?s) 0x1FE210 block_io = Ret 0x1FE190"
    by (simp add: GetProtocolEntry_def has_id_eq opened_thrice_def thrice_def)
  have P: "Prots (db ?s) 0x1FE190 = Some thrice" "Handles (db ?s) 0x1FE210 \<noteq> None" by (simp_all add: opened_thrice_def)
  have l: "length (filter (opened_by 0x1FE210 0x1FE210) (PIOpenList thrice)) < 3" by (simp add: thrice_def opened_by_def open_record_def)
  have e: "fst ` set (filter (opened_by 0x1FE210 0x1FE210) (PIOpenList thrice)) = {0x1FE290, 0x1FE390}"
    by (simp add: thrice_def opened_by_def open_record_def)
  have r: "releasable (fst ` set (filter (opened_by 0x1FE210 0x1FE210) (PIOpenList thrice))) (exec.more ?s)"
    unfolding e busy_state_simps by (rule releasable_mono [OF busy_releasable]) simp
  obtain s' where s': "CloseProtocol (core_services (\<lambda>_ _ _ _. Fault) 3 (\<lambda>_ _ _ _ _. Fault) (\<lambda>_ _ _ _. Fault)) (\<lambda>_ _ _ _. Fault) 3
        0x1FE210 (Some block_io) 0x1FE210 0x1FE210 ?s =
       Ret (if \<exists>x\<in>set (PIOpenList thrice). opened_by 0x1FE210 0x1FE210 x then EFI_SUCCESS else EFI_NOT_FOUND, s')"
      "db s' = upd_prot 0x1FE190 (keep_opens (opened_by 0x1FE210 0x1FE210)) (db ?s)"
    using close_protocol_terminates [OF _ _ _ _ _ _ P(2) P(2) _ g _ P(1) l r, of "\<lambda>_ _ _ _. Fault"] opened_thrice_inv P(2) by auto
  have "\<exists>x\<in>set (PIOpenList thrice). opened_by 0x1FE210 0x1FE210 x" by (simp add: thrice_def opened_by_def open_record_def)
  moreover have "Prots (db s') 0x1FE190 = Some (keep_opens (opened_by 0x1FE210 0x1FE210) thrice)" using s'(2) P(1) by (simp add: upd_prot_def)
  ultimately show ?thesis using s'(1)
    by (auto simp: keep_opens_def thrice_def opened_by_def open_record_def)
qed

end
