(* ===== verification/HandleProps.thy ===== *)
theory HandleProps
  imports HandleSample
begin

text \<open>
  The properties of the handle database.
\<close>

section \<open>Every history\<close>

text \<open>A call of a service, whatever its arguments and its result.\<close>

inductive handle_step ::
  "'z handst EFI_BOOT_SERVICES \<Rightarrow> 'z hand_scheme mem_scheme notify_fn \<Rightarrow> nat \<Rightarrow> 'z handst \<Rightarrow> 'z handst \<Rightarrow> bool"
  for bs cb n
where
  install: "InstallProtocolInterface bs cb n uh g t i s = Ret (st, u, s') \<Longrightarrow> handle_step bs cb n s s'"
| reinstall: "ReinstallProtocolInterface bs cb n h g i j s = Ret (st, s') \<Longrightarrow> handle_step bs cb n s s'"
| uninstall: "UninstallProtocolInterface bs cb n h g i s = Ret (st, s') \<Longrightarrow> handle_step bs cb n s s'"
| handle: "HandleProtocol bs cb n h g b s = Ret (st, i, s') \<Longrightarrow> handle_step bs cb n s s'"
| opens: "OpenProtocol bs cb n h g b Agent Controller Attributes s = Ret (st, i, s') \<Longrightarrow> handle_step bs cb n s s'"
| close: "CloseProtocol bs cb n h g Agent Controller s = Ret (st, s') \<Longrightarrow> handle_step bs cb n s s'"
| information: "OpenProtocolInformation bs cb n h gd s = Ret (st, buf, s') \<Longrightarrow> handle_step bs cb n s s'"
| protocols: "ProtocolsPerHandle bs h b c s = Ret (st, buf, s') \<Longrightarrow> handle_step bs cb n s s'"
| locate_handle: "LocateHandle cb n t g k Size b s = Ret (r, s') \<Longrightarrow> handle_step bs cb n s s'"
| locate_protocol: "LocateProtocol cb n gd k b s = Ret (q, s') \<Longrightarrow> handle_step bs cb n s s'"
| locate_buffer: "LocateHandleBuffer bs cb n t g k b c s = Ret (w, s') \<Longrightarrow> handle_step bs cb n s s'"
| register: "RegisterProtocolNotify bs cb n gd e s = Ret (st, reg, s') \<Longrightarrow> handle_step bs cb n s s'"
| unregister: "UnregisterProtocolNotify bs cb n e s = Ret (st, s') \<Longrightarrow> handle_step bs cb n s s'"
| connect: "CoreConnectHandlesByKey bs cb n Key s = Ret s' \<Longrightarrow> handle_step bs cb n s s'"

lemma handle_step_outside:
  assumes "handle_step (core_services cb n con dis) cb n s s'" and "outside cb con dis F s"
  shows "outside cb con dis F s'"
  using assms(1)
proof cases
  case (install uh g t i st u)
  show ?thesis using ret_okD [OF hdb.InstallProtocolInterface_ok [OF assms(2)] install] by simp
next
  case (reinstall h g i j st)
  show ?thesis using ret_okD [OF hdb.ReinstallProtocolInterface_ok [OF assms(2)] reinstall] by simp
next
  case (uninstall h g i st)
  show ?thesis using ret_okD [OF hdb.UninstallProtocolInterface_ok [OF assms(2)] uninstall] by simp
next
  case (handle h g b st i)
  show ?thesis by (rule hdb.HandleProtocol_ok [OF assms(2) handle])
next
  case (opens h g b Agent Controller Attributes st i)
  show ?thesis by (rule hdb.OpenProtocol_ok [OF assms(2) opens])
next
  case (close h g Agent Controller st)
  show ?thesis by (rule hdb.CloseProtocol_ok [OF assms(2) close])
next
  case (information h gd st buf)
  show ?thesis using ret_okD [OF hdb.OpenProtocolInformation_ok [OF assms(2)] information] by simp
next
  case (protocols h b c st buf)
  show ?thesis using ret_okD [OF hdb.ProtocolsPerHandle_ok [OF assms(2)] protocols] by simp
next
  case (locate_handle t g k Size b r)
  show ?thesis using ret_okD [OF hdb.LocateHandle_ok [OF assms(2)] locate_handle] by simp
next
  case (locate_protocol gd k b q)
  show ?thesis using ret_okD [OF hdb.LocateProtocol_ok [OF assms(2)] locate_protocol] by simp
next
  case (locate_buffer t g k b c w)
  show ?thesis using ret_okD [OF hdb.LocateHandleBuffer_ok [OF assms(2)] locate_buffer] by simp
next
  case (register gd e st reg)
  show ?thesis using ret_okD [OF hdb.RegisterProtocolNotify_ok [OF assms(2)] register] by simp
next
  case (unregister e st)
  show ?thesis using ret_okD [OF hdb.UnregisterProtocolNotify_ok [OF assms(2)] unregister] by simp
next
  case (connect Key)
  show ?thesis using ret_okD [OF hdb.CoreConnectHandlesByKey_ok [OF assms(2)] connect] by simp
qed

lemma handle_steps_outside:
  "(handle_step (core_services cb n con dis) cb n)\<^sup>*\<^sup>* s s' \<Longrightarrow> outside cb con dis F s \<Longrightarrow> outside cb con dis F s'"
  by (induction rule: rtranclp_induct) (auto intro: handle_step_outside)

lemma initial_outside:
  assumes "cb_keeps upper_ok cb" and "drivers_keep con dis" and "LockTpl (Locks s MemoryLock) = TPL_NOTIFY"
    and "mem_inv K D V (exec.more s)" and "Entries (db s) = Map.empty" "Handles (db s) = Map.empty" "Prots (db s) = Map.empty"
    "Notifies (db s) = Map.empty"
  shows "outside cb con dis {} (InitializeHandle s)"
proof -
  let ?s = "InitializeHandle s"
  have e: "exec.more ?s = (exec.more s)\<lparr>mem.more := (db s)\<lparr>ProtocolDatabase := [], HandleList := []\<rparr>\<rparr>"
    by (simp add: InitializeHandle_def InitializeLock_def upd_db_def)
  then have d: "db ?s = (db s)\<lparr>ProtocolDatabase := [], HandleList := []\<rparr>" by (simp add: db_def)
  have "hand_inv (db ?s)" "live (db ?s) = {}"
    using assms(5-8) unfolding d by (auto simp: hand_inv_def handles_ok_def entries_ok_def notifies_ok_def opens_ok_def addrs_apart_def open_addrs_def live_def)
  moreover have "heap {} (exec.more ?s)" unfolding e by (rule heapI [OF mem_inv_more [OF assms(4)]]) simp
  moreover have "levels ?s" using assms(3) by (simp add: levels_def InitializeHandle_def InitializeLock_def upd_db_def)
  ultimately show ?thesis using assms(1,2) by (simp add: outside_def upper_ok_def db_def)
qed

text \<open>
  C29: the handle database over every history. It starts empty; the services are called in any order with any
  arguments, on the memory services of this core, with notification functions and drivers that keep to their
  contract, under any fuel. In every state that is reached the database is consistent: the handle list has
  exactly the valid handles, every handle has an interface list without repetition that holds exactly the
  interfaces installed on it, every protocol entry lists exactly the interfaces of its protocol and no two
  entries have the same identifier, the records are at pairwise different addresses, all of which the pool has
  allocated, and no interface is open by more than one driver.
\<close>

theorem handle_database_consistent:
  assumes "cb_keeps upper_ok cb" and "drivers_keep con dis" and "LockTpl (Locks s MemoryLock) = TPL_NOTIFY"
    and "mem_inv K D V (exec.more s)" and "Entries (db s) = Map.empty" "Handles (db s) = Map.empty" "Prots (db s) = Map.empty"
    "Notifies (db s) = Map.empty"
    and "(handle_step (core_services cb n con dis) cb n)\<^sup>*\<^sup>* (InitializeHandle s) s'"
  shows "hand_inv (db s') \<and> (\<exists>K D V. mem_inv K D V (exec.more s') \<and> (\<forall>b\<in>live (db s'). K (hdr b) \<noteq> None)) \<and>
     (\<forall>p Z. Prots (db s') p = Some Z \<longrightarrow> length (filter by_driver (PIOpenList Z)) \<le> 1)"
proof -
  have o: "outside cb con dis {} s'" by (rule handle_steps_outside [OF assms(9) initial_outside [OF assms(1-8)]])
  then have i: "hand_inv (db s')" and h: "heap (live (db s')) (exec.more s')" by (simp_all add: outside_def upper_ok_def db_def)
  show ?thesis using i h hand_invD [OF i] by (auto simp: heap_def opens_ok_def record_ok_def)
qed

theorem handle_database_consistent_witness:
  "\<exists>s'. (handle_step (core_services (\<lambda>_ _ _ _. Fault) 2 (\<lambda>_ _ _ _ _. Fault) (\<lambda>_ _ _ _. Fault)) (\<lambda>_ _ _ _. Fault) 2)\<^sup>*\<^sup>* hand_state s' \<and>
     HandleList (db s') = [0x1FE210] \<and> hand_inv (db s')"
proof -
  let ?cb = "\<lambda>_ _ _ _. Fault :: hand mem_scheme exec_scheme run" and ?con = "\<lambda>_ _ _ _ _. Fault :: (EFI_STATUS \<times> hand mem_scheme exec_scheme) run"
    and ?dis = "\<lambda>_ _ _ _. Fault :: (EFI_STATUS \<times> hand mem_scheme exec_scheme) run"
  let ?s = "idle_state 4 Map.empty (hand_mem empty_hand) :: hand mem_scheme exec_scheme"
  obtain s' where s': "InstallProtocolInterface (core_services ?cb 2 ?con ?dis) ?cb 2 (Some 0) (Some block_io) EFI_NATIVE_INTERFACE 0x5000 hand_state =
       Ret (EFI_SUCCESS, Some 0x1FE210, s')" "db s' = one_interface" using sample_install [of ?cb ?con ?dis] by blast
  have st: "(handle_step (core_services ?cb 2 ?con ?dis) ?cb 2)\<^sup>*\<^sup>* hand_state s'"
    by (rule r_into_rtranclp) (rule handle_step.install [OF s'(1)])
  have db0: "db ?s = empty_hand" by (simp add: db_def idle_state_def hand_mem_def)
  have m: "mem_inv Map.empty Map.empty (vis (region (hand_mem empty_hand)), empty_hand) (exec.more ?s)"
    using hand_mem_inv [of empty_hand] by (simp add: idle_state_def)
  have e: "Entries (db ?s) = Map.empty" "Handles (db ?s) = Map.empty" "Prots (db ?s) = Map.empty" "Notifies (db ?s) = Map.empty"
    unfolding db0 by (simp_all add: empty_hand_def)
  have "cb_keeps upper_ok ?cb" "drivers_keep ?con ?dis" "LockTpl (Locks ?s MemoryLock) = TPL_NOTIFY"
    by (simp_all add: cb_keeps_def drivers_keep_def idle_state_def sample_locks_def)
  then have "hand_inv (db s')"
    using handle_database_consistent [OF _ _ _ m e, of ?cb ?con ?dis 2 s'] st unfolding hand_state_def by blast
  then show ?thesis using st s'(2) by auto
qed

end
