(* ===== verification/ProtocolServices.thy ===== *)
theory ProtocolServices
  imports HandleOpen HandleProps
begin

text \<open>
  The services of the handle database for a caller: what they do to the map from handles to protocols when
  no notification is due.
\<close>

section \<open>Looking up\<close>

lemma scan_prots_total:
  "(\<And>p. p \<in> set ps \<Longrightarrow> P p \<noteq> None) \<Longrightarrow> 0 \<notin> set ps \<Longrightarrow>
     \<exists>p. scan_prots Q P ps = Ret p \<and> (if \<exists>q\<in>set ps. \<exists>X. P q = Some X \<and> Q X then p \<in> set ps \<and> (\<exists>X. P p = Some X \<and> Q X) else p = 0)"
proof (induction ps)
  case (Cons q ps)
  obtain X where X: "P q = Some X" using Cons.prems(1) [of q] by auto
  show ?case
  proof (cases "Q X")
    case False
    have "\<And>p. p \<in> set ps \<Longrightarrow> P p \<noteq> None" "0 \<notin> set ps" using Cons.prems by auto
    then obtain p where p: "scan_prots Q P ps = Ret p"
        "if \<exists>q\<in>set ps. \<exists>X. P q = Some X \<and> Q X then p \<in> set ps \<and> (\<exists>X. P p = Some X \<and> Q X) else p = 0" using Cons.IH by blast
    then show ?thesis using False X by (intro exI [of _ p]) auto
  qed (use X in auto)
qed simp

lemma protocols_live:
  assumes "hand_inv h" and "Handles h a = Some H"
  shows "p \<in> set (IHProtocols H) \<Longrightarrow> Prots h p \<noteq> None" "0 \<notin> set (IHProtocols H)"
proof -
  show "Prots h p \<noteq> None" if "p \<in> set (IHProtocols H)" for p
    using handles_okD(5) [OF hand_invD(1) [OF assms(1)] assms(2), of p] that by auto
  show "0 \<notin> set (IHProtocols H)"
    using handles_okD(5) [OF hand_invD(1) [OF assms(1)] assms(2), of 0] opens_okD(1) [OF hand_invD(4) [OF assms(1)], of 0]
    by (auto simp: record_ok_def)
qed

lemma GetProtocolEntry_total:
  assumes inv: "hand_inv h" and H: "Handles h a = Some H"
  shows "\<exists>p. GetProtocolEntry h a g = Ret p \<and> (if \<exists>q X. offers h a g q X then \<exists>X. offers h a g p X \<and> p \<noteq> 0 else p = 0)"
proof -
  let ?Q = "\<lambda>X. has_id h g (PIProtocol X)"
  note ps = handles_okD(5) [OF hand_invD(1) [OF inv] H]
  have a: "a \<noteq> 0" by (rule handles_okD(3) [OF hand_invD(1) [OF inv] H])
  have o: "offers h a g q X \<longleftrightarrow> q \<in> set (IHProtocols H) \<and> Prots h q = Some X \<and> ?Q X" for q X
    using ps [of q] by (auto simp: offers_def has_id_eq)
  obtain p where p: "scan_prots ?Q (Prots h) (IHProtocols H) = Ret p"
      "if \<exists>q\<in>set (IHProtocols H). \<exists>X. Prots h q = Some X \<and> ?Q X then p \<in> set (IHProtocols H) \<and> (\<exists>X. Prots h p = Some X \<and> ?Q X) else p = 0"
    using scan_prots_total [of "IHProtocols H" "Prots h" ?Q] protocols_live [OF inv H] by blast
  have "p \<noteq> 0" if "offers h a g p X" for X using that protocols_live(2) [OF inv H] unfolding o by auto
  then show ?thesis using p a H unfolding o GetProtocolEntry_def by (auto split: if_splits)
qed

lemma ValidateHandle_ok:
  "hand_inv (db s) \<Longrightarrow> ValidateHandle s a = (if Handles (db s) a = None then EFI_INVALID_PARAMETER else EFI_SUCCESS)"
  using handles_okD(3) [OF hand_invD(1), of "db s" a] by (cases "Handles (db s) a") (auto simp: ValidateHandle_def)

lemma represents_prot:
  assumes "represents h M" and "\<And>X. PIHandle (f X) = PIHandle X \<and> PIProtocol (f X) = PIProtocol X \<and> PIInterface (f X) = PIInterface X"
  shows "represents (upd_prot p f h) M"
  by (rule represents_cong [OF _ _ _ assms(1)]) (use assms(2) in \<open>auto simp: option.map_comp o_def\<close>)

lemma upd_db_id: "upd_db (\<lambda>h. h) s = s"
  by (cases s) (simp add: upd_db_def db_def)

text \<open>The lookup opens the interface for nobody, which leaves at most a count behind.\<close>

lemma HandleProtocol_quiet:
  assumes q: "quiet s" and n: "2 \<le> n" and inv: "hand_inv (db s)" and rep: "represents (db s) M"
  shows "\<exists>st i s'. HandleProtocol bs cb n a (Some g) True s = Ret (st, i, s') \<and> exec_frame s s' \<and> represents (db s') M \<and> hand_inv (db s') \<and>
     (unwatched (db s) \<longrightarrow> unwatched (db s')) \<and> (\<forall>l. stock l (exec.more s') = stock l (exec.more s)) \<and>
     same_pool (exec.more s) (exec.more s') \<and>
     (case M a of None \<Rightarrow> st = EFI_INVALID_PARAMETER \<and> i = None
      | Some m \<Rightarrow> (case m g of None \<Rightarrow> st = EFI_UNSUPPORTED \<and> i = None | Some j \<Rightarrow> st = EFI_SUCCESS \<and> i = Some j))"
proof (cases "M a")
  case None
  then show ?thesis using ValidateHandle_ok [OF inv, of a] representsD(1) [OF rep, of a] rep inv
    by (simp add: HandleProtocol_def OpenProtocol_def exec_frame_def)
next
  case (Some m)
  let ?s = "AcquireLock ProtocolDatabaseLock s"
  obtain H where H: "Handles (db s) a = Some H" using Some representsD(1) [OF rep, of a] by auto
  have v: "ValidateHandle s a = EFI_SUCCESS" using ValidateHandle_ok [OF inv, of a] H by simp
  obtain p where p: "GetProtocolEntry (db s) a g = Ret p"
      "if \<exists>q X. offers (db s) a g q X then \<exists>X. offers (db s) a g p X \<and> p \<noteq> 0 else p = 0"
    using GetProtocolEntry_total [OF inv H] by blast
  have O: "HandleProtocol bs cb n a (Some g) True s =
      bind_run (open_body bs cb n a g 0 0 EFI_OPEN_PROTOCOL_BY_HANDLE_PROTOCOL ?s) (\<lambda>((Status, I), s1).
        bind_run (ReleaseLock cb n ProtocolDatabaseLock s1) (\<lambda>s2. Ret (Status, I, s2)))"
    by (simp add: HandleProtocol_def OpenProtocol_def v check_attributes_def)
  show ?thesis
  proof (cases "m g")
    case None
    then have "p = 0" using p(2) representsD(2) [OF rep Some, where g = g] by (auto split: if_splits)
    then have "open_body bs cb n a g 0 0 EFI_OPEN_PROTOCOL_BY_HANDLE_PROTOCOL ?s = Ret ((EFI_UNSUPPORTED, None), ?s)"
      using p(1) by (simp add: open_body_def)
    then show ?thesis using leave_section(1) [OF q n in_frame_refl, of cb] leave_section(2,3) [OF q n in_frame_refl] None Some rep inv unfolding O by simp
  next
    case j: (Some j)
    then have "\<exists>q X. offers (db s) a g q X" using representsD(2) [OF rep Some, of g j] by blast
    then obtain X where X: "offers (db s) a g p X" "p \<noteq> 0" using p(2) by (auto split: if_splits)
    have PX: "Prots (db s) p = Some X" "PIInterface X = j"
      using X(1) representsD(2) [OF rep Some, of g "PIInterface X"] j by (auto simp: offers_def)
    have ns: "scan_open 0 0 EFI_OPEN_PROTOCOL_BY_HANDLE_PROTOCOL B E ds \<noteq> Scan_started" for B E ds
      by (induction "0 :: UINTN" "0 :: UINTN" "EFI_OPEN_PROTOCOL_BY_HANDLE_PROTOCOL" B E ds rule: scan_open.induct)
         (auto simp: Let_def exact_match_def)
    have "\<exists>f. open_body bs cb n a g 0 0 EFI_OPEN_PROTOCOL_BY_HANDLE_PROTOCOL ?s = Ret ((EFI_SUCCESS, Some j), upd_db f ?s) \<and>
        (f = (\<lambda>h. h) \<or> (\<exists>b. f = upd_prot p (count_open b)))"
    proof (cases "scan_open 0 0 EFI_OPEN_PROTOCOL_BY_HANDLE_PROTOCOL False False (PIOpenList X)")
      case (Scan_end B E)
      then show ?thesis using p(1) X(2) PX
        by (intro exI [of _ "\<lambda>h. h"]) (simp add: open_body_def new_open_def upd_db_id)
    next
      case (Scan_counted b)
      then show ?thesis using p(1) X(2) PX by (auto simp: open_body_def)
    qed (use ns in simp)
    then obtain f where f: "open_body bs cb n a g 0 0 EFI_OPEN_PROTOCOL_BY_HANDLE_PROTOCOL ?s = Ret ((EFI_SUCCESS, Some j), upd_db f ?s)"
        "f = (\<lambda>h. h) \<or> (\<exists>b. f = upd_prot p (count_open b))" by blast
    have "represents (f (db s)) M" "unwatched (db s) \<longrightarrow> unwatched (f (db s))" "hand_inv (f (db s))"
      using f(2) inv count_open_inv(1) [OF inv PX(1)] rep represents_prot [OF rep, of "count_open _"] by (auto simp: count_open_def unwatched_def)
    then show ?thesis using leave_section(1) [OF q n, of "upd_db f ?s" cb] leave_section(2,3) [OF q n, of "upd_db f ?s"] j Some f(1) unfolding O by simp
  qed
qed

section \<open>Installing\<close>

text \<open>With free blocks in the pool an installation on a valid handle goes through.\<close>

lemma section_stock:
  assumes "section_ok cb con dis F s0 M s" and "quiet (AcquireLock ProtocolDatabaseLock s0)" and "\<not> EfiAtRuntime s0"
  shows "quiet s" "\<not> EfiAtRuntime s"
  using section_quiet [OF assms(1,2)] in_frame_runtime [OF section_okD(2) [OF assms(1)]] assms(3) by simp_all

lemma FindProtocolEntry_stock:
  assumes "stock (x # hs) (exec.more s)" and "quiet s" and "2 \<le> n" and "\<not> EfiAtRuntime s" and "0 \<notin> set (ProtocolDatabase (db s))"
  shows "\<exists>e s'. FindProtocolEntry (core_services cb n con dis) g True s = Ret (e, s') \<and> e \<noteq> 0 \<and> in_frame s s' \<and>
     (stock hs (exec.more s') \<or> stock (x # hs) (exec.more s'))"
proof (cases "List.find (has_id (db s) g) (ProtocolDatabase (db s))")
  case None
  obtain s' where "AllocatePool (core_services cb n con dis) sizeof_PROTOCOL_ENTRY s = Ret (x + SIZE_OF_POOL_HEAD, s')"
      "stock hs (exec.more s')" "in_frame s s'"
    by (rule AllocatePool_stock [OF assms(1) _ assms(2-4), of "sizeof_PROTOCOL_ENTRY" cb con dis]) simp_all
  moreover have "x + SIZE_OF_POOL_HEAD \<noteq> 0" using assms(1) by (simp add: stock_def)
  ultimately show ?thesis using None by (simp add: FindProtocolEntry_def)
next
  case (Some e)
  then have "e \<in> set (ProtocolDatabase (db s))" by (auto simp: find_Some_iff)
  then show ?thesis using Some assms(1,5) by (auto simp: FindProtocolEntry_def)
qed

lemma stock_drop: "stock (x # hs) m \<Longrightarrow> stock hs m \<or> stock (x # hs) m"
  by simp

lemma install_body_stock:
  assumes sec: "section_ok cb con dis F s0 M s" and q: "quiet (AcquireLock ProtocolDatabaseLock s0)" and n: "2 \<le> n" and rt: "\<not> EfiAtRuntime s0"
    and st: "stock (x # y # z # hs) (exec.more s)" and uh: "uh = 0 \<or> M uh \<noteq> None"
  shows "\<exists>p a s'. install_body (core_services cb n con dis) cb n Status0 uh g i s = Ret ((EFI_SUCCESS, p, a), s')"
proof -
  let ?bs = "core_services cb n con dis"
  note D = section_okD [OF sec] and S = section_stock [OF sec q rt]
  have "0 \<notin> set (ProtocolDatabase (db s))" using entries_okD(2,3) [OF hand_invD(2) [OF D(5)]] by (metis domIff option.collapse)
  then obtain e s1 where e: "FindProtocolEntry ?bs g True s = Ret (e, s1)" "e \<noteq> 0"
      "stock (y # z # hs) (exec.more s1) \<or> stock (x # y # z # hs) (exec.more s1)"
    using FindProtocolEntry_stock [OF st S(1) n S(2), of cb con dis g] by blast
  have sec1: "section_ok cb con dis F s0 M s1" and E: "\<exists>E. Entries (db s1) e = Some E \<and> PEProtocolID E = g"
    using FindProtocolEntry_section [OF sec q n e(1)] e(2) by blast+
  obtain y' hs' where st1: "stock (y' # hs') (exec.more s1)" "\<exists>z' l. hs' = z' # l" using e(3) by blast
  note S1 = section_stock [OF sec1 q rt]
  obtain s2 where s2: "AllocatePool ?bs sizeof_PROTOCOL_INTERFACE s1 = Ret (y' + SIZE_OF_POOL_HEAD, s2)" "stock hs' (exec.more s2)"
      "db s2 = db s1" "in_frame s1 s2"
    by (rule AllocatePool_stock [OF st1(1) _ S1(1) n S1(2), of "sizeof_PROTOCOL_INTERFACE" cb con dis]) simp_all
  have p: "y' + SIZE_OF_POOL_HEAD \<noteq> 0" using st1(1) by (simp add: stock_def)
  have sec2: "section_ok cb con dis (insert (y' + SIZE_OF_POOL_HEAD) F) s0 M s2"
    using AllocatePool_section(3) [OF sec1 q n s2(1)] p by blast
  note S2 = section_stock [OF sec2 q rt]
  obtain z' l where st2: "stock (z' # l) (exec.more s2)" using st1(2) s2(2) by blast
  have "\<exists>a s3. install_handle ?bs uh s2 = Ret (a, s3) \<and> a \<noteq> 0 \<and> Handles (db s3) a \<noteq> None"
  proof (cases "uh = 0")
    case True
    obtain s3 where "AllocatePool ?bs sizeof_IHANDLE s2 = Ret (z' + SIZE_OF_POOL_HEAD, s3)"
      by (rule AllocatePool_stock [OF st2 _ S2(1) n S2(2), of "sizeof_IHANDLE" cb con dis]) simp_all
    moreover have "z' + SIZE_OF_POOL_HEAD \<noteq> 0" using st2 by (simp add: stock_def)
    ultimately show ?thesis using True by (simp add: install_handle_def) (simp add: new_handle_def Let_def)
  next
    case False
    then show ?thesis using uh representsD(1) [OF section_okD(3) [OF sec2], of uh] by (auto simp: install_handle_def)
  qed
  then obtain a s3 where a: "install_handle ?bs uh s2 = Ret (a, s3)" "a \<noteq> 0" "Handles (db s3) a \<noteq> None" by blast
  obtain M' where M': "section_ok cb con dis (insert (y' + SIZE_OF_POOL_HEAD) F) s0 M' s3"
      "\<forall>e E. Entries (db s2) e = Some E \<longrightarrow> Entries (db s3) e = Some E"
    using install_handle_section [OF sec2 q n a(1)] by blast
  obtain E where E3: "Entries (db s3) e = Some E" using E M'(2) s2(3) by auto
  let ?s4 = "upd_db (link_prot (y' + SIZE_OF_POOL_HEAD) a e i) s3"
  have "unwatched (db s3)" by (rule section_okD(4) [OF M'(1)])
  then have "NotifyProtocolEntry cb n e ?s4 = Ret ?s4" using E3 by (auto simp: NotifyProtocolEntry_def unwatched_def link_prot_def)
  moreover have "install_body ?bs cb n Status0 uh g i s = bind_run (install_handle ?bs uh s2) (\<lambda>(Handle, s3).
           if Handle = 0 then Ret ((Status0, y' + SIZE_OF_POOL_HEAD, 0), s3)
           else if Handles (db s3) Handle = None then Ret ((EFI_INVALID_PARAMETER, y' + SIZE_OF_POOL_HEAD, Handle), s3)
           else bind_run (NotifyProtocolEntry cb n e (upd_db (link_prot (y' + SIZE_OF_POOL_HEAD) Handle e i) s3)) (\<lambda>s4. Ret ((EFI_SUCCESS, y' + SIZE_OF_POOL_HEAD, Handle), s4)))"
    using e s2(1) p by (simp add: install_body_def install_handle_def del: bind_run_Ret)
  ultimately show ?thesis using a by simp
qed

text \<open>
  C34: \<open>InstallProtocolInterface\<close> refines the map from handles to protocols to interfaces. For a new handle or a
  valid one, with enough free blocks in the pool, no notification due and nobody waiting for protocols, it returns. On a new handle
  the interface is the only one; the handle was not valid before. On a valid handle without the protocol the
  interface is added; a protocol that is there already is refused and the map stays as it is.
\<close>

theorem install_protocol_refines:
  assumes out: "outside cb con dis F s" and q: "quiet s" and n: "2 \<le> n" and low: "TPL s \<le> TPL_NOTIFY" and rt: "\<not> EfiAtRuntime s"
    and rep: "represents (db s) M" and un: "unwatched (db s)" and st: "stock (x # y # z # hs) (exec.more s)"
    and uh: "uh = 0 \<or> M uh \<noteq> None"
  shows "\<exists>st u s'. InstallProtocolInterface (core_services cb n con dis) cb n (Some uh) (Some g) EFI_NATIVE_INTERFACE i s = Ret (st, u, s') \<and>
     exec_frame s s' \<and> unwatched (db s') \<and>
     (if uh = 0 then st = EFI_SUCCESS \<and> (\<exists>a. u = Some a \<and> M a = None \<and> represents (db s') (M(a \<mapsto> [g \<mapsto> i])))
      else u = Some uh \<and> (case the (M uh) g of
        None \<Rightarrow> st = EFI_SUCCESS \<and> represents (db s') (M(uh \<mapsto> (the (M uh))(g \<mapsto> i)))
      | Some j \<Rightarrow> st = EFI_INVALID_PARAMETER \<and> represents (db s') M))"
proof -
  let ?bs = "core_services cb n con dis"
  have inv: "hand_inv (db s)" and lv: "levels s" using out by (simp_all add: outside_def upper_ok_def db_def)
  define first where "first = (if uh \<noteq> 0 then bind_run (HandleProtocol ?bs cb n uh (Some g) True s) (\<lambda>(Status, _, s1). Ret (Status, s1))
                         else Ret (EFI_OUT_OF_RESOURCES, s))"
  have R: "InstallProtocolInterface ?bs cb n (Some uh) (Some g) EFI_NATIVE_INTERFACE i s = bind_run first (\<lambda>(Status0, s1).
            if uh \<noteq> 0 \<and> \<not> EFI_ERROR Status0 then Ret (EFI_INVALID_PARAMETER, Some uh, s1)
            else bind_run (install_body ?bs cb n Status0 uh g i (AcquireLock ProtocolDatabaseLock s1)) (\<lambda>((Status, p, Handle), s2).
                 bind_run (ReleaseLock cb n ProtocolDatabaseLock s2) (\<lambda>s3.
                   if \<not> EFI_ERROR Status then Ret (Status, Some Handle, s3)
                   else if p \<noteq> 0 then bind_run (FreePool ?bs p s3) (\<lambda>s4. Ret (Status, Some uh, s4))
                   else Ret (Status, Some uh, s3))))"
    unfolding InstallProtocolInterface_def first_def by (simp only: prod.case option.case simp_thms if_False)
  have fi: "\<exists>Status0 s1. first = Ret (Status0, s1) \<and> exec_frame s s1 \<and> represents (db s1) M \<and> unwatched (db s1) \<and>
      stock (x # y # z # hs) (exec.more s1) \<and> outside cb con dis F s1 \<and>
      (if uh = 0 then EFI_ERROR Status0 else case the (M uh) g of None \<Rightarrow> EFI_ERROR Status0 | Some j \<Rightarrow> \<not> EFI_ERROR Status0)"
  proof (cases "uh = 0")
    case True
    then show ?thesis using rep un out st by (simp add: first_def exec_frame_def)
  next
    case False
    then obtain m where m: "M uh = Some m" using uh by auto
    obtain st0 i0 s1 where h: "HandleProtocol ?bs cb n uh (Some g) True s = Ret (st0, i0, s1)" "exec_frame s s1" "represents (db s1) M" "unwatched (db s1)"
        "stock (x # y # z # hs) (exec.more s1)"
        "case m g of None \<Rightarrow> st0 = EFI_UNSUPPORTED \<and> i0 = None | Some j \<Rightarrow> st0 = EFI_SUCCESS \<and> i0 = Some j"
      using HandleProtocol_quiet [OF q n inv rep, of ?bs cb uh g] un m st by (simp only: option.case) blast
    have "outside cb con dis F s1" by (rule hdb.HandleProtocol_ok [OF out h(1)])
    then show ?thesis using False h m by (intro exI [of _ st0] exI [of _ s1]) (auto simp: first_def split: option.splits)
  qed
  then obtain Status0 s1 where s1: "first = Ret (Status0, s1)" "exec_frame s s1" "represents (db s1) M" "unwatched (db s1)"
      "stock (x # y # z # hs) (exec.more s1)" "outside cb con dis F s1"
    and e0: "if uh = 0 then EFI_ERROR Status0 else case the (M uh) g of None \<Rightarrow> EFI_ERROR Status0 | Some j \<Rightarrow> \<not> EFI_ERROR Status0" by blast
  have q1: "quiet s1" "TPL s1 \<le> TPL_NOTIFY" "levels s1" "\<not> EfiAtRuntime s1" using exec_frame_quiet [OF s1(2)] s1(2,6) q low rt
    by (auto simp: exec_frame_def outside_def)
  show ?thesis
  proof (cases "uh \<noteq> 0 \<and> \<not> EFI_ERROR Status0")
    case True
    then obtain j where "the (M uh) g = Some j" using e0 by (auto split: option.splits)
    moreover have "InstallProtocolInterface ?bs cb n (Some uh) (Some g) EFI_NATIVE_INTERFACE i s = Ret (EFI_INVALID_PARAMETER, Some uh, s1)"
      unfolding R using s1(1) True by simp
    ultimately show ?thesis using s1 True by simp
  next
    case False
    then have E0: "EFI_ERROR Status0" using e0 by (auto split: if_splits)
    have free: "uh \<noteq> 0 \<Longrightarrow> \<exists>m. M uh = Some m \<and> m g = None" using uh e0 False by (auto split: option.splits)
    let ?a = "AcquireLock ProtocolDatabaseLock s1"
    have sec: "section_ok cb con dis F s1 M ?a" using hdb.sect_acquire [OF s1(6)] s1(3,4) by (simp add: section_ok_def)
    have qa: "quiet ?a" by (rule quiet_section [OF q1(1-3)])
    have sa: "stock (x # y # z # hs) (exec.more ?a)" using s1(5) by simp
    obtain p a s2 where b: "install_body ?bs cb n Status0 uh g i ?a = Ret ((EFI_SUCCESS, p, a), s2)"
      using install_body_stock [OF sec qa n q1(4) sa uh, of Status0 g i] by blast
    note B = install_body_section [OF sec qa n b E0 free]
    have fr: "in_frame ?a s2" and un2: "unwatched (db s2)" using B by auto
    have I: "InstallProtocolInterface ?bs cb n (Some uh) (Some g) EFI_NATIVE_INTERFACE i s = Ret (EFI_SUCCESS, Some a, left s2)"
      unfolding R using s1(1) False b leave_section(1) [OF q1(1) n fr, of cb] by simp
    have ef: "exec_frame s (left s2)" by (rule exec_frame_trans [OF s1(2) leave_section(2) [OF q1(1) n fr]])
    show ?thesis
    proof (cases "uh = 0")
      case True
      then show ?thesis using I ef un2 B by (intro exI [of _ EFI_SUCCESS] exI [of _ "Some a"] exI [of _ "left s2"]) simp
    next
      case u: False
      then obtain m where m: "M uh = Some m" "m g = None" "represents (db s2) (M(uh \<mapsto> m(g \<mapsto> i)))" "a = uh" using B by auto
      then show ?thesis using I ef un2 u by (intro exI [of _ EFI_SUCCESS] exI [of _ "Some a"] exI [of _ "left s2"]) simp
    qed
  qed
qed

section \<open>Uninstalling\<close>

lemma FindProtocolInterface_total:
  assumes inv: "hand_inv h" and H: "Handles h a = Some H"
  shows "\<exists>p. FindProtocolInterface h a g i = Ret p \<and>
     (if \<exists>q X. offers h a g q X \<and> PIInterface X = i then \<exists>X. offers h a g p X \<and> PIInterface X = i \<and> p \<noteq> 0 else p = 0)"
proof (cases "List.find (has_id h g) (ProtocolDatabase h)")
  case None
  have "\<not> has_id h g e" for e by (rule find_id_None [OF None entries_okD(2) [OF hand_invD(2) [OF inv]]])
  then have "\<not> offers h a g q X" for q X by (auto simp: offers_def has_id_eq)
  then show ?thesis using None by (simp add: FindProtocolInterface_def)
next
  case (Some e)
  then obtain E where E: "Entries h e = Some E" "PEProtocolID E = g" using find_id_Some by blast
  let ?Q = "\<lambda>X. PIInterface X = i \<and> PIProtocol X = e"
  note ps = handles_okD(5) [OF hand_invD(1) [OF inv] H]
  have o: "offers h a g q X \<and> PIInterface X = i \<longleftrightarrow> q \<in> set (IHProtocols H) \<and> Prots h q = Some X \<and> ?Q X" for q X
    using ps [of q] E entries_okD(7) [OF hand_invD(2) [OF inv], of "PIProtocol X" _ e E] by (auto simp: offers_def)
  obtain p where p: "scan_prots ?Q (Prots h) (IHProtocols H) = Ret p"
      "if \<exists>q\<in>set (IHProtocols H). \<exists>X. Prots h q = Some X \<and> ?Q X then p \<in> set (IHProtocols H) \<and> (\<exists>X. Prots h p = Some X \<and> ?Q X) else p = 0"
    using scan_prots_total [of "IHProtocols H" "Prots h" ?Q] protocols_live [OF inv H] by blast
  have f: "FindProtocolInterface h a g i = Ret p" using p(1) Some H by (simp add: FindProtocolInterface_def)
  show ?thesis
  proof (cases "\<exists>q X. offers h a g q X \<and> PIInterface X = i")
    case True
    then have "\<exists>q\<in>set (IHProtocols H). \<exists>X. Prots h q = Some X \<and> ?Q X" unfolding o by blast
    then obtain X where X: "p \<in> set (IHProtocols H)" "Prots h p = Some X" "?Q X" using p(2) by auto
    then have "offers h a g p X \<and> PIInterface X = i" unfolding o by blast
    moreover have "p \<noteq> 0" using X(1) protocols_live(2) [OF inv H] by auto
    ultimately show ?thesis using f True by (intro exI [of _ p]) auto
  next
    case False
    then have "\<not> (\<exists>q\<in>set (IHProtocols H). \<exists>X. Prots h q = Some X \<and> ?Q X)" unfolding o by blast
    then show ?thesis using f p(2) False by auto
  qed
qed

lemma Disconnect_idle:
  assumes "Prots (db s) p = Some X" and "PIOpenList X = []" and "PIOpenListCount X = 0" and "2 \<le> n"
  shows "DisconnectControllersUsingProtocolInterface bs cb n h p s = Ret (EFI_SUCCESS, s)"
proof -
  obtain k where n: "n = Suc k" using assms(4) by (cases n) auto
  show ?thesis using assms(1-3) by (simp add: DisconnectControllersUsingProtocolInterface_def n)
qed

text \<open>The map after an interface has been taken away: a handle without interfaces is gone.\<close>

definition without :: "(UINTN \<rightharpoonup> EFI_GUID \<rightharpoonup> UINTN) \<Rightarrow> UINTN \<Rightarrow> (EFI_GUID \<rightharpoonup> UINTN) \<Rightarrow> EFI_GUID \<Rightarrow> (UINTN \<rightharpoonup> EFI_GUID \<rightharpoonup> UINTN)" where
  "without M a m g = (if m(g := None) = Map.empty then M(a := None) else M(a \<mapsto> m(g := None)))"

lemma uninstall_body_total:
  assumes inv: "hand_inv (db s)" and rep: "represents (db s) M" and q: "quiet s" "\<not> EfiAtRuntime s" and n: "2 \<le> n" and m: "M a = Some m"
    and fr: "releasable {p, a} (exec.more s)" and X: "offers (db s) a g p X" "PIInterface X = i" "p \<noteq> 0" and open0: "PIOpenList X = []"
    and find: "FindProtocolInterface (db s) a g i = Ret p"
  shows "\<exists>s'. uninstall_body (core_services cb n con dis) cb n a g i s = Ret (EFI_SUCCESS, s') \<and> in_frame s s' \<and> represents (db s') (without M a m g)"
proof -
  let ?bs = "core_services cb n con dis"
  obtain H where H: "Handles (db s) a = Some H" using representsD(1) [OF rep, of a] m by auto
  have P: "Prots (db s) p = Some X" "PIHandle X = a" using X by (simp_all add: offers_def)
  have pa: "p \<noteq> a" using hand_invD(5) [OF inv] H P(1) unfolding addrs_apart_def by (metis IntI UnI1 domI empty_iff)
  obtain Y where Y: "Entries (db s) (PIProtocol X) = Some Y" using X(1) by (auto simp: offers_def)
  have "record_ok p X" by (rule opens_okD(1) [OF hand_invD(4) [OF inv] P(1)])
  then have c0: "PIOpenListCount X = 0" using open0 by (simp add: record_ok_def)
  let ?u = "uninstall_db p (PIProtocol X) Y a (db s)"
  have inv': "hand_inv ?u" using uninstall_db_inv(1) [OF inv P(1) Y] P(2) by simp
  have rep': "represents ?u (M(a \<mapsto> m(g := None)))" by (rule represents_uninstall [OF inv m X(1) Y rep])
  let ?s1 = "upd_db (unlink_prot p a) (upd_db (touch a) (upd_db (detach p (PIProtocol X) Y) s))"
  have d1: "db ?s1 = ?u" by (simp add: uninstall_db_def)
  have q1: "quiet ?s1" "\<not> EfiAtRuntime ?s1" "releasable {p, a} (exec.more ?s1)" using q fr by simp_all
  obtain s2 where s2: "FreePool ?bs p ?s1 = Ret s2" "db s2 = ?u" "in_frame ?s1 s2" "releasable {a} (exec.more s2)"
    using FreePool_releasable [OF q1(1) n q1(2,3), of p cb con dis] pa unfolding d1 by auto
  have q2: "quiet s2" "\<not> EfiAtRuntime s2" using in_frame_quiet [OF s2(3)] in_frame_runtime [OF s2(3)] q1 by simp_all
  obtain H' where H': "Handles ?u a = Some H'" using H by simp
  have e: "IHProtocols H' = [] \<longleftrightarrow> m(g := None) = Map.empty" by (rule represents_empty [OF inv' rep' _ H']) simp
  have f2: "in_frame s s2" using s2(3) by (simp add: in_frame_def exec_frame_def upd_db_def)
  have rm: "RemoveInterfaceFromProtocol a g i s = Ret (p, upd_db (detach p (PIProtocol X) Y) s)"
    using find X(3) P Y by (simp add: RemoveInterfaceFromProtocol_def)
  have hd: "Handles (detach p (PIProtocol X) Y (db s)) a = Some H" using H by (simp add: detach_def)
  have h2: "Handles (db s2) a = Some H'" unfolding s2(2) by (rule H')
  have body: "uninstall_body ?bs cb n a g i s =
     (if IHProtocols H' = [] then bind_run (FreePool ?bs a (upd_db (drop_handle a) s2)) (\<lambda>s5. Ret (EFI_SUCCESS, s5)) else Ret (EFI_SUCCESS, s2))"
    unfolding uninstall_body_def using find X(3) Disconnect_idle [OF P(1) open0 c0 n, of ?bs cb a] rm hd s2(1) h2
    by (simp add: Let_def)
  show ?thesis
  proof (cases "IHProtocols H' = []")
    case True
    have q3: "quiet (upd_db (drop_handle a) s2)" "\<not> EfiAtRuntime (upd_db (drop_handle a) s2)"
        "releasable {a} (exec.more (upd_db (drop_handle a) s2))" using q2 s2(4) by simp_all
    obtain s3 where s3: "FreePool ?bs a (upd_db (drop_handle a) s2) = Ret s3" "db s3 = drop_handle a ?u" "in_frame (upd_db (drop_handle a) s2) s3"
      using FreePool_releasable [OF q3(1) n q3(2,3), of a cb con dis] s2(2) by auto
    have "represents (db s3) ((M(a \<mapsto> m(g := None)))(a := None))" unfolding s3(2) by (rule represents_drop_handle [OF inv' H' True rep'])
    moreover have "in_frame s s3" using f2 s3(3) by (auto simp: in_frame_def exec_frame_def upd_db_def)
    ultimately show ?thesis using body True s3(1) e by (simp add: without_def)
  next
    case False
    then show ?thesis using body e rep' s2(2) f2 by (simp add: without_def)
  qed
qed

lemma UninstallProtocolInterface_total:
  assumes q: "quiet s" and n: "2 \<le> n" and low: "TPL s \<le> TPL_NOTIFY" "levels s" "\<not> EfiAtRuntime s"
    and inv: "hand_inv (db s)" and rep: "represents (db s) M" and m: "M a = Some m"
    and idle: "\<And>p X. offers (db s) a g p X \<Longrightarrow> PIOpenList X = [] \<and> releasable {p, a} (exec.more s)"
  shows "\<exists>st s'. UninstallProtocolInterface (core_services cb n con dis) cb n a (Some g) i s = Ret (st, s') \<and> exec_frame s s' \<and>
     (if m g = Some i then st = EFI_SUCCESS \<and> represents (db s') (without M a m g) else st = EFI_NOT_FOUND \<and> represents (db s') M)"
proof -
  let ?a = "AcquireLock ProtocolDatabaseLock s" and ?bs = "core_services cb n con dis"
  have qa: "quiet ?a" "\<not> EfiAtRuntime ?a" using quiet_section [OF q low(1,2)] low(3) by simp_all
  obtain H where H: "Handles (db s) a = Some H" using representsD(1) [OF rep, of a] m by auto
  have v: "ValidateHandle s a = EFI_SUCCESS" using ValidateHandle_ok [OF inv, of a] H by simp
  obtain p where p: "FindProtocolInterface (db s) a g i = Ret p"
      "if \<exists>q X. offers (db s) a g q X \<and> PIInterface X = i then \<exists>X. offers (db s) a g p X \<and> PIInterface X = i \<and> p \<noteq> 0 else p = 0"
    using FindProtocolInterface_total [OF inv H] by blast
  have mg: "m g = Some i \<longleftrightarrow> (\<exists>q X. offers (db s) a g q X \<and> PIInterface X = i)" by (rule representsD(2) [OF rep m])
  have U: "UninstallProtocolInterface ?bs cb n a (Some g) i s = bind_run (uninstall_body ?bs cb n a g i ?a) (\<lambda>(Status, s1).
               bind_run (ReleaseLock cb n ProtocolDatabaseLock s1) (\<lambda>s2. Ret (Status, s2)))"
    by (simp add: UninstallProtocolInterface_def v)
  show ?thesis
  proof (cases "m g = Some i")
    case True
    then obtain X where X: "offers (db s) a g p X" "PIInterface X = i" "p \<noteq> 0" using p(2) mg by auto
    have "releasable {p, a} (exec.more ?a)" using idle [OF X(1)] by simp
    then obtain s1 where s1: "uninstall_body ?bs cb n a g i ?a = Ret (EFI_SUCCESS, s1)" "in_frame ?a s1" "represents (db s1) (without M a m g)"
      using uninstall_body_total [of ?a M n a m p g X i cb con dis] inv rep qa n m X idle [OF X(1)] p(1) by auto
    show ?thesis using s1(3) True leave_section(1) [OF q n s1(2), of cb] leave_section(2) [OF q n s1(2)]
      unfolding U by (simp add: s1(1))
  next
    case False
    then have "p = 0" using p(2) mg by (auto split: if_splits)
    then have "uninstall_body ?bs cb n a g i ?a = Ret (EFI_NOT_FOUND, ?a)" using p(1) by (simp add: uninstall_body_def)
    then show ?thesis using False rep leave_section(1) [OF q n in_frame_refl, of cb] leave_section(2) [OF q n in_frame_refl]
      unfolding U by simp
  qed
qed

text \<open>
  C35: looking up and uninstalling refine the same map. \<open>HandleProtocol\<close> returns the interface the map has, with
  the right error for an invalid handle or an unknown protocol, and leaves the map alone. On the pool of \<open>mem/pool.c\<close>,
  \<open>UninstallProtocolInterface\<close> for an interface that nobody has open takes away the interface if it is the
  one in the map, and the handle with its last interface; any other interface is not found and nothing is
  lost. The records it may free, of the interface and of the handle, must be releasable: small blocks whose chunks have another
  block in use.
\<close>

theorem lookup_uninstall_refine:
  assumes "quiet s" and "2 \<le> n" and "TPL s \<le> TPL_NOTIFY" and "levels s" and "\<not> EfiAtRuntime s" and "hand_inv (db s)" and "represents (db s) M"
  shows "(\<exists>st j s'. HandleProtocol (core_services cb n con dis) cb n a (Some g) True s = Ret (st, j, s') \<and> exec_frame s s' \<and>
       represents (db s') M \<and>
       (case M a of None \<Rightarrow> st = EFI_INVALID_PARAMETER \<and> j = None
        | Some m \<Rightarrow> (case m g of None \<Rightarrow> st = EFI_UNSUPPORTED \<and> j = None | Some i \<Rightarrow> st = EFI_SUCCESS \<and> j = Some i))) \<and>
     (\<forall>m. M a = Some m \<and> (\<forall>p X. offers (db s) a g p X \<longrightarrow> PIOpenList X = [] \<and> releasable {p, a} (exec.more s)) \<longrightarrow>
       (\<exists>st s'. UninstallProtocolInterface (core_services cb n con dis) cb n a (Some g) i s = Ret (st, s') \<and> exec_frame s s' \<and>
         (if m g = Some i then st = EFI_SUCCESS \<and> represents (db s') (without M a m g) else st = EFI_NOT_FOUND \<and> represents (db s') M)))"
  using HandleProtocol_quiet [OF assms(1,2,6,7), of "core_services cb n con dis" cb a g]
    UninstallProtocolInterface_total [OF assms, of a _ g cb con dis i]
  by (intro conjI allI impI) (blast, simp)

lemma represents_one: "represents one_interface [0x1FE210 \<mapsto> [block_io \<mapsto> 0x5000]]"
proof (rule representsI)
  show "m g = Some i \<longleftrightarrow> (\<exists>p X. offers one_interface a g p X \<and> PIInterface X = i)" if "[0x1FE210 \<mapsto> [block_io \<mapsto> 0x5000]] a = Some m" for a m g i
    using that by (auto simp: offers_def split: if_splits)
qed (auto split: if_splits)

theorem install_protocol_refines_witness:
  "\<exists>u s'. InstallProtocolInterface (core_services (\<lambda>_ _ _ _. Fault) 2 (\<lambda>_ _ _ _ _. Fault) (\<lambda>_ _ _ _. Fault)) (\<lambda>_ _ _ _. Fault) 2
       (Some 0) (Some block_io) EFI_NATIVE_INTERFACE 0x5000 hand_state = Ret (EFI_SUCCESS, u, s') \<and>
     (\<exists>a. u = Some a \<and> represents (db s') [a \<mapsto> [block_io \<mapsto> 0x5000]])"
proof -
  let ?cb = "\<lambda>_ _ _ _. Fault :: hand mem_scheme exec_scheme run" and ?con = "\<lambda>_ _ _ _ _. Fault :: (EFI_STATUS \<times> hand mem_scheme exec_scheme) run"
    and ?dis = "\<lambda>_ _ _ _. Fault :: (EFI_STATUS \<times> hand mem_scheme exec_scheme) run"
  let ?s = "idle_state 4 Map.empty (hand_mem empty_hand) :: hand mem_scheme exec_scheme"
  have db0: "db ?s = empty_hand" by (simp add: db_def idle_state_def hand_mem_def)
  have m: "mem_inv Map.empty Map.empty (vis (region (hand_mem empty_hand)), empty_hand) (exec.more ?s)"
    using hand_mem_inv [of empty_hand] by (simp add: idle_state_def)
  have e: "Entries (db ?s) = Map.empty" "Handles (db ?s) = Map.empty" "Prots (db ?s) = Map.empty" "Notifies (db ?s) = Map.empty"
    unfolding db0 by (simp_all add: empty_hand_def)
  have k: "cb_keeps upper_ok ?cb" "drivers_keep ?con ?dis" "LockTpl (Locks ?s MemoryLock) = TPL_NOTIFY"
    by (simp_all add: cb_keeps_def drivers_keep_def idle_state_def sample_locks_def)
  have out: "outside ?cb ?con ?dis {} hand_state" unfolding hand_state_def by (rule initial_outside [OF k m e])
  have "represents (db hand_state) Map.empty" "unwatched (db hand_state)" by (auto intro!: representsI simp: empty_hand_def unwatched_def)
  then obtain u s' where "InstallProtocolInterface (core_services ?cb 2 ?con ?dis) ?cb 2 (Some 0) (Some block_io) EFI_NATIVE_INTERFACE 0x5000 hand_state =
       Ret (EFI_SUCCESS, u, s')" "\<exists>a. u = Some a \<and> represents (db s') [a \<mapsto> [block_io \<mapsto> 0x5000]]"
    using install_protocol_refines [OF out, of 2 Map.empty "0x1FE100" "0x1FE180" "0x1FE200" "[0x1FE280]" 0 block_io "0x5000"] hand_stock [of empty_hand]
    by auto
  then show ?thesis by blast
qed

theorem lookup_uninstall_refine_witness:
  "\<exists>s' s''. HandleProtocol (core_services (\<lambda>_ _ _ _. Fault) 2 (\<lambda>_ _ _ _ _. Fault) (\<lambda>_ _ _ _. Fault)) (\<lambda>_ _ _ _. Fault) 2
        0x1FE210 (Some block_io) True (busy_state one_interface) = Ret (EFI_SUCCESS, Some 0x5000, s') \<and>
     UninstallProtocolInterface (core_services (\<lambda>_ _ _ _. Fault) 2 (\<lambda>_ _ _ _ _. Fault) (\<lambda>_ _ _ _. Fault)) (\<lambda>_ _ _ _. Fault) 2
        0x1FE210 (Some block_io) 0x5000 (busy_state one_interface) = Ret (EFI_SUCCESS, s'') \<and> represents (db s'') Map.empty"
proof -
  let ?s = "busy_state one_interface"
  have R: "releasable {0x1FE190, 0x1FE210} (exec.more ?s)"
    unfolding busy_state_simps by (rule releasable_mono [OF busy_releasable]) simp
  have o: "\<forall>p X. offers (db ?s) 0x1FE210 block_io p X \<longrightarrow> PIOpenList X = [] \<and> releasable {p, 0x1FE210} (exec.more ?s)"
    using R by (auto simp: offers_def split: if_splits)
  have r: "represents (db ?s) [0x1FE210 \<mapsto> [block_io \<mapsto> 0x5000]]" using represents_one by simp
  have q: "quiet ?s" "TPL ?s \<le> TPL_NOTIFY" "levels ?s" "\<not> EfiAtRuntime ?s" "hand_inv (db ?s)" using one_interface_inv by simp_all
  show ?thesis
    using lookup_uninstall_refine [OF q(1) _ q(2-5) r, of 2 "\<lambda>_ _ _ _. Fault" "\<lambda>_ _ _ _ _. Fault" "\<lambda>_ _ _ _. Fault" "0x1FE210" block_io "0x5000"] o
    by (auto simp: without_def)
qed

end
