(* ===== verification/HandleLocate.thy ===== *)
theory HandleLocate
  imports HandleSample
begin

text \<open>
  What the searches find: \<open>LocateHandle\<close> returns every matching handle once, and a registration for
  notifications goes through the new interfaces one by one.
\<close>

section \<open>The loop over the matching handles\<close>

text \<open>The handles a search gives one after the other, and the database behind it.\<close>

inductive gives :: "int \<Rightarrow> 'z hand_scheme \<Rightarrow> LOCATE_POSITION \<Rightarrow> UINTN list \<Rightarrow> 'z hand_scheme \<Rightarrow> bool" where
  last: "GetNext t h P = Ret ((0, I), P', h') \<Longrightarrow> gives t h P [] h'"
| more: "GetNext t h P = Ret ((a, I), P', h') \<Longrightarrow> a \<noteq> 0 \<Longrightarrow> gives t h' P' hs h'' \<Longrightarrow> gives t h P (a # hs) h''"

lemma locate_loop_gives:
  "gives t h P hs h' \<Longrightarrow> 8 * (j + length hs) < 2 ^ 64 \<Longrightarrow>
     locate_loop t Size True P (of_nat (8 * j)) res h = Ret (of_nat (8 * (j + length hs)), res @ take (unat Size div 8 - j) hs, h')"
proof (induction arbitrary: j res rule: gives.induct)
  case (last t h P I P' h')
  then show ?case by (subst locate_loop.simps) simp
next
  case (more t h P a I P' h' hs h'')
  have u: "unat (of_nat (8 * j) + 8 :: UINTN) = 8 * Suc j"
    using more.prems by (simp add: unat_word_ariths unat_of_nat)
  have w: "(of_nat (8 * j) + 8 :: UINTN) = of_nat (8 * Suc j)" by simp
  have fit: "of_nat (8 * j) + 8 \<le> Size \<longleftrightarrow> j < unat Size div 8"
    using u by (auto simp: word_le_nat_alt less_eq_div_iff_mult_less_eq Suc_le_eq [symmetric])
  have bound: "8 * (Suc j + length hs) < 2 ^ 64" using more.prems by simp
  have eq: "8 * (Suc j + length hs) = 8 * (j + length (a # hs))" by simp
  show ?case
  proof (cases "j < unat Size div 8")
    case True
    then have t: "take (unat Size div 8 - j) (a # hs) = a # take (unat Size div 8 - Suc j) hs"
      by (metis Suc_diff_Suc take_Suc_Cons)
    show ?thesis using more.hyps(1,2) True fit more.IH [OF bound, of "res @ [a]"] unfolding t eq [symmetric]
      by (subst locate_loop.simps) (simp del: of_nat_mult add: w)
  next
    case False
    then have t: "take (unat Size div 8 - j) (a # hs) = []" "take (unat Size div 8 - Suc j) hs = []" by simp_all
    show ?thesis using more.hyps(1,2) False fit more.IH [OF bound, of res] t unfolding eq [symmetric]
      by (subst locate_loop.simps) (simp del: of_nat_mult add: w)
  qed
qed

lemma gives_all:
  "0 \<notin> set hs \<Longrightarrow> gives AllHandles h \<lparr>LPSearchKey = k, LPPosition = hs\<rparr> hs h"
  by (induction hs) (auto simp: GetNext_def GetNextLocateAllHandles_def intro: gives.intros)

section \<open>By protocol\<close>

text \<open>The handles of a list of interfaces, each at its first place.\<close>

primrec firsts :: "(UINTN \<rightharpoonup> PROTOCOL_INTERFACE) \<Rightarrow> UINTN set \<Rightarrow> UINTN list \<Rightarrow> UINTN list" where
  "firsts P S [] = []"
| "firsts P S (p # ps) =
     (case P p of None \<Rightarrow> firsts P S ps
      | Some X \<Rightarrow> if PIHandle X \<in> S then firsts P S ps else PIHandle X # firsts P (insert (PIHandle X) S) ps)"

lemma firsts_set: "set (firsts P S ps) = {a. \<exists>p\<in>set ps. \<exists>X. P p = Some X \<and> PIHandle X = a} - S"
  by (induction ps arbitrary: S) (auto split: option.splits)

lemma firsts_distinct: "distinct (firsts P S ps)"
  by (induction ps arbitrary: S) (auto simp: firsts_set split: option.splits)

definition stamp :: "UINTN \<Rightarrow> 'z hand_scheme \<Rightarrow> 'z hand_scheme" where
  "stamp a h = upd_handle a (\<lambda>H. H\<lparr>IHLocateRequest := EfiLocateHandleRequest h\<rparr>) h"

definition stamped :: "'z hand_scheme \<Rightarrow> UINTN set" where
  "stamped h = {a. \<exists>H. Handles h a = Some H \<and> IHLocateRequest H = EfiLocateHandleRequest h}"

lemma stamp_simps [simp]:
  "Prots (stamp a h) = Prots h" "EfiLocateHandleRequest (stamp a h) = EfiLocateHandleRequest h" "dom (Handles (stamp a h)) = dom (Handles h)"
  "Handles h a \<noteq> None \<Longrightarrow> stamped (stamp a h) = insert a (stamped h)"
  by (auto simp: stamp_def stamped_def upd_handle_def dom_def)

lemma next_by_protocol_firsts:
  assumes "\<forall>p\<in>set ps. \<exists>X. Prots h p = Some X \<and> PIHandle X \<in> dom (Handles h)"
  shows "case firsts (Prots h) (stamped h) ps of
      [] \<Rightarrow> \<exists>J. next_by_protocol I ps h = Ret ((0, J), [], h)
    | a # hs \<Rightarrow> \<exists>J qs. next_by_protocol I ps h = Ret ((a, J), qs, stamp a h) \<and> set qs \<subseteq> set ps \<and> a \<in> dom (Handles h) \<and>
        firsts (Prots h) (insert a (stamped h)) qs = hs"
  using assms
proof (induction ps arbitrary: I)
  case (Cons p ps)
  obtain X H where X: "Prots h p = Some X" "Handles h (PIHandle X) = Some H" using Cons.prems by auto
  show ?case
  proof (cases "PIHandle X \<in> stamped h")
    case True
    then have "IHLocateRequest H = EfiLocateHandleRequest h" using X(2) by (auto simp: stamped_def)
    then show ?thesis using Cons.IH [of "PIInterface X"] Cons.prems True X by (auto split: list.splits)
  next
    case False
    then have "IHLocateRequest H \<noteq> EfiLocateHandleRequest h" using X(2) by (auto simp: stamped_def)
    then show ?thesis using False X by (auto simp: stamp_def)
  qed
qed simp

lemma gives_protocol:
  assumes "0 \<notin> dom (Handles h)" and "\<forall>p\<in>set ps. \<exists>X. Prots h p = Some X \<and> PIHandle X \<in> dom (Handles h)"
  shows "gives ByProtocol h \<lparr>LPSearchKey = k, LPPosition = ps\<rparr> (firsts (Prots h) (stamped h) ps) (fold stamp (firsts (Prots h) (stamped h) ps) h)"
  using assms
proof (induction "firsts (Prots h) (stamped h) ps" arbitrary: h ps)
  case Nil
  then obtain J where "next_by_protocol 0 ps h = Ret ((0, J), [], h)"
    using next_by_protocol_firsts [OF Nil.prems(2), of 0] by auto
  then show ?case unfolding Nil.hyps [symmetric]
    by (intro gives.last [where I = J and P' = "\<lparr>LPSearchKey = k, LPPosition = []\<rparr>"]) (simp add: GetNext_def GetNextLocateByProtocol_def)
next
  case (Cons a hs)
  obtain J qs where n: "next_by_protocol 0 ps h = Ret ((a, J), qs, stamp a h)" "set qs \<subseteq> set ps" "a \<in> dom (Handles h)"
      "firsts (Prots h) (insert a (stamped h)) qs = hs"
    using next_by_protocol_firsts [OF Cons.prems(2), of 0] Cons.hyps(2) [symmetric] by auto
  have st: "stamped (stamp a h) = insert a (stamped h)" using n(3) by (intro stamp_simps(4)) auto
  have q: "\<forall>p\<in>set qs. \<exists>X. Prots (stamp a h) p = Some X \<and> PIHandle X \<in> dom (Handles (stamp a h))"
    using Cons.prems(2) n(2) by auto
  have "hs = firsts (Prots (stamp a h)) (stamped (stamp a h)) qs" using n(4) st by simp
  then have "gives ByProtocol (stamp a h) \<lparr>LPSearchKey = k, LPPosition = qs\<rparr> hs (fold stamp hs (stamp a h))"
    using Cons.hyps(1) [of "stamp a h" qs] Cons.prems(1) q by auto
  moreover have "a \<noteq> 0" using n(3) Cons.prems(1) by auto
  moreover have "GetNext ByProtocol h \<lparr>LPSearchKey = k, LPPosition = ps\<rparr> =
      Ret ((a, J), \<lparr>LPSearchKey = k, LPPosition = qs\<rparr>, stamp a h)" using n(1) by (simp add: GetNext_def GetNextLocateByProtocol_def)
  ultimately show ?case unfolding Cons.hyps(2) [symmetric] by (auto intro: gives.more)
qed

section \<open>LocateHandle\<close>

definition located :: "int \<Rightarrow> EFI_GUID option \<Rightarrow> 'z hand_scheme \<Rightarrow> UINTN set" where
  "located t g h = (if t = AllHandles then set (HandleList h) else {a. \<exists>gd p X. g = Some gd \<and> offers h a gd p X})"

definition no_entry :: "EFI_GUID option \<Rightarrow> 'z hand_scheme \<Rightarrow> bool" where
  "no_entry g h \<longleftrightarrow> (\<forall>e E. Entries h e = Some E \<longrightarrow> g \<noteq> Some (PEProtocolID E))"

text \<open>The same database, up to the numbers of the last requests.\<close>

definition same_but_requests :: "'z hand_scheme \<Rightarrow> 'z hand_scheme \<Rightarrow> bool" where
  "same_but_requests h h' \<longleftrightarrow>
     ProtocolDatabase h' = ProtocolDatabase h \<and> HandleList h' = HandleList h \<and> HandleDatabaseKey h' = HandleDatabaseKey h \<and>
     Entries h' = Entries h \<and> Prots h' = Prots h \<and> Notifies h' = Notifies h \<and> hand.more h' = hand.more h \<and>
     (\<forall>a. map_option (\<lambda>H. H\<lparr>IHLocateRequest := 0\<rparr>) (Handles h' a) = map_option (\<lambda>H. H\<lparr>IHLocateRequest := 0\<rparr>) (Handles h a))"

lemma same_but_requests_stamp: "same_but_requests h h' \<Longrightarrow> same_but_requests h (stamp a h')"
  by (auto simp: same_but_requests_def stamp_def upd_handle_def option.map_comp o_def)

lemma same_but_requests_stamps: "same_but_requests h h' \<Longrightarrow> same_but_requests h (fold stamp hs h')"
  by (induction hs arbitrary: h') (auto intro: same_but_requests_stamp)

definition request :: "'z hand_scheme \<Rightarrow> 'z hand_scheme" where
  "request h = h\<lparr>EfiLocateHandleRequest := EfiLocateHandleRequest h + 1\<rparr>"

lemma request_simps [simp]:
  "Handles (request h) = Handles h" "Prots (request h) = Prots h" "HandleList (request h) = HandleList h"
  "same_but_requests h (request h)"
  by (simp_all add: request_def same_but_requests_def)

definition locate_status :: "UINTN list \<Rightarrow> UINTN \<Rightarrow> EFI_STATUS" where
  "locate_status hs Size =
     (if hs = [] then EFI_NOT_FOUND else if Size < of_nat (8 * length hs) then EFI_BUFFER_TOO_SMALL else EFI_SUCCESS)"

lemma locate_body_gives:
  assumes "locate_start t g k h = Ret (Inr P)" and "gives t (request h) P hs h'" and "length hs < 2 ^ 60" and "t \<noteq> ByRegisterNotify"
  shows "locate_body t g k Size True h = Ret ((locate_status hs Size, of_nat (8 * length hs), take (unat Size div 8) hs), h')"
proof -
  have "8 * (0 + length hs) < 2 ^ 64" using assms(3) by simp
  note l = locate_loop_gives [OF assms(2) this, of Size "[]"]
  have "of_nat (8 * length hs) = (0 :: UINTN) \<longleftrightarrow> hs = []"
  proof -
    have "unat (of_nat (8 * length hs) :: UINTN) = 8 * length hs" by (subst unat_of_nat) (use assms(3) in simp)
    then show ?thesis by (metis length_0_conv mult_eq_0_iff unat_eq_zero unsigned_0 zero_neq_numeral)
  qed
  then show ?thesis using assms(1,4) l unfolding locate_body_def request_def locate_status_def by (simp add: Let_def)
qed

lemma LocateHandle_quiet:
  assumes "quiet s" and "2 \<le> n" and "hand_inv (db s)" and "t = AllHandles \<or> t = ByProtocol \<and> g \<noteq> None"
    and "\<forall>a H. Handles (db s) a = Some H \<longrightarrow> IHLocateRequest H \<noteq> EfiLocateHandleRequest (db s) + 1"
    and "length (HandleList (db s)) < 2 ^ 60"
  shows "\<exists>hs s'. LocateHandle cb n t g k Size True s =
       Ret ((locate_status hs Size,
             if t = ByProtocol \<and> no_entry g (db s) then Size else of_nat (8 * length hs),
             take (unat Size div 8) hs), s') \<and>
     distinct hs \<and> set hs = located t g (db s) \<and> exec_frame s s' \<and> same_but_requests (db s) (db s')"
proof -
  let ?h = "db s" and ?a = "AcquireLock ProtocolDatabaseLock s"
  let ?size = "\<lambda>hs. if t = ByProtocol \<and> no_entry g ?h then Size else of_nat (8 * length hs)"
  note H = handles_okD(1-3,6) [OF hand_invD(1) [OF assms(3)]] and E = entries_okD(1,2,5,7) [OF hand_invD(2) [OF assms(3)]]
  have "\<exists>hs h'. locate_body t g k Size True ?h = Ret ((locate_status hs Size, ?size hs, take (unat Size div 8) hs), h') \<and>
      distinct hs \<and> set hs = located t g ?h \<and> same_but_requests ?h h'"
  proof (cases "t = AllHandles")
    case True
    have "0 \<notin> set (HandleList ?h)" using H(2,3) by (metis domIff option.collapse)
    then have g: "gives t (request ?h) \<lparr>LPSearchKey = k, LPPosition = HandleList ?h\<rparr> (HandleList ?h) (request ?h)"
      unfolding True by (rule gives_all)
    have "locate_start t g k ?h = Ret (Inr \<lparr>LPSearchKey = k, LPPosition = HandleList ?h\<rparr>)" using True by (simp add: locate_start_def)
    from locate_body_gives [OF this g assms(6)] show ?thesis using True H(1)
      by (intro exI [of _ "HandleList ?h"] exI [of _ "request ?h"]) (simp add: located_def)
  next
    case t: False
    then obtain gd where gd: "t = ByProtocol" "g = Some gd" using assms(4) by auto
    show ?thesis
    proof (cases "List.find (has_id ?h gd) (ProtocolDatabase ?h)")
      case None
      have n: "\<not> has_id ?h gd e" for e by (rule find_id_None [OF None E(2)])
      then have "located t g ?h = {}" using gd by (auto simp: located_def offers_def has_id_eq)
      moreover have "locate_body t g k Size True ?h = Ret ((EFI_NOT_FOUND, Size, []), ?h)"
        using gd None by (simp add: locate_body_def locate_start_def)
      ultimately show ?thesis using n gd by (intro exI [of _ "[]"] exI [of _ ?h])
         (auto simp: locate_status_def same_but_requests_def has_id_eq no_entry_def)
    next
      case (Some e)
      then obtain X where X: "Entries ?h e = Some X" "PEProtocolID X = gd" using find_id_Some by blast
      let ?hs = "firsts (Prots ?h) {} (PEProtocols X)"
      have st: "stamped (request ?h) = {}" using assms(5) by (auto simp: stamped_def request_def)
      have ps: "\<forall>p\<in>set (PEProtocols X). \<exists>Y. Prots ?h p = Some Y \<and> PIHandle Y \<in> dom (Handles ?h)"
        using E(3) [OF X(1)] H(4) by (metis domI)
      have z: "0 \<notin> dom (Handles (request ?h))" using H(3) by auto
      have g: "gives t (request ?h) \<lparr>LPSearchKey = k, LPPosition = PEProtocols X\<rparr> ?hs (fold stamp ?hs (request ?h))"
        using gives_protocol [OF z, of "PEProtocols X" k] ps unfolding st gd(1) by simp
      have s: "set ?hs = located t g ?h"
      proof -
        have o: "offers ?h a gd p Y \<longleftrightarrow> Prots ?h p = Some Y \<and> PIHandle Y = a \<and> p \<in> set (PEProtocols X)" for a p Y
          using E(3) [OF X(1), of p] E(4) [OF X(1)] X unfolding offers_def by (metis option.inject)
        show ?thesis
        proof (intro set_eqI)
          fix a
          have l: "a \<in> located t g ?h \<longleftrightarrow> (\<exists>p Y. offers ?h a gd p Y)" using gd by (simp add: located_def)
          have r: "a \<in> set ?hs \<longleftrightarrow> (\<exists>p\<in>set (PEProtocols X). \<exists>Y. Prots ?h p = Some Y \<and> PIHandle Y = a)" by (simp add: firsts_set)
          show "a \<in> set ?hs \<longleftrightarrow> a \<in> located t g ?h" unfolding l r o by blast
        qed
      qed
      have "set ?hs \<subseteq> set (HandleList ?h)" using ps H(2) by (auto simp: firsts_set)
      then have "card (set ?hs) \<le> card (set (HandleList ?h))" by (intro card_mono) simp_all
      then have "length ?hs \<le> length (HandleList ?h)"
        using distinct_card [OF firsts_distinct, of "Prots ?h" "{}" "PEProtocols X"] distinct_card [OF H(1)] by simp
      then have l: "length ?hs < 2 ^ 60" using assms(6) by simp
      have "locate_start t g k ?h = Ret (Inr \<lparr>LPSearchKey = k, LPPosition = PEProtocols X\<rparr>)"
        using gd Some X by (simp add: locate_start_def)
      note b = locate_body_gives [OF this g l, of Size]
      have "\<not> no_entry g ?h" using X gd by (auto simp: no_entry_def)
      then show ?thesis using b s gd(1) firsts_distinct same_but_requests_stamps [OF request_simps(4)]
        by (intro exI [of _ ?hs] exI [of _ "fold stamp ?hs (request ?h)"]) simp
    qed
  qed
  then obtain hs h' where b: "locate_body t g k Size True ?h = Ret ((locate_status hs Size, ?size hs, take (unat Size div 8) hs), h')"
      "distinct hs" "set hs = located t g ?h" "same_but_requests ?h h'" by blast
  have f: "exec_frame s (left (upd_db (\<lambda>_. h') ?a))" by (rule leave_section(2) [OF assms(1,2)]) simp
  show ?thesis using b f by (intro exI [of _ hs] exI [of _ "left (upd_db (\<lambda>_. h') ?a)"])
     (simp add: LocateHandle_def with_database_quiet [OF assms(1,2)])
qed

text \<open>
  C32: what \<open>LocateHandle\<close> finds, for all handles and by protocol. It returns, and the handles it finds are
  exactly the valid handles, or exactly those with an interface of the protocol, each once. It writes the ones that fit into
  the buffer, reports the size of all of them, and the status says whether there were any and whether they fitted; when the
  protocol is not known at all, the size is left alone. Nothing but the numbers of the last requests changes. The number of
  the request must be new to the handles.
\<close>

theorem locate_handle_exact:
  assumes "quiet s" and "2 \<le> n" and "hand_inv (db s)" and "t = AllHandles \<or> t = ByProtocol \<and> g \<noteq> None"
    and "\<forall>a H. Handles (db s) a = Some H \<longrightarrow> IHLocateRequest H \<noteq> EfiLocateHandleRequest (db s) + 1"
    and "length (HandleList (db s)) < 2 ^ 60"
  shows "\<exists>hs s'. LocateHandle cb n t g k Size True s =
       Ret ((locate_status hs Size,
             if t = ByProtocol \<and> no_entry g (db s) then Size else of_nat (8 * length hs),
             take (unat Size div 8) hs), s') \<and>
     distinct hs \<and> set hs = located t g (db s) \<and> exec_frame s s' \<and> same_but_requests (db s) (db s')"
  by (rule LocateHandle_quiet [OF assms])

theorem locate_handle_exact_witness:
  "\<exists>hs s'. LocateHandle (\<lambda>_ _ _ _. Fault) 2 ByProtocol (Some block_io) 0 8 True (upd_db (\<lambda>_. one_interface) hand_state) =
       Ret ((locate_status hs 8, of_nat (8 * length hs), take 1 hs), s') \<and> distinct hs \<and> set hs = {0x1FE210}"
proof -
  let ?s = "upd_db (\<lambda>_. one_interface) hand_state"
  have "located ByProtocol (Some block_io) one_interface = {0x1FE210}" by (auto simp: located_def offers_def)
  moreover have "\<forall>a H. Handles (db ?s) a = Some H \<longrightarrow> IHLocateRequest H \<noteq> EfiLocateHandleRequest (db ?s) + 1" by auto
  moreover have "\<not> no_entry (Some block_io) (db ?s)" by (auto simp: no_entry_def intro!: exI [of _ "0x1FE110"])
  moreover have "quiet ?s" "hand_inv (db ?s)" "length (HandleList (db ?s)) < 2 ^ 60" using one_interface_inv by simp_all
  ultimately obtain hs s' where "LocateHandle (\<lambda>_ _ _ _. Fault) 2 ByProtocol (Some block_io) 0 8 True ?s =
       Ret ((locate_status hs 8, of_nat (8 * length hs), take (unat (8 :: UINTN) div 8) hs), s')" "distinct hs"
      "set hs = located ByProtocol (Some block_io) (db ?s)"
    using locate_handle_exact [of ?s 2 ByProtocol "Some block_io" "\<lambda>_ _ _ _. Fault" 0 8] by auto
  then show ?thesis using \<open>located ByProtocol (Some block_io) one_interface = {0x1FE210}\<close>
    by (intro exI [of _ hs] exI [of _ s']) simp
qed

end
