(* ===== verification/HandleNotify.thy ===== *)
theory HandleNotify
  imports HandleSample
begin

text \<open>
  A registration for notifications as a queue: every search with it gives the next interface of the protocol, in
  the order of installation, until there is none.
\<close>

lemma rest_behind_next:
  assumes "distinct ps" and "rest_behind ps pos = Ret (p # qs)"
  shows "rest_behind ps (AtProt p) = Ret qs" "p \<in> set ps"
proof -
  have "\<exists>us. ps = us @ p # qs"
  proof (cases pos)
    case AtHead
    then show ?thesis using assms(2) by (auto simp: rest_behind_def)
  next
    case (AtProt q)
    then have "p # qs = tl (dropWhile (\<lambda>x. x \<noteq> q) ps)" using assms(2) by (auto simp: rest_behind_def split: if_splits)
    then obtain y where "dropWhile (\<lambda>x. x \<noteq> q) ps = y # p # qs" by (metis list.collapse list.distinct(1) list.sel(2))
    then have "ps = (takeWhile (\<lambda>x. x \<noteq> q) ps @ [y]) @ p # qs" by (metis append.assoc append_Cons append_Nil takeWhile_dropWhile_id)
    then show ?thesis by blast
  qed
  then obtain us where us: "ps = us @ p # qs" by blast
  then have "p \<notin> set us" using assms(1) by simp
  then have "dropWhile (\<lambda>x. x \<noteq> p) ps = p # qs" unfolding us by (subst dropWhile_append2) auto
  then show "rest_behind ps (AtProt p) = Ret qs" "p \<in> set ps" using us by (simp_all add: rest_behind_def)
qed

text \<open>The state one search leaves behind.\<close>

definition advanced :: "UINTN \<Rightarrow> UINTN list \<Rightarrow> 'z hand_scheme \<Rightarrow> 'z hand_scheme" where
  "advanced a rest h =
     h\<lparr>EfiLocateHandleRequest := EfiLocateHandleRequest h + 1,
       Notifies := (case rest of [] \<Rightarrow> Notifies h | p # _ \<Rightarrow> (Notifies h)(a := map_option (\<lambda>N. N\<lparr>PNPosition := AtProt p\<rparr>) (Notifies h a)))\<rparr>"

lemma LocateProtocol_next:
  assumes "quiet s" and "2 \<le> n" and "key \<noteq> 0" and "Notifies (db s) key = Some N" and "Entries (db s) (PNProtocol N) = Some E"
    and "rest_behind (PEProtocols E) (PNPosition N) = Ret rest"
    and "\<forall>p\<in>set (PEProtocols E). \<exists>X. Prots (db s) p = Some X \<and> PIHandle X \<noteq> 0" and "distinct (PEProtocols E)"
  shows "\<exists>s'. LocateProtocol cb n g key True s =
       Ret (case rest of [] \<Rightarrow> (EFI_NOT_FOUND, Some 0) | p # _ \<Rightarrow> (EFI_SUCCESS, map_option PIInterface (Prots (db s) p)), s') \<and>
     exec_frame s s' \<and> db s' = advanced key rest (db s)"
proof -
  let ?h = "db s" and ?a = "AcquireLock ProtocolDatabaseLock s"
  have body: "locate_protocol_body g key ?h =
      Ret (case rest of [] \<Rightarrow> (EFI_NOT_FOUND, 0) | p # _ \<Rightarrow> (EFI_SUCCESS, PIInterface (the (Prots ?h p))), advanced key rest ?h)"
  proof (cases rest)
    case Nil
    then show ?thesis using assms(3-6)
      by (simp add: locate_protocol_body_def Let_def GetNextLocateByRegisterNotify_def first_prot_def advanced_def)
  next
    case (Cons p qs)
    have "p \<in> set (PEProtocols E)" using rest_behind_next(2) [OF assms(8), of "PNPosition N" p qs] assms(6) Cons by simp
    then obtain X where "Prots ?h p = Some X" "PIHandle X \<noteq> 0" using assms(7) by blast
    then show ?thesis using assms(3-6) Cons
      by (simp add: locate_protocol_body_def Let_def GetNextLocateByRegisterNotify_def first_prot_def advance_notify_def advanced_def)
  qed
  have f: "exec_frame s (left (upd_db (\<lambda>_. advanced key rest ?h) ?a))" by (rule leave_section(2) [OF assms(1,2)]) simp
  have p: "Prots ?h p \<noteq> None" if "rest = p # qs" for p qs
    using rest_behind_next(2) [OF assms(8), of "PNPosition N" p qs] assms(6,7) that by auto
  show ?thesis using f p
    by (intro exI [of _ "left (upd_db (\<lambda>_. advanced key rest ?h) ?a)"])
       (auto simp: LocateProtocol_def with_database_quiet [OF assms(1,2)] body split: list.splits)
qed

text \<open>A driver that asks \<open>k\<close> times for the next interface.\<close>

primrec ask ::
  "'z hand_scheme mem_scheme notify_fn \<Rightarrow> nat \<Rightarrow> EFI_GUID \<Rightarrow> UINTN \<Rightarrow> nat \<Rightarrow> 'z handst \<Rightarrow> ((EFI_STATUS \<times> UINTN option) list \<times> 'z handst) run"
where
  "ask cb n g key 0 s = Ret ([], s)"
| "ask cb n g key (Suc k) s =
     bind_run (LocateProtocol cb n g key True s) (\<lambda>(r, s1). bind_run (ask cb n g key k s1) (\<lambda>(rs, s2). Ret (r # rs, s2)))"

text \<open>
  C33: a registration for notifications as a queue. In a consistent database, if \<open>rest\<close> are the interfaces of the
  protocol behind the position of the registration, then that many searches with it return them one by one in
  the order of installation, every one exactly once, and the next search finds nothing and does not move the position.
\<close>

theorem register_notify_queue:
  assumes "quiet s" and "2 \<le> n" and "hand_inv (db s)" and "Notifies (db s) key = Some N" and "Entries (db s) (PNProtocol N) = Some E"
    and "rest_behind (PEProtocols E) (PNPosition N) = Ret rest"
  shows "\<exists>s' s''. ask cb n g key (length rest) s = Ret (map (\<lambda>p. (EFI_SUCCESS, map_option PIInterface (Prots (db s) p))) rest, s') \<and>
     exec_frame s s' \<and> LocateProtocol cb n g key True s' = Ret ((EFI_NOT_FOUND, Some 0), s'') \<and> Notifies (db s'') key = Notifies (db s') key"
proof -
  note I = handles_okD(3,6) [OF hand_invD(1) [OF assms(3)]] entries_okD(4,5) [OF hand_invD(2) [OF assms(3)] assms(5)]
  have k: "key \<noteq> 0" using hand_invD(3) [OF assms(3)] assms(4) by (auto simp: notifies_ok_def)
  have P: "\<forall>p\<in>set (PEProtocols E). \<exists>X. Prots (db s) p = Some X \<and> PIHandle X \<noteq> 0" using I(1,2,4) by metis
  have "\<exists>s' s''. ask cb n g key (length rest) t = Ret (map (\<lambda>p. (EFI_SUCCESS, map_option PIInterface (Prots (db s) p))) rest, s') \<and>
     exec_frame t s' \<and> LocateProtocol cb n g key True s' = Ret ((EFI_NOT_FOUND, Some 0), s'') \<and> Notifies (db s'') key = Notifies (db s') key"
    if "quiet t" "Notifies (db t) key = Some (N\<lparr>PNPosition := pos\<rparr>)" "Entries (db t) = Entries (db s)" "Prots (db t) = Prots (db s)"
      "rest_behind (PEProtocols E) pos = Ret rest" for t pos rest
    using that
  proof (induction rest arbitrary: t pos)
    case Nil
    have e: "Entries (db t) (PNProtocol (N\<lparr>PNPosition := pos\<rparr>)) = Some E" using Nil.prems(3) assms(5) by simp
    obtain s'' where "LocateProtocol cb n g key True t = Ret ((EFI_NOT_FOUND, Some 0), s'')" "db s'' = advanced key [] (db t)"
      using LocateProtocol_next [OF Nil.prems(1) assms(2) k Nil.prems(2) e, of "[]" cb g] Nil.prems(4,5) P I(3) by auto
    then show ?case by (intro exI [of _ t] exI [of _ s'']) (simp add: advanced_def exec_frame_def)
  next
    case (Cons p qs)
    have e: "Entries (db t) (PNProtocol (N\<lparr>PNPosition := pos\<rparr>)) = Some E" using Cons.prems(3) assms(5) by simp
    obtain s1 where s1: "LocateProtocol cb n g key True t = Ret ((EFI_SUCCESS, map_option PIInterface (Prots (db s) p)), s1)"
        "exec_frame t s1" "db s1 = advanced key (p # qs) (db t)"
      using LocateProtocol_next [OF Cons.prems(1) assms(2) k Cons.prems(2) e, of "p # qs" cb g] Cons.prems(4,5) P I(3) by auto
    have q: "quiet s1" using exec_frame_quiet [OF s1(2)] Cons.prems(1) by simp
    have d: "Notifies (db s1) key = Some (N\<lparr>PNPosition := AtProt p\<rparr>)" "Entries (db s1) = Entries (db s)" "Prots (db s1) = Prots (db s)"
      unfolding s1(3) using Cons.prems(2-4) by (simp_all add: advanced_def)
    obtain s' s'' where "ask cb n g key (length qs) s1 = Ret (map (\<lambda>p. (EFI_SUCCESS, map_option PIInterface (Prots (db s) p))) qs, s')"
        "exec_frame s1 s'" "LocateProtocol cb n g key True s' = Ret ((EFI_NOT_FOUND, Some 0), s'')" "Notifies (db s'') key = Notifies (db s') key"
      using Cons.IH [OF q d rest_behind_next(1) [OF I(3) Cons.prems(5)]] by blast
    then show ?case using s1(1) exec_frame_trans [OF s1(2)] by (intro exI [of _ s'] exI [of _ s'']) simp
  qed
  from this [of s "PNPosition N" rest] show ?thesis using assms by simp
qed

text \<open>A registration made before the interface was installed.\<close>

definition watched :: hand where
  "watched = one_interface\<lparr>Entries := [0x1FE110 \<mapsto> \<lparr>PEProtocolID = block_io, PEProtocols = [0x1FE190], PENotify = [0x1FE290]\<rparr>],
     Notifies := [0x1FE290 \<mapsto> \<lparr>PNProtocol = 0x1FE110, PNEvent = 0x7000, PNPosition = AtHead\<rparr>]\<rparr>"

lemma watched_inv: "hand_inv watched"
  by (simp add: hand_inv_def handles_ok_def entries_ok_def notifies_ok_def opens_ok_def record_ok_def addrs_apart_def open_addrs_def watched_def)

theorem register_notify_queue_witness:
  "\<exists>s' s''. ask (\<lambda>_ _ _ _. Fault) 2 block_io 0x1FE290 1 (upd_db (\<lambda>_. watched) hand_state) = Ret ([(EFI_SUCCESS, Some 0x5000)], s') \<and>
     LocateProtocol (\<lambda>_ _ _ _. Fault) 2 block_io 0x1FE290 True s' = Ret ((EFI_NOT_FOUND, Some 0), s'')"
  using register_notify_queue [of "upd_db (\<lambda>_. watched) hand_state" 2 "0x1FE290"
      "\<lparr>PNProtocol = 0x1FE110, PNEvent = 0x7000, PNPosition = AtHead\<rparr>"
      "\<lparr>PEProtocolID = block_io, PEProtocols = [0x1FE190], PENotify = [0x1FE290]\<rparr>" "[0x1FE190]" "\<lambda>_ _ _ _. Fault" block_io]
    watched_inv by (auto simp: watched_def rest_behind_def)

end
