(* ===== verification/CloseServices.thy ===== *)
theory CloseServices
  imports HandleQuiet ExecSystem
begin

text \<open>
  Closing an event with the core's own services: \<open>UnregisterProtocolNotify\<close> (\<open>hand/notify.c\<close>) and the
  boot service \<open>FreePool\<close> (\<open>mem/pool.c\<close>) keep the frame that \<open>CloseEvent\<close> (\<open>exec/event.c\<close>) relies on, so the
  contract \<open>close_env\<close> has its instance in the model.
\<close>

section \<open>The frames of the two services\<close>

lemma in_frame_section:
  assumes "callable s" and "in_frame (AcquireLock ProtocolDatabaseLock s) s1"
  shows "ret_ok (exec_frame s) (ReleaseLock cb n ProtocolDatabaseLock s1)"
proof (cases "2 \<le> n")
  case True
  then show ?thesis using leave_section(1) [OF _ True assms(2), of cb] leave_section(2) [OF _ True assms(2)] assms(1)
    by (simp add: callable_def)
qed (simp add: ReleaseLock_no_fuel)

lemma FreePool_in_frame:
  fixes s :: "'z handst"
  assumes "quiet s"
  shows "ret_ok (in_frame s) (FreePool (core_services cb n con dis) b s)"
proof (cases "2 \<le> n")
  case True
  then show ?thesis unfolding ret_ok_def using FreePool_frame [OF assms True] by blast
next
  case False
  then have "with_memory cb n body s = NoFuel \<or> with_memory cb n body s = Fault" for body :: "'z hand_scheme mem_scheme \<Rightarrow> (EFI_STATUS \<times> 'z hand_scheme mem_scheme) run"
    by (cases "body (exec.more (AcquireLock MemoryLock s))") (auto simp: with_memory_def Let_def ReleaseLock_no_fuel)
  from this [of "FreePoolI n b"] show ?thesis
    by (auto simp: FreePool_def core_services_def BSFreePool_def)
qed

lemma UnregisterProtocolNotifyEvent_frame:
  assumes "callable s"
  shows "ret_ok (\<lambda>(st, s'). exec_frame s s') (UnregisterProtocolNotifyEvent (core_services cb n con dis) cb n e s)"
proof -
  let ?a = "AcquireLock ProtocolDatabaseLock s"
  have free: "ret_ok (in_frame ?a) (FreePool (core_services cb n con dis) x (upd_db f ?a))" for x f
    by (rule ret_ok_mono [OF FreePool_in_frame])
       (use quiet_section assms in \<open>auto simp: callable_def intro: in_frame_trans [of ?a "upd_db f ?a"]\<close>)
  show ?thesis
    unfolding UnregisterProtocolNotifyEvent_def Let_def
    by (auto split: option.split intro!: ret_ok_bind [OF free] ret_ok_bind [OF in_frame_section [OF assms]])
qed

lemma unregister_loop_frame:
  "callable s \<Longrightarrow> ret_ok (exec_frame s) (unregister_loop (core_services cb n con dis) cb n k e s)"
proof (induction k arbitrary: s)
  case (Suc k)
  have "ret_ok (exec_frame s) (unregister_loop (core_services cb n con dis) cb n k e s1)" if "exec_frame s s1" for s1
    by (rule ret_ok_mono [OF Suc.IH]) (use that Suc.prems exec_frame_callable exec_frame_trans in blast)+
  then show ?case
    using Suc.prems by (auto intro!: ret_ok_bind [OF UnregisterProtocolNotifyEvent_frame [OF Suc.prems]])
qed simp

section \<open>The interpretation\<close>

text \<open>The services as \<open>CloseEvent\<close> calls them, their status ignored.\<close>

definition close_unregister ::
  "'z hand_scheme mem_scheme notify_fn \<Rightarrow> nat \<Rightarrow> 'z handst EFI_BOOT_SERVICES \<Rightarrow> UINTN \<Rightarrow> 'z handst \<Rightarrow> 'z handst run"
where
  "close_unregister cb n bs e s = bind_run (UnregisterProtocolNotify bs cb n e s) (\<lambda>(_, s'). Ret s')"

interpretation core_close: close_env
  "close_unregister cb n (core_services cb n con dis)" "FreePool (core_services cb n con dis)" 
  for cb :: "'z hand_scheme mem_scheme notify_fn" and n con dis
proof unfold_locales
  fix s :: "'z handst" and e assume c: "callable s"
  have "ret_ok (\<lambda>(st, s'). exec_frame s s') (UnregisterProtocolNotify (core_services cb n con dis) cb n e s)"
    unfolding UnregisterProtocolNotify_def by (rule ret_ok_bind [OF unregister_loop_frame [OF c]]) simp
  then show "ret_ok (exec_frame s) (close_unregister cb n (core_services cb n con dis) e s)"
    unfolding close_unregister_def by (rule ret_ok_bind) auto
  show "ret_ok (exec_frame s) (FreePool (core_services cb n con dis) e s)"
    by (rule ret_ok_mono [OF FreePool_in_frame]) (use c in \<open>auto simp: callable_def in_frame_def\<close>)
qed

text \<open>So closing an event is a step of the execution services, whoever has registered notifications for it.\<close>

lemma core_close_step:
  assumes "CloseEvent cb (close_unregister cb n (core_services cb n con dis)) (FreePool (core_services cb n con dis)) n e s
      = Ret (st, s')"
    and "TPL s \<le> TPL_NOTIFY" and "levels s"
  shows "admissible_step cb n s s'"
proof -
  have "close_env (close_unregister cb n (core_services cb n con dis)) (FreePool (core_services cb n con dis))"
    by (rule core_close.close_env_axioms)
  then have "admissible (Close_event (close_unregister cb n (core_services cb n con dis)) (FreePool (core_services cb n con dis)) e) s"
    using assms(2,3) by (simp add: admissible_def)
  then show ?thesis using exec_step.close [OF assms(1)] unfolding admissible_step_def by blast
qed

end
