(* ===== verification/DevicePath.thy ===== *)
theory DevicePath
  imports EfiPrelude
begin

text \<open>
  Device paths (\<open>LIB/dpath.c\<close>, with the macros of \<open>INC/efidevp.h\<close>): a sequence of nodes of variable
  length, each with a header of a type, a subtype and a length of two bytes, ended by an end node;
  an end node of another subtype separates the instances of a path.

  A pointer to a node is the list of the bytes from there to the end of the object it points into,
  and the null pointer is \<open>None\<close>: reading behind the object is a fault. A block of pool memory is the list
  of its bytes, of unspecified contents; writing outside it is a fault. Loops that follow the length fields
  take fuel, as a node of length 0 makes them run forever.
\<close>

section \<open>Nodes\<close>

record EFI_DEVICE_PATH =
  dp_Type :: UINT8
  dp_SubType :: UINT8
  dp_Length :: "UINT8 \<times> UINT8"

fun header :: "UINT8 list \<Rightarrow> EFI_DEVICE_PATH run" where
  "header (t # st # l0 # l1 # _) = Ret \<lparr>dp_Type = t, dp_SubType = st, dp_Length = (l0, l1)\<rparr>"
| "header _ = Fault"

abbreviation (input) sizeof_EFI_DEVICE_PATH :: nat where "sizeof_EFI_DEVICE_PATH \<equiv> 4"
abbreviation (input) EFI_DP_TYPE_MASK :: UINT8 where "EFI_DP_TYPE_MASK \<equiv> 0x7f"
abbreviation (input) EFI_DP_TYPE_UNPACKED :: UINT8 where "EFI_DP_TYPE_UNPACKED \<equiv> 0x80"
abbreviation (input) END_DEVICE_PATH_TYPE :: UINT8 where "END_DEVICE_PATH_TYPE \<equiv> 0x7f"
abbreviation (input) END_ENTIRE_DEVICE_PATH_SUBTYPE :: UINT8 where "END_ENTIRE_DEVICE_PATH_SUBTYPE \<equiv> 0xff"
abbreviation (input) END_INSTANCE_DEVICE_PATH_SUBTYPE :: UINT8 where "END_INSTANCE_DEVICE_PATH_SUBTYPE \<equiv> 0x01"

definition DevicePathType :: "EFI_DEVICE_PATH \<Rightarrow> UINT8" where
  "DevicePathType a = dp_Type a AND EFI_DP_TYPE_MASK"

text \<open>The length is an \<open>int\<close> expression of two promoted bytes.\<close>

definition DevicePathNodeLength :: "EFI_DEVICE_PATH \<Rightarrow> nat" where
  "DevicePathNodeLength a =
     (case dp_Length a of (l0, l1) \<Rightarrow> unat ((ucast l0 :: 32 word) OR push_bit 8 (ucast l1 :: 32 word)))"

definition NextDevicePathNode :: "UINT8 list \<Rightarrow> UINT8 list run" where
  "NextDevicePathNode p = bind_run (header p) (\<lambda>a. Ret (drop (DevicePathNodeLength a) p))"

definition IsDevicePathEndType :: "EFI_DEVICE_PATH \<Rightarrow> bool" where
  "IsDevicePathEndType a \<longleftrightarrow> DevicePathType a = END_DEVICE_PATH_TYPE"

definition IsDevicePathEnd :: "EFI_DEVICE_PATH \<Rightarrow> bool" where
  "IsDevicePathEnd a \<longleftrightarrow> IsDevicePathEndType a \<and> dp_SubType a = END_ENTIRE_DEVICE_PATH_SUBTYPE"

text \<open>\<open>SetDevicePathNodeLength\<close>: the two bytes stored for a length.\<close>

definition length_bytes :: "nat \<Rightarrow> UINT8 list" where
  "length_bytes l = [of_nat l, of_nat (l div 256)]"

definition EndDevicePath :: "UINT8 list" where
  "EndDevicePath = [END_DEVICE_PATH_TYPE, END_ENTIRE_DEVICE_PATH_SUBTYPE, 4, 0]"

definition EndInstanceDevicePath :: "UINT8 list" where
  "EndInstanceDevicePath = [END_DEVICE_PATH_TYPE, END_INSTANCE_DEVICE_PATH_SUBTYPE, 4, 0]"

section \<open>Instances and sizes\<close>

text \<open>
  \<open>DevicePathInstance\<close>: the loop stops at an end node of either kind, or at the 514th node. It returns
  the node it stopped at and the one behind it.
\<close>

function instance_loop :: "nat \<Rightarrow> UINT8 list \<Rightarrow> (UINT8 list \<times> UINT8 list) run" where
  "instance_loop Count DevPath =
     bind_run (header DevPath) (\<lambda>a.
     bind_run (NextDevicePathNode DevPath) (\<lambda>Next.
       if IsDevicePathEndType a then Ret (DevPath, Next)
       else if 512 < Count then Ret (DevPath, Next)
       else instance_loop (Count + 1) Next))"
  by pat_completeness auto
termination by (relation "measure (\<lambda>(c, _). 513 - c)") auto

declare instance_loop.simps [simp del]

text \<open>
  The distance of two pointers into one object. The result is \<open>None\<close> for a null pointer, and otherwise
  the start of the instance, the new value of \<open>*DevicePath\<close> and the size.
\<close>

definition distance :: "UINT8 list \<Rightarrow> UINT8 list \<Rightarrow> nat" where
  "distance Start p = length Start - length p"

definition DevicePathInstance ::
  "UINT8 list option \<Rightarrow> (UINT8 list \<times> UINT8 list option \<times> UINTN) option run" where
  "DevicePathInstance DevicePath =
     (case DevicePath of
        None \<Rightarrow> Ret None
      | Some Start \<Rightarrow>
          bind_run (instance_loop 0 Start) (\<lambda>(DevPath, Next).
          bind_run (header DevPath) (\<lambda>a.
            Ret (Some (Start, if dp_SubType a = END_ENTIRE_DEVICE_PATH_SUBTYPE then None else Some Next,
                       of_nat (distance Start DevPath))))))"

primrec instance_count_loop :: "nat \<Rightarrow> UINTN \<Rightarrow> UINT8 list option \<Rightarrow> UINTN run" where
  "instance_count_loop 0 Count DevicePath = NoFuel"
| "instance_count_loop (Suc k) Count DevicePath =
     bind_run (DevicePathInstance DevicePath) (\<lambda>r.
       case r of None \<Rightarrow> Ret Count | Some (_, DevicePath', _) \<Rightarrow> instance_count_loop k (Count + 1) DevicePath')"

definition DevicePathInstanceCount :: "nat \<Rightarrow> UINT8 list option \<Rightarrow> UINTN run" where
  "DevicePathInstanceCount n DevicePath = instance_count_loop n 0 DevicePath"

primrec find_end :: "nat \<Rightarrow> UINT8 list \<Rightarrow> UINT8 list run" where
  "find_end 0 DevPath = NoFuel"
| "find_end (Suc k) DevPath =
     bind_run (header DevPath) (\<lambda>a.
       if IsDevicePathEnd a then Ret DevPath
       else bind_run (NextDevicePathNode DevPath) (find_end k))"

definition DevicePathSize :: "nat \<Rightarrow> UINT8 list \<Rightarrow> UINTN run" where
  "DevicePathSize n DevPath =
     bind_run (find_end n DevPath) (\<lambda>e. Ret (of_nat (distance DevPath e) + of_nat sizeof_EFI_DEVICE_PATH))"

section \<open>Building paths\<close>

text \<open>\<open>CopyMem\<close> into a block, at a position, of the first \<open>k\<close> bytes of another object.\<close>

definition CopyMem :: "UINT8 list \<Rightarrow> nat \<Rightarrow> UINT8 list \<Rightarrow> nat \<Rightarrow> UINT8 list run" where
  "CopyMem Dst pos Src k =
     (if k \<le> length Src \<and> pos + k \<le> length Dst
      then Ret (take pos Dst @ take k Src @ drop (pos + k) Dst) else Fault)"

text \<open>
  The allocator of the pool is a parameter: \<open>None\<close> when there is no memory, otherwise a block of the
  size asked for.
\<close>

type_synonym pool_alloc = "UINTN \<Rightarrow> UINT8 list option"

definition pool_blocks :: "pool_alloc \<Rightarrow> bool" where
  "pool_blocks AllocatePool \<longleftrightarrow> (\<forall>Size b. AllocatePool Size = Some b \<longrightarrow> length b = unat Size)"

definition AllocateZeroPool :: "pool_alloc \<Rightarrow> pool_alloc" where
  "AllocateZeroPool AllocatePool Size = map_option (\<lambda>b. replicate (length b) 0) (AllocatePool Size)"

definition DuplicateDevicePath :: "pool_alloc \<Rightarrow> nat \<Rightarrow> UINT8 list option \<Rightarrow> UINT8 list option run" where
  "DuplicateDevicePath AllocatePool n DevPath =
     (case DevPath of
        None \<Rightarrow> Ret None
      | Some p \<Rightarrow>
          bind_run (DevicePathSize n p) (\<lambda>Size.
            case AllocatePool Size of
              None \<Rightarrow> Ret None
            | Some b \<Rightarrow> bind_run (CopyMem b 0 p (unat Size)) (\<lambda>b. Ret (Some b))))"

text \<open>The loop of \<open>AppendDevicePath\<close>, which returns the block and the position behind the last marker.\<close>

primrec append_loop ::
  "nat \<Rightarrow> UINT8 list option \<Rightarrow> UINT8 list \<Rightarrow> nat \<Rightarrow> UINT8 list \<Rightarrow> nat \<Rightarrow> (UINT8 list \<times> nat) run" where
  "append_loop 0 Src1 Src2 Src2Size Dst DstPos = NoFuel"
| "append_loop (Suc k) Src1 Src2 Src2Size Dst DstPos =
     bind_run (DevicePathInstance Src1) (\<lambda>r.
       case r of
         None \<Rightarrow> Ret (Dst, DstPos)
       | Some (Inst, Src1', Size) \<Rightarrow>
           bind_run (CopyMem Dst DstPos Inst (unat Size)) (\<lambda>Dst.
           let DstPos = DstPos + unat Size in
           bind_run (CopyMem Dst DstPos Src2 Src2Size) (\<lambda>Dst.
           let DstPos = DstPos + Src2Size in
           bind_run (CopyMem Dst DstPos EndInstanceDevicePath sizeof_EFI_DEVICE_PATH) (\<lambda>Dst.
             append_loop k Src1' Src2 Src2Size Dst (DstPos + sizeof_EFI_DEVICE_PATH)))))"

definition AppendDevicePath ::
  "pool_alloc \<Rightarrow> nat \<Rightarrow> UINT8 list option \<Rightarrow> UINT8 list option \<Rightarrow> UINT8 list option run" where
  "AppendDevicePath AllocatePool n Src1 Src2 =
     (case (Src1, Src2) of
        (None, _) \<Rightarrow> DuplicateDevicePath AllocatePool n Src2
      | (Some _, None) \<Rightarrow> DuplicateDevicePath AllocatePool n Src1
      | (Some p1, Some p2) \<Rightarrow>
          bind_run (DevicePathSize n p1) (\<lambda>Src1Size.
          bind_run (DevicePathInstanceCount n Src1) (\<lambda>Src1Inst.
          bind_run (DevicePathSize n p2) (\<lambda>Src2Size.
            case AllocatePool (Src1Size * Src1Inst + Src2Size) of
              None \<Rightarrow> Ret None
            | Some Dst \<Rightarrow>
                bind_run (append_loop n Src1 p2 (unat Src2Size) Dst 0) (\<lambda>(Dst, DstPos).
                bind_run (CopyMem Dst (DstPos - sizeof_EFI_DEVICE_PATH) EndDevicePath sizeof_EFI_DEVICE_PATH)
                  (\<lambda>Dst. Ret (Some Dst)))))))"

text \<open>The temporary copy of the node is freed at the end.\<close>

definition AppendDevicePathNode ::
  "pool_alloc \<Rightarrow> nat \<Rightarrow> UINT8 list option \<Rightarrow> UINT8 list \<Rightarrow> UINT8 list option run" where
  "AppendDevicePathNode AllocatePool n Src1 Src2 =
     bind_run (header Src2) (\<lambda>a.
     let Length = DevicePathNodeLength a in
       case AllocatePool (of_nat Length + of_nat sizeof_EFI_DEVICE_PATH) of
         None \<Rightarrow> Ret None
       | Some Temp \<Rightarrow>
           bind_run (CopyMem Temp 0 Src2 Length) (\<lambda>Temp.
           bind_run (header Temp) (\<lambda>t.
           bind_run (CopyMem Temp (DevicePathNodeLength t) EndDevicePath sizeof_EFI_DEVICE_PATH) (\<lambda>Temp.
             AppendDevicePath AllocatePool n Src1 (Some Temp)))))"

definition AppendDevicePathInstance ::
  "pool_alloc \<Rightarrow> nat \<Rightarrow> UINT8 list option \<Rightarrow> UINT8 list \<Rightarrow> UINT8 list option run" where
  "AppendDevicePathInstance AllocatePool n Src Instance =
     (case Src of
        None \<Rightarrow> DuplicateDevicePath AllocatePool n (Some Instance)
      | Some p \<Rightarrow>
          bind_run (DevicePathSize n p) (\<lambda>SrcSize.
          bind_run (DevicePathSize n Instance) (\<lambda>InstanceSize.
            case AllocatePool (SrcSize + InstanceSize) of
              None \<Rightarrow> Fault
            | Some Ptr \<Rightarrow>
                bind_run (CopyMem Ptr 0 p (unat SrcSize)) (\<lambda>Ptr.
                bind_run (find_end n Ptr) (\<lambda>DevPath.
                let pos = distance Ptr DevPath in
                bind_run (CopyMem Ptr (pos + 1) [END_INSTANCE_DEVICE_PATH_SUBTYPE] 1) (\<lambda>Ptr.
                bind_run (header (drop pos Ptr)) (\<lambda>a.
                bind_run (CopyMem Ptr (pos + DevicePathNodeLength a) Instance (unat InstanceSize)) (\<lambda>Ptr.
                  Ret (Some Ptr)))))))))"

text \<open>
  \<open>UnpackDevicePath\<close> rounds the nodes up to the alignment of the machine: a first pass adds up the sizes,
  a second one copies the nodes and marks them.
\<close>

abbreviation (input) MIN_ALIGNMENT_SIZE :: nat where "MIN_ALIGNMENT_SIZE \<equiv> 8"

definition ALIGN_SIZE :: "nat \<Rightarrow> nat" where
  "ALIGN_SIZE a = (if a mod MIN_ALIGNMENT_SIZE \<noteq> 0 then MIN_ALIGNMENT_SIZE - a mod MIN_ALIGNMENT_SIZE else 0)"

primrec unpacked_size :: "nat \<Rightarrow> UINT8 list \<Rightarrow> nat \<Rightarrow> nat run" where
  "unpacked_size 0 Src Size = NoFuel"
| "unpacked_size (Suc k) Src Size =
     bind_run (header Src) (\<lambda>a.
     let Size = Size + DevicePathNodeLength a; Size = Size + ALIGN_SIZE Size in
       if IsDevicePathEnd a then Ret Size
       else bind_run (NextDevicePathNode Src) (\<lambda>Src. unpacked_size k Src Size))"

primrec unpack_loop :: "nat \<Rightarrow> UINT8 list \<Rightarrow> UINT8 list \<Rightarrow> nat \<Rightarrow> UINT8 list run" where
  "unpack_loop 0 Src NewPath Dest = NoFuel"
| "unpack_loop (Suc k) Src NewPath Dest =
     bind_run (header Src) (\<lambda>a.
     let Size = DevicePathNodeLength a in
     bind_run (CopyMem NewPath Dest Src Size) (\<lambda>NewPath.
     let Size = Size + ALIGN_SIZE Size in
     bind_run (CopyMem NewPath (Dest + 2) (length_bytes Size) 2) (\<lambda>NewPath.
     bind_run (header (drop Dest NewPath)) (\<lambda>d.
     bind_run (CopyMem NewPath Dest [dp_Type d OR EFI_DP_TYPE_UNPACKED] 1) (\<lambda>NewPath.
       if IsDevicePathEnd a then Ret NewPath
       else bind_run (NextDevicePathNode Src) (\<lambda>Src. unpack_loop k Src NewPath (Dest + Size)))))))"

definition UnpackDevicePath :: "pool_alloc \<Rightarrow> nat \<Rightarrow> UINT8 list \<Rightarrow> UINT8 list option run" where
  "UnpackDevicePath AllocatePool n DevPath =
     bind_run (unpacked_size n DevPath 0) (\<lambda>Size.
       case AllocateZeroPool AllocatePool (of_nat Size) of
         None \<Rightarrow> Ret None
       | Some NewPath \<Rightarrow> bind_run (unpack_loop n DevPath NewPath 0) (\<lambda>b. Ret (Some b)))"

text \<open>
  \<open>FileDevicePath\<close>: a node with the file name and its terminator, little endian, appended to the path of
  the device, if there is one. \<open>Device\<close> is \<open>None\<close> for the null handle and otherwise the result of
  \<open>DevicePathFromHandle\<close>.
\<close>

abbreviation (input) MEDIA_DEVICE_PATH :: UINT8 where "MEDIA_DEVICE_PATH \<equiv> 0x04"
abbreviation (input) MEDIA_FILEPATH_DP :: UINT8 where "MEDIA_FILEPATH_DP \<equiv> 0x04"
abbreviation (input) SIZE_OF_FILEPATH_DEVICE_PATH :: nat where "SIZE_OF_FILEPATH_DEVICE_PATH \<equiv> 4"

definition char16_bytes :: "UINT16 list \<Rightarrow> UINT8 list" where
  "char16_bytes cs = concat (map (\<lambda>c. [ucast c, ucast (drop_bit 8 c)]) cs)"

definition FileDevicePath ::
  "pool_alloc \<Rightarrow> nat \<Rightarrow> UINT8 list option option \<Rightarrow> UINT16 list \<Rightarrow> UINT8 list option run" where
  "FileDevicePath AllocatePool n Device FileName =
     (let Size = 2 * (length FileName + 1) in
        case AllocateZeroPool AllocatePool (of_nat (Size + SIZE_OF_FILEPATH_DEVICE_PATH + sizeof_EFI_DEVICE_PATH)) of
          None \<Rightarrow> Ret None
        | Some FilePath \<Rightarrow>
            bind_run (CopyMem FilePath 0 ([MEDIA_DEVICE_PATH, MEDIA_FILEPATH_DP] @
              length_bytes (Size + SIZE_OF_FILEPATH_DEVICE_PATH)) 4) (\<lambda>FilePath.
            bind_run (CopyMem FilePath SIZE_OF_FILEPATH_DEVICE_PATH (char16_bytes (FileName @ [0])) Size) (\<lambda>FilePath.
            bind_run (header FilePath) (\<lambda>a.
            bind_run (CopyMem FilePath (DevicePathNodeLength a) EndDevicePath sizeof_EFI_DEVICE_PATH) (\<lambda>FilePath.
              case Device of
                None \<Rightarrow> Ret (Some FilePath)
              | Some DevPath \<Rightarrow> AppendDevicePath AllocatePool n DevPath (Some FilePath))))))"

end
