(* ===== verification/DevicePathHandles.thy ===== *)
theory DevicePathHandles
  imports Locate DevicePath
begin

text \<open>
  Device paths in the handle database: \<open>LocateDevicePath\<close> (\<open>hand/locate.c\<close>) with the library functions it calls,
  and the services that install and uninstall several interfaces at once (\<open>hand/handle.c\<close>). The memory
  that the interfaces point to is a parameter: the bytes from an address to the end of the object there.
\<close>

section \<open>LibLocateHandle\<close>

text \<open>\<open>GrowBuffer\<close> of \<open>LIB/misc.c\<close>: the results are \<open>TryAgain\<close>, \<open>*Status\<close> and \<open>*Buffer\<close>.\<close>

definition GrowBuffer ::
  "'s EFI_BOOT_SERVICES \<Rightarrow> EFI_STATUS \<Rightarrow> UINTN \<Rightarrow> UINTN \<Rightarrow> 's \<Rightarrow> ((bool \<times> EFI_STATUS \<times> UINTN) \<times> 's) run" where
  "GrowBuffer bs Status Buffer BufferSize s =
     (let Status = (if Buffer = 0 \<and> BufferSize \<noteq> 0 then EFI_BUFFER_TOO_SMALL else Status) in
      bind_run
        (if Status = EFI_BUFFER_TOO_SMALL
         then bind_run (if Buffer \<noteq> 0 then FreePool bs Buffer s else Ret s) (\<lambda>s1.
              bind_run (AllocatePool bs BufferSize s1) (\<lambda>(b, s2).
                if b \<noteq> 0 then Ret ((True, Status, b), s2) else Ret ((False, EFI_OUT_OF_RESOURCES, b), s2)))
         else Ret ((False, Status, Buffer), s)) (\<lambda>((TryAgain, Status, Buffer), s1).
        if \<not> TryAgain \<and> EFI_ERROR Status \<and> Buffer \<noteq> 0
        then bind_run (FreePool bs Buffer s1) (\<lambda>s2. Ret ((TryAgain, Status, 0), s2))
        else Ret ((TryAgain, Status, Buffer), s1)))"

primrec lib_locate_loop ::
  "'z handst EFI_BOOT_SERVICES \<Rightarrow> 'z hand_scheme mem_scheme notify_fn \<Rightarrow> nat \<Rightarrow> nat \<Rightarrow> int \<Rightarrow> EFI_GUID option \<Rightarrow> UINTN
   \<Rightarrow> EFI_STATUS \<Rightarrow> UINTN \<Rightarrow> UINTN \<Rightarrow> UINTN list \<Rightarrow> 'z handst \<Rightarrow> ((EFI_STATUS \<times> UINTN \<times> UINTN \<times> UINTN list) \<times> 'z handst) run"
where
  "lib_locate_loop bs cb n 0 SearchType Protocol SearchKey Status Buffer BufferSize Result s = NoFuel"
| "lib_locate_loop bs cb n (Suc k) SearchType Protocol SearchKey Status Buffer BufferSize Result s =
     bind_run (GrowBuffer bs Status Buffer BufferSize s) (\<lambda>((TryAgain, Status, Buffer), s1).
       if TryAgain
       then bind_run (LocateHandle cb n SearchType Protocol SearchKey BufferSize (Buffer \<noteq> 0) s1) (\<lambda>((Status, BufferSize, Result), s2).
              lib_locate_loop bs cb n k SearchType Protocol SearchKey Status Buffer BufferSize Result s2)
       else Ret ((Status, BufferSize, Buffer, Result), s1))"

text \<open>The results are the status, \<open>*NoHandles\<close>, and the buffer by address and content.\<close>

definition LibLocateHandle ::
  "'z handst EFI_BOOT_SERVICES \<Rightarrow> 'z hand_scheme mem_scheme notify_fn \<Rightarrow> nat \<Rightarrow> int \<Rightarrow> EFI_GUID option \<Rightarrow> UINTN
   \<Rightarrow> 'z handst \<Rightarrow> ((EFI_STATUS \<times> UINTN \<times> UINTN \<times> UINTN list) \<times> 'z handst) run"
where
  "LibLocateHandle bs cb n SearchType Protocol SearchKey s =
     bind_run (lib_locate_loop bs cb n n SearchType Protocol SearchKey EFI_SUCCESS 0 (50 * 8) [] s)
       (\<lambda>((Status, BufferSize, Buffer, Result), s1).
         Ret ((Status, if EFI_ERROR Status then 0 else BufferSize div 8, Buffer, Result), s1))"

section \<open>LocateDevicePath\<close>

definition DevicePathProtocol :: EFI_GUID where
  "DevicePathProtocol = \<lparr>Data1 = 0x9576e91, Data2 = 0x6d3f, Data3 = 0x11d2, Data4 = 0x3B7269C9A000398E\<rparr>"

definition DevicePathFromHandle ::
  "'z handst EFI_BOOT_SERVICES \<Rightarrow> 'z hand_scheme mem_scheme notify_fn \<Rightarrow> nat \<Rightarrow> (UINTN \<Rightarrow> UINT8 list) \<Rightarrow> UINTN
   \<Rightarrow> 'z handst \<Rightarrow> (UINT8 list option \<times> 'z handst) run"
where
  "DevicePathFromHandle bs cb n mem_at Handle s =
     bind_run (HandleProtocol bs cb n Handle (Some DevicePathProtocol) True s) (\<lambda>(Status, DevicePath, s1).
       if EFI_ERROR Status then Ret (None, s1)
       else case DevicePath of
              None \<Rightarrow> Fault
            | Some p \<Rightarrow> Ret (if p = 0 then None else Some (mem_at p), s1))"

text \<open>\<open>CompareMem (a, b, k) == 0\<close>, which reads up to the first difference.\<close>

primrec same_bytes :: "nat \<Rightarrow> UINT8 list \<Rightarrow> UINT8 list \<Rightarrow> bool run" where
  "same_bytes 0 a b = Ret True"
| "same_bytes (Suc k) a b =
     (case (a, b) of
        (x # a', y # b') \<Rightarrow> if x = y then same_bytes k a' b' else Ret False
      | _ \<Rightarrow> Fault)"

text \<open>The instances of one path; the state of the search is \<open>BestMatch\<close> and \<open>*Device\<close>. The sizes are \<open>INTN\<close>.\<close>

primrec match_instances ::
  "nat \<Rightarrow> UINT8 list \<Rightarrow> UINTN \<Rightarrow> UINTN \<Rightarrow> UINT8 list option \<Rightarrow> UINTN \<times> UINTN \<Rightarrow> (UINTN \<times> UINTN) run"
where
  "match_instances 0 SourcePath SourceSize Handle DevicePath best = NoFuel"
| "match_instances (Suc k) SourcePath SourceSize Handle DevicePath best =
     bind_run (DevicePathInstance DevicePath) (\<lambda>r.
       case r of
         None \<Rightarrow> Ret best
       | Some (Inst, DevicePath', Size) \<Rightarrow>
           bind_run
             (if sint Size \<le> sint SourceSize
              then bind_run (same_bytes (unat Size) SourcePath Inst) (\<lambda>eq.
                if eq then bind_run (header (drop (unat Size) Inst)) (\<lambda>Eop.
                  Ret (if IsDevicePathEndType Eop \<and> sint (fst best) < sint Size then (Size, Handle) else best))
                else Ret best)
              else Ret best) (\<lambda>best.
           match_instances k SourcePath SourceSize Handle DevicePath' best))"

primrec match_handles ::
  "'z handst EFI_BOOT_SERVICES \<Rightarrow> 'z hand_scheme mem_scheme notify_fn \<Rightarrow> nat \<Rightarrow> (UINTN \<Rightarrow> UINT8 list) \<Rightarrow> UINT8 list \<Rightarrow> UINTN
   \<Rightarrow> UINTN list \<Rightarrow> UINTN \<times> UINTN \<Rightarrow> 'z handst \<Rightarrow> ((UINTN \<times> UINTN) \<times> 'z handst) run"
where
  "match_handles bs cb n mem_at SourcePath SourceSize [] best s = Ret (best, s)"
| "match_handles bs cb n mem_at SourcePath SourceSize (Handle # hs) best s =
     bind_run (DevicePathFromHandle bs cb n mem_at Handle s) (\<lambda>(DevicePath, s1).
     bind_run (if DevicePath = None then Ret best
               else match_instances n SourcePath SourceSize Handle DevicePath best) (\<lambda>best.
       match_handles bs cb n mem_at SourcePath SourceSize hs best s1))"

text \<open>The results are the status, \<open>*FilePath\<close> and \<open>*Device\<close>.\<close>

definition LocateDevicePath ::
  "'z handst EFI_BOOT_SERVICES \<Rightarrow> 'z hand_scheme mem_scheme notify_fn \<Rightarrow> nat \<Rightarrow> (UINTN \<Rightarrow> UINT8 list) \<Rightarrow> EFI_GUID option
   \<Rightarrow> UINT8 list option \<Rightarrow> 'z handst \<Rightarrow> ((EFI_STATUS \<times> UINT8 list option \<times> UINTN) \<times> 'z handst) run"
where
  "LocateDevicePath bs cb n mem_at Protocol FilePath s =
     bind_run (DevicePathInstanceCount n FilePath) (\<lambda>count.
       if count \<noteq> 1 then Ret ((EFI_INVALID_PARAMETER, FilePath, 0), s)
       else case FilePath of
              None \<Rightarrow> Fault
            | Some SourcePath \<Rightarrow>
                bind_run (LibLocateHandle bs cb n ByProtocol Protocol 0 s) (\<lambda>((_, NoHandles, Buffer, hs), s1).
                bind_run (DevicePathSize n SourcePath) (\<lambda>size.
                if length hs < unat NoHandles then Fault
                else
                  bind_run (match_handles bs cb n mem_at SourcePath (size - of_nat sizeof_EFI_DEVICE_PATH)
                      (take (unat NoHandles) hs) (- 1, 0) s1) (\<lambda>((BestMatch, Device), s2).
                  bind_run (if Buffer \<noteq> 0 then FreePool bs Buffer s2 else Ret s2) (\<lambda>s3.
                    if BestMatch = - 1 then Ret ((EFI_NOT_FOUND, FilePath, Device), s3)
                    else Ret ((EFI_SUCCESS, Some (drop (unat BestMatch) SourcePath), Device), s3))))))"

text \<open>\<open>LibDevicePathToInterface\<close> (\<open>LIB/dpath.c\<close>): an interface of exactly the device of a path.\<close>

definition LibDevicePathToInterface ::
  "'z handst EFI_BOOT_SERVICES \<Rightarrow> 'z hand_scheme mem_scheme notify_fn \<Rightarrow> nat \<Rightarrow> (UINTN \<Rightarrow> UINT8 list) \<Rightarrow> EFI_GUID option
   \<Rightarrow> UINT8 list option \<Rightarrow> 'z handst \<Rightarrow> ((EFI_STATUS \<times> UINTN option) \<times> 'z handst) run"
where
  "LibDevicePathToInterface bs cb n mem_at Protocol FilePath s =
     bind_run (LocateDevicePath bs cb n mem_at Protocol FilePath s) (\<lambda>((Status, FilePath, Device), s1).
     bind_run
       (if EFI_ERROR Status then Ret ((Status, None), s1)
        else case FilePath of
               None \<Rightarrow> Fault
             | Some p \<Rightarrow>
                 bind_run (header p) (\<lambda>a.
                   if IsDevicePathEnd a
                   then bind_run (HandleProtocol bs cb n Device Protocol True s1) (\<lambda>(Status, I, s2). Ret ((Status, I), s2))
                   else Ret ((EFI_NOT_FOUND, None), s1))) (\<lambda>((Status, I), s2).
       Ret ((Status, if EFI_ERROR Status then Some 0 else I), s2)))"

section \<open>Several interfaces at once\<close>

text \<open>
  The variable arguments are a list of pairs of a protocol and an interface. The first loop of
  \<open>InstallMultipleProtocolInterfaces\<close> looks for a device path that is installed already; like that of the
  source it ends at the first lookup that fails.
\<close>

primrec device_path_present ::
  "'z handst EFI_BOOT_SERVICES \<Rightarrow> 'z hand_scheme mem_scheme notify_fn \<Rightarrow> nat \<Rightarrow> (UINTN \<Rightarrow> UINT8 list)
   \<Rightarrow> (EFI_GUID \<times> UINTN) list \<Rightarrow> 'z handst \<Rightarrow> (bool \<times> 'z handst) run"
where
  "device_path_present bs cb n mem_at [] s = Ret (False, s)"
| "device_path_present bs cb n mem_at (arg # args) s =
     (case arg of (Protocol, Interface) \<Rightarrow>
        if CompareGuid Protocol DevicePathProtocol = 0
        then bind_run (LocateDevicePath bs cb n mem_at (Some DevicePathProtocol)
                 (if Interface = 0 then None else Some (mem_at Interface)) s) (\<lambda>((Status, DevicePath, DeviceHandle), s1).
          bind_run (if \<not> EFI_ERROR Status \<and> DeviceHandle \<noteq> 0
                    then case DevicePath of None \<Rightarrow> Fault | Some p \<Rightarrow> bind_run (header p) (\<lambda>a. Ret (IsDevicePathEnd a))
                    else Ret False) (\<lambda>present.
            if present then Ret (True, s1)
            else if EFI_ERROR Status then Ret (False, s1)
            else device_path_present bs cb n mem_at args s1))
        else device_path_present bs cb n mem_at args s)"

text \<open>The second loop returns the status, the number of interfaces installed and \<open>*Handle\<close>.\<close>

primrec install_args ::
  "'z handst EFI_BOOT_SERVICES \<Rightarrow> 'z hand_scheme mem_scheme notify_fn \<Rightarrow> nat \<Rightarrow> (EFI_GUID \<times> UINTN) list \<Rightarrow> nat \<Rightarrow> UINTN
   \<Rightarrow> 'z handst \<Rightarrow> ((EFI_STATUS \<times> nat \<times> UINTN) \<times> 'z handst) run"
where
  "install_args bs cb n [] Index Handle s = Ret ((EFI_SUCCESS, Index, Handle), s)"
| "install_args bs cb n (arg # args) Index Handle s =
     (case arg of (Protocol, Interface) \<Rightarrow>
        bind_run (InstallProtocolInterface bs cb n (Some Handle) (Some Protocol) EFI_NATIVE_INTERFACE Interface s)
          (\<lambda>(Status, Handle', s1).
            case Handle' of
              None \<Rightarrow> Fault
            | Some Handle \<Rightarrow>
                if EFI_ERROR Status then Ret ((Status, Index, Handle), s1)
                else install_args bs cb n args (Index + 1) Handle s1))"

text \<open>The removal of the first interfaces again, their status ignored.\<close>

primrec uninstall_again ::
  "'z handst EFI_BOOT_SERVICES \<Rightarrow> 'z hand_scheme mem_scheme notify_fn \<Rightarrow> nat \<Rightarrow> (EFI_GUID \<times> UINTN) list \<Rightarrow> UINTN
   \<Rightarrow> 'z handst \<Rightarrow> 'z handst run"
where
  "uninstall_again bs cb n [] Handle s = Ret s"
| "uninstall_again bs cb n (arg # args) Handle s =
     (case arg of (Protocol, Interface) \<Rightarrow>
        bind_run (UninstallProtocolInterface bs cb n Handle (Some Protocol) Interface s) (\<lambda>(_, s1).
          uninstall_again bs cb n args Handle s1))"

definition InstallMultipleProtocolInterfaces ::
  "'z handst EFI_BOOT_SERVICES \<Rightarrow> 'z hand_scheme mem_scheme notify_fn \<Rightarrow> nat \<Rightarrow> (UINTN \<Rightarrow> UINT8 list) \<Rightarrow> UINTN
   \<Rightarrow> (EFI_GUID \<times> UINTN) list \<Rightarrow> 'z handst \<Rightarrow> ((EFI_STATUS \<times> UINTN) \<times> 'z handst) run"
where
  "InstallMultipleProtocolInterfaces bs cb n mem_at Handle args s =
     (let (OldTpl, s) = RaiseTPL TPL_NOTIFY s; OldHandle = Handle in
      bind_run (device_path_present bs cb n mem_at args s) (\<lambda>(present, s1).
        if present then bind_run (RestoreTPL cb n OldTpl s1) (\<lambda>s2. Ret ((EFI_ALREADY_STARTED, Handle), s2))
        else bind_run (install_args bs cb n args 0 Handle s1) (\<lambda>((Status, Index, Handle), s2).
          bind_run
            (if EFI_ERROR Status
             then bind_run (uninstall_again bs cb n (take Index args) Handle s2) (\<lambda>s3. Ret (OldHandle, s3))
             else Ret (Handle, s2)) (\<lambda>(Handle, s3).
          bind_run (RestoreTPL cb n OldTpl s3) (\<lambda>s4. Ret ((Status, Handle), s4))))))"

text \<open>
  \<open>UninstallMultipleProtocolInterfaces\<close>: the interfaces removed before an error are installed again, on what
  the local variable \<open>Handle\<close> holds then.
\<close>

primrec uninstall_args ::
  "'z handst EFI_BOOT_SERVICES \<Rightarrow> 'z hand_scheme mem_scheme notify_fn \<Rightarrow> nat \<Rightarrow> (EFI_GUID \<times> UINTN) list \<Rightarrow> nat \<Rightarrow> UINTN
   \<Rightarrow> 'z handst \<Rightarrow> ((EFI_STATUS \<times> nat) \<times> 'z handst) run"
where
  "uninstall_args bs cb n [] Index Handle s = Ret ((EFI_SUCCESS, Index), s)"
| "uninstall_args bs cb n (arg # args) Index Handle s =
     (case arg of (Protocol, Interface) \<Rightarrow>
        bind_run (UninstallProtocolInterface bs cb n Handle (Some Protocol) Interface s) (\<lambda>(Status, s1).
          if EFI_ERROR Status then Ret ((Status, Index), s1)
          else uninstall_args bs cb n args (Index + 1) Handle s1))"

primrec install_again ::
  "'z handst EFI_BOOT_SERVICES \<Rightarrow> 'z hand_scheme mem_scheme notify_fn \<Rightarrow> nat \<Rightarrow> (EFI_GUID \<times> UINTN) list \<Rightarrow> UINTN
   \<Rightarrow> 'z handst \<Rightarrow> 'z handst run"
where
  "install_again bs cb n [] Handle s = Ret s"
| "install_again bs cb n (arg # args) Handle s =
     (case arg of (Protocol, Interface) \<Rightarrow>
        bind_run (InstallProtocolInterface bs cb n (Some Handle) (Some Protocol) EFI_NATIVE_INTERFACE Interface s)
          (\<lambda>(_, Handle', s1).
            case Handle' of None \<Rightarrow> Fault | Some Handle \<Rightarrow> install_again bs cb n args Handle s1))"

definition UninstallMultipleProtocolInterfaces ::
  "'z handst EFI_BOOT_SERVICES \<Rightarrow> 'z hand_scheme mem_scheme notify_fn \<Rightarrow> nat \<Rightarrow> UINTN \<Rightarrow> (EFI_GUID \<times> UINTN) list
   \<Rightarrow> 'z handst \<Rightarrow> (EFI_STATUS \<times> 'z handst) run"
where
  "UninstallMultipleProtocolInterfaces bs cb n Handle args s =
     bind_run (uninstall_args bs cb n args 0 Handle s) (\<lambda>((Status, Index), s1).
       if EFI_ERROR Status
       then bind_run (install_again bs cb n (take Index args) Handle s1) (\<lambda>s2. Ret (Status, s2))
       else Ret (Status, s1))"

end
