(* ===== verification/DevicePathProps.thy ===== *)
theory DevicePathProps
  imports DevicePath
begin

text \<open>
  Correctness of the device path functions: they are related to paths as lists of instances, each a list of
  nodes.
\<close>

section \<open>Well-formed paths\<close>

type_synonym dp_node = "UINT8 \<times> UINT8 \<times> UINT8 list"

fun node_bytes :: "dp_node \<Rightarrow> UINT8 list" where
  "node_bytes (t, st, d) = [t, st] @ length_bytes (4 + length d) @ d"

fun node_ok :: "dp_node \<Rightarrow> bool" where
  "node_ok (t, st, d) \<longleftrightarrow> t AND EFI_DP_TYPE_MASK \<noteq> END_DEVICE_PATH_TYPE \<and> 4 + length d < 65536"

definition nodes_bytes :: "dp_node list \<Rightarrow> UINT8 list" where
  "nodes_bytes nds = concat (map node_bytes nds)"

fun path_bytes :: "dp_node list list \<Rightarrow> UINT8 list" where
  "path_bytes [] = []"
| "path_bytes [i] = nodes_bytes i @ EndDevicePath"
| "path_bytes (i # is) = nodes_bytes i @ EndInstanceDevicePath @ path_bytes is"

text \<open>The library looks at no more than 513 nodes of an instance.\<close>

definition path_ok :: "dp_node list list \<Rightarrow> bool" where
  "path_ok is \<longleftrightarrow> is \<noteq> [] \<and> list_all (\<lambda>i. length i \<le> 513 \<and> list_all node_ok i) is \<and> length (path_bytes is) < 2 ^ 64"

section \<open>Nodes\<close>

lemma length_of_bytes:
  assumes "l < 65536"
  shows "unat ((ucast (of_nat l :: UINT8) :: 32 word) OR push_bit 8 (ucast (of_nat (l div 256) :: UINT8) :: 32 word)) = l"
proof -
  let ?a = "ucast (of_nat l :: UINT8) :: 32 word" and ?b = "ucast (of_nat (l div 256) :: UINT8) :: 32 word"
  have a: "unat ?a = l mod 256" by (simp add: unsigned_ucast_eq unsigned_of_nat take_bit_eq_mod)
  have b: "unat ?b = l div 256" using assms
    by (simp add: unsigned_ucast_eq unsigned_of_nat take_bit_eq_mod)
  have "?a AND push_bit 8 ?b = 0" by (rule bit_word_eqI) (simp add: bit_simps, linarith?)
  then have "?a OR push_bit 8 ?b = ?a + push_bit 8 ?b" by (simp add: disjunctive_add_eq_or)
  moreover have "unat (push_bit 8 ?b) = 256 * (l div 256)"
    using assms by (simp add: push_bit_eq_mult unat_word_ariths b)
  moreover have "unat ?a + unat (push_bit 8 ?b) < 2 ^ 32" using a calculation(2) assms by simp
  ultimately show ?thesis using a by (simp add: unat_word_ariths)
qed

lemma header_node [simp]:
  "header (node_bytes (t, st, d) @ r) = Ret \<lparr>dp_Type = t, dp_SubType = st, dp_Length = (of_nat (4 + length d), of_nat ((4 + length d) div 256))\<rparr>"
  "header (EndDevicePath @ r) = Ret \<lparr>dp_Type = 0x7f, dp_SubType = 0xff, dp_Length = (4, 0)\<rparr>"
  "header (EndInstanceDevicePath @ r) = Ret \<lparr>dp_Type = 0x7f, dp_SubType = 0x01, dp_Length = (4, 0)\<rparr>"
  by (simp_all add: length_bytes_def EndDevicePath_def EndInstanceDevicePath_def)

lemma length_node [simp]:
  "length (node_bytes (t, st, d)) = 4 + length d" "length EndDevicePath = 4" "length EndInstanceDevicePath = 4"
  by (simp_all add: length_bytes_def EndDevicePath_def EndInstanceDevicePath_def)

lemma node_length [simp]:
  "l < 65536 \<Longrightarrow> DevicePathNodeLength \<lparr>dp_Type = t, dp_SubType = st, dp_Length = (of_nat l, of_nat (l div 256))\<rparr> = l"
  "DevicePathNodeLength \<lparr>dp_Type = t, dp_SubType = st, dp_Length = (4, 0)\<rparr> = 4"
  using length_of_bytes by (simp_all add: DevicePathNodeLength_def)

lemma next_node [simp]:
  "node_ok nd \<Longrightarrow> NextDevicePathNode (node_bytes nd @ r) = Ret r"
  "NextDevicePathNode (EndDevicePath @ r) = Ret r" "NextDevicePathNode (EndInstanceDevicePath @ r) = Ret r"
  by (cases nd; simp add: NextDevicePathNode_def del: node_bytes.simps of_nat_add)
     (simp_all add: NextDevicePathNode_def)

lemma node_not_end:
  "node_ok nd \<Longrightarrow> header (node_bytes nd @ r) = Ret a \<Longrightarrow> \<not> IsDevicePathEndType a"
  by (cases nd) (auto simp: IsDevicePathEndType_def DevicePathType_def simp del: node_bytes.simps of_nat_add)

lemma node_header: "\<exists>a. header (node_bytes nd @ r) = Ret a"
  by (cases nd) (simp del: node_bytes.simps)

lemma end_tests [simp]:
  "IsDevicePathEndType \<lparr>dp_Type = 0x7f, dp_SubType = st, dp_Length = l\<rparr>"
  "IsDevicePathEnd \<lparr>dp_Type = 0x7f, dp_SubType = st, dp_Length = l\<rparr> \<longleftrightarrow> st = 0xff"
  by (simp_all add: IsDevicePathEnd_def IsDevicePathEndType_def DevicePathType_def)

lemma nodes_bytes_simps [simp]:
  "nodes_bytes [] = []" "nodes_bytes (nd # nds) = node_bytes nd @ nodes_bytes nds"
  "nodes_bytes (a @ b) = nodes_bytes a @ nodes_bytes b"
  by (simp_all add: nodes_bytes_def)

lemma nodes_length: "4 * length nds \<le> length (nodes_bytes nds)"
proof (induction nds)
  case (Cons nd nds)
  then show ?case by (cases nd) (simp del: node_bytes.simps)
qed simp

section \<open>Reading\<close>

lemma instance_loop_end:
  "instance_loop c (EndDevicePath @ r) = Ret (EndDevicePath @ r, r)"
  "instance_loop c (EndInstanceDevicePath @ r) = Ret (EndInstanceDevicePath @ r, r)"
  by (subst instance_loop.simps; simp)+

lemma instance_loop_nodes:
  assumes "\<And>c. instance_loop c p = Ret q"
  shows "list_all node_ok nds \<Longrightarrow> c + length nds \<le> 513 \<Longrightarrow> instance_loop c (nodes_bytes nds @ p) = Ret q"
proof (induction nds arbitrary: c)
  case (Cons nd nds)
  obtain a where a: "header (node_bytes nd @ nodes_bytes nds @ p) = Ret a" using node_header by blast
  moreover have "\<not> IsDevicePathEndType a" using node_not_end [OF _ a] Cons.prems(1) by simp
  ultimately show ?case using Cons by (subst instance_loop.simps) simp
qed (simp add: assms)

lemma path_bytes_Cons:
  "path_bytes (i # is) = nodes_bytes i @ (if is = [] then EndDevicePath else EndInstanceDevicePath @ path_bytes is)"
  by (cases "is") simp_all

lemma DevicePathInstance_path:
  assumes "list_all node_ok i" and "length i \<le> 513"
  shows "DevicePathInstance (Some (path_bytes (i # is) @ r)) =
     Ret (Some (path_bytes (i # is) @ r, if is = [] then None else Some (path_bytes is @ r), of_nat (length (nodes_bytes i))))"
proof (cases "is = []")
  case True
  then show ?thesis using instance_loop_nodes [OF instance_loop_end(1) assms(1), of 0 r] assms(2)
    by (simp add: DevicePathInstance_def distance_def)
next
  case False
  then show ?thesis using instance_loop_nodes [OF instance_loop_end(2) assms(1), of 0 "path_bytes is @ r"] assms(2)
    by (simp add: path_bytes_Cons DevicePathInstance_def distance_def)
qed

abbreviation (input) "insts_ok is \<equiv> list_all (\<lambda>i. length i \<le> 513 \<and> list_all node_ok i) is"

lemma DevicePathInstance_None [simp]: "DevicePathInstance None = Ret None"
  by (simp add: DevicePathInstance_def)

lemma instance_count_path:
  "is \<noteq> [] \<Longrightarrow> insts_ok is \<Longrightarrow> length is < k \<Longrightarrow>
   instance_count_loop k c (Some (path_bytes is @ r)) = Ret (c + of_nat (length is))"
proof (induction "is" arbitrary: k c)
  case (Cons i "is")
  obtain m where k: "k = Suc m" using Cons.prems(3) by (cases k) auto
  show ?case
  proof (cases "is = []")
    case True
    then show ?thesis using Cons.prems k DevicePathInstance_path [of i "[]" r] by (cases m) auto
  next
    case False
    then show ?thesis using Cons.prems k DevicePathInstance_path [of i "is" r] Cons.IH [of m "c + 1"] by simp
  qed
qed simp

lemma find_end_nodes:
  "list_all node_ok nds \<Longrightarrow> find_end (length nds + k) (nodes_bytes nds @ p) = find_end k p"
proof (induction nds)
  case (Cons nd nds)
  obtain a where a: "header (node_bytes nd @ nodes_bytes nds @ p) = Ret a" using node_header by blast
  moreover have "\<not> IsDevicePathEnd a" using node_not_end [OF _ a] Cons.prems(1) by (simp add: IsDevicePathEnd_def)
  ultimately show ?case using Cons by simp
qed simp

lemma find_end_mono: "find_end k p = Ret q \<Longrightarrow> k \<le> m \<Longrightarrow> find_end m p = Ret q"
proof (induction k arbitrary: p m)
  case (Suc k)
  then show ?case by (cases m) (auto split: if_splits)
qed simp

lemma find_end_path:
  "is \<noteq> [] \<Longrightarrow> insts_ok is \<Longrightarrow> find_end (length (path_bytes is)) (path_bytes is @ r) = Ret (EndDevicePath @ r)"
proof (induction "is")
  case (Cons i "is")
  show ?case
  proof (cases "is = []")
    case True
    have "find_end (length i + 1) (nodes_bytes i @ EndDevicePath @ r) = Ret (EndDevicePath @ r)"
      using Cons.prems by (subst find_end_nodes) simp_all
    from find_end_mono [OF this, of "length (path_bytes (i # is))"]
    show ?thesis using nodes_length [of i] True by simp
  next
    case False
    have "find_end (length i + Suc (length (path_bytes is))) (nodes_bytes i @ EndInstanceDevicePath @ path_bytes is @ r) = Ret (EndDevicePath @ r)"
      using Cons.prems Cons.IH False by (subst find_end_nodes) simp_all
    from find_end_mono [OF this, of "length (path_bytes (i # is))"]
    show ?thesis using nodes_length [of i] False by (simp add: path_bytes_Cons)
  qed
qed simp

lemma path_ends: "is \<noteq> [] \<Longrightarrow> \<exists>p. path_bytes is = p @ EndDevicePath"
proof (induction "is")
  case (Cons i "is")
  show ?case
  proof (cases "is = []")
    case False
    then obtain p where "path_bytes is = p @ EndDevicePath" using Cons by blast
    then have "path_bytes (i # is) = (nodes_bytes i @ EndInstanceDevicePath @ p) @ EndDevicePath" using False by (simp add: path_bytes_Cons)
    then show ?thesis ..
  qed simp
qed simp

lemma DevicePathSize_path:
  assumes "is \<noteq> []" and "insts_ok is" and "length (path_bytes is) \<le> n"
  shows "DevicePathSize n (path_bytes is @ r) = Ret (of_nat (length (path_bytes is)))"
proof -
  have "4 \<le> length (path_bytes is)" using path_ends [OF assms(1)] by auto
  then have "of_nat (length (path_bytes is) - 4) + 4 = (of_nat (length (path_bytes is)) :: UINTN)" by (simp add: of_nat_diff)
  then show ?thesis
    using find_end_mono [OF find_end_path [OF assms(1,2)] assms(3), of r]
    by (simp add: DevicePathSize_def distance_def)
qed

text \<open>The instances that a client of \<open>DevicePathInstance\<close> sees.\<close>

primrec instances :: "nat \<Rightarrow> UINT8 list option \<Rightarrow> UINT8 list list run" where
  "instances 0 DevicePath = NoFuel"
| "instances (Suc k) DevicePath =
     bind_run (DevicePathInstance DevicePath) (\<lambda>r.
       case r of
         None \<Rightarrow> Ret []
       | Some (Inst, DevicePath', Size) \<Rightarrow> bind_run (instances k DevicePath') (\<lambda>xs. Ret (take (unat Size) Inst # xs)))"

lemma instances_path:
  "is \<noteq> [] \<Longrightarrow> insts_ok is \<Longrightarrow> length (path_bytes is) < 2 ^ 64 \<Longrightarrow> length is < k \<Longrightarrow>
   instances k (Some (path_bytes is @ r)) = Ret (map nodes_bytes is)"
proof (induction "is" arbitrary: k)
  case (Cons i "is")
  obtain m where k: "k = Suc m" using Cons.prems(4) by (cases k) auto
  have u: "unat (of_nat (length (nodes_bytes i)) :: UINTN) = length (nodes_bytes i)"
    using Cons.prems(3) by (simp add: path_bytes_Cons unsigned_of_nat take_bit_nat_eq_self)
  have t: "take (length (nodes_bytes i)) (path_bytes (i # is)) = nodes_bytes i" by (simp add: path_bytes_Cons)
  have s: "length (path_bytes is) < 2 ^ 64" using Cons.prems(3) by (auto simp: path_bytes_Cons split: if_splits)
  show ?case
  proof (cases "is = []")
    case True
    then show ?thesis using Cons.prems k DevicePathInstance_path [of i "[]" r] u t by (cases m) auto
  next
    case False
    then have "instances m (Some (path_bytes is @ r)) = Ret (map nodes_bytes is)"
      using Cons.IH [of m] Cons.prems s k by simp
    then show ?thesis using Cons.prems k DevicePathInstance_path [of i "is" r] u False by (simp add: path_bytes_Cons)
  qed
qed simp

section \<open>Building\<close>

lemma CopyMem_at:
  "k \<le> length src \<Longrightarrow> CopyMem (W @ R) (length W) src k =
     (if k \<le> length R then Ret (W @ take k src @ drop k R) else Fault)"
  by (simp add: CopyMem_def)

lemma CopyMem_all: "k \<le> length src \<Longrightarrow> length b = k \<Longrightarrow> CopyMem b 0 src k = Ret (take k src)"
  by (simp add: CopyMem_def)

lemma unat_len: "l < 2 ^ 64 \<Longrightarrow> unat (of_nat l :: UINTN) = l"
  by (simp add: unsigned_of_nat take_bit_nat_eq_self)

lemma DuplicateDevicePath_path:
  assumes "path_ok is" and "length (path_bytes is) \<le> n" and "pool_blocks A"
  shows "DuplicateDevicePath A n (Some (path_bytes is @ r)) =
     Ret (map_option (\<lambda>_. path_bytes is) (A (of_nat (length (path_bytes is)))))"
proof -
  have "unat (of_nat (length (path_bytes is)) :: UINTN) = length (path_bytes is)"
    using assms(1) by (intro unat_len) (simp add: path_ok_def)
  moreover from this have "length b = length (path_bytes is)" if "A (of_nat (length (path_bytes is))) = Some b" for b
    using assms(3) that by (simp add: pool_blocks_def)
  ultimately show ?thesis
    using DevicePathSize_path [of "is" n r] assms(1,2)
    by (auto simp: DuplicateDevicePath_def path_ok_def CopyMem_all split: option.split)
qed

text \<open>What the loop of \<open>AppendDevicePath\<close> writes, for a second path of bytes \<open>S\<close>.\<close>

definition chunk :: "UINT8 list \<Rightarrow> dp_node list \<Rightarrow> UINT8 list" where
  "chunk S i = nodes_bytes i @ S @ EndInstanceDevicePath"

definition chunks :: "UINT8 list \<Rightarrow> dp_node list list \<Rightarrow> UINT8 list" where
  "chunks S is = concat (map (chunk S) is)"

lemma chunks_simps [simp]: "chunks S [] = []" "chunks S (i # is) = chunk S i @ chunks S is"
  by (simp_all add: chunks_def)

lemma length_chunk [simp]: "length (chunk S i) = length (nodes_bytes i) + length S + 4"
  by (simp add: chunk_def)

lemma length_chunks: "is \<noteq> [] \<Longrightarrow> length (chunks S is) = length (path_bytes is) + length is * length S"
proof (induction "is")
  case (Cons i "is")
  then show ?case by (cases "is = []") (simp_all add: path_bytes_Cons)
qed simp

lemma copy_chunk:
  assumes "list_all node_ok i" and "length i \<le> 513" and "length (path_bytes (i # is)) < 2 ^ 64"
  shows "append_loop (Suc k) (Some (path_bytes (i # is) @ r)) (S @ r2) (length S) (W @ R) (length W) =
     (if length (chunk S i) \<le> length R
      then append_loop k (if is = [] then None else Some (path_bytes is @ r)) (S @ r2) (length S)
        ((W @ chunk S i) @ drop (length (chunk S i)) R) (length (W @ chunk S i))
      else Fault)"
proof -
  let ?N = "nodes_bytes i"
  have u: "unat (of_nat (length ?N) :: UINTN) = length ?N"
    using assms(3) by (intro unat_len) (simp add: path_bytes_Cons)
  have 1: "CopyMem (W @ R) (length W) (path_bytes (i # is) @ r) (length ?N) =
      (if length ?N \<le> length R then Ret ((W @ ?N) @ drop (length ?N) R) else Fault)"
    by (subst CopyMem_at) (simp_all add: path_bytes_Cons)
  have 2: "CopyMem (W @ ?N @ R1) (length W + length ?N) (S @ r2) (length S) =
      (if length S \<le> length R1 then Ret (W @ ?N @ S @ drop (length S) R1) else Fault)" for R1
    using CopyMem_at [of "length S" "S @ r2" "W @ ?N" R1] by simp
  have 3: "CopyMem (W @ ?N @ S @ R1) (length W + length ?N + length S) EndInstanceDevicePath 4 =
      (if 4 \<le> length R1 then Ret (W @ ?N @ S @ EndInstanceDevicePath @ drop 4 R1) else Fault)" for R1
    using CopyMem_at [of 4 EndInstanceDevicePath "W @ ?N @ S" R1] by (simp add: add.assoc)
  have d: "drop 4 (drop (length S) (drop (length ?N) R)) = drop (length (chunk S i)) R" by (simp add: add_ac)
  show ?thesis
  proof (cases "length ?N \<le> length R \<and> length S \<le> length R - length ?N \<and> 4 \<le> length R - length ?N - length S")
    case True
    moreover have "length (chunk S i) \<le> length R" using True unfolding length_chunk by arith
    moreover have C: "W @ chunk S i @ x = W @ ?N @ S @ EndInstanceDevicePath @ x" for x by (simp add: chunk_def)
    moreover have "length (W @ chunk S i) = length W + length ?N + length S + 4" by simp
    ultimately show ?thesis
      unfolding append_loop.simps(2) DevicePathInstance_path [OF assms(1,2)]
      by (simp only: bind_run.simps option.case prod.case u Let_def 1 2 3 d if_True if_False append_assoc length_drop C)
  next
    case False
    then have "\<not> length (chunk S i) \<le> length R" by (auto simp only: length_chunk)
    then show ?thesis using False
      unfolding append_loop.simps(2) DevicePathInstance_path [OF assms(1,2)]
      by (cases "length ?N \<le> length R"; cases "length S \<le> length R - length ?N")
         (simp_all only: bind_run.simps option.case prod.case u Let_def 1 2 3 if_True if_False append_assoc length_drop simp_thms)
  qed
qed

lemma append_loop_path:
  assumes "length (path_bytes is) < 2 ^ 64" and "insts_ok is" and "length is < k"
  shows "append_loop k (if is = [] then None else Some (path_bytes is @ r)) (S @ r2) (length S) (W @ R) (length W) =
    (if length (chunks S is) \<le> length R
     then Ret (W @ chunks S is @ drop (length (chunks S is)) R, length W + length (chunks S is)) else Fault)"
  using assms
proof (induction "is" arbitrary: k W R)
  case Nil
  then show ?case by (cases k) simp_all
next
  case (Cons i "is")
  obtain m where k: "k = Suc m" using Cons.prems(3) by (cases k) auto
  have l: "length (path_bytes is) < 2 ^ 64" using Cons.prems(1) by (simp add: path_bytes_Cons split: if_splits)
  let ?src = "if is = [] then None else Some (path_bytes is @ r)" and ?c = "length (chunk S i)" and ?cs = "length (chunks S is)"
  have step: "append_loop k (Some (path_bytes (i # is) @ r)) (S @ r2) (length S) (W @ R) (length W) =
     (if ?c \<le> length R then append_loop m ?src (S @ r2) (length S) ((W @ chunk S i) @ drop ?c R) (length (W @ chunk S i)) else Fault)"
    unfolding k by (rule copy_chunk) (use Cons.prems in auto)
  have IH: "append_loop m ?src (S @ r2) (length S) ((W @ chunk S i) @ drop ?c R) (length (W @ chunk S i)) =
     (if ?cs \<le> length (drop ?c R)
      then Ret ((W @ chunk S i) @ chunks S is @ drop ?cs (drop ?c R), length (W @ chunk S i) + ?cs) else Fault)"
    by (rule Cons.IH) (use Cons.prems k l in auto)
  have d: "drop ?cs (drop ?c R) = drop (?c + ?cs) R" by (simp add: add_ac)
  show ?case
  proof (cases "?c + ?cs \<le> length R")
    case True
    then have "?c \<le> length R" "?cs \<le> length R - ?c" by simp_all
    with step IH have "append_loop k (Some (path_bytes (i # is) @ r)) (S @ r2) (length S) (W @ R) (length W) =
      Ret ((W @ chunk S i) @ chunks S is @ drop ?cs (drop ?c R), length (W @ chunk S i) + ?cs)" by (simp only: if_True length_drop)
    then show ?thesis using True d
      by (simp only: if_True list.distinct if_False chunks_simps append_assoc length_append add.assoc)
  next
    case False
    then have "\<not> (?c \<le> length R \<and> ?cs \<le> length R - ?c)" by arith
    then have "append_loop k (Some (path_bytes (i # is) @ r)) (S @ r2) (length S) (W @ R) (length W) = Fault" using step IH
      by (cases "?c \<le> length R") (simp_all only: if_False if_True length_drop simp_thms)
    then show ?thesis using False by (simp only: if_False list.distinct chunks_simps length_append)
  qed
qed

lemma path_count: "is \<noteq> [] \<Longrightarrow> 4 * length is \<le> length (path_bytes is)"
proof (induction "is")
  case (Cons i "is")
  then show ?case by (cases "is = []") (simp_all add: path_bytes_Cons)
qed simp

lemma path_okD:
  assumes "path_ok is"
  shows "is \<noteq> []" "insts_ok is" "length (path_bytes is) < 2 ^ 64" "length is < length (path_bytes is)"
    "unat (of_nat (length (path_bytes is)) :: UINTN) = length (path_bytes is)"
proof -
  show "is \<noteq> []" "insts_ok is" and l: "length (path_bytes is) < 2 ^ 64" using assms by (simp_all add: path_ok_def)
  then show "unat (of_nat (length (path_bytes is)) :: UINTN) = length (path_bytes is)" by (intro unat_len)
  have "0 < length is" using \<open>is \<noteq> []\<close> by simp
  then show "length is < length (path_bytes is)" using path_count [OF \<open>is \<noteq> []\<close>] by arith
qed

lemma chunks_end:
  assumes "is \<noteq> []"
  shows "chunks S is = (chunks S (butlast is) @ nodes_bytes (last is) @ S) @ EndInstanceDevicePath"
proof -
  have "chunks S is = chunks S (butlast is @ [last is])" using assms by simp
  then show ?thesis unfolding chunks_def chunk_def by (simp del: append_butlast_last_id)
qed

definition appended_size :: "dp_node list list \<Rightarrow> dp_node list list \<Rightarrow> nat" where
  "appended_size is1 is2 = length (path_bytes is1) * length is1 + length (path_bytes is2)"

lemma AppendDevicePath_path:
  assumes ok: "path_ok is1" "path_ok is2" and A: "pool_blocks A" "A (of_nat (appended_size is1 is2)) = Some b"
    and size: "appended_size is1 is2 < 2 ^ 64"
    and fuel: "length (path_bytes is1) \<le> n" "length (path_bytes is2) \<le> n"
  defines "X \<equiv> chunks (path_bytes is2) (butlast is1) @ nodes_bytes (last is1) @ path_bytes is2"
  shows "AppendDevicePath A n (Some (path_bytes is1 @ r1)) (Some (path_bytes is2 @ r2)) =
     (if length is1 = 1 \<or> length (path_bytes is2) \<le> length (path_bytes is1)
      then Ret (Some (X @ EndDevicePath @ drop (length X + 4) b)) else Fault)"
proof -
  let ?P1 = "path_bytes is1" and ?P2 = "path_bytes is2" and ?C = "chunks (path_bytes is2) is1"
  note o1 = path_okD [OF ok(1)] and o2 = path_okD [OF ok(2)]
  have C: "?C = X @ EndInstanceDevicePath" unfolding X_def by (rule chunks_end [OF o1(1)])
  then have lC: "length ?C = length X + 4" by simp
  have lb: "length b = appended_size is1 is2" using A unat_len [OF size] by (simp add: pool_blocks_def)
  have "1 \<le> length is1" using o1(1) by (cases is1) auto
  then obtain m where m: "length is1 = Suc m" by (cases "length is1") auto
  have fits: "length ?C \<le> length b \<longleftrightarrow> length is1 = 1 \<or> length ?P2 \<le> length ?P1"
    unfolding lb length_chunks [OF o1(1)] appended_size_def m by (auto simp: algebra_simps)
  have loop: "append_loop n (Some (?P1 @ r1)) (?P2 @ r2) (length ?P2) b 0 =
     (if length ?C \<le> length b then Ret (?C @ drop (length ?C) b, length ?C) else Fault)"
    using append_loop_path [of is1 n r1 ?P2 r2 "[]" b] o1 fuel by simp
  have last: "CopyMem (?C @ drop (length ?C) b) (length ?C - 4) EndDevicePath 4 = Ret (X @ EndDevicePath @ drop (length ?C) b)"
    using CopyMem_at [of 4 EndDevicePath X "EndInstanceDevicePath @ drop (length ?C) b"] by (simp add: C)
  have prod: "of_nat (length ?P1) * of_nat (length is1) + of_nat (length ?P2) = (of_nat (appended_size is1 is2) :: UINTN)"
    by (simp add: appended_size_def)
  have "instance_count_loop n 0 (Some (?P1 @ r1)) = Ret (0 + of_nat (length is1))"
    by (rule instance_count_path) (use o1 fuel in simp_all)
  then have "AppendDevicePath A n (Some (?P1 @ r1)) (Some (?P2 @ r2)) =
     bind_run (append_loop n (Some (?P1 @ r1)) (?P2 @ r2) (length ?P2) b 0) (\<lambda>(Dst, DstPos).
       bind_run (CopyMem Dst (DstPos - 4) EndDevicePath 4) (\<lambda>Dst. Ret (Some Dst)))"
    using DevicePathSize_path [OF o1(1,2) fuel(1)] DevicePathSize_path [OF o2(1,2) fuel(2)]
    by (simp add: AppendDevicePath_def DevicePathInstanceCount_def prod A(2) o2(5))
  then show ?thesis using loop last lC fits by simp
qed

text \<open>Seen as a path, the result has the second path behind the first instance only.\<close>

lemma joined_prefix:
  assumes "is1 \<noteq> []" and "is2 \<noteq> []"
  shows "\<exists>t. chunks (path_bytes is2) (butlast is1) @ nodes_bytes (last is1) @ path_bytes is2 =
     path_bytes ((hd is1 @ hd is2) # tl is2) @ t"
proof -
  have j: "nodes_bytes (hd is1) @ path_bytes is2 @ t = path_bytes ((hd is1 @ hd is2) # tl is2) @ t" for t
    using assms(2) by (cases is2) (simp_all add: path_bytes_Cons)
  obtain i "is" where i: "is1 = i # is" using assms(1) by (cases is1) auto
  show ?thesis
  proof (cases "is = []")
    case True
    then show ?thesis using j [of "[]"] i by simp
  next
    case False
    let ?t = "EndInstanceDevicePath @ chunks (path_bytes is2) (butlast is) @ nodes_bytes (last is) @ path_bytes is2"
    have "chunks (path_bytes is2) (butlast is1) @ nodes_bytes (last is1) @ path_bytes is2 = nodes_bytes (hd is1) @ path_bytes is2 @ ?t"
      using False i by (simp add: chunk_def)
    then show ?thesis unfolding j ..
  qed
qed

lemma AppendDevicePathInstance_path:
  assumes ok: "path_ok is1" "path_ok is2" "path_ok (is1 @ is2)" and A: "pool_blocks A"
    "A (of_nat (length (path_bytes is1) + length (path_bytes is2))) \<noteq> None"
    and fuel: "length (path_bytes is1) \<le> n" "length (path_bytes is2) \<le> n"
  shows "AppendDevicePathInstance A n (Some (path_bytes is1 @ r1)) (path_bytes is2 @ r2) = Ret (Some (path_bytes (is1 @ is2)))"
proof -
  let ?P1 = "path_bytes is1" and ?P2 = "path_bytes is2"
  note o1 = path_okD [OF ok(1)] and o2 = path_okD [OF ok(2)]
  obtain p where p: "?P1 = p @ EndDevicePath" using path_ends [OF o1(1)] by blast
  have joined: "path_bytes (is1 @ is2) = p @ EndInstanceDevicePath @ ?P2" if "?P1 = p @ EndDevicePath" for p
    using o1(1) that
  proof (induction is1 arbitrary: p)
    case (Cons i "is")
    show ?case
    proof (cases "is = []")
      case True
      then show ?thesis using Cons.prems o2(1) by (simp add: path_bytes_Cons)
    next
      case False
      obtain q where q: "path_bytes is = q @ EndDevicePath" using path_ends [OF False] by blast
      then have "p = nodes_bytes i @ EndInstanceDevicePath @ q" using Cons.prems(2) False
        by (simp add: path_bytes_Cons flip: append_assoc)
      then show ?thesis using Cons.IH [OF False q] False by (simp add: path_bytes_Cons)
    qed
  qed simp
  from A(2) obtain b where b: "A (of_nat (length ?P1) + of_nat (length ?P2)) = Some b" by auto
  have len: "length (path_bytes (is1 @ is2)) = length ?P1 + length ?P2" using joined [OF p] by (simp add: p)
  then have lb: "length b = length ?P1 + length ?P2"
    using A(1) b path_okD(5) [OF ok(3)] by (simp add: pool_blocks_def)
  let ?R = "drop (length ?P1) b"
  have c1: "CopyMem b 0 (?P1 @ r1) (length ?P1) = Ret (?P1 @ ?R)"
    using lb by (simp add: CopyMem_def)
  have e: "find_end n (?P1 @ ?R) = Ret (EndDevicePath @ ?R)"
    by (rule find_end_mono [OF find_end_path [OF o1(1,2)] fuel(1)])
  have c2: "CopyMem (?P1 @ ?R) (length p + 1) [1] 1 = Ret (p @ EndInstanceDevicePath @ ?R)"
    using CopyMem_at [of 1 "[1]" "p @ [0x7f]" "[0xff, 4, 0] @ ?R"] by (simp add: p EndDevicePath_def EndInstanceDevicePath_def)
  have c3: "CopyMem (p @ EndInstanceDevicePath @ ?R) (length p + 4) (?P2 @ r2) (length ?P2) =
      Ret (path_bytes (is1 @ is2))"
    using CopyMem_at [of "length ?P2" "?P2 @ r2" "p @ EndInstanceDevicePath" ?R] lb by (simp add: joined [OF p] p)
  have d: "distance (?P1 @ ?R) (EndDevicePath @ ?R) = length p"
    and h: "drop (length p) (p @ EndInstanceDevicePath @ ?R) = EndInstanceDevicePath @ ?R" by (simp_all add: p distance_def)
  show ?thesis
    unfolding AppendDevicePathInstance_def option.case
      DevicePathSize_path [OF o1(1,2) fuel(1)] DevicePathSize_path [OF o2(1,2) fuel(2)] bind_run.simps b o1(5) o2(5) c1 e Let_def d c2
      h header_node node_length c3 ..
qed

lemma AppendDevicePathNode_path:
  assumes "node_ok nd" and A: "pool_blocks A" "A (of_nat (length (path_bytes [[nd]]))) \<noteq> None"
  shows "AppendDevicePathNode A n Src1 (node_bytes nd @ r) = AppendDevicePath A n Src1 (Some (path_bytes [[nd]]))"
proof -
  obtain t st d where nd: "nd = (t, st, d)" by (cases nd)
  have l: "4 + length d < 65536" using assms(1) nd by simp
  have "length (path_bytes [[nd]]) = 4 + length d + 4" by (simp add: nd del: node_bytes.simps)
  then obtain b where b: "A (of_nat (4 + length d) + of_nat 4) = Some b" using A(2) by auto
  have "unat (of_nat (4 + length d + 4) :: UINTN) = 4 + length d + 4" by (rule unat_len) (use l in simp)
  then have lb: "length b = 4 + length d + 4" using A(1) b by (simp add: pool_blocks_def)
  have c1: "CopyMem b 0 (node_bytes nd @ r) (4 + length d) = Ret (node_bytes nd @ drop (4 + length d) b)"
    using CopyMem_at [of "4 + length d" "node_bytes nd @ r" "[]" b] lb by (simp add: nd del: node_bytes.simps)
  have c2: "CopyMem (node_bytes nd @ drop (4 + length d) b) (4 + length d) EndDevicePath 4 = Ret (path_bytes [[nd]])"
    using CopyMem_at [of 4 EndDevicePath "node_bytes nd" "drop (4 + length d) b"] lb by (simp add: nd del: node_bytes.simps)
  show ?thesis
    unfolding AppendDevicePathNode_def c1 [unfolded nd] c2 [unfolded nd] nd header_node bind_run.simps node_length(1) [OF l] Let_def b option.case ..
qed

section \<open>Properties\<close>

text \<open>
  C36: well-formed paths are read and joined as they were written. On the bytes of a list of instances,
  whatever follows them, \<open>DevicePathSize\<close> is their number, \<open>DevicePathInstanceCount\<close> the number of instances
  and \<open>DevicePathInstance\<close> returns one instance after the other; and \<open>AppendDevicePathInstance\<close> returns the
  bytes of the two lists of instances appended.
\<close>

theorem device_path_roundtrip:
  assumes "path_ok is1" and "path_ok is2" and "path_ok (is1 @ is2)" and "pool_blocks A"
    and "A (of_nat (length (path_bytes is1) + length (path_bytes is2))) \<noteq> None"
    and "length (path_bytes is1) \<le> n" and "length (path_bytes is2) \<le> n"
  shows "DevicePathSize n (path_bytes is1 @ r1) = Ret (of_nat (length (path_bytes is1))) \<and>
     DevicePathInstanceCount n (Some (path_bytes is1 @ r1)) = Ret (of_nat (length is1)) \<and>
     instances n (Some (path_bytes is1 @ r1)) = Ret (map nodes_bytes is1) \<and>
     AppendDevicePathInstance A n (Some (path_bytes is1 @ r1)) (path_bytes is2 @ r2) = Ret (Some (path_bytes (is1 @ is2)))"
proof -
  note ok = path_okD [OF assms(1)]
  have "length is1 < n" using ok(4) assms(6) by simp
  then show ?thesis
    using DevicePathSize_path [OF ok(1,2) assms(6)] instance_count_path [OF ok(1,2), of n 0] instances_path [OF ok(1-3)]
      AppendDevicePathInstance_path [OF assms]
    by (simp add: DevicePathInstanceCount_def)
qed

text \<open>A PCI node, a hard disk node and a file system with every block available, for the examples.\<close>

definition pci_node :: dp_node where "pci_node = (1, 1, [2, 31])"
definition disk_node :: dp_node where "disk_node = (4, 1, replicate 38 7)"
definition fresh_blocks :: pool_alloc where "fresh_blocks Size = Some (replicate (unat Size) 0xAF)"

lemma fresh_blocks_ok: "pool_blocks fresh_blocks" "fresh_blocks Size \<noteq> None"
  by (auto simp: pool_blocks_def fresh_blocks_def)

lemma sample_paths_ok: "path_ok [[pci_node]]" "path_ok [[pci_node], [pci_node]]" "path_ok [[disk_node]]" "path_ok [[pci_node], [disk_node]]"
  by (simp_all add: path_ok_def pci_node_def disk_node_def length_bytes_def EndDevicePath_def EndInstanceDevicePath_def)

lemma sample_lengths: "length (path_bytes [[pci_node]]) = 10" "length (path_bytes [[disk_node]]) = 46"
  "length (path_bytes [[pci_node], [pci_node]]) = 20" "length (node_bytes pci_node) = 6" "length (node_bytes disk_node) = 42"
  by (simp_all add: pci_node_def disk_node_def length_bytes_def EndDevicePath_def EndInstanceDevicePath_def)

theorem device_path_roundtrip_witness:
  "instances 60 (Some (path_bytes [[pci_node]])) = Ret [[1, 1, 6, 0, 2, 31]] \<and>
   AppendDevicePathInstance fresh_blocks 60 (Some (path_bytes [[pci_node]])) (path_bytes [[disk_node]]) =
     Ret (Some (path_bytes [[pci_node], [disk_node]]))"
  using device_path_roundtrip [of "[[pci_node]]" "[[disk_node]]" fresh_blocks 60 "[]" "[]"] sample_paths_ok fresh_blocks_ok
  by (simp add: sample_lengths del: path_bytes.simps) (simp add: pci_node_def length_bytes_def)

text \<open>
  C37: \<open>AppendDevicePath\<close> is right for a first path of one instance only. The comment promises that the
  second path is appended to every instance of the first one, but it is copied with its end marker, so the
  result, read as a path, has it behind the first instance and nothing after it. The size of the
  buffer multiplies the wrong one of the two sizes: with two instances or more and a longer second
  path the copy runs out of the block. \<open>AppendDevicePathNode\<close> is \<open>AppendDevicePath\<close> with the path of the one node.
\<close>

theorem append_device_path_first_instance:
  assumes "path_ok is1" and "path_ok is2" and "length (hd is1) + length (hd is2) \<le> 513" and "pool_blocks A"
    and "A (of_nat (appended_size is1 is2)) \<noteq> None" and "appended_size is1 is2 < 2 ^ 64"
    and "length (path_bytes is1) + length (path_bytes is2) \<le> n"
    and "node_ok nd" and "A (of_nat (length (path_bytes [[nd]]))) \<noteq> None"
  shows "(if length is1 = 1 \<or> length (path_bytes is2) \<le> length (path_bytes is1)
      then \<exists>b. AppendDevicePath A n (Some (path_bytes is1 @ r1)) (Some (path_bytes is2 @ r2)) = Ret (Some b) \<and>
           instances n (Some b) = Ret (map nodes_bytes ((hd is1 @ hd is2) # tl is2))
      else AppendDevicePath A n (Some (path_bytes is1 @ r1)) (Some (path_bytes is2 @ r2)) = Fault) \<and>
     AppendDevicePathNode A n (Some (path_bytes is1 @ r1)) (node_bytes nd @ r2) =
       AppendDevicePath A n (Some (path_bytes is1 @ r1)) (Some (path_bytes [[nd]]))"
proof -
  note ok1 = path_okD [OF assms(1)] and ok2 = path_okD [OF assms(2)]
  let ?j = "(hd is1 @ hd is2) # tl is2"
  obtain b where b: "A (of_nat (appended_size is1 is2)) = Some b" using assms(5) by auto
  obtain t where t: "chunks (path_bytes is2) (butlast is1) @ nodes_bytes (last is1) @ path_bytes is2 = path_bytes ?j @ t"
    using joined_prefix [OF ok1(1) ok2(1)] by blast
  have "insts_ok ?j" using ok1(1,2) ok2(1,2) assms(3) by (cases is1; cases is2) auto
  moreover have "length (path_bytes ?j) < 2 ^ 64"
  proof -
    have "length (path_bytes ?j) = length (nodes_bytes (hd is1)) + length (path_bytes is2)"
      using ok2(1) by (cases is2) (simp_all add: path_bytes_Cons)
    also have "\<dots> \<le> length (path_bytes is1) + length (path_bytes is2)" using ok1(1) by (cases is1) (simp_all add: path_bytes_Cons)
    also have "\<dots> \<le> appended_size is1 is2" using ok1(1) by (cases is1) (simp_all add: appended_size_def)
    finally show ?thesis using assms(6) by simp
  qed
  moreover have "length ?j < n" using ok1(4) ok2(1,4) assms(7) by (cases is2) auto
  ultimately have seen: "instances n (Some (path_bytes ?j @ x)) = Ret (map nodes_bytes ?j)" for x
    by (intro instances_path) simp_all
  obtain u where "AppendDevicePath A n (Some (path_bytes is1 @ r1)) (Some (path_bytes is2 @ r2)) =
     (if length is1 = 1 \<or> length (path_bytes is2) \<le> length (path_bytes is1) then Ret (Some (path_bytes ?j @ u)) else Fault)"
    using AppendDevicePath_path [OF assms(1,2,4) b assms(6), of n r1 r2] assms(7) unfolding t append_assoc by auto
  then show ?thesis
    using seen [of u] AppendDevicePathNode_path [OF assms(8,4,9), of n "Some (path_bytes is1 @ r1)" r2]
    by (simp only: if_True if_False split: if_split) blast
qed

theorem append_device_path_first_instance_witness:
  "AppendDevicePath fresh_blocks 70 (Some (path_bytes [[pci_node], [pci_node]])) (Some (path_bytes [[disk_node]])) = Fault \<and>
   (\<exists>b. AppendDevicePath fresh_blocks 70 (Some (path_bytes [[pci_node], [pci_node]])) (Some (path_bytes [[pci_node]])) = Ret (Some b) \<and>
      instances 70 (Some b) = Ret [nodes_bytes [pci_node, pci_node]])"
proof -
  have s: "appended_size [[pci_node], [pci_node]] [[disk_node]] = 86" "appended_size [[pci_node], [pci_node]] [[pci_node]] = 50"
    by (simp_all add: appended_size_def sample_lengths)
  have n: "node_ok pci_node" by (simp add: pci_node_def)
  show ?thesis
    using append_device_path_first_instance [OF sample_paths_ok(2,3) _ fresh_blocks_ok(1,2) _ _ n fresh_blocks_ok(2), of 70 "[]" "[]"]
      append_device_path_first_instance [OF sample_paths_ok(2,1) _ fresh_blocks_ok(1,2) _ _ n fresh_blocks_ok(2), of 70 "[]" "[]"]
    by (simp add: s sample_lengths del: path_bytes.simps)
qed

end
