(* ===== verification/DevicePathLocate.thy ===== *)
theory DevicePathLocate
  imports DevicePathHandles DevicePathProps ProtocolServices HandleLocate "HOL-Library.Sublist"
begin

text \<open>
  \<open>LocateDevicePath\<close> finds the handle with the longest device path that is the beginning of the path asked for.
\<close>

section \<open>The bytes of a prefix\<close>

lemma node_parse:
  assumes "node_ok a" and "node_ok b" and eq: "node_bytes a @ x = node_bytes b @ y"
  shows "a = b \<and> x = y"
proof -
  obtain t st d where a: "a = (t, st, d)" by (cases a)
  obtain t' st' d' where b: "b = (t', st', d')" by (cases b)
  have l: "4 + length d < 65536" "4 + length d' < 65536" using assms(1,2) a b by simp_all
  have h: "header (node_bytes a @ x) = header (node_bytes b @ y)" using eq by simp
  then have h': "\<lparr>dp_Type = t, dp_SubType = st, dp_Length = (of_nat (4 + length d), of_nat ((4 + length d) div 256))\<rparr> =
      \<lparr>dp_Type = t', dp_SubType = st', dp_Length = (of_nat (4 + length d'), of_nat ((4 + length d') div 256))\<rparr>"
    unfolding a b header_node by (simp only: run.inject)
  have "length d = length d'" using arg_cong [OF h', of DevicePathNodeLength] unfolding node_length(1) [OF l(1)] node_length(1) [OF l(2)] by simp
  then show ?thesis using eq h' a b by (simp add: length_bytes_def)
qed

lemma nodes_prefix:
  assumes "list_all node_ok i" and "list_all node_ok src"
  shows "length (nodes_bytes i) \<le> length (nodes_bytes src) \<and> take (length (nodes_bytes i)) (nodes_bytes src @ x) = nodes_bytes i \<longleftrightarrow> prefix i src"
  using assms
proof (induction i arbitrary: src)
  case (Cons a i)
  have a4: "4 \<le> length (node_bytes a)" by (cases a) (simp del: node_bytes.simps)
  show ?case
  proof (cases src)
    case Nil
    then show ?thesis using a4 by auto
  next
    case (Cons b src')
    have ok: "node_ok a" "node_ok b" "list_all node_ok src'" using Cons.prems Cons by simp_all
    let ?k = "length (nodes_bytes (a # i))"
    have "take ?k (nodes_bytes src @ x) = nodes_bytes (a # i) \<and> ?k \<le> length (nodes_bytes src) \<longleftrightarrow>
       a = b \<and> take (length (nodes_bytes i)) (nodes_bytes src' @ x) = nodes_bytes i \<and> length (nodes_bytes i) \<le> length (nodes_bytes src')"
    proof
      assume l: "take ?k (nodes_bytes src @ x) = nodes_bytes (a # i) \<and> ?k \<le> length (nodes_bytes src)"
      obtain t where t: "t = drop ?k (nodes_bytes src @ x)" by simp
      have "nodes_bytes (a # i) @ t = nodes_bytes src @ x"
        unfolding t using append_take_drop_id [of ?k "nodes_bytes src @ x"] l by (simp only:)
      then have "node_bytes a @ nodes_bytes i @ t = node_bytes b @ nodes_bytes src' @ x" using Cons by simp
      from node_parse [OF ok(1,2) this] have ab: "a = b" "nodes_bytes i @ t = nodes_bytes src' @ x" by simp_all
      have "take (length (nodes_bytes i)) (nodes_bytes src' @ x) = nodes_bytes i" by (simp flip: ab(2))
      moreover have "length (nodes_bytes i) \<le> length (nodes_bytes src')" using l Cons ab(1) by simp
      ultimately show "a = b \<and> take (length (nodes_bytes i)) (nodes_bytes src' @ x) = nodes_bytes i \<and> length (nodes_bytes i) \<le> length (nodes_bytes src')"
        using ab(1) by blast
    qed (use Cons in auto)
    then show ?thesis using Cons.IH [of src'] Cons.prems ok Cons by auto
  qed
qed simp

lemma same_bytes_take: "k \<le> length a \<Longrightarrow> k \<le> length b \<Longrightarrow> same_bytes k a b = Ret (take k a = take k b)"
proof (induction k arbitrary: a b)
  case (Suc k)
  then show ?case by (cases a; cases b) auto
qed simp

section \<open>The best match\<close>

definition better :: "dp_node list \<Rightarrow> UINTN \<Rightarrow> dp_node list \<Rightarrow> UINTN \<times> UINTN \<Rightarrow> UINTN \<times> UINTN" where
  "better src h i best =
     (if prefix i src \<and> sint (fst best) < int (length (nodes_bytes i)) then (of_nat (length (nodes_bytes i)), h) else best)"

definition matches :: "dp_node list \<Rightarrow> (UINTN \<times> dp_node list) set \<Rightarrow> (UINTN \<times> dp_node list) set" where
  "matches src C = {x \<in> C. prefix (snd x) src}"

definition best_of :: "dp_node list \<Rightarrow> (UINTN \<times> dp_node list) set \<Rightarrow> UINTN \<times> UINTN \<Rightarrow> bool" where
  "best_of src C best \<longleftrightarrow>
     (if matches src C = {} then best = (- 1, 0)
      else \<exists>x\<in>matches src C. best = (of_nat (length (nodes_bytes (snd x))), fst x) \<and>
             (\<forall>y\<in>matches src C. length (nodes_bytes (snd y)) \<le> length (nodes_bytes (snd x))))"

lemma matches_insert:
  "matches src (insert (h, i) C) = (if prefix i src then insert (h, i) (matches src C) else matches src C)"
  by (auto simp: matches_def)

lemma sint_len: "l < 2 ^ 63 \<Longrightarrow> sint (of_nat l :: UINTN) = int l"
  by (simp add: signed_of_nat signed_take_bit_int_eq_self)

lemma prefix_length: "prefix i src \<Longrightarrow> length (nodes_bytes i) \<le> length (nodes_bytes src)"
  by (auto simp: prefix_def)

lemma best_step:
  assumes "best_of src C best" and "length (nodes_bytes src) < 2 ^ 63"
  shows "best_of src (insert (h, i) C) (better src h i best)"
proof (cases "prefix i src")
  case False
  then show ?thesis using assms(1) by (simp add: best_of_def better_def matches_insert)
next
  case True
  let ?l = "\<lambda>x. length (nodes_bytes (snd x))"
  show ?thesis
  proof (cases "matches src C = {}")
    case none: True
    then have "better src h i best = (of_nat (length (nodes_bytes i)), h)" using assms(1) True by (simp add: best_of_def better_def)
    then show ?thesis using none True by (simp add: best_of_def matches_insert)
  next
    case False
    then obtain x where x: "x \<in> matches src C" "best = (of_nat (?l x), fst x)" "\<forall>y\<in>matches src C. ?l y \<le> ?l x"
      using assms(1) unfolding best_of_def by auto
    have "prefix (snd x) src" using x(1) by (simp add: matches_def)
    then have l: "?l x < 2 ^ 63" using prefix_length assms(2) by (meson le_less_trans)
    then have "better src h i best = (if ?l x < length (nodes_bytes i) then (of_nat (length (nodes_bytes i)), h) else best)"
      using True x(2) sint_len [OF l] by (simp add: better_def)
    then show ?thesis
      using x True by (cases "?l x < length (nodes_bytes i)") (fastforce simp: best_of_def matches_insert)+
  qed
qed

lemma best_steps:
  "best_of src C best \<Longrightarrow> length (nodes_bytes src) < 2 ^ 63 \<Longrightarrow>
   best_of src (Pair h ` set is \<union> C) (fold (better src h) is best)"
proof (induction "is" arbitrary: C best)
  case (Cons i "is")
  have "Pair h ` set (i # is) \<union> C = Pair h ` set is \<union> insert (h, i) C" by auto
  then show ?case using Cons.IH [OF best_step [OF Cons.prems] Cons.prems(2)] by simp
qed simp

text \<open>The search through the instances of one path.\<close>

lemma match_instances_path:
  assumes src: "list_all node_ok src" "length (nodes_bytes src) < 2 ^ 63"
  shows "insts_ok is \<Longrightarrow> length (path_bytes is) < 2 ^ 63 \<Longrightarrow> length is < k \<Longrightarrow>
     match_instances k (path_bytes [src] @ r) (of_nat (length (nodes_bytes src))) h
       (if is = [] then None else Some (path_bytes is @ r2)) best = Ret (fold (better src h) is best)"
proof (induction "is" arbitrary: k best)
  case Nil
  then show ?case by (cases k) simp_all
next
  case (Cons i "is")
  obtain m where k: "k = Suc m" using Cons.prems(3) by (cases k) auto
  let ?N = "nodes_bytes i" and ?P = "path_bytes (i # is) @ r2" and ?src = "if is = [] then None else Some (path_bytes is @ r2)"
  have ok: "list_all node_ok i" "length i \<le> 513" using Cons.prems(1) by simp_all
  have l: "length ?N < 2 ^ 63" "length (path_bytes is) < 2 ^ 63" using Cons.prems(2) by (simp_all add: path_bytes_Cons split: if_splits)
  have len: "sint (of_nat (length ?N) :: UINTN) \<le> sint (of_nat (length (nodes_bytes src)) :: UINTN) \<longleftrightarrow> length ?N \<le> length (nodes_bytes src)"
    by (simp only: sint_len [OF l(1)] sint_len [OF src(2)] of_nat_le_iff)
  have u: "unat (of_nat (length ?N) :: UINTN) = length ?N" by (rule unat_len) (use l in simp)
  have tk: "take (length ?N) ?P = ?N" "\<exists>a. header (drop (length ?N) ?P) = Ret a \<and> IsDevicePathEndType a"
    by (simp_all add: path_bytes_Cons)
  have same: "same_bytes (length ?N) (path_bytes [src] @ r) ?P = Ret (take (length ?N) (path_bytes [src] @ r) = ?N)"
    if "length ?N \<le> length (nodes_bytes src)"
    using same_bytes_take [of "length ?N" "path_bytes [src] @ r" ?P] that tk(1) by (simp add: path_bytes_Cons)
  have pre: "prefix i src \<longleftrightarrow> length ?N \<le> length (nodes_bytes src) \<and> take (length ?N) (path_bytes [src] @ r) = ?N"
    using nodes_prefix [OF ok(1) src(1), of "EndDevicePath @ r"] by simp
  obtain a where a: "header (drop (length ?N) ?P) = Ret a" "IsDevicePathEndType a" using tk(2) by blast
  have step: "(if sint (of_nat (length ?N) :: UINTN) \<le> sint (of_nat (length (nodes_bytes src)) :: UINTN)
      then bind_run (same_bytes (length ?N) (path_bytes [src] @ r) ?P) (\<lambda>eq.
        if eq then bind_run (header (drop (length ?N) ?P)) (\<lambda>Eop.
          Ret (if IsDevicePathEndType Eop \<and> sint (fst best) < sint (of_nat (length ?N) :: UINTN) then (of_nat (length ?N), h) else best))
        else Ret best)
      else Ret best) = Ret (better src h i best)"
  proof (cases "length ?N \<le> length (nodes_bytes src)")
    case True
    show ?thesis unfolding len [unfolded sint_len [OF l(1)]] better_def pre sint_len [OF l(1)] same [OF True] bind_run.simps
      using True a by (simp only: if_True simp_thms bind_run.simps split: if_split) blast
  next
    case False
    then show ?thesis unfolding len better_def pre by (simp only: if_False simp_thms)
  qed
  have IH: "match_instances m (path_bytes [src] @ r) (of_nat (length (nodes_bytes src))) h ?src (better src h i best) =
      Ret (fold (better src h) is (better src h i best))"
    by (rule Cons.IH) (use Cons.prems(1,3) l(2) k in simp_all)
  show ?case
    by (simp only: k match_instances.simps(2) list.distinct if_False DevicePathInstance_path [OF ok] bind_run.simps option.case prod.case u
        step IH fold_simps)
qed

section \<open>The handles\<close>

lemma LocateHandle_inv:
  assumes "LocateHandle cb n t g k Size B s = Ret (r, s')" and "quiet s" and "2 \<le> n" and "hand_inv (db s)"
  shows "hand_inv (db s')"
proof -
  obtain h where h: "locate_body t g k Size B (db s) = Ret (r, h)" "db s' = h"
    using assms(1) by (auto simp: LocateHandle_def with_database_quiet [OF assms(2,3)])
  then show ?thesis using locate_body_kept [OF assms(4), of t g k Size B] by (simp add: kept_def)
qed

lemma LocateHandle_pool:
  assumes "LocateHandle cb n t g k Size B s = Ret (r, s')" and "quiet s" and "2 \<le> n"
  shows "same_pool (exec.more s) (exec.more s')"
proof -
  obtain h where s': "s' = left (upd_db (\<lambda>_. h) (AcquireLock ProtocolDatabaseLock s))"
    using assms(1) by (auto simp: LocateHandle_def with_database_quiet [OF assms(2,3)])
  have "exec.more s' = exec.more (upd_db (\<lambda>_. h) (AcquireLock ProtocolDatabaseLock s))" unfolding s' by (simp add: left_def released_def)
  then show ?thesis by simp
qed

lemma same_but_requests_represents:
  assumes "same_but_requests h h'" and "represents h M"
  shows "represents h' M"
proof (rule represents_cong [OF _ _ _ assms(2)])
  show "Handles h' a = None \<longleftrightarrow> Handles h a = None" for a
    using assms(1) unfolding same_but_requests_def by (metis option.map_disc_iff)
qed (use assms(1) in \<open>simp_all add: same_but_requests_def\<close>)

text \<open>No request is marked with the next number, and the database is not of astronomic size.\<close>

definition fresh_request :: "'z hand_scheme \<Rightarrow> bool" where
  "fresh_request h \<longleftrightarrow> (\<forall>a H. Handles h a = Some H \<longrightarrow> IHLocateRequest H \<noteq> EfiLocateHandleRequest h + 1)"

text \<open>The handles of a protocol, from the abstract map, fit into the first buffer when there are at most 50.\<close>

lemma LibLocateHandle_quiet:
  assumes q: "quiet s" and n: "2 \<le> n" and inv: "hand_inv (db s)" and rep: "represents (db s) M" and rt: "\<not> EfiAtRuntime s"
    and mem: "mem_inv K D V (exec.more s)" "at_hand K EfiBootServicesData 3 (exec.more s)"
    and new: "fresh_request (db s)" and few: "length (HandleList (db s)) \<le> 50"
  shows "\<exists>st b' hs s'. LibLocateHandle (core_services cb n con dis) cb n ByProtocol (Some g) 0 s = Ret ((st, of_nat (length hs), b', hs), s') \<and>
     set hs = {a. \<exists>m i. M a = Some m \<and> m g = Some i} \<and> length hs \<le> 50 \<and> exec_frame s s' \<and> hand_inv (db s') \<and> represents (db s') M \<and>
     (b' = 0 \<or> releasable {b'} (exec.more s'))"
proof -
  let ?bs = "core_services cb n con dis"
  have i: "SIZE_TO_LIST (ALIGN_VARIABLE 400 + POOL_OVERHEAD) = 3" by (simp add: SIZE_TO_LIST_def ALIGN_VARIABLE_def)
  obtain b s0 where alloc: "AllocatePool ?bs 400 s = Ret (b, s0)" "b \<noteq> 0" "db s0 = db s" "in_frame s s0" "releasable {b} (exec.more s0)"
    by (rule AllocatePool_at_hand [OF q n rt mem(1), of 400 cb con dis]) (use mem(2) i in simp_all)
  obtain m where m: "n = Suc (Suc m)" using n by (metis numeral_2_eq_2 Suc_le_D Suc_le_mono)
  have q0: "quiet s0" using in_frame_quiet [OF alloc(4)] q by simp
  obtain hs s1 where L: "LocateHandle cb n ByProtocol (Some g) 0 400 True s0 =
       Ret ((locate_status hs 400, if no_entry (Some g) (db s0) then 400 else of_nat (8 * length hs), take 50 hs), s1)"
      "distinct hs" "set hs = located ByProtocol (Some g) (db s0)" "exec_frame s0 s1" "same_but_requests (db s0) (db s1)"
    using LocateHandle_quiet [OF q0 n, of ByProtocol "Some g" cb 0 400] inv alloc(3) new few by (auto simp: fresh_request_def)
  have inv1: "hand_inv (db s1)" by (rule LocateHandle_inv [OF L(1) q0 n]) (use inv alloc(3) in simp)
  have rep1: "represents (db s1) M" by (rule same_but_requests_represents [OF L(5)]) (use rep alloc(3) in simp)
  have f1: "exec_frame s s1" using exec_frame_trans [OF _ L(4)] alloc(4) by (simp add: in_frame_def)
  have r1: "releasable {b} (exec.more s1)" by (rule releasable_pool [OF alloc(5) LocateHandle_pool [OF L(1) q0 n]])
  have q1: "quiet s1" "\<not> EfiAtRuntime s1" using exec_frame_quiet [OF f1] f1 q rt by (simp_all add: exec_frame_def)
  have set: "set hs = {a. \<exists>m i. M a = Some m \<and> m g = Some i}"
  proof (intro set_eqI)
    fix a
    have "a \<in> set hs \<longleftrightarrow> (\<exists>p X. offers (db s) a g p X)" using L(3) alloc(3) by (simp add: located_def)
    also have "\<dots> \<longleftrightarrow> (\<exists>m i. M a = Some m \<and> m g = Some i)"
    proof (cases "M a")
      case None
      then have "Handles (db s) a = None" using representsD(1) [OF rep] by simp
      then show ?thesis using None handles_okD(6) [OF hand_invD(1) [OF inv]] by (fastforce simp: offers_def)
    next
      case (Some m)
      then show ?thesis using representsD(2) [OF rep Some, of g] by auto
    qed
    finally show "a \<in> set hs \<longleftrightarrow> a \<in> {a. \<exists>m i. M a = Some m \<and> m g = Some i}" by simp
  qed
  have "set hs \<subseteq> dom M" using set by auto
  then have "set hs \<subseteq> set (HandleList (db s))"
    using rep handles_okD(2) [OF hand_invD(1) [OF inv]] by (simp add: represents_def)
  then have "card (set hs) \<le> card (set (HandleList (db s)))" by (intro card_mono) simp_all
  then have l: "length hs \<le> 50" using distinct_card [OF L(2)] card_length [of "HandleList (db s)"] few by simp
  have G1: "GrowBuffer ?bs EFI_SUCCESS 0 400 s = Ret ((True, EFI_BUFFER_TOO_SMALL, b), s0)"
    using alloc(1,2) by (simp add: GrowBuffer_def)
  have lib: "LibLocateHandle ?bs cb n ByProtocol (Some g) 0 s =
    bind_run (lib_locate_loop ?bs cb n (Suc m) ByProtocol (Some g) 0 (locate_status hs 400) b
        (if no_entry (Some g) (db s0) then 400 else of_nat (8 * length hs)) (take 50 hs) s1) (\<lambda>((Status, BufferSize, Buffer, Result), s1).
         Ret ((Status, if EFI_ERROR Status then 0 else BufferSize div 8, Buffer, Result), s1))"
    unfolding LibLocateHandle_def using L(1) G1 alloc(2) m by simp
  show ?thesis
  proof (cases "hs = []")
    case True
    obtain s2 where s2: "FreePool ?bs b s1 = Ret s2" "db s2 = db s1" "in_frame s1 s2"
      by (rule FreePool_releasable [OF q1(1) n q1(2) r1, of b cb con dis]) simp_all
    have "LibLocateHandle ?bs cb n ByProtocol (Some g) 0 s = Ret ((EFI_NOT_FOUND, of_nat (length hs), 0, hs), s2)"
      unfolding lib using True s2(1) alloc(2) by (simp add: GrowBuffer_def locate_status_def)
    moreover have "exec_frame s s2" using exec_frame_trans [OF f1] s2(3) by (simp add: in_frame_def)
    ultimately show ?thesis using set l inv1 rep1 s2(2) by (intro exI conjI) (assumption | simp)+
  next
    case False
    then obtain a where "a \<in> set hs" by (cases hs) auto
    then obtain p X where "offers (db s0) a g p X" using L(3) by (auto simp: located_def)
    then have e: "\<not> no_entry (Some g) (db s0)" by (auto simp: offers_def no_entry_def)
    have sz: "of_nat (8 * length hs) div 8 = (of_nat (length hs) :: UINTN)" "\<not> 400 < (of_nat (8 * length hs) :: UINTN)"
    proof -
      have u: "unat (of_nat (8 * length hs) :: UINTN) = 8 * length hs" by (rule unat_len) (use l in simp)
      show "of_nat (8 * length hs) div 8 = (of_nat (length hs) :: UINTN)"
        by (rule iffD2 [OF word_unat_eq_iff]) (simp add: unat_div u unat_len l[THEN order_le_less_trans] del: of_nat_mult)
      show "\<not> 400 < (of_nat (8 * length hs) :: UINTN)" using l by (simp add: word_less_nat_alt u del: of_nat_mult)
    qed
    then have st: "locate_status hs 400 = EFI_SUCCESS" using False by (simp add: locate_status_def del: of_nat_mult)
    have "LibLocateHandle ?bs cb n ByProtocol (Some g) 0 s = Ret ((EFI_SUCCESS, of_nat (length hs), b, hs), s1)"
      unfolding lib using alloc(2) e sz(1) st l by (simp add: GrowBuffer_def del: of_nat_mult)
    then show ?thesis using set l inv1 rep1 f1 r1 by (intro exI conjI) (assumption | simp)+
  qed
qed

text \<open>The device paths in memory, and the instances they have.\<close>

definition paths_at :: "nat \<Rightarrow> (UINTN \<rightharpoonup> EFI_GUID \<rightharpoonup> UINTN) \<Rightarrow> (UINTN \<Rightarrow> UINT8 list) \<Rightarrow> (UINTN \<Rightarrow> dp_node list list) \<Rightarrow> bool" where
  "paths_at n M mem_at paths \<longleftrightarrow>
     (\<forall>a m i. M a = Some m \<and> m DevicePathProtocol = Some i \<longrightarrow>
        i \<noteq> 0 \<and> path_ok (paths a) \<and> length (path_bytes (paths a)) < 2 ^ 63 \<and> length (path_bytes (paths a)) \<le> n \<and>
        (\<exists>r. mem_at i = path_bytes (paths a) @ r))"

definition instances_of :: "(UINTN \<rightharpoonup> EFI_GUID \<rightharpoonup> UINTN) \<Rightarrow> (UINTN \<Rightarrow> dp_node list list) \<Rightarrow> UINTN \<Rightarrow> (UINTN \<times> dp_node list) set" where
  "instances_of M paths a =
     (case M a of None \<Rightarrow> {} | Some m \<Rightarrow> if m DevicePathProtocol = None then {} else Pair a ` set (paths a))"

lemma DevicePathFromHandle_quiet:
  assumes "quiet s" and "2 \<le> n" and "hand_inv (db s)" and "represents (db s) M" and "paths_at n M mem_at paths"
  shows "\<exists>s'. DevicePathFromHandle bs cb n mem_at a s =
       Ret (case M a of None \<Rightarrow> None | Some m \<Rightarrow> map_option mem_at (m DevicePathProtocol), s') \<and>
     exec_frame s s' \<and> hand_inv (db s') \<and> represents (db s') M \<and> same_pool (exec.more s) (exec.more s')"
proof -
  obtain st i s' where H: "HandleProtocol bs cb n a (Some DevicePathProtocol) True s = Ret (st, i, s')" "exec_frame s s'"
      "represents (db s') M" "hand_inv (db s')" "same_pool (exec.more s) (exec.more s')"
    and r: "case M a of None \<Rightarrow> st = EFI_INVALID_PARAMETER \<and> i = None
      | Some m \<Rightarrow> (case m DevicePathProtocol of None \<Rightarrow> st = EFI_UNSUPPORTED \<and> i = None | Some j \<Rightarrow> st = EFI_SUCCESS \<and> i = Some j)"
    using HandleProtocol_quiet [OF assms(1-4), of bs cb a DevicePathProtocol] by blast
  have "i \<noteq> Some 0" using r assms(5) by (auto simp: paths_at_def split: option.splits)
  then show ?thesis using H r by (auto simp: DevicePathFromHandle_def split: option.splits)
qed

lemma match_handles_ok:
  assumes src: "list_all node_ok src" "length (nodes_bytes src) < 2 ^ 63" and n: "2 \<le> n" and paths: "paths_at n M mem_at paths"
  shows "quiet s \<Longrightarrow> hand_inv (db s) \<Longrightarrow> represents (db s) M \<Longrightarrow> best_of src C best \<Longrightarrow>
     \<exists>best' s'. match_handles bs cb n mem_at (path_bytes [src] @ r) (of_nat (length (nodes_bytes src))) hs best s = Ret (best', s') \<and>
       best_of src ((\<Union>a\<in>set hs. instances_of M paths a) \<union> C) best' \<and> exec_frame s s' \<and> represents (db s') M \<and>
       same_pool (exec.more s) (exec.more s')"
proof (induction hs arbitrary: s best C)
  case Nil
  then show ?case by (simp add: exec_frame_def)
next
  case (Cons a hs)
  obtain s1 where s1: "DevicePathFromHandle bs cb n mem_at a s =
       Ret (case M a of None \<Rightarrow> None | Some m \<Rightarrow> map_option mem_at (m DevicePathProtocol), s1)"
     "exec_frame s s1" "hand_inv (db s1)" "represents (db s1) M" "same_pool (exec.more s) (exec.more s1)"
    using DevicePathFromHandle_quiet [OF Cons.prems(1) n Cons.prems(2,3) paths] by blast
  have q1: "quiet s1" using exec_frame_quiet [OF s1(2)] Cons.prems(1) by simp
  define p where "p = (case M a of None \<Rightarrow> None | Some m \<Rightarrow> map_option mem_at (m DevicePathProtocol))"
  have "\<exists>best1. (if p = None then Ret best
      else match_instances n (path_bytes [src] @ r) (of_nat (length (nodes_bytes src))) a p best) = Ret best1 \<and>
      best_of src (instances_of M paths a \<union> C) best1"
  proof (cases p)
    case None
    then have "instances_of M paths a = {}" by (auto simp: p_def instances_of_def split: option.splits)
    then show ?thesis using None Cons.prems(4) by simp
  next
    case (Some x)
    then obtain m i where m: "M a = Some m" "m DevicePathProtocol = Some i" "x = mem_at i" by (auto simp: p_def split: option.splits)
    then obtain r2 where P: "path_ok (paths a)" "length (path_bytes (paths a)) < 2 ^ 63" "length (path_bytes (paths a)) \<le> n"
        "x = path_bytes (paths a) @ r2" using paths unfolding paths_at_def by blast
    note ok = path_okD [OF P(1)]
    have "match_instances n (path_bytes [src] @ r) (of_nat (length (nodes_bytes src))) a (Some x) best = Ret (fold (better src a) (paths a) best)"
      using match_instances_path [OF src ok(2) P(2), of n r a r2 best] ok(1,4) P(3,4) by simp
    moreover have "instances_of M paths a = Pair a ` set (paths a)" using m by (simp add: instances_of_def)
    ultimately show ?thesis using Some best_steps [OF Cons.prems(4) src(2)] by simp
  qed
  then obtain best1 where b1: "(if p = None then Ret best
      else match_instances n (path_bytes [src] @ r) (of_nat (length (nodes_bytes src))) a p best) = Ret best1"
      "best_of src (instances_of M paths a \<union> C) best1" by blast
  obtain best' s' where b2: "match_handles bs cb n mem_at (path_bytes [src] @ r) (of_nat (length (nodes_bytes src))) hs best1 s1 = Ret (best', s')"
      "best_of src ((\<Union>a\<in>set hs. instances_of M paths a) \<union> (instances_of M paths a \<union> C)) best'" "exec_frame s1 s'" "represents (db s') M"
      "same_pool (exec.more s1) (exec.more s')"
    using Cons.IH [OF q1 s1(3,4) b1(2)] by blast
  have "(\<Union>a\<in>set hs. instances_of M paths a) \<union> (instances_of M paths a \<union> C) = (\<Union>a\<in>set (a # hs). instances_of M paths a) \<union> C" by auto
  then show ?case using b2 exec_frame_trans [OF s1(2) b2(3)] same_pool_trans [OF s1(5) b2(5)]
    unfolding match_handles.simps s1(1) [folded p_def] bind_run.simps prod.case b1(1) by simp
qed

text \<open>The instances that are looked at and match.\<close>

definition device_matches ::
  "EFI_GUID \<Rightarrow> (UINTN \<rightharpoonup> EFI_GUID \<rightharpoonup> UINTN) \<Rightarrow> (UINTN \<Rightarrow> dp_node list list) \<Rightarrow> dp_node list \<Rightarrow> (UINTN \<times> dp_node list) set" where
  "device_matches g M paths src =
     {(a, i). \<exists>m j k. M a = Some m \<and> m g = Some j \<and> m DevicePathProtocol = Some k \<and> i \<in> set (paths a) \<and> prefix i src}"

lemma device_matches_eq:
  "set hs = {a. \<exists>m i. M a = Some m \<and> m g = Some i} \<Longrightarrow> matches src (\<Union>a\<in>set hs. instances_of M paths a) = device_matches g M paths src"
  by (auto simp: matches_def device_matches_def instances_of_def split: option.splits if_splits)

lemma drop_match:
  assumes "prefix i src"
  shows "drop (length (nodes_bytes i)) (path_bytes [src] @ r) = path_bytes [drop (length i) src] @ r"
  using assms by (auto simp: prefix_def)

lemma LocateDevicePath_longest:
  assumes q: "quiet s" and n: "2 \<le> n" and inv: "hand_inv (db s)" and rep: "represents (db s) M" and rt: "\<not> EfiAtRuntime s"
    and mem: "mem_inv K D V (exec.more s)" "at_hand K EfiBootServicesData 3 (exec.more s)"
    and new: "fresh_request (db s)" and few: "length (HandleList (db s)) \<le> 50"
    and paths: "paths_at n M mem_at paths" and src: "path_ok [src]" "length (path_bytes [src]) < 2 ^ 63" "length (path_bytes [src]) \<le> n"
  shows "\<exists>st rest dev s'. LocateDevicePath (core_services cb n con dis) cb n mem_at (Some g) (Some (path_bytes [src] @ r)) s = Ret ((st, Some rest, dev), s') \<and>
     exec_frame s s' \<and> represents (db s') M \<and>
     (if device_matches g M paths src = {} then st = EFI_NOT_FOUND \<and> rest = path_bytes [src] @ r \<and> dev = 0
      else st = EFI_SUCCESS \<and> (\<exists>i. (dev, i) \<in> device_matches g M paths src \<and> rest = path_bytes [drop (length i) src] @ r \<and>
        (\<forall>y\<in>device_matches g M paths src. length (nodes_bytes (snd y)) \<le> length (nodes_bytes i))))"
proof -
  let ?P = "path_bytes [src] @ r" and ?D = "device_matches g M paths src" and ?bs = "core_services cb n con dis"
  note ok = path_okD [OF src(1)]
  have s: "list_all node_ok src" "length (nodes_bytes src) < 2 ^ 63" using ok(2) src(2) by simp_all
  obtain st0 b' hs s1 where L: "LibLocateHandle ?bs cb n ByProtocol (Some g) 0 s = Ret ((st0, of_nat (length hs), b', hs), s1)"
     "set hs = {a. \<exists>m i. M a = Some m \<and> m g = Some i}" "length hs \<le> 50" "exec_frame s s1" "hand_inv (db s1)" "represents (db s1) M"
     "b' = 0 \<or> releasable {b'} (exec.more s1)"
    using LibLocateHandle_quiet [OF q n inv rep rt mem new few] by blast
  have q1: "quiet s1" using exec_frame_quiet [OF L(4)] q by simp
  have b0: "best_of src {} (- 1, 0)" by (simp add: best_of_def matches_def)
  obtain B dev s2 where B: "match_handles ?bs cb n mem_at ?P (of_nat (length (nodes_bytes src))) hs (- 1, 0) s1 = Ret ((B, dev), s2)"
      "best_of src (\<Union>a\<in>set hs. instances_of M paths a) (B, dev)" "exec_frame s1 s2" "represents (db s2) M"
      "same_pool (exec.more s1) (exec.more s2)"
    using match_handles_ok [OF s n paths q1 L(5,6) b0, of ?bs cb r hs] by auto
  have q2: "quiet s2" "\<not> EfiAtRuntime s2"
    using exec_frame_quiet [OF L(4)] exec_frame_quiet [OF B(3)] L(4) B(3) q rt by (simp_all add: exec_frame_def)
  obtain s3 where s3: "(if b' \<noteq> 0 then FreePool ?bs b' s2 else Ret s2) = Ret s3" "db s3 = db s2" "exec_frame s2 s3"
  proof (cases "b' = 0")
    case False
    then have r2: "releasable {b'} (exec.more s2)" using releasable_pool [OF _ B(5)] L(7) by blast
    obtain s3 where "FreePool ?bs b' s2 = Ret s3" "db s3 = db s2" "in_frame s2 s3"
      by (rule FreePool_releasable [OF q2(1) n q2(2) r2, of b' cb con dis]) simp_all
    then show ?thesis using that False by (simp add: in_frame_def)
  qed (use that in \<open>simp add: exec_frame_def\<close>)
  have f: "exec_frame s s3" using exec_frame_trans [OF exec_frame_trans [OF L(4) B(3)] s3(3)] .
  have c: "DevicePathInstanceCount n (Some ?P) = Ret 1"
    using instance_count_path [OF ok(1,2), of n 0 r] ok(4) src(3) by (simp add: DevicePathInstanceCount_def)
  have z: "DevicePathSize n ?P = Ret (of_nat (length (path_bytes [src])))" by (rule DevicePathSize_path [OF ok(1,2) src(3)])
  have z': "of_nat (length (path_bytes [src])) - of_nat 4 = (of_nat (length (nodes_bytes src)) :: UINTN)" by simp
  have u: "unat (of_nat (length hs) :: UINTN) = length hs" by (rule unat_len) (use L(3) in simp)
  have R: "LocateDevicePath ?bs cb n mem_at (Some g) (Some ?P) s =
     (if B = - 1 then Ret ((EFI_NOT_FOUND, Some ?P, dev), s3) else Ret ((EFI_SUCCESS, Some (drop (unat B) ?P), dev), s3))"
    unfolding LocateDevicePath_def c bind_run.simps L(1) z z' prod.case option.case u
    using B(1) s3(1) by simp
  have D: "matches src (\<Union>a\<in>set hs. instances_of M paths a) = ?D" by (rule device_matches_eq [OF L(2)])
  show ?thesis
  proof (cases "?D = {}")
    case True
    then have "B = - 1" "dev = 0" using B(2) D by (simp_all add: best_of_def)
    then show ?thesis using R f B(4) s3(2) True by simp
  next
    case False
    then obtain x where x: "x \<in> ?D" "B = of_nat (length (nodes_bytes (snd x)))" "dev = fst x"
        "\<forall>y\<in>?D. length (nodes_bytes (snd y)) \<le> length (nodes_bytes (snd x))"
      using B(2) unfolding best_of_def D if_not_P [OF False] by blast
    define i where "i = snd x"
    have i: "(dev, i) \<in> ?D" "B = of_nat (length (nodes_bytes i))" "\<forall>y\<in>?D. length (nodes_bytes (snd y)) \<le> length (nodes_bytes i)"
      using x by (simp_all add: i_def)
    have pre: "prefix i src" using i(1) by (auto simp: device_matches_def)
    have l: "length (nodes_bytes i) < 2 ^ 63" using prefix_length [OF pre] s(2) by simp
    have "sint B \<noteq> - 1" unfolding i(2) sint_len [OF l] by simp
    then have "B \<noteq> - 1" by auto
    moreover have "unat B = length (nodes_bytes i)" unfolding i(2) by (rule unat_len) (use l in simp)
    ultimately have "LocateDevicePath ?bs cb n mem_at (Some g) (Some ?P) s = Ret ((EFI_SUCCESS, Some (path_bytes [drop (length i) src] @ r), dev), s3)"
      unfolding R using drop_match [OF pre, of r] by simp
    then show ?thesis using f B(4) s3(2) False i(1,3) by auto
  qed
qed

section \<open>The property\<close>

text \<open>
  C38: \<open>LocateDevicePath\<close> returns the handle with the longest match. For a path of one instance, with at most 50
  handles in the database, well-formed device paths, no notification due, and in the pool of \<open>mem/pool.c\<close> a free block for the buffer
  of 50 handles, in a chunk that is in use, it looks at exactly the
  instances of the device paths of the handles that have the protocol. If none of them is, node by node,
  the beginning of the path, the result is \<open>EFI_NOT_FOUND\<close>, no device, and the path is left alone; otherwise it is a handle of a
  longest one, and the path is advanced behind it.
\<close>

theorem locate_device_path_longest:
  assumes "quiet s" and "2 \<le> n" and "hand_inv (db s)" and "represents (db s) M" and "\<not> EfiAtRuntime s"
    and "mem_inv K D V (exec.more s)" and "at_hand K EfiBootServicesData 3 (exec.more s)"
    and "fresh_request (db s)" and "length (HandleList (db s)) \<le> 50"
    and "paths_at n M mem_at paths" and "path_ok [src]" "length (path_bytes [src]) < 2 ^ 63" "length (path_bytes [src]) \<le> n"
  shows "\<exists>st rest dev s'. LocateDevicePath (core_services cb n con dis) cb n mem_at (Some g) (Some (path_bytes [src] @ r)) s =
       Ret ((st, Some rest, dev), s') \<and>
     exec_frame s s' \<and> represents (db s') M \<and>
     (if device_matches g M paths src = {} then st = EFI_NOT_FOUND \<and> rest = path_bytes [src] @ r \<and> dev = 0
      else st = EFI_SUCCESS \<and> (\<exists>i. (dev, i) \<in> device_matches g M paths src \<and> rest = path_bytes [drop (length i) src] @ r \<and>
        (\<forall>y\<in>device_matches g M paths src. length (nodes_bytes (snd y)) \<le> length (nodes_bytes i))))"
  by (rule LocateDevicePath_longest [OF assms])

text \<open>One handle with the device path of a PCI device.\<close>

definition one_path :: hand where
  "one_path = link_prot 0x1FE190 0x1FE210 0x1FE110 0x5000 (new_handle 0x1FE210 (new_entry 0x1FE110 DevicePathProtocol empty_hand))"

lemma one_path_simps [simp]:
  "Entries one_path = [0x1FE110 \<mapsto> \<lparr>PEProtocolID = DevicePathProtocol, PEProtocols = [0x1FE190], PENotify = []\<rparr>]"
  "Handles one_path = [0x1FE210 \<mapsto> \<lparr>IHProtocols = [0x1FE190], IHLocateRequest = 0, IHKey = 1\<rparr>]"
  "Prots one_path = [0x1FE190 \<mapsto> \<lparr>PIHandle = 0x1FE210, PIProtocol = 0x1FE110, PIInterface = 0x5000, PIOpenList = [], PIOpenListCount = 0\<rparr>]"
  "HandleList one_path = [0x1FE210]" "ProtocolDatabase one_path = [0x1FE110]" "Notifies one_path = Map.empty" "EfiLocateHandleRequest one_path = 0"
  by (simp_all add: one_path_def link_prot_def new_handle_def new_entry_def empty_hand_def upd_entry_rec_def upd_handle_def Let_def)

lemma one_path_inv: "hand_inv one_path"
  by (simp add: hand_inv_def handles_ok_def entries_ok_def notifies_ok_def opens_ok_def record_ok_def addrs_apart_def open_addrs_def)

lemma represents_one_path: "represents one_path [0x1FE210 \<mapsto> [DevicePathProtocol \<mapsto> 0x5000]]"
proof (rule representsI)
  show "m g = Some i \<longleftrightarrow> (\<exists>p X. offers one_path a g p X \<and> PIInterface X = i)" if "[0x1FE210 \<mapsto> [DevicePathProtocol \<mapsto> 0x5000]] a = Some m" for a m g i
    using that by (auto simp: offers_def split: if_splits)
qed (auto split: if_splits)

theorem locate_device_path_longest_witness:
  "\<exists>s'. LocateDevicePath (core_services (\<lambda>_ _ _ _. Fault) 60 (\<lambda>_ _ _ _ _. Fault) (\<lambda>_ _ _ _. Fault)) (\<lambda>_ _ _ _. Fault) 60
        (\<lambda>_. path_bytes [[pci_node]]) (Some DevicePathProtocol) (Some (path_bytes [[pci_node, disk_node]])) (busy_state one_path) =
     Ret ((EFI_SUCCESS, Some (path_bytes [[disk_node]]), 0x1FE210), s')"
proof -
  let ?s = "busy_state one_path" and ?M = "[0x1FE210 \<mapsto> [DevicePathProtocol \<mapsto> 0x5000]]"
    and ?paths = "\<lambda>_. [[pci_node]]" and ?src = "[pci_node, disk_node]"
  have q: "quiet ?s" "hand_inv (db ?s)" "represents (db ?s) ?M" "\<not> EfiAtRuntime ?s" using one_path_inv represents_one_path by simp_all
  have m: "mem_inv busy_blocks Map.empty (vis (region (busy_mem one_path)), one_path) (exec.more ?s)"
      "at_hand busy_blocks EfiBootServicesData 3 (exec.more ?s)" using busy_mem_inv busy_at_hand by simp_all
  have r: "fresh_request (db ?s)" "length (HandleList (db ?s)) \<le> 50" by (auto simp: fresh_request_def)
  have p: "paths_at 60 ?M (\<lambda>_. path_bytes [[pci_node]]) ?paths"
    using sample_paths_ok(1) by (auto simp: paths_at_def sample_lengths simp del: path_bytes.simps split: if_splits)
  have src: "path_ok [?src]" "length (path_bytes [?src]) < 2 ^ 63" "length (path_bytes [?src]) \<le> 60"
    by (simp_all add: path_ok_def pci_node_def disk_node_def length_bytes_def EndDevicePath_def)
  have D: "device_matches DevicePathProtocol ?M ?paths ?src = {(0x1FE210, [pci_node])}"
    by (auto simp: device_matches_def split: if_splits)
  show ?thesis
    using locate_device_path_longest [OF q(1) _ q(2-4) m r p src, of "\<lambda>_ _ _ _. Fault" "\<lambda>_ _ _ _ _. Fault" "\<lambda>_ _ _ _. Fault"
        DevicePathProtocol "[]"] unfolding D by auto
qed

end
