(* ===== verification/VarStore.thy ===== *)
theory VarStore
  imports ExecState
begin

text \<open>
  The banks of the variable store (\<open>variable/ivar.h\<close>, \<open>variable/vario.c\<close>), byte by byte. A bank
  is the memory copy of a block of a storage device; records are appended to it and only ever lose bits.

  Offsets and sizes within a bank are natural numbers, as they stay far below 2 to the 64, and the places where
  the code relies on the wrap-around, or may run into it, say so. Reading or writing outside the copy is a fault.
  The driver of a device is a parameter, a record of its functions on its own state.
\<close>

section \<open>Data\<close>

abbreviation (input) BANK_HEADER_SIGNATURE :: "UINT8 list" where "BANK_HEADER_SIGNATURE \<equiv> [0x76, 0x62, 0x72, 0x6C]"
abbreviation (input) VARH_FORMAT :: UINT8 where "VARH_FORMAT \<equiv> 0"
abbreviation (input) VARH_ADD_TRANSITION :: UINT8 where "VARH_ADD_TRANSITION \<equiv> 0x01"
abbreviation (input) VARH_INUSE_TRANSITION :: UINT8 where "VARH_INUSE_TRANSITION \<equiv> 0x02"
abbreviation (input) VARH_INUSE :: UINT8 where "VARH_INUSE \<equiv> 0x04"
abbreviation (input) VARH_OBSOLETE_TRANSITION :: UINT8 where "VARH_OBSOLETE_TRANSITION \<equiv> 0x08"
abbreviation (input) VARH_MAX_SEQUENCE :: UINT16 where "VARH_MAX_SEQUENCE \<equiv> 0xFFFF"
abbreviation (input) FIRST_VARIABLE_OFFSET :: nat where "FIRST_VARIABLE_OFFSET \<equiv> 8"
abbreviation (input) sizeof_BANK_HEADER :: nat where "sizeof_BANK_HEADER \<equiv> 8"
abbreviation (input) sizeof_VARIABLE :: nat where "sizeof_VARIABLE \<equiv> 20"
abbreviation (input) VAR_SIZE_MASK :: UINT16 where "VAR_SIZE_MASK \<equiv> 0x0FFF"
abbreviation (input) VAR_OBSOLETE_TRANSITION :: UINT8 where "VAR_OBSOLETE_TRANSITION \<equiv> 0x01"
abbreviation (input) VAR_OBSOLETE :: UINT8 where "VAR_OBSOLETE \<equiv> 0x02"
abbreviation (input) VAR_ADDED :: UINT8 where "VAR_ADDED \<equiv> 0x80"

text \<open>
  The driver of a device (\<open>EFI_VARIABLE_STORE\<close>, \<open>INC/protocol/efivar.h\<close>). \<open>ClearStore\<close> may write the buffer it is
  given; \<open>ReadStore\<close> returns the bytes it stores into the buffer.
\<close>

record 'd EFI_VARIABLE_STORE =
  DevAttributes :: UINT32
  DevBankSize :: nat
  DevNoBanks :: "'d \<Rightarrow> nat"
  ClearStore :: "nat \<Rightarrow> UINT8 list \<Rightarrow> 'd \<Rightarrow> EFI_STATUS \<times> UINT8 list \<times> 'd"
  ReadStore :: "nat \<Rightarrow> nat \<Rightarrow> nat \<Rightarrow> 'd \<Rightarrow> EFI_STATUS \<times> UINT8 list \<times> 'd"
  UpdateStore :: "nat \<Rightarrow> nat \<Rightarrow> UINT8 list \<Rightarrow> 'd \<Rightarrow> EFI_STATUS \<times> 'd"
  SizeStore :: "(nat \<Rightarrow> 'd \<Rightarrow> 'd) option"
  TransactionUpdate :: "(nat \<Rightarrow> UINT8 list \<Rightarrow> 'd \<Rightarrow> EFI_STATUS \<times> 'd) option"

text \<open>\<open>TSize\<close> points to the size of the bank itself or to the size of the transaction bank of its store.\<close>

datatype tsize = TSize_of_bank | TSize_of_store

record STORAGE_BANK =
  SBVarStore :: nat
  SBLinked :: bool
  SBState :: UINT8
  SBBankNo :: nat
  SBBankSize :: nat
  SBDevice :: nat
  SBDeviceError :: bool
  SBInUse :: nat
  SBTail :: nat
  SBTSize :: tsize
  SBData :: "UINT8 list"

record VARIABLE_STORE =
  VSActive :: "UINTN list"
  VSMemoryType :: int
  VSAttributes :: UINT32
  VSRuntimeUpdate :: bool
  VSTBankRequired :: bool
  VSSequence :: UINT16
  VSTBank :: UINTN
  VSTSize :: nat

text \<open>
  The globals: the banks by address, the stores in the order of their \<open>Next\<close> pointers, the table from attributes to
  stores, and the state of the devices.
\<close>

record 'd vars =
  Banks :: "UINTN \<rightharpoonup> STORAGE_BANK"
  VariableStore :: "VARIABLE_STORE list"
  VariableStoreType :: "nat \<Rightarrow> nat option"
  Devices :: 'd

record VARIABLE_INFO =
  VIValid :: bool
  VIState :: UINT8
  VIBank :: UINTN
  VIVarOffset :: nat
  VIVarSize :: nat
  VINameOffset :: nat
  VIDataOffset :: nat
  VIStateOffset :: nat
  VINextVarOffset :: nat
  VIAttributes :: UINT32
  VINameSize :: nat
  VIDataSize :: nat

definition new_info :: "UINTN \<Rightarrow> nat \<Rightarrow> VARIABLE_INFO" where
  "new_info b Offset = \<lparr>VIValid = False, VIState = 0, VIBank = b, VIVarOffset = 0, VIVarSize = 0, VINameOffset = 0,
     VIDataOffset = 0, VIStateOffset = 0, VINextVarOffset = Offset, VIAttributes = 0, VINameSize = 0, VIDataSize = 0\<rparr>"

section \<open>Bytes\<close>

definition rd8 :: "UINT8 list \<Rightarrow> nat \<Rightarrow> UINT8 run" where
  "rd8 d i = (if i < length d then Ret (d ! i) else Fault)"

definition rd16 :: "UINT8 list \<Rightarrow> nat \<Rightarrow> UINT16 run" where
  "rd16 d i = (if i + 1 < length d then Ret (ucast (d ! i) OR push_bit 8 (ucast (d ! (i + 1)))) else Fault)"

definition rd_bytes :: "UINT8 list \<Rightarrow> nat \<Rightarrow> nat \<Rightarrow> UINT8 list run" where
  "rd_bytes d i k = (if i + k \<le> length d then Ret (take k (drop i d)) else Fault)"

definition wr_bytes :: "nat \<Rightarrow> UINT8 list \<Rightarrow> UINT8 list \<Rightarrow> UINT8 list run" where
  "wr_bytes i bs d = (if i + length bs \<le> length d then Ret (take i d @ bs @ drop (i + length bs) d) else Fault)"

definition bytes16 :: "UINT16 \<Rightarrow> UINT8 list" where
  "bytes16 w = [ucast w, ucast (drop_bit 8 w)]"

section \<open>The device\<close>

definition the_bank :: "('d, 'z) vars_scheme \<Rightarrow> UINTN \<Rightarrow> STORAGE_BANK run" where
  "the_bank v b = (case Banks v b of None \<Rightarrow> Fault | Some B \<Rightarrow> Ret B)"

definition the_store :: "('d, 'z) vars_scheme \<Rightarrow> nat \<Rightarrow> VARIABLE_STORE run" where
  "the_store v i = (if i < length (VariableStore v) then Ret (VariableStore v ! i) else Fault)"

definition upd_bank :: "UINTN \<Rightarrow> (STORAGE_BANK \<Rightarrow> STORAGE_BANK) \<Rightarrow> ('d, 'z) vars_scheme \<Rightarrow> ('d, 'z) vars_scheme" where
  "upd_bank b f v = v\<lparr>Banks := (Banks v)(b := map_option f (Banks v b))\<rparr>"

definition upd_store :: "nat \<Rightarrow> (VARIABLE_STORE \<Rightarrow> VARIABLE_STORE) \<Rightarrow> ('d, 'z) vars_scheme \<Rightarrow> ('d, 'z) vars_scheme" where
  "upd_store i f v = v\<lparr>VariableStore := (VariableStore v)[i := f (VariableStore v ! i)]\<rparr>"

definition write_bank :: "UINTN \<Rightarrow> nat \<Rightarrow> UINT8 list \<Rightarrow> ('d, 'z) vars_scheme \<Rightarrow> ('d, 'z) vars_scheme run" where
  "write_bank b i bs v =
     bind_run (the_bank v b) (\<lambda>Bank.
     bind_run (wr_bytes i bs (SBData Bank)) (\<lambda>d. Ret (upd_bank b (\<lambda>B. B\<lparr>SBData := d\<rparr>) v)))"

definition RtVarReadStore ::
  "(nat \<Rightarrow> 'd EFI_VARIABLE_STORE) \<Rightarrow> UINTN \<Rightarrow> nat \<Rightarrow> nat \<Rightarrow> ('d, 'z) vars_scheme \<Rightarrow> ('d, 'z) vars_scheme run" where
  "RtVarReadStore devs b Offset Size v =
     bind_run (the_bank v b) (\<lambda>Bank.
     let (Status, bs, d) = ReadStore (devs (SBDevice Bank)) (SBBankNo Bank) Offset Size (Devices v) in
     bind_run (write_bank b Offset bs (v\<lparr>Devices := d\<rparr>)) (\<lambda>v.
       Ret (if EFI_ERROR Status then upd_bank b (\<lambda>B. B\<lparr>SBDeviceError := True\<rparr>) v else v)))"

definition RtVarUpdateStore ::
  "(nat \<Rightarrow> 'd EFI_VARIABLE_STORE) \<Rightarrow> UINTN \<Rightarrow> nat \<Rightarrow> nat \<Rightarrow> ('d, 'z) vars_scheme \<Rightarrow> ('d, 'z) vars_scheme run" where
  "RtVarUpdateStore devs b Offset Size v =
     bind_run (the_bank v b) (\<lambda>Bank.
       if SBDeviceError Bank then Ret v
       else bind_run (rd_bytes (SBData Bank) Offset Size) (\<lambda>bs.
         let (Status, d) = UpdateStore (devs (SBDevice Bank)) (SBBankNo Bank) Offset bs (Devices v);
             v = v\<lparr>Devices := d\<rparr> in
         Ret (if EFI_ERROR Status then upd_bank b (\<lambda>B. B\<lparr>SBDeviceError := True\<rparr>) v else v)))"

text \<open>The address of a bank is taken from the list of the store it belongs to.\<close>

definition unlink_bank :: "UINTN \<Rightarrow> STORAGE_BANK \<Rightarrow> ('d, 'z) vars_scheme \<Rightarrow> ('d, 'z) vars_scheme" where
  "unlink_bank b Bank v =
     (if SBLinked Bank
      then upd_bank b (\<lambda>B. B\<lparr>SBLinked := False\<rparr>)
             (upd_store (SBVarStore Bank) (\<lambda>V. V\<lparr>VSActive := remove1 b (VSActive V)\<rparr>) v)
      else v)"

definition link_tail :: "UINTN \<Rightarrow> nat \<Rightarrow> ('d, 'z) vars_scheme \<Rightarrow> ('d, 'z) vars_scheme" where
  "link_tail b i v = upd_bank b (\<lambda>B. B\<lparr>SBLinked := True\<rparr>) (upd_store i (\<lambda>V. V\<lparr>VSActive := VSActive V @ [b]\<rparr>) v)"

definition link_head :: "UINTN \<Rightarrow> nat \<Rightarrow> ('d, 'z) vars_scheme \<Rightarrow> ('d, 'z) vars_scheme" where
  "link_head b i v = upd_bank b (\<lambda>B. B\<lparr>SBLinked := True\<rparr>) (upd_store i (\<lambda>V. V\<lparr>VSActive := b # VSActive V\<rparr>) v)"

text \<open>
  \<open>RtVarClearStore\<close>. A status that is left unset on the way to \<open>Done\<close> is a device error there, so
  the value that is returned is one too.
\<close>

definition bank_failed :: "UINTN \<Rightarrow> EFI_STATUS \<Rightarrow> ('d, 'z) vars_scheme \<Rightarrow> (EFI_STATUS \<times> ('d, 'z) vars_scheme) run" where
  "bank_failed b Status v = Ret (Status, upd_bank b (\<lambda>B. B\<lparr>SBDeviceError := True\<rparr>) v)"

definition bank_header :: "UINT16 \<Rightarrow> UINT8 \<Rightarrow> UINT8 list" where
  "bank_header Sequence State = BANK_HEADER_SIGNATURE @ bytes16 Sequence @ [VARH_FORMAT, State]"

definition RtVarClearStore ::
  "(nat \<Rightarrow> 'd EFI_VARIABLE_STORE) \<Rightarrow> UINTN \<Rightarrow> ('d, 'z) vars_scheme \<Rightarrow> (EFI_STATUS \<times> ('d, 'z) vars_scheme) run" where
  "RtVarClearStore devs b v =
     bind_run (the_bank v b) (\<lambda>Bank.
     let v = unlink_bank b Bank v; Device = devs (SBDevice Bank) in
     if SBDeviceError Bank then Ret (EFI_DEVICE_ERROR, v)
     else
       bind_run (rd_bytes (SBData Bank) 0 4) (\<lambda>sig.
       bind_run
         (if sig = BANK_HEADER_SIGNATURE
          then bind_run (write_bank b 0 (replicate sizeof_BANK_HEADER 0) v) (RtVarUpdateStore devs b 0 sizeof_BANK_HEADER)
          else Ret v) (\<lambda>v.
       bind_run (the_bank v b) (\<lambda>Bank.
       if SBDeviceError Bank then bank_failed b EFI_DEVICE_ERROR v
       else
         let (Status, data, d) = ClearStore Device (SBBankNo Bank) (SBData Bank) (Devices v);
             v = upd_bank b (\<lambda>B. B\<lparr>SBData := data\<rparr>) (v\<lparr>Devices := d\<rparr>) in
         if EFI_ERROR Status then bank_failed b Status v
         else
           bind_run (the_store v (SBVarStore Bank)) (\<lambda>V.
           let Sequence = (if VSSequence V < VARH_MAX_SEQUENCE then VSSequence V + 1 else VSSequence V);
               v = upd_store (SBVarStore Bank) (\<lambda>V. V\<lparr>VSSequence := Sequence\<rparr>)
                 (upd_bank b (\<lambda>B. B\<lparr>SBState := 0, SBTail := FIRST_VARIABLE_OFFSET, SBInUse := FIRST_VARIABLE_OFFSET\<rparr>) v) in
           bind_run (write_bank b 0 (bank_header Sequence 0xFF) v) (\<lambda>v.
           let (Status, d) = UpdateStore Device (SBBankNo Bank) 0 (bank_header Sequence 0xFF) (Devices v);
               v = v\<lparr>Devices := d\<rparr> in
           if EFI_ERROR Status then bank_failed b Status v
           else Ret (Status, link_tail b (SBVarStore Bank) v)))))))"

section \<open>Records\<close>

text \<open>The end of the name: the first pair of zero bytes, looked for up to the state byte.\<close>

function name_end :: "UINT8 list \<Rightarrow> nat \<Rightarrow> nat \<Rightarrow> nat option run" where
  "name_end d StateOffset Index =
     bind_run (rd8 d Index) (\<lambda>a.
     bind_run (if a \<noteq> 0 then Ret True else bind_run (rd8 d (Index + 1)) (\<lambda>b. Ret (b \<noteq> 0))) (\<lambda>more.
       if \<not> more then Ret (Some Index)
       else if StateOffset \<le> Index then Ret None
       else name_end d StateOffset (Index + 2)))"
  by pat_completeness auto
termination by (relation "measure (\<lambda>(d, S, i). S - i)") auto

declare name_end.simps [simp del]

definition pad_size :: "nat \<Rightarrow> nat" where
  "pad_size VarSize = (4 - VarSize mod 4) mod 4"

text \<open>The sum of the sizes is one of unsigned 64-bit numbers: a size below that of the header wraps.\<close>

definition too_large :: "nat \<Rightarrow> nat \<Rightarrow> nat \<Rightarrow> bool" where
  "too_large VarSize Offset BankSize \<longleftrightarrow> BankSize < (VarSize + 2 ^ 64 - sizeof_VARIABLE + Offset) mod 2 ^ 64"

definition RtVarParseStore :: "('d, 'z) vars_scheme \<Rightarrow> VARIABLE_INFO \<Rightarrow> (bool \<times> VARIABLE_INFO) run" where
  "RtVarParseStore v I =
     bind_run (the_bank v (VIBank I)) (\<lambda>Bank.
     let Offset = VINextVarOffset I; d = SBData Bank;
         I = I\<lparr>VIValid := False, VIVarOffset := Offset, VINextVarOffset := SBBankSize Bank, VINameOffset := Offset + sizeof_VARIABLE\<rparr> in
     if SBTail Bank < Offset + sizeof_VARIABLE + 1 + 2 + 1 then Ret (False, I)
     else
       bind_run (rd16 d Offset) (\<lambda>Size.
       if Size = 0xFFFF then Ret (False, I)
       else
         let VarSize = unat (Size AND VAR_SIZE_MASK) in
         if too_large VarSize Offset (SBBankSize Bank) then Ret (False, I)
         else
           bind_run (rd16 d (Offset + 2)) (\<lambda>Attributes.
           let Next = Offset + VarSize + pad_size VarSize; StateOffset = Offset + VarSize - 1;
               I = I\<lparr>VINextVarOffset := Next, VIVarSize := Next - Offset, VIAttributes := ucast Attributes, VIStateOffset := StateOffset\<rparr> in
           bind_run (rd8 d StateOffset) (\<lambda>st.
           let State = st XOR 0xFF in
           if State AND VAR_ADDED = 0 \<or> State AND VAR_OBSOLETE \<noteq> 0
           then Ret (True, I\<lparr>VIState := VAR_ADDED OR VAR_OBSOLETE_TRANSITION OR VAR_OBSOLETE\<rparr>)
           else
             bind_run (name_end d StateOffset (VINameOffset I)) (\<lambda>e.
             let I = I\<lparr>VIState := State\<rparr> in
             case e of
               None \<Rightarrow> Ret (True, I)
             | Some Index \<Rightarrow>
                 let NameSize = Index - VINameOffset I + 2; DataOffset = VINameOffset I + NameSize in
                 Ret (True, I\<lparr>VINameSize := NameSize, VIDataOffset := DataOffset,
                            VIDataSize := (StateOffset + 2 ^ 64 - DataOffset) mod 2 ^ 64, VIValid := True\<rparr>))))))"

text \<open>The result is whether the device failed; the state of the record is kept in the \<open>VARIABLE_INFO\<close>.\<close>

definition RtVarUpdateState ::
  "(nat \<Rightarrow> 'd EFI_VARIABLE_STORE) \<Rightarrow> VARIABLE_INFO \<Rightarrow> UINT8 \<Rightarrow> ('d, 'z) vars_scheme
   \<Rightarrow> ((bool \<times> VARIABLE_INFO) \<times> ('d, 'z) vars_scheme) run"
where
  "RtVarUpdateState devs I NewBit v =
     (let I = I\<lparr>VIState := VIState I OR NewBit\<rparr> in
      bind_run (write_bank (VIBank I) (VIStateOffset I) [VIState I XOR 0xFF] v) (\<lambda>v.
      bind_run (RtVarUpdateStore devs (VIBank I) (VIStateOffset I) 1 v) (\<lambda>v.
      bind_run (the_bank v (VIBank I)) (\<lambda>Bank. Ret ((SBDeviceError Bank, I), v)))))"

text \<open>The state is the last byte of the bank header.\<close>

definition RtVarUpdateBankState ::
  "(nat \<Rightarrow> 'd EFI_VARIABLE_STORE) \<Rightarrow> UINTN \<Rightarrow> UINT8 \<Rightarrow> ('d, 'z) vars_scheme \<Rightarrow> ('d, 'z) vars_scheme run" where
  "RtVarUpdateBankState devs b NewBit v =
     bind_run (the_bank v b) (\<lambda>Bank.
     let State = SBState Bank OR NewBit in
     bind_run (write_bank b 7 [State XOR 0xFF] (upd_bank b (\<lambda>B. B\<lparr>SBState := State\<rparr>) v))
       (RtVarUpdateStore devs b 0 sizeof_BANK_HEADER))"

text \<open>\<open>FreePool\<close> takes the bank out of the memory of the program.\<close>

definition RtVarBankError :: "bool \<Rightarrow> UINTN \<Rightarrow> ('d, 'z) vars_scheme \<Rightarrow> ('d, 'z) vars_scheme run" where
  "RtVarBankError AtRuntime b v =
     bind_run (the_bank v b) (\<lambda>Bank.
     let v = unlink_bank b Bank v in
     Ret (if \<not> AtRuntime then v\<lparr>Banks := (Banks v)(b := None)\<rparr> else v))"

end
