(* ===== verification/VarGarbage.thy ===== *)
theory VarGarbage
  imports VarStore
begin

text \<open>
  Garbage collection of the variable store (\<open>variable/vgarbage.c\<close>) and the search for a variable and for
  free space (\<open>variable/varapi.c\<close>). The loops over the records of a bank take fuel: a record that claims a length
  of 0 is its own successor.
\<close>

section \<open>Searching\<close>

text \<open>
  \<open>StrCmp (Name, VarInfo->Name) == 0\<close>. A name is the list of its characters without the terminator; the
  other string is read from the bank up to the first difference.
\<close>

primrec same_name :: "UINT16 list \<Rightarrow> UINT8 list \<Rightarrow> nat \<Rightarrow> bool run" where
  "same_name [] d i = bind_run (rd16 d i) (\<lambda>c. Ret (c = 0))"
| "same_name (x # xs) d i = bind_run (rd16 d i) (\<lambda>c. if x \<noteq> c then Ret False else same_name xs d (i + 2))"

text \<open>A vendor GUID is its 16 bytes; \<open>CompareGuid\<close> is zero exactly for equal ones.\<close>

definition same_guid :: "UINT8 list \<Rightarrow> UINT8 list \<Rightarrow> nat \<Rightarrow> bool run" where
  "same_guid VendorGuid d i = bind_run (rd_bytes d i 16) (\<lambda>g. Ret (VendorGuid = g))"

abbreviation (input) EFI_VARIABLE_NON_VOLATILE :: UINT32 where "EFI_VARIABLE_NON_VOLATILE \<equiv> 1"
abbreviation (input) EFI_VARIABLE_BOOTSERVICE_ACCESS :: UINT32 where "EFI_VARIABLE_BOOTSERVICE_ACCESS \<equiv> 2"
abbreviation (input) EFI_VARIABLE_RUNTIME_ACCESS :: UINT32 where "EFI_VARIABLE_RUNTIME_ACCESS \<equiv> 4"

definition matches_var ::
  "bool \<Rightarrow> UINT16 list \<Rightarrow> UINT8 list \<Rightarrow> UINT8 list \<Rightarrow> VARIABLE_INFO \<Rightarrow> bool run" where
  "matches_var AtRuntime Name VendorGuid d I =
     (if VIValid I \<and> VIState I AND VAR_OBSOLETE_TRANSITION = 0
      then bind_run (same_name Name d (VINameOffset I)) (\<lambda>n.
        if n then bind_run (same_guid VendorGuid d (VIVarOffset I + 4)) (\<lambda>g.
          Ret (g \<and> (\<not> AtRuntime \<or> VIAttributes I AND EFI_VARIABLE_RUNTIME_ACCESS \<noteq> 0)))
        else Ret False)
      else Ret False)"

primrec find_in_bank ::
  "nat \<Rightarrow> bool \<Rightarrow> UINT16 list \<Rightarrow> UINT8 list \<Rightarrow> ('d, 'z) vars_scheme \<Rightarrow> VARIABLE_INFO \<Rightarrow> (bool \<times> VARIABLE_INFO) run" where
  "find_in_bank 0 AtRuntime Name VendorGuid v I = NoFuel"
| "find_in_bank (Suc k) AtRuntime Name VendorGuid v I =
     bind_run (RtVarParseStore v I) (\<lambda>(more, I).
       if \<not> more then Ret (False, I)
       else bind_run (the_bank v (VIBank I)) (\<lambda>Bank.
            bind_run (matches_var AtRuntime Name VendorGuid (SBData Bank) I) (\<lambda>found.
              if found then Ret (True, I) else find_in_bank k AtRuntime Name VendorGuid v I)))"

primrec find_in_banks ::
  "nat \<Rightarrow> bool \<Rightarrow> UINT16 list \<Rightarrow> UINT8 list \<Rightarrow> ('d, 'z) vars_scheme \<Rightarrow> UINTN list \<Rightarrow> VARIABLE_INFO \<Rightarrow> (bool \<times> VARIABLE_INFO) run" where
  "find_in_banks n AtRuntime Name VendorGuid v [] I = Ret (False, I)"
| "find_in_banks n AtRuntime Name VendorGuid v (b # bs) I =
     bind_run (find_in_bank n AtRuntime Name VendorGuid v (I\<lparr>VIBank := b, VINextVarOffset := FIRST_VARIABLE_OFFSET\<rparr>)) (\<lambda>(found, I).
       if found then Ret (True, I) else find_in_banks n AtRuntime Name VendorGuid v bs I)"

primrec find_in_stores ::
  "nat \<Rightarrow> bool \<Rightarrow> UINT16 list \<Rightarrow> UINT8 list \<Rightarrow> ('d, 'z) vars_scheme \<Rightarrow> VARIABLE_STORE list \<Rightarrow> VARIABLE_INFO
   \<Rightarrow> (bool \<times> VARIABLE_INFO) run"
where
  "find_in_stores n AtRuntime Name VendorGuid v [] I = Ret (False, I)"
| "find_in_stores n AtRuntime Name VendorGuid v (V # Vs) I =
     (if AtRuntime \<and> VSMemoryType V \<noteq> EfiRuntimeServicesData then find_in_stores n AtRuntime Name VendorGuid v Vs I
      else bind_run (find_in_banks n AtRuntime Name VendorGuid v (VSActive V) I) (\<lambda>(found, I).
        if found then Ret (True, I) else find_in_stores n AtRuntime Name VendorGuid v Vs I))"

definition RtVarFind ::
  "nat \<Rightarrow> bool \<Rightarrow> UINT16 list \<Rightarrow> UINT8 list \<Rightarrow> ('d, 'z) vars_scheme \<Rightarrow> (EFI_STATUS \<times> VARIABLE_INFO) run" where
  "RtVarFind n AtRuntime Name VendorGuid v =
     bind_run (find_in_stores n AtRuntime Name VendorGuid v (VariableStore v) (new_info 0 0)) (\<lambda>(found, I).
       if found then Ret (EFI_SUCCESS, I) else Ret (EFI_NOT_FOUND, I\<lparr>VIValid := False\<rparr>))"

section \<open>Moving records\<close>

text \<open>
  \<open>NewOffset\<close> is not set when the record does not fit, and using it then is undefined. The result of reading
  the record may alias the bank written, which a copy by value does not show: source and destination never
  overlap, as the destination is behind the tail of its bank.
\<close>

definition RtVarMove ::
  "(nat \<Rightarrow> 'd EFI_VARIABLE_STORE) \<Rightarrow> bool \<Rightarrow> VARIABLE_INFO \<Rightarrow> UINTN \<Rightarrow> ('d, 'z) vars_scheme \<Rightarrow> ('d, 'z) vars_scheme run" where
  "RtVarMove devs BankTransition I NewBank v =
     bind_run (the_bank v (VIBank I)) (\<lambda>Old.
     bind_run (the_bank v NewBank) (\<lambda>New.
       if SBBankSize New < SBTail New + VIVarSize I
       then if BankTransition then Ret v else Fault
       else
         let NewOffset = SBTail New in
         bind_run (rd_bytes (SBData Old) (VIVarOffset I) (VIVarSize I)) (\<lambda>bs.
         bind_run (write_bank NewBank NewOffset bs v) (\<lambda>v.
         bind_run (write_bank NewBank (NewOffset + VIStateOffset I - VIVarOffset I) [0xFF XOR VAR_ADDED] v) (\<lambda>v.
         let v = upd_bank NewBank (\<lambda>B. B\<lparr>SBTail := SBTail B + VIVarSize I, SBInUse := SBInUse B + VIVarSize I\<rparr>) v in
           if BankTransition then Ret v else RtVarUpdateStore devs NewBank NewOffset (VIVarSize I) v)))))"

primrec collect_loop ::
  "(nat \<Rightarrow> 'd EFI_VARIABLE_STORE) \<Rightarrow> nat \<Rightarrow> VARIABLE_INFO \<Rightarrow> UINTN \<Rightarrow> ('d, 'z) vars_scheme \<Rightarrow> ('d, 'z) vars_scheme run" where
  "collect_loop devs 0 I NewBank v = NoFuel"
| "collect_loop devs (Suc k) I NewBank v =
     bind_run (RtVarParseStore v I) (\<lambda>(more, I).
       if \<not> more then Ret v
       else bind_run (if VIValid I then RtVarMove devs True I NewBank v else Ret v) (collect_loop devs k I NewBank))"

section \<open>The transaction bank\<close>

primrec reset_sequences ::
  "(nat \<Rightarrow> 'd EFI_VARIABLE_STORE) \<Rightarrow> UINTN list \<Rightarrow> ('d, 'z) vars_scheme \<Rightarrow> ('d, 'z) vars_scheme run" where
  "reset_sequences devs [] v = Ret v"
| "reset_sequences devs (b # bs) v =
     bind_run (write_bank b 4 (bytes16 0) v) (\<lambda>v.
     bind_run (RtVarUpdateStore devs b 0 sizeof_BANK_HEADER v) (reset_sequences devs bs))"

text \<open>The first of the largest empty banks; on the way every bank is made to share the size of the transaction bank.\<close>

primrec best_bank :: "UINTN list \<Rightarrow> (UINTN \<times> nat) option \<Rightarrow> ('d, 'z) vars_scheme \<Rightarrow> ((UINTN \<times> nat) option \<times> ('d, 'z) vars_scheme) run" where
  "best_bank [] Best v = Ret (Best, v)"
| "best_bank (b # bs) Best v =
     bind_run (the_bank v b) (\<lambda>Bank.
       best_bank bs
         (if SBTail Bank = FIRST_VARIABLE_OFFSET \<and> (case Best of None \<Rightarrow> True | Some (_, k) \<Rightarrow> k < SBBankSize Bank)
          then Some (b, SBBankSize Bank) else Best)
         (upd_bank b (\<lambda>B. B\<lparr>SBTSize := TSize_of_store\<rparr>) v))"

definition RtVarGetTransactionBank ::
  "(nat \<Rightarrow> 'd EFI_VARIABLE_STORE) \<Rightarrow> nat \<Rightarrow> ('d, 'z) vars_scheme \<Rightarrow> ('d, 'z) vars_scheme run" where
  "RtVarGetTransactionBank devs i v =
     bind_run (the_store v i) (\<lambda>V.
     bind_run
       (if VSSequence V = VARH_MAX_SEQUENCE
        then bind_run (reset_sequences devs (VSActive V) v) (\<lambda>v. Ret (upd_store i (\<lambda>V. V\<lparr>VSSequence := 0\<rparr>) v))
        else Ret v) (\<lambda>v.
     bind_run (best_bank (VSActive V) None v) (\<lambda>(Best, v).
       case Best of
         None \<Rightarrow> Ret v
       | Some (b, BankSize) \<Rightarrow>
           bind_run (the_bank v b) (\<lambda>Bank.
             Ret (upd_store i (\<lambda>V. V\<lparr>VSTBank := b, VSTSize := BankSize\<rparr>) (unlink_bank b Bank v))))))"

definition RtVarGarbageCollectBank ::
  "(nat \<Rightarrow> 'd EFI_VARIABLE_STORE) \<Rightarrow> nat \<Rightarrow> UINTN \<Rightarrow> ('d, 'z) vars_scheme \<Rightarrow> ('d, 'z) vars_scheme run" where
  "RtVarGarbageCollectBank devs n OldBank v =
     bind_run (the_bank v OldBank) (\<lambda>Old.
     let i = SBVarStore Old in
     bind_run (the_store v i) (\<lambda>V.
     let v = upd_store i (\<lambda>V. V\<lparr>VSTBank := 0, VSTSize := 0\<rparr>) v;
         NewBank = (if VSTBankRequired V then VSTBank V else OldBank) in
     if NewBank = 0 then Ret v
     else
       bind_run (collect_loop devs n (new_info OldBank FIRST_VARIABLE_OFFSET) NewBank v) (\<lambda>v.
       if VSTBankRequired V
       then
         bind_run (RtVarUpdateBankState devs NewBank VARH_ADD_TRANSITION v) (\<lambda>v.
         bind_run (the_bank v NewBank) (\<lambda>New.
         bind_run (RtVarUpdateStore devs NewBank 0 (SBTail New) v) (\<lambda>v.
         bind_run (RtVarUpdateBankState devs OldBank VARH_OBSOLETE_TRANSITION v) (\<lambda>v.
         bind_run (RtVarUpdateBankState devs NewBank VARH_INUSE_TRANSITION v) (\<lambda>v.
         bind_run (RtVarClearStore devs OldBank v) (\<lambda>(_, v).
         bind_run (RtVarUpdateBankState devs NewBank VARH_INUSE v) (\<lambda>v.
           RtVarGetTransactionBank devs i (link_tail NewBank i v))))))))
       else
         bind_run (the_bank v NewBank) (\<lambda>New.
           case TransactionUpdate (devs (SBDevice New)) of
             None \<Rightarrow> Fault
           | Some f \<Rightarrow>
               let (Status, d) = f (SBBankNo New) (SBData New) (Devices v); v = v\<lparr>Devices := d\<rparr> in
               Ret (if EFI_ERROR Status then upd_bank NewBank (\<lambda>B. B\<lparr>SBDeviceError := True\<rparr>) v else v)))))"

end
