(* ===== verification/VarInit.thy ===== *)
theory VarInit
  imports VarGarbage
begin

text \<open>
  Adding banks to the variable store (\<open>variable/varinit.c\<close>), finding space in it (\<open>variable/varapi.c\<close>,
  \<open>variable/vgarbage.c\<close>) and the recovery of updates that a loss of power has interrupted. The allocator of the
  pool is a parameter: a status, the address of the bank, and the contents of the memory that becomes its copy of
  the data.
\<close>

section \<open>The stores\<close>

definition empty_store :: "UINT32 \<Rightarrow> int \<Rightarrow> bool \<Rightarrow> VARIABLE_STORE" where
  "empty_store Attributes MemoryType RuntimeUpdate = \<lparr>VSActive = [], VSMemoryType = MemoryType, VSAttributes = Attributes,
     VSRuntimeUpdate = RuntimeUpdate, VSTBankRequired = False, VSSequence = 0, VSTBank = 0, VSTSize = 0\<rparr>"

text \<open>The part of \<open>InitializeVariableStore\<close> that fills the globals.\<close>

definition InitializeVariableStore :: "('d, 'z) vars_scheme \<Rightarrow> ('d, 'z) vars_scheme" where
  "InitializeVariableStore v = v\<lparr>
     VariableStore := [empty_store 2 EfiBootServicesData False, empty_store 3 EfiBootServicesData False,
                       empty_store 6 EfiRuntimeServicesData False, empty_store 7 EfiRuntimeServicesData True],
     VariableStoreType := (\<lambda>_. None)(2 := Some 0, 3 := Some 1, 4 := Some 2, 6 := Some 2, 5 := Some 3, 7 := Some 3)\<rparr>"

section \<open>Adding a bank\<close>

type_synonym ('d, 'z) bank_alloc = "int \<Rightarrow> nat \<Rightarrow> ('d, 'z) vars_scheme \<Rightarrow> EFI_STATUS \<times> UINTN \<times> UINT8 list"

text \<open>
  The pass over the records that are on the device. The size of a record behind its header is unsigned: a
  record that is shorter than a header wraps. A bank that is found corrupt is cleared; the loop ends then.
\<close>

primrec scan_bank ::
  "(nat \<Rightarrow> 'd EFI_VARIABLE_STORE) \<Rightarrow> nat \<Rightarrow> UINTN \<Rightarrow> VARIABLE_INFO \<Rightarrow> ('d, 'z) vars_scheme
   \<Rightarrow> (nat \<times> ('d, 'z) vars_scheme) run"
where
  "scan_bank devs 0 b I v = NoFuel"
| "scan_bank devs (Suc k) b I v =
     bind_run (the_bank v b) (\<lambda>Bank.
     let Next = VINextVarOffset I; BankSize = SBBankSize Bank in
     if BankSize \<le> Next then Ret (Next, v)
     else if BankSize < Next + sizeof_VARIABLE + 1 + 2 + 1 then Ret (BankSize, v)
     else
       bind_run (RtVarReadStore devs b Next sizeof_VARIABLE v) (\<lambda>v.
       bind_run (the_bank v b) (\<lambda>Bank.
       if SBDeviceError Bank then Ret (Next, v)
       else
         bind_run (rd16 (SBData Bank) Next) (\<lambda>Size.
         if Size = 0xFFFF \<or> Size = 0 then Ret (Next, v)
         else
           let VarSize = (unat (Size AND VAR_SIZE_MASK) + 2 ^ 64 - sizeof_VARIABLE) mod 2 ^ 64 in
           if BankSize < (VarSize + Next) mod 2 ^ 64 \<or> VarSize < 1 + 2 + 1
           then
             bind_run (RtVarClearStore devs b v) (\<lambda>(_, v).
             bind_run (the_bank v b) (\<lambda>Bank.
             bind_run (RtVarUpdateStore devs b 0 (SBTail Bank) v) (\<lambda>v. Ret (Next, v))))
           else
             bind_run (RtVarReadStore devs b (Next + sizeof_VARIABLE) VarSize v) (\<lambda>v.
             bind_run (RtVarParseStore v I) (\<lambda>(_, I).
               scan_bank devs k b I
                 (if VIValid I then upd_bank b (\<lambda>B. B\<lparr>SBInUse := SBInUse B + VIVarSize I\<rparr>) v else v)))))))"

definition new_bank :: "nat \<Rightarrow> nat \<Rightarrow> nat \<Rightarrow> nat \<Rightarrow> UINT8 list \<Rightarrow> STORAGE_BANK" where
  "new_bank i dev BankNo BankSize data = \<lparr>SBVarStore = i, SBLinked = False, SBState = 0, SBBankNo = BankNo, SBBankSize = BankSize,
     SBDevice = dev, SBDeviceError = False, SBInUse = 0, SBTail = 0, SBTSize = TSize_of_bank, SBData = data\<rparr>"

definition VarStoreAddBank ::
  "(nat \<Rightarrow> 'd EFI_VARIABLE_STORE) \<Rightarrow> ('d, 'z) bank_alloc \<Rightarrow> bool \<Rightarrow> nat \<Rightarrow> nat \<Rightarrow> nat \<Rightarrow> nat \<Rightarrow> ('d, 'z) vars_scheme
   \<Rightarrow> (EFI_STATUS \<times> ('d, 'z) vars_scheme) run"
where
  "VarStoreAddBank devs alloc AtRuntime n i dev BankNo v =
     bind_run (the_store v i) (\<lambda>V.
     let (Status, b, data) = alloc (VSMemoryType V) (DevBankSize (devs dev)) v in
     if EFI_ERROR Status then Ret (Status, v)
     else
       bind_run (RtVarReadStore devs b 0 sizeof_BANK_HEADER
         (v\<lparr>Banks := (Banks v)(b \<mapsto> new_bank i dev BankNo (DevBankSize (devs dev)) data)\<rparr>)) (\<lambda>v.
       bind_run (the_bank v b) (\<lambda>Bank.
       bind_run (rd_bytes (SBData Bank) 0 sizeof_BANK_HEADER) (\<lambda>h.
       let State = h ! 7 XOR 0xFF; Sequence = ucast (h ! 4) OR push_bit 8 (ucast (h ! 5));
           v = upd_bank b (\<lambda>B. B\<lparr>SBState := State\<rparr>) v in
       bind_run
         (if take 4 h \<noteq> BANK_HEADER_SIGNATURE \<or> h ! 6 \<noteq> VARH_FORMAT \<or>
             State AND VARH_ADD_TRANSITION \<noteq> 0 \<and> State AND VARH_INUSE_TRANSITION = 0
          then bind_run (RtVarClearStore devs b v) (\<lambda>(_, v). Ret v)
          else if VSSequence V \<le> Sequence then Ret (upd_store i (\<lambda>V. V\<lparr>VSSequence := Sequence\<rparr>) (link_tail b i v))
          else Ret (link_head b i v)) (\<lambda>v.
       bind_run (scan_bank devs n b (new_info b FIRST_VARIABLE_OFFSET)
         (upd_bank b (\<lambda>B. B\<lparr>SBInUse := FIRST_VARIABLE_OFFSET, SBTail := SBBankSize B\<rparr>) v)) (\<lambda>(Tail, v).
       let v = upd_bank b (\<lambda>B. B\<lparr>SBTail := Tail\<rparr>) v in
       bind_run (the_bank v b) (\<lambda>Bank.
         if SBDeviceError Bank then bind_run (RtVarBankError AtRuntime b v) (\<lambda>v. Ret (Status, v))
         else Ret (Status, if TransactionUpdate (devs dev) = None then upd_store i (\<lambda>V. V\<lparr>VSTBankRequired := True\<rparr>) v else v))))))))"

section \<open>Making space\<close>

text \<open>The first bank with obsolete data that fits into the transaction bank.\<close>

definition the_tsize :: "('d, 'z) vars_scheme \<Rightarrow> STORAGE_BANK \<Rightarrow> nat run" where
  "the_tsize v Bank =
     (case SBTSize Bank of
        TSize_of_bank \<Rightarrow> Ret (SBBankSize Bank)
      | TSize_of_store \<Rightarrow> bind_run (the_store v (SBVarStore Bank)) (\<lambda>V. Ret (VSTSize V)))"

primrec find_obsolete :: "('d, 'z) vars_scheme \<Rightarrow> UINTN list \<Rightarrow> UINTN option run" where
  "find_obsolete v [] = Ret None"
| "find_obsolete v (b # bs) =
     bind_run (the_bank v b) (\<lambda>Bank.
     bind_run (the_tsize v Bank) (\<lambda>TSize.
       if \<not> SBDeviceError Bank \<and> SBInUse Bank < SBTail Bank \<and> SBInUse Bank \<le> TSize then Ret (Some b)
       else find_obsolete v bs))"

primrec grow_store ::
  "(nat \<Rightarrow> 'd EFI_VARIABLE_STORE) \<Rightarrow> ('d, 'z) bank_alloc \<Rightarrow> bool \<Rightarrow> nat \<Rightarrow> nat \<Rightarrow> UINTN list \<Rightarrow> ('d, 'z) vars_scheme
   \<Rightarrow> (bool \<times> ('d, 'z) vars_scheme) run"
where
  "grow_store devs alloc AtRuntime n i [] v = Ret (False, v)"
| "grow_store devs alloc AtRuntime n i (b # bs) v =
     bind_run (the_bank v b) (\<lambda>Bank.
       case SizeStore (devs (SBDevice Bank)) of
         None \<Rightarrow> grow_store devs alloc AtRuntime n i bs v
       | Some f \<Rightarrow>
           let NoBanks = DevNoBanks (devs (SBDevice Bank)) (Devices v) + 1; v = v\<lparr>Devices := f NoBanks (Devices v)\<rparr> in
           if DevNoBanks (devs (SBDevice Bank)) (Devices v) = NoBanks
           then bind_run (VarStoreAddBank devs alloc AtRuntime n i (SBDevice Bank) (NoBanks - 1) v) (\<lambda>(Status, v). Ret (\<not> EFI_ERROR Status, v))
           else grow_store devs alloc AtRuntime n i bs v)"

definition RtVarGarbageCollect ::
  "(nat \<Rightarrow> 'd EFI_VARIABLE_STORE) \<Rightarrow> ('d, 'z) bank_alloc \<Rightarrow> bool \<Rightarrow> nat \<Rightarrow> nat \<Rightarrow> ('d, 'z) vars_scheme
   \<Rightarrow> (bool \<times> ('d, 'z) vars_scheme) run"
where
  "RtVarGarbageCollect devs alloc AtRuntime n i v =
     bind_run (the_store v i) (\<lambda>V.
     bind_run (find_obsolete v (VSActive V)) (\<lambda>r.
       case r of
         Some b \<Rightarrow> bind_run (RtVarGarbageCollectBank devs n b v) (\<lambda>v. Ret (True, v))
       | None \<Rightarrow> grow_store devs alloc AtRuntime n i (VSActive V) v))"

text \<open>The space left in a bank has to be more than the size asked for. The results are the bank, 0 for none, and \<open>*GarbageCollected\<close>.\<close>

primrec find_space :: "('d, 'z) vars_scheme \<Rightarrow> nat \<Rightarrow> UINTN list \<Rightarrow> UINTN option run" where
  "find_space v Size [] = Ret None"
| "find_space v Size (b # bs) =
     bind_run (the_bank v b) (\<lambda>Bank.
     bind_run (the_tsize v Bank) (\<lambda>TSize.
       if \<not> SBDeviceError Bank \<and> SBTail Bank + Size < SBBankSize Bank \<and> SBInUse Bank + Size < TSize then Ret (Some b)
       else find_space v Size bs))"

primrec free_space_loop ::
  "(nat \<Rightarrow> 'd EFI_VARIABLE_STORE) \<Rightarrow> ('d, 'z) bank_alloc \<Rightarrow> bool \<Rightarrow> nat \<Rightarrow> nat \<Rightarrow> nat \<Rightarrow> nat \<Rightarrow> bool \<Rightarrow> ('d, 'z) vars_scheme
   \<Rightarrow> ((UINTN \<times> bool) \<times> ('d, 'z) vars_scheme) run"
where
  "free_space_loop devs alloc AtRuntime n 0 i Size Collected v = NoFuel"
| "free_space_loop devs alloc AtRuntime n (Suc k) i Size Collected v =
     bind_run (the_store v i) (\<lambda>V.
     bind_run (find_space v Size (VSActive V)) (\<lambda>r.
       case r of
         Some b \<Rightarrow> Ret ((b, Collected), v)
       | None \<Rightarrow>
           bind_run (RtVarGarbageCollect devs alloc AtRuntime n i v) (\<lambda>(Updated, v).
             if \<not> Updated then Ret ((0, Collected), v)
             else free_space_loop devs alloc AtRuntime n k i Size True v)))"

definition RtVarFindFreeSpace ::
  "(nat \<Rightarrow> 'd EFI_VARIABLE_STORE) \<Rightarrow> ('d, 'z) bank_alloc \<Rightarrow> bool \<Rightarrow> nat \<Rightarrow> nat \<Rightarrow> nat \<Rightarrow> ('d, 'z) vars_scheme
   \<Rightarrow> ((UINTN \<times> bool) \<times> ('d, 'z) vars_scheme) run"
where
  "RtVarFindFreeSpace devs alloc AtRuntime n i Size v = free_space_loop devs alloc AtRuntime n n i Size False v"

section \<open>Devices and recovery\<close>

primrec add_banks ::
  "(nat \<Rightarrow> 'd EFI_VARIABLE_STORE) \<Rightarrow> ('d, 'z) bank_alloc \<Rightarrow> nat \<Rightarrow> nat \<Rightarrow> nat \<Rightarrow> nat list \<Rightarrow> ('d, 'z) vars_scheme
   \<Rightarrow> ('d, 'z) vars_scheme run"
where
  "add_banks devs alloc n i dev [] v = Ret v"
| "add_banks devs alloc n i dev (BankNo # rest) v =
     bind_run (VarStoreAddBank devs alloc False n i dev BankNo v) (\<lambda>(_, v). add_banks devs alloc n i dev rest v)"

definition VarAddDevice ::
  "(nat \<Rightarrow> 'd EFI_VARIABLE_STORE) \<Rightarrow> ('d, 'z) bank_alloc \<Rightarrow> nat \<Rightarrow> nat \<Rightarrow> ('d, 'z) vars_scheme \<Rightarrow> ('d, 'z) vars_scheme run" where
  "VarAddDevice devs alloc n dev v =
     (let Device = devs dev; grow = (\<lambda>f k v. if DevNoBanks Device (Devices v) < k then v\<lparr>Devices := f k (Devices v)\<rparr> else v);
          v = (case SizeStore Device of None \<Rightarrow> v | Some f \<Rightarrow> grow f 2 (grow f 1 v)) in
      case VariableStoreType v (unat (DevAttributes Device AND 7)) of
        None \<Rightarrow> if DevNoBanks Device (Devices v) = 0 then Ret v else Fault
      | Some i \<Rightarrow> add_banks devs alloc n i dev [0 ..< DevNoBanks Device (Devices v)] v)"

text \<open>
  \<open>VarCheckBank\<close> completes the updates of variables that were interrupted. The result is whether the
  search has to start over.
\<close>

primrec name_at :: "nat \<Rightarrow> UINT8 list \<Rightarrow> nat \<Rightarrow> UINT16 list run" where
  "name_at 0 d i = NoFuel"
| "name_at (Suc k) d i = bind_run (rd16 d i) (\<lambda>c. if c = 0 then Ret [] else bind_run (name_at k d (i + 2)) (\<lambda>cs. Ret (c # cs)))"

primrec check_bank_loop ::
  "(nat \<Rightarrow> 'd EFI_VARIABLE_STORE) \<Rightarrow> ('d, 'z) bank_alloc \<Rightarrow> nat \<Rightarrow> nat \<Rightarrow> UINTN \<Rightarrow> VARIABLE_INFO \<Rightarrow> ('d, 'z) vars_scheme
   \<Rightarrow> (bool \<times> ('d, 'z) vars_scheme) run"
where
  "check_bank_loop devs alloc n 0 b I v = NoFuel"
| "check_bank_loop devs alloc n (Suc k) b I v =
     bind_run (RtVarParseStore v I) (\<lambda>(more, I).
     if \<not> more then Ret (False, v)
     else if \<not> VIValid I then check_bank_loop devs alloc n k b I v
     else
       bind_run (the_bank v b) (\<lambda>Bank.
       bind_run (name_at n (SBData Bank) (VINameOffset I)) (\<lambda>Name.
       bind_run (rd_bytes (SBData Bank) (VIVarOffset I + 4) 16) (\<lambda>VendorGuid.
       bind_run (RtVarFind n False Name VendorGuid v) (\<lambda>(_, New).
       bind_run
         (if VIState I AND VAR_OBSOLETE_TRANSITION \<noteq> 0 \<and> VIState I AND VAR_OBSOLETE = 0
          then
            if VIValid New then Ret ((True, False), v)
            else
              bind_run (RtVarFindFreeSpace devs alloc False n (SBVarStore Bank) (VIVarSize I) v) (\<lambda>((NewBank, Collected), v).
                if Collected then Ret ((True, True), v)
                else bind_run (if NewBank \<noteq> 0 then RtVarMove devs False I NewBank v else Ret v) (\<lambda>v. Ret ((True, False), v)))
          else Ret ((VIValid New \<and> (VIBank New \<noteq> VIBank I \<or> VIVarOffset New \<noteq> VIVarOffset I), False), v))
         (\<lambda>((RemoveVar, Restart), v).
          if Restart then Ret (True, v)
          else if RemoveVar
          then
            bind_run (RtVarUpdateState devs I VAR_OBSOLETE
              (upd_bank b (\<lambda>B. B\<lparr>SBInUse := (SBInUse B + 2 ^ 64 - VIVarSize I) mod 2 ^ 64\<rparr>) v)) (\<lambda>((_, I), v).
              check_bank_loop devs alloc n k b I v)
          else check_bank_loop devs alloc n k b I v))))))"

definition VarCheckBank ::
  "(nat \<Rightarrow> 'd EFI_VARIABLE_STORE) \<Rightarrow> ('d, 'z) bank_alloc \<Rightarrow> nat \<Rightarrow> UINTN \<Rightarrow> ('d, 'z) vars_scheme
   \<Rightarrow> (bool \<times> ('d, 'z) vars_scheme) run"
where
  "VarCheckBank devs alloc n b v = check_bank_loop devs alloc n n b (new_info b FIRST_VARIABLE_OFFSET) v"

text \<open>The last bank in either transition, 0 for none.\<close>

primrec find_transitions :: "('d, 'z) vars_scheme \<Rightarrow> UINTN list \<Rightarrow> UINTN \<times> UINTN \<Rightarrow> (UINTN \<times> UINTN) run" where
  "find_transitions v [] r = Ret r"
| "find_transitions v (b # bs) r =
     bind_run (the_bank v b) (\<lambda>Bank. case r of (Obsolete, InUse) \<Rightarrow>
       find_transitions v bs
         (if SBState Bank AND VARH_OBSOLETE_TRANSITION \<noteq> 0 then b else Obsolete,
          if SBState Bank AND VARH_INUSE_TRANSITION \<noteq> 0 \<and> SBState Bank AND VARH_INUSE = 0 then b else InUse))"

definition complete_collection ::
  "(nat \<Rightarrow> 'd EFI_VARIABLE_STORE) \<Rightarrow> nat \<Rightarrow> nat \<Rightarrow> ('d, 'z) vars_scheme \<Rightarrow> ('d, 'z) vars_scheme run" where
  "complete_collection devs n i v =
     bind_run (the_store v i) (\<lambda>V.
     bind_run (if VSTBankRequired V \<and> VSTBank V = 0 then RtVarGetTransactionBank devs i v else Ret v) (\<lambda>v.
     bind_run (the_store v i) (\<lambda>V.
     bind_run (find_transitions v (VSActive V) (0, 0)) (\<lambda>(Obsolete, InUse).
     bind_run (if Obsolete \<noteq> 0 \<and> InUse = 0 then RtVarGarbageCollectBank devs n Obsolete v else Ret v) (\<lambda>v.
     bind_run (if Obsolete \<noteq> 0 \<and> InUse \<noteq> 0 then bind_run (RtVarClearStore devs Obsolete v) (\<lambda>(_, v). Ret (0, v)) else Ret (Obsolete, v))
       (\<lambda>(Obsolete, v). if Obsolete = 0 \<and> InUse \<noteq> 0 then RtVarUpdateBankState devs InUse VARH_INUSE v else Ret v))))))"

primrec complete_all ::
  "(nat \<Rightarrow> 'd EFI_VARIABLE_STORE) \<Rightarrow> nat \<Rightarrow> nat list \<Rightarrow> ('d, 'z) vars_scheme \<Rightarrow> ('d, 'z) vars_scheme run" where
  "complete_all devs n [] v = Ret v"
| "complete_all devs n (i # is) v = bind_run (complete_collection devs n i v) (complete_all devs n is)"

text \<open>The position in the list is that of the bank behind the one checked, which a collection may have moved; it is looked up before.\<close>

primrec check_banks_loop ::
  "(nat \<Rightarrow> 'd EFI_VARIABLE_STORE) \<Rightarrow> ('d, 'z) bank_alloc \<Rightarrow> nat \<Rightarrow> nat \<Rightarrow> nat \<Rightarrow> UINTN list \<Rightarrow> ('d, 'z) vars_scheme
   \<Rightarrow> ('d, 'z) vars_scheme run"
where
  "check_banks_loop devs alloc n 0 i bs v = NoFuel"
| "check_banks_loop devs alloc n (Suc k) i bs v =
     (case bs of
        [] \<Rightarrow> Ret v
      | b # bs \<Rightarrow>
          bind_run (VarCheckBank devs alloc n b v) (\<lambda>(Restart, v).
          bind_run (the_store v i) (\<lambda>V.
            check_banks_loop devs alloc n k i
              (if Restart then VSActive V
               else case bs of [] \<Rightarrow> [] | c # _ \<Rightarrow> dropWhile (\<lambda>x. x \<noteq> c) (VSActive V)) v)))"

primrec check_all ::
  "(nat \<Rightarrow> 'd EFI_VARIABLE_STORE) \<Rightarrow> ('d, 'z) bank_alloc \<Rightarrow> nat \<Rightarrow> nat list \<Rightarrow> ('d, 'z) vars_scheme \<Rightarrow> ('d, 'z) vars_scheme run" where
  "check_all devs alloc n [] v = Ret v"
| "check_all devs alloc n (i # is) v =
     bind_run (the_store v i) (\<lambda>V. bind_run (check_banks_loop devs alloc n n i (VSActive V) v) (check_all devs alloc n is))"

definition VarCheckBanks ::
  "(nat \<Rightarrow> 'd EFI_VARIABLE_STORE) \<Rightarrow> ('d, 'z) bank_alloc \<Rightarrow> nat \<Rightarrow> ('d, 'z) vars_scheme \<Rightarrow> ('d, 'z) vars_scheme run" where
  "VarCheckBanks devs alloc n v =
     (let all = [0 ..< length (VariableStore v)] in bind_run (complete_all devs n all v) (check_all devs alloc n all))"

end
