(* ===== verification/VarServices.thy ===== *)
theory VarServices
  imports VarInit
begin

text \<open>
  The runtime services for variables (\<open>variable/varapi.c\<close>). They run in the critical section of
  \<open>VariableStoreLock\<close>; the state of the variables is what extends the state of the execution services.
\<close>

type_synonym ('d, 'z) varst = "('d, 'z) vars_scheme exec_scheme"

definition with_store ::
  "('d, 'z) vars_scheme notify_fn \<Rightarrow> nat \<Rightarrow> (('d, 'z) vars_scheme \<Rightarrow> ('r \<times> ('d, 'z) vars_scheme) run)
   \<Rightarrow> ('d, 'z) varst \<Rightarrow> ('r \<times> ('d, 'z) varst) run"
where
  "with_store cb n body s =
     (let s1 = AcquireLock VariableStoreLock s
      in bind_run (body (exec.more s1)) (\<lambda>(r, v).
         bind_run (ReleaseLock cb n VariableStoreLock (s1\<lparr>exec.more := v\<rparr>)) (\<lambda>s2. Ret (r, s2))))"

section \<open>Reading\<close>

text \<open>
  Pointers that may be null are options: the name, the size and the buffer. The results are the status, the
  value of \<open>*DataSize\<close>, the attributes and the data, if they are written.
\<close>

definition get_body ::
  "nat \<Rightarrow> bool \<Rightarrow> UINT16 list \<Rightarrow> UINT8 list \<Rightarrow> nat option \<Rightarrow> bool \<Rightarrow> ('d, 'z) vars_scheme
   \<Rightarrow> ((EFI_STATUS \<times> nat option \<times> UINT32 option \<times> UINT8 list option) \<times> ('d, 'z) vars_scheme) run"
where
  "get_body n AtRuntime VariableName VendorGuid DataSize Data v =
     bind_run (RtVarFind n AtRuntime VariableName VendorGuid v) (\<lambda>(Status, I).
       if EFI_ERROR Status then Ret ((Status, DataSize, None, None), v)
       else case DataSize of
              None \<Rightarrow> Ret ((EFI_INVALID_PARAMETER, None, None, None), v)
            | Some k \<Rightarrow>
                if k < VIDataSize I then Ret ((EFI_BUFFER_TOO_SMALL, Some (VIDataSize I), None, None), v)
                else if \<not> Data then Ret ((EFI_INVALID_PARAMETER, Some (VIDataSize I), None, None), v)
                else bind_run (the_bank v (VIBank I)) (\<lambda>Bank.
                     bind_run (rd_bytes (SBData Bank) (VIDataOffset I) (VIDataSize I)) (\<lambda>d.
                       Ret ((Status, Some (VIDataSize I), Some (VIAttributes I), Some d), v))))"

definition RtGetVariable ::
  "('d, 'z) vars_scheme notify_fn \<Rightarrow> nat \<Rightarrow> UINT16 list option \<Rightarrow> UINT8 list option \<Rightarrow> nat option \<Rightarrow> bool
   \<Rightarrow> ('d, 'z) varst \<Rightarrow> ((EFI_STATUS \<times> nat option \<times> UINT32 option \<times> UINT8 list option) \<times> ('d, 'z) varst) run"
where
  "RtGetVariable cb n VariableName VendorGuid DataSize Data s =
     (case (VariableName, VendorGuid) of
        (Some name, Some g) \<Rightarrow> with_store cb n (get_body n (EfiAtRuntime s) name g DataSize Data) s
      | _ \<Rightarrow> Ret ((EFI_INVALID_PARAMETER, DataSize, None, None), s))"

section \<open>Listing\<close>

text \<open>
  A position is a store, by index, and the banks ahead in its list, \<open>None\<close> for a null link. At runtime
  the stores of boot services memory are passed over.
\<close>

definition skip_stores :: "bool \<Rightarrow> ('d, 'z) vars_scheme \<Rightarrow> nat \<Rightarrow> nat" where
  "skip_stores AtRuntime v i =
     (if AtRuntime
      then i + length (takeWhile (\<lambda>V. VSMemoryType V \<noteq> EfiRuntimeServicesData) (drop i (VariableStore v)))
      else i)"

primrec next_name_loop ::
  "nat \<Rightarrow> bool \<Rightarrow> ('d, 'z) vars_scheme \<Rightarrow> nat \<Rightarrow> UINTN list option \<Rightarrow> VARIABLE_INFO \<Rightarrow> VARIABLE_INFO option run"
where
  "next_name_loop 0 AtRuntime v i Link I = NoFuel"
| "next_name_loop (Suc k) AtRuntime v i Link I =
     (if length (VariableStore v) \<le> i then Ret None
      else
        let (bs, I) = (case Link of None \<Rightarrow> (VSActive (VariableStore v ! i), I\<lparr>VINextVarOffset := FIRST_VARIABLE_OFFSET\<rparr>)
                                  | Some bs \<Rightarrow> (bs, I)) in
        case bs of
          [] \<Rightarrow> next_name_loop k AtRuntime v (skip_stores AtRuntime v (i + 1)) None I
        | b # rest \<Rightarrow>
            bind_run (RtVarParseStore v (I\<lparr>VIBank := b\<rparr>)) (\<lambda>(more, I).
              if \<not> more then next_name_loop k AtRuntime v i (Some rest) (I\<lparr>VINextVarOffset := FIRST_VARIABLE_OFFSET\<rparr>)
              else if VIValid I \<and> (\<not> AtRuntime \<or> VIAttributes I AND EFI_VARIABLE_RUNTIME_ACCESS \<noteq> 0) then Ret (Some I)
              else next_name_loop k AtRuntime v i (Some bs) I))"

text \<open>The results are the status, \<open>*VariableNameSize\<close>, and the bytes of the name and of the GUID, if they are written.\<close>

definition next_name_body ::
  "nat \<Rightarrow> bool \<Rightarrow> nat \<Rightarrow> UINT16 list \<Rightarrow> UINT8 list \<Rightarrow> ('d, 'z) vars_scheme
   \<Rightarrow> ((EFI_STATUS \<times> nat \<times> (UINT8 list \<times> UINT8 list) option) \<times> ('d, 'z) vars_scheme) run"
where
  "next_name_body n AtRuntime VariableNameSize VariableName VendorGuid v =
     bind_run
       (if VariableName \<noteq> []
        then bind_run (RtVarFind n AtRuntime VariableName VendorGuid v) (\<lambda>(Status, I).
             if EFI_ERROR Status then Ret (Inl Status)
             else bind_run (the_bank v (VIBank I)) (\<lambda>Bank.
                  bind_run (the_store v (SBVarStore Bank)) (\<lambda>V.
                    Ret (Inr (SBVarStore Bank, Some (dropWhile (\<lambda>b. b \<noteq> VIBank I) (VSActive V)), I)))))
        else Ret (Inr (skip_stores AtRuntime v 0, None, new_info 0 0))) (\<lambda>start.
       case start of
         Inl Status \<Rightarrow> Ret ((Status, VariableNameSize, None), v)
       | Inr (i, Link, I) \<Rightarrow>
           bind_run (next_name_loop n AtRuntime v i Link I) (\<lambda>r.
             case r of
               None \<Rightarrow> Ret ((EFI_NOT_FOUND, VariableNameSize, None), v)
             | Some I \<Rightarrow>
                 if VariableNameSize < VINameSize I then Ret ((EFI_BUFFER_TOO_SMALL, VINameSize I, None), v)
                 else bind_run (the_bank v (VIBank I)) (\<lambda>Bank.
                      bind_run (rd_bytes (SBData Bank) (VINameOffset I) (VINameSize I)) (\<lambda>name.
                      bind_run (rd_bytes (SBData Bank) (VIVarOffset I + 4) 16) (\<lambda>g.
                        Ret ((EFI_SUCCESS, VINameSize I, Some (name, g)), v))))))"

definition RtGetNextVariableName ::
  "('d, 'z) vars_scheme notify_fn \<Rightarrow> nat \<Rightarrow> nat option \<Rightarrow> UINT16 list option \<Rightarrow> UINT8 list option
   \<Rightarrow> ('d, 'z) varst \<Rightarrow> ((EFI_STATUS \<times> nat option \<times> (UINT8 list \<times> UINT8 list) option) \<times> ('d, 'z) varst) run"
where
  "RtGetNextVariableName cb n VariableNameSize VariableName VendorGuid s =
     (case (VariableNameSize, VariableName, VendorGuid) of
        (Some k, Some name, Some g) \<Rightarrow>
          bind_run (with_store cb n (next_name_body n (EfiAtRuntime s) k name g) s) (\<lambda>((Status, k, r), s). Ret ((Status, Some k, r), s))
      | _ \<Rightarrow> Ret ((EFI_INVALID_PARAMETER, VariableNameSize, None), s))"

section \<open>Writing\<close>

abbreviation (input) EFI_MAXIMUM_VARIABLE_SIZE :: nat where "EFI_MAXIMUM_VARIABLE_SIZE \<equiv> 1024"
abbreviation (input) EFI_VARIABLE_VALID_ATTRIBUTES :: UINT32 where "EFI_VARIABLE_VALID_ATTRIBUTES \<equiv> 7"

definition name_bytes :: "UINT16 list \<Rightarrow> UINT8 list" where
  "name_bytes cs = concat (map bytes16 cs)"

text \<open>\<open>StrSize\<close>: the bytes of the string with its terminator.\<close>

definition StrSize :: "UINT16 list \<Rightarrow> nat" where
  "StrSize cs = 2 * (length cs + 1)"

definition record_size :: "UINT16 list \<Rightarrow> nat \<Rightarrow> nat" where
  "record_size VariableName DataSize = sizeof_VARIABLE + 1 + StrSize VariableName + DataSize"

text \<open>The record as it is laid out in the bank: its header, the name, the data and the state.\<close>

definition record_bytes :: "UINT16 list \<Rightarrow> UINT8 list \<Rightarrow> UINT32 \<Rightarrow> UINT8 list \<Rightarrow> UINT8 list" where
  "record_bytes VariableName VendorGuid Attributes Data =
     bytes16 (of_nat (record_size VariableName (length Data))) @ bytes16 (ucast Attributes) @ VendorGuid @
     name_bytes (VariableName @ [0]) @ Data @ [0xFF XOR VAR_ADDED]"

text \<open>Writing the record behind the tail of the bank.\<close>

definition append_record ::
  "(nat \<Rightarrow> 'd EFI_VARIABLE_STORE) \<Rightarrow> UINTN \<Rightarrow> UINT16 list \<Rightarrow> UINT8 list \<Rightarrow> UINT32 \<Rightarrow> UINT8 list \<Rightarrow> ('d, 'z) vars_scheme
   \<Rightarrow> (bool \<times> ('d, 'z) vars_scheme) run"
where
  "append_record devs b VariableName VendorGuid Attributes Data v =
     bind_run (the_bank v b) (\<lambda>Bank.
     let Offset = SBTail Bank; VarSize = record_size VariableName (length Data); VarSize = VarSize + pad_size VarSize in
     bind_run (write_bank b Offset (record_bytes VariableName VendorGuid Attributes Data) v) (\<lambda>v.
     bind_run (RtVarUpdateStore devs b Offset VarSize v) (\<lambda>v.
     let v = upd_bank b (\<lambda>B. B\<lparr>SBTail := SBTail B + VarSize, SBInUse := SBInUse B + VarSize\<rparr>) v in
     bind_run (the_bank v b) (\<lambda>Bank. Ret (SBDeviceError Bank, v)))))"

text \<open>Marking the old record as obsolete; what it took does not count as in use any more.\<close>

definition retire ::
  "(nat \<Rightarrow> 'd EFI_VARIABLE_STORE) \<Rightarrow> VARIABLE_INFO \<Rightarrow> ('d, 'z) vars_scheme \<Rightarrow> (bool \<times> ('d, 'z) vars_scheme) run" where
  "retire devs Old v =
     (if VIValid Old
      then bind_run (RtVarUpdateState devs Old (VAR_OBSOLETE_TRANSITION OR VAR_OBSOLETE) v) (\<lambda>((Failed, _), v).
             Ret (Failed, upd_bank (VIBank Old) (\<lambda>B. B\<lparr>SBInUse := (SBInUse B + 2 ^ 64 - VIVarSize Old) mod 2 ^ 64\<rparr>) v))
      else Ret (False, v))"

text \<open>The value is the one the variable has already, in the same store.\<close>

definition unchanged ::
  "nat \<Rightarrow> UINT8 list \<Rightarrow> UINT8 list \<Rightarrow> VARIABLE_INFO \<Rightarrow> ('d, 'z) vars_scheme \<Rightarrow> bool run" where
  "unchanged i VendorGuid Data Old v =
     bind_run (the_bank v (VIBank Old)) (\<lambda>Bank.
       if SBVarStore Bank \<noteq> i then Ret False
       else bind_run (same_guid VendorGuid (SBData Bank) (VIVarOffset Old + 4)) (\<lambda>g.
            if \<not> g \<or> VIDataSize Old \<noteq> length Data then Ret False
            else bind_run (rd_bytes (SBData Bank) (VIDataOffset Old) (VIDataSize Old)) (\<lambda>d. Ret (d = Data))))"

text \<open>The update inside the critical section, for the store \<open>i\<close>, or for a removal.\<close>

definition set_body ::
  "(nat \<Rightarrow> 'd EFI_VARIABLE_STORE) \<Rightarrow> ('d, 'z) bank_alloc \<Rightarrow> nat \<Rightarrow> bool \<Rightarrow> nat option \<Rightarrow> UINT16 list \<Rightarrow> UINT8 list \<Rightarrow> UINT32
   \<Rightarrow> UINT8 list \<Rightarrow> ('d, 'z) vars_scheme \<Rightarrow> (EFI_STATUS \<times> ('d, 'z) vars_scheme) run"
where
  "set_body devs alloc n AtRuntime VarStore VariableName VendorGuid Attributes Data v =
     (let status = (\<lambda>Failed. if Failed then EFI_DEVICE_ERROR else EFI_SUCCESS) in
      case VarStore of
        None \<Rightarrow>
          bind_run (RtVarFind n AtRuntime VariableName VendorGuid v) (\<lambda>(_, Old).
            if \<not> VIValid Old then Ret (EFI_NOT_FOUND, v)
            else bind_run (retire devs Old v) (\<lambda>(Failed, v). Ret (status Failed, v)))
      | Some i \<Rightarrow>
          let VarSize = record_size VariableName (length Data) in
          bind_run (RtVarFindFreeSpace devs alloc AtRuntime n i (VarSize + pad_size VarSize) v) (\<lambda>((b, _), v).
            if b = 0 then Ret (EFI_OUT_OF_RESOURCES, v)
            else
              bind_run (RtVarFind n AtRuntime VariableName VendorGuid v) (\<lambda>(_, Old).
              bind_run (if VIValid Old then unchanged i VendorGuid Data Old v else Ret False) (\<lambda>same.
                if same then Ret (EFI_SUCCESS, v)
                else
                  bind_run (if VIValid Old then RtVarUpdateState devs Old VAR_OBSOLETE_TRANSITION v else Ret ((False, Old), v))
                    (\<lambda>((Failed, Old), v).
                    if Failed then Ret (EFI_DEVICE_ERROR, v)
                    else
                      bind_run (append_record devs b VariableName VendorGuid Attributes Data v) (\<lambda>(Failed, v).
                        if Failed then Ret (EFI_DEVICE_ERROR, v)
                        else bind_run (retire devs Old v) (\<lambda>(Failed, v). Ret (status Failed, v))))))))"

text \<open>
  The store a variable is kept in: that of its attributes, or, when it has no banks, the one that also serves the
  runtime.
\<close>

definition choose_store :: "('d, 'z) vars_scheme \<Rightarrow> UINT32 \<Rightarrow> nat option" where
  "choose_store v Attributes =
     (case VariableStoreType v (unat (Attributes AND 7)) of
        None \<Rightarrow> None
      | Some i \<Rightarrow>
          if VSActive (VariableStore v ! i) = [] \<and> Attributes AND EFI_VARIABLE_RUNTIME_ACCESS = 0
          then VariableStoreType v (unat ((Attributes OR EFI_VARIABLE_RUNTIME_ACCESS) AND 7))
          else Some i)"

text \<open>
  \<open>Data\<close> has \<open>DataSize\<close> bytes. Unlike the name, the pointer to the GUID is not checked here, so the
  GUID is there.
\<close>

definition RtSetVariable ::
  "(nat \<Rightarrow> 'd EFI_VARIABLE_STORE) \<Rightarrow> ('d, 'z) bank_alloc \<Rightarrow> ('d, 'z) vars_scheme notify_fn \<Rightarrow> nat
   \<Rightarrow> UINT16 list option \<Rightarrow> UINT8 list \<Rightarrow> UINT32 \<Rightarrow> UINT8 list \<Rightarrow> ('d, 'z) varst \<Rightarrow> (EFI_STATUS \<times> ('d, 'z) varst) run"
where
  "RtSetVariable devs alloc cb n VariableName VendorGuid Attributes Data s =
     (case VariableName of
        None \<Rightarrow> Ret (EFI_INVALID_PARAMETER, s)
      | Some name \<Rightarrow>
          if name = [] then Ret (EFI_INVALID_PARAMETER, s)
          else if EFI_MAXIMUM_VARIABLE_SIZE < length Data then Ret (EFI_INVALID_PARAMETER, s)
          else if Attributes AND NOT EFI_VARIABLE_VALID_ATTRIBUTES \<noteq> 0 then Ret (EFI_INVALID_PARAMETER, s)
          else if Attributes AND (EFI_VARIABLE_RUNTIME_ACCESS OR EFI_VARIABLE_BOOTSERVICE_ACCESS) = EFI_VARIABLE_RUNTIME_ACCESS
          then Ret (EFI_INVALID_PARAMETER, s)
          else
            let v = exec.more s; VarStore = (if Data = [] then None else choose_store v Attributes) in
            if EfiAtRuntime s \<and> (case VarStore of None \<Rightarrow> False | Some i \<Rightarrow> \<not> VSRuntimeUpdate (VariableStore v ! i))
            then Ret (EFI_UNSUPPORTED, s)
            else with_store cb n (set_body devs alloc n (EfiAtRuntime s) VarStore name VendorGuid Attributes Data) s)"

end
