(* ===== verification/VarRecords.thy ===== *)
theory VarRecords
  imports VarServices
begin

text \<open>
  The layout of the variable store: the bytes of a bank are those of its records, and the functions that walk
  them see the records.
\<close>

section \<open>Bytes\<close>

lemma bytes16_inverse: "ucast (ucast w :: UINT8) OR push_bit 8 (ucast (ucast (drop_bit 8 w) :: UINT8)) = (w :: UINT16)"
  by (rule bit_word_eqI) (auto simp: bit_simps)

lemma length_bytes16 [simp]: "length (bytes16 w) = 2"
  by (simp add: bytes16_def)

lemma rd16_at [simp]: "rd16 (pre @ bytes16 w @ post) (length pre) = Ret w"
  by (simp add: rd16_def bytes16_def bytes16_inverse nth_append)

lemma rd8_at: "rd8 (pre @ b # post) (length pre) = Ret b"
  by (simp add: rd8_def)

lemma rd_bytes_at: "length bs = k \<Longrightarrow> rd_bytes (pre @ bs @ post) (length pre) k = Ret bs"
  by (simp add: rd_bytes_def)

lemma wr_bytes_at: "length bs = length cs \<Longrightarrow> wr_bytes (length pre) bs (pre @ cs @ post) = Ret (pre @ bs @ post)"
  by (simp add: wr_bytes_def)

lemma name_bytes_simps [simp]:
  "name_bytes [] = []" "name_bytes (c # cs) = bytes16 c @ name_bytes cs" "name_bytes (a @ b) = name_bytes a @ name_bytes b"
  by (simp_all add: name_bytes_def)

lemma length_name_bytes [simp]: "length (name_bytes cs) = 2 * length cs"
  by (induction cs) simp_all

lemma bytes16_zero: "bytes16 w = [0, 0] \<longleftrightarrow> w = 0"
  using bytes16_inverse [of w] by (auto simp: bytes16_def)

lemma name_end_at:
  "0 \<notin> set cs \<Longrightarrow> length pre + 2 * length cs < S \<Longrightarrow>
   name_end (pre @ name_bytes cs @ bytes16 0 @ post) S (length pre) = Ret (Some (length pre + 2 * length cs))"
proof (induction cs arbitrary: pre)
  case Nil
  show ?case by (subst name_end.simps) (simp add: bytes16_def rd8_def nth_append)
next
  case (Cons c cs)
  have "bytes16 c \<noteq> [0, 0]" using Cons.prems(1) by (simp add: bytes16_zero)
  then obtain x y where c: "bytes16 c = [x, y]" "x \<noteq> 0 \<or> y \<noteq> 0" by (auto simp: bytes16_def)
  have "name_end ((pre @ bytes16 c) @ name_bytes cs @ bytes16 0 @ post) S (length (pre @ bytes16 c)) =
      Ret (Some (length (pre @ bytes16 c) + 2 * length cs))"
    by (rule Cons.IH) (use Cons.prems in simp_all)
  then have IH: "name_end (pre @ x # y # name_bytes cs @ bytes16 0 @ post) S (length pre + 2) = Ret (Some (length pre + 2 + 2 * length cs))"
    by (simp add: c)
  show ?case
    by (subst name_end.simps) (use c(2) Cons.prems(2) IH in \<open>auto simp: c(1) rd8_def nth_append\<close>)
qed

lemma same_name_at:
  "0 \<notin> set xs \<Longrightarrow> 0 \<notin> set cs \<Longrightarrow> same_name xs (pre @ name_bytes cs @ bytes16 0 @ post) (length pre) = Ret (xs = cs)"
proof (induction xs arbitrary: pre cs)
  case Nil
  then show ?case by (cases cs) auto
next
  case (Cons x xs)
  show ?case
  proof (cases cs)
    case Nil
    then show ?thesis using Cons.prems(1) by auto
  next
    case (Cons c cs')
    have "same_name xs ((pre @ bytes16 c) @ name_bytes cs' @ bytes16 0 @ post) (length (pre @ bytes16 c)) = Ret (xs = cs')"
      by (rule Cons.IH) (use Cons.prems Cons in simp_all)
    then show ?thesis using Cons by simp
  qed
qed

section \<open>Records\<close>

record var_entry =
  VEName :: "UINT16 list"
  VEGuid :: "UINT8 list"
  VEAttr :: UINT16
  VEData :: "UINT8 list"
  VEState :: UINT8
  VEPad :: "UINT8 list"

definition esize :: "var_entry \<Rightarrow> nat" where
  "esize e = record_size (VEName e) (length (VEData e))"

text \<open>The record up to its state, and all of it.\<close>

definition body :: "var_entry \<Rightarrow> UINT8 list" where
  "body e = bytes16 (of_nat (esize e)) @ bytes16 (VEAttr e) @ VEGuid e @ name_bytes (VEName e) @ bytes16 0 @ VEData e"

definition enc :: "var_entry \<Rightarrow> UINT8 list" where
  "enc e = body e @ VEState e # VEPad e"

definition entry_ok :: "var_entry \<Rightarrow> bool" where
  "entry_ok e \<longleftrightarrow> 0 \<notin> set (VEName e) \<and> length (VEGuid e) = 16 \<and> esize e \<le> 4095 \<and> length (VEPad e) = pad_size (esize e)"

definition valid :: "var_entry \<Rightarrow> bool" where
  "valid e \<longleftrightarrow> (VEState e XOR 0xFF) AND VAR_ADDED \<noteq> 0 \<and> (VEState e XOR 0xFF) AND VAR_OBSOLETE = 0"

definition live :: "var_entry \<Rightarrow> bool" where
  "live e \<longleftrightarrow> valid e \<and> (VEState e XOR 0xFF) AND VAR_OBSOLETE_TRANSITION = 0"

lemma length_body: "length (VEGuid e) = 16 \<Longrightarrow> length (body e) = esize e - 1" "1 \<le> esize e"
  by (simp_all add: body_def esize_def record_size_def StrSize_def)

lemma length_enc: "length (VEGuid e) = 16 \<Longrightarrow> length (enc e) = esize e + length (VEPad e)"
  using length_body [of e] by (simp add: enc_def)

lemma esize_bounds: "23 + length (VEData e) \<le> esize e"
  by (simp add: esize_def record_size_def StrSize_def)

lemma pad_less [simp]: "pad_size k < 4"
  by (simp add: pad_size_def)

text \<open>What is read of a record at an offset.\<close>

definition info_of :: "UINTN \<Rightarrow> nat \<Rightarrow> var_entry \<Rightarrow> VARIABLE_INFO" where
  "info_of b off e = \<lparr>VIValid = True, VIState = VEState e XOR 0xFF, VIBank = b, VIVarOffset = off, VIVarSize = esize e + pad_size (esize e),
     VINameOffset = off + 20, VIDataOffset = off + 20 + StrSize (VEName e), VIStateOffset = off + esize e - 1,
     VINextVarOffset = off + esize e + pad_size (esize e), VIAttributes = ucast (VEAttr e), VINameSize = StrSize (VEName e),
     VIDataSize = length (VEData e)\<rparr>"

lemma small_size:
  assumes "k \<le> 4095"
  shows "unat ((of_nat k :: UINT16) AND VAR_SIZE_MASK) = k" "(of_nat k :: UINT16) \<noteq> 0xFFFF"
proof -
  have m: "(0xFFF :: UINT16) = mask 12" by (simp add: mask_eq_exp_minus_1)
  have u: "unat (of_nat k :: UINT16) = k" using assms by (simp add: unsigned_of_nat take_bit_nat_eq_self)
  show "unat ((of_nat k :: UINT16) AND VAR_SIZE_MASK) = k"
    unfolding m take_bit_eq_mask [symmetric] using assms u by (simp add: unsigned_take_bit_eq take_bit_nat_eq_self)
  show "(of_nat k :: UINT16) \<noteq> 0xFFFF"
  proof
    assume "(of_nat k :: UINT16) = 0xFFFF"
    then have "k = unat (0xFFFF :: UINT16)" using u by simp
    then show False using assms by simp
  qed
qed

lemma parse_entry:
  assumes ok: "entry_ok e" and B: "Banks v b = Some B" and I: "VIBank I = b" "VINextVarOffset I = length pre"
    and d: "SBData B = pre @ enc e @ post" and tail: "length pre + length (enc e) \<le> SBTail B"
    and size: "SBBankSize B = length (SBData B)" "SBBankSize B < 2 ^ 32"
  shows "\<exists>I'. RtVarParseStore v I = Ret (True, I') \<and> VIBank I' = b \<and> VINextVarOffset I' = length pre + length (enc e) \<and>
     VIValid I' = valid e \<and> (valid e \<longrightarrow> I' = info_of b (length pre) e)"
proof -
  have g: "0 \<notin> set (VEName e)" "length (VEGuid e) = 16" "esize e \<le> 4095" "length (VEPad e) = pad_size (esize e)"
    using ok by (simp_all add: entry_ok_def)
  let ?o = "length pre" and ?s = "esize e"
  note len = length_enc [OF g(2)] and bl = length_body(1) [OF g(2)] length_body(2) [of e] and bd = esize_bounds [of e]
  have t: "\<not> SBTail B < ?o + 20 + 1 + 2 + 1" using tail len bd g(4)
  proof -
    have "24 \<le> ?s + length (VEPad e)" using bd g(4) by (cases "?s = 23") (auto simp: pad_size_def)
    then show ?thesis using tail len by simp
  qed
  have r1: "rd16 (SBData B) ?o = Ret (of_nat ?s)"
    using rd16_at [of pre "of_nat ?s"] by (simp add: d enc_def body_def)
  have r2: "rd16 (SBData B) (?o + 2) = Ret (VEAttr e)"
    using rd16_at [of "pre @ bytes16 (of_nat ?s)" "VEAttr e"] by (simp add: d enc_def body_def)
  have r3: "rd8 (SBData B) (?o + ?s - 1) = Ret (VEState e)"
    using rd8_at [of "pre @ body e" "VEState e" "VEPad e @ post"] bl bd by (simp add: d enc_def)
  have r4: "name_end (SBData B) (?o + ?s - 1) (?o + 20) = Ret (Some (?o + 20 + 2 * length (VEName e)))"
    using name_end_at [OF g(1), of "pre @ bytes16 (of_nat ?s) @ bytes16 (VEAttr e) @ VEGuid e" "?o + ?s - 1" "VEData e @ VEState e # VEPad e @ post"] g(2)
    by (simp add: d enc_def body_def esize_def record_size_def StrSize_def)
  have "?s + 2 ^ 64 - 20 + ?o = (?s - 20 + ?o) + 2 ^ 64" using bd by simp
  then have "(?s + 2 ^ 64 - 20 + ?o) mod 2 ^ 64 = (?s - 20 + ?o) mod 2 ^ 64" by (simp only: mod_add_self2)
  also have "\<dots> \<le> ?s - 20 + ?o" by simp
  also have "\<dots> \<le> SBBankSize B" using size len by (simp add: d)
  finally have tl: "\<not> too_large ?s ?o (SBBankSize B)" by (simp add: too_large_def)
  have "(?o + ?s - 1 + 2 ^ 64 - (?o + 20 + StrSize (VEName e))) mod 2 ^ 64 = length (VEData e)"
  proof -
    have "?o + ?s - 1 + 2 ^ 64 - (?o + 20 + StrSize (VEName e)) = length (VEData e) + 2 ^ 64"
      by (simp add: esize_def record_size_def)
    moreover have "length (VEData e) < 2 ^ 64" using bd g(3) by simp
    ultimately show ?thesis by (simp only: mod_add_self2 mod_less)
  qed
  then show ?thesis
    using r1 r2 r3 r4 tl t B I g(4)
    by (auto simp: RtVarParseStore_def the_bank_def small_size [OF g(3)] Let_def len valid_def info_of_def StrSize_def add.assoc)
qed

lemma parse_end:
  assumes "Banks v b = Some B" and "VIBank I = b" and "VINextVarOffset I = SBTail B"
  shows "\<exists>I'. RtVarParseStore v I = Ret (False, I')"
  using assms by (simp add: RtVarParseStore_def the_bank_def Let_def)

end
