(* ===== verification/VarRefine.thy ===== *)
theory VarRefine
  imports VarRecords
begin

text \<open>
  The banks of the variable store as lists of records, and the search for a variable: it finds a live record with
  the name and the GUID, in any bank of any store, if there is one.
\<close>

section \<open>Banks as lists of records\<close>

definition encs :: "var_entry list \<Rightarrow> UINT8 list" where
  "encs es = concat (map enc es)"

lemma encs_simps [simp]: "encs [] = []" "encs (e # es) = enc e @ encs es" "encs (xs @ ys) = encs xs @ encs ys"
  by (simp_all add: encs_def)

definition bank_rep :: "STORAGE_BANK \<Rightarrow> var_entry list \<Rightarrow> bool" where
  "bank_rep B es \<longleftrightarrow> list_all entry_ok es \<and> \<not> SBDeviceError B \<and> SBBankSize B = length (SBData B) \<and> SBBankSize B < 2 ^ 32 \<and>
     SBTail B = 8 + length (encs es) \<and> (\<exists>hdr rest. SBData B = hdr @ encs es @ rest \<and> length hdr = 8)"

text \<open>The offset of a record.\<close>

definition off :: "var_entry list \<Rightarrow> nat \<Rightarrow> nat" where
  "off es j = 8 + length (encs (take j es))"

lemma split_at: "j < length es \<Longrightarrow> encs es = encs (take j es) @ enc (es ! j) @ encs (drop (Suc j) es)"
  using id_take_nth_drop [of j es] by (metis encs_simps(2,3))

lemma bank_split:
  assumes "bank_rep B es" and "j < length es"
  shows "\<exists>pre post. SBData B = pre @ enc (es ! j) @ post \<and> length pre = off es j"
proof -
  obtain hdr rest where "SBData B = hdr @ encs es @ rest" "length hdr = 8" using assms(1) by (auto simp: bank_rep_def)
  then show ?thesis using split_at [OF assms(2)]
    by (intro exI [of _ "hdr @ encs (take j es)"] exI [of _ "encs (drop (Suc j) es) @ rest"]) (simp add: off_def)
qed

section \<open>Searching\<close>

definition hit :: "UINT16 list \<Rightarrow> UINT8 list \<Rightarrow> var_entry \<Rightarrow> bool" where
  "hit Name VendorGuid e \<longleftrightarrow> live e \<and> VEName e = Name \<and> VEGuid e = VendorGuid"

lemma matches_info:
  assumes "SBData B = pre @ enc e @ post" and "entry_ok e" and "valid e" and "0 \<notin> set Name"
  shows "matches_var False Name VendorGuid (SBData B) (info_of b (length pre) e) = Ret (hit Name VendorGuid e)"
proof -
  have g: "0 \<notin> set (VEName e)" "length (VEGuid e) = 16" using assms(2) by (simp_all add: entry_ok_def)
  have n: "same_name Name (SBData B) (length pre + 20) = Ret (Name = VEName e)"
    using same_name_at [OF assms(4) g(1), of "pre @ bytes16 (of_nat (esize e)) @ bytes16 (VEAttr e) @ VEGuid e"] g(2)
    by (simp add: assms(1) enc_def body_def)
  have u: "same_guid VendorGuid (SBData B) (length pre + 4) = Ret (VendorGuid = VEGuid e)"
    using rd_bytes_at [OF g(2), of "pre @ bytes16 (of_nat (esize e)) @ bytes16 (VEAttr e)"]
    by (simp add: same_guid_def assms(1) enc_def body_def)
  show ?thesis using n u assms(3) by (auto simp: matches_var_def info_of_def hit_def live_def)
qed

lemma find_in_bank_rep:
  assumes rep: "bank_rep B es" and B: "Banks v b = Some B" and name: "0 \<notin> set Name"
  shows "es = old @ new \<Longrightarrow> VIBank I = b \<Longrightarrow> VINextVarOffset I = 8 + length (encs old) \<Longrightarrow> length new < k \<Longrightarrow>
     \<exists>found I'. find_in_bank k False Name VendorGuid v I = Ret (found, I') \<and> (found \<longleftrightarrow> (\<exists>e\<in>set new. hit Name VendorGuid e)) \<and>
       (found \<longrightarrow> (\<exists>j<length es. hit Name VendorGuid (es ! j) \<and> I' = info_of b (off es j) (es ! j)))"
proof (induction new arbitrary: old I k)
  case Nil
  then obtain m where k: "k = Suc m" by (cases k) auto
  have "VINextVarOffset I = SBTail B" using Nil rep by (simp add: bank_rep_def)
  from parse_end [OF B Nil(2) this] show ?case by (auto simp: k)
next
  case (Cons e new)
  then obtain m where k: "k = Suc m" "length new < m" by (cases k) auto
  have j: "length old < length es" "es ! length old = e" using Cons.prems(1) by simp_all
  have ok: "entry_ok e" using rep Cons.prems(1) by (simp add: bank_rep_def)
  have o: "off es (length old) = 8 + length (encs old)" using Cons.prems(1) by (simp add: off_def)
  obtain pre post where d: "SBData B = pre @ enc e @ post" "length pre = off es (length old)"
    using bank_split [OF rep j(1)] j(2) by auto
  have sz: "SBBankSize B = length (SBData B)" "SBBankSize B < 2 ^ 32" "length pre + length (enc e) \<le> SBTail B"
    using rep Cons.prems(1) d(2) o by (simp_all add: bank_rep_def)
  have next0: "VINextVarOffset I = length pre" using Cons.prems(3) d(2) o by simp
  obtain I' where P: "RtVarParseStore v I = Ret (True, I')" "VIBank I' = b" "VINextVarOffset I' = length pre + length (enc e)"
      "VIValid I' = valid e" "valid e \<longrightarrow> I' = info_of b (length pre) e"
    using parse_entry [OF ok B Cons.prems(2) next0 d(1) sz(3,1,2)] by blast
  have hits: "matches_var False Name VendorGuid (SBData B) I' = Ret (hit Name VendorGuid e)"
  proof (cases "valid e")
    case True
    then show ?thesis using matches_info [OF d(1) ok _ name] P(5) by simp
  next
    case False
    then show ?thesis using P(4) by (simp add: matches_var_def hit_def live_def)
  qed
  have "VINextVarOffset I' = 8 + length (encs (old @ [e]))" using P(3) d(2) o by simp
  from Cons.IH [OF _ P(2) this k(2)] Cons.prems(1)
  obtain found I'' where R: "find_in_bank m False Name VendorGuid v I' = Ret (found, I'')" "found \<longleftrightarrow> (\<exists>e\<in>set new. hit Name VendorGuid e)"
      "found \<longrightarrow> (\<exists>j<length es. hit Name VendorGuid (es ! j) \<and> I'' = info_of b (off es j) (es ! j))" by auto
  show ?case
  proof (cases "hit Name VendorGuid e")
    case True
    then have "valid e" by (simp add: hit_def live_def)
    then have "I' = info_of b (off es (length old)) (es ! length old)" using P(5) d(2) j(2) by simp
    then show ?thesis using k(1) P(1,2) B hits True j by (auto simp: the_bank_def)
  next
    case False
    then show ?thesis using k(1) P(1,2) B hits R by (auto simp: the_bank_def)
  qed
qed

text \<open>The structure of the store: every active bank represents its records and knows its store.\<close>

definition bank_at :: "('d, 'z) vars_scheme \<Rightarrow> (UINTN \<Rightarrow> var_entry list) \<Rightarrow> nat \<Rightarrow> UINTN \<Rightarrow> bool" where
  "bank_at v E i b \<longleftrightarrow> b \<noteq> 0 \<and> (\<exists>B. Banks v b = Some B \<and> bank_rep B (E b) \<and> SBVarStore B = i)"

definition active :: "VARIABLE_STORE list \<Rightarrow> nat \<Rightarrow> UINTN \<Rightarrow> bool" where
  "active S i b \<longleftrightarrow> i < length S \<and> b \<in> set (VSActive (S ! i))"

definition structured :: "('d, 'z) vars_scheme \<Rightarrow> (UINTN \<Rightarrow> var_entry list) \<Rightarrow> bool" where
  "structured v E \<longleftrightarrow> (\<forall>i b. active (VariableStore v) i b \<longrightarrow> bank_at v E i b) \<and>
     (\<forall>a i. VariableStoreType v a = Some i \<longrightarrow> i < length (VariableStore v))"

lemma find_in_banks_rep:
  assumes name: "0 \<notin> set Name"
  shows "(\<And>b. b \<in> set bs \<Longrightarrow> (\<exists>B. Banks v b = Some B \<and> bank_rep B (E b)) \<and> length (E b) < n) \<Longrightarrow>
     \<exists>found I'. find_in_banks n False Name VendorGuid v bs I = Ret (found, I') \<and>
       (found \<longleftrightarrow> (\<exists>b\<in>set bs. \<exists>e\<in>set (E b). hit Name VendorGuid e)) \<and>
       (found \<longrightarrow> (\<exists>b\<in>set bs. \<exists>j<length (E b). hit Name VendorGuid (E b ! j) \<and> I' = info_of b (off (E b) j) (E b ! j)))"
proof (induction bs arbitrary: I)
  case (Cons b bs)
  obtain B where B: "Banks v b = Some B" "bank_rep B (E b)" "length (E b) < n" using Cons.prems [of b] by auto
  let ?I = "I\<lparr>VIBank := b, VINextVarOffset := FIRST_VARIABLE_OFFSET\<rparr>"
  obtain found I' where R: "find_in_bank n False Name VendorGuid v ?I = Ret (found, I')" "found \<longleftrightarrow> (\<exists>e\<in>set (E b). hit Name VendorGuid e)"
      "found \<longrightarrow> (\<exists>j<length (E b). hit Name VendorGuid (E b ! j) \<and> I' = info_of b (off (E b) j) (E b ! j))"
    using find_in_bank_rep [OF B(2,1) name, of "[]" "E b" ?I n VendorGuid] B(3) by auto
  obtain found2 I2 where R2: "find_in_banks n False Name VendorGuid v bs I' = Ret (found2, I2)"
      "found2 \<longleftrightarrow> (\<exists>b\<in>set bs. \<exists>e\<in>set (E b). hit Name VendorGuid e)"
      "found2 \<longrightarrow> (\<exists>b\<in>set bs. \<exists>j<length (E b). hit Name VendorGuid (E b ! j) \<and> I2 = info_of b (off (E b) j) (E b ! j))"
    using Cons.IH [OF Cons.prems [OF list.set_intros(2)], of I'] by blast
  show ?case
  proof (cases found)
    case True
    then show ?thesis using R by (intro exI [of _ True] exI [of _ I']) auto
  next
    case False
    then show ?thesis using R R2 by (intro exI [of _ found2] exI [of _ I2]) auto
  qed
next
  case Nil
  show ?case by (intro exI [of _ False] exI [of _ I]) simp
qed

lemma find_in_stores_rep:
  assumes name: "0 \<notin> set Name"
  shows "\<forall>V\<in>set Vs. \<forall>b\<in>set (VSActive V). (\<exists>B. Banks v b = Some B \<and> bank_rep B (E b)) \<and> length (E b) < n \<Longrightarrow>
     \<exists>found I'. find_in_stores n False Name VendorGuid v Vs I = Ret (found, I') \<and>
       (found \<longleftrightarrow> (\<exists>V\<in>set Vs. \<exists>b\<in>set (VSActive V). \<exists>e\<in>set (E b). hit Name VendorGuid e)) \<and>
       (found \<longrightarrow> (\<exists>V\<in>set Vs. \<exists>b\<in>set (VSActive V). \<exists>j<length (E b). hit Name VendorGuid (E b ! j) \<and> I' = info_of b (off (E b) j) (E b ! j)))"
proof (induction Vs arbitrary: I)
  case (Cons V Vs)
  obtain found I' where R: "find_in_banks n False Name VendorGuid v (VSActive V) I = Ret (found, I')"
      "found \<longleftrightarrow> (\<exists>b\<in>set (VSActive V). \<exists>e\<in>set (E b). hit Name VendorGuid e)"
      "found \<longrightarrow> (\<exists>b\<in>set (VSActive V). \<exists>j<length (E b). hit Name VendorGuid (E b ! j) \<and> I' = info_of b (off (E b) j) (E b ! j))"
    using find_in_banks_rep [OF name, of "VSActive V" v E n VendorGuid I] Cons.prems by auto
  have tail: "\<forall>V\<in>set Vs. \<forall>b\<in>set (VSActive V). (\<exists>B. Banks v b = Some B \<and> bank_rep B (E b)) \<and> length (E b) < n"
    using Cons.prems by simp
  obtain found2 I2 where R2: "find_in_stores n False Name VendorGuid v Vs I' = Ret (found2, I2)"
      "found2 \<longleftrightarrow> (\<exists>V\<in>set Vs. \<exists>b\<in>set (VSActive V). \<exists>e\<in>set (E b). hit Name VendorGuid e)"
      "found2 \<longrightarrow> (\<exists>V\<in>set Vs. \<exists>b\<in>set (VSActive V). \<exists>j<length (E b). hit Name VendorGuid (E b ! j) \<and> I2 = info_of b (off (E b) j) (E b ! j))"
    using Cons.IH [OF tail, of I'] by blast
  show ?case
  proof (cases found)
    case True
    then show ?thesis using R by (intro exI [of _ True] exI [of _ I']) auto
  next
    case False
    then show ?thesis using R R2 by (intro exI [of _ found2] exI [of _ I2]) auto
  qed
next
  case Nil
  show ?case by (intro exI [of _ False] exI [of _ I]) simp
qed

end
