(* ===== verification/VarUpdate.thy ===== *)
theory VarUpdate
  imports VarRefine
begin

text \<open>
  The effect of the writes of \<open>variable/varapi.c\<close> and \<open>variable/vario.c\<close> on the records of a bank: a
  change of the state of a record, and a new record behind the last.
\<close>

section \<open>Working devices\<close>

definition working :: "(nat \<Rightarrow> 'd EFI_VARIABLE_STORE) \<Rightarrow> bool" where
  "working devs \<longleftrightarrow> (\<forall>dev BankNo Offset bs d. \<not> EFI_ERROR (fst (UpdateStore (devs dev) BankNo Offset bs d)))"

text \<open>The interface of a device to the store: every update it is asked for succeeds.\<close>

locale variable_device =
  fixes devs :: "nat \<Rightarrow> 'd EFI_VARIABLE_STORE"
  assumes works: "working devs"
begin

lemma update_store_ok:
  assumes "Banks v b = Some B" and "\<not> SBDeviceError B" and "Offset + Size \<le> length (SBData B)"
  shows "\<exists>d. RtVarUpdateStore devs b Offset Size v = Ret (v\<lparr>Devices := d\<rparr>)"
proof -
  obtain Status d where u: "UpdateStore (devs (SBDevice B)) (SBBankNo B) Offset (take Size (drop Offset (SBData B))) (Devices v) = (Status, d)"
    by (meson surj_pair)
  have "\<not> EFI_ERROR Status" using works u unfolding working_def by (metis fst_conv)
  then show ?thesis using assms u by (auto simp: RtVarUpdateStore_def the_bank_def rd_bytes_def Let_def)
qed

end

lemma write_bank_at:
  assumes "Banks v b = Some B" and "SBData B = pre @ cs @ post" and "length bs = length cs"
  shows "write_bank b (length pre) bs v = Ret (v\<lparr>Banks := (Banks v)(b \<mapsto> B\<lparr>SBData := pre @ bs @ post\<rparr>)\<rparr>)"
  using assms wr_bytes_at [of bs cs pre post] by (simp add: write_bank_def the_bank_def upd_bank_def)

lemma bank_repI:
  assumes "list_all entry_ok es" and "\<not> SBDeviceError B" and "SBBankSize B = length (SBData B)" and "SBBankSize B < 2 ^ 32"
    and "SBData B = hdr @ encs es @ rest" and "length hdr = 8" and "SBTail B = 8 + length (encs es)"
  shows "bank_rep B es"
  using assms by (auto simp: bank_rep_def)

section \<open>The state of a record\<close>

definition with_state :: "UINT8 \<Rightarrow> var_entry \<Rightarrow> var_entry" where
  "with_state bits e = e\<lparr>VEState := ((VEState e XOR 0xFF) OR bits) XOR 0xFF\<rparr>"

lemma with_state_simps [simp]: "VEName (with_state bits e) = VEName e" "VEGuid (with_state bits e) = VEGuid e"
    "VEAttr (with_state bits e) = VEAttr e" "VEData (with_state bits e) = VEData e" "VEPad (with_state bits e) = VEPad e"
    "esize (with_state bits e) = esize e" "body (with_state bits e) = body e" "entry_ok (with_state bits e) = entry_ok e"
  by (simp_all add: with_state_def esize_def body_def entry_ok_def)

lemma length_enc_with_state [simp]: "length (enc (with_state bits e)) = length (enc e)"
  by (simp add: enc_def)

lemma not_live_with_state: "\<not> live (with_state VAR_OBSOLETE_TRANSITION e)"
    "\<not> live (with_state (VAR_OBSOLETE_TRANSITION OR VAR_OBSOLETE) e)"
proof -
  have "(x OR 1) AND 1 = (1 :: UINT8)" "(x OR 3) AND 1 = (1 :: UINT8)" for x
    by (rule bit_word_eqI; auto simp: bit_simps)+
  then show "\<not> live (with_state VAR_OBSOLETE_TRANSITION e)"
    "\<not> live (with_state (VAR_OBSOLETE_TRANSITION OR VAR_OBSOLETE) e)"
    by (simp_all add: live_def with_state_def xor.assoc)
qed

lemma encs_update:
  assumes "j < length es"
  shows "encs (es[j := e]) = encs (take j es) @ enc e @ encs (drop (Suc j) es)"
  using assms by (simp add: upd_conv_take_nth_drop)

context variable_device begin

lemma update_state_rep:
  assumes B: "Banks v b = Some B" and rep: "bank_rep B es" and j: "j < length es"
  shows "\<exists>d B'. RtVarUpdateState devs (info_of b (off es j) (es ! j)) bits v =
       Ret ((False, info_of b (off es j) (with_state bits (es ! j))), v\<lparr>Banks := (Banks v)(b \<mapsto> B'), Devices := d\<rparr>) \<and>
     bank_rep B' (es[j := with_state bits (es ! j)]) \<and> SBVarStore B' = SBVarStore B \<and> SBTail B' = SBTail B \<and> SBBankSize B' = SBBankSize B"
proof -
  let ?e = "es ! j" let ?e' = "with_state bits ?e" let ?st = "VEState ?e'"
  obtain hdr rest where d: "SBData B = hdr @ encs es @ rest" "length hdr = 8" using rep by (auto simp: bank_rep_def)
  have ok: "entry_ok ?e" using rep j by (simp add: bank_rep_def list_all_length)
  then have g: "length (VEGuid ?e) = 16" by (simp add: entry_ok_def)
  let ?pre = "hdr @ encs (take j es) @ body ?e" and ?post = "VEPad ?e @ encs (drop (Suc j) es) @ rest"
  have d1: "SBData B = ?pre @ [VEState ?e] @ ?post" using d split_at [OF j] by (simp add: enc_def)
  have o: "off es j + esize ?e - 1 = length ?pre" using d(2) length_body(1) [OF g] length_body(2) [of ?e] by (simp add: off_def)
  let ?B = "B\<lparr>SBData := ?pre @ [?st] @ ?post\<rparr>" let ?v = "v\<lparr>Banks := (Banks v)(b \<mapsto> ?B)\<rparr>"
  have w: "write_bank b (length ?pre) [?st] v = Ret ?v"
    by (rule write_bank_at [OF B d1]) simp
  have ne: "\<not> SBDeviceError ?B" using rep by (simp add: bank_rep_def)
  obtain x where u: "RtVarUpdateStore devs b (length ?pre) 1 ?v = Ret (?v\<lparr>Devices := x\<rparr>)"
    using update_store_ok [of ?v b ?B "length ?pre" 1] ne by auto
  have st: "?st = ((VEState ?e XOR 0xFF) OR bits) XOR 0xFF" by (simp add: with_state_def)
  have i: "info_of b (off es j) ?e\<lparr>VIState := (VEState ?e XOR 0xFF) OR bits\<rparr> = info_of b (off es j) ?e'"
    by (simp add: info_of_def st xor.assoc)
  have "RtVarUpdateState devs (info_of b (off es j) ?e) bits v = Ret ((False, info_of b (off es j) ?e'), ?v\<lparr>Devices := x\<rparr>)"
    using w u ne i unfolding RtVarUpdateState_def Let_def o [symmetric] st
    by (simp add: info_of_def the_bank_def)
  moreover have "bank_rep ?B (es[j := ?e'])"
    using rep j ok d d1 split_at [OF j]
    by (intro bank_repI [of _ _ hdr rest]) (auto simp: bank_rep_def list_all_length nth_list_update encs_update enc_def)
  ultimately show ?thesis by (intro exI [of _ x] exI [of _ ?B]) simp
qed

end

section \<open>A new record\<close>

definition new_entry :: "UINT16 list \<Rightarrow> UINT8 list \<Rightarrow> UINT32 \<Rightarrow> UINT8 list \<Rightarrow> UINT8 list \<Rightarrow> var_entry" where
  "new_entry Name VendorGuid Attributes Data pad =
     \<lparr>VEName = Name, VEGuid = VendorGuid, VEAttr = ucast Attributes, VEData = Data, VEState = 0xFF XOR VAR_ADDED, VEPad = pad\<rparr>"

lemma live_new_entry: "live (new_entry Name VendorGuid Attributes Data pad)"
  by (simp add: live_def valid_def new_entry_def)

lemma length_record_bytes:
  "length VendorGuid = 16 \<Longrightarrow> length (record_bytes Name VendorGuid Attributes Data) = record_size Name (length Data)"
  by (simp add: record_bytes_def record_size_def StrSize_def)

context variable_device begin

lemma append_record_at:
  assumes B: "Banks v b = Some B" "\<not> SBDeviceError B" "SBBankSize B = length (SBData B)"
    and d: "SBData B = pre @ rest" "length pre = SBTail B" and g: "length VendorGuid = 16"
    and size: "record_size Name (length Data) = k" and room: "SBTail B + (k + pad_size k) < SBBankSize B"
  shows "\<exists>x. append_record devs b Name VendorGuid Attributes Data v = Ret (False, v\<lparr>Banks := (Banks v)(b \<mapsto>
       B\<lparr>SBData := pre @ record_bytes Name VendorGuid Attributes Data @ drop k rest,
          SBTail := SBTail B + (k + pad_size k), SBInUse := SBInUse B + (k + pad_size k)\<rparr>), Devices := x\<rparr>)"
proof -
  let ?r = "record_bytes Name VendorGuid Attributes Data"
  have fit: "k + pad_size k \<le> length rest" using room B(3) d by simp
  have len: "length ?r = k" using length_record_bytes [OF g] size by simp
  let ?B = "B\<lparr>SBData := pre @ ?r @ drop k rest\<rparr>" let ?v = "v\<lparr>Banks := (Banks v)(b \<mapsto> ?B)\<rparr>"
  have d1: "SBData B = pre @ take k rest @ drop k rest" using d(1) by simp
  have w: "write_bank b (length pre) ?r v = Ret ?v" by (rule write_bank_at [OF B(1) d1]) (use len fit in simp)
  obtain x where u: "RtVarUpdateStore devs b (length pre) (k + pad_size k) ?v = Ret (?v\<lparr>Devices := x\<rparr>)"
    using update_store_ok [of ?v b ?B "length pre" "k + pad_size k"] B(2) len fit by auto
  show ?thesis using w u B(1,2) by (intro exI [of _ x]) (simp add: append_record_def the_bank_def d(2) size Let_def upd_bank_def)
qed

lemma append_record_rep:
  assumes B: "Banks v b = Some B" and rep: "bank_rep B es"
    and name: "0 \<notin> set Name" "length VendorGuid = 16" and size: "record_size Name (length Data) = k" "k \<le> 4095"
    and room: "SBTail B + (k + pad_size k) < SBBankSize B"
  shows "\<exists>d B' pad. append_record devs b Name VendorGuid Attributes Data v =
       Ret (False, v\<lparr>Banks := (Banks v)(b \<mapsto> B'), Devices := d\<rparr>) \<and>
     bank_rep B' (es @ [new_entry Name VendorGuid Attributes Data pad]) \<and> SBVarStore B' = SBVarStore B"
proof -
  obtain hdr rest where d: "SBData B = hdr @ encs es @ rest" "length hdr = 8" using rep by (auto simp: bank_rep_def)
  have t: "length (hdr @ encs es) = SBTail B" "SBBankSize B = length (SBData B)" "\<not> SBDeviceError B"
    using rep d by (simp_all add: bank_rep_def)
  have fit: "k + pad_size k \<le> length rest" using room d(1) t by simp
  let ?pad = "take (pad_size k) (drop k rest)" and ?post = "drop (k + pad_size k) rest"
  let ?e = "new_entry Name VendorGuid Attributes Data ?pad" and ?r = "record_bytes Name VendorGuid Attributes Data"
  have rest: "drop k rest = ?pad @ ?post" by (metis append_take_drop_id drop_drop add.commute)
  have es: "esize ?e = k" using size(1) by (simp add: esize_def new_entry_def)
  have enc: "enc ?e = ?r @ ?pad" using size(1) by (simp add: enc_def body_def esize_def new_entry_def record_bytes_def)
  have ok: "entry_ok ?e" using name size fit es by (simp add: entry_ok_def) (simp add: new_entry_def)
  let ?B = "B\<lparr>SBData := (hdr @ encs es) @ ?r @ drop k rest, SBTail := SBTail B + (k + pad_size k), SBInUse := SBInUse B + (k + pad_size k)\<rparr>"
  have d1: "SBData B = (hdr @ encs es) @ rest" using d(1) by simp
  obtain x where x: "append_record devs b Name VendorGuid Attributes Data v = Ret (False, v\<lparr>Banks := (Banks v)(b \<mapsto> ?B), Devices := x\<rparr>)"
    using append_record_at [OF B t(3,2) d1 t(1) name(2) size(1) room] by blast
  have len: "length ?r = k" using length_record_bytes [OF name(2)] size by simp
  have "bank_rep ?B (es @ [?e])"
    using rep ok d(2) t enc len d1 fit rest by (intro bank_repI [of _ _ hdr ?post]) (simp_all add: bank_rep_def)
  then show ?thesis using x by (intro exI [of _ x] exI [of _ ?B] exI [of _ ?pad]) simp
qed

end


end
