(* ===== verification/VarMap.thy ===== *)
theory VarMap
  imports VarUpdate
begin

text \<open>
  The variables as a map from their name and GUID to the store they are in, their attributes and their data, and
  what the functions of \<open>variable/varapi.c\<close> do to the map.
\<close>

section \<open>The map\<close>

type_synonym vmap = "UINT16 list \<times> UINT8 list \<rightharpoonup> nat \<times> UINT16 \<times> UINT8 list"

definition vkey :: "var_entry \<Rightarrow> UINT16 list \<times> UINT8 list" where
  "vkey e = (VEName e, VEGuid e)"

definition vvalue :: "nat \<Rightarrow> var_entry \<Rightarrow> nat \<times> UINT16 \<times> UINT8 list" where
  "vvalue i e = (i, VEAttr e, VEData e)"

definition is_rec :: "VARIABLE_STORE list \<Rightarrow> (UINTN \<Rightarrow> var_entry list) \<Rightarrow> nat \<Rightarrow> UINTN \<Rightarrow> nat \<Rightarrow> bool" where
  "is_rec S E i b j \<longleftrightarrow> active S i b \<and> j < length (E b) \<and> live (E b ! j)"

text \<open>
  The value at each position of a record; a map is the contents when it has exactly these values, each at one
  position.
\<close>

definition view :: "VARIABLE_STORE list \<Rightarrow> (UINTN \<Rightarrow> var_entry list) \<Rightarrow> nat \<times> UINTN \<times> nat
   \<Rightarrow> ((UINT16 list \<times> UINT8 list) \<times> nat \<times> UINT16 \<times> UINT8 list) option" where
  "view S E r = (case r of (i, b, j) \<Rightarrow> if is_rec S E i b j then Some (vkey (E b ! j), vvalue i (E b ! j)) else None)"

definition graph :: "('r \<Rightarrow> ('k \<times> 'x) option) \<Rightarrow> ('k \<rightharpoonup> 'x) \<Rightarrow> bool" where
  "graph f M \<longleftrightarrow> (\<forall>r k x. f r = Some (k, x) \<longrightarrow> M k = Some x) \<and> (\<forall>k x. M k = Some x \<longrightarrow> (\<exists>r. f r = Some (k, x))) \<and>
     (\<forall>r r' k x x'. f r = Some (k, x) \<longrightarrow> f r' = Some (k, x') \<longrightarrow> r = r')"

definition contents :: "VARIABLE_STORE list \<Rightarrow> (UINTN \<Rightarrow> var_entry list) \<Rightarrow> vmap \<Rightarrow> bool" where
  "contents S E M \<longleftrightarrow> graph (view S E) M"

lemma graphD: "graph f M \<Longrightarrow> f r = Some (k, x) \<Longrightarrow> M k = Some x"
    "graph f M \<Longrightarrow> M k = Some x \<Longrightarrow> \<exists>r. f r = Some (k, x)"
    "graph f M \<Longrightarrow> f r = Some (k, x) \<Longrightarrow> f r' = Some (k, x') \<Longrightarrow> r = r'"
  unfolding graph_def by blast+

lemma graph_remove:
  assumes g: "graph f M" and r: "f r = Some (k, x)"
  shows "graph (f(r := None)) (M(k := None))"
  unfolding graph_def
proof (intro conjI allI impI)
  fix r' k' x' assume a: "(f(r := None)) r' = Some (k', x')"
  then have b: "r' \<noteq> r" "f r' = Some (k', x')" by (auto split: if_splits)
  then have "k' \<noteq> k" using graphD(3) [OF g r, of r' x'] by auto
  then show "(M(k := None)) k' = Some x'" using graphD(1) [OF g b(2)] by simp
next
  fix k' x' assume "(M(k := None)) k' = Some x'"
  then have b: "k' \<noteq> k" "M k' = Some x'" by (auto split: if_splits)
  then obtain r' where r': "f r' = Some (k', x')" using graphD(2) [OF g] by blast
  then have "r' \<noteq> r" using r b(1) by auto
  then show "\<exists>r'. (f(r := None)) r' = Some (k', x')" using r' by auto
next
  fix r1 r2 k' x1 x2 assume "(f(r := None)) r1 = Some (k', x1)" "(f(r := None)) r2 = Some (k', x2)"
  then have "f r1 = Some (k', x1)" "f r2 = Some (k', x2)" by (auto split: if_splits)
  then show "r1 = r2" by (rule graphD(3) [OF g])
qed

lemma graph_insert:
  assumes g: "graph f M" and new: "f r = None" "M k = None"
  shows "graph (f(r \<mapsto> (k, x))) (M(k \<mapsto> x))"
  unfolding graph_def
proof (intro conjI allI impI)
  fix r' k' x' assume a: "(f(r \<mapsto> (k, x))) r' = Some (k', x')"
  show "(M(k \<mapsto> x)) k' = Some x'"
  proof (cases "r' = r")
    case True
    then show ?thesis using a by simp
  next
    case False
    then have "M k' = Some x'" using a graphD(1) [OF g] by simp
    then show ?thesis using new(2) by auto
  qed
next
  fix k' x' assume a: "(M(k \<mapsto> x)) k' = Some x'"
  show "\<exists>r'. (f(r \<mapsto> (k, x))) r' = Some (k', x')"
  proof (cases "k' = k")
    case True
    then show ?thesis using a by (intro exI [of _ r]) simp
  next
    case False
    then obtain r' where "f r' = Some (k', x')" using a graphD(2) [OF g] by fastforce
    then show ?thesis using new(1) by (intro exI [of _ r']) auto
  qed
next
  fix r1 r2 k' x1 x2 assume a: "(f(r \<mapsto> (k, x))) r1 = Some (k', x1)" "(f(r \<mapsto> (k, x))) r2 = Some (k', x2)"
  have b: "M k' = None" if "r1 = r \<or> r2 = r" using a new(2) that by auto
  show "r1 = r2"
  proof (cases "r1 = r \<or> r2 = r")
    case True
    then show ?thesis using a b graphD(1) [OF g] by (metis fun_upd_apply option.distinct(1))
  next
    case False
    then show ?thesis using a graphD(3) [OF g] by simp
  qed
qed

lemma view_update:
  assumes "\<not> live e"
  shows "view S (E(b := (E b)[j := e])) = (\<lambda>(i', b', j'). if b' = b \<and> j' = j then None else view S E (i', b', j'))"
proof
  fix r :: "nat \<times> UINTN \<times> nat"
  obtain i' b' j' where r: "r = (i', b', j')" by (metis prod_cases3)
  show "view S (E(b := (E b)[j := e])) r = (\<lambda>(i', b', j'). if b' = b \<and> j' = j then None else view S E (i', b', j')) r"
    using assms by (cases "j' = j"; cases "b' = b"; cases "j < length (E b)") (simp_all add: r view_def is_rec_def)
qed

lemma contents_kill:
  assumes c: "contents S E M" and r: "is_rec S E i b j" and dead: "\<not> live e"
  shows "contents S (E(b := (E b)[j := e])) (M(vkey (E b ! j) := None))"
proof -
  have v: "view S E (i, b, j) = Some (vkey (E b ! j), vvalue i (E b ! j))" using r by (simp add: view_def)
  have "i' = i" if "is_rec S E i' b j" for i'
    using graphD(3) [OF c [unfolded contents_def] v, of "(i', b, j)"] that by (simp add: view_def)
  then have "i' \<noteq> i \<Longrightarrow> view S E (i', b, j) = None" for i' by (auto simp: view_def)
  then have "view S (E(b := (E b)[j := e])) = (view S E)((i, b, j) := None)"
    by (auto simp: view_update [OF dead] fun_eq_iff)
  then show ?thesis using graph_remove [OF c [unfolded contents_def] v] by (simp add: contents_def)
qed

lemma contents_dead:
  assumes c: "contents S E M" and dead: "\<not> live (E b ! j)" "\<not> live e"
  shows "contents S (E(b := (E b)[j := e])) M"
proof -
  have "view S (E(b := (E b)[j := e])) = view S E"
    using dead(1) by (auto simp: view_update [OF dead(2)] fun_eq_iff view_def is_rec_def)
  then show ?thesis using c by (simp add: contents_def)
qed

lemma contents_append:
  assumes c: "contents S E M" and a: "active S i b" "\<And>i'. active S i' b \<Longrightarrow> i' = i" and new: "M (vkey e) = None" "live e"
  shows "contents S (E(b := E b @ [e])) (M(vkey e \<mapsto> vvalue i e))"
proof -
  have "view S (E(b := E b @ [e])) r = ((view S E)((i, b, length (E b)) \<mapsto> (vkey e, vvalue i e))) r" for r
  proof -
    obtain i' b' j' where r: "r = (i', b', j')" by (metis prod_cases3)
    show ?thesis
    proof (cases "b' = b")
      case False
      then show ?thesis by (simp add: r view_def is_rec_def)
    next
      case True
      show ?thesis
      proof (cases j' "length (E b)" rule: linorder_cases)
        case equal
        have last: "(E b @ [e]) ! length (E b) = e" by simp
        show ?thesis
        proof (cases "i' = i")
          case True
          then show ?thesis using \<open>b' = b\<close> equal a(1) new(2) last by (simp add: r view_def is_rec_def)
        next
          case False
          then have "\<not> active S i' b" using a(2) by blast
          then show ?thesis using False \<open>b' = b\<close> by (simp add: r view_def is_rec_def)
        qed
      qed (use True in \<open>simp_all add: r view_def is_rec_def nth_append\<close>)
    qed
  qed
  then have eq: "view S (E(b := E b @ [e])) = (view S E)((i, b, length (E b)) \<mapsto> (vkey e, vvalue i e))" by (rule ext)
  have "view S E (i, b, length (E b)) = None" by (simp add: view_def is_rec_def)
  from graph_insert [OF c [unfolded contents_def] this new(1)] show ?thesis unfolding contents_def eq .
qed

lemma contentsD:
  assumes "contents S E M"
  shows "is_rec S E i b j \<Longrightarrow> M (vkey (E b ! j)) = Some (vvalue i (E b ! j))"
    and "M k = Some x \<Longrightarrow> \<exists>i b j. is_rec S E i b j \<and> vkey (E b ! j) = k \<and> vvalue i (E b ! j) = x"
proof -
  show "is_rec S E i b j \<Longrightarrow> M (vkey (E b ! j)) = Some (vvalue i (E b ! j))"
    by (rule graphD(1) [OF assms [unfolded contents_def], of "(i, b, j)"]) (simp add: view_def)
  assume "M k = Some x"
  then obtain r where "view S E r = Some (k, x)" using graphD(2) [OF assms [unfolded contents_def]] by blast
  then show "\<exists>i b j. is_rec S E i b j \<and> vkey (E b ! j) = k \<and> vvalue i (E b ! j) = x"
    by (auto simp: view_def split: prod.splits if_splits)
qed

section \<open>Looking up\<close>

lemma structured_bank:
  assumes "structured v E" and "active (VariableStore v) i b"
  shows "\<exists>B. Banks v b = Some B \<and> bank_rep B (E b) \<and> SBVarStore B = i \<and> b \<noteq> 0"
  using assms by (auto simp: structured_def bank_at_def)

lemma RtVarFind_rep:
  assumes s: "structured v E" and c: "contents (VariableStore v) E M" and n: "\<forall>i b. active (VariableStore v) i b \<longrightarrow> length (E b) < n"
    and name: "0 \<notin> set Name"
  shows "(case M (Name, VendorGuid) of
       None \<Rightarrow> \<exists>I. RtVarFind n False Name VendorGuid v = Ret (EFI_NOT_FOUND, I) \<and> \<not> VIValid I
     | Some x \<Rightarrow> \<exists>i b j. is_rec (VariableStore v) E i b j \<and> vkey (E b ! j) = (Name, VendorGuid) \<and> x = vvalue i (E b ! j) \<and>
         RtVarFind n False Name VendorGuid v = Ret (EFI_SUCCESS, info_of b (off (E b) j) (E b ! j)))"
proof -
  have all: "\<forall>V\<in>set (VariableStore v). \<forall>b\<in>set (VSActive V). (\<exists>B. Banks v b = Some B \<and> bank_rep B (E b)) \<and> length (E b) < n"
  proof (intro ballI)
    fix V b assume "V \<in> set (VariableStore v)" "b \<in> set (VSActive V)"
    then obtain i where "active (VariableStore v) i b" by (auto simp: active_def in_set_conv_nth)
    then show "(\<exists>B. Banks v b = Some B \<and> bank_rep B (E b)) \<and> length (E b) < n" using structured_bank [OF s] n by blast
  qed
  obtain found I where F: "find_in_stores n False Name VendorGuid v (VariableStore v) (new_info 0 0) = Ret (found, I)"
      "found \<longleftrightarrow> (\<exists>V\<in>set (VariableStore v). \<exists>b\<in>set (VSActive V). \<exists>e\<in>set (E b). hit Name VendorGuid e)"
      "found \<longrightarrow> (\<exists>V\<in>set (VariableStore v). \<exists>b\<in>set (VSActive V). \<exists>j<length (E b).
         hit Name VendorGuid (E b ! j) \<and> I = info_of b (off (E b) j) (E b ! j))"
    using find_in_stores_rep [OF name all] by blast
  have hit: "hit Name VendorGuid e \<longleftrightarrow> live e \<and> vkey e = (Name, VendorGuid)" for e by (auto simp: hit_def vkey_def)
  show ?thesis
  proof (cases "M (Name, VendorGuid)")
    case None
    have "\<not> found"
    proof
      assume found
      then obtain V b j where "V \<in> set (VariableStore v)" "b \<in> set (VSActive V)" "j < length (E b)" "hit Name VendorGuid (E b ! j)"
        using F(3) by blast
      then obtain i where "is_rec (VariableStore v) E i b j" by (auto simp: is_rec_def active_def in_set_conv_nth hit)
      from contentsD(1) [OF c this] show False using None \<open>hit Name VendorGuid (E b ! j)\<close> by (simp add: hit)
    qed
    then show ?thesis using F(1) None by (simp add: RtVarFind_def)
  next
    case (Some x)
    then obtain i b j where r: "is_rec (VariableStore v) E i b j" "vkey (E b ! j) = (Name, VendorGuid)"
      using contentsD(2) [OF c] by blast
    then have found using F(2) unfolding is_rec_def active_def hit by (metis nth_mem)
    then obtain V b j where V: "V \<in> set (VariableStore v)" "b \<in> set (VSActive V)" "j < length (E b)"
        "hit Name VendorGuid (E b ! j)" "I = info_of b (off (E b) j) (E b ! j)" using F(3) by blast
    then obtain i where i: "is_rec (VariableStore v) E i b j" by (auto simp: is_rec_def active_def in_set_conv_nth hit)
    from contentsD(1) [OF c this] have "x = vvalue i (E b ! j)" using Some V(4) by (simp add: hit)
    then show ?thesis using F(1) \<open>found\<close> Some V(4,5) i hit by (auto simp: RtVarFind_def)
  qed
qed

end
