(* ===== verification/VarSet.thy ===== *)
theory VarSet
  imports VarMap TimerProps
begin

text \<open>
  The services on variables as operations on the map of variables: what \<open>RtGetVariable\<close> and
  \<open>RtSetVariable\<close> of \<open>variable/varapi.c\<close> return and leave behind, when the devices work and the store has room.
\<close>

section \<open>Steps on the banks\<close>

definition sizes :: "('d, 'z) vars_scheme \<Rightarrow> UINTN \<Rightarrow> (nat \<times> nat) option" where
  "sizes v b = map_option (\<lambda>B. (SBTail B, SBBankSize B)) (Banks v b)"

definition same_stores :: "('d, 'z) vars_scheme \<Rightarrow> ('d, 'z) vars_scheme \<Rightarrow> bool" where
  "same_stores v v' \<longleftrightarrow> VariableStore v' = VariableStore v \<and> VariableStoreType v' = VariableStoreType v"

lemma same_stores_trans: "same_stores v v' \<Longrightarrow> same_stores v' v'' \<Longrightarrow> same_stores v v''"
  by (simp add: same_stores_def)

lemma structured_update:
  assumes "structured v E" and "Banks v b = Some B" and "bank_rep B' es" and "SBVarStore B' = SBVarStore B"
    and "Banks v' = (Banks v)(b \<mapsto> B')" and "same_stores v v'"
  shows "structured v' (E(b := es))"
proof -
  have "bank_at v' (E(b := es)) i c" if "bank_at v E i c" for i c
    using that assms(2-5) by (cases "c = b") (auto simp: bank_at_def)
  then show ?thesis using assms(1,6) by (simp add: structured_def same_stores_def)
qed

context variable_device begin

lemma state_step:
  assumes s: "structured v E" and a: "active (VariableStore v) i b" and j: "j < length (E b)"
  shows "\<exists>v'. RtVarUpdateState devs (info_of b (off (E b) j) (E b ! j)) bits v =
       Ret ((False, info_of b (off (E b) j) (with_state bits (E b ! j))), v') \<and>
     structured v' (E(b := (E b)[j := with_state bits (E b ! j)])) \<and> same_stores v v' \<and> (\<forall>c. sizes v' c = sizes v c)"
proof -
  obtain B where B: "Banks v b = Some B" "bank_rep B (E b)" using structured_bank [OF s a] by blast
  obtain d B' where U: "RtVarUpdateState devs (info_of b (off (E b) j) (E b ! j)) bits v =
       Ret ((False, info_of b (off (E b) j) (with_state bits (E b ! j))), v\<lparr>Banks := (Banks v)(b \<mapsto> B'), Devices := d\<rparr>)"
     "bank_rep B' ((E b)[j := with_state bits (E b ! j)])" "SBVarStore B' = SBVarStore B"
     "SBTail B' = SBTail B" "SBBankSize B' = SBBankSize B"
    using update_state_rep [OF B j, of bits] by blast
  let ?v = "v\<lparr>Banks := (Banks v)(b \<mapsto> B'), Devices := d\<rparr>"
  have same: "same_stores v ?v" by (simp add: same_stores_def)
  have "structured ?v (E(b := (E b)[j := with_state bits (E b ! j)]))"
    by (rule structured_update [OF s B(1) U(2,3) _ same]) simp
  then show ?thesis using U(1,4,5) B(1) same by (intro exI [of _ ?v]) (simp add: sizes_def)
qed

lemma retire_step:
  assumes s: "structured v E" and a: "active (VariableStore v) i b" and j: "j < length (E b)"
  shows "\<exists>v'. retire devs (info_of b (off (E b) j) (E b ! j)) v = Ret (False, v') \<and>
     structured v' (E(b := (E b)[j := with_state (VAR_OBSOLETE_TRANSITION OR VAR_OBSOLETE) (E b ! j)])) \<and> same_stores v v'"
proof -
  let ?bits = "VAR_OBSOLETE_TRANSITION OR VAR_OBSOLETE" let ?I = "info_of b (off (E b) j) (E b ! j)"
  obtain v1 where v1: "RtVarUpdateState devs ?I ?bits v = Ret ((False, info_of b (off (E b) j) (with_state ?bits (E b ! j))), v1)"
      "structured v1 (E(b := (E b)[j := with_state ?bits (E b ! j)]))" "same_stores v v1"
    using state_step [where bits = ?bits, OF assms] by blast
  define f :: "STORAGE_BANK \<Rightarrow> STORAGE_BANK" where "f = (\<lambda>B. B\<lparr>SBInUse := (SBInUse B + 2 ^ 64 - VIVarSize ?I) mod 2 ^ 64\<rparr>)"
  have f: "bank_rep (f B) es = bank_rep B es" "SBVarStore (f B) = SBVarStore B" for B es by (simp_all add: f_def bank_rep_def)
  have r: "retire devs ?I v = Ret (False, upd_bank b f v1)"
    using v1(1) by (simp add: retire_def f_def) (simp add: info_of_def)
  have same: "same_stores v1 (upd_bank b f v1)" by (simp add: same_stores_def upd_bank_def)
  have "bank_at (upd_bank b f v1) E' i' c" if "bank_at v1 E' i' c" for E' i' c
    using that by (cases "c = b") (auto simp: bank_at_def upd_bank_def f)
  then have "structured (upd_bank b f v1) (E(b := (E b)[j := with_state ?bits (E b ! j)]))"
    using v1(2) by (simp add: structured_def upd_bank_def)
  then show ?thesis using r v1(3) same by (blast intro: same_stores_trans)
qed

lemma append_step:
  assumes s: "structured v E" and a: "active (VariableStore v) i b"
    and name: "0 \<notin> set Name" "length VendorGuid = 16" and size: "record_size Name (length Data) = k" "k \<le> 4095"
    and room: "sizes v b = Some (t, z)" "t + (k + pad_size k) < z"
  shows "\<exists>v' pad. append_record devs b Name VendorGuid Attributes Data v = Ret (False, v') \<and>
     structured v' (E(b := E b @ [new_entry Name VendorGuid Attributes Data pad])) \<and> same_stores v v'"
proof -
  obtain B where B: "Banks v b = Some B" "bank_rep B (E b)" using structured_bank [OF s a] by blast
  have "SBTail B + (k + pad_size k) < SBBankSize B" using room B(1) by (simp add: sizes_def)
  from append_record_rep [OF B name size this, of Attributes]
  obtain d B' pad where U: "append_record devs b Name VendorGuid Attributes Data v =
       Ret (False, v\<lparr>Banks := (Banks v)(b \<mapsto> B'), Devices := d\<rparr>)"
     "bank_rep B' (E b @ [new_entry Name VendorGuid Attributes Data pad])" "SBVarStore B' = SBVarStore B" by blast
  let ?v = "v\<lparr>Banks := (Banks v)(b \<mapsto> B'), Devices := d\<rparr>"
  have same: "same_stores v ?v" by (simp add: same_stores_def)
  have "structured ?v (E(b := E b @ [new_entry Name VendorGuid Attributes Data pad]))"
    by (rule structured_update [OF s B(1) U(2,3) _ same]) simp
  then show ?thesis using U(1) same by blast
qed

end

lemma off_simps: "off (es[j := e]) j = off es j" "j < length es \<Longrightarrow> off (es @ xs) j = off es j"
  by (simp_all add: off_def)

lemma find_space_some:
  "find_space v Size bs = Ret (Some b) \<Longrightarrow> b \<in> set bs \<and> (\<exists>B. Banks v b = Some B \<and> SBTail B + Size < SBBankSize B)"
  by (induction bs) (auto simp: the_bank_def split: option.splits if_splits)

lemma RtVarFindFreeSpace_room:
  assumes "find_space v Size (VSActive (VariableStore v ! i)) = Ret (Some b)" and "i < length (VariableStore v)" and "0 < n"
  shows "RtVarFindFreeSpace devs alloc AtRuntime n i Size v = Ret ((b, False), v)"
  using assms by (cases n) (simp_all add: RtVarFindFreeSpace_def the_store_def)

section \<open>The data of a record\<close>

lemma read_data:
  assumes "bank_rep B es" and "j < length es" and "info_of b (off es j) (es ! j) = I"
  shows "rd_bytes (SBData B) (VIDataOffset I) (VIDataSize I) = Ret (VEData (es ! j))"
    and "same_guid VendorGuid (SBData B) (VIVarOffset I + 4) = Ret (VendorGuid = VEGuid (es ! j))"
proof -
  let ?e = "es ! j"
  have g: "length (VEGuid ?e) = 16" using assms(1,2) by (simp add: bank_rep_def list_all_length entry_ok_def)
  obtain pre post where d: "SBData B = pre @ enc ?e @ post" "length pre = off es j" using bank_split [OF assms(1,2)] by blast
  let ?h = "bytes16 (of_nat (esize ?e)) @ bytes16 (VEAttr ?e)"
  show "rd_bytes (SBData B) (VIDataOffset I) (VIDataSize I) = Ret (VEData ?e)"
    using rd_bytes_at [of "VEData ?e" "length (VEData ?e)" "pre @ ?h @ VEGuid ?e @ name_bytes (VEName ?e) @ bytes16 0"
        "VEState ?e # VEPad ?e @ post"] g d(2)
    by (simp add: d(1) enc_def body_def assms(3) [symmetric] info_of_def StrSize_def add_ac)
  show "same_guid VendorGuid (SBData B) (VIVarOffset I + 4) = Ret (VendorGuid = VEGuid ?e)"
    using rd_bytes_at [OF g, of "pre @ ?h"] d(2)
    by (simp add: same_guid_def d(1) enc_def body_def assms(3) [symmetric] info_of_def)
qed

lemma unchanged_rep:
  assumes s: "structured v E" and r: "is_rec (VariableStore v) E i0 b j" and g: "VEGuid (E b ! j) = VendorGuid"
  shows "unchanged i VendorGuid Data (info_of b (off (E b) j) (E b ! j)) v = Ret (i0 = i \<and> VEData (E b ! j) = Data)"
proof -
  have a: "active (VariableStore v) i0 b" "j < length (E b)" using r by (simp_all add: is_rec_def)
  obtain B where B: "Banks v b = Some B" "bank_rep B (E b)" "SBVarStore B = i0" using structured_bank [OF s a(1)] by blast
  let ?I = "info_of b (off (E b) j) (E b ! j)"
  have i: "VIBank ?I = b" "VIDataSize ?I = length (VEData (E b ! j))" by (simp_all add: info_of_def)
  show ?thesis using B read_data [OF B(2) a(2) refl, where b = b] g i by (auto simp: unchanged_def the_bank_def)
qed

end
