(* ===== verification/VarDevice.thy ===== *)
theory VarDevice
  imports VarUpdate
begin

text \<open>
  The emulated device of \<open>variable/varstore.c\<close>: it keeps nothing, reads as erased memory and accepts every
  update, so it is a device of the kind the store relies on.
\<close>

definition RtClearStoreVirtual :: "nat \<Rightarrow> UINT8 list \<Rightarrow> 'd \<Rightarrow> EFI_STATUS \<times> UINT8 list \<times> 'd" where
  "RtClearStoreVirtual BankNo Scratch d = (EFI_SUCCESS, Scratch, d)"

definition RtReadStoreVirtual :: "nat \<Rightarrow> nat \<Rightarrow> nat \<Rightarrow> 'd \<Rightarrow> EFI_STATUS \<times> UINT8 list \<times> 'd" where
  "RtReadStoreVirtual BankNo Offset BufferSize d = (EFI_SUCCESS, replicate BufferSize 0xFF, d)"

definition RtUpdateStoreVirtual :: "nat \<Rightarrow> nat \<Rightarrow> UINT8 list \<Rightarrow> 'd \<Rightarrow> EFI_STATUS \<times> 'd" where
  "RtUpdateStoreVirtual BankNo Offset UserBuffer d = (EFI_SUCCESS, d)"

text \<open>The interface that \<open>InitNvVarStoreVirtual\<close> fills in; the entries it leaves zero are null.\<close>

definition NvVarStoreVirtual :: "UINTN \<Rightarrow> UINTN \<Rightarrow> UINTN \<Rightarrow> 'd EFI_VARIABLE_STORE" where
  "NvVarStoreVirtual Attributes BankSize NoBanks = \<lparr>DevAttributes = ucast Attributes, DevBankSize = unat (ucast BankSize :: UINT32),
     DevNoBanks = (\<lambda>_. unat (ucast NoBanks :: UINT32)), ClearStore = RtClearStoreVirtual, ReadStore = RtReadStoreVirtual,
     UpdateStore = RtUpdateStoreVirtual, SizeStore = None, TransactionUpdate = None\<rparr>"

lemma virtual_store_works: "working (\<lambda>_. NvVarStoreVirtual Attributes BankSize NoBanks)"
  by (simp add: working_def NvVarStoreVirtual_def RtUpdateStoreVirtual_def)

interpretation virtual: variable_device "\<lambda>_. NvVarStoreVirtual Attributes BankSize NoBanks"
  by unfold_locales (rule virtual_store_works)

end
