(* ===== verification/VarProps.thy ===== *)
theory VarProps
  imports VarSet VarDevice
begin

text \<open>
  The properties of the services on variables of \<open>variable/varapi.c\<close>.
\<close>

section \<open>The update of the map\<close>

text \<open>A value that is in the same store already keeps its attributes.\<close>

definition put :: "nat \<Rightarrow> UINT16 list \<times> UINT8 list \<Rightarrow> UINT32 \<Rightarrow> UINT8 list \<Rightarrow> vmap \<Rightarrow> vmap" where
  "put i k Attributes Data M =
     (case M k of
        None \<Rightarrow> M(k \<mapsto> (i, ucast Attributes, Data))
      | Some (i', a, d) \<Rightarrow> if i' = i \<and> d = Data then M else M(k \<mapsto> (i, ucast Attributes, Data)))"

definition variable_map :: "nat \<Rightarrow> ('d, 'z) vars_scheme \<Rightarrow> vmap \<Rightarrow> bool" where
  "variable_map k v M \<longleftrightarrow> (\<exists>E. structured v E \<and> (\<forall>i b. active (VariableStore v) i b \<longrightarrow> length (E b) \<le> k) \<and>
     contents (VariableStore v) E M)"

lemma variable_mapI:
  assumes "structured v' E'" and "contents (VariableStore v') E' M" and "same_stores v v'"
    and "\<And>i b. active (VariableStore v) i b \<Longrightarrow> length (E' b) \<le> k"
  shows "variable_map k v' M"
  using assms unfolding variable_map_def same_stores_def by metis

lemma stored_update [simp]: "vkey (with_state bits e) = vkey e" "vvalue i (with_state bits e) = vvalue i e"
  by (simp_all add: vkey_def vvalue_def)

lemma new_entry_key: "vkey (new_entry Name VendorGuid Attributes Data pad) = (Name, VendorGuid)"
    "vvalue i (new_entry Name VendorGuid Attributes Data pad) = (i, ucast Attributes, Data)"
  by (simp_all add: vkey_def vvalue_def new_entry_def)

lemma active_unique:
  assumes "structured v E" and "active (VariableStore v) i b" and "active (VariableStore v) i' b"
  shows "i' = i"
  using structured_bank [OF assms(1,2)] structured_bank [OF assms(1,3)] by auto

lemma info_of_simps [simp]: "VIValid (info_of b p e)"
  by (simp add: info_of_def)

context variable_device begin

lemma set_body_remove:
  assumes v: "variable_map k v M" and n: "k < n" and name: "0 \<notin> set Name"
  shows "\<exists>v'. set_body devs alloc n False None Name VendorGuid Attributes Data v =
       Ret (if M (Name, VendorGuid) = None then EFI_NOT_FOUND else EFI_SUCCESS, v') \<and>
     variable_map k v' (M((Name, VendorGuid) := None))"
proof -
  obtain E where E: "structured v E" "\<forall>i b. active (VariableStore v) i b \<longrightarrow> length (E b) \<le> k" "contents (VariableStore v) E M"
    using v unfolding variable_map_def by blast
  have short: "\<forall>i b. active (VariableStore v) i b \<longrightarrow> length (E b) < n" using E(2) n by (meson le_less_trans)
  note find = RtVarFind_rep [OF E(1,3) short name, of VendorGuid]
  show ?thesis
  proof (cases "M (Name, VendorGuid)")
    case None
    then obtain I where "RtVarFind n False Name VendorGuid v = Ret (EFI_NOT_FOUND, I)" "\<not> VIValid I" using find by auto
    moreover have "M((Name, VendorGuid) := None) = M" using None by auto
    ultimately show ?thesis using None v by (simp add: set_body_def)
  next
    case (Some x)
    then obtain i b j where r: "is_rec (VariableStore v) E i b j" "vkey (E b ! j) = (Name, VendorGuid)"
        "RtVarFind n False Name VendorGuid v = Ret (EFI_SUCCESS, info_of b (off (E b) j) (E b ! j))" using find by auto
    have a: "active (VariableStore v) i b" "j < length (E b)" using r(1) by (simp_all add: is_rec_def)
    let ?e = "with_state (VAR_OBSOLETE_TRANSITION OR VAR_OBSOLETE) (E b ! j)"
    obtain v' where v': "retire devs (info_of b (off (E b) j) (E b ! j)) v = Ret (False, v')"
        "structured v' (E(b := (E b)[j := ?e]))" "same_stores v v'" using retire_step [OF E(1) a] by blast
    have new: "contents (VariableStore v') (E(b := (E b)[j := ?e])) (M((Name, VendorGuid) := None))"
      using contents_kill [OF E(3) r(1) not_live_with_state(2) [of "E b ! j"]] v'(3) r(2) by (simp add: same_stores_def)
    have "variable_map k v' (M((Name, VendorGuid) := None))"
      by (rule variable_mapI [OF v'(2) new v'(3)]) (use E(2) in \<open>auto simp: le_SucI\<close>)
    then show ?thesis using r(3) v'(1) Some by (simp add: set_body_def)
  qed
qed

lemma set_body_put:
  assumes v: "variable_map k v M" and n: "k < n" and name: "0 \<notin> set Name" "length VendorGuid = 16"
    and size: "record_size Name (length Data) = l" "l \<le> 4095"
    and i: "i < length (VariableStore v)" and space: "find_space v (l + pad_size l) (VSActive (VariableStore v ! i)) = Ret (Some b)"
  shows "\<exists>v'. set_body devs alloc n False (Some i) Name VendorGuid Attributes Data v = Ret (EFI_SUCCESS, v') \<and>
     variable_map (Suc k) v' (put i (Name, VendorGuid) Attributes Data M)"
proof -
  obtain E where E: "structured v E" "\<forall>i b. active (VariableStore v) i b \<longrightarrow> length (E b) \<le> k" "contents (VariableStore v) E M"
    using v unfolding variable_map_def by blast
  have short: "\<forall>i b. active (VariableStore v) i b \<longrightarrow> length (E b) < n" using E(2) n by (meson le_less_trans)
  have free: "RtVarFindFreeSpace devs alloc False n i (l + pad_size l) v = Ret ((b, False), v)"
    by (rule RtVarFindFreeSpace_room [OF space i]) (use n in simp)
  obtain t z where room: "sizes v b = Some (t, z)" "t + (l + pad_size l) < z"
    using find_space_some [OF space] by (auto simp: sizes_def)
  have a: "active (VariableStore v) i b" using find_space_some [OF space] i by (simp add: active_def)
  have b0: "b \<noteq> 0" using structured_bank [OF E(1) a] by blast
  let ?k = "(Name, VendorGuid)" let ?new = "new_entry Name VendorGuid Attributes Data"
  note find = RtVarFind_rep [OF E(1,3) short name(1), of VendorGuid]
  show ?thesis
  proof (cases "M ?k")
    case None
    then obtain I where I: "RtVarFind n False Name VendorGuid v = Ret (EFI_NOT_FOUND, I)" "\<not> VIValid I" using find by auto
    obtain v1 pad where v1: "append_record devs b Name VendorGuid Attributes Data v = Ret (False, v1)"
        "structured v1 (E(b := E b @ [?new pad]))" "same_stores v v1"
      using append_step [OF E(1) a name size room, of Attributes] by blast
    have new: "contents (VariableStore v1) (E(b := E b @ [?new pad])) (put i ?k Attributes Data M)"
      using contents_append [OF E(3) a active_unique [OF E(1) a] _ live_new_entry, of Name VendorGuid Attributes Data pad] None v1(3)
      by (simp add: new_entry_key put_def same_stores_def)
    have "variable_map (Suc k) v1 (put i ?k Attributes Data M)"
      by (rule variable_mapI [OF v1(2) new v1(3)]) (use E(2) in \<open>auto simp: le_SucI\<close>)
    then show ?thesis using size(1) free I v1(1) b0 by (simp add: set_body_def retire_def Let_def)
  next
    case (Some x)
    then obtain i0 c j where r: "is_rec (VariableStore v) E i0 c j" "vkey (E c ! j) = ?k" "x = vvalue i0 (E c ! j)"
        "RtVarFind n False Name VendorGuid v = Ret (EFI_SUCCESS, info_of c (off (E c) j) (E c ! j))" using find by auto
    have c: "active (VariableStore v) i0 c" "j < length (E c)" using r(1) by (simp_all add: is_rec_def)
    let ?e = "E c ! j" let ?I = "info_of c (off (E c) j) ?e"
    have un: "unchanged i VendorGuid Data ?I v = Ret (i0 = i \<and> VEData ?e = Data)"
      using unchanged_rep [OF E(1) r(1)] r(2) by (simp add: vkey_def)
    show ?thesis
    proof (cases "i0 = i \<and> VEData ?e = Data")
      case True
      then have p: "put i ?k Attributes Data M = M" using Some r(3) by (simp add: put_def vvalue_def)
      have "variable_map (Suc k) v M" using E unfolding variable_map_def by (metis le_SucI)
      then show ?thesis using size(1) free r(4) un True b0 p by (simp add: set_body_def Let_def)
    next
      case False
      then have p: "put i ?k Attributes Data M = M(?k \<mapsto> (i, ucast Attributes, Data))"
        using Some r(3) by (auto simp: put_def vvalue_def)
      let ?e1 = "with_state VAR_OBSOLETE_TRANSITION ?e" let ?E1 = "E(c := (E c)[j := ?e1])"
      obtain v1 where v1: "RtVarUpdateState devs ?I VAR_OBSOLETE_TRANSITION v = Ret ((False, info_of c (off (E c) j) ?e1), v1)"
          "structured v1 ?E1" "same_stores v v1" "\<forall>c. sizes v1 c = sizes v c"
        using state_step [OF E(1) c, of VAR_OBSOLETE_TRANSITION] by blast
      have c1: "contents (VariableStore v) ?E1 (M(?k := None))"
        using contents_kill [OF E(3) r(1) not_live_with_state(1) [of ?e]] r(2) by simp
      have a1: "active (VariableStore v1) i b" using a v1(3) by (simp add: same_stores_def)
      obtain v2 pad where v2: "append_record devs b Name VendorGuid Attributes Data v1 = Ret (False, v2)"
          "structured v2 (?E1(b := ?E1 b @ [?new pad]))" "same_stores v1 v2"
        using append_step [OF v1(2) a1 name size _ room(2), of Attributes] v1(4) room(1) by metis
      let ?E2 = "?E1(b := ?E1 b @ [?new pad])"
      have c2: "contents (VariableStore v) ?E2 (M(?k \<mapsto> (i, ucast Attributes, Data)))"
        using contents_append [OF c1 a active_unique [OF E(1) a] _ live_new_entry, of Name VendorGuid Attributes Data pad]
        by (simp add: new_entry_key)
      have j2: "j < length (?E2 c)" "?E2 c ! j = ?e1" "off (?E2 c) j = off (E c) j"
        using c(2) by (auto simp: nth_append off_simps)
      have s2: "same_stores v v2" using v1(3) v2(3) by (rule same_stores_trans)
      have "active (VariableStore v2) i0 c" using c(1) s2 by (simp add: same_stores_def)
      let ?e3 = "with_state (VAR_OBSOLETE_TRANSITION OR VAR_OBSOLETE) ?e1" let ?E3 = "?E2(c := (?E2 c)[j := ?e3])"
      obtain v3 where v3: "retire devs (info_of c (off (E c) j) ?e1) v2 = Ret (False, v3)" "structured v3 ?E3" "same_stores v2 v3"
        using retire_step [OF v2(2) \<open>active (VariableStore v2) i0 c\<close> j2(1)] unfolding j2(2,3) by blast
      have s3: "same_stores v v3" using s2 v3(3) by (rule same_stores_trans)
      have "\<not> live (?E2 c ! j)" unfolding j2(2) by (rule not_live_with_state)
      have same3: "VariableStore v3 = VariableStore v" using s3 by (simp add: same_stores_def)
      have new: "contents (VariableStore v3) ?E3 (M(?k \<mapsto> (i, ucast Attributes, Data)))"
        unfolding same3 by (rule contents_dead [OF c2 \<open>\<not> live (?E2 c ! j)\<close> not_live_with_state(2)])
      have "variable_map (Suc k) v3 (M(?k \<mapsto> (i, ucast Attributes, Data)))"
        by (rule variable_mapI [OF v3(2) new s3]) (use E(2) in \<open>auto simp: le_SucI\<close>)
      then show ?thesis using size(1) free r(4) un False b0 v1(1) v2(1) v3(1) p by (simp add: set_body_def Let_def)
    qed
  qed
qed

end

section \<open>The services\<close>

text \<open>With nothing pending above the current level the lock of the store is transparent.\<close>

definition store_after :: "('d, 'z) vars_scheme \<Rightarrow> ('d, 'z) varst \<Rightarrow> ('d, 'z) varst" where
  "store_after v s = released VariableStoreLock ((AcquireLock VariableStoreLock s)\<lparr>exec.more := v\<rparr>)"

lemma store_after_simps [simp]: "exec_frame s (store_after v s)" "exec.more (store_after v s) = v"
    "EfiAtRuntime (store_after v s) = EfiAtRuntime s"
  by (simp_all add: store_after_def exec_frame_def released_def AcquireLock_def RaiseTPL_def Let_def)

lemma store_after_quiet [simp]: "quiet (store_after v s) = quiet s"
  using exec_frame_quiet [OF store_after_simps(1) [of s v]] .

lemma with_store_quiet:
  assumes "quiet s" and "2 \<le> n"
  shows "with_store cb n f s = bind_run (f (exec.more s)) (\<lambda>(r, v). Ret (r, store_after v s))"
proof -
  have o: "OwnerTpl (Locks ((AcquireLock VariableStoreLock s)\<lparr>exec.more := v\<rparr>) VariableStoreLock) = TPL s" for v by simp
  have "ReleaseLock cb n VariableStoreLock ((AcquireLock VariableStoreLock s)\<lparr>exec.more := v\<rparr>) = Ret (store_after v s)" for v
    unfolding store_after_def by (rule release_quiet) (use assms in \<open>simp_all add: quiet_def\<close>)
  then show ?thesis by (simp add: with_store_def Let_def AcquireLock_def RaiseTPL_def)
qed

text \<open>What reading a variable returns: its data, or the size that is needed for it.\<close>

definition get_result :: "vmap \<Rightarrow> UINT16 list \<times> UINT8 list \<Rightarrow> nat \<Rightarrow> EFI_STATUS \<times> nat option \<times> UINT32 option \<times> UINT8 list option" where
  "get_result M key room =
     (case M key of
        None \<Rightarrow> (EFI_NOT_FOUND, Some room, None, None)
      | Some (_, a, d) \<Rightarrow>
          if room < length d then (EFI_BUFFER_TOO_SMALL, Some (length d), None, None)
          else (EFI_SUCCESS, Some (length d), Some (ucast a), Some d))"

lemma get_body_map:
  assumes v: "variable_map k v M" and n: "k < n" and name: "0 \<notin> set Name"
  shows "get_body n False Name VendorGuid (Some room) True v = Ret (get_result M (Name, VendorGuid) room, v)"
proof -
  obtain E where E: "structured v E" "\<forall>i b. active (VariableStore v) i b \<longrightarrow> length (E b) \<le> k" "contents (VariableStore v) E M"
    using v unfolding variable_map_def by blast
  have short: "\<forall>i b. active (VariableStore v) i b \<longrightarrow> length (E b) < n" using E(2) n by (meson le_less_trans)
  note find = RtVarFind_rep [OF E(1,3) short name, of VendorGuid]
  show ?thesis
  proof (cases "M (Name, VendorGuid)")
    case None
    then obtain I where "RtVarFind n False Name VendorGuid v = Ret (EFI_NOT_FOUND, I)" using find by auto
    then show ?thesis using None by (simp add: get_body_def get_result_def)
  next
    case (Some x)
    then obtain i b j where r: "is_rec (VariableStore v) E i b j" "x = vvalue i (E b ! j)"
        "RtVarFind n False Name VendorGuid v = Ret (EFI_SUCCESS, info_of b (off (E b) j) (E b ! j))" using find by auto
    have a: "active (VariableStore v) i b" "j < length (E b)" using r(1) by (simp_all add: is_rec_def)
    obtain B where B: "Banks v b = Some B" "bank_rep B (E b)" using structured_bank [OF E(1) a(1)] by blast
    let ?I = "info_of b (off (E b) j) (E b ! j)"
    have I: "VIBank ?I = b" "VIDataSize ?I = length (VEData (E b ! j))" "VIAttributes ?I = ucast (VEAttr (E b ! j))"
      by (simp_all add: info_of_def)
    show ?thesis using r(3) Some r(2) B(1) read_data(1) [OF B(2) a(2) refl, where b = b] I
      by (simp add: get_body_def get_result_def vvalue_def the_bank_def)
  qed
qed

lemma get_variable_map:
  assumes "quiet s" and "\<not> EfiAtRuntime s" and "2 \<le> n" and "variable_map k (exec.more s) M" and "k < n" and "0 \<notin> set Name"
  shows "RtGetVariable cb n (Some Name) (Some VendorGuid) (Some room) True s =
     Ret (get_result M (Name, VendorGuid) room, store_after (exec.more s) s)"
  using assms(2) get_body_map [OF assms(4-6), of VendorGuid room] by (simp add: RtGetVariable_def with_store_quiet [OF assms(1,3)])

text \<open>Where a value goes: no data, or no store for the attributes, removes the variable.\<close>

definition target :: "('d, 'z) vars_scheme \<Rightarrow> UINT32 \<Rightarrow> UINT8 list \<Rightarrow> nat option" where
  "target v Attributes Data = (if Data = [] then None else choose_store v Attributes)"

definition new_map :: "('d, 'z) vars_scheme \<Rightarrow> UINT16 list \<times> UINT8 list \<Rightarrow> UINT32 \<Rightarrow> UINT8 list \<Rightarrow> vmap \<Rightarrow> vmap" where
  "new_map v key Attributes Data M =
     (case target v Attributes Data of None \<Rightarrow> M(key := None) | Some i \<Rightarrow> put i key Attributes Data M)"

text \<open>The store has room for the record, without a collection of garbage.\<close>

definition has_room :: "('d, 'z) vars_scheme \<Rightarrow> UINT32 \<Rightarrow> UINT8 list \<Rightarrow> nat \<Rightarrow> bool" where
  "has_room v Attributes Data l \<longleftrightarrow>
     (\<forall>i. target v Attributes Data = Some i \<longrightarrow> (\<exists>b. find_space v (l + pad_size l) (VSActive (VariableStore v ! i)) = Ret (Some b)))"

lemma choose_store_valid:
  assumes "structured v E" and "choose_store v Attributes = Some i"
  shows "i < length (VariableStore v)"
  using assms by (auto simp: choose_store_def structured_def split: option.splits if_splits)

context variable_device begin

lemma set_body_map:
  assumes v: "variable_map k v M" and n: "k < n" and name: "0 \<notin> set Name" "length VendorGuid = 16"
    and size: "record_size Name (length Data) \<le> 4095" and room: "has_room v Attributes Data (record_size Name (length Data))"
  shows "\<exists>v'. set_body devs alloc n False (target v Attributes Data) Name VendorGuid Attributes Data v =
       Ret (if target v Attributes Data = None \<and> M (Name, VendorGuid) = None then EFI_NOT_FOUND else EFI_SUCCESS, v') \<and>
     variable_map (Suc k) v' (new_map v (Name, VendorGuid) Attributes Data M)"
proof (cases "target v Attributes Data")
  case None
  obtain v' where v': "set_body devs alloc n False None Name VendorGuid Attributes Data v =
       Ret (if M (Name, VendorGuid) = None then EFI_NOT_FOUND else EFI_SUCCESS, v')" "variable_map k v' (M((Name, VendorGuid) := None))"
    using set_body_remove [OF v n name(1)] by blast
  have "variable_map (Suc k) v' (M((Name, VendorGuid) := None))" using v'(2) unfolding variable_map_def by (metis le_SucI)
  then show ?thesis using v'(1) None by (simp add: new_map_def)
next
  case (Some i)
  then have "choose_store v Attributes = Some i" by (simp add: target_def split: if_splits)
  then have i: "i < length (VariableStore v)" using v choose_store_valid unfolding variable_map_def by blast
  obtain b where b: "find_space v (record_size Name (length Data) + pad_size (record_size Name (length Data)))
      (VSActive (VariableStore v ! i)) = Ret (Some b)" using room Some unfolding has_room_def by blast
  from set_body_put [OF v n name refl size i b, of alloc Attributes]
  show ?thesis using Some by (simp add: new_map_def)
qed

lemma set_variable_map:
  assumes "quiet s" and "\<not> EfiAtRuntime s" and "2 \<le> n" and "k < n" and "variable_map k (exec.more s) M"
    and "Name \<noteq> []" and "0 \<notin> set Name" and "length VendorGuid = 16" and "length Data \<le> 1024"
    and "record_size Name (length Data) \<le> 4095" and "Attributes AND NOT 7 = 0" and "Attributes AND 6 \<noteq> 4"
    and "has_room (exec.more s) Attributes Data (record_size Name (length Data))"
  shows "\<exists>s'. RtSetVariable devs alloc cb n (Some Name) VendorGuid Attributes Data s =
       Ret (if target (exec.more s) Attributes Data = None \<and> M (Name, VendorGuid) = None then EFI_NOT_FOUND else EFI_SUCCESS, s') \<and>
     exec_frame s s' \<and> variable_map (Suc k) (exec.more s') (new_map (exec.more s) (Name, VendorGuid) Attributes Data M)"
proof -
  let ?v = "exec.more s"
  obtain v' where v': "set_body devs alloc n False (target ?v Attributes Data) Name VendorGuid Attributes Data ?v =
       Ret (if target ?v Attributes Data = None \<and> M (Name, VendorGuid) = None then EFI_NOT_FOUND else EFI_SUCCESS, v')"
     "variable_map (Suc k) v' (new_map ?v (Name, VendorGuid) Attributes Data M)"
    using set_body_map [OF assms(5,4,7,8,10,13)] by blast
  have "RtSetVariable devs alloc cb n (Some Name) VendorGuid Attributes Data s =
      with_store cb n (set_body devs alloc n False (target ?v Attributes Data) Name VendorGuid Attributes Data) s"
    using assms(2,6,9,11,12) by (simp add: RtSetVariable_def target_def Let_def)
  then show ?thesis using v' by (intro exI [of _ "store_after v' s"]) (simp add: with_store_quiet [OF assms(1,3)])
qed

end

text \<open>
  C39: the variable services are operations on a map. From a store that holds the map \<open>M\<close>, with devices that
  work and room for the record, \<open>RtSetVariable\<close> succeeds (or reports that there was nothing to remove) and the
  store then holds the map with the new value; a value that is there already, in the same store, is kept with its
  attributes. \<open>RtGetVariable\<close> returns what that map holds for any name, or the size of a buffer that is too small.
\<close>

theorem set_variable_refines_map:
  assumes "quiet s" and "\<not> EfiAtRuntime s" and "2 \<le> n" and "Suc k < n" and "working devs" and "variable_map k (exec.more s) M"
    and "Name \<noteq> []" and "0 \<notin> set Name" and "length VendorGuid = 16" and "length Data \<le> 1024"
    and "record_size Name (length Data) \<le> 4095" and "Attributes AND NOT 7 = 0" and "Attributes AND 6 \<noteq> 4"
    and "has_room (exec.more s) Attributes Data (record_size Name (length Data))" and "0 \<notin> set Name'"
  shows "\<exists>s' s''. RtSetVariable devs alloc cb n (Some Name) VendorGuid Attributes Data s =
       Ret (if target (exec.more s) Attributes Data = None \<and> M (Name, VendorGuid) = None then EFI_NOT_FOUND else EFI_SUCCESS, s') \<and>
     variable_map (Suc k) (exec.more s') (new_map (exec.more s) (Name, VendorGuid) Attributes Data M) \<and>
     RtGetVariable cb n (Some Name') (Some VendorGuid') (Some room) True s' =
       Ret (get_result (new_map (exec.more s) (Name, VendorGuid) Attributes Data M) (Name', VendorGuid') room, s'') \<and>
     exec_frame s s' \<and> exec_frame s' s'' \<and> exec.more s'' = exec.more s'"
proof -
  let ?M = "new_map (exec.more s) (Name, VendorGuid) Attributes Data M"
  obtain s' where s': "RtSetVariable devs alloc cb n (Some Name) VendorGuid Attributes Data s =
       Ret (if target (exec.more s) Attributes Data = None \<and> M (Name, VendorGuid) = None then EFI_NOT_FOUND else EFI_SUCCESS, s')"
      "exec_frame s s'" "variable_map (Suc k) (exec.more s') ?M"
    using variable_device.set_variable_map [OF variable_device.intro [OF assms(5)] assms(1-3) _ assms(6-14), of alloc cb] assms(4) by auto
  have q: "quiet s'" "\<not> EfiAtRuntime s'" using s'(2) exec_frame_quiet [OF s'(2)] assms(1,2) by (simp_all add: exec_frame_def)
  from get_variable_map [OF q assms(3) s'(3) assms(4,15), of cb VendorGuid' room] s'
  show ?thesis by (intro exI [of _ s'] exI [of _ "store_after (exec.more s') s'"]) simp
qed

section \<open>An example\<close>

text \<open>One store with one empty bank of 100 bytes, on the emulated device.\<close>

definition sample_bank :: "nat \<Rightarrow> STORAGE_BANK" where
  "sample_bank z = (new_bank 0 0 0 z (bank_header 1 0xFF @ replicate (z - 8) 0xFF))\<lparr>SBLinked := True, SBInUse := 8, SBTail := 8\<rparr>"

definition sample_vars :: "nat \<Rightarrow> unit vars" where
  "sample_vars z = \<lparr>Banks = [16 \<mapsto> sample_bank z], VariableStore = [(empty_store 2 EfiBootServicesData False)\<lparr>VSActive := [16]\<rparr>],
     VariableStoreType = [2 \<mapsto> 0], Devices = ()\<rparr>"

lemma sample_map:
  assumes "8 \<le> z" and "z < 2 ^ 32"
  shows "variable_map 0 (sample_vars z) Map.empty"
proof -
  have rep: "bank_rep (sample_bank z) []"
    by (rule bank_repI [of _ _ "bank_header 1 0xFF" "replicate (z - 8) 0xFF"])
       (use assms in \<open>simp_all add: sample_bank_def new_bank_def bank_header_def bytes16_def\<close>)
  have "structured (sample_vars z) (\<lambda>_. [])"
    using rep by (auto simp: structured_def sample_vars_def active_def bank_at_def less_Suc_eq sample_bank_def new_bank_def split: if_splits)
  moreover have "contents (VariableStore (sample_vars z)) (\<lambda>_. []) Map.empty"
    by (auto simp: contents_def graph_def view_def is_rec_def)
  ultimately show ?thesis unfolding variable_map_def by (intro exI [of _ "\<lambda>_. []"]) simp
qed

theorem set_variable_refines_map_witness:
  "\<exists>s' s''. RtSetVariable (\<lambda>_. NvVarStoreVirtual 2 100 1) (\<lambda>_ _ _. (EFI_OUT_OF_RESOURCES, 0, [])) (\<lambda>_ _ _ _. Fault) 5 (Some [65]) (replicate 16 0) 2 [7, 9]
       (idle_state 4 Map.empty (sample_vars 100)) = Ret (EFI_SUCCESS, s') \<and>
     RtGetVariable (\<lambda>_ _ _ _. Fault) 5 (Some [65]) (Some (replicate 16 0)) (Some 8) True s' =
       Ret ((EFI_SUCCESS, Some 2, Some 2, Some [7, 9]), s'')"
proof -
  let ?s = "idle_state 4 Map.empty (sample_vars 100)"
  have q: "quiet ?s" "\<not> EfiAtRuntime ?s" "exec.more ?s = sample_vars 100" by (simp_all add: quiet_def idle_state_def)
  have c: "choose_store (sample_vars 100) 2 = Some 0" by (simp add: choose_store_def sample_vars_def)
  have t: "target (sample_vars 100) 2 [7, 9] = Some 0" by (simp add: target_def c)
  have f: "find_space (sample_vars 100) 28 (VSActive (VariableStore (sample_vars 100) ! 0)) = Ret (Some 16)"
    by (simp add: sample_vars_def the_bank_def the_tsize_def sample_bank_def new_bank_def)
  have r: "has_room (sample_vars 100) 2 [7, 9] (record_size [65] (length [7 :: UINT8, 9]))"
    using f by (simp add: has_room_def t record_size_def StrSize_def pad_size_def)
  have w: "working (\<lambda>_. NvVarStoreVirtual 2 100 1 :: unit EFI_VARIABLE_STORE)" by (rule virtual.works)
  show ?thesis
    using set_variable_refines_map [of ?s 5 0 "\<lambda>_. NvVarStoreVirtual 2 100 1" Map.empty "[65]" "replicate 16 0" "[7, 9]" 2 "[65]"
        "\<lambda>_ _ _. (EFI_OUT_OF_RESOURCES, 0, [])" "\<lambda>_ _ _ _. Fault" "replicate 16 0" 8] q sample_map [of 100] w r
    by (auto simp: t new_map_def put_def get_result_def record_size_def StrSize_def)
qed

end
