(* ===== verification/VarHang.thy ===== *)
theory VarHang
  imports VarProps
begin

text \<open>
  The limit of the size of a record. The header of a record has 12 bits for its size, and \<open>RtSetVariable\<close> of
  \<open>variable/varapi.c\<close> bounds the data of a variable but not its name.
\<close>

section \<open>A record of 4096 bytes\<close>

lemma parse_long_record:
  assumes B: "Banks v (VIBank I) = Some B" and d: "SBData B = pre @ record_bytes Name VendorGuid Attributes Data @ post"
    and name: "Name \<noteq> []" "0 \<notin> set Name" "length VendorGuid = 16" and size: "record_size Name (length Data) = 4096"
    and at: "VINextVarOffset I = length pre" "20 \<le> length pre" "length pre + 4096 \<le> SBTail B"
    and bank: "SBBankSize B = length (SBData B)" "SBBankSize B < 2 ^ 32"
  shows "\<exists>I'. RtVarParseStore v I = Ret (True, I') \<and> VIBank I' = VIBank I \<and> VINextVarOffset I' = length pre \<and> \<not> VIValid I'"
proof -
  obtain c cs where n: "Name = c # cs" "c \<noteq> 0" using name(1,2) by (cases Name) auto
  let ?r = "bytes16 (of_nat 4096) @ bytes16 (ucast Attributes) @ VendorGuid"
  have d1: "SBData B = pre @ ?r @ bytes16 c @ name_bytes (cs @ [0]) @ Data @ (0xFF XOR VAR_ADDED) # post"
    using d size n by (simp add: record_bytes_def)
  have r1: "rd16 (SBData B) (length pre) = Ret 0x1000" using rd16_at [of pre "of_nat 4096"] by (simp add: d1)
  have r2: "\<exists>a. rd16 (SBData B) (length pre + 2) = Ret a"
    using rd16_at [of "pre @ bytes16 (of_nat 4096)" "ucast Attributes"] by (auto simp: d1)
  have r3: "\<exists>st. rd8 (SBData B) (length pre - 1) = Ret st" using at(2) by (simp add: rd8_def d1)
  have "bytes16 c \<noteq> [0, 0]" using n(2) by (simp add: bytes16_zero)
  then obtain x y where c: "bytes16 c = [x, y]" "x \<noteq> 0 \<or> y \<noteq> 0" by (auto simp: bytes16_def)
  have x: "rd8 (SBData B) (length pre + 20) = Ret x" "rd8 (SBData B) (length pre + 21) = Ret y"
    using rd8_at [of "pre @ ?r" x "y # name_bytes (cs @ [0]) @ Data @ (0xFF XOR VAR_ADDED) # post"]
      rd8_at [of "pre @ ?r @ [x]" y "name_bytes (cs @ [0]) @ Data @ (0xFF XOR VAR_ADDED) # post"] name(3)
    by (simp_all add: d1 c(1))
  have at1: "length pre + 20 + 1 = length pre + 21" and le: "(length pre - 1 \<le> length pre + 20) = True" by simp_all
  have c': "x = 0 \<Longrightarrow> (y \<noteq> 0) = True" using c(2) by simp
  have r4: "name_end (SBData B) (length pre - 1) (length pre + 20) = Ret None"
    by (cases "x = 0") (simp_all only: name_end.simps [of _ _ "length pre + 20"] x at1 le bind_run.simps c' if_True if_False simp_thms refl)
  have "(0 + 2 ^ 64 - 20 + length pre) mod 2 ^ 64 = length pre - 20"
  proof -
    have "0 + 2 ^ 64 - 20 + length pre = (length pre - 20) + 2 ^ 64" using at(2) by simp
    moreover have "length pre - 20 < 2 ^ 64" using bank by (simp add: d1)
    ultimately show ?thesis by (simp only: mod_add_self2 mod_less)
  qed
  then have tl: "\<not> too_large 0 (length pre) (SBBankSize B)" using bank(1) by (simp add: too_large_def d1)
  obtain a st where r: "rd16 (SBData B) (length pre + 2) = Ret a" "rd8 (SBData B) (length pre - 1) = Ret st" using r2 r3 by blast
  show ?thesis
    using r1 r r4 tl B at
    by (cases "(st XOR 255) AND 128 = 0 \<or> (st XOR 255) AND 2 \<noteq> 0")
       (auto simp: RtVarParseStore_def the_bank_def Let_def pad_size_def simp del: bind_run_Ret)
qed

text \<open>Once the search stands at the record it stays there.\<close>

lemma find_stuck:
  assumes bad: "\<And>I. VIBank I = b \<Longrightarrow> VINextVarOffset I = t \<Longrightarrow>
      \<exists>I'. RtVarParseStore v I = Ret (True, I') \<and> VIBank I' = b \<and> VINextVarOffset I' = t \<and> \<not> VIValid I'"
    and B: "Banks v b = Some B"
  shows "VIBank I = b \<Longrightarrow> VINextVarOffset I = t \<Longrightarrow> find_in_bank k False Name VendorGuid v I = NoFuel"
proof (induction k arbitrary: I)
  case (Suc k)
  obtain I' where I': "RtVarParseStore v I = Ret (True, I')" "VIBank I' = b" "VINextVarOffset I' = t" "\<not> VIValid I'"
    using bad [OF Suc.prems] by blast
  then show ?case using Suc.IH [OF I'(2,3)] B by (simp add: matches_var_def the_bank_def)
qed simp

lemma find_reaches:
  assumes B: "Banks v b = Some B" and name: "0 \<notin> set Name" and d: "SBData B = hdr @ encs es @ rest" "length hdr = 8"
    and es: "list_all entry_ok es" and bank: "8 + length (encs es) \<le> SBTail B" "SBBankSize B = length (SBData B)" "SBBankSize B < 2 ^ 32"
    and stuck: "\<And>k I. VIBank I = b \<Longrightarrow> VINextVarOffset I = 8 + length (encs es) \<Longrightarrow> find_in_bank k False Name VendorGuid v I = NoFuel"
  shows "es = old @ new \<Longrightarrow> \<forall>e\<in>set new. \<not> hit Name VendorGuid e \<Longrightarrow> VIBank I = b \<Longrightarrow>
     VINextVarOffset I = 8 + length (encs old) \<Longrightarrow> find_in_bank k False Name VendorGuid v I = NoFuel"
proof (induction new arbitrary: old I k)
  case Nil
  then show ?case using stuck [of I k] by simp
next
  case (Cons e new)
  show ?case
  proof (cases k)
    case (Suc m)
    let ?pre = "hdr @ encs old" and ?post = "encs new @ rest"
    have ok: "entry_ok e" using es Cons.prems(1) by simp
    have d1: "SBData B = ?pre @ enc e @ ?post" using d(1) Cons.prems(1) by simp
    have p: "length ?pre + length (enc e) \<le> SBTail B" "VINextVarOffset I = length ?pre"
      using bank(1) Cons.prems(1,4) d(2) by simp_all
    obtain I' where P: "RtVarParseStore v I = Ret (True, I')" "VIBank I' = b" "VINextVarOffset I' = length ?pre + length (enc e)"
        "VIValid I' = valid e" "valid e \<longrightarrow> I' = info_of b (length ?pre) e"
      using parse_entry [OF ok B Cons.prems(3) p(2) d1 p(1) bank(2,3)] by blast
    have m: "matches_var False Name VendorGuid (SBData B) I' = Ret False"
    proof (cases "valid e")
      case True
      then show ?thesis using matches_info [OF d1 ok _ name, of VendorGuid b] P(5) Cons.prems(2) by simp
    next
      case False
      then show ?thesis using P(4) by (simp add: matches_var_def)
    qed
    have "find_in_bank m False Name VendorGuid v I' = NoFuel"
      by (rule Cons.IH [of "old @ [e]"]) (use Cons.prems P(2,3) d(2) in simp_all)
    then show ?thesis using Suc P(1,2) B m by (simp add: the_bank_def)
  qed simp
qed

section \<open>The search does not depend on the fuel\<close>

lemma find_in_bank_more:
  "find_in_bank k rt Name VendorGuid v I \<noteq> NoFuel \<Longrightarrow> find_in_bank (k + m) rt Name VendorGuid v I = find_in_bank k rt Name VendorGuid v I"
proof (induction k arbitrary: I)
  case (Suc k)
  show ?case
  proof (cases "RtVarParseStore v I")
    case (Ret r)
    then obtain more I' where r: "RtVarParseStore v I = Ret (more, I')" by (cases r) auto
    show ?thesis
    proof (cases "the_bank v (VIBank I')")
      case (Ret B)
      then show ?thesis
        using Suc r by (cases "matches_var rt Name VendorGuid (SBData B) I'") (auto simp del: bind_run_Ret)
    qed (use r in \<open>simp_all add: the_bank_def split: option.splits\<close>)
  qed simp_all
qed simp

text \<open>A search that finds nothing, and one that does not end, with any fuel.\<close>

definition nothing :: "(bool \<times> VARIABLE_INFO) run \<Rightarrow> bool" where
  "nothing r \<longleftrightarrow> r = NoFuel \<or> (\<exists>I. r = Ret (False, I))"

definition searched :: "UINT16 list \<Rightarrow> UINT8 list \<Rightarrow> ('d, 'z) vars_scheme \<Rightarrow> UINTN \<Rightarrow> bool" where
  "searched Name VendorGuid v b \<longleftrightarrow>
     (\<forall>k I. VIBank I = b \<longrightarrow> VINextVarOffset I = 8 \<longrightarrow> nothing (find_in_bank k False Name VendorGuid v I))"

definition stuck :: "UINT16 list \<Rightarrow> UINT8 list \<Rightarrow> ('d, 'z) vars_scheme \<Rightarrow> UINTN \<Rightarrow> bool" where
  "stuck Name VendorGuid v b \<longleftrightarrow>
     (\<forall>k I. VIBank I = b \<longrightarrow> VINextVarOffset I = 8 \<longrightarrow> find_in_bank k False Name VendorGuid v I = NoFuel)"

lemma stuck_searched: "stuck Name VendorGuid v b \<Longrightarrow> searched Name VendorGuid v b"
  by (simp add: stuck_def searched_def nothing_def)

lemma searched_bank:
  assumes B: "Banks v b = Some B" "bank_rep B es" and name: "0 \<notin> set Name" and none: "\<forall>e\<in>set es. \<not> hit Name VendorGuid e"
  shows "searched Name VendorGuid v b"
  unfolding searched_def
proof (intro allI impI)
  fix k and I :: VARIABLE_INFO assume at: "VIBank I = b" "VINextVarOffset I = 8"
  show "nothing (find_in_bank k False Name VendorGuid v I)"
  proof (cases "find_in_bank k False Name VendorGuid v I = NoFuel")
    case False
    obtain I' where "find_in_bank (k + Suc (length es)) False Name VendorGuid v I = Ret (False, I')"
      using find_in_bank_rep [OF B(2,1) name, of "[]" es I "k + Suc (length es)" VendorGuid] at none by auto
    then have "find_in_bank k False Name VendorGuid v I = Ret (False, I')"
      unfolding find_in_bank_more [OF False, of "Suc (length es)"] .
    then show ?thesis by (simp add: nothing_def)
  qed (simp add: nothing_def)
qed

lemma banks_nothing:
  "\<forall>b\<in>set bs. searched Name VendorGuid v b \<Longrightarrow> nothing (find_in_banks k False Name VendorGuid v bs I)"
proof (induction bs arbitrary: I)
  case (Cons c bs)
  have "nothing (find_in_bank k False Name VendorGuid v (I\<lparr>VIBank := c, VINextVarOffset := FIRST_VARIABLE_OFFSET\<rparr>))"
    using Cons.prems by (simp add: searched_def)
  then consider "find_in_bank k False Name VendorGuid v (I\<lparr>VIBank := c, VINextVarOffset := FIRST_VARIABLE_OFFSET\<rparr>) = NoFuel"
    | I' where "find_in_bank k False Name VendorGuid v (I\<lparr>VIBank := c, VINextVarOffset := FIRST_VARIABLE_OFFSET\<rparr>) = Ret (False, I')"
    unfolding nothing_def by blast
  then show ?case
  proof cases
    case 2
    then show ?thesis using Cons.IH [of I'] Cons.prems by simp
  qed (simp add: nothing_def)
qed (simp add: nothing_def)

lemma banks_stuck:
  "\<forall>b\<in>set bs. searched Name VendorGuid v b \<Longrightarrow> b \<in> set bs \<Longrightarrow> stuck Name VendorGuid v b \<Longrightarrow>
   find_in_banks k False Name VendorGuid v bs I = NoFuel"
proof (induction bs arbitrary: I)
  case (Cons c bs)
  have "nothing (find_in_bank k False Name VendorGuid v (I\<lparr>VIBank := c, VINextVarOffset := FIRST_VARIABLE_OFFSET\<rparr>))"
    using Cons.prems(1) by (simp add: searched_def)
  moreover have "find_in_bank k False Name VendorGuid v (I\<lparr>VIBank := b, VINextVarOffset := FIRST_VARIABLE_OFFSET\<rparr>) = NoFuel"
    using Cons.prems(3) by (simp add: stuck_def)
  ultimately show ?case using Cons by (cases "c = b") (auto simp: nothing_def)
qed simp

lemma stores_stuck:
  "\<forall>V\<in>set Vs. \<forall>b\<in>set (VSActive V). searched Name VendorGuid v b \<Longrightarrow> V \<in> set Vs \<Longrightarrow> b \<in> set (VSActive V) \<Longrightarrow>
   stuck Name VendorGuid v b \<Longrightarrow> find_in_stores k False Name VendorGuid v Vs I = NoFuel"
proof (induction Vs arbitrary: I)
  case (Cons W Vs)
  have "nothing (find_in_banks k False Name VendorGuid v (VSActive W) I)" using Cons.prems(1) by (intro banks_nothing) simp
  moreover have "W = V \<Longrightarrow> find_in_banks k False Name VendorGuid v (VSActive W) I = NoFuel"
    by (rule banks_stuck [OF _ _ Cons.prems(4)]) (use Cons.prems in auto)
  ultimately show ?case using Cons by (cases "W = V") (auto simp: nothing_def)
qed simp

section \<open>The services\<close>

lemma stuck_bank:
  assumes B: "Banks v b = Some B" and d: "SBData B = hdr @ encs es @ record_bytes Name VendorGuid Attributes Data @ rest" "length hdr = 8"
    and es: "list_all entry_ok es" "es \<noteq> []"
    and name: "Name \<noteq> []" "0 \<notin> set Name" "length VendorGuid = 16" "record_size Name (length Data) = 4096"
    and bank: "SBTail B = 8 + length (encs es) + 4096" "SBBankSize B = length (SBData B)" "SBBankSize B < 2 ^ 32"
    and none: "\<forall>e\<in>set es. \<not> hit Name' VendorGuid' e" "0 \<notin> set Name'"
  shows "stuck Name' VendorGuid' v b"
proof -
  let ?pre = "hdr @ encs es"
  have d1: "SBData B = ?pre @ record_bytes Name VendorGuid Attributes Data @ rest" using d(1) by simp
  have pre: "length ?pre = 8 + length (encs es)" using d(2) by simp
  have "entry_ok (hd es)" using es by (cases es) simp_all
  then have "23 \<le> length (enc (hd es))" using length_enc [of "hd es"] esize_bounds [of "hd es"] by (simp add: entry_ok_def)
  then have long: "20 \<le> length ?pre" using es(2) pre by (cases es) simp_all
  have "find_in_bank k False Name' VendorGuid' v I = NoFuel" if "VIBank I = b" "VINextVarOffset I = 8 + length (encs es)" for k I
  proof (rule find_stuck [OF _ B that])
    fix I :: VARIABLE_INFO assume I: "VIBank I = b" "VINextVarOffset I = 8 + length (encs es)"
    have at: "VINextVarOffset I = length ?pre" "length ?pre + 4096 \<le> SBTail B" "Banks v (VIBank I) = Some B"
      using I pre bank(1) B by simp_all
    show "\<exists>I'. RtVarParseStore v I = Ret (True, I') \<and> VIBank I' = b \<and> VINextVarOffset I' = 8 + length (encs es) \<and> \<not> VIValid I'"
      using parse_long_record [OF at(3) d1 name(1-3) name(4) at(1) long at(2) bank(2,3)] unfolding pre I(1) .
  qed
  note reach = this
  have tail: "8 + length (encs es) \<le> SBTail B" using bank(1) by simp
  show ?thesis unfolding stuck_def
  proof (intro allI impI)
    fix k and I :: VARIABLE_INFO assume at: "VIBank I = b" "VINextVarOffset I = 8"
    then have at0: "VINextVarOffset I = 8 + length (encs [])" by simp
    show "find_in_bank k False Name' VendorGuid' v I = NoFuel"
      by (rule find_reaches [OF B none(2) d es(1) tail bank(2,3) reach append.left_neutral [symmetric] none(1) at(1) at0])
  qed
qed

context variable_device begin

lemma long_name_stuck:
  assumes v: "variable_map k v M" and n: "k < n" and new: "M (Name, VendorGuid) = None"
    and name: "Name \<noteq> []" "0 \<notin> set Name" "length VendorGuid = 16" "record_size Name (length Data) = 4096"
    and i: "i < length (VariableStore v)" and space: "find_space v 4096 (VSActive (VariableStore v ! i)) = Ret (Some b)"
    and B: "Banks v b = Some B" "8 < SBTail B"
  shows "\<exists>v'. set_body devs alloc n False (Some i) Name VendorGuid Attributes Data v = Ret (EFI_SUCCESS, v') \<and>
     (\<forall>m Name' VendorGuid'. 0 \<notin> set Name' \<longrightarrow> M (Name', VendorGuid') = None \<longrightarrow> RtVarFind m False Name' VendorGuid' v' = NoFuel)"
proof -
  obtain E where E: "structured v E" "\<forall>i b. active (VariableStore v) i b \<longrightarrow> length (E b) \<le> k" "contents (VariableStore v) E M"
    using v unfolding variable_map_def by blast
  have short: "\<forall>i b. active (VariableStore v) i b \<longrightarrow> length (E b) < n" using E(2) n by (meson le_less_trans)
  have free: "RtVarFindFreeSpace devs alloc False n i (4096 + pad_size 4096) v = Ret ((b, False), v)"
    by (rule RtVarFindFreeSpace_room [OF _ i]) (use space n in \<open>simp_all add: pad_size_def\<close>)
  have a: "active (VariableStore v) i b" using find_space_some [OF space] i by (simp add: active_def)
  have bank: "bank_rep B (E b)" "b \<noteq> 0" using structured_bank [OF E(1) a] B(1) by auto
  have room: "SBTail B + (4096 + pad_size 4096) < SBBankSize B" using find_space_some [OF space] B(1) by (simp add: pad_size_def)
  obtain I where I: "RtVarFind n False Name VendorGuid v = Ret (EFI_NOT_FOUND, I)" "\<not> VIValid I"
    using RtVarFind_rep [OF E(1,3) short name(2), of VendorGuid] new by auto
  obtain hdr rest where d: "SBData B = hdr @ encs (E b) @ rest" "length hdr = 8" using bank(1) by (auto simp: bank_rep_def)
  have es: "list_all entry_ok (E b)" "E b \<noteq> []" "SBTail B = 8 + length (encs (E b))" "SBBankSize B = length (SBData B)"
      "SBBankSize B < 2 ^ 32" "\<not> SBDeviceError B" using bank(1) B(2) by (auto simp: bank_rep_def)
  let ?r = "record_bytes Name VendorGuid Attributes Data"
  let ?B = "B\<lparr>SBData := (hdr @ encs (E b)) @ ?r @ drop 4096 rest, SBTail := SBTail B + (4096 + pad_size 4096),
     SBInUse := SBInUse B + (4096 + pad_size 4096)\<rparr>"
  obtain x where x: "append_record devs b Name VendorGuid Attributes Data v =
      Ret (False, v\<lparr>Banks := (Banks v)(b \<mapsto> ?B), Devices := x\<rparr>)"
    using append_record_at [OF B(1) es(6,4) _ _ name(3,4) room, of "hdr @ encs (E b)" rest] d es(3) by auto
  let ?v = "v\<lparr>Banks := (Banks v)(b \<mapsto> ?B), Devices := x\<rparr>"
  have S: "set_body devs alloc n False (Some i) Name VendorGuid Attributes Data v = Ret (EFI_SUCCESS, ?v)"
    using free I x bank(2) name(4) by (simp add: set_body_def retire_def Let_def)
  have "RtVarFind m False Name' VendorGuid' ?v = NoFuel" if none: "0 \<notin> set Name'" "M (Name', VendorGuid') = None" for m Name' VendorGuid'
  proof -
    have no_hit: "\<forall>e\<in>set (E c). \<not> hit Name' VendorGuid' e" if c: "active (VariableStore v) i' c" for i' c
    proof
      fix e assume "e \<in> set (E c)"
      then obtain j where j: "j < length (E c)" "E c ! j = e" by (auto simp: in_set_conv_nth)
      show "\<not> hit Name' VendorGuid' e"
      proof
        assume "hit Name' VendorGuid' e"
        then have "is_rec (VariableStore v) E i' c j" "vkey (E c ! j) = (Name', VendorGuid')"
          using c j by (auto simp: is_rec_def hit_def vkey_def)
        then show False using contentsD(1) [OF E(3)] none(2) by fastforce
      qed
    qed
    have len: "length ?r = 4096" using length_record_bytes [OF name(3)] name(4) by simp
    have fit: "4096 \<le> length rest" using room es(3,4) d by simp
    have stuck: "stuck Name' VendorGuid' ?v b"
      by (rule stuck_bank [OF _ _ d(2) es(1,2) name _ _ _ no_hit [OF a] none(1),
            where B = ?B and Attributes = Attributes and rest = "drop 4096 rest"])
         (use es d len fit in \<open>simp_all add: pad_size_def\<close>)
    have "searched Name' VendorGuid' ?v c" if c: "active (VariableStore v) i' c" for i' c
    proof (cases "c = b")
      case True
      then show ?thesis using stuck stuck_searched by blast
    next
      case False
      obtain C where "Banks v c = Some C" "bank_rep C (E c)" using structured_bank [OF E(1) c] by blast
      then show ?thesis using searched_bank [OF _ _ none(1) no_hit [OF c], where v = ?v and B = C] False by simp
    qed
    then have all: "\<forall>V\<in>set (VariableStore v). \<forall>c\<in>set (VSActive V). searched Name' VendorGuid' ?v c"
      by (metis active_def in_set_conv_nth)
    have "b \<in> set (VSActive (VariableStore v ! i))" using a by (simp add: active_def)
    then have "find_in_stores m False Name' VendorGuid' ?v (VariableStore v) (new_info 0 0) = NoFuel"
      by (rule stores_stuck [OF all nth_mem [OF i] _ stuck])
    then show ?thesis by (simp add: RtVarFind_def)
  qed
  then show ?thesis using S by blast
qed

end

text \<open>
  C40: the name of a variable is not bounded. A record of 4096 bytes in a bank that is not empty is stored with
  success, but its size reads back as 0: from then on no search for a name that is not there ends, whatever the
  fuel, the search for the variable just written among them.
\<close>

theorem long_name_hangs:
  assumes "quiet s" and "\<not> EfiAtRuntime s" and "2 \<le> n" and "k < n" and "working devs" and "variable_map k (exec.more s) M"
    and "M (Name, VendorGuid) = None" and "Name \<noteq> []" and "0 \<notin> set Name" and "length VendorGuid = 16" and "length Data \<le> 1024"
    and "record_size Name (length Data) = 4096" and "Attributes AND NOT 7 = 0" and "Attributes AND 6 \<noteq> 4"
    and "target (exec.more s) Attributes Data = Some i"
    and "find_space (exec.more s) 4096 (VSActive (VariableStore (exec.more s) ! i)) = Ret (Some b)"
    and "Banks (exec.more s) b = Some B" and "8 < SBTail B" and "0 \<notin> set Name'" and "M (Name', VendorGuid') = None"
  shows "\<exists>s'. RtSetVariable devs alloc cb n (Some Name) VendorGuid Attributes Data s = Ret (EFI_SUCCESS, s') \<and>
     (\<forall>cb m DataSize D. RtGetVariable cb m (Some Name') (Some VendorGuid') DataSize D s' = NoFuel)"
proof -
  let ?v = "exec.more s"
  have c: "choose_store ?v Attributes = Some i" "Data \<noteq> []" using assms(15) by (simp_all add: target_def split: if_splits)
  then have i: "i < length (VariableStore ?v)" using assms(6) choose_store_valid unfolding variable_map_def by blast
  obtain v' where v': "set_body devs alloc n False (Some i) Name VendorGuid Attributes Data ?v = Ret (EFI_SUCCESS, v')"
      "RtVarFind m False Name' VendorGuid' v' = NoFuel" for m
    using variable_device.long_name_stuck [OF variable_device.intro [OF assms(5)] assms(6,4,7-10,12) i assms(16-18), of alloc Attributes] assms(19,20) by blast
  have "RtSetVariable devs alloc cb n (Some Name) VendorGuid Attributes Data s =
      with_store cb n (set_body devs alloc n False (Some i) Name VendorGuid Attributes Data) s"
    using assms(2,8,11,13,14) c by (simp add: RtSetVariable_def Let_def)
  then have "RtSetVariable devs alloc cb n (Some Name) VendorGuid Attributes Data s = Ret (EFI_SUCCESS, store_after v' s)"
    using v'(1) by (simp add: with_store_quiet [OF assms(1,3)])
  moreover have "exec.more (AcquireLock VariableStoreLock (store_after v' s)) = v'" by (simp add: AcquireLock_def RaiseTPL_def Let_def)
  ultimately show ?thesis using v'(2) assms(2)
    by (intro exI [of _ "store_after v' s"]) (simp add: RtGetVariable_def with_store_def get_body_def Let_def)
qed

section \<open>An example\<close>

definition short_entry :: var_entry where
  "short_entry = \<lparr>VEName = [66], VEGuid = replicate 16 0, VEAttr = 2, VEData = [1], VEState = 0x7F, VEPad = [0xFF, 0xFF]\<rparr>"

definition used_vars :: "unit vars" where
  "used_vars = (sample_vars 8192)\<lparr>Banks := [16 \<mapsto> (sample_bank 8192)\<lparr>SBTail := 36, SBInUse := 36,
     SBData := bank_header 1 0xFF @ enc short_entry @ replicate 8156 0xFF\<rparr>]\<rparr>"

lemma used_map: "variable_map 1 used_vars [([66], replicate 16 0) \<mapsto> (0, 2, [1])]"
proof -
  let ?E = "(\<lambda>_. [])(16 := [short_entry])"
  have len: "length (enc short_entry) = 28"
    by (simp add: enc_def body_def short_entry_def)
  have ok: "entry_ok short_entry"
    by (simp add: entry_ok_def esize_def record_size_def StrSize_def pad_size_def short_entry_def)
  have rep: "bank_rep ((sample_bank 8192)\<lparr>SBTail := 36, SBInUse := 36,
      SBData := bank_header 1 0xFF @ enc short_entry @ replicate 8156 0xFF\<rparr>) [short_entry]"
    by (rule bank_repI [of _ _ "bank_header 1 0xFF" "replicate 8156 0xFF"])
       (use len ok in \<open>simp_all add: sample_bank_def new_bank_def bank_header_def bytes16_def\<close>)
  have act: "active (VariableStore used_vars) i b \<longleftrightarrow> i = 0 \<and> b = 16" for i b
    by (auto simp: active_def used_vars_def sample_vars_def)
  have "bank_at used_vars ?E 0 16" using rep by (simp add: bank_at_def used_vars_def sample_bank_def new_bank_def)
  moreover have "VariableStoreType used_vars a = Some i \<Longrightarrow> i < length (VariableStore used_vars)" for a i
    by (auto simp: used_vars_def sample_vars_def split: if_splits)
  ultimately have "structured used_vars ?E" by (auto simp: structured_def act)
  moreover have "contents (VariableStore used_vars) ?E [([66], replicate 16 0) \<mapsto> (0, 2, [1])]"
  proof -
    have "contents (VariableStore used_vars) (\<lambda>_. []) Map.empty" by (auto simp: contents_def graph_def view_def is_rec_def)
    moreover have "live short_entry" by (simp add: live_def valid_def short_entry_def)
    ultimately show ?thesis
      using contents_append [of "VariableStore used_vars" "\<lambda>_. []" Map.empty 0 16 short_entry] act
      by (simp add: vkey_def vvalue_def short_entry_def)
  qed
  ultimately show ?thesis unfolding variable_map_def by (intro exI [of _ ?E]) (simp add: act)
qed

theorem long_name_hangs_witness:
  "\<exists>s'. RtSetVariable (\<lambda>_. NvVarStoreVirtual 2 8192 1) (\<lambda>_ _ _. (EFI_OUT_OF_RESOURCES, 0, [])) (\<lambda>_ _ _ _. Fault) 5 (Some (replicate 2036 65))
       (replicate 16 0) 2 [1] (idle_state 4 Map.empty used_vars) = Ret (EFI_SUCCESS, s') \<and>
     (\<forall>cb m DataSize D. RtGetVariable cb m (Some (replicate 2036 65)) (Some (replicate 16 0)) DataSize D s' = NoFuel)"
proof -
  let ?s = "idle_state 4 Map.empty used_vars" let ?name = "replicate 2036 (65 :: UINT16)"
  have q: "quiet ?s" "\<not> EfiAtRuntime ?s" "exec.more ?s = used_vars" by (simp_all add: quiet_def idle_state_def)
  have t: "target used_vars 2 [1] = Some 0" by (simp add: target_def choose_store_def used_vars_def sample_vars_def)
  have f: "find_space used_vars 4096 (VSActive (VariableStore used_vars ! 0)) = Ret (Some 16)"
    by (simp add: used_vars_def sample_vars_def the_bank_def the_tsize_def sample_bank_def new_bank_def)
  have b: "Banks used_vars 16 = Some ((sample_bank 8192)\<lparr>SBTail := 36, SBInUse := 36,
      SBData := bank_header 1 0xFF @ enc short_entry @ replicate 8156 0xFF\<rparr>)" by (simp add: used_vars_def)
  have r: "record_size ?name (length [1 :: UINT8]) = 4096" by (simp add: record_size_def StrSize_def)
  have nm: "?name \<noteq> []" "0 \<notin> set ?name" "?name \<noteq> [66]" by (auto dest: arg_cong [where f = length])
  have w: "working (\<lambda>_. NvVarStoreVirtual 2 8192 1 :: unit EFI_VARIABLE_STORE)" by (rule virtual.works)
  show ?thesis
    by (rule long_name_hangs [where k = 1 and M = "[([66], replicate 16 0) \<mapsto> (0, 2, [1])]" and i = 0 and b = 16
          and B = "(sample_bank 8192)\<lparr>SBTail := 36, SBInUse := 36, SBData := bank_header 1 0xFF @ enc short_entry @ replicate 8156 0xFF\<rparr>"])
       (use q t f b r nm used_map w in simp_all)
qed

end
