(* ===== verification/MtcRestart.thy ===== *)
theory MtcRestart
  imports VarProps Mtc
begin

text \<open>
  The monotonic counter (\<open>exec/mtc.c\<close>) on the variable services (\<open>variable/varapi.c\<close>): its upper half is kept
  in the variable \<open>MTC\<close>, and every start takes the next one, so that counts are not repeated across a restart.
\<close>

section \<open>The variable\<close>

text \<open>\<open>EfiMtcName\<close> and \<open>EfiMtcGuid\<close>, and \<open>HighCount\<close> as the four bytes of its memory.\<close>

definition EfiMtcName :: "UINT16 list" where
  "EfiMtcName = [0x4D, 0x54, 0x43]"

definition EfiMtcGuid :: "UINT8 list" where
  "EfiMtcGuid = [0x11, 0x40, 0x70, 0xEB, 0x02, 0x14, 0xD3, 0x11, 0x8E, 0x77, 0x00, 0xA0, 0xC9, 0x69, 0x72, 0x3B]"

definition bytes32 :: "UINT32 \<Rightarrow> UINT8 list" where
  "bytes32 w = [ucast w, ucast (drop_bit 8 w), ucast (drop_bit 16 w), ucast (drop_bit 24 w)]"

definition word32 :: "UINT8 list \<Rightarrow> UINT32" where
  "word32 bs = ucast (bs ! 0) OR push_bit 8 (ucast (bs ! 1)) OR push_bit 16 (ucast (bs ! 2)) OR push_bit 24 (ucast (bs ! 3))"

lemma word32_bytes32 [simp]: "word32 (bytes32 w) = w"
proof (rule bit_word_eqI)
  fix n assume "n < LENGTH(32)"
  then show "bit (word32 (bytes32 w)) n = bit w n"
    by (cases "n < 24"; cases "n < 16"; cases "n < 8") (auto simp: word32_def bytes32_def bit_simps)
qed

lemma length_bytes32 [simp]: "length (bytes32 w) = 4"
  by (simp add: bytes32_def)

text \<open>
  The two calls of \<open>mtc.c\<close>. \<open>Junk\<close> is what is in the memory of the local variable \<open>HighCount\<close> before; the service
  overwrites as many bytes as it returns.
\<close>

definition mtc_read ::
  "('d, 'z) vars_scheme notify_fn \<Rightarrow> nat \<Rightarrow> UINT8 list \<Rightarrow> ('d, 'z) varst \<Rightarrow> (EFI_STATUS \<times> UINT32 \<times> ('d, 'z) varst) run" where
  "mtc_read cb n Junk s =
     bind_run (RtGetVariable cb n (Some EfiMtcName) (Some EfiMtcGuid) (Some 4) True s) (\<lambda>((Status, BufferSize, Attributes, d), s1).
       Ret (Status, word32 (case d of None \<Rightarrow> Junk | Some bs \<Rightarrow> bs @ drop (length bs) Junk), s1))"

definition mtc_write ::
  "(nat \<Rightarrow> 'd EFI_VARIABLE_STORE) \<Rightarrow> ('d, 'z) bank_alloc \<Rightarrow> ('d, 'z) vars_scheme notify_fn \<Rightarrow> nat
   \<Rightarrow> UINT32 \<Rightarrow> ('d, 'z) varst \<Rightarrow> (EFI_STATUS \<times> ('d, 'z) varst) run"
where
  "mtc_write devs valloc cb n HighCount s = RtSetVariable devs valloc cb n (Some EfiMtcName) EfiMtcGuid 7 (bytes32 HighCount) s"

text \<open>Starting the counter, and taking counts from it.\<close>

definition start_counter ::
  "(nat \<Rightarrow> 'd EFI_VARIABLE_STORE) \<Rightarrow> ('d, 'z) bank_alloc \<Rightarrow> ('d, 'z) vars_scheme notify_fn \<Rightarrow> ('d, 'z) vars_scheme alloc_fn \<Rightarrow> nat
   \<Rightarrow> UINT8 list \<Rightarrow> UINTN \<Rightarrow> ('d, 'z) varst \<Rightarrow> ('d, 'z) varst run"
where
  "start_counter devs valloc cb ealloc n Junk Handler_addr s =
     InitializeMonotonicCount cb ealloc (mtc_read cb n Junk) (mtc_write devs valloc cb n) n Handler_addr s"

primrec take_counts :: "'x notify_fn \<Rightarrow> nat \<Rightarrow> nat \<Rightarrow> 'x exec_scheme \<Rightarrow> (UINT64 list \<times> 'x exec_scheme) run" where
  "take_counts cb n 0 s = Ret ([], s)"
| "take_counts cb n (Suc k) s =
     bind_run (GetNextMonotonicCount cb n True s) (\<lambda>(Status, c, s1).
     bind_run (take_counts cb n k s1) (\<lambda>(cs, s2).
       Ret (case c of Some v \<Rightarrow> if EFI_ERROR Status then cs else v # cs | None \<Rightarrow> cs, s2)))"

section \<open>One start\<close>

lemma low_half_quiet:
  fixes m :: UINT64
  assumes "unat m mod 2 ^ 32 + 1 < 2 ^ 31"
  shows "(ucast (m + 1) XOR ucast m :: UINT32) AND 0x80000000 = 0"
proof -
  let ?l = "ucast m :: UINT32"
  have l: "unat ?l = unat m mod 2 ^ 32" by (simp add: unsigned_ucast_eq take_bit_eq_mod)
  have s: "(ucast (m + 1) :: UINT32) = ?l + 1" 
    by (simp add: word_unat_eq_iff unsigned_ucast_eq take_bit_eq_mod unat_word_ariths mod_mod_cancel mod_Suc_eq)
  have lt: "unat ?l < 2 ^ 31" "unat (?l + 1) < 2 ^ 31" using assms l by (simp_all add: unat_word_ariths)
  have b: "\<not> bit x 31" if "unat x < 2 ^ 31" for x :: UINT32
  proof -
    have "\<not> bit (unat x) 31" using that by (simp add: bit_iff_odd)
    then show ?thesis by (simp add: bit_unsigned_iff)
  qed
  have "\<not> bit (ucast (m + 1) XOR ?l) 31" unfolding s using b [OF lt(1)] b [OF lt(2)] by (simp add: bit_xor_iff)
  moreover have "i = 31" if "bit (0x80000000 :: UINT32) i" for i
  proof -
    have "(0x80000000 :: UINT32) = push_bit 31 1" by simp
    then have "bit (push_bit 31 1 :: UINT32) i" using that by metis
    then show ?thesis by (auto simp only: bit_push_bit_iff bit_1_iff)
  qed
  ultimately have "bit ((ucast (m + 1) XOR ?l) AND 0x80000000) i = False" for i by (auto simp only: bit_and_iff)
  then show ?thesis by (metis bit_eqI bit_0_eq bot_apply bot_bool_def)
qed

lemma count_step:
  assumes "settled s" and "2 \<le> n" and "EfiMtc s \<noteq> 0" and "unat (EfiMtc s) mod 2 ^ 32 + 1 < 2 ^ 31"
  shows "\<exists>s'. GetNextMonotonicCount cb n True s = Ret (EFI_SUCCESS, Some (EfiMtc s), s') \<and>
     EfiMtc s' = EfiMtc s + 1 \<and> settled s' \<and> exec.more s' = exec.more s"
proof -
  let ?f = "\<lambda>s. s\<lparr>EfiMtc := EfiMtc s + 1\<rparr>"
  let ?s' = "critical EventQueueLock ?f s"
  have rel: "ReleaseLock cb n EventQueueLock (?f (AcquireLock EventQueueLock s)) = Ret ?s'"
    by (rule critical_quiet [OF assms(1)]) (use settledD [OF assms(1)] assms(2) in simp_all)
  have "settled ?s'" by (rule settled_critical [OF assms(1)]) (use settledD [OF assms(1)] in simp_all)
  moreover have "EfiMtc ?s' = EfiMtc s + 1" "exec.more ?s' = exec.more s" by (simp_all add: critical_def)
  ultimately show ?thesis
    using rel low_half_quiet [OF assms(4)] assms(3) by (intro exI [of _ ?s']) (simp add: GetNextMonotonicCount_def Let_def)
qed

lemma take_counts_run:
  assumes "2 \<le> n"
  shows "settled s \<Longrightarrow> unat (EfiMtc s) = x \<Longrightarrow> 0 < x \<Longrightarrow> x mod 2 ^ 32 + k < 2 ^ 31 \<Longrightarrow>
     \<exists>s'. take_counts cb n k s = Ret (map of_nat [x ..< x + k], s') \<and> settled s' \<and> exec.more s' = exec.more s"
proof (induction k arbitrary: s x)
  case (Suc k)
  have x: "x < 2 ^ 64" using Suc.prems(2) unsigned_less [of "EfiMtc s", where ?'a = nat] by simp
  have "x mod 2 ^ 32 + 1 < 2 ^ 32" using Suc.prems(4) by simp
  then have m: "Suc x mod 2 ^ 32 = Suc (x mod 2 ^ 32)" by (simp add: mod_Suc)
  have "x \<noteq> 2 ^ 64 - 1" using \<open>x mod 2 ^ 32 + 1 < 2 ^ 32\<close> by auto
  then have x1: "Suc x < 2 ^ 64" using x by simp
  have nz: "EfiMtc s \<noteq> 0" using Suc.prems(2,3) by auto
  have v: "EfiMtc s = of_nat x" using Suc.prems(2) by auto
  obtain s1 where s1: "GetNextMonotonicCount cb n True s = Ret (EFI_SUCCESS, Some (EfiMtc s), s1)" "EfiMtc s1 = EfiMtc s + 1"
      "settled s1" "exec.more s1 = exec.more s"
    using count_step [OF Suc.prems(1) assms nz] Suc.prems(2,4) by fastforce
  have u: "unat (EfiMtc s1) = Suc x" using s1(2) Suc.prems(2) x1 by (simp add: unat_word_ariths)
  obtain s2 where s2: "take_counts cb n k s1 = Ret (map of_nat [Suc x ..< Suc x + k], s2)" "settled s2" "exec.more s2 = exec.more s1"
    using Suc.IH [OF s1(3) u] Suc.prems(4) m by auto
  have "[x ..< x + Suc k] = x # [Suc x ..< Suc x + k]" by (simp add: upt_rec)
  then show ?case using s1 s2 v by simp
qed simp

text \<open>What the pool does for \<open>CreateEvent\<close>: it fails, or hands out memory that holds no event.\<close>

definition event_pool :: "'x alloc_fn \<Rightarrow> 'x exec_scheme \<Rightarrow> bool" where
  "event_pool ealloc s \<longleftrightarrow> (\<forall>ty sz. \<exists>st e. ealloc ty sz s = Ret (st, e, s) \<and> (\<not> EFI_ERROR st \<longrightarrow> e \<noteq> 0 \<and> Events s e = None))"

lemma create_mtc_event:
  assumes "settled s" and "2 \<le> n" and "event_pool ealloc s"
  shows "\<exists>st pe s1. CreateEvent cb ealloc n EVT_NOTIFY_SIGNAL TPL_CALLBACK Handler_addr 0 True s = Ret (st, pe, s1) \<and>
     settled s1 \<and> exec.more s1 = exec.more s \<and> EfiAtRuntime s1 = EfiAtRuntime s"
proof (cases "Handler_addr = 0")
  case True
  have "CreateEvent cb ealloc n EVT_NOTIFY_SIGNAL TPL_CALLBACK Handler_addr 0 True s = Ret (EFI_INVALID_PARAMETER, None, s)"
    unfolding True by (simp add: CreateEvent_def valid_event_type_def notifies_def valid_notify_def)
  then show ?thesis using assms(1) by simp
next
  case False
  obtain st e where a: "ealloc EfiBootServicesData sizeof_IEVENT s = Ret (st, e, s)" "\<not> EFI_ERROR st \<longrightarrow> e \<noteq> 0 \<and> Events s e = None"
    using assms(3) unfolding event_pool_def by blast
  let ?ev = "new_event EVT_NOTIFY_SIGNAL TPL_CALLBACK Handler_addr 0"
  let ?s2 = "s\<lparr>Events := (Events s)(e \<mapsto> ?ev)\<rparr>"
  have C: "CreateEvent cb ealloc n EVT_NOTIFY_SIGNAL TPL_CALLBACK Handler_addr 0 True s =
      (if EFI_ERROR st then Ret (st, None, s)
       else bind_run (ReleaseLock cb n EventQueueLock (AcquireLock EventQueueLock ?s2)) (\<lambda>s4. Ret (EFI_SUCCESS, Some e, s4)))"
    using False a(1) by (simp add: CreateEvent_def valid_event_type_def notifies_def valid_notify_def VALID_TPL_def register_event_def)
  show ?thesis
  proof (cases "EFI_ERROR st")
    case True
    then show ?thesis using C assms(1) by simp
  next
    case ok: False
    have "exec_inv ?s2"
      by (rule exec_inv_new) (use settledD(1) [OF assms(1)] a(2) ok False in \<open>auto simp: event_ok_def new_event_def\<close>)
    then have s2: "settled ?s2" using settledD [OF assms(1)] by (simp add: settled_def)
    have "ReleaseLock cb n EventQueueLock (AcquireLock EventQueueLock ?s2) = Ret (critical EventQueueLock id ?s2)"
      using critical_quiet [OF s2, of id EventQueueLock n cb] settledD [OF s2] assms(2) by simp
    moreover have "settled (critical EventQueueLock id ?s2)"
      by (rule settled_critical [OF s2]) (use settledD [OF s2] in simp_all)
    moreover have "exec.more (critical EventQueueLock id ?s2) = exec.more s" "EfiAtRuntime (critical EventQueueLock id ?s2) = EfiAtRuntime s"
      by (simp_all add: critical_def)
    ultimately show ?thesis using C ok by auto
  qed
qed

text \<open>
  A system that is about to start its counter: no notification is due, the variables are up and hold the map
  \<open>M\<close>, there is a store for non-volatile variables that serve the runtime, and it has room for one more record.
\<close>

definition mtc_key :: "UINT16 list \<times> UINT8 list" where
  "mtc_key = (EfiMtcName, EfiMtcGuid)"

definition startable :: "('d, 'z) vars_scheme alloc_fn \<Rightarrow> nat \<Rightarrow> ('d, 'z) varst \<Rightarrow> vmap \<Rightarrow> bool" where
  "startable ealloc n s M \<longleftrightarrow> settled s \<and> \<not> EfiAtRuntime s \<and> event_pool ealloc s \<and>
     (\<exists>k<n. variable_map k (exec.more s) M) \<and> choose_store (exec.more s) 7 \<noteq> None \<and>
     (\<forall>v. has_room (exec.more s) 7 (bytes32 v) (record_size EfiMtcName 4))"

text \<open>The value of the variable after \<open>h\<close> starts.\<close>

definition holds_count :: "nat \<Rightarrow> vmap \<Rightarrow> bool" where
  "holds_count h M \<longleftrightarrow> map_option (\<lambda>(i, a, d). d) (M mtc_key) = (if h = 0 then None else Some (bytes32 (of_nat h)))"

lemma settled_quiet: "settled s \<Longrightarrow> quiet s"
  by (simp add: settled_def quiet_def)

lemma exec_frame_settled: "exec_frame s s' \<Longrightarrow> settled s' = settled s"
  using exec_frame_inv [of s s'] by (auto simp: exec_frame_def settled_def)

lemma mtc_name_ok: "EfiMtcName \<noteq> []" "0 \<notin> set EfiMtcName" "length EfiMtcGuid = 16" "record_size EfiMtcName 4 \<le> 4095"
  by (simp_all add: EfiMtcName_def EfiMtcGuid_def record_size_def StrSize_def)

lemma mtc_read_run:
  assumes "settled s" and "\<not> EfiAtRuntime s" and "2 \<le> n" and v: "variable_map k (exec.more s) M" "k < n" and h: "holds_count h M"
  shows "\<exists>st x s'. mtc_read cb n Junk s = Ret (st, x, s') \<and> (if EFI_ERROR st then 0 else x) = of_nat h \<and>
     exec_frame s s' \<and> exec.more s' = exec.more s"
proof -
  have G: "RtGetVariable cb n (Some EfiMtcName) (Some EfiMtcGuid) (Some 4) True s = Ret (get_result M mtc_key 4, store_after (exec.more s) s)"
    unfolding mtc_key_def by (rule get_variable_map [OF settled_quiet [OF assms(1)] assms(2,3) v mtc_name_ok(2)])
  show ?thesis
  proof (cases "M mtc_key")
    case None
    then have "h = 0" using h by (simp add: holds_count_def split: if_splits)
    then show ?thesis using G None by (simp add: mtc_read_def get_result_def)
  next
    case (Some y)
    then obtain i a where "M mtc_key = Some (i, a, bytes32 (of_nat h))" using h by (cases y) (auto simp: holds_count_def split: if_splits)
    moreover have "word32 (bytes32 w @ bs) = w" for w bs
      using word32_bytes32 [of w] by (simp add: word32_def bytes32_def)
    ultimately show ?thesis using G by (simp add: mtc_read_def get_result_def)
  qed
qed

lemma mtc_write_run:
  assumes "settled s" and "\<not> EfiAtRuntime s" and "2 \<le> n" and "working devs" and v: "variable_map k (exec.more s) M" "k < n"
    and h: "holds_count h M" "Suc h < 2 ^ 32" and store: "choose_store (exec.more s) 7 \<noteq> None"
    and room: "has_room (exec.more s) 7 (bytes32 (of_nat (Suc h))) (record_size EfiMtcName 4)"
  shows "\<exists>s' M'. mtc_write devs valloc cb n (of_nat (Suc h)) s = Ret (EFI_SUCCESS, s') \<and> exec_frame s s' \<and>
     variable_map (Suc k) (exec.more s') M' \<and> holds_count (Suc h) M'"
proof -
  let ?d = "bytes32 (of_nat (Suc h))"
  let ?M = "new_map (exec.more s) mtc_key 7 ?d M"
  obtain i where i: "target (exec.more s) 7 ?d = Some i"
    using store by (auto simp: target_def bytes32_def)
  have "(of_nat (Suc h) :: UINT32) \<noteq> of_nat h" by simp
  then have "?d \<noteq> bytes32 (of_nat h)" by (metis word32_bytes32)
  then have M: "?M mtc_key = Some (i, 7, ?d)"
    using h(1) i by (auto simp: new_map_def put_def holds_count_def split: option.splits if_splits)
  obtain s' where "RtSetVariable devs valloc cb n (Some EfiMtcName) EfiMtcGuid 7 ?d s = Ret (EFI_SUCCESS, s')" "exec_frame s s'"
      "variable_map (Suc k) (exec.more s') ?M"
    using variable_device.set_variable_map [OF variable_device.intro [OF assms(4)] settled_quiet [OF assms(1)] assms(2,3) v(2,1),
        of EfiMtcName EfiMtcGuid ?d 7 valloc cb] mtc_name_ok room i by (auto simp: mtc_key_def)
  then show ?thesis using M by (intro exI [of _ s'] exI [of _ ?M]) (simp add: mtc_write_def holds_count_def)
qed

lemma start_counter_run:
  assumes "startable ealloc n s M" and "2 \<le> n" and "working devs" and h: "holds_count h M" "Suc h < 2 ^ 32"
  shows "\<exists>s' k M'. start_counter devs valloc cb ealloc n Junk Handler_addr s = Ret s' \<and> settled s' \<and>
     EfiMtc s' = push_bit 32 (ucast (of_nat (Suc h) :: UINT32)) \<and> variable_map k (exec.more s') M' \<and> holds_count (Suc h) M'"
proof -
  obtain k where st: "settled s" "\<not> EfiAtRuntime s" "event_pool ealloc s" "variable_map k (exec.more s) M" "k < n"
      "choose_store (exec.more s) 7 \<noteq> None" "\<And>v. has_room (exec.more s) 7 (bytes32 v) (record_size EfiMtcName 4)"
    using assms(1) unfolding startable_def by blast
  obtain st1 pe s1 where s1: "CreateEvent cb ealloc n EVT_NOTIFY_SIGNAL TPL_CALLBACK Handler_addr 0 True s = Ret (st1, pe, s1)"
      "settled s1" "exec.more s1 = exec.more s" "EfiAtRuntime s1 = EfiAtRuntime s"
    using create_mtc_event [OF st(1) assms(2) st(3)] by blast
  define s2 where "s2 = (case pe of Some e \<Rightarrow> s1\<lparr>EfiMtcEvent := e\<rparr> | None \<Rightarrow> s1)"
  have i2: "exec_inv s2" using settledD(1) [OF s1(2)] by (subst exec_inv_cong [of _ s1]) (auto simp: s2_def split: option.splits)
  then have s2: "settled s2" "exec.more s2 = exec.more s" "\<not> EfiAtRuntime s2"
    using settledD [OF s1(2)] s1(3,4) st(2) by (auto simp: settled_def s2_def split: option.splits)
  obtain st3 x s3 where s3: "mtc_read cb n Junk s2 = Ret (st3, x, s3)" "(if EFI_ERROR st3 then 0 else x) = of_nat h"
      "exec_frame s2 s3" "exec.more s3 = exec.more s2"
    using mtc_read_run [OF s2(1,3) assms(2) _ st(5) h(1)] st(4) s2(2) by metis
  define s4 where "s4 = s3\<lparr>EfiMtc := push_bit 32 (ucast (of_nat h :: UINT32))\<rparr>"
  have f3: "settled s3" "\<not> EfiAtRuntime s3" using exec_frame_settled [OF s3(3)] s2 s3(3) by (simp_all add: exec_frame_def)
  have "exec_inv s4" unfolding s4_def using settledD(1) [OF f3(1)] by (subst exec_inv_cong [of _ s3]) simp_all
  then have s4: "settled s4" using settledD [OF f3(1)] by (simp add: settled_def s4_def)
  let ?f = "\<lambda>s. s\<lparr>EfiMtc := push_bit 32 (ucast (high_part (EfiMtc s) + 1))\<rparr>"
  let ?s5 = "critical EventQueueLock ?f s4"
  have i5: "settled ?s5" by (rule settled_critical [OF s4]) (use settledD [OF s4] in simp_all)
  have s5: "\<not> EfiAtRuntime ?s5" "exec.more ?s5 = exec.more s" "EfiMtc ?s5 = push_bit 32 (ucast (of_nat (Suc h) :: UINT32))"
    using f3(2) s2(2) s3(4)
    by (simp_all add: critical_def s4_def add.commute)
  obtain s' M' where s': "mtc_write devs valloc cb n (of_nat (Suc h)) ?s5 = Ret (EFI_SUCCESS, s')" "exec_frame ?s5 s'"
      "variable_map (Suc k) (exec.more s') M'" "holds_count (Suc h) M'"
    using mtc_write_run [OF i5 s5(1) assms(2,3) _ st(5) h, unfolded s5(2), OF st(4,6,7)] by blast
  have "start_counter devs valloc cb ealloc n Junk Handler_addr s =
      bind_run (EfiMtcEventHandler cb (mtc_write devs valloc cb n) n s4) (\<lambda>(_, s5). Ret s5)"
    by (simp only: start_counter_def InitializeMonotonicCount_def s1(1) bind_run.simps prod.case Let_def s2_def [symmetric]
        s3(1,2) s4_def [symmetric])
  also have "\<dots> = Ret s'"
    using s'(1) by (simp add: handler_eq [OF s4 assms(2)]) (simp add: s4_def add.commute)
  finally show ?thesis using s' i5 s5 exec_frame_settled [OF s'(2)] by (auto simp: exec_frame_def)
qed

section \<open>Histories\<close>

text \<open>
  What has happened after \<open>h\<close> starts: \<open>cs\<close> are the counts that were handed out, in order, since the variable
  did not exist yet. Between two starts anything may happen that leaves the variable alone; the execution
  services are new after a restart. A start hands out fewer than \<open>2 ^ 31\<close> counts, with more the
  handler of the counter runs in between.
\<close>

definition left_alone :: "('d, 'z) varst \<Rightarrow> vmap \<Rightarrow> bool" where
  "left_alone s M0 \<longleftrightarrow> (\<forall>k M. variable_map k (exec.more s) M \<longrightarrow> M0 mtc_key = M mtc_key)"

inductive mtc_history ::
  "(nat \<Rightarrow> 'd EFI_VARIABLE_STORE) \<Rightarrow> ('d, 'z) bank_alloc \<Rightarrow> ('d, 'z) vars_scheme notify_fn \<Rightarrow> ('d, 'z) vars_scheme alloc_fn \<Rightarrow> nat
   \<Rightarrow> nat \<Rightarrow> UINT64 list \<Rightarrow> ('d, 'z) varst \<Rightarrow> bool"
for devs valloc cb ealloc n where
  first: "variable_map k (exec.more s) M \<Longrightarrow> M mtc_key = None \<Longrightarrow> mtc_history devs valloc cb ealloc n 0 [] s"
| start: "mtc_history devs valloc cb ealloc n h cs s \<Longrightarrow> startable ealloc n s0 M0 \<Longrightarrow>
     left_alone s M0 \<Longrightarrow>
     start_counter devs valloc cb ealloc n Junk Handler_addr s0 = Ret s1 \<Longrightarrow> take_counts cb n c s1 = Ret (new, s2) \<Longrightarrow>
     c < 2 ^ 31 \<Longrightarrow> mtc_history devs valloc cb ealloc n (Suc h) (cs @ new) s2"

lemma start_and_count:
  assumes "startable ealloc n s M" and "2 \<le> n" and "working devs" and "holds_count h M" "Suc h < 2 ^ 32" and "c < 2 ^ 31"
  shows "\<exists>s1 s2 k M'. start_counter devs valloc cb ealloc n Junk Handler_addr s = Ret s1 \<and>
     take_counts cb n c s1 = Ret (map of_nat [Suc h * 2 ^ 32 ..< Suc h * 2 ^ 32 + c], s2) \<and>
     variable_map k (exec.more s2) M' \<and> holds_count (Suc h) M'"
proof -
  obtain s1 k M' where s1: "start_counter devs valloc cb ealloc n Junk Handler_addr s = Ret s1" "settled s1"
      "EfiMtc s1 = push_bit 32 (ucast (of_nat (Suc h) :: UINT32))" "variable_map k (exec.more s1) M'" "holds_count (Suc h) M'"
    using start_counter_run [OF assms(1-5)] by blast
  have "unat (of_nat (Suc h) :: UINT32) = Suc h" using assms(5) by (simp add: unat_of_nat del: of_nat_Suc)
  then have u: "unat (EfiMtc s1) = Suc h * 2 ^ 32" unfolding s1(3) by (simp only: unat_push_high)
  obtain s2 where "take_counts cb n c s1 = Ret (map of_nat [Suc h * 2 ^ 32 ..< Suc h * 2 ^ 32 + c], s2)" "exec.more s2 = exec.more s1"
    using take_counts_run [OF assms(2) s1(2) u, of c cb] assms(6) by auto
  then show ?thesis using s1 by metis
qed

lemma history_inv:
  assumes "2 \<le> n" and "working devs"
  shows "mtc_history devs valloc cb ealloc n h cs s \<Longrightarrow> h < 2 ^ 32 \<Longrightarrow>
     (\<exists>k M. variable_map k (exec.more s) M \<and> holds_count h M) \<and> sorted_wrt (<) cs \<and> (\<forall>c\<in>set cs. unat c < Suc h * 2 ^ 32)"
proof (induction rule: mtc_history.induct)
  case (first k s M)
  then show ?case by (auto simp: holds_count_def)
next
  case (start h cs s s0 M0 Junk Handler_addr s1 c new s2)
  obtain k M where M: "variable_map k (exec.more s) M" "holds_count h M" and cs: "sorted_wrt (<) cs" "\<forall>c\<in>set cs. unat c < Suc h * 2 ^ 32"
    using start.IH start.prems by auto
  have "holds_count h M0" using start.hyps(3) M unfolding left_alone_def holds_count_def by metis
  from start_and_count [OF start.hyps(2) assms this start.prems start.hyps(6), of valloc cb Junk Handler_addr] start.hyps(4,5)
  obtain k' M' where M': "variable_map k' (exec.more s2) M'" "holds_count (Suc h) M'"
      and new: "new = map of_nat [Suc h * 2 ^ 32 ..< Suc h * 2 ^ 32 + c]" by auto
  have lt: "Suc h * 2 ^ 32 + c < 2 ^ 64" using start.prems start.hyps(6) by simp
  have u: "unat (of_nat x :: UINT64) = x" if "x < Suc h * 2 ^ 32 + c" for x using that lt by (simp add: unat_of_nat)
  have "sorted_wrt (<) new"
    unfolding new sorted_wrt_map
    by (rule sorted_wrt_mono_rel [OF _ sorted_wrt_upt]) (use u in \<open>auto simp: word_less_nat_alt\<close>)
  moreover have "\<forall>x\<in>set cs. \<forall>y\<in>set new. x < y" using cs(2) u by (auto simp: new word_less_nat_alt)
  moreover have "\<forall>y\<in>set new. unat y < Suc (Suc h) * 2 ^ 32" using u start.hyps(6) by (auto simp: new)
  moreover have "\<forall>x\<in>set cs. unat x < Suc (Suc h) * 2 ^ 32" using cs(2) by force
  ultimately show ?case using M' cs(1) by (auto simp: sorted_wrt_append)
qed

section \<open>The property\<close>

text \<open>
  C19: counts are not repeated across restarts. Take any history of starts, from the first one, when the
  variable does not exist yet, in which every start finds the variables up, with room for the record and the
  value of the variable that the start before it left, and hands out fewer than \<open>2 ^ 31\<close> counts. Then, while there
  are fewer than \<open>2 ^ 32\<close> starts, the next start comes up, with working devices, hands out as many counts as it is
  asked for, and all the counts of all the starts, in the order they were handed out, increase strictly.
\<close>

theorem mtc_restart_monotonic:
  assumes "2 \<le> n" and "working devs" and "mtc_history devs valloc cb ealloc n h cs s" and "Suc h < 2 ^ 32"
    and "startable ealloc n s0 M0" and "left_alone s M0" and "c < 2 ^ 31"
  shows "\<exists>s1 new s2. start_counter devs valloc cb ealloc n Junk Handler_addr s0 = Ret s1 \<and> take_counts cb n c s1 = Ret (new, s2) \<and>
     length new = c \<and> sorted_wrt (<) (cs @ new) \<and> mtc_history devs valloc cb ealloc n (Suc h) (cs @ new) s2"
proof -
  have "h < 2 ^ 32" using assms(4) by simp
  then obtain k M where M: "variable_map k (exec.more s) M" "holds_count h M"
    using history_inv [OF assms(1-3)] by blast
  have "holds_count h M0" using assms(6) M unfolding left_alone_def holds_count_def by metis
  from start_and_count [OF assms(5,1,2) this assms(4,7), of valloc cb Junk Handler_addr]
  obtain s1 s2 where s1: "start_counter devs valloc cb ealloc n Junk Handler_addr s0 = Ret s1"
      "take_counts cb n c s1 = Ret (map of_nat [Suc h * 2 ^ 32 ..< Suc h * 2 ^ 32 + c], s2)" by blast
  have H: "mtc_history devs valloc cb ealloc n (Suc h) (cs @ map of_nat [Suc h * 2 ^ 32 ..< Suc h * 2 ^ 32 + c]) s2"
    by (rule mtc_history.start [OF assms(3,5,6) s1 assms(7)])
  show ?thesis using s1 H history_inv [OF assms(1,2) H assms(4)]
    by (intro exI [of _ s1] exI [of _ "map of_nat [Suc h * 2 ^ 32 ..< Suc h * 2 ^ 32 + c]"] exI [of _ s2]) simp
qed

text \<open>One empty bank of a store for non-volatile variables that serve the runtime.\<close>

definition mtc_vars :: "unit vars" where
  "mtc_vars = (sample_vars 100)\<lparr>VariableStoreType := [7 \<mapsto> 0]\<rparr>"

lemma mtc_vars_map: "variable_map 0 mtc_vars Map.empty"
proof -
  have rep: "bank_rep (sample_bank 100) []"
    by (rule bank_repI [of _ _ "bank_header 1 0xFF" "replicate 92 0xFF"])
       (simp_all add: sample_bank_def new_bank_def bank_header_def bytes16_def)
  have "structured mtc_vars (\<lambda>_. [])"
    using rep by (auto simp: structured_def mtc_vars_def sample_vars_def active_def bank_at_def less_Suc_eq sample_bank_def new_bank_def split: if_splits)
  moreover have "contents (VariableStore mtc_vars) (\<lambda>_. []) Map.empty"
    by (auto simp: contents_def graph_def view_def is_rec_def)
  ultimately show ?thesis unfolding variable_map_def by (intro exI [of _ "\<lambda>_. []"]) simp
qed

theorem mtc_restart_monotonic_witness:
  "\<exists>s1 s2. start_counter (\<lambda>_. NvVarStoreVirtual 7 100 1) (\<lambda>_ _ _. (EFI_OUT_OF_RESOURCES, 0, [])) (\<lambda>_ _ _ _. Fault)
       (\<lambda>_ _ s. Ret (EFI_SUCCESS, 64, s)) 5 [] 4096 (idle_state 4 Map.empty mtc_vars) = Ret s1 \<and>
     (\<exists>new. take_counts (\<lambda>_ _ _ _. Fault) 5 3 s1 = Ret (new, s2) \<and> length new = 3 \<and> sorted_wrt (<) new)"
proof -
  let ?s = "idle_state 4 Map.empty mtc_vars" and ?devs = "\<lambda>_. NvVarStoreVirtual 7 100 1 :: unit EFI_VARIABLE_STORE"
    and ?cb = "\<lambda>_ _ _ _. Fault :: unit vars exec_scheme run" and ?al = "\<lambda>_ _ s. Ret (EFI_SUCCESS, 64, s) :: (EFI_STATUS \<times> UINTN \<times> unit vars exec_scheme) run"
    and ?va = "\<lambda>_ _ _. (EFI_OUT_OF_RESOURCES, 0, [])"
  have m: "exec.more ?s = mtc_vars" "\<not> EfiAtRuntime ?s" "Events ?s = Map.empty" by (simp_all add: idle_state_def)
  have c: "choose_store mtc_vars 7 = Some 0" by (simp add: choose_store_def mtc_vars_def sample_vars_def)
  have f: "find_space mtc_vars 36 (VSActive (VariableStore mtc_vars ! 0)) = Ret (Some 16)"
    by (simp add: mtc_vars_def sample_vars_def the_bank_def the_tsize_def sample_bank_def new_bank_def)
  have r: "has_room mtc_vars 7 (bytes32 v) (record_size EfiMtcName 4)" for v
    using f by (simp add: has_room_def target_def c bytes32_def record_size_def StrSize_def pad_size_def EfiMtcName_def)
  have "settled ?s" by (rule idle_settled) simp_all
  then have st: "startable ?al 5 ?s Map.empty"
    unfolding startable_def m using r c mtc_vars_map m(2) by (auto simp: event_pool_def m(3) intro: exI [of _ 0])
  have h: "mtc_history ?devs ?va ?cb ?al 5 0 [] ?s"
    by (rule mtc_history.first [of 0 _ Map.empty]) (simp_all add: m mtc_vars_map)
  have w: "working ?devs" by (rule virtual.works)
  have "Map.empty mtc_key = M mtc_key" if v: "variable_map k (exec.more ?s) M" for k M
  proof -
    obtain E where E: "structured mtc_vars E" "contents (VariableStore mtc_vars) E M" using v unfolding m variable_map_def by blast
    have "E 16 = []" using structured_bank [OF E(1), of 0 16]
      by (auto simp: mtc_vars_def sample_vars_def active_def bank_rep_def sample_bank_def new_bank_def encs_def enc_def)
    then have "view (VariableStore mtc_vars) E x = None" for x
      by (auto simp: view_def is_rec_def active_def mtc_vars_def sample_vars_def split: prod.splits)
    then show ?thesis using graphD(2) [OF E(2) [unfolded contents_def], of mtc_key] by (cases "M mtc_key") auto
  qed
  then have none: "left_alone ?s Map.empty" unfolding left_alone_def by blast
  show ?thesis
    using mtc_restart_monotonic [OF _ w h _ st none, of 3 "[]" 4096] by auto
qed

end
