(* ===== verification/Spec2Isabelle.thy ===== *)
theory Spec2Isabelle
  imports LinkList Crc32 ExecSystem MemProps ProtocolServices HandleLocate HandleNotify CloseServices DevicePathLocate VarHang MtcRestart
begin

text \<open>
  A verification development of the core of the EFI 1.10 sample implementation: the boot services and runtime
  services of \<open>COREFW/fw/efi/\<close>, with the part of \<open>INC/\<close> and \<open>LIB/\<close> they are written with. Paths below are
  relative to \<open>EFI_1.10.14.62/\<close>. The build that is modelled is the release build for the 64-bit Itanium target:
  \<open>UINTN\<close> has 64 bits, and \<open>ASSERT\<close> and \<open>DEBUG\<close> do nothing.

  \<^bold>\<open>The program.\<close> The core is a set of services on global state. At the bottom is the task priority level:
  a lock raises the level, and lowering it again (\<open>RestoreTPL\<close>) runs the notification functions of all events that
  were signalled meanwhile at a higher level. Every service that takes a lock may therefore run code of its callers
  when it releases it. Timers, the monotonic counter and the registrations for protocols signal events. The page
  services keep a list of descriptors of memory; the pool cuts pages into blocks, and the descriptors themselves
  are blocks of the pool, so the two call each other. The handle database keeps its records in the pool, runs under
  its own lock and calls drivers. Device paths are bytes that the handle database compares. The variable services
  append records to the memory copies of banks of storage devices.

  \<^bold>\<open>Conventions\<close> (\<open>EfiPrelude\<close>). A function of the C code is a function on an explicit state with a result of
  type \<open>'a run\<close>: \<open>Ret\<close> of the result and the new state, \<open>Fault\<close> for a memory access that C leaves undefined, or
  \<open>NoFuel\<close>. Status codes are values, and every early return is a branch. Integers are words of their width;
  offsets and counts that stay far below 2 to the 64 are natural numbers, and each theory says where. Memory that
  is accessed through pointers is a finite map from addresses, and an access outside it is a fault. Lists linked
  by \<open>LIST_ENTRY\<close> are modelled pointer by pointer in \<open>LinkList\<close>; elsewhere they are lists of
  addresses, which the refinement proved there justifies. Pointers to functions (notification functions, drivers,
  the functions of a device) are parameters. The state of each layer extends the record of the layer below:
  \<open>exec\<close>, then \<open>mem\<close>, then \<open>hand\<close>; the variables extend \<open>exec\<close> directly.

  \<^bold>\<open>Fuel.\<close> A loop takes fuel when the code's loop may run for ever or when the recursion goes through
  notification functions. Statements about the safety of a state hold for every fuel. Where a property says what a
  service returns, it says so for all fuel above a bound that it names (the number of pending notifications, of
  timers, of records), so that returning is part of what is proved; where the code does not return, the property
  says that every fuel is too little.
\<close>

section \<open>Linked lists and checksums\<close>

text \<open>
  \<open>LinkList\<close> (\<open>INC/link.h\<close>): the macros on a memory of links. The locale \<open>list_store\<close> is the contract of
  a list store, with a queue and its draining loop as clients; \<open>link_h\<close> interprets it on the macros. C1 to C3.

  \<open>Crc32\<close> (\<open>crc/crc.c\<close>, \<open>LIB/crc.c\<close>): the table of the program, the loop over it and the sealing of table
  headers, against the bitwise definition of the CRC. C4 to C6.
\<close>

section \<open>Execution services\<close>

text \<open>
  \<open>ExecState\<close> holds the data of \<open>exec/exec.h\<close> and \<open>exec/execdata.c\<close>, and \<open>exec/tpl.c\<close> with the dispatch
  of \<open>exec/event.c\<close> and the locks of \<open>LIB/lock.c\<close>. \<open>Dispatch\<close> has the invariant of the queues and the
  locale \<open>notify_contract\<close>, what a notification function has to keep; \<open>DispatchOrder\<close> proves the order in which
  lowering the level runs the notifications (C7 to C9) and interprets the contract on functions that only observe.
  \<open>Event\<close> (\<open>exec/event.c\<close>) has creation, signalling, checking and waiting, C10 to C14. \<open>Timer\<close> and
  \<open>TimerProps\<close> (\<open>exec/timer.c\<close>, \<open>CloseEvent\<close>) keep the sorted list of timers, C15 to C17; their locale
  \<open>close_env\<close> is what closing an event asks of the two services it calls, and \<open>CloseServices\<close> interprets it on
  those of the handle database and the pool. \<open>Mtc\<close> (\<open>exec/mtc.c\<close>) is the monotonic counter, C18; \<open>MtcRestart\<close> runs it on the variable services
  of this development, over any number of starts of the system (C19). \<open>ExecSystem\<close> ties the knot: the core's own notification functions call the
  services that run them. Its steps are calls with any arguments that return; \<open>admissible\<close> says which of them keep the
  invariant, and every state that these reach has it (C20). The calls left out are those of C14 and closing an event above \<open>TPL_NOTIFY\<close>;
  a call like that of C13 does not return.
\<close>

section \<open>Memory services\<close>

text \<open>
  \<open>MemMap\<close> (\<open>mem/page.c\<close>) and \<open>Pool\<close> (\<open>mem/pool.c\<close>) take each other's operations as parameters;
  \<open>MemServices\<close> closes the recursion and adds the services. \<open>MapInv\<close> and \<open>MapOps\<close> relate the list of
  descriptors to the set of addresses it describes, \<open>FindPages\<close> the search to its specification (C21), \<open>PoolInv\<close> and
  \<open>PoolOps\<close> the free lists to the blocks in use (C22). \<open>MemInv\<close> has the invariant of both and the locale
  \<open>pool_contract\<close>, with the two operations of the pool that the map uses; \<open>ConvertInv\<close> proves the map correct
  inside it, and \<open>PoolContract\<close> that the pool keeps it at every depth of the mutual recursion, with the
  interpretation \<open>pool\<close>. \<open>MemSystem\<close> and \<open>MemProps\<close> carry this to histories of calls: memory is handed out
  exclusively as long as the calls are proper (\<open>proper_call\<close>: callers free and retype what they own, and pages are asked for
  neither as free memory nor 2 to the 52 and more at once, which C28 and the code allow), and each service does what it promises its
  caller (C23 to C28). \<open>PoolFree\<close> has the allocations and frees that return at once: from a free list, and of small blocks
  whose chunk stays in use (\<open>releasable\<close>). A free that empties a chunk changes the map of memory; it keeps the invariant, but
  whether it comes back depends on room for new descriptors that the code does not check, so that a property which says that a service
  returns asks for releasable buffers.
\<close>

section \<open>The handle database\<close>

text \<open>
  \<open>HandleDb\<close> and \<open>Protocols\<close> (\<open>hand/handle.c\<close>, \<open>hand/notify.c\<close>) and \<open>Locate\<close> (\<open>hand/locate.c\<close>) are the model.
  \<open>HandleInv\<close> is the invariant of the records; \<open>Levels\<close> says what a notification function may touch, by the
  level it runs at; \<open>HandleContract\<close> has the locale \<open>handle_env\<close>, the services of the boot services table as
  the database uses them, and interprets it on the pool, the events and any drivers that keep their part
  (\<open>hdb\<close>). \<open>HandleOps\<close>, \<open>InstallOps\<close> and \<open>HandleSystem\<close> prove inside it that every service keeps
  the database consistent, for C29. \<open>HandleQuiet\<close>, \<open>ProtocolMap\<close>, \<open>ProtocolRefine\<close> and
  \<open>ProtocolServices\<close> refine the services to a map from handles to protocols to interfaces (C34, C35); \<open>HandleOpen\<close>
  has the sharing policy of \<open>OpenProtocol\<close> and the end of \<open>CloseProtocol\<close> (C30, C31), \<open>HandleLocate\<close> and
  \<open>HandleNotify\<close> the searches (C32, C33). \<open>HandleFree\<close> takes the frees of \<open>PoolFree\<close> to the state of the
  database, so that C31, C35 and C38 hold of the services on the modelled pool. \<open>HandleSample\<close> and \<open>HandleFree\<close> have the small
  systems of the witnesses.
\<close>

section \<open>Device paths\<close>

text \<open>
  \<open>DevicePath\<close> (\<open>LIB/dpath.c\<close>) works on bytes; \<open>DevicePathProps\<close> relates them to lists of instances, each a list
  of nodes (C36, C37). \<open>DevicePathHandles\<close> has \<open>LocateDevicePath\<close> and the services on several
  interfaces, which compare device paths, and \<open>DevicePathLocate\<close> proves that the longest match is found (C38).
\<close>

section \<open>Variables\<close>

text \<open>
  \<open>VarStore\<close> (\<open>variable/ivar.h\<close>, \<open>variable/vario.c\<close>), \<open>VarGarbage\<close> (\<open>variable/vgarbage.c\<close> and the search),
  \<open>VarInit\<close> (\<open>variable/varinit.c\<close>) and \<open>VarServices\<close> (\<open>variable/varapi.c\<close>) are the model, down to the bytes of the
  banks. \<open>VarRecords\<close> shows that parsing sees the records that were written, \<open>VarRefine\<close> that a bank is a list
  of records and what the search finds in it, \<open>VarUpdate\<close> and \<open>VarSet\<close> what the writes change. The interface of a device
  is the locale \<open>variable_device\<close>, interpreted on the emulated device of \<open>variable/varstore.c\<close> in
  \<open>VarDevice\<close>. \<open>VarMap\<close> and \<open>VarProps\<close> prove that the services refine a map (C39), \<open>VarHang\<close> that a name that
  is too long makes the search run for ever (C40).
\<close>

section \<open>Not modelled\<close>

text \<open>
  Of the core: the image loader (\<open>loader/load.c\<close>, \<open>loader/pe.c\<close>), which relocates PE images in raw memory and jumps
  to them; the driver model on top of the handle database (\<open>hand/DriverSupport.c\<close>), whose services
  are parameters here; virtual address mode (\<open>mem/virt.c\<close> and the functions that convert the pointers of each
  component); initialisation (\<open>init/\<close>), which fills the tables of services; the record of loaded images for debuggers; the
  processor-specific code. Of the library: strings, formatted printing, GUID texts, the conversion of device paths to
  text, console and debug output. Drivers, the shell, the platform and the build tools are clients or hosts of the core. The
  EFI toolkit is ported third-party software (the C library, the TCP/IP stack, Python) and its glue.

  Debugging output and assertions have no effect in the modelled build. Time passes only through the timer
  tick. Notification functions, drivers and devices are arbitrary functions of the state, restricted by the contract
  that a property names.
\<close>

end
